(* ===== verification/Wf_Prelude.thy ===== *)
theory Wf_Prelude
  imports Complex_Main "HOL-Library.AList"
begin

text \<open>
  Shared vocabulary of the development: the types every component uses (keys, object ids,
  times, JSON values, errors), the error monad in which fallible code is written, the
  collection primitives that model the MongoDB driver calls of the source
  (\<open>find\<close>, \<open>updateOne\<close>, \<open>updateMany\<close> with their match counts), and the generic lemmas on
  lists and counts the component proofs rest on.
\<close>

section \<open>Types\<close>

text \<open>Task keys are strings, object ids are numbers handed out by a counter (an id stands for
  both the \<open>ObjectId\<close> and its \<open>String(...)\<close> form), and a time is a number of milliseconds
  since the epoch, as in \<open>Date\<close>.\<close>

type_synonym key = string
type_synonym oid = nat
type_synonym time = int

text \<open>Values of the schema type \<open>Mixed\<close>: what a JSON document or a stored \<open>Date\<close> can hold.
  Every finite JavaScript number is a rational; JSON carries no other.\<close>

datatype json =
    JNull
  | JBool bool
  | JNum rat
  | JStr string
  | JId oid
  | JDate time
  | JArr "json list"
  | JObj "(string \<times> json) list"

text \<open>Decimal notation, as a template literal prints an integer.\<close>

fun show_nat :: "nat \<Rightarrow> string" where
  "show_nat n = (if n < 10 then [char_of (48 + n)] else show_nat (n div 10) @ [char_of (48 + n mod 10)])"

declare show_nat.simps [simp del]

definition show_int :: "int \<Rightarrow> string" where
  "show_int i = (if i < 0 then ''-'' @ show_nat (nat (- i)) else show_nat (nat i))"

section \<open>Errors\<close>

text \<open>Every exception the modelled code raises or lets through. \<open>NullDereference\<close> is the
  \<open>TypeError\<close> of reading a property of \<open>null\<close> or \<open>undefined\<close>; \<open>DuplicateKey\<close> is MongoDB's
  error 11000 with the index it names.\<close>

datatype index_name =
    IxTaskKey | IxAttempt | IxApprovalTask | IxIdempotency | IxEmail | IxProcessedEvent

datatype error =
    InvalidTransition string string string
  | UnknownMachine string
  | ValidationError string
  | ConflictError string
  | NotFoundError string
  | UnauthorizedError string
  | ForbiddenError string
  | AppError nat string
  | DuplicateKey index_name
  | NullDereference
  | PlainError string

type_synonym 'a result = "error + 'a"

text \<open>Sequencing of fallible code: the first error ends the computation.\<close>

definition bind_result :: "'a result \<Rightarrow> ('a \<Rightarrow> 'b result) \<Rightarrow> 'b result" where
  "bind_result m f = (case m of Inl e \<Rightarrow> Inl e | Inr x \<Rightarrow> f x)"

lemma bind_result_simps [simp]:
  "bind_result (Inl e) f = Inl e"
  "bind_result (Inr x) f = f x"
  by (simp_all add: bind_result_def)

lemma bind_result_eq_Inr:
  "bind_result m f = Inr y \<longleftrightarrow> (\<exists>x. m = Inr x \<and> f x = Inr y)"
  by (cases m) simp_all

lemma bind_result_InrE:
  assumes "bind_result m f = Inr y"
  obtains x where "m = Inr x" "f x = Inr y"
  using assms by (auto simp: bind_result_eq_Inr)

lemma bind_result_eq_Inl:
  "bind_result m f = Inl e \<longleftrightarrow> m = Inl e \<or> (\<exists>x. m = Inr x \<and> f x = Inl e)"
  by (cases m) simp_all

section \<open>Collections\<close>

named_theorems coll_simps \<open>how filters, maps and counts move through collection updates\<close>

text \<open>A collection is the list of its documents in insertion order. \<open>update_where P f\<close> is
  \<open>updateMany\<close> with filter \<open>P\<close> and update \<open>f\<close>; it is also \<open>updateOne\<close> and
  \<open>findOneAndUpdate\<close> where the filter fixes a unique field (\<open>_id\<close>, or the fields of a unique
  index), since then at most one document matches. \<open>count_where P\<close> is the number of documents
  the filter matches.\<close>

definition update_where :: "('a \<Rightarrow> bool) \<Rightarrow> ('a \<Rightarrow> 'a) \<Rightarrow> 'a list \<Rightarrow> 'a list" where
  "update_where P f xs = map (\<lambda>x. if P x then f x else x) xs"

definition count_where :: "('a \<Rightarrow> bool) \<Rightarrow> 'a list \<Rightarrow> nat" where
  "count_where P xs = length (filter P xs)"

lemma update_where_Nil [simp]: "update_where P f [] = []"
  by (simp add: update_where_def)

lemma update_where_Cons [simp]:
  "update_where P f (x # xs) = (if P x then f x else x) # update_where P f xs"
  by (simp add: update_where_def)

lemma length_update_where [simp, coll_simps]: "length (update_where P f xs) = length xs"
  by (simp add: update_where_def)

lemma set_update_where [coll_simps]:
  "set (update_where P f xs) = (\<lambda>x. if P x then f x else x) ` set xs"
  by (simp add: update_where_def)

lemma update_where_False [simp]: "(\<And>x. x \<in> set xs \<Longrightarrow> \<not> P x) \<Longrightarrow> update_where P f xs = xs"
  by (induction xs) auto

text \<open>An update that leaves a projection alone leaves the projected list alone; a filter on
  such a projection commutes with the update.\<close>

lemma map_update_where [coll_simps]:
  "(\<And>x. x \<in> set xs \<Longrightarrow> P x \<Longrightarrow> g (f x) = g x) \<Longrightarrow> map g (update_where P f xs) = map g xs"
  by (induction xs) auto

lemma filter_update_where [coll_simps]:
  "(\<And>x. x \<in> set xs \<Longrightarrow> P x \<Longrightarrow> Q (f x) = Q x) \<Longrightarrow>
   filter Q (update_where P f xs) = update_where P f (filter Q xs)"
  by (induction xs) auto

lemma update_where_cong:
  "xs = ys \<Longrightarrow> (\<And>x. x \<in> set ys \<Longrightarrow> P x = Q x) \<Longrightarrow> (\<And>x. x \<in> set ys \<Longrightarrow> Q x \<Longrightarrow> f x = g x) \<Longrightarrow>
   update_where P f xs = update_where Q g ys"
  by (auto simp: update_where_def)

lemma update_where_in: "x \<in> set xs \<Longrightarrow> P x \<Longrightarrow> f x \<in> set (update_where P f xs)"
  by (force simp: set_update_where)

lemma update_where_out: "x \<in> set xs \<Longrightarrow> \<not> P x \<Longrightarrow> x \<in> set (update_where P f xs)"
  by (force simp: set_update_where)

lemma update_where_E:
  assumes "y \<in> set (update_where P f xs)"
  obtains x where "x \<in> set xs" "P x" "y = f x" | "y \<in> set xs" "\<not> P y"
  using assms by (auto simp: set_update_where split: if_splits)

lemma count_where_Nil [simp]: "count_where P [] = 0"
  by (simp add: count_where_def)

lemma count_where_Cons [simp]:
  "count_where P (x # xs) = (if P x then Suc (count_where P xs) else count_where P xs)"
  by (simp add: count_where_def)

lemma count_where_append [simp]: "count_where P (xs @ ys) = count_where P xs + count_where P ys"
  by (simp add: count_where_def)

lemma count_where_le_length: "count_where P xs \<le> length xs"
  by (simp add: count_where_def)

lemma count_where_eq_0_iff [simp]: "count_where P xs = 0 \<longleftrightarrow> (\<forall>x \<in> set xs. \<not> P x)"
  by (induction xs) auto

lemma count_where_pos_iff: "0 < count_where P xs \<longleftrightarrow> (\<exists>x \<in> set xs. P x)"
  by (induction xs) auto

lemma count_where_cong:
  "(\<And>x. x \<in> set xs \<Longrightarrow> P x = Q x) \<Longrightarrow> count_where P xs = count_where Q xs"
  by (induction xs) auto

lemma count_where_filter: "count_where P (filter Q xs) = count_where (\<lambda>x. Q x \<and> P x) xs"
  by (induction xs) auto

lemma count_where_mono:
  "(\<And>x. x \<in> set xs \<Longrightarrow> P x \<Longrightarrow> Q x) \<Longrightarrow> count_where P xs \<le> count_where Q xs"
  by (induction xs) (auto intro: le_SucI)

lemma count_where_update_same:
  "(\<And>x. x \<in> set xs \<Longrightarrow> P x \<Longrightarrow> Q (f x) = Q x) \<Longrightarrow>
   count_where Q (update_where P f xs) = count_where Q xs"
  by (induction xs) auto

text \<open>An update that turns every matched \<open>Q\<close> document into a non-\<open>Q\<close> document lowers the
  count of \<open>Q\<close> by the number of matches: the arithmetic behind every \<open>$inc\<close> of a counter.\<close>

lemma count_where_update_drop:
  assumes "\<And>x. x \<in> set xs \<Longrightarrow> P x \<Longrightarrow> Q x" "\<And>x. x \<in> set xs \<Longrightarrow> P x \<Longrightarrow> \<not> Q (f x)"
  shows "count_where Q (update_where P f xs) + count_where P xs = count_where Q xs"
  using assms by (induction xs) auto

text \<open>With unique identifiers a filter that fixes the identifier matches at most one
  document, so \<open>modifiedCount === 1\<close> says that it matched.\<close>

lemma count_where_unique:
  assumes "distinct (map g xs)" "\<And>x. x \<in> set xs \<Longrightarrow> P x \<Longrightarrow> g x = i"
  shows "count_where P xs = (if \<exists>x \<in> set xs. P x then 1 else 0)"
  using assms
proof (induction xs)
  case (Cons x xs)
  then have IH: "count_where P xs = (if \<exists>x \<in> set xs. P x then 1 else 0)" by simp
  have "\<not> (\<exists>y \<in> set xs. P y)" if "P x"
    using that Cons.prems by (metis distinct.simps(2) imageI list.set_intros list.set_map list.simps(9))
  with IH show ?case by auto
qed simp

lemma distinct_map_eqD:
  "distinct (map g xs) \<Longrightarrow> x \<in> set xs \<Longrightarrow> y \<in> set xs \<Longrightarrow> g x = g y \<Longrightarrow> x = y"
  by (auto simp: distinct_map inj_on_def)

lemma find_filter_Some: "List.find P xs = Some x \<Longrightarrow> x \<in> set xs \<and> P x"
  by (auto simp: find_Some_iff)

lemma find_unique:
  assumes "distinct (map g xs)" "x \<in> set xs" "g x = i" "P x"
  shows "List.find (\<lambda>y. g y = i \<and> P y) xs = Some x"
  using assms
proof (induction xs)
  case (Cons y ys)
  then show ?case by (auto dest: distinct_map_eqD[of g "y # ys" x y])
qed simp

lemma find_None_iff_all: "List.find P xs = None \<longleftrightarrow> (\<forall>x \<in> set xs. \<not> P x)"
  by (auto simp: find_None_iff)

section \<open>Counting over lists\<close>

lemma count_list_concat_map:
  "count_list (concat (map f xs)) a = sum_list (map (\<lambda>x. count_list (f x) a) xs)"
  by (induction xs) simp_all

lemma sum_list_indicator:
  "sum_list (map (\<lambda>x. if P x then 1 else 0) xs) = count_where P xs"
  by (induction xs) simp_all

lemma count_list_distinct: "distinct xs \<Longrightarrow> count_list xs a = (if a \<in> set xs then 1 else 0)"
  by (induction xs) auto

text \<open>On duplicate-free lists counting is cardinality.\<close>

lemma count_where_card: "distinct xs \<Longrightarrow> count_where P xs = card {x \<in> set xs. P x}"
  by (simp add: count_where_def distinct_card[symmetric])

lemma in_concat_nth: "k \<in> set (concat ls) \<longleftrightarrow> (\<exists>i < length ls. k \<in> set (ls ! i))"
  by (metis (no_types, lifting) UN_iff in_set_conv_nth set_concat)

lemma in_concat_take:
  "i \<le> length ls \<Longrightarrow> k \<in> set (concat (take i ls)) \<longleftrightarrow> (\<exists>j < i. k \<in> set (ls ! j))"
  unfolding in_concat_nth by auto

section \<open>Association lists\<close>

text \<open>JavaScript's \<open>Map\<close> is an association list in insertion order; \<open>Map.set\<close> is
  \<open>AList.update\<close> and \<open>Map.get\<close> is \<open>map_of\<close>.\<close>

lemma map_of_update [simp]: "map_of (AList.update k v al) = (map_of al)(k \<mapsto> v)"
  by (rule update_conv')

text \<open>How many entries are positive, after one entry was lowered.\<close>

definition positive_entries :: "('k \<times> int) list \<Rightarrow> nat" where
  "positive_entries al = count_where (\<lambda>(k, v). 0 < v) al"

lemma positive_entries_update:
  assumes "map_of al k = Some v" "w \<le> v"
  shows "positive_entries (AList.update k w al) + (if 0 < v \<and> w \<le> 0 then 1 else 0)
         \<le> positive_entries al"
  using assms unfolding positive_entries_def
  by (induction al) (auto split: if_splits)

end
