(* ===== verification/Wf_States.thy ===== *)
theory Wf_States
  imports Wf_Prelude
begin

text \<open>
  The state machines of \<open>src/workflow/states.js\<close>: the two status enumerations, the two
  transition tables, and \<open>canTransition\<close>, \<open>assertTransition\<close>, \<open>isTerminal\<close>. The tables are
  functions on the enumerations; the exported functions work on names, as in the source, where
  an unknown machine raises and an unknown status has no transition.
\<close>

section \<open>Statuses\<close>

datatype execution_status =
    E_PENDING | E_RUNNING | E_PAUSED | E_WAITING_FOR_APPROVAL | E_COMPLETED | E_FAILED | E_CANCELLED

datatype task_status =
    T_PENDING | T_READY | T_QUEUED | T_RUNNING | T_RETRYING | T_WAITING_FOR_APPROVAL
  | T_COMPLETED | T_FAILED | T_DEAD_LETTER | T_CANCELLED

definition all_execution_status :: "execution_status list" where
  "all_execution_status =
     [E_PENDING, E_RUNNING, E_PAUSED, E_WAITING_FOR_APPROVAL, E_COMPLETED, E_FAILED, E_CANCELLED]"

definition all_task_status :: "task_status list" where
  "all_task_status =
     [T_PENDING, T_READY, T_QUEUED, T_RUNNING, T_RETRYING, T_WAITING_FOR_APPROVAL,
      T_COMPLETED, T_FAILED, T_DEAD_LETTER, T_CANCELLED]"

lemma set_all_execution_status [simp]: "set all_execution_status = UNIV"
  using execution_status.exhaust by (auto simp: all_execution_status_def)

lemma set_all_task_status [simp]: "set all_task_status = UNIV"
  using task_status.exhaust by (auto simp: all_task_status_def)

lemma all_task_status_iff: "(\<forall>s. P s) \<longleftrightarrow> list_all P all_task_status"
  by (simp add: list_all_iff)

lemma all_execution_status_iff: "(\<forall>s. P s) \<longleftrightarrow> list_all P all_execution_status"
  by (simp add: list_all_iff)

fun execution_name :: "execution_status \<Rightarrow> string" where
  "execution_name E_PENDING = ''PENDING''"
| "execution_name E_RUNNING = ''RUNNING''"
| "execution_name E_PAUSED = ''PAUSED''"
| "execution_name E_WAITING_FOR_APPROVAL = ''WAITING_FOR_APPROVAL''"
| "execution_name E_COMPLETED = ''COMPLETED''"
| "execution_name E_FAILED = ''FAILED''"
| "execution_name E_CANCELLED = ''CANCELLED''"

fun task_name :: "task_status \<Rightarrow> string" where
  "task_name T_PENDING = ''PENDING''"
| "task_name T_READY = ''READY''"
| "task_name T_QUEUED = ''QUEUED''"
| "task_name T_RUNNING = ''RUNNING''"
| "task_name T_RETRYING = ''RETRYING''"
| "task_name T_WAITING_FOR_APPROVAL = ''WAITING_FOR_APPROVAL''"
| "task_name T_COMPLETED = ''COMPLETED''"
| "task_name T_FAILED = ''FAILED''"
| "task_name T_DEAD_LETTER = ''DEAD_LETTER''"
| "task_name T_CANCELLED = ''CANCELLED''"

section \<open>Transition tables\<close>

fun EXECUTION_TRANSITIONS :: "execution_status \<Rightarrow> execution_status list" where
  "EXECUTION_TRANSITIONS E_PENDING = [E_RUNNING, E_CANCELLED]"
| "EXECUTION_TRANSITIONS E_RUNNING =
     [E_PAUSED, E_WAITING_FOR_APPROVAL, E_COMPLETED, E_FAILED, E_CANCELLED]"
| "EXECUTION_TRANSITIONS E_PAUSED = [E_RUNNING, E_FAILED, E_CANCELLED]"
| "EXECUTION_TRANSITIONS E_WAITING_FOR_APPROVAL = [E_RUNNING, E_FAILED, E_CANCELLED]"
| "EXECUTION_TRANSITIONS E_COMPLETED = []"
| "EXECUTION_TRANSITIONS E_FAILED = []"
| "EXECUTION_TRANSITIONS E_CANCELLED = []"

fun TASK_TRANSITIONS :: "task_status \<Rightarrow> task_status list" where
  "TASK_TRANSITIONS T_PENDING = [T_READY, T_CANCELLED]"
| "TASK_TRANSITIONS T_READY = [T_QUEUED, T_CANCELLED]"
| "TASK_TRANSITIONS T_QUEUED = [T_RUNNING, T_READY, T_CANCELLED]"
| "TASK_TRANSITIONS T_RUNNING =
     [T_COMPLETED, T_FAILED, T_RETRYING, T_WAITING_FOR_APPROVAL, T_QUEUED, T_CANCELLED]"
| "TASK_TRANSITIONS T_RETRYING = [T_QUEUED, T_CANCELLED]"
| "TASK_TRANSITIONS T_WAITING_FOR_APPROVAL = [T_COMPLETED, T_FAILED, T_CANCELLED]"
| "TASK_TRANSITIONS T_FAILED = [T_DEAD_LETTER]"
| "TASK_TRANSITIONS T_COMPLETED = []"
| "TASK_TRANSITIONS T_DEAD_LETTER = []"
| "TASK_TRANSITIONS T_CANCELLED = []"

text \<open>\<open>MACHINES[machine][from]\<close>: \<open>None\<close> for an unknown machine, \<open>Some None\<close> for an unknown
  status of a known one.\<close>

definition machine_row :: "string \<Rightarrow> string \<Rightarrow> string list option option" where
  "machine_row machine from =
     (if machine = ''execution'' then
        Some (map_of (map (\<lambda>s. (execution_name s, map execution_name (EXECUTION_TRANSITIONS s)))
                        all_execution_status) from)
      else if machine = ''task'' then
        Some (map_of (map (\<lambda>s. (task_name s, map task_name (TASK_TRANSITIONS s)))
                        all_task_status) from)
      else None)"

definition canTransition :: "string \<Rightarrow> string \<Rightarrow> string \<Rightarrow> bool result" where
  "canTransition machine from to =
     (case machine_row machine from of
        None \<Rightarrow> Inl (UnknownMachine machine)
      | Some None \<Rightarrow> Inr False
      | Some (Some row) \<Rightarrow> Inr (to \<in> set row))"

definition assertTransition :: "string \<Rightarrow> string \<Rightarrow> string \<Rightarrow> unit result" where
  "assertTransition machine from to =
     bind_result (canTransition machine from to)
       (\<lambda>ok. if ok then Inr () else Inl (InvalidTransition machine from to))"

text \<open>\<open>MACHINES[machine][status]?.length === 0\<close>: an unknown machine is a read of a property of
  \<open>undefined\<close>, an unknown status compares \<open>undefined\<close> with \<open>0\<close>.\<close>

definition isTerminal :: "string \<Rightarrow> string \<Rightarrow> bool result" where
  "isTerminal machine status =
     (case machine_row machine status of
        None \<Rightarrow> Inl NullDereference
      | Some None \<Rightarrow> Inr False
      | Some (Some row) \<Rightarrow> Inr (row = []))"

text \<open>The two groups of task statuses the engine's updates name: fail-fast cancels what has not
  started, cancellation everything unfinished (the \<open>$in\<close> lists of \<open>src/workflow/engine.js\<close>).\<close>

definition unstarted :: "task_status \<Rightarrow> bool" where
  "unstarted s \<longleftrightarrow> s \<in> {T_PENDING, T_READY, T_QUEUED, T_RETRYING}"

definition unfinished :: "task_status \<Rightarrow> bool" where
  "unfinished s \<longleftrightarrow>
     s \<in> {T_PENDING, T_READY, T_QUEUED, T_RETRYING, T_RUNNING, T_WAITING_FOR_APPROVAL}"

lemma status_groups [simp]:
  "unfinished T_PENDING" "unfinished T_READY" "unfinished T_QUEUED" "unfinished T_RETRYING"
  "unfinished T_RUNNING" "unfinished T_WAITING_FOR_APPROVAL" "\<not> unfinished T_COMPLETED"
  "\<not> unfinished T_FAILED" "\<not> unfinished T_DEAD_LETTER" "\<not> unfinished T_CANCELLED"
  "unstarted T_PENDING" "unstarted T_READY" "unstarted T_QUEUED" "unstarted T_RETRYING"
  "\<not> unstarted T_RUNNING" "\<not> unstarted T_WAITING_FOR_APPROVAL" "\<not> unstarted T_COMPLETED"
  "\<not> unstarted T_FAILED" "\<not> unstarted T_DEAD_LETTER" "\<not> unstarted T_CANCELLED"
  by (simp_all add: unfinished_def unstarted_def)

lemma unstarted_unfinished: "unstarted s \<Longrightarrow> unfinished s"
  by (cases s) simp_all

text \<open>The checks the engine makes on its own statuses.\<close>

abbreviation assert_task :: "task_status \<Rightarrow> task_status \<Rightarrow> unit result" where
  "assert_task from to \<equiv> assertTransition ''task'' (task_name from) (task_name to)"

abbreviation assert_execution :: "execution_status \<Rightarrow> execution_status \<Rightarrow> unit result" where
  "assert_execution from to \<equiv>
     assertTransition ''execution'' (execution_name from) (execution_name to)"

section \<open>The names say the same as the tables\<close>

lemma inj_task_name: "task_name s = task_name t \<longleftrightarrow> s = t"
  by (cases s; cases t) simp_all

lemma inj_execution_name: "execution_name s = execution_name t \<longleftrightarrow> s = t"
  by (cases s; cases t) simp_all

lemma machine_row_task [simp]:
  "machine_row ''task'' (task_name s) = Some (Some (map task_name (TASK_TRANSITIONS s)))"
  by (cases s) (simp_all add: machine_row_def all_task_status_def)

lemma machine_row_execution [simp]:
  "machine_row ''execution'' (execution_name s) =
     Some (Some (map execution_name (EXECUTION_TRANSITIONS s)))"
  by (cases s) (simp_all add: machine_row_def all_execution_status_def)

lemma canTransition_task [simp]:
  "canTransition ''task'' (task_name s) (task_name t) = Inr (t \<in> set (TASK_TRANSITIONS s))"
  by (auto simp: canTransition_def inj_task_name)

lemma canTransition_execution [simp]:
  "canTransition ''execution'' (execution_name s) (execution_name t) =
     Inr (t \<in> set (EXECUTION_TRANSITIONS s))"
  by (auto simp: canTransition_def inj_execution_name)

lemma assert_task_eq [simp]:
  "assert_task s t =
     (if t \<in> set (TASK_TRANSITIONS s) then Inr ()
      else Inl (InvalidTransition ''task'' (task_name s) (task_name t)))"
  by (simp add: assertTransition_def)

lemma assert_execution_eq [simp]:
  "assert_execution s t =
     (if t \<in> set (EXECUTION_TRANSITIONS s) then Inr ()
      else Inl (InvalidTransition ''execution'' (execution_name s) (execution_name t)))"
  by (simp add: assertTransition_def)

text \<open>No status is its own successor: a won compare-and-set always changes the status, so
  \<open>modifiedCount\<close> is the number of matches.\<close>

lemma no_self_transition:
  "s \<notin> set (TASK_TRANSITIONS s)" "e \<notin> set (EXECUTION_TRANSITIONS e)"
  by (cases s; simp) (cases e; simp)

section \<open>Paths through the tables\<close>

definition task_next :: "task_status \<Rightarrow> task_status \<Rightarrow> bool" where
  "task_next s t \<longleftrightarrow> t \<in> set (TASK_TRANSITIONS s)"

definition execution_next :: "execution_status \<Rightarrow> execution_status \<Rightarrow> bool" where
  "execution_next s t \<longleftrightarrow> t \<in> set (EXECUTION_TRANSITIONS s)"

abbreviation task_path :: "task_status \<Rightarrow> task_status \<Rightarrow> bool" where
  "task_path \<equiv> task_next\<^sup>*\<^sup>*"

abbreviation execution_path :: "execution_status \<Rightarrow> execution_status \<Rightarrow> bool" where
  "execution_path \<equiv> execution_next\<^sup>*\<^sup>*"

lemma task_next_steps [intro]:
  "task_next T_PENDING T_READY" "task_next T_READY T_QUEUED" "task_next T_QUEUED T_RUNNING"
  "task_next T_RUNNING T_COMPLETED" "task_next T_RUNNING T_FAILED" "task_next T_RUNNING T_RETRYING"
  "task_next T_RUNNING T_WAITING_FOR_APPROVAL" "task_next T_RUNNING T_QUEUED"
  "task_next T_RETRYING T_QUEUED" "task_next T_FAILED T_DEAD_LETTER"
  "task_next T_WAITING_FOR_APPROVAL T_COMPLETED" "task_next T_WAITING_FOR_APPROVAL T_FAILED"
  "task_next T_PENDING T_CANCELLED"
  by (simp_all add: task_next_def)

lemma task_terminal_stays:
  assumes "task_path s t" "TASK_TRANSITIONS s = []" shows "t = s"
  using assms(1) by (rule converse_rtranclpE) (use assms(2) in \<open>simp_all add: task_next_def\<close>)

lemma execution_terminal_stays:
  assumes "execution_path s t" "EXECUTION_TRANSITIONS s = []" shows "t = s"
  using assms(1) by (rule converse_rtranclpE) (use assms(2) in \<open>simp_all add: execution_next_def\<close>)

lemma task_path_to_completed:
  assumes "s \<notin> {T_FAILED, T_DEAD_LETTER, T_CANCELLED}" shows "task_path s T_COMPLETED"
proof -
  have run: "task_path T_RUNNING T_COMPLETED" by blast
  have queued: "task_path T_QUEUED T_COMPLETED"
    by (rule converse_rtranclp_into_rtranclp[OF task_next_steps(3) run])
  have ready: "task_path T_READY T_COMPLETED"
    by (rule converse_rtranclp_into_rtranclp[OF task_next_steps(2) queued])
  have pending: "task_path T_PENDING T_COMPLETED"
    by (rule converse_rtranclp_into_rtranclp[OF task_next_steps(1) ready])
  have retrying: "task_path T_RETRYING T_COMPLETED"
    by (rule converse_rtranclp_into_rtranclp[OF task_next_steps(9) queued])
  show ?thesis using assms run queued ready pending retrying by (cases s) auto
qed

lemma task_path_from_pending: "task_path T_PENDING s"
proof -
  have queued: "task_path T_PENDING T_QUEUED"
    by (meson r_into_rtranclp rtranclp_trans task_next_steps)
  then have running: "task_path T_PENDING T_RUNNING"
    by (meson rtranclp.rtrancl_into_rtrancl task_next_steps)
  then have failed: "task_path T_PENDING T_FAILED"
    by (meson rtranclp.rtrancl_into_rtrancl task_next_steps)
  show ?thesis
    using queued running failed
    by (cases s) (meson r_into_rtranclp rtranclp.rtrancl_into_rtrancl rtranclp.rtrancl_refl task_next_steps)+
qed

section \<open>Properties\<close>

text \<open>The task machine of \<open>states.js\<close>. \<open>isTerminal\<close> holds of exactly COMPLETED,
  DEAD_LETTER and CANCELLED; from a terminal status no path of the table leads anywhere else;
  every status is reachable from PENDING; and every status except FAILED, DEAD_LETTER and
  CANCELLED still has a path to COMPLETED.\<close>

theorem task_machine_correct:
  "(isTerminal ''task'' (task_name s) = Inr True \<longleftrightarrow> s \<in> {T_COMPLETED, T_DEAD_LETTER, T_CANCELLED})
   \<and> (isTerminal ''task'' (task_name s) = Inr True \<longrightarrow> (\<forall>t. task_path s t \<longrightarrow> t = s))
   \<and> task_path T_PENDING s
   \<and> (task_path s T_COMPLETED \<longleftrightarrow> s \<notin> {T_FAILED, T_DEAD_LETTER, T_CANCELLED})"
proof -
  have terminal_iff: "isTerminal ''task'' (task_name s) = Inr True \<longleftrightarrow> TASK_TRANSITIONS s = []"
    by (simp add: isTerminal_def)
  have failed: "\<not> task_path T_FAILED T_COMPLETED"
  proof
    assume "task_path T_FAILED T_COMPLETED"
    then show False
      by (rule converse_rtranclpE)
        (auto simp: task_next_def dest: task_terminal_stays)
  qed
  have ends: "\<not> task_path T_DEAD_LETTER T_COMPLETED" "\<not> task_path T_CANCELLED T_COMPLETED"
    by (auto dest: task_terminal_stays)
  have "task_path s T_COMPLETED \<longleftrightarrow> s \<notin> {T_FAILED, T_DEAD_LETTER, T_CANCELLED}"
    using task_path_to_completed[of s] failed ends by (cases s) simp_all
  moreover have "TASK_TRANSITIONS s = [] \<longleftrightarrow> s \<in> {T_COMPLETED, T_DEAD_LETTER, T_CANCELLED}"
    by (cases s) simp_all
  ultimately show ?thesis
    using terminal_iff task_path_from_pending[of s] task_terminal_stays[of s] by blast
qed

theorem task_machine_correct_witness:
  "isTerminal ''task'' (task_name T_COMPLETED) = Inr True
   \<and> \<not> task_path T_COMPLETED T_READY"
  using task_machine_correct[of T_COMPLETED] by blast

text \<open>Error paths of \<open>canTransition\<close>, \<open>assertTransition\<close> and \<open>isTerminal\<close>. A machine other
  than \<open>execution\<close> and \<open>task\<close> raises in all three; on a known machine an unknown source status
  has no transition and is not terminal, so \<open>assertTransition\<close> raises InvalidTransitionError;
  and \<open>assertTransition\<close> passes exactly where \<open>canTransition\<close> answers true.\<close>

theorem transition_errors:
  "(machine \<notin> {''execution'', ''task''} \<longrightarrow>
      canTransition machine from to = Inl (UnknownMachine machine)
      \<and> assertTransition machine from to = Inl (UnknownMachine machine)
      \<and> isTerminal machine from = Inl NullDereference)
   \<and> (from \<notin> range task_name \<longrightarrow>
      canTransition ''task'' from to = Inr False
      \<and> assertTransition ''task'' from to = Inl (InvalidTransition ''task'' from to)
      \<and> isTerminal ''task'' from = Inr False)
   \<and> (assertTransition machine from to = Inr () \<longleftrightarrow> canTransition machine from to = Inr True)"
proof -
  have "machine_row ''task'' from = Some None" if "from \<notin> range task_name"
    using that by (auto simp: machine_row_def map_of_eq_None_iff)
  then have "from \<notin> range task_name \<longrightarrow>
      canTransition ''task'' from to = Inr False
      \<and> assertTransition ''task'' from to = Inl (InvalidTransition ''task'' from to)
      \<and> isTerminal ''task'' from = Inr False"
    by (simp add: canTransition_def assertTransition_def isTerminal_def)
  moreover have "assertTransition machine from to = Inr () \<longleftrightarrow> canTransition machine from to = Inr True"
    by (cases "canTransition machine from to") (auto simp: assertTransition_def)
  ultimately show ?thesis
    by (simp add: canTransition_def assertTransition_def isTerminal_def machine_row_def)
qed

theorem transition_errors_witness:
  "''job'' \<notin> {''execution'', ''task''}
   \<and> canTransition ''job'' ''READY'' ''QUEUED'' = Inl (UnknownMachine ''job'')
   \<and> ''LOST'' \<notin> range task_name
   \<and> canTransition ''task'' ''LOST'' ''READY'' = Inr False"
proof -
  have lost: "''LOST'' \<notin> range task_name"
  proof
    assume "''LOST'' \<in> range task_name"
    then obtain s where "''LOST'' = task_name s" by blast
    then show False by (cases s) simp_all
  qed
  show ?thesis
    using transition_errors[of "''job''" "''READY''" "''QUEUED''"]
      transition_errors[of "''task''" "''LOST''" "''READY''"] lost by simp
qed

end
