(* ===== verification/Wf_Dag.thy ===== *)
theory Wf_Dag
  imports Wf_Prelude
begin

text \<open>
  Graph validation of workflow definitions, \<open>src/workflow/dag.js\<close>: the structural checks of
  \<open>validateDag\<close>, Kahn's algorithm (\<open>kahn\<close>) with its waves, and the three-colour depth-first
  search (\<open>findCycle\<close>). JavaScript maps are association lists in insertion order. The wave loop
  is a \<^theory_text>\<open>function\<close> whose termination holds for every input; the recursion depth of the
  search is a bound of the model, and reaching it is an error value that is proved unreachable.
\<close>

section \<open>Definitions\<close>

text \<open>What the graph algorithms read of a task definition; \<open>dependsOn\<close> may be absent.\<close>

record dag_task =
  d_key :: key
  d_dependsOn :: "key list option"

definition deps :: "'a dag_task_scheme \<Rightarrow> key list" where
  "deps t = (case d_dependsOn t of None \<Rightarrow> [] | Some ds \<Rightarrow> ds)"

datatype dag_error =
    DUPLICATE_KEY key
  | SELF_DEPENDENCY key
  | UNKNOWN_DEPENDENCY key key
  | DUPLICATE_DEPENDENCY key key
  | CYCLE "key list"

record dag_result =
  valid :: bool
  errors :: "dag_error list"
  order :: "key list"
  levels :: "key list list"

subsection \<open>Structural checks\<close>

text \<open>First loop: \<open>seen\<close> grows as the tasks are scanned.\<close>

fun duplicate_keys :: "key set \<Rightarrow> 'a dag_task_scheme list \<Rightarrow> dag_error list" where
  "duplicate_keys seen [] = []"
| "duplicate_keys seen (t # ts) =
     (if d_key t \<in> seen then [DUPLICATE_KEY (d_key t)] else [])
     @ duplicate_keys (insert (d_key t) seen) ts"

text \<open>Second loop, one task: self and unknown dependencies exclude each other, a repeated
  dependency is reported besides.\<close>

fun dependency_errors :: "key set \<Rightarrow> key \<Rightarrow> key set \<Rightarrow> key list \<Rightarrow> dag_error list" where
  "dependency_errors seen k counted [] = []"
| "dependency_errors seen k counted (d # ds) =
     (if d = k then [SELF_DEPENDENCY k]
      else if d \<notin> seen then [UNKNOWN_DEPENDENCY k d] else [])
     @ (if d \<in> counted then [DUPLICATE_DEPENDENCY k d] else [])
     @ dependency_errors seen k (insert d counted) ds"

definition structural_errors :: "'a dag_task_scheme list \<Rightarrow> dag_error list" where
  "structural_errors ts =
     duplicate_keys {} ts
     @ concat (map (\<lambda>t. dependency_errors (d_key ` set ts) (d_key t) {} (deps t)) ts)"

subsection \<open>Kahn's algorithm\<close>

text \<open>\<open>new Map(...)\<close> over a list of entries: a later entry replaces an earlier one.\<close>

definition js_map :: "('k \<times> 'v) list \<Rightarrow> ('k \<times> 'v) list" where
  "js_map kvs = fold (\<lambda>(k, v). AList.update k v) kvs []"

definition in_degrees :: "'a dag_task_scheme list \<Rightarrow> (key \<times> int) list" where
  "in_degrees ts = js_map (map (\<lambda>t. (d_key t, int (length (deps t)))) ts)"

definition edges :: "'a dag_task_scheme list \<Rightarrow> (key \<times> key) list" where
  "edges ts = concat (map (\<lambda>t. map (\<lambda>d. (d, d_key t)) (deps t)) ts)"

text \<open>\<open>children.get(dep).push(task.key)\<close>: an unknown dependency is a read of \<open>undefined\<close>.\<close>

fun push_children :: "(key \<times> key) list \<Rightarrow> (key \<times> key list) list \<Rightarrow> (key \<times> key list) list result" where
  "push_children [] ch = Inr ch"
| "push_children ((d, k) # es) ch =
     (case map_of ch d of
        None \<Rightarrow> Inl NullDereference
      | Some cs \<Rightarrow> push_children es (AList.update d (cs @ [k]) ch))"

definition children_map :: "'a dag_task_scheme list \<Rightarrow> (key \<times> key list) list result" where
  "children_map ts = push_children (edges ts) (js_map (map (\<lambda>t. (d_key t, [])) ts))"

text \<open>One child of a completed task: decrement its in-degree, and put it into the next wave
  when it reaches zero. (A key without an in-degree would turn into \<open>NaN\<close>, which is never zero.)\<close>

definition relax_child :: "key \<Rightarrow> (key \<times> int) list \<times> key list \<Rightarrow> (key \<times> int) list \<times> key list" where
  "relax_child child s =
     (case map_of (fst s) child of
        None \<Rightarrow> s
      | Some v \<Rightarrow> (AList.update child (v - 1) (fst s),
                   if v - 1 = 0 then snd s @ [child] else snd s))"

definition relax :: "key list \<Rightarrow> (key \<times> int) list \<Rightarrow> (key \<times> int) list \<times> key list" where
  "relax cs inDegree = fold relax_child cs (inDegree, [])"

text \<open>The children of a whole wave, in order; \<open>None\<close> where \<open>children.get(key)\<close> is undefined.\<close>

definition wave_children :: "(key \<times> key list) list \<Rightarrow> key list \<Rightarrow> key list option" where
  "wave_children ch wave = map_option concat (those (map (map_of ch) wave))"

lemma relax_child_positive:
  "positive_entries (fst (relax_child c s)) + length (snd (relax_child c s))
   \<le> positive_entries (fst s) + length (snd s)"
proof (cases "map_of (fst s) c")
  case (Some v)
  have "v - 1 = 0 \<Longrightarrow> v = 1" by simp
  with Some show ?thesis
    using positive_entries_update[OF Some, of "v - 1"] by (cases "v = 1") (auto simp: relax_child_def)
qed (simp add: relax_child_def)

lemma relax_positive:
  "positive_entries (fst (relax cs m)) + length (snd (relax cs m)) \<le> positive_entries m"
proof -
  have "positive_entries (fst (fold relax_child cs s)) + length (snd (fold relax_child cs s))
        \<le> positive_entries (fst s) + length (snd s)" for s
  proof (induction cs arbitrary: s)
    case (Cons c cs)
    show ?case using Cons.IH[of "relax_child c s"] relax_child_positive[of c s] by simp
  qed simp
  from this[of "(m, [])"] show ?thesis by (simp add: relax_def)
qed

text \<open>The wave loop. Every key that enters a wave after the first had a positive in-degree that
  became zero, so the loop ends for every map of in-degrees and children.\<close>

function kahn_loop :: "(key \<times> key list) list \<Rightarrow> (key \<times> int) list \<Rightarrow> key list \<Rightarrow> key list list \<Rightarrow> key list
    \<Rightarrow> (key list \<times> key list list) result" where
  "kahn_loop ch inDegree wave lvls ord =
     (if wave = [] then Inr (ord, lvls)
      else case wave_children ch wave of
             None \<Rightarrow> Inl NullDereference
           | Some cs \<Rightarrow>
               kahn_loop ch (fst (relax cs inDegree)) (snd (relax cs inDegree))
                 (lvls @ [wave]) (ord @ wave))"
  by pat_completeness auto
termination
proof (relation "measure (\<lambda>(ch, m, wave, lvls, ord). positive_entries m + (if wave = [] then 0 else 1))",
    goal_cases)
  case (2 ch m wave lvls ord cs)
  then show ?case
    using relax_positive[of cs m] by (cases "snd (relax cs m)") simp_all
qed simp

declare kahn_loop.simps [simp del]

definition first_wave :: "'a dag_task_scheme list \<Rightarrow> key list" where
  "first_wave ts = map d_key (filter (\<lambda>t. map_of (in_degrees ts) (d_key t) = Some 0) ts)"

definition kahn :: "'a dag_task_scheme list \<Rightarrow> (key list \<times> key list list \<times> key list) result" where
  "kahn ts =
     bind_result (children_map ts) (\<lambda>ch.
     bind_result (kahn_loop ch (in_degrees ts) (first_wave ts) [] []) (\<lambda>(ord, lvls).
       Inr (ord, lvls, filter (\<lambda>k. k \<notin> set ord) (map d_key ts))))"

subsection \<open>Depth-first search for one cycle\<close>

datatype colour = WHITE | GREY | BLACK

type_synonym colours = "(key \<times> colour) list"

text \<open>\<open>visit\<close> and its loop over the dependencies. The first argument maps keys to dependencies,
  the second bounds the call depth (\<open>None\<close>: depth exceeded); the state is the colour map and the
  current path. A result \<open>Some c\<close> is a cycle, passed up unchanged by every caller.\<close>

fun visit :: "(key \<times> key list) list \<Rightarrow> nat \<Rightarrow> key \<Rightarrow> colours \<times> key list
    \<Rightarrow> (key list option \<times> colours \<times> key list) option"
and visit_deps :: "(key \<times> key list) list \<Rightarrow> nat \<Rightarrow> key list \<Rightarrow> colours \<times> key list
    \<Rightarrow> (key list option \<times> colours \<times> key list) option" where
  "visit dm 0 k s = None"
| "visit dm (Suc n) k (col, path) =
     (case visit_deps dm n (case map_of dm k of None \<Rightarrow> [] | Some ds \<Rightarrow> ds)
             (AList.update k GREY col, path @ [k]) of
        None \<Rightarrow> None
      | Some (Some c, s) \<Rightarrow> Some (Some c, s)
      | Some (None, (col', path')) \<Rightarrow> Some (None, (AList.update k BLACK col', butlast path')))"
| "visit_deps dm n [] s = Some (None, s)"
| "visit_deps dm n (d # ds) (col, path) =
     (if map_of col d = Some GREY then
        Some (Some (dropWhile (\<lambda>x. x \<noteq> d) path @ [d]), (col, path))
      else if map_of col d = Some WHITE then
        (case visit dm n d (col, path) of
           None \<Rightarrow> None
         | Some (Some c, s) \<Rightarrow> Some (Some c, s)
         | Some (None, s) \<Rightarrow> visit_deps dm n ds s)
      else visit_deps dm n ds (col, path))"

fun visit_candidates :: "(key \<times> key list) list \<Rightarrow> nat \<Rightarrow> key list \<Rightarrow> colours \<times> key list
    \<Rightarrow> key list option option" where
  "visit_candidates dm n [] s = Some None"
| "visit_candidates dm n (k # ks) s =
     (if map_of (fst s) k = Some WHITE then
        (case visit dm n k s of
           None \<Rightarrow> None
         | Some (Some c, _) \<Rightarrow> Some (Some (rev c))
         | Some (None, s') \<Rightarrow> visit_candidates dm n ks s')
      else visit_candidates dm n ks s)"

text \<open>\<open>findCycle\<close>: the depth bound is the number of tasks, as the comment of the source says.\<close>

definition findCycle :: "'a dag_task_scheme list \<Rightarrow> key list \<Rightarrow> key list result" where
  "findCycle ts candidates =
     (case visit_candidates (js_map (map (\<lambda>t. (d_key t, deps t)) ts)) (length ts) candidates
             (js_map (map (\<lambda>t. (d_key t, WHITE)) ts), []) of
        None \<Rightarrow> Inl (PlainError ''Maximum call stack size exceeded'')
      | Some None \<Rightarrow> Inr candidates
      | Some (Some c) \<Rightarrow> Inr c)"

subsection \<open>validateDag\<close>

definition validateDag :: "'a dag_task_scheme list \<Rightarrow> dag_result result" where
  "validateDag ts =
     (let errs = structural_errors ts in
      if errs \<noteq> [] then Inr \<lparr>valid = False, errors = errs, order = [], levels = []\<rparr>
      else bind_result (kahn ts) (\<lambda>(ord, lvls, unprocessed).
        if unprocessed \<noteq> [] then
          bind_result (findCycle ts unprocessed) (\<lambda>cycle.
            Inr \<lparr>valid = False, errors = [CYCLE cycle], order = [], levels = []\<rparr>)
        else Inr \<lparr>valid = True, errors = [], order = ord, levels = lvls\<rparr>))"

end
