(* ===== verification/Wf_Dag_Correct.thy ===== *)
theory Wf_Dag_Correct
  imports Wf_Dag
begin

text \<open>
  Correctness of \<open>dag.js\<close>. A workflow graph is a DAG when its keys are distinct, every
  dependency list is duplicate-free, names other tasks of the workflow, and no dependency cycle
  exists. The theory shows that \<open>validateDag\<close> decides exactly this, that \<open>order\<close> is a
  topological order and \<open>levels\<close> groups the tasks by the length of their longest dependency
  chain, and that on Kahn's leftovers \<open>findCycle\<close> always returns a real cycle.
\<close>

section \<open>Specification\<close>

text \<open>The dependencies of a key, and the keys of a workflow.\<close>

definition deps_of :: "'a dag_task_scheme list \<Rightarrow> key \<Rightarrow> key list" where
  "deps_of ts k = (case map_of (map (\<lambda>t. (d_key t, deps t)) ts) k of None \<Rightarrow> [] | Some ds \<Rightarrow> ds)"

abbreviation keys_of :: "'a dag_task_scheme list \<Rightarrow> key set" where
  "keys_of ts \<equiv> d_key ` set ts"

definition graph_ok :: "'a dag_task_scheme list \<Rightarrow> bool" where
  "graph_ok ts \<longleftrightarrow> distinct (map d_key ts)
     \<and> (\<forall>t \<in> set ts. distinct (deps t) \<and> set (deps t) \<subseteq> keys_of ts \<and> d_key t \<notin> set (deps t))"

text \<open>A cycle in execution direction: each key is a dependency of the next one, and the first
  is also the last.\<close>

definition dependency_cycle :: "'a dag_task_scheme list \<Rightarrow> key list \<Rightarrow> bool" where
  "dependency_cycle ts c \<longleftrightarrow>
     2 \<le> length c \<and> hd c = last c \<and> set c \<subseteq> keys_of ts
     \<and> successively (\<lambda>a b. a \<in> set (deps_of ts b)) c"

definition is_dag :: "'a dag_task_scheme list \<Rightarrow> bool" where
  "is_dag ts \<longleftrightarrow> graph_ok ts \<and> (\<nexists>c. dependency_cycle ts c)"

text \<open>A list in which every key comes after all its dependencies.\<close>

fun topological :: "(key \<Rightarrow> key list) \<Rightarrow> key set \<Rightarrow> key list \<Rightarrow> bool" where
  "topological D done [] = True"
| "topological D done (k # ks) = (set (D k) \<subseteq> done \<and> topological D (insert k done) ks)"

section \<open>Structural checks\<close>

lemma duplicate_keys_Nil:
  "duplicate_keys seen ts = [] \<longleftrightarrow> distinct (map d_key ts) \<and> seen \<inter> keys_of ts = {}"
  by (induction ts arbitrary: seen) auto

lemma dependency_errors_Nil:
  "dependency_errors seen k counted ds = [] \<longleftrightarrow>
   distinct ds \<and> set ds \<inter> counted = {} \<and> set ds \<subseteq> seen \<and> k \<notin> set ds"
  by (induction ds arbitrary: counted) auto

lemma structural_errors_Nil: "structural_errors ts = [] \<longleftrightarrow> graph_ok ts"
  by (auto simp: structural_errors_def graph_ok_def duplicate_keys_Nil dependency_errors_Nil)

lemma deps_of_task: "distinct (map d_key ts) \<Longrightarrow> t \<in> set ts \<Longrightarrow> deps_of ts (d_key t) = deps t"
  by (force simp: deps_of_def intro!: map_of_is_SomeI split: option.split
      dest: map_of_SomeD simp: comp_def map_of_eq_None_iff distinct_map inj_on_def)

lemma deps_of_unknown: "k \<notin> keys_of ts \<Longrightarrow> deps_of ts k = []"
  by (auto simp: deps_of_def map_of_eq_None_iff image_iff split: option.split dest!: map_of_SomeD)

lemma graph_okD:
  assumes "graph_ok ts"
  shows "distinct (map d_key ts)" "distinct (deps_of ts k)" "set (deps_of ts k) \<subseteq> keys_of ts"
    "k \<notin> set (deps_of ts k)"
proof -
  show d: "distinct (map d_key ts)" using assms by (simp add: graph_ok_def)
  have "distinct (deps_of ts k) \<and> set (deps_of ts k) \<subseteq> keys_of ts \<and> k \<notin> set (deps_of ts k)"
  proof (cases "k \<in> keys_of ts")
    case True
    then obtain t where "t \<in> set ts" "k = d_key t" by auto
    then show ?thesis using assms d by (simp add: graph_ok_def deps_of_task)
  qed (simp add: deps_of_unknown)
  then show "distinct (deps_of ts k)" "set (deps_of ts k) \<subseteq> keys_of ts" "k \<notin> set (deps_of ts k)"
    by auto
qed

section \<open>Maps built from the task list\<close>

lemma map_of_js_map_acc:
  "map_of (fold (\<lambda>(k, v). AList.update k v) kvs al) = map_of al ++ map_of (rev kvs)"
  by (induction kvs arbitrary: al) (auto simp: fun_eq_iff map_add_def split: option.split)

lemma map_of_rev_distinct: "distinct (map fst kvs) \<Longrightarrow> map_of (rev kvs) = map_of kvs"
  by (rule map_of_eqI) (auto simp: rev_map[symmetric])

lemma map_of_js_map: "distinct (map fst kvs) \<Longrightarrow> map_of (js_map kvs) = map_of kvs"
  by (simp add: js_map_def map_of_js_map_acc map_of_rev_distinct)

lemma map_of_js_map_tasks:
  assumes "distinct (map d_key ts)"
  shows "map_of (js_map (map (\<lambda>t. (d_key t, f t)) ts)) = map_of (map (\<lambda>t. (d_key t, f t)) ts)"
  by (rule map_of_js_map) (use assms in \<open>simp add: comp_def\<close>)

lemma map_of_tasks:
  assumes "distinct (map d_key ts)" "t \<in> set ts"
  shows "map_of (map (\<lambda>t. (d_key t, f t)) ts) (d_key t) = Some (f t)"
  using assms by (auto intro!: map_of_is_SomeI simp: comp_def)

lemma map_of_tasks_None: "k \<notin> keys_of ts \<Longrightarrow> map_of (map (\<lambda>t. (d_key t, f t)) ts) k = None"
  by (auto simp: map_of_eq_None_iff)

lemma js_map_deps:
  assumes "distinct (map d_key ts)"
  shows "(case map_of (js_map (map (\<lambda>t. (d_key t, deps t)) ts)) k of None \<Rightarrow> [] | Some ds \<Rightarrow> ds)
         = deps_of ts k"
  by (simp add: map_of_js_map_tasks[OF assms] deps_of_def)

lemma in_degrees_lookup:
  assumes "distinct (map d_key ts)" "k \<in> keys_of ts"
  shows "map_of (in_degrees ts) k = Some (int (length (deps_of ts k)))"
proof -
  obtain t where "t \<in> set ts" "k = d_key t" using assms by auto
  then show ?thesis
    using map_of_tasks[OF assms(1), of t "\<lambda>t. int (length (deps t))"]
    by (simp add: in_degrees_def map_of_js_map_tasks assms deps_of_task)
qed

subsection \<open>Children\<close>

lemma push_children_lookup:
  assumes "\<forall>(d, k) \<in> set es. map_of ch d \<noteq> None"
  shows "\<exists>ch'. push_children es ch = Inr ch'
     \<and> (\<forall>d. map_of ch' d = map_option (\<lambda>cs. cs @ map snd (filter (\<lambda>e. fst e = d) es)) (map_of ch d))"
  using assms
proof (induction es arbitrary: ch)
  case Nil
  then show ?case by (auto simp: option.map_ident)
next
  case (Cons e es)
  obtain d k where e: "e = (d, k)" by force
  with Cons.prems obtain cs where cs: "map_of ch d = Some cs" by auto
  have "\<forall>(d', k') \<in> set es. map_of (AList.update d (cs @ [k]) ch) d' \<noteq> None"
    using Cons.prems by auto
  from Cons.IH[OF this] obtain ch' where
    "push_children es (AList.update d (cs @ [k]) ch) = Inr ch'"
    "\<forall>d'. map_of ch' d' = map_option (\<lambda>cs. cs @ map snd (filter (\<lambda>e. fst e = d') es))
                           (map_of (AList.update d (cs @ [k]) ch) d')"
    by blast
  with e cs show ?case by (auto simp: option.map_comp comp_def)
qed

definition children_of :: "'a dag_task_scheme list \<Rightarrow> key \<Rightarrow> key list" where
  "children_of ts d = map d_key (filter (\<lambda>t. d \<in> set (deps t)) ts)"

lemma edges_children:
  assumes "\<forall>t \<in> set ts. distinct (deps t)"
  shows "map snd (filter (\<lambda>e. fst e = d) (edges ts)) = children_of ts d"
proof -
  have one: "map snd (filter (\<lambda>e. fst e = d) (map (\<lambda>d. (d, k)) ds)) = (if d \<in> set ds then [k] else [])"
    if "distinct ds" for ds k
    using that by (induction ds) auto
  show ?thesis
    using assms by (induction ts) (auto simp: edges_def children_of_def one)
qed

lemma children_map_ok:
  assumes "graph_ok ts"
  obtains ch where "children_map ts = Inr ch"
    "\<forall>d \<in> keys_of ts. map_of ch d = Some (children_of ts d)"
proof -
  have d: "distinct (map d_key ts)" and ds: "\<forall>t \<in> set ts. distinct (deps t)"
    using assms by (auto simp: graph_ok_def)
  let ?ch0 = "js_map (map (\<lambda>t. (d_key t, [] :: key list)) ts)"
  have ch0: "map_of ?ch0 k = Some []" if "k \<in> keys_of ts" for k
    using that map_of_tasks[OF d, of _ "\<lambda>_. []"] by (auto simp: map_of_js_map_tasks[OF d])
  have "d \<in> keys_of ts" if "(d, k) \<in> set (edges ts)" for d k
    using assms that by (auto simp: edges_def graph_ok_def)
  then have "\<forall>(d, k) \<in> set (edges ts). map_of ?ch0 d \<noteq> None"
    using ch0 by auto
  from push_children_lookup[OF this] obtain ch where "children_map ts = Inr ch"
    "\<And>d. map_of ch d = map_option (\<lambda>cs. cs @ children_of ts d) (map_of ?ch0 d)"
    by (auto simp: children_map_def edges_children[OF ds])
  then show ?thesis using ch0 by (intro that[of ch]) simp_all
qed

lemma set_children_of:
  assumes "graph_ok ts"
  shows "k \<in> set (children_of ts d) \<longleftrightarrow> k \<in> keys_of ts \<and> d \<in> set (deps_of ts k)"
  using graph_okD(1)[OF assms] by (auto simp: children_of_def deps_of_task)

lemma distinct_children_of: "graph_ok ts \<Longrightarrow> distinct (children_of ts d)"
  by (auto simp: children_of_def distinct_map inj_on_def graph_ok_def)

section \<open>The wave loop\<close>

text \<open>Relaxing a list of children lowers every in-degree by the number of occurrences; the next
  wave holds exactly the keys that crossed zero, each once.\<close>

lemma relax_fold:
  "\<exists>ys. snd (fold relax_child cs (m, nx)) = nx @ ys
     \<and> (\<forall>k. map_of (fst (fold relax_child cs (m, nx))) k
            = map_option (\<lambda>v. v - int (count_list cs k)) (map_of m k))
     \<and> (\<forall>k. k \<in> set ys \<longleftrightarrow> (\<exists>v. map_of m k = Some v \<and> 0 < v \<and> v \<le> int (count_list cs k)))
     \<and> distinct ys"
proof (induction cs arbitrary: m nx)
  case Nil
  then show ?case by (auto simp: option.map_ident)
next
  case (Cons c cs)
  show ?case
  proof (cases "map_of m c")
    case None
    then have "relax_child c (m, nx) = (m, nx)" by (simp add: relax_child_def)
    then show ?thesis using Cons.IH[of m nx] None by (auto cong: map_option_cong)
  next
    case (Some v)
    let ?m1 = "AList.update c (v - 1) m" and ?n1 = "if v = 1 then nx @ [c] else nx"
    have step: "relax_child c (m, nx) = (?m1, ?n1)" using Some by (auto simp: relax_child_def)
    from Cons.IH[of ?m1 ?n1] obtain ys where
      ys: "snd (fold relax_child cs (?m1, ?n1)) = ?n1 @ ys"
        "\<forall>k. map_of (fst (fold relax_child cs (?m1, ?n1))) k
             = map_option (\<lambda>v. v - int (count_list cs k)) (map_of ?m1 k)"
        "\<forall>k. k \<in> set ys \<longleftrightarrow> (\<exists>v. map_of ?m1 k = Some v \<and> 0 < v \<and> v \<le> int (count_list cs k))"
        "distinct ys"
      by blast
    let ?zs = "(if v = 1 then [c] else []) @ ys"
    have "snd (fold relax_child (c # cs) (m, nx)) = nx @ ?zs" using step ys(1) by simp
    moreover have "map_of (fst (fold relax_child (c # cs) (m, nx))) k
        = map_option (\<lambda>v. v - int (count_list (c # cs) k)) (map_of m k)" for k
      using step ys(2) Some by (cases "k = c") auto
    moreover have "k \<in> set ?zs \<longleftrightarrow>
        (\<exists>v. map_of m k = Some v \<and> 0 < v \<and> v \<le> int (count_list (c # cs) k))" for k
      using ys(3) Some by (cases "k = c") auto
    moreover have "distinct ?zs" using ys(3,4) by auto
    ultimately show ?thesis by blast
  qed
qed

lemma relax_spec:
  "map_of (fst (relax cs m)) k = map_option (\<lambda>v. v - int (count_list cs k)) (map_of m k)"
  "k \<in> set (snd (relax cs m)) \<longleftrightarrow> (\<exists>v. map_of m k = Some v \<and> 0 < v \<and> v \<le> int (count_list cs k))"
  "distinct (snd (relax cs m))"
  using relax_fold[of cs m "[]"] by (auto simp: relax_def)

text \<open>How often a key occurs among the children of a wave: once per dependency in the wave.\<close>

lemma count_wave_children:
  assumes "graph_ok ts" "distinct wave" "k \<in> keys_of ts"
  shows "count_list (concat (map (children_of ts) wave)) k
         = count_where (\<lambda>d. d \<in> set wave) (deps_of ts k)"
proof -
  have "count_list (concat (map (children_of ts) wave)) k
        = count_where (\<lambda>d. d \<in> set (deps_of ts k)) wave"
    using assms(1,3)
    by (simp add: count_list_concat_map count_list_distinct[OF distinct_children_of]
        set_children_of sum_list_indicator)
  also have "\<dots> = card (set wave \<inter> set (deps_of ts k))"
    using assms(2) by (simp add: count_where_card Int_def)
  also have "\<dots> = count_where (\<lambda>d. d \<in> set wave) (deps_of ts k)"
    using graph_okD(2)[OF assms(1)] by (simp add: count_where_card Int_def conj_commute)
  finally show ?thesis .
qed

lemma topological_append:
  "topological D done (xs @ ys) \<longleftrightarrow> topological D done xs \<and> topological D (done \<union> set xs) ys"
  by (induction xs arbitrary: "done") auto

lemma topological_wave:
  "(\<And>k. k \<in> set ks \<Longrightarrow> set (D k) \<subseteq> done) \<Longrightarrow> topological D done ks"
proof (induction ks arbitrary: "done")
  case (Cons k ks)
  have "topological D (insert k done) ks" by (rule Cons.IH) (use Cons.prems in auto)
  then show ?case using Cons.prems by simp
qed simp

text \<open>The invariant at the head of the loop: in-degrees count the dependencies not yet in
  \<open>order\<close>, the wave holds exactly the keys whose dependencies are all in \<open>order\<close>, \<open>order\<close> is
  topological, and each key of a level (the wave counts as the next one) depends on the level
  before it.\<close>

definition level_at :: "(key \<Rightarrow> key list) \<Rightarrow> key list list \<Rightarrow> nat \<Rightarrow> bool" where
  "level_at D ls i \<longleftrightarrow>
     (\<forall>k \<in> set (ls ! i).
        set (D k) \<subseteq> set (concat (take i ls)) \<and> (0 < i \<longrightarrow> set (D k) \<inter> set (ls ! (i - 1)) \<noteq> {}))"

definition level_ok :: "(key \<Rightarrow> key list) \<Rightarrow> key list list \<Rightarrow> bool" where
  "level_ok D ls \<longleftrightarrow> (\<forall>i < length ls. level_at D ls i)"

definition kahn_inv :: "'a dag_task_scheme list \<Rightarrow> (key \<times> int) list \<Rightarrow> key list \<Rightarrow> key list list
    \<Rightarrow> key list \<Rightarrow> bool" where
  "kahn_inv ts m wave lvls ord \<longleftrightarrow>
     (\<forall>k \<in> keys_of ts. map_of m k = Some (int (count_where (\<lambda>d. d \<notin> set ord) (deps_of ts k))))
     \<and> set wave = {k \<in> keys_of ts. k \<notin> set ord \<and> set (deps_of ts k) \<subseteq> set ord}
     \<and> distinct ord \<and> distinct wave \<and> set ord \<subseteq> keys_of ts
     \<and> concat lvls = ord \<and> [] \<notin> set lvls
     \<and> topological (deps_of ts) {} ord
     \<and> level_ok (deps_of ts) (lvls @ (if wave = [] then [] else [wave]))"

lemma kahn_inv_init:
  assumes "graph_ok ts"
  shows "kahn_inv ts (in_degrees ts) (first_wave ts) [] []"
proof -
  have d: "distinct (map d_key ts)" by (rule graph_okD[OF assms])
  have m: "map_of (in_degrees ts) k = Some (int (count_where (\<lambda>d. d \<notin> set []) (deps_of ts k)))"
    if "k \<in> keys_of ts" for k
    using that in_degrees_lookup[OF d] by (simp add: count_where_def)
  have wave: "set (first_wave ts) = {k \<in> keys_of ts. deps_of ts k = []}"
    using m by (auto simp: first_wave_def count_where_def)
  have "distinct (first_wave ts)"
    using d by (auto simp: first_wave_def distinct_map inj_on_def)
  with m wave show ?thesis by (auto simp: kahn_inv_def level_ok_def level_at_def)
qed

lemma wave_children_ok:
  assumes "\<forall>d \<in> keys_of ts. map_of ch d = Some (children_of ts d)" "set wave \<subseteq> keys_of ts"
  shows "wave_children ch wave = Some (concat (map (children_of ts) wave))"
proof -
  have "those (map (map_of ch) wave) = Some (map (children_of ts) wave)"
    using assms by (induction wave) auto
  then show ?thesis by (simp add: wave_children_def)
qed

lemma level_ok_snoc:
  "level_ok D (ls @ [w]) \<longleftrightarrow> level_ok D ls
     \<and> (\<forall>k \<in> set w. set (D k) \<subseteq> set (concat ls)
          \<and> (ls \<noteq> [] \<longrightarrow> set (D k) \<inter> set (last ls) \<noteq> {}))"
proof -
  have old: "level_at D (ls @ [w]) i \<longleftrightarrow> level_at D ls i" if "i < length ls" for i
    using that by (simp add: level_at_def nth_append less_imp_diff_less)
  have new: "level_at D (ls @ [w]) (length ls) \<longleftrightarrow> (\<forall>k \<in> set w. set (D k) \<subseteq> set (concat ls)
          \<and> (ls \<noteq> [] \<longrightarrow> set (D k) \<inter> set (last ls) \<noteq> {}))"
    by (cases "ls = []") (simp_all add: level_at_def nth_append last_conv_nth)
  show ?thesis
    unfolding level_ok_def length_append_singleton All_less_Suc new using old by auto
qed

lemma count_where_union:
  assumes "set w \<inter> set ord = {}"
  shows "count_where (\<lambda>d. d \<notin> set ord) ds
         = count_where (\<lambda>d. d \<in> set w) ds + count_where (\<lambda>d. d \<notin> set (ord @ w)) ds"
  using assms by (induction ds) auto

lemma kahn_inv_step:
  assumes ok: "graph_ok ts" and inv: "kahn_inv ts m wave lvls ord" and ne: "wave \<noteq> []"
    and cs: "cs = concat (map (children_of ts) wave)"
  shows "kahn_inv ts (fst (relax cs m)) (snd (relax cs m)) (lvls @ [wave]) (ord @ wave)"
proof -
  let ?D = "deps_of ts" and ?nx = "snd (relax cs m)"
  have wv: "set wave = {k \<in> keys_of ts. k \<notin> set ord \<and> set (?D k) \<subseteq> set ord}"
    and dist: "distinct ord" "distinct wave" and sub: "set ord \<subseteq> keys_of ts"
    and topo: "topological ?D {} ord" and lv: "level_ok ?D (lvls @ [wave])"
    and cc: "concat lvls = ord" "[] \<notin> set lvls"
    and m: "\<And>k. k \<in> keys_of ts \<Longrightarrow> map_of m k = Some (int (count_where (\<lambda>d. d \<notin> set ord) (?D k)))"
    using inv ne by (auto simp: kahn_inv_def)
  have cnt: "count_list cs k = count_where (\<lambda>d. d \<in> set wave) (?D k)" if "k \<in> keys_of ts" for k
    using count_wave_children[OF ok dist(2) that] by (simp add: cs)
  have split: "count_where (\<lambda>d. d \<notin> set ord) (?D k)
      = count_where (\<lambda>d. d \<in> set wave) (?D k) + count_where (\<lambda>d. d \<notin> set (ord @ wave)) (?D k)" for k
    by (rule count_where_union) (use wv in auto)
  have m': "map_of (fst (relax cs m)) k
      = Some (int (count_where (\<lambda>d. d \<notin> set (ord @ wave)) (?D k)))" if "k \<in> keys_of ts" for k
    using that by (simp add: relax_spec m cnt split)
  have nokey: "count_list cs k = 0" if "k \<notin> keys_of ts" for k
    using that by (simp add: cs count_list_0_iff) (auto simp: set_children_of[OF ok])
  have nx: "k \<in> set ?nx \<longleftrightarrow> k \<in> keys_of ts \<and> 0 < count_where (\<lambda>d. d \<in> set wave) (?D k)
      \<and> count_where (\<lambda>d. d \<notin> set (ord @ wave)) (?D k) = 0" for k
  proof (cases "k \<in> keys_of ts")
    case True
    then show ?thesis by (auto simp: relax_spec m cnt split simp del: count_where_eq_0_iff)
  qed (simp add: relax_spec nokey)
  have nx_set: "set ?nx = {k \<in> keys_of ts. k \<notin> set (ord @ wave) \<and> set (?D k) \<subseteq> set (ord @ wave)}"
  proof -
    have "0 < count_where (\<lambda>d. d \<in> set wave) (?D k) \<longleftrightarrow> k \<notin> set ord \<and> k \<notin> set wave"
      if k: "k \<in> keys_of ts" and all: "\<forall>d \<in> set (?D k). d \<in> set ord \<or> d \<in> set wave" for k
    proof -
      have "set (?D k) \<inter> set wave = {}" if "k \<in> set ord"
      proof -
        have "set (?D k) \<subseteq> set ord"
          using topo \<open>k \<in> set ord\<close> by (fastforce simp: topological_append dest!: split_list)
        then show ?thesis using wv by auto
      qed
      moreover have "set (?D k) \<inter> set wave = {}" if "k \<in> set wave" using that wv by auto
      moreover have "set (?D k) \<inter> set wave \<noteq> {}" if "k \<notin> set ord" "k \<notin> set wave"
      proof -
        have "\<not> set (?D k) \<subseteq> set ord" using that k by (simp add: wv)
        then show ?thesis using all by blast
      qed
      ultimately show ?thesis by (auto simp: count_where_pos_iff)
    qed
    then show ?thesis by (fastforce simp: nx)
  qed
  have lv': "level_ok ?D ((lvls @ [wave]) @ (if ?nx = [] then [] else [?nx]))"
  proof (cases "?nx = []")
    case False
    have "level_ok ?D ((lvls @ [wave]) @ [?nx])"
      unfolding level_ok_snoc[of ?D "lvls @ [wave]"] using lv nx cc(1) by (auto simp: count_where_pos_iff)
    with False show ?thesis by simp
  qed (use lv in simp)
  have "topological ?D {} (ord @ wave)"
    using topo wv by (auto simp: topological_append intro!: topological_wave)
  then show ?thesis
    unfolding kahn_inv_def
    using m' nx_set dist sub wv cc ne lv' relax_spec(3)[of cs m] by auto
qed

lemma kahn_loop_correct:
  assumes "graph_ok ts" "\<forall>d \<in> keys_of ts. map_of ch d = Some (children_of ts d)"
    and "kahn_inv ts m wave lvls ord"
  shows "\<exists>ord' lvls' m'. kahn_loop ch m wave lvls ord = Inr (ord', lvls') \<and> kahn_inv ts m' [] lvls' ord'"
  using assms
proof (induction ch m wave lvls ord rule: kahn_loop.induct)
  case (1 ch m wave lvls ord)
  show ?case
  proof (cases "wave = []")
    case True
    then show ?thesis using "1.prems"(3) by (auto simp: kahn_loop.simps[of ch m "[]"])
  next
    case False
    have "set wave \<subseteq> keys_of ts" using "1.prems"(3) by (auto simp: kahn_inv_def)
    then have cs: "wave_children ch wave = Some (concat (map (children_of ts) wave))"
      by (rule wave_children_ok[OF "1.prems"(2)])
    note inv = kahn_inv_step[OF "1.prems"(1,3) False refl]
    show ?thesis
      using "1.IH"[OF False cs "1.prems"(1,2) inv] False cs by (simp add: kahn_loop.simps[of ch m wave])
  qed
qed

section \<open>Depth-first search\<close>

text \<open>A topological list avoids every set whose members all have a dependency inside the set.
  This one fact shows both that a topological order excludes cycles and that the search cannot
  finish Kahn's leftovers.\<close>

lemma topological_avoids:
  assumes "topological D done ks" "done \<inter> C = {}" "\<forall>c \<in> C. set (D c) \<inter> C \<noteq> {}"
  shows "set ks \<inter> C = {}"
  using assms
proof (induction ks arbitrary: "done")
  case (Cons k ks)
  have "k \<notin> C" using Cons.prems by auto
  then show ?case using Cons.IH[of "insert k done"] Cons.prems by auto
qed simp

definition whites :: "colours \<Rightarrow> key set" where
  "whites col = {k. map_of col k = Some WHITE}"

definition blacks :: "colours \<Rightarrow> key set" where
  "blacks col = {k. map_of col k = Some BLACK}"

text \<open>Between the steps of the search: grey keys are the current path, the path follows
  dependency edges, and the black keys can be listed in the order they were finished, each after
  its dependencies.\<close>

definition dfs_inv :: "(key \<Rightarrow> key list) \<Rightarrow> key set \<Rightarrow> colours \<Rightarrow> key list \<Rightarrow> bool" where
  "dfs_inv D K col path \<longleftrightarrow>
     dom (map_of col) = K \<and> {k. map_of col k = Some GREY} = set path \<and> distinct path
     \<and> successively (\<lambda>a b. b \<in> set (D a)) path
     \<and> (\<exists>fin. set fin = blacks col \<and> topological D {} fin)"

definition dfs_cycle :: "(key \<Rightarrow> key list) \<Rightarrow> key set \<Rightarrow> key list \<Rightarrow> bool" where
  "dfs_cycle D K c \<longleftrightarrow> 2 \<le> length c \<and> hd c = last c \<and> set c \<subseteq> K
     \<and> successively (\<lambda>a b. b \<in> set (D a)) c"

text \<open>The outcome of a call: a cycle, or the same path with the targets finished.\<close>

definition dfs_post :: "(key \<Rightarrow> key list) \<Rightarrow> key set \<Rightarrow> colours \<Rightarrow> key list \<Rightarrow> key set
    \<Rightarrow> (key list option \<times> colours \<times> key list) option \<Rightarrow> bool" where
  "dfs_post D K col path target r \<longleftrightarrow>
     (case r of
        None \<Rightarrow> False
      | Some (Some c, _) \<Rightarrow> dfs_cycle D K c
      | Some (None, (col', path')) \<Rightarrow>
          path' = path \<and> dfs_inv D K col' path \<and> blacks col \<subseteq> blacks col'
          \<and> whites col' \<subseteq> whites col \<and> target \<subseteq> blacks col')"

lemma finite_whites [simp]: "finite (whites col)"
  by (rule finite_subset[OF _ finite_dom_map_of[of col]]) (auto simp: whites_def)

lemma grey_dependency_cycle:
  assumes inv: "dfs_inv D K col path" and d: "map_of col d = Some GREY" "d \<in> set (D (last path))"
  shows "dfs_cycle D K (dropWhile (\<lambda>x. x \<noteq> d) path @ [d])"
proof -
  have "d \<in> set path" using inv d by (auto simp: dfs_inv_def)
  then obtain ys zs where path: "path = ys @ d # zs" "d \<notin> set ys" by (meson split_list_first)
  have "dropWhile (\<lambda>x. x \<noteq> d) path = d # zs"
    using path by (simp add: dropWhile_append)
  moreover have "successively (\<lambda>a b. b \<in> set (D a)) (d # zs)"
    using inv path by (auto simp: dfs_inv_def successively_append_iff)
  moreover have "set path \<subseteq> K"
  proof
    fix k assume "k \<in> set path"
    then have "map_of col k = Some GREY" using inv by (auto simp: dfs_inv_def)
    then show "k \<in> K" using inv by (auto simp: dfs_inv_def)
  qed
  moreover have "successively (\<lambda>a b. b \<in> set (D a)) ((d # zs) @ [d])"
    unfolding successively_append_iff using calculation(2) d(2) path by simp
  ultimately show ?thesis
    using path by (auto simp: dfs_cycle_def)
qed

lemma visit_deps_post:
  assumes visit: "\<And>k col path. \<lbrakk>dfs_inv D K col path; map_of col k = Some WHITE;
      path \<noteq> [] \<Longrightarrow> k \<in> set (D (last path)); card (whites col) \<le> n\<rbrakk>
      \<Longrightarrow> dfs_post D K col path {k} (visit dm n k (col, path))"
    and "dfs_inv D K col path" "path \<noteq> []" "set ds \<subseteq> set (D (last path))" "set ds \<subseteq> K"
    and "card (whites col) \<le> n"
  shows "dfs_post D K col path (set ds) (visit_deps dm n ds (col, path))"
  using assms(2-)
proof (induction ds arbitrary: col)
  case Nil
  then show ?case by (simp add: dfs_post_def)
next
  case (Cons d ds)
  have "d \<in> dom (map_of col)" using Cons.prems(1,4) by (simp add: dfs_inv_def)
  then obtain x where "map_of col d = Some x" by blast
  then consider "map_of col d = Some GREY" | "map_of col d = Some WHITE" | "map_of col d = Some BLACK"
    by (cases x) simp_all
  then show ?case
  proof cases
    case 1
    then show ?thesis
      using grey_dependency_cycle[OF Cons.prems(1) 1] Cons.prems(3) by (simp add: dfs_post_def)
  next
    case 2
    have v: "dfs_post D K col path {d} (visit dm n d (col, path))"
      using 2 Cons.prems by (intro visit) auto
    then obtain r s where r: "visit dm n d (col, path) = Some (r, s)"
      by (auto simp: dfs_post_def split: option.splits)
    show ?thesis
    proof (cases r)
      case None
      obtain col' path' where s: "s = (col', path')" by force
      have post: "path' = path" "dfs_inv D K col' path" "blacks col \<subseteq> blacks col'"
        "whites col' \<subseteq> whites col" "d \<in> blacks col'"
        using v r s None by (auto simp: dfs_post_def)
      have "card (whites col') \<le> n"
        using card_mono[OF finite_whites post(4)] Cons.prems(5) by linarith
      then have "dfs_post D K col' path (set ds) (visit_deps dm n ds (col', path))"
        using Cons.prems post(2) by (intro Cons.IH) auto
      then show ?thesis
        using 2 r s None post by (auto simp: dfs_post_def split: option.splits)
    next
      case (Some c)
      then show ?thesis using 2 v r by (auto simp: dfs_post_def)
    qed
  next
    case 3
    have "dfs_post D K col path (set ds) (visit_deps dm n ds (col, path))"
      using Cons.prems by (intro Cons.IH) auto
    then show ?thesis using 3 by (auto simp: dfs_post_def blacks_def split: option.splits)
  qed
qed

lemma visit_post:
  assumes D: "D = (\<lambda>k. case map_of dm k of None \<Rightarrow> [] | Some ds \<Rightarrow> ds)" and K: "\<And>k. set (D k) \<subseteq> K"
    and "dfs_inv D K col path" "map_of col k = Some WHITE"
    and "path \<noteq> [] \<Longrightarrow> k \<in> set (D (last path))" "card (whites col) \<le> n"
  shows "dfs_post D K col path {k} (visit dm n k (col, path))"
  using assms(3-)
proof (induction n arbitrary: k col path)
  case 0
  then have "whites col = {}" by simp
  then show ?case using 0 by (auto simp: whites_def)
next
  case (Suc n)
  let ?col = "AList.update k GREY col" and ?path = "path @ [k]"
  have kK: "k \<in> K" and grey: "{k. map_of col k = Some GREY} = set path" and "distinct path"
    and chain: "successively (\<lambda>a b. b \<in> set (D a)) path"
    and dom: "dom (map_of col) = K"
    using Suc.prems by (auto simp: dfs_inv_def)
  obtain fin where fin: "set fin = blacks col" "topological D {} fin"
    using Suc.prems(1) by (auto simp: dfs_inv_def)
  have kpath: "k \<notin> set path" unfolding grey[symmetric] using Suc.prems(2) by simp
  have bl: "blacks ?col = blacks col" using Suc.prems(2) by (auto simp: blacks_def)
  have inv: "dfs_inv D K ?col ?path"
    unfolding dfs_inv_def bl
    using grey \<open>distinct path\<close> kpath chain dom kK fin Suc.prems(3)
    by (auto simp: successively_append_iff)
  have wh: "whites ?col = whites col - {k}" by (auto simp: whites_def)
  have "k \<in> whites col" using Suc.prems(2) by (simp add: whites_def)
  then have "card (whites ?col) \<le> n"
    using Suc.prems(4) by (simp add: wh card_Diff_singleton)
  then have post: "dfs_post D K ?col ?path (set (D k)) (visit_deps dm n (D k) (?col, ?path))"
    using inv K by (intro visit_deps_post Suc.IH) auto
  then obtain r col' path' where r: "visit_deps dm n (D k) (?col, ?path) = Some (r, col', path')"
    by (auto simp: dfs_post_def split: option.splits)
  have unfold: "visit dm (Suc n) k (col, path) =
      (case r of Some c \<Rightarrow> Some (Some c, col', path')
               | None \<Rightarrow> Some (None, AList.update k BLACK col', butlast path'))"
    using r by (simp add: D split: option.splits)
  show ?case
  proof (cases r)
    case (Some c)
    then show ?thesis using post r unfold by (auto simp: dfs_post_def)
  next
    case None
    have p: "path' = ?path" "dfs_inv D K col' ?path" "blacks col \<subseteq> blacks col'"
      "whites col' \<subseteq> whites ?col" "set (D k) \<subseteq> blacks col'"
      using post r None bl by (auto simp: dfs_post_def)
    obtain fin' where fin': "set fin' = blacks col'" "topological D {} fin'"
      using p(2) by (auto simp: dfs_inv_def)
    have grey': "{k. map_of col' k = Some GREY} = insert k (set path)" and dom': "dom (map_of col') = K"
      using p(2) by (auto simp: dfs_inv_def)
    let ?col2 = "AList.update k BLACK col'"
    have "map_of col' k = Some GREY" using grey' by blast
    then have bl2: "blacks ?col2 = insert k (blacks col')" "whites ?col2 = whites col'"
      by (auto simp: blacks_def whites_def)
    have "topological D {} (fin' @ [k])"
      using fin' p(5) by (simp add: topological_append)
    moreover have "set (fin' @ [k]) = blacks ?col2" using fin' bl2 by simp
    moreover have "{k. map_of ?col2 k = Some GREY} = set path"
      using grey' kpath by (auto split: if_splits)
    ultimately have "dfs_inv D K ?col2 path"
      using \<open>distinct path\<close> chain dom' kK unfolding dfs_inv_def by (auto intro!: exI[of _ "fin' @ [k]"])
    then show ?thesis
      using None unfold p bl2 wh by (auto simp: dfs_post_def)
  qed
qed

lemma visit_candidates_post:
  assumes D: "D = (\<lambda>k. case map_of dm k of None \<Rightarrow> [] | Some ds \<Rightarrow> ds)" and K: "\<And>k. set (D k) \<subseteq> K"
    and "dfs_inv D K col []" "card (whites col) \<le> n" "set ks \<subseteq> K"
  shows "case visit_candidates dm n ks (col, []) of
           None \<Rightarrow> False
         | Some (Some c) \<Rightarrow> dfs_cycle D K (rev c)
         | Some None \<Rightarrow> \<exists>fin. topological D {} fin \<and> blacks col \<union> set ks \<subseteq> set fin"
  using assms(3-)
proof (induction ks arbitrary: col)
  case Nil
  then show ?case by (auto simp: dfs_inv_def)
next
  case (Cons k ks)
  show ?case
  proof (cases "map_of col k = Some WHITE")
    case True
    have v: "dfs_post D K col [] {k} (visit dm n k (col, []))"
      using True Cons.prems by (intro visit_post[OF D K]) auto
    then obtain r col' path' where r: "visit dm n k (col, []) = Some (r, col', path')"
      by (auto simp: dfs_post_def split: option.splits)
    show ?thesis
    proof (cases r)
      case None
      have p: "path' = []" "dfs_inv D K col' []" "blacks col \<subseteq> blacks col'"
        "whites col' \<subseteq> whites col" "k \<in> blacks col'"
        using v r None by (auto simp: dfs_post_def)
      have "card (whites col') \<le> n"
        using card_mono[OF finite_whites p(4)] Cons.prems(2) by linarith
      from Cons.IH[OF p(2) this] Cons.prems(3) p(3,5) r None p(1) True show ?thesis
        by (auto split: option.splits)
    next
      case (Some c)
      then show ?thesis using v r True by (auto simp: dfs_post_def)
    qed
  next
    case False
    have "k \<in> dom (map_of col)" "map_of col k \<noteq> Some GREY"
      using Cons.prems by (auto simp: dfs_inv_def)
    then obtain x where "map_of col k = Some x" by blast
    with False \<open>map_of col k \<noteq> Some GREY\<close> have "k \<in> blacks col" by (cases x) (simp_all add: blacks_def)
    with Cons.IH[OF Cons.prems(1,2)] Cons.prems(3) False show ?thesis
      by (auto split: option.splits)
  qed
qed

section \<open>The whole of validateDag\<close>

lemma kahn_correct:
  assumes "graph_ok ts"
  obtains ord lvls m where
    "kahn ts = Inr (ord, lvls, filter (\<lambda>k. k \<notin> set ord) (map d_key ts))"
    "kahn_inv ts m [] lvls ord"
proof -
  obtain ch where ch: "children_map ts = Inr ch"
    "\<forall>d \<in> keys_of ts. map_of ch d = Some (children_of ts d)"
    using children_map_ok[OF assms] by blast
  obtain ord lvls m where "kahn_loop ch (in_degrees ts) (first_wave ts) [] [] = Inr (ord, lvls)"
    "kahn_inv ts m [] lvls ord"
    using kahn_loop_correct[OF assms ch(2) kahn_inv_init[OF assms]] by blast
  then show ?thesis using ch(1) by (intro that[of ord lvls m]) (simp_all add: kahn_def)
qed

text \<open>Kahn's leftovers: every key that was not emitted has a dependency that was not emitted.\<close>

lemma kahn_leftovers:
  assumes "graph_ok ts" "kahn_inv ts m [] lvls ord" "k \<in> keys_of ts" "k \<notin> set ord"
  shows "set (deps_of ts k) \<inter> (keys_of ts - set ord) \<noteq> {}"
proof -
  have "k \<notin> {k \<in> keys_of ts. k \<notin> set ord \<and> set (deps_of ts k) \<subseteq> set ord}"
    using assms(2) by (auto simp: kahn_inv_def)
  then show ?thesis using assms(3,4) graph_okD(3)[OF assms(1), of k] by auto
qed

lemma cycle_member_has_dependency:
  assumes "dependency_cycle ts c" "k \<in> set c"
  shows "set (deps_of ts k) \<inter> set c \<noteq> {}"
proof -
  have len: "2 \<le> length c" and ends: "hd c = last c"
    and step: "\<And>i. Suc i < length c \<Longrightarrow> c ! i \<in> set (deps_of ts (c ! Suc i))"
    using assms(1) by (auto simp: dependency_cycle_def successively_conv_nth)
  obtain i where i: "i < length c" "c ! i = k" using assms(2) by (auto simp: in_set_conv_nth)
  obtain j where j: "Suc j < length c" "c ! Suc j = k"
  proof (cases i)
    case 0
    have "k = c ! Suc (length c - 2)"
      using i 0 len ends by (simp add: hd_conv_nth last_conv_nth numeral_2_eq_2 Suc_diff_Suc flip: length_greater_0_conv)
    then show ?thesis using len by (intro that[of "length c - 2"]) auto
  next
    case (Suc j)
    then show ?thesis using i by (intro that[of j]) auto
  qed
  then have "c ! j \<in> set (deps_of ts k) \<inter> set c" using step[of j] by auto
  then show ?thesis by blast
qed

lemma topological_no_cycle:
  assumes "topological (deps_of ts) {} ord" "keys_of ts \<subseteq> set ord"
  shows "\<not> dependency_cycle ts c"
proof
  assume c: "dependency_cycle ts c"
  have "set ord \<inter> set c = {}"
    using topological_avoids[OF assms(1), of "set c"] cycle_member_has_dependency[OF c] by blast
  moreover have "set c \<subseteq> keys_of ts" "c \<noteq> []" using c by (auto simp: dependency_cycle_def)
  ultimately show False using assms(2) by (metis Int_absorb1 set_empty subset_trans)
qed

lemma findCycle_leftovers:
  assumes ok: "graph_ok ts" and C: "set C \<subseteq> keys_of ts" "C \<noteq> []"
    and closed: "\<forall>k \<in> set C. set (deps_of ts k) \<inter> set C \<noteq> {}"
  shows "\<exists>c. findCycle ts C = Inr c \<and> dependency_cycle ts c"
proof -
  let ?dm = "js_map (map (\<lambda>t. (d_key t, deps t)) ts)"
  let ?col = "js_map (map (\<lambda>t. (d_key t, WHITE)) ts)"
  have d: "distinct (map d_key ts)" by (rule graph_okD[OF ok])
  have D: "deps_of ts = (\<lambda>k. case map_of ?dm k of None \<Rightarrow> [] | Some ds \<Rightarrow> ds)"
    by (rule ext) (simp add: js_map_deps[OF d])
  have col: "map_of ?col k = (if k \<in> keys_of ts then Some WHITE else None)" for k
    using map_of_tasks[OF d, of _ "\<lambda>_. WHITE"] map_of_tasks_None[of k ts "\<lambda>_. WHITE"]
    by (auto simp: map_of_js_map_tasks[OF d])
  have inv: "dfs_inv (deps_of ts) (keys_of ts) ?col []"
    by (auto simp: dfs_inv_def blacks_def col intro!: exI[of _ "[]"] split: if_splits)
  have "card (whites ?col) \<le> length ts"
    using card_length[of "map d_key ts"] by (simp add: whites_def col)
  note post = visit_candidates_post[OF D graph_okD(3)[OF ok] inv this C(1)]
  show ?thesis
  proof (cases "visit_candidates ?dm (length ts) C (?col, [])")
    case None
    then show ?thesis using post by simp
  next
    case (Some r)
    show ?thesis
    proof (cases r)
      case None
      have "\<exists>fin. topological (deps_of ts) {} fin \<and> blacks ?col \<union> set C \<subseteq> set fin"
        using post Some None by simp
      then obtain fin where fin: "topological (deps_of ts) {} fin" "set C \<subseteq> set fin" by blast
      have "set fin \<inter> set C = {}" by (rule topological_avoids[OF fin(1)]) (use closed in simp_all)
      then show ?thesis using fin(2) C(2) by (metis Int_absorb1 set_empty)
    next
      case (Some c)
      have "dfs_cycle (deps_of ts) (keys_of ts) (rev c)"
        using post \<open>visit_candidates _ _ _ _ = Some r\<close> Some by simp
      then have "dependency_cycle ts c"
        by (auto simp: dfs_cycle_def dependency_cycle_def hd_rev last_rev)
      then show ?thesis
        using \<open>visit_candidates _ _ _ _ = Some r\<close> Some by (simp add: findCycle_def)
    qed
  qed
qed

lemma validateDag_cases:
  obtains
    (structural) "\<not> graph_ok ts" "structural_errors ts \<noteq> []"
      "validateDag ts = Inr \<lparr>valid = False, errors = structural_errors ts, order = [], levels = []\<rparr>"
  | (cyclic) c where "graph_ok ts" "dependency_cycle ts c"
      "validateDag ts = Inr \<lparr>valid = False, errors = [CYCLE c], order = [], levels = []\<rparr>"
  | (acyclic) ord lvls m where "graph_ok ts" "kahn_inv ts m [] lvls ord" "set ord = keys_of ts"
      "validateDag ts = Inr \<lparr>valid = True, errors = [], order = ord, levels = lvls\<rparr>"
proof (cases "graph_ok ts")
  case False
  then show ?thesis using structural by (simp add: validateDag_def structural_errors_Nil)
next
  case True
  obtain ord lvls m where kahn: "kahn ts = Inr (ord, lvls, filter (\<lambda>k. k \<notin> set ord) (map d_key ts))"
    and inv: "kahn_inv ts m [] lvls ord" using kahn_correct[OF True] by blast
  let ?C = "filter (\<lambda>k. k \<notin> set ord) (map d_key ts)"
  have setC: "set ?C = keys_of ts - set ord" by auto
  show ?thesis
  proof (cases "?C = []")
    case True
    have "set ord = keys_of ts" using inv setC True by (auto simp: kahn_inv_def)
    moreover have "validateDag ts = Inr \<lparr>valid = True, errors = [], order = ord, levels = lvls\<rparr>"
      using \<open>graph_ok ts\<close> kahn True by (simp add: validateDag_def structural_errors_Nil)
    ultimately show ?thesis using acyclic[OF \<open>graph_ok ts\<close> inv] by blast
  next
    case False
    have "\<forall>k \<in> set ?C. set (deps_of ts k) \<inter> set ?C \<noteq> {}"
      using kahn_leftovers[OF True inv] unfolding setC by blast
    moreover have "set ?C \<subseteq> keys_of ts" by auto
    ultimately obtain c where c: "findCycle ts ?C = Inr c" "dependency_cycle ts c"
      using findCycle_leftovers[OF True _ False] by blast
    have "validateDag ts = Inr \<lparr>valid = False, errors = [CYCLE c], order = [], levels = []\<rparr>"
      using True kahn c(1) False by (simp add: validateDag_def structural_errors_Nil)
    then show ?thesis using cyclic[OF True c(2)] by blast
  qed
qed

section \<open>Levels and chains\<close>

text \<open>A dependency chain in execution direction; its length counts tasks.\<close>

definition dependency_chain :: "'a dag_task_scheme list \<Rightarrow> key list \<Rightarrow> bool" where
  "dependency_chain ts c \<longleftrightarrow> set c \<subseteq> keys_of ts \<and> successively (\<lambda>a b. a \<in> set (deps_of ts b)) c"

lemma chain_length_bound:
  assumes "level_ok (deps_of ts) lvls" "dependency_chain ts (c @ [k])" "k \<in> set (lvls ! i)" "i < length lvls"
  shows "length c \<le> i"
  using assms(2-)
proof (induction c arbitrary: k i rule: rev_induct)
  case (snoc d c)
  have "d \<in> set (deps_of ts k)" using snoc.prems by (simp add: dependency_chain_def successively_append_iff)
  moreover have "set (deps_of ts k) \<subseteq> set (concat (take i lvls))"
    using assms(1) snoc.prems(2,3) unfolding level_ok_def level_at_def by blast
  ultimately obtain j where "j < i" "d \<in> set (lvls ! j)"
    using in_concat_take[of i lvls d] snoc.prems(3) by auto
  moreover have "dependency_chain ts (c @ [d])"
    using snoc.prems(1) by (simp add: dependency_chain_def successively_append_iff)
  ultimately show ?case using snoc.IH[of d j] snoc.prems(3) by simp
qed simp

lemma chain_of_level:
  assumes "level_ok (deps_of ts) lvls" "k \<in> set (lvls ! i)" "i < length lvls" "set (concat lvls) \<subseteq> keys_of ts"
  shows "\<exists>c. dependency_chain ts (c @ [k]) \<and> length c = i"
  using assms(2,3)
proof (induction i arbitrary: k)
  case 0
  have "k \<in> keys_of ts" using 0 assms(4) in_concat_nth[of k lvls] by blast
  then show ?case by (intro exI[of _ "[]"]) (simp add: dependency_chain_def)
next
  case (Suc i)
  obtain d where d: "d \<in> set (deps_of ts k)" "d \<in> set (lvls ! i)"
    using assms(1) Suc.prems by (fastforce simp: level_ok_def level_at_def)
  obtain c where "dependency_chain ts (c @ [d])" "length c = i"
    using Suc.IH[OF d(2)] Suc.prems(2) by auto
  moreover have "k \<in> keys_of ts" using Suc.prems assms(4) in_concat_nth[of k lvls] by blast
  ultimately have "dependency_chain ts ((c @ [d]) @ [k]) \<and> length (c @ [d]) = Suc i"
    using d(1) by (simp add: dependency_chain_def successively_append_iff)
  then show ?case by blast
qed

lemma topological_position:
  "topological D done (ys @ k # zs) \<Longrightarrow> set (D k) \<subseteq> done \<union> set ys"
  by (induction ys arbitrary: "done") auto

lemma valid_result:
  assumes "validateDag ts = Inr r" "valid r"
  obtains m where "graph_ok ts" "kahn_inv ts m [] (levels r) (order r)" "set (order r) = keys_of ts"
proof (cases rule: validateDag_cases[of ts])
  case (acyclic ord lvls m)
  then show ?thesis using that assms by auto
qed (use assms in auto)

section \<open>Errors reported by the structural checks\<close>

lemma set_duplicate_keys:
  "DUPLICATE_KEY k \<in> set (duplicate_keys seen ts) \<longleftrightarrow>
     (k \<in> keys_of ts \<and> k \<in> seen) \<or> 2 \<le> count_list (map d_key ts) k"
proof (induction ts arbitrary: seen)
  case (Cons t ts)
  have "k \<in> keys_of ts \<longleftrightarrow> 1 \<le> count_list (map d_key ts) k"
    by (metis count_list_0_iff less_one linorder_not_less list.set_map)
  with Cons show ?case by auto
qed simp

lemma dependency_errors_sound:
  "DUPLICATE_KEY k' \<notin> set (dependency_errors seen k counted ds)"
  "CYCLE c \<notin> set (dependency_errors seen k counted ds)"
  "SELF_DEPENDENCY k' \<in> set (dependency_errors seen k counted ds) \<longleftrightarrow> k' = k \<and> k \<in> set ds"
  "UNKNOWN_DEPENDENCY k' d \<in> set (dependency_errors seen k counted ds) \<longleftrightarrow>
     k' = k \<and> d \<in> set ds \<and> d \<noteq> k \<and> d \<notin> seen"
  by (induction ds arbitrary: counted) auto

lemma dependency_errors_duplicate:
  "DUPLICATE_DEPENDENCY k' d \<in> set (dependency_errors seen k counted ds) \<longleftrightarrow>
     k' = k \<and> ((d \<in> set ds \<and> d \<in> counted) \<or> 2 \<le> count_list ds d)"
proof (induction ds arbitrary: counted)
  case (Cons x ds)
  have "d \<in> set ds \<longleftrightarrow> 1 \<le> count_list ds d"
    by (metis count_list_0_iff less_one linorder_not_less)
  with Cons show ?case by auto
qed simp

lemma duplicate_keys_only: "e \<in> set (duplicate_keys seen ts) \<Longrightarrow> \<exists>k. e = DUPLICATE_KEY k"
  by (induction ts arbitrary: seen) (auto split: if_splits)

section \<open>Properties\<close>

text \<open>C13: \<open>validateDag\<close> never raises, answers \<open>valid\<close> exactly for directed acyclic graphs with
  unique keys and well-formed dependency lists, reports at least one error exactly when it is not
  valid, and every reported cycle is a real dependency cycle of the workflow.\<close>

theorem validateDag_decides_dag:
  "\<exists>r. validateDag ts = Inr r
     \<and> (valid r \<longleftrightarrow> is_dag ts)
     \<and> (valid r \<longleftrightarrow> errors r = [])
     \<and> (\<forall>c. CYCLE c \<in> set (errors r) \<longrightarrow> dependency_cycle ts c)"
proof (cases rule: validateDag_cases[of ts])
  case structural
  have "CYCLE c \<notin> set (structural_errors ts)" for c
    by (auto simp: structural_errors_def dependency_errors_sound dest!: duplicate_keys_only)
  then show ?thesis using structural by (auto simp: is_dag_def)
next
  case (cyclic c)
  then show ?thesis by (auto simp: is_dag_def)
next
  case (acyclic ord lvls m)
  then have "topological (deps_of ts) {} ord" by (simp add: kahn_inv_def)
  then show ?thesis
    using acyclic topological_no_cycle[of ts ord] by (auto simp: is_dag_def)
qed

definition diamond :: "dag_task list" where
  "diamond = [\<lparr>d_key = ''A'', d_dependsOn = Some []\<rparr>, \<lparr>d_key = ''B'', d_dependsOn = Some [''A'']\<rparr>,
     \<lparr>d_key = ''C'', d_dependsOn = Some [''A'']\<rparr>, \<lparr>d_key = ''D'', d_dependsOn = Some [''B'', ''C'']\<rparr>]"

definition triangle :: "dag_task list" where
  "triangle = [\<lparr>d_key = ''A'', d_dependsOn = Some [''C'']\<rparr>, \<lparr>d_key = ''B'', d_dependsOn = Some [''A'']\<rparr>,
     \<lparr>d_key = ''C'', d_dependsOn = Some [''B'']\<rparr>, \<lparr>d_key = ''D'', d_dependsOn = Some [''C'']\<rparr>]"

lemma validateDag_diamond:
  "validateDag diamond = Inr \<lparr>valid = True, errors = [], order = [''A'', ''B'', ''C'', ''D''],
     levels = [[''A''], [''B'', ''C''], [''D'']]\<rparr>"
  by code_simp

lemma validateDag_triangle:
  "validateDag triangle = Inr \<lparr>valid = False, errors = [CYCLE [''A'', ''B'', ''C'', ''A'']],
     order = [], levels = []\<rparr>"
  by code_simp

theorem validateDag_decides_dag_witness:
  "is_dag diamond \<and> \<not> is_dag triangle \<and> dependency_cycle triangle [''A'', ''B'', ''C'', ''A'']"
proof -
  have "is_dag diamond"
    using validateDag_decides_dag[of diamond] validateDag_diamond by auto
  moreover have "\<not> is_dag triangle \<and> dependency_cycle triangle [''A'', ''B'', ''C'', ''A'']"
    using validateDag_decides_dag[of triangle] validateDag_triangle by auto
  ultimately show ?thesis by blast
qed

text \<open>When the graph is valid, \<open>order\<close> lists every task key exactly once, each after all of
  its dependencies, and \<open>levels\<close> splits that list into non-empty waves.\<close>

theorem order_topological:
  assumes "validateDag ts = Inr r" "valid r"
  shows "distinct (order r) \<and> set (order r) = keys_of ts
    \<and> (\<forall>ys k zs. order r = ys @ k # zs \<longrightarrow> set (deps_of ts k) \<subseteq> set ys)
    \<and> concat (levels r) = order r \<and> [] \<notin> set (levels r)"
proof -
  obtain m where inv: "kahn_inv ts m [] (levels r) (order r)" and keys: "set (order r) = keys_of ts"
    using valid_result[OF assms] by blast
  have topo: "topological (deps_of ts) {} (order r)" using inv by (simp add: kahn_inv_def)
  have "set (deps_of ts k) \<subseteq> set ys" if "order r = ys @ k # zs" for ys k zs
    using topological_position[of "deps_of ts" "{}" ys k zs] topo that by simp
  then show ?thesis using inv keys by (simp add: kahn_inv_def)
qed

theorem order_topological_witness:
  "set [''A'', ''B'', ''C'', ''D''] = keys_of diamond \<and> set (deps_of diamond ''D'') \<subseteq> {''A'', ''B'', ''C''}"
proof -
  have "\<forall>ys k zs. [''A'', ''B'', ''C'', ''D''] = ys @ k # zs \<longrightarrow> set (deps_of diamond k) \<subseteq> set ys"
    and keys: "set [''A'', ''B'', ''C'', ''D''] = keys_of diamond"
    using order_topological[OF validateDag_diamond] by simp_all
  then have "set (deps_of diamond ''D'') \<subseteq> set [''A'', ''B'', ''C'']"
    by (metis append.simps(1) append_Cons)
  with keys show ?thesis by simp
qed

text \<open>The waves are the levels of the longest dependency chains. A task of wave \<open>i\<close> ends
  some chain of \<open>i + 1\<close> tasks and no longer one; so the number of waves is the length of the
  critical path counted in tasks.\<close>

theorem levels_critical_path:
  assumes "validateDag ts = Inr r" "valid r"
  shows "(\<forall>i < length (levels r). \<forall>k \<in> set (levels r ! i).
            (\<exists>c. dependency_chain ts (c @ [k]) \<and> length (c @ [k]) = i + 1)
            \<and> (\<forall>c. dependency_chain ts (c @ [k]) \<longrightarrow> length (c @ [k]) \<le> i + 1))
    \<and> (\<forall>c. dependency_chain ts c \<longrightarrow> length c \<le> length (levels r))
    \<and> (\<exists>c. dependency_chain ts c \<and> length c = length (levels r))"
proof -
  obtain m where inv: "kahn_inv ts m [] (levels r) (order r)" and ord: "set (order r) = keys_of ts"
    using valid_result[OF assms] by blast
  have lv: "level_ok (deps_of ts) (levels r)" and cc: "set (concat (levels r)) \<subseteq> keys_of ts"
    and keys: "keys_of ts \<subseteq> set (concat (levels r))" and ne: "[] \<notin> set (levels r)"
    using inv ord by (auto simp: kahn_inv_def)
  have each: "(\<exists>c. dependency_chain ts (c @ [k]) \<and> length (c @ [k]) = i + 1)
      \<and> (\<forall>c. dependency_chain ts (c @ [k]) \<longrightarrow> length (c @ [k]) \<le> i + 1)"
    if "i < length (levels r)" "k \<in> set (levels r ! i)" for i k
    using chain_of_level[OF lv that(2,1) cc] chain_length_bound[OF lv _ that(2,1)] by auto
  have bound: "length c \<le> length (levels r)" if c: "dependency_chain ts c" for c
  proof (cases c rule: rev_cases)
    case (snoc c' k)
    have "k \<in> keys_of ts" using c snoc by (simp add: dependency_chain_def)
    then obtain i where "i < length (levels r)" "k \<in> set (levels r ! i)"
      using keys in_concat_nth[of k "levels r"] by blast
    then show ?thesis using each[of i k] c snoc by fastforce
  qed simp
  have "\<exists>c. dependency_chain ts c \<and> length c = length (levels r)"
  proof (cases "levels r = []")
    case True
    then show ?thesis by (intro exI[of _ "[]"]) (simp add: dependency_chain_def)
  next
    case False
    then obtain k where "k \<in> set (levels r ! (length (levels r) - 1))"
      using ne by (metis last_conv_nth last_in_set list.set_intros(1) list.exhaust)
    then show ?thesis using each[of "length (levels r) - 1" k] False by fastforce
  qed
  with each bound show ?thesis by blast
qed

theorem levels_critical_path_witness:
  "(\<exists>c. dependency_chain diamond c \<and> length c = 3)
   \<and> \<not> dependency_chain diamond [''A'', ''B'', ''C'', ''D'']"
  using levels_critical_path[OF validateDag_diamond] by force

text \<open>The structural checks report every problem and nothing else: a key used twice, a task
  that depends on itself, a dependency on a key that no task has, a dependency listed twice.\<close>

theorem structural_errors_complete:
  "(DUPLICATE_KEY k \<in> set (structural_errors ts) \<longleftrightarrow> 2 \<le> count_list (map d_key ts) k)
   \<and> (SELF_DEPENDENCY k \<in> set (structural_errors ts) \<longleftrightarrow> (\<exists>t \<in> set ts. d_key t = k \<and> k \<in> set (deps t)))
   \<and> (UNKNOWN_DEPENDENCY k d \<in> set (structural_errors ts) \<longleftrightarrow>
        (\<exists>t \<in> set ts. d_key t = k \<and> d \<in> set (deps t)) \<and> d \<noteq> k \<and> d \<notin> keys_of ts)
   \<and> (DUPLICATE_DEPENDENCY k d \<in> set (structural_errors ts) \<longleftrightarrow>
        (\<exists>t \<in> set ts. d_key t = k \<and> 2 \<le> count_list (deps t) d))"
  by (auto simp: structural_errors_def set_duplicate_keys dependency_errors_sound
      dependency_errors_duplicate dest!: duplicate_keys_only)

text \<open>On the keys that \<open>kahn\<close> could not process, \<open>findCycle\<close> stays within its call depth and
  returns a dependency cycle; its last line, which hands the candidates back, is never reached.\<close>

theorem findCycle_on_leftovers:
  assumes "graph_ok ts" "kahn ts = Inr (ord, lvls, unprocessed)" "unprocessed \<noteq> []"
  shows "\<exists>c. findCycle ts unprocessed = Inr c \<and> dependency_cycle ts c"
proof -
  obtain ord' lvls' m where k: "kahn ts = Inr (ord', lvls', filter (\<lambda>k. k \<notin> set ord') (map d_key ts))"
    and inv: "kahn_inv ts m [] lvls' ord'" using kahn_correct[OF assms(1)] by blast
  have un: "set unprocessed = keys_of ts - set ord'" using k assms(2) by auto
  show ?thesis
    by (rule findCycle_leftovers[OF assms(1) _ assms(3)])
      (use kahn_leftovers[OF assms(1) inv] un in blast)+
qed

theorem findCycle_on_leftovers_witness:
  "\<exists>c. findCycle triangle [''A'', ''B'', ''C'', ''D''] = Inr c \<and> dependency_cycle triangle c"
proof -
  have "graph_ok triangle" by code_simp
  moreover have "kahn triangle = Inr ([], [], [''A'', ''B'', ''C'', ''D''])" by code_simp
  ultimately show ?thesis using findCycle_on_leftovers by blast
qed

end
