(* ===== verification/Wf_Store.thy ===== *)
theory Wf_Store
  imports Wf_States Wf_Dag
begin

text \<open>
  The documents of MongoDB the engine works on (\<open>src/models\<close>), the database as a record of
  collections, and the race-safe operations of \<open>src/repositories/task.repository.js\<close>. A
  single-document update is atomic; its filter and update are the arguments of
  \<^const>\<open>update_where\<close>. \<open>next_id\<close> supplies fresh object ids and event ids.
\<close>

section \<open>Documents\<close>

record task =
  t_id :: oid
  t_executionId :: oid
  t_ownerId :: oid
  t_key :: key
  t_type :: string
  t_config :: json
  t_dependsOn :: "key list"
  t_dependents :: "key list"
  t_remainingDeps :: int
  t_status :: task_status
  t_attempt :: int
  t_maxAttempts :: int
  t_baseDelayMs :: int
  t_timeoutMs :: int
  t_leaseOwner :: "string option"
  t_leaseToken :: int
  t_leaseExpiresAt :: "time option"
  t_output :: json
  t_error :: "string option"
  t_readyAt :: "time option"
  t_retryAt :: "time option"
  t_queuedAt :: "time option"
  t_startedAt :: "time option"
  t_completedAt :: "time option"

datatype trigger = Manual | Schedule

record execution =
  e_id :: oid
  e_workflowId :: oid
  e_ownerId :: oid
  e_workflowVersion :: int
  e_status :: execution_status
  e_input :: json
  e_taskCount :: int
  e_pendingTasks :: int
  e_triggeredBy :: "oid option"
  e_trigger :: trigger
  e_idempotencyKey :: "string option"
  e_requestHash :: "string option"
  e_startedAt :: "time option"
  e_completedAt :: "time option"
  e_error :: "string option"

datatype attempt_status = A_RUNNING | A_SUCCEEDED | A_FAILED | A_TIMED_OUT | A_ABANDONED | A_SUSPENDED

text \<open>One attempt of one task (\<open>TaskExecution\<close>); the error carries message and \<open>retryable\<close>.\<close>

record attempt =
  a_taskId :: oid
  a_executionId :: oid
  a_attempt :: int
  a_workerId :: string
  a_leaseToken :: int
  a_status :: attempt_status
  a_finishedAt :: "time option"
  a_durationMs :: "int option"
  a_error :: "(string \<times> bool) option"

datatype approval_status = P_PENDING | P_APPROVED | P_REJECTED | P_EXPIRED | P_CANCELLED

record approval =
  p_id :: oid
  p_taskId :: oid
  p_executionId :: oid
  p_ownerId :: oid
  p_taskKey :: key
  p_title :: string
  p_message :: string
  p_context :: json
  p_status :: approval_status
  p_decidedBy :: "oid option"
  p_decidedAt :: "time option"
  p_comment :: "string option"
  p_expiresAt :: time

record outbox_event =
  o_id :: oid
  o_eventId :: nat
  o_type :: string
  o_aggregateId :: oid
  o_payload :: "(string \<times> json) list"
  o_occurredAt :: time
  o_publishedAt :: "time option"

record db =
  tasks :: "task list"
  executions :: "execution list"
  attempts :: "attempt list"
  approvals :: "approval list"
  outbox :: "outbox_event list"
  next_id :: nat

definition empty_db :: db where
  "empty_db = \<lparr>tasks = [], executions = [], attempts = [], approvals = [], outbox = [], next_id = 0\<rparr>"

text \<open>\<open>findById\<close> and the tasks of one run.\<close>

definition find_execution :: "oid \<Rightarrow> db \<Rightarrow> execution option" where
  "find_execution i db = List.find (\<lambda>e. e_id e = i) (executions db)"

definition find_task :: "oid \<Rightarrow> db \<Rightarrow> task option" where
  "find_task i db = List.find (\<lambda>t. t_id t = i) (tasks db)"

definition tasks_of :: "oid \<Rightarrow> db \<Rightarrow> task list" where
  "tasks_of eid db = filter (\<lambda>t. t_executionId t = eid) (tasks db)"

section \<open>Workflow definitions\<close>

text \<open>A task definition extends what the graph algorithms read; a workflow is what
  \<open>startExecution\<close> gets.\<close>

record task_def = dag_task +
  def_type :: string
  def_config :: json
  def_maxAttempts :: "int option"
  def_baseDelayMs :: "int option"
  def_timeoutMs :: "int option"

record schedule =
  s_cron :: string
  s_timezone :: string
  s_enabled :: bool
  s_input :: json
  s_nextRunAt :: time
  s_lastRunAt :: "time option"
  s_lastError :: "string option"

record workflow =
  w_id :: oid
  w_ownerId :: oid
  w_name :: string
  w_description :: string
  w_tasks :: "task_def list"
  w_version :: int
  w_schedule :: "schedule option"

section \<open>Race-safe task operations\<close>

text \<open>\<open>transitionTask(taskId, from, to, { set, inc, where })\<close>: the guard of the table, then one
  conditional update. \<open>upd\<close> stands for the extra \<open>set\<close> and \<open>inc\<close>; the new status is written
  after it, as in \<open>{ ...set, status: to }\<close>.\<close>

definition transitionTask :: "oid \<Rightarrow> task_status \<Rightarrow> task_status \<Rightarrow> (task \<Rightarrow> bool) \<Rightarrow> (task \<Rightarrow> task) \<Rightarrow> db
    \<Rightarrow> (bool \<times> db) result" where
  "transitionTask taskId from to wher upd db =
     bind_result (assert_task from to) (\<lambda>_.
       let P = (\<lambda>t. wher t \<and> t_id t = taskId \<and> t_status t = from) in
       Inr (count_where P (tasks db) = 1,
            db\<lparr>tasks := update_where P (\<lambda>t. (upd t)\<lparr>t_status := to\<rparr>) (tasks db)\<rparr>))"

text \<open>\<open>{ $lt: ["$leaseExpiresAt", "$$NOW"] }\<close> in an aggregation expression: \<open>null\<close> sorts before
  every date.\<close>

definition lease_expired :: "time \<Rightarrow> task \<Rightarrow> bool" where
  "lease_expired now t = (case t_leaseExpiresAt t of None \<Rightarrow> True | Some d \<Rightarrow> d < now)"

definition claimable :: "time \<Rightarrow> task \<Rightarrow> bool" where
  "claimable now t \<longleftrightarrow>
     t_status t = T_QUEUED \<or> t_status t = T_RETRYING \<or> (t_status t = T_RUNNING \<and> lease_expired now t)"

definition claim_update :: "string \<Rightarrow> int \<Rightarrow> time \<Rightarrow> task \<Rightarrow> task" where
  "claim_update workerId leaseMs now t =
     t\<lparr>t_status := T_RUNNING, t_leaseOwner := Some workerId, t_startedAt := Some now,
       t_attempt := t_attempt t + 1, t_leaseToken := t_leaseToken t + 1,
       t_leaseExpiresAt := Some (now + leaseMs)\<rparr>"

text \<open>\<open>claimTask\<close>: the updated document, or \<open>None\<close> when nothing matched.\<close>

definition claimTask :: "oid \<Rightarrow> string \<Rightarrow> int \<Rightarrow> time \<Rightarrow> db \<Rightarrow> (task option \<times> db) result" where
  "claimTask taskId workerId leaseMs now db =
     bind_result (assert_task T_QUEUED T_RUNNING) (\<lambda>_.
     bind_result (assert_task T_RUNNING T_QUEUED) (\<lambda>_.
     bind_result (assert_task T_RETRYING T_QUEUED) (\<lambda>_.
       let P = (\<lambda>t. t_id t = taskId \<and> claimable now t) in
       Inr (case List.find P (tasks db) of
              None \<Rightarrow> (None, db)
            | Some t \<Rightarrow> (Some (claim_update workerId leaseMs now t),
                         db\<lparr>tasks := update_where P (claim_update workerId leaseMs now) (tasks db)\<rparr>)))))"

text \<open>\<open>renewTaskLease\<close>: \<open>matchedCount === 1\<close>.\<close>

definition renewTaskLease :: "oid \<Rightarrow> int \<Rightarrow> int \<Rightarrow> time \<Rightarrow> db \<Rightarrow> bool \<times> db" where
  "renewTaskLease taskId leaseToken leaseMs now db =
     (let P = (\<lambda>t. t_id t = taskId \<and> t_status t = T_RUNNING \<and> t_leaseToken t = leaseToken) in
      (count_where P (tasks db) = 1,
       db\<lparr>tasks := update_where P (\<lambda>t. t\<lparr>t_leaseExpiresAt := Some (now + leaseMs)\<rparr>) (tasks db)\<rparr>))"

lemma claimTask_eq:
  "claimTask taskId workerId leaseMs now db =
     (let P = (\<lambda>t. t_id t = taskId \<and> claimable now t) in
      Inr (case List.find P (tasks db) of
             None \<Rightarrow> (None, db)
           | Some t \<Rightarrow> (Some (claim_update workerId leaseMs now t),
                        db\<lparr>tasks := update_where P (claim_update workerId leaseMs now) (tasks db)\<rparr>)))"
  by (simp add: claimTask_def del: task_name.simps)

end
