(* ===== verification/Wf_Retry.thy ===== *)
theory Wf_Retry
  imports Wf_Prelude
begin

text \<open>
  The retry policy of \<open>src/workers/retry.js\<close>: which errors are worth a retry, and how long to
  wait. \<open>random\<close> is a parameter, as in the source; numbers are exact rationals and integers.
\<close>

text \<open>What the code reads of a thrown value: \<open>name\<close>, \<open>message\<close>, the property \<open>retryable\<close>
  (absent, true or false) and whether it is an instance of \<open>NonRetryableError\<close>. \<open>None\<close> is
  \<open>undefined\<close> or \<open>null\<close>.\<close>

record js_error =
  je_name :: string
  je_message :: string
  je_retryable :: "bool option"
  je_non_retryable :: bool

definition NonRetryableError :: "string \<Rightarrow> js_error" where
  "NonRetryableError msg =
     \<lparr>je_name = ''NonRetryableError'', je_message = msg, je_retryable = Some False, je_non_retryable = True\<rparr>"

definition isRetryable :: "js_error option \<Rightarrow> bool" where
  "isRetryable err =
     (case err of
        None \<Rightarrow> True
      | Some e \<Rightarrow> if je_non_retryable e then False else je_retryable e \<noteq> Some False)"

definition backoff_cap :: "int \<Rightarrow> int \<Rightarrow> int \<Rightarrow> int" where
  "backoff_cap maxDelayMs attempt baseDelayMs = min maxDelayMs (baseDelayMs * 2 ^ nat (max 0 (attempt - 1)))"

definition computeBackoff :: "int \<Rightarrow> int \<Rightarrow> int \<Rightarrow> rat \<Rightarrow> int" where
  "computeBackoff maxDelayMs attempt baseDelayMs random =
     \<lfloor>random * rat_of_int (backoff_cap maxDelayMs attempt baseDelayMs)\<rfloor>"

lemma backoff_cap_nonneg: "0 \<le> maxDelayMs \<Longrightarrow> 0 \<le> base \<Longrightarrow> 0 \<le> backoff_cap maxDelayMs attempt base"
  by (simp add: backoff_cap_def)

lemma backoff_cap_mono:
  assumes "attempt \<le> attempt'" "0 \<le> base"
  shows "backoff_cap maxDelayMs attempt base \<le> backoff_cap maxDelayMs attempt' base"
proof -
  have "(2::int) ^ nat (max 0 (attempt - 1)) \<le> 2 ^ nat (max 0 (attempt' - 1))"
    using assms(1) by (intro power_increasing) auto
  then have "base * 2 ^ nat (max 0 (attempt - 1)) \<le> base * 2 ^ nat (max 0 (attempt' - 1))"
    by (rule mult_left_mono[OF _ assms(2)])
  then show ?thesis by (auto simp: backoff_cap_def)
qed

text \<open>The backoff of attempt \<open>n\<close> is a whole number of milliseconds between 0 and the
  exponential cap, strictly below the cap when the cap is positive; the cap never exceeds the
  maximal delay, equals \<open>base * 2^(n-1)\<close> below it, and does not shrink from one attempt to the
  next.\<close>

theorem computeBackoff_bounds:
  assumes "0 \<le> random" "random < 1" "0 \<le> base" "0 \<le> maxDelayMs" "1 \<le> attempt"
  shows "0 \<le> computeBackoff maxDelayMs attempt base random
    \<and> computeBackoff maxDelayMs attempt base random \<le> backoff_cap maxDelayMs attempt base
    \<and> (0 < backoff_cap maxDelayMs attempt base \<longrightarrow>
        computeBackoff maxDelayMs attempt base random < backoff_cap maxDelayMs attempt base)
    \<and> backoff_cap maxDelayMs attempt base = min maxDelayMs (base * 2 ^ nat (attempt - 1))
    \<and> backoff_cap maxDelayMs attempt base \<le> backoff_cap maxDelayMs (attempt + 1) base"
proof -
  let ?c = "backoff_cap maxDelayMs attempt base"
  have c: "0 \<le> ?c" by (rule backoff_cap_nonneg[OF assms(4,3)])
  have "0 \<le> random * rat_of_int ?c" using assms(1) c by simp
  moreover have "random * rat_of_int ?c \<le> 1 * rat_of_int ?c"
    by (rule mult_right_mono) (use assms(2) c in simp_all)
  moreover have "random * rat_of_int ?c < rat_of_int ?c" if "0 < ?c"
    using mult_strict_right_mono[OF assms(2), of "rat_of_int ?c"] that by simp
  ultimately have "0 \<le> computeBackoff maxDelayMs attempt base random
    \<and> computeBackoff maxDelayMs attempt base random \<le> ?c
    \<and> (0 < ?c \<longrightarrow> computeBackoff maxDelayMs attempt base random < ?c)"
    by (simp add: computeBackoff_def floor_le_iff floor_less_iff)
  moreover have "?c = min maxDelayMs (base * 2 ^ nat (attempt - 1))"
    using assms(5) by (simp add: backoff_cap_def)
  moreover have "?c \<le> backoff_cap maxDelayMs (attempt + 1) base"
    by (rule backoff_cap_mono[OF _ assms(3)]) simp
  ultimately show ?thesis by blast
qed

theorem computeBackoff_bounds_witness:
  "0 \<le> computeBackoff 60000 3 1000 (1/2) \<and> computeBackoff 60000 3 1000 (1/2) < 4000
   \<and> backoff_cap 60000 3 1000 = 4000"
proof -
  have cap: "backoff_cap 60000 3 1000 = 4000" by (simp add: backoff_cap_def)
  show ?thesis using computeBackoff_bounds[of "1/2" 1000 60000 3] cap by simp
qed

end
