(* ===== verification/Wf_Engine.thy ===== *)
theory Wf_Engine
  imports Wf_Store Wf_Retry
begin

text \<open>
  The workflow engine, \<open>src/workflow/engine.js\<close>. The state is the database and the state \<open>'q\<close>
  of whatever stands behind the injected \<open>enqueue\<close> and \<open>enqueueDelayed\<close>. A
  \<open>connection.transaction\<close> is one atomic function on the database: an exception inside it is an
  \<open>Inl\<close> and leaves the database as it was (abort), and a conflicting transaction is retried
  against fresh data, so that committed transactions act one after the other. \<open>now\<close> is the clock
  reading of the call; the lease arithmetic of a claim uses the server clock of MongoDB, which is
  an argument of its own.
\<close>

section \<open>Dependencies\<close>

text \<open>\<open>createEngine({...})\<close>. An enqueue returns whether it succeeded (\<open>False\<close>: it threw) and the
  new queue state; \<open>dep_outbox\<close> and \<open>dep_approvals\<close> say whether the optional models are given.\<close>

record 'q deps =
  dep_enqueue :: "oid \<Rightarrow> 'q \<Rightarrow> bool \<times> 'q"
  dep_enqueueDelayed :: "(oid \<Rightarrow> int \<Rightarrow> 'q \<Rightarrow> bool \<times> 'q) option"
  dep_leaseMs :: int
  dep_backoff :: "int \<Rightarrow> int \<Rightarrow> int"
  dep_outbox :: bool
  dep_approvals :: bool

type_synonym 'q world = "db \<times> 'q"

section \<open>Outbox\<close>

definition emit :: "'q deps \<Rightarrow> string \<Rightarrow> oid \<Rightarrow> (string \<times> json) list \<Rightarrow> time \<Rightarrow> db \<Rightarrow> db" where
  "emit dp ty eid payload now db =
     (if \<not> dep_outbox dp then db
      else db\<lparr>outbox := outbox db @
                [\<lparr>o_id = next_id db, o_eventId = next_id db + 1, o_type = ty, o_aggregateId = eid,
                  o_payload = payload, o_occurredAt = now, o_publishedAt = None\<rparr>],
              next_id := next_id db + 2\<rparr>)"

section \<open>Dispatch\<close>

definition enqueueSafely :: "'q deps \<Rightarrow> task \<Rightarrow> 'q \<Rightarrow> bool \<times> 'q" where
  "enqueueSafely dp t q = dep_enqueue dp (t_id t) q"

definition enqueueRetrySafely :: "'q deps \<Rightarrow> task \<Rightarrow> int \<Rightarrow> 'q \<Rightarrow> 'q" where
  "enqueueRetrySafely dp t delayMs q =
     (case dep_enqueueDelayed dp of
        Some f \<Rightarrow> snd (f (t_id t) delayMs q)
      | None \<Rightarrow> snd (dep_enqueue dp (t_id t) q))"

definition dispatchTask :: "'q deps \<Rightarrow> time \<Rightarrow> task \<Rightarrow> 'q world \<Rightarrow> (bool \<times> 'q world) result" where
  "dispatchTask dp now t w =
     bind_result (transitionTask (t_id t) T_READY T_QUEUED (\<lambda>_. True) (\<lambda>t. t\<lparr>t_queuedAt := Some now\<rparr>) (fst w))
       (\<lambda>(won, db). if \<not> won then Inr (False, db, snd w)
                    else Inr (True, db, snd (enqueueSafely dp t (snd w))))"

fun dispatch_all :: "'q deps \<Rightarrow> time \<Rightarrow> task list \<Rightarrow> 'q world \<Rightarrow> 'q world result" where
  "dispatch_all dp now [] w = Inr w"
| "dispatch_all dp now (t # ts) w =
     bind_result (dispatchTask dp now t w) (\<lambda>(_, w'). dispatch_all dp now ts w')"

definition dispatchReady :: "'q deps \<Rightarrow> oid \<Rightarrow> time \<Rightarrow> 'q world \<Rightarrow> 'q world result" where
  "dispatchReady dp eid now w =
     (if map_option e_status (find_execution eid (fst w)) \<noteq> Some E_RUNNING then Inr w
      else dispatch_all dp now
             (filter (\<lambda>t. t_executionId t = eid \<and> t_status t = T_READY) (tasks (fst w))) w)"

section \<open>What follows the end of a task\<close>

definition duration :: "task \<Rightarrow> time \<Rightarrow> int option" where
  "duration t finishedAt = map_option (\<lambda>s. finishedAt - s) (t_startedAt t)"

definition json_opt :: "('a \<Rightarrow> json) \<Rightarrow> 'a option \<Rightarrow> json" where
  "json_opt f x = (case x of None \<Rightarrow> JNull | Some y \<Rightarrow> f y)"

definition inc_pending :: "int \<Rightarrow> oid \<Rightarrow> db \<Rightarrow> db" where
  "inc_pending n eid db =
     db\<lparr>executions := update_where (\<lambda>e. e_id e = eid)
          (\<lambda>e. e\<lparr>e_pendingTasks := e_pendingTasks e + n\<rparr>) (executions db)\<rparr>"

definition release_dependents :: "task \<Rightarrow> db \<Rightarrow> db" where
  "release_dependents task db =
     db\<lparr>tasks := update_where (\<lambda>t. t_executionId t = t_executionId task \<and> t_key t \<in> set (t_dependents task))
          (\<lambda>t. t\<lparr>t_remainingDeps := t_remainingDeps t - 1\<rparr>) (tasks db)\<rparr>"

definition promote_dependents :: "task \<Rightarrow> time \<Rightarrow> db \<Rightarrow> db" where
  "promote_dependents task finishedAt db =
     db\<lparr>tasks := update_where (\<lambda>t. t_executionId t = t_executionId task \<and> t_key t \<in> set (t_dependents task)
                                  \<and> t_status t = T_PENDING \<and> t_remainingDeps t = 0)
          (\<lambda>t. t\<lparr>t_status := T_READY, t_readyAt := Some finishedAt\<rparr>) (tasks db)\<rparr>"

definition set_execution_status :: "oid \<Rightarrow> execution_status \<Rightarrow> (execution \<Rightarrow> execution) \<Rightarrow> db \<Rightarrow> db" where
  "set_execution_status eid from upd db =
     db\<lparr>executions := update_where (\<lambda>e. e_id e = eid \<and> e_status e = from) upd (executions db)\<rparr>"

definition afterTaskSucceeded :: "'q deps \<Rightarrow> task \<Rightarrow> time \<Rightarrow> db \<Rightarrow> db result" where
  "afterTaskSucceeded dp task finishedAt db =
     (let db = inc_pending (- 1) (t_executionId task) db in
      case find_execution (t_executionId task) db of
        None \<Rightarrow> Inl NullDereference
      | Some e \<Rightarrow>
          let live = (e_status e = E_RUNNING \<or> e_status e = E_PAUSED) in
          bind_result
            (if live \<and> t_dependents task \<noteq> [] then
               let db = release_dependents task db in
               if e_status e = E_RUNNING then
                 bind_result (assert_task T_PENDING T_READY) (\<lambda>_.
                   Inr (promote_dependents task finishedAt db))
               else Inr db
             else Inr db) (\<lambda>db.
          bind_result
            (if e_status e = E_RUNNING \<and> e_pendingTasks e = 0 then
               bind_result (assert_execution E_RUNNING E_COMPLETED) (\<lambda>_.
                 Inr (emit dp ''execution.completed'' (e_id e) [] finishedAt
                       (set_execution_status (e_id e) E_RUNNING
                          (\<lambda>e. e\<lparr>e_status := E_COMPLETED, e_completedAt := Some finishedAt\<rparr>) db)))
             else Inr db) (\<lambda>db.
          Inr (emit dp ''task.completed'' (t_executionId task)
                 [(''taskId'', JId (t_id task)), (''key'', JStr (t_key task)),
                  (''attempt'', JNum (of_int (t_attempt task))),
                  (''durationMs'', json_opt (\<lambda>i. JNum (of_int i)) (duration task finishedAt))]
                 finishedAt db))))"

definition failure_text :: "task \<Rightarrow> task_status \<Rightarrow> string \<Rightarrow> string" where
  "failure_text task outcome message =
     ''Task \"'' @ t_key task @ ''\" ''
     @ (if outcome = T_DEAD_LETTER
        then ''failed after '' @ show_int (t_attempt task) @ '' attempt(s) and was dead-lettered''
        else ''failed'')
     @ '': '' @ message"

definition cancel_tasks :: "(task_status \<Rightarrow> bool) \<Rightarrow> oid \<Rightarrow> (task \<Rightarrow> task) \<Rightarrow> db \<Rightarrow> nat \<times> db" where
  "cancel_tasks S eid upd db =
     (let P = (\<lambda>t. t_executionId t = eid \<and> S (t_status t)) in
      (count_where P (tasks db),
       db\<lparr>tasks := update_where P (\<lambda>t. (upd t)\<lparr>t_status := T_CANCELLED\<rparr>) (tasks db)\<rparr>))"

definition afterTaskFailedForGood ::
    "'q deps \<Rightarrow> task \<Rightarrow> task_status \<Rightarrow> string \<Rightarrow> bool \<Rightarrow> time \<Rightarrow> db \<Rightarrow> db result" where
  "afterTaskFailedForGood dp task outcome message retryable finishedAt db =
     (let db = inc_pending (- 1) (t_executionId task) db in
      case find_execution (t_executionId task) db of
        None \<Rightarrow> Inl NullDereference
      | Some e \<Rightarrow>
          bind_result
            (if e_status e = E_RUNNING \<or> e_status e = E_PAUSED then
               let (cancelled, db) = cancel_tasks unstarted (t_executionId task)
                                       (\<lambda>t. t\<lparr>t_completedAt := Some finishedAt\<rparr>) db in
               bind_result (assert_execution (e_status e) E_FAILED) (\<lambda>_.
                 Inr (emit dp ''execution.failed'' (e_id e)
                       [(''failedTask'', JStr (t_key task)), (''error'', JStr message)] finishedAt
                       (set_execution_status (e_id e) (e_status e)
                          (\<lambda>e. e\<lparr>e_status := E_FAILED, e_error := Some (failure_text task outcome message),
                                 e_completedAt := Some finishedAt,
                                 e_pendingTasks := e_pendingTasks e - int cancelled\<rparr>) db)))
             else Inr db) (\<lambda>db.
          Inr (emit dp (if outcome = T_DEAD_LETTER then ''task.dead_lettered'' else ''task.failed'')
                 (t_executionId task)
                 [(''taskId'', JId (t_id task)), (''key'', JStr (t_key task)),
                  (''attempt'', JNum (of_int (t_attempt task))), (''error'', JStr message),
                  (''retryable'', JBool retryable)]
                 finishedAt db)))"

section \<open>Leases and run control\<close>

definition renewLease :: "'q deps \<Rightarrow> oid \<Rightarrow> int \<Rightarrow> time \<Rightarrow> db \<Rightarrow> bool \<times> db" where
  "renewLease dp taskId leaseToken mongoNow db = renewTaskLease taskId leaseToken (dep_leaseMs dp) mongoNow db"

definition pauseExecution :: "'q deps \<Rightarrow> oid \<Rightarrow> time \<Rightarrow> db \<Rightarrow> (bool \<times> db) result" where
  "pauseExecution dp eid now db =
     bind_result (assert_execution E_RUNNING E_PAUSED) (\<lambda>_.
       if count_where (\<lambda>e. e_id e = eid \<and> e_status e = E_RUNNING) (executions db) \<noteq> 1 then
         Inr (False, set_execution_status eid E_RUNNING (\<lambda>e. e\<lparr>e_status := E_PAUSED\<rparr>) db)
       else
         Inr (True, emit dp ''execution.paused'' eid [] now
                      (set_execution_status eid E_RUNNING (\<lambda>e. e\<lparr>e_status := E_PAUSED\<rparr>) db)))"

definition promote_ready :: "oid \<Rightarrow> time \<Rightarrow> db \<Rightarrow> db" where
  "promote_ready eid now db =
     db\<lparr>tasks := update_where (\<lambda>t. t_executionId t = eid \<and> t_status t = T_PENDING \<and> t_remainingDeps t = 0)
          (\<lambda>t. t\<lparr>t_status := T_READY, t_readyAt := Some now\<rparr>) (tasks db)\<rparr>"

text \<open>The transaction of \<open>resumeExecution\<close>; \<open>findOneAndUpdate\<close> returns the updated document.\<close>

definition resume_txn :: "'q deps \<Rightarrow> oid \<Rightarrow> time \<Rightarrow> db \<Rightarrow> (bool \<times> db) result" where
  "resume_txn dp eid now db =
     bind_result (assert_execution E_PAUSED E_RUNNING) (\<lambda>_.
       case List.find (\<lambda>e. e_id e = eid \<and> e_status e = E_PAUSED) (executions db) of
         None \<Rightarrow> Inr (False, db)
       | Some e \<Rightarrow>
           let db = set_execution_status eid E_PAUSED (\<lambda>e. e\<lparr>e_status := E_RUNNING\<rparr>) db;
               db = emit dp ''execution.resumed'' eid [] now db;
               db = promote_ready eid now db in
           if e_pendingTasks e = 0 then
             Inr (True, emit dp ''execution.completed'' eid [] now
                          (set_execution_status eid E_RUNNING
                             (\<lambda>e. e\<lparr>e_status := E_COMPLETED, e_completedAt := Some now\<rparr>) db))
           else Inr (True, db))"

definition resumeExecution :: "'q deps \<Rightarrow> oid \<Rightarrow> time \<Rightarrow> 'q world \<Rightarrow> (bool \<times> 'q world) result" where
  "resumeExecution dp eid now w =
     bind_result (resume_txn dp eid now (fst w)) (\<lambda>(resumed, db).
       if resumed then
         bind_result (dispatchReady dp eid now (db, snd w)) (\<lambda>w'. Inr (True, w'))
       else Inr (False, db, snd w))"

definition cancelExecution :: "'q deps \<Rightarrow> oid \<Rightarrow> time \<Rightarrow> db \<Rightarrow> (bool \<times> db) result" where
  "cancelExecution dp eid now db =
     (case List.find (\<lambda>e. e_id e = eid \<and> e_status e \<in> {E_RUNNING, E_PAUSED}) (executions db) of
        None \<Rightarrow> Inr (False, db)
      | Some e \<Rightarrow>
          bind_result (assert_execution (e_status e) E_CANCELLED) (\<lambda>_.
            let (n, db) = cancel_tasks unfinished eid
                  (\<lambda>t. t\<lparr>t_completedAt := Some now, t_leaseOwner := None, t_leaseExpiresAt := None\<rparr>) db;
                db = set_execution_status eid (e_status e)
                  (\<lambda>e. e\<lparr>e_status := E_CANCELLED, e_completedAt := Some now,
                         e_error := Some ''Cancelled by user'',
                         e_pendingTasks := e_pendingTasks e - int n\<rparr>) db;
                db = (if dep_approvals dp then
                        db\<lparr>approvals := update_where (\<lambda>p. p_executionId p = eid \<and> p_status p = P_PENDING)
                             (\<lambda>p. p\<lparr>p_status := P_CANCELLED, p_decidedAt := Some now\<rparr>) (approvals db)\<rparr>
                      else db)
            in Inr (True, emit dp ''execution.cancelled'' eid [(''cancelledTasks'', JNum (of_nat n))] now db)))"

section \<open>Starting a run\<close>

text \<open>\<open>{ input, triggeredBy, trigger, idempotencyKey, requestHash }\<close> of \<open>startExecution\<close>.\<close>

record start_params =
  sp_input :: json
  sp_triggeredBy :: "oid option"
  sp_trigger :: trigger
  sp_idempotencyKey :: "string option"
  sp_requestHash :: "string option"

definition new_execution :: "workflow \<Rightarrow> start_params \<Rightarrow> time \<Rightarrow> oid \<Rightarrow> execution" where
  "new_execution wfl sp startedAt eid =
     \<lparr>e_id = eid, e_workflowId = w_id wfl, e_ownerId = w_ownerId wfl, e_workflowVersion = w_version wfl,
      e_status = E_RUNNING, e_input = sp_input sp,
      e_taskCount = int (length (w_tasks wfl)), e_pendingTasks = int (length (w_tasks wfl)),
      e_triggeredBy = sp_triggeredBy sp, e_trigger = sp_trigger sp,
      e_idempotencyKey = sp_idempotencyKey sp, e_requestHash = sp_requestHash sp,
      e_startedAt = Some startedAt, e_completedAt = None, e_error = None\<rparr>"

text \<open>The snapshot of one task definition; the defaults are those of the schema.\<close>

definition new_task :: "workflow \<Rightarrow> (key \<times> key list) list \<Rightarrow> time \<Rightarrow> oid \<Rightarrow> oid \<Rightarrow> task_def \<Rightarrow> task" where
  "new_task wfl dependents startedAt eid tid def =
     (let isRoot = (deps def = []) in
      \<lparr>t_id = tid, t_executionId = eid, t_ownerId = w_ownerId wfl, t_key = d_key def,
       t_type = def_type def, t_config = def_config def, t_dependsOn = deps def,
       t_dependents = (case map_of dependents (d_key def) of None \<Rightarrow> [] | Some cs \<Rightarrow> cs),
       t_remainingDeps = int (length (deps def)),
       t_status = (if isRoot then T_READY else T_PENDING),
       t_attempt = 0,
       t_maxAttempts = (case def_maxAttempts def of None \<Rightarrow> 3 | Some n \<Rightarrow> n),
       t_baseDelayMs = (case def_baseDelayMs def of None \<Rightarrow> 1000 | Some n \<Rightarrow> n),
       t_timeoutMs = (case def_timeoutMs def of None \<Rightarrow> 30000 | Some n \<Rightarrow> n),
       t_leaseOwner = None, t_leaseToken = 0, t_leaseExpiresAt = None, t_output = JNull,
       t_error = None, t_readyAt = (if isRoot then Some startedAt else None), t_retryAt = None,
       t_queuedAt = None, t_startedAt = None, t_completedAt = None\<rparr>)"

definition new_tasks :: "workflow \<Rightarrow> (key \<times> key list) list \<Rightarrow> time \<Rightarrow> oid \<Rightarrow> task list" where
  "new_tasks wfl dependents startedAt eid =
     map (\<lambda>(i, def). new_task wfl dependents startedAt eid i def) (enumerate (eid + 1) (w_tasks wfl))"

definition trigger_name :: "trigger \<Rightarrow> string" where
  "trigger_name tr = (case tr of Manual \<Rightarrow> ''manual'' | Schedule \<Rightarrow> ''schedule'')"

text \<open>The unique partial index on \<open>(triggeredBy, idempotencyKey)\<close>.\<close>

definition idempotency_taken :: "start_params \<Rightarrow> db \<Rightarrow> bool" where
  "idempotency_taken sp db \<longleftrightarrow>
     sp_idempotencyKey sp \<noteq> None
     \<and> (\<exists>e \<in> set (executions db). e_triggeredBy e = sp_triggeredBy sp
                                \<and> e_idempotencyKey e = sp_idempotencyKey sp)"

definition start_txn :: "'q deps \<Rightarrow> workflow \<Rightarrow> (key \<times> key list) list \<Rightarrow> start_params \<Rightarrow> time \<Rightarrow> db
    \<Rightarrow> (execution \<times> db) result" where
  "start_txn dp wfl dependents sp startedAt db =
     (let eid = next_id db;
          e = new_execution wfl sp startedAt eid;
          ts = new_tasks wfl dependents startedAt eid in
      if idempotency_taken sp db then Inl (DuplicateKey IxIdempotency)
      else if \<not> distinct (map t_key ts) then Inl (DuplicateKey IxTaskKey)
      else Inr (e, emit dp ''execution.started'' eid
                     [(''workflowId'', JId (w_id wfl)), (''workflowVersion'', JNum (of_int (w_version wfl))),
                      (''taskCount'', JNum (of_nat (length (w_tasks wfl)))),
                      (''triggeredBy'', json_opt JId (sp_triggeredBy sp)),
                      (''trigger'', JStr (trigger_name (sp_trigger sp)))] startedAt
                     (db\<lparr>executions := executions db @ [e], tasks := tasks db @ ts,
                         next_id := eid + 1 + length ts\<rparr>)))"

text \<open>Iterating over an absent \<open>dependsOn\<close> is a \<open>TypeError\<close>, although \<open>validateDag\<close> takes it for
  an empty list.\<close>

definition start_run :: "'q deps \<Rightarrow> workflow \<Rightarrow> start_params \<Rightarrow> time \<Rightarrow> db \<Rightarrow> (execution \<times> db) result" where
  "start_run dp wfl sp now db =
     bind_result (validateDag (w_tasks wfl)) (\<lambda>check.
       if \<not> valid check then Inl (ValidationError ''INVALID_WORKFLOW_GRAPH'')
       else if \<exists>t \<in> set (w_tasks wfl). d_dependsOn t = None then Inl NullDereference
       else bind_result (children_map (w_tasks wfl)) (\<lambda>dependents. start_txn dp wfl dependents sp now db))"

definition startExecution :: "'q deps \<Rightarrow> workflow \<Rightarrow> start_params \<Rightarrow> time \<Rightarrow> 'q world
    \<Rightarrow> (execution \<times> 'q world) result" where
  "startExecution dp wfl sp now w =
     bind_result (start_run dp wfl sp now (fst w)) (\<lambda>(e, db).
     bind_result (dispatchReady dp (e_id e) now (db, snd w)) (\<lambda>w'. Inr (e, w')))"

section \<open>Reports of a worker\<close>

text \<open>\<open>TaskExecution.updateOne({ taskId, attempt }, { $set: ... })\<close>\<close>

definition close_attempt :: "oid \<Rightarrow> int \<Rightarrow> (attempt \<Rightarrow> attempt) \<Rightarrow> db \<Rightarrow> db" where
  "close_attempt taskId n upd db =
     db\<lparr>attempts := update_where (\<lambda>a. a_taskId a = taskId \<and> a_attempt a = n) upd (attempts db)\<rparr>"

definition complete_txn :: "'q deps \<Rightarrow> oid \<Rightarrow> int \<Rightarrow> json \<Rightarrow> time \<Rightarrow> db \<Rightarrow> (oid option \<times> db) result" where
  "complete_txn dp taskId leaseToken output finishedAt db =
     bind_result
       (transitionTask taskId T_RUNNING T_COMPLETED (\<lambda>t. t_leaseToken t = leaseToken)
          (\<lambda>t. t\<lparr>t_output := output, t_completedAt := Some finishedAt, t_leaseOwner := None,
                 t_leaseExpiresAt := None\<rparr>) db) (\<lambda>(won, db').
       if \<not> won then Inr (None, db')
       else case find_task taskId db' of
              None \<Rightarrow> Inl NullDereference
            | Some task \<Rightarrow>
                bind_result
                  (afterTaskSucceeded dp task finishedAt
                     (close_attempt taskId (t_attempt task)
                        (\<lambda>a. a\<lparr>a_status := A_SUCCEEDED, a_finishedAt := Some finishedAt,
                               a_durationMs := duration task finishedAt\<rparr>) db'))
                  (\<lambda>db''. Inr (Some (t_executionId task), db'')))"

definition completeTask :: "'q deps \<Rightarrow> oid \<Rightarrow> int \<Rightarrow> json \<Rightarrow> time \<Rightarrow> 'q world \<Rightarrow> (bool \<times> 'q world) result" where
  "completeTask dp taskId leaseToken output now w =
     bind_result (complete_txn dp taskId leaseToken output now (fst w)) (\<lambda>(r, db).
       case r of
         None \<Rightarrow> Inr (False, db, snd w)
       | Some eid \<Rightarrow> bind_result (dispatchReady dp eid now (db, snd w)) (\<lambda>w'. Inr (True, w')))"

text \<open>\<open>{ applied, outcome, delayMs }\<close>\<close>

record fail_result =
  f_applied :: bool
  f_outcome :: "task_status option"
  f_delayMs :: "int option"

definition error_message :: "js_error option \<Rightarrow> string" where
  "error_message err = take 2000 (case err of None \<Rightarrow> ''Task failed'' | Some e \<Rightarrow> je_message e)"

definition fail_retry :: "'q deps \<Rightarrow> task \<Rightarrow> string \<Rightarrow> time \<Rightarrow> db
    \<Rightarrow> ((fail_result \<times> task option) \<times> db) result" where
  "fail_retry dp task message finishedAt db =
     (let delayMs = dep_backoff dp (t_attempt task) (t_baseDelayMs task) in
      bind_result
        (transitionTask (t_id task) T_RUNNING T_RETRYING (\<lambda>t. t_leaseToken t = t_leaseToken task)
           (\<lambda>t. t\<lparr>t_error := Some message, t_leaseOwner := None, t_leaseExpiresAt := None,
                  t_retryAt := Some (finishedAt + delayMs)\<rparr>) db) (\<lambda>(won, db).
        if \<not> won then Inr ((\<lparr>f_applied = False, f_outcome = None, f_delayMs = None\<rparr>, None), db)
        else Inr ((\<lparr>f_applied = True, f_outcome = Some T_RETRYING, f_delayMs = Some delayMs\<rparr>, Some task),
                  emit dp ''task.retrying'' (t_executionId task)
                    [(''taskId'', JId (t_id task)), (''key'', JStr (t_key task)),
                     (''attempt'', JNum (of_int (t_attempt task))), (''delayMs'', JNum (of_int delayMs)),
                     (''error'', JStr message)] finishedAt db)))"

definition fail_terminal :: "'q deps \<Rightarrow> task \<Rightarrow> task_status \<Rightarrow> string \<Rightarrow> bool \<Rightarrow> time \<Rightarrow> db
    \<Rightarrow> ((fail_result \<times> task option) \<times> db) result" where
  "fail_terminal dp task outcome message retryable finishedAt db =
     bind_result
       (transitionTask (t_id task) T_RUNNING T_FAILED (\<lambda>t. t_leaseToken t = t_leaseToken task)
          (\<lambda>t. t\<lparr>t_error := Some message, t_completedAt := Some finishedAt, t_leaseOwner := None,
                 t_leaseExpiresAt := None\<rparr>) db) (\<lambda>(won, db).
       if \<not> won then Inr ((\<lparr>f_applied = False, f_outcome = None, f_delayMs = None\<rparr>, None), db)
       else bind_result
              (if outcome = T_DEAD_LETTER then
                 transitionTask (t_id task) T_FAILED T_DEAD_LETTER (\<lambda>_. True) (\<lambda>t. t) db
               else Inr (True, db)) (\<lambda>(_, db).
            bind_result (afterTaskFailedForGood dp task outcome message retryable finishedAt db) (\<lambda>db.
              Inr ((\<lparr>f_applied = True, f_outcome = Some outcome, f_delayMs = None\<rparr>, None), db))))"

definition fail_txn :: "'q deps \<Rightarrow> oid \<Rightarrow> int \<Rightarrow> js_error option \<Rightarrow> time \<Rightarrow> db
    \<Rightarrow> ((fail_result \<times> task option) \<times> db) result" where
  "fail_txn dp taskId leaseToken err finishedAt db =
     (let message = error_message err; retryable = isRetryable err in
      case List.find (\<lambda>t. t_id t = taskId \<and> t_status t = T_RUNNING \<and> t_leaseToken t = leaseToken) (tasks db) of
        None \<Rightarrow> Inr ((\<lparr>f_applied = False, f_outcome = None, f_delayMs = None\<rparr>, None), db)
      | Some task \<Rightarrow>
          let db = close_attempt taskId (t_attempt task)
                     (\<lambda>a. a\<lparr>a_status := (if map_option je_name err = Some ''TimeoutError''
                                        then A_TIMED_OUT else A_FAILED),
                            a_finishedAt := Some finishedAt, a_durationMs := duration task finishedAt,
                            a_error := Some (message, retryable)\<rparr>) db in
          case find_execution (t_executionId task) db of
            None \<Rightarrow> Inl NullDereference
          | Some e \<Rightarrow>
              let attemptsLeft = (t_attempt task < t_maxAttempts task);
                  live = (e_status e = E_RUNNING \<or> e_status e = E_PAUSED) in
              if retryable \<and> attemptsLeft \<and> live then fail_retry dp task message finishedAt db
              else fail_terminal dp task (if retryable \<and> \<not> attemptsLeft then T_DEAD_LETTER else T_FAILED)
                     message retryable finishedAt db)"

definition failTask :: "'q deps \<Rightarrow> oid \<Rightarrow> int \<Rightarrow> js_error option \<Rightarrow> time \<Rightarrow> 'q world
    \<Rightarrow> (fail_result \<times> 'q world) result" where
  "failTask dp taskId leaseToken err now w =
     bind_result (fail_txn dp taskId leaseToken err now (fst w)) (\<lambda>((res, retryTask), db).
       case retryTask of
         None \<Rightarrow> Inr (res, db, snd w)
       | Some task \<Rightarrow>
           Inr (res, db, enqueueRetrySafely dp task (case f_delayMs res of None \<Rightarrow> 0 | Some d \<Rightarrow> d) (snd w)))"

section \<open>Starting a task\<close>

definition abandon_attempts :: "task \<Rightarrow> time \<Rightarrow> db \<Rightarrow> db" where
  "abandon_attempts task now db =
     db\<lparr>attempts := update_where
          (\<lambda>a. a_taskId a = t_id task \<and> a_attempt a < t_attempt task \<and> a_status a = A_RUNNING)
          (\<lambda>a. a\<lparr>a_status := A_ABANDONED, a_finishedAt := Some now\<rparr>) (attempts db)\<rparr>"

definition create_attempt :: "task \<Rightarrow> string \<Rightarrow> db \<Rightarrow> db result" where
  "create_attempt task workerId db =
     (if \<exists>a \<in> set (attempts db). a_taskId a = t_id task \<and> a_attempt a = t_attempt task
      then Inl (DuplicateKey IxAttempt)
      else Inr (db\<lparr>attempts := attempts db @
                     [\<lparr>a_taskId = t_id task, a_executionId = t_executionId task, a_attempt = t_attempt task,
                       a_workerId = workerId, a_leaseToken = t_leaseToken task, a_status = A_RUNNING,
                       a_finishedAt = None, a_durationMs = None, a_error = None\<rparr>]\<rparr>))"

definition poison_error :: "task \<Rightarrow> js_error" where
  "poison_error task =
     \<lparr>je_name = ''Error'',
      je_message = ''Exceeded '' @ show_int (t_maxAttempts task)
                   @ '' attempts (previous attempts were abandoned by lost workers)'',
      je_retryable = None, je_non_retryable = False\<rparr>"

definition run_input :: "task \<Rightarrow> db \<Rightarrow> json" where
  "run_input task db =
     (case find_execution (t_executionId task) db of
        None \<Rightarrow> JObj []
      | Some e \<Rightarrow> (if e_input e = JNull then JObj [] else e_input e))"

definition parent_outputs :: "task \<Rightarrow> db \<Rightarrow> (key \<times> json) list" where
  "parent_outputs task db =
     js_map (map (\<lambda>t. (t_key t, t_output t))
               (filter (\<lambda>t. t_executionId t = t_executionId task \<and> t_key t \<in> set (t_dependsOn task)) (tasks db)))"

text \<open>The claim, the attempt record and the event are separate writes: an error after the claim
  leaves the claim in place, so the state is returned beside the result.\<close>

definition startTask :: "'q deps \<Rightarrow> oid \<Rightarrow> string \<Rightarrow> time \<Rightarrow> time \<Rightarrow> 'q world
    \<Rightarrow> (task \<times> json \<times> (key \<times> json) list) option result \<times> 'q world" where
  "startTask dp taskId workerId mongoNow now w =
     (case claimTask taskId workerId (dep_leaseMs dp) mongoNow (fst w) of
        Inl err \<Rightarrow> (Inl err, w)
      | Inr (None, db) \<Rightarrow> (Inr None, db, snd w)
      | Inr (Some task, db) \<Rightarrow>
          let db1 = abandon_attempts task now db in
          case create_attempt task workerId db1 of
            Inl err \<Rightarrow> (Inl err, db1, snd w)
          | Inr db2 \<Rightarrow>
              let db3 = emit dp ''task.started'' (t_executionId task)
                          [(''taskId'', JId (t_id task)), (''key'', JStr (t_key task)),
                           (''attempt'', JNum (of_int (t_attempt task))), (''workerId'', JStr workerId)] now db2 in
              if t_attempt task > t_maxAttempts task then
                (case failTask dp (t_id task) (t_leaseToken task) (Some (poison_error task)) now (db3, snd w) of
                   Inl err \<Rightarrow> (Inl err, db3, snd w)
                 | Inr (_, w') \<Rightarrow> (Inr None, w'))
              else (Inr (Some (task, run_input task db3, parent_outputs task db3)), db3, snd w))"

section \<open>Human approval\<close>

record approval_request =
  r_title :: string
  r_message :: string
  r_context :: json
  r_timeoutMs :: int

definition suspendForApproval :: "'q deps \<Rightarrow> oid \<Rightarrow> int \<Rightarrow> approval_request \<Rightarrow> time \<Rightarrow> db
    \<Rightarrow> (bool \<times> db) result" where
  "suspendForApproval dp taskId leaseToken request finishedAt db =
     (if \<not> dep_approvals dp then Inl (PlainError ''approvals not configured'')
      else bind_result
        (transitionTask taskId T_RUNNING T_WAITING_FOR_APPROVAL (\<lambda>t. t_leaseToken t = leaseToken)
           (\<lambda>t. t\<lparr>t_leaseOwner := None, t_leaseExpiresAt := None\<rparr>) db) (\<lambda>(won, db').
        if \<not> won then Inr (False, db')
        else case find_task taskId db' of
               None \<Rightarrow> Inl NullDereference
             | Some task \<Rightarrow>
                 let db1 = close_attempt taskId (t_attempt task)
                             (\<lambda>a. a\<lparr>a_status := A_SUSPENDED, a_finishedAt := Some finishedAt,
                                    a_durationMs := duration task finishedAt\<rparr>) db';
                     i = next_id db1;
                     expiresAt = finishedAt + r_timeoutMs request in
                 if \<exists>p \<in> set (approvals db1). p_taskId p = t_id task then Inl (DuplicateKey IxApprovalTask)
                 else Inr (True, emit dp ''approval.requested'' (t_executionId task)
                        [(''approvalId'', JId i), (''taskId'', JId (t_id task)), (''key'', JStr (t_key task)),
                         (''expiresAt'', JDate expiresAt)] finishedAt
                        (db1\<lparr>approvals := approvals db1 @
                               [\<lparr>p_id = i, p_taskId = t_id task, p_executionId = t_executionId task,
                                 p_ownerId = t_ownerId task, p_taskKey = t_key task, p_title = r_title request,
                                 p_message = r_message request, p_context = r_context request,
                                 p_status = P_PENDING, p_decidedBy = None, p_decidedAt = None,
                                 p_comment = None, p_expiresAt = expiresAt\<rparr>],
                             next_id := i + 1\<rparr>))))"

definition decision_event :: "approval_status \<Rightarrow> string" where
  "decision_event d =
     (case d of P_PENDING \<Rightarrow> ''approval.pending'' | P_APPROVED \<Rightarrow> ''approval.approved''
      | P_REJECTED \<Rightarrow> ''approval.rejected'' | P_EXPIRED \<Rightarrow> ''approval.expired''
      | P_CANCELLED \<Rightarrow> ''approval.cancelled'')"

definition decision_error :: "approval_status \<Rightarrow> string option \<Rightarrow> string" where
  "decision_error decision comment =
     (if decision = P_EXPIRED then ''Approval timed out''
      else ''Rejected by approver''
           @ (case comment of None \<Rightarrow> [] | Some [] \<Rightarrow> [] | Some c \<Rightarrow> '': '' @ c))"

definition resolve_txn :: "'q deps \<Rightarrow> oid \<Rightarrow> approval_status \<Rightarrow> oid option \<Rightarrow> string option \<Rightarrow> (approval \<Rightarrow> bool)
    \<Rightarrow> time \<Rightarrow> db \<Rightarrow> ((approval_status option \<times> oid option) \<times> db) result" where
  "resolve_txn dp approvalId decision decidedBy comment scope decidedAt db =
     (let P = (\<lambda>p. p_id p = approvalId \<and> p_status p = P_PENDING \<and> scope p) in
      case List.find P (approvals db) of
        None \<Rightarrow> Inr ((None, None), db)
      | Some p \<Rightarrow>
          let db1 = db\<lparr>approvals := update_where P
                (\<lambda>p. p\<lparr>p_status := decision, p_decidedBy := decidedBy, p_decidedAt := Some decidedAt,
                       p_comment := comment\<rparr>) (approvals db)\<rparr>;
              approved = (decision = P_APPROVED) in
          bind_result
            (transitionTask (p_taskId p) T_WAITING_FOR_APPROVAL (if approved then T_COMPLETED else T_FAILED)
               (\<lambda>_. True)
               (\<lambda>t. if approved
                    then t\<lparr>t_output := JObj [(''approved'', JBool True), (''decidedBy'', json_opt JId decidedBy),
                                             (''comment'', json_opt JStr comment), (''decidedAt'', JDate decidedAt)],
                           t_completedAt := Some decidedAt\<rparr>
                    else t\<lparr>t_error := Some (decision_error decision comment), t_completedAt := Some decidedAt\<rparr>)
               db1) (\<lambda>(won, db2).
            if \<not> won then Inl (ConflictError ''APPROVAL_NOT_ACTIONABLE'')
            else case find_task (p_taskId p) db2 of
                   None \<Rightarrow> Inl NullDereference
                 | Some task \<Rightarrow>
                     bind_result
                       (if approved then afterTaskSucceeded dp task decidedAt db2
                        else afterTaskFailedForGood dp task T_FAILED
                               (case t_error task of None \<Rightarrow> ''null'' | Some m \<Rightarrow> m) False decidedAt db2) (\<lambda>db3.
                     Inr ((Some decision, Some (t_executionId task)),
                          emit dp (decision_event decision) (t_executionId task)
                            [(''approvalId'', JId (p_id p)), (''key'', JStr (t_key task)),
                             (''decidedBy'', json_opt JId decidedBy)] decidedAt db3))))"

definition resolveApproval :: "'q deps \<Rightarrow> oid \<Rightarrow> approval_status \<Rightarrow> oid option \<Rightarrow> string option
    \<Rightarrow> (approval \<Rightarrow> bool) \<Rightarrow> time \<Rightarrow> 'q world \<Rightarrow> (approval_status option \<times> 'q world) result" where
  "resolveApproval dp approvalId decision decidedBy comment scope now w =
     (if \<not> dep_approvals dp then Inl (PlainError ''approvals not configured'')
      else bind_result (resolve_txn dp approvalId decision decidedBy comment scope now (fst w))
        (\<lambda>((outcome, eid), db).
          case (outcome, eid) of
            (Some P_APPROVED, Some i) \<Rightarrow>
              bind_result (dispatchReady dp i now (db, snd w)) (\<lambda>w'. Inr (outcome, w'))
          | _ \<Rightarrow> Inr (outcome, db, snd w)))"

section \<open>The reconciler\<close>

record counts =
  c_ready :: nat
  c_queued :: nat
  c_running :: nat
  c_retrying :: nat
  c_expiredApprovals :: nat

text \<open>\<open>.limit(n)\<close>, where MongoDB takes 0 for no limit; \<open>$lt\<close> against a date in a query does not
  match \<open>null\<close>.\<close>

definition limited :: "nat \<Rightarrow> 'a list \<Rightarrow> 'a list" where
  "limited n xs = (if n = 0 then xs else take n xs)"

definition before :: "time option \<Rightarrow> time \<Rightarrow> bool" where
  "before d cutoff = (case d of None \<Rightarrow> False | Some x \<Rightarrow> x < cutoff)"

text \<open>First sweep, with the cache \<open>statusOf\<close>.\<close>

fun sweep_ready :: "'q deps \<Rightarrow> time \<Rightarrow> (oid \<times> execution_status option) list \<Rightarrow> task list \<Rightarrow> nat \<Rightarrow> 'q world
    \<Rightarrow> (nat \<times> 'q world) result" where
  "sweep_ready dp now statusOf [] n w = Inr (n, w)"
| "sweep_ready dp now statusOf (t # ts) n w =
     (let i = t_executionId t;
          statusOf = (case map_of statusOf i of
                        None \<Rightarrow> AList.update i (map_option e_status (find_execution i (fst w))) statusOf
                      | Some _ \<Rightarrow> statusOf) in
      if map_of statusOf i \<noteq> Some (Some E_RUNNING) then sweep_ready dp now statusOf ts n w
      else bind_result (dispatchTask dp now t w) (\<lambda>(won, w').
             sweep_ready dp now statusOf ts (if won then n + 1 else n) w'))"

text \<open>The three sweeps that only enqueue.\<close>

fun sweep_enqueue :: "'q deps \<Rightarrow> task list \<Rightarrow> nat \<Rightarrow> 'q \<Rightarrow> nat \<times> 'q" where
  "sweep_enqueue dp [] n q = (n, q)"
| "sweep_enqueue dp (t # ts) n q =
     (let (ok, q') = enqueueSafely dp t q in sweep_enqueue dp ts (if ok then n + 1 else n) q')"

text \<open>Fifth sweep: an exception of \<open>resolveApproval\<close> is caught and logged.\<close>

fun sweep_approvals :: "'q deps \<Rightarrow> time \<Rightarrow> approval list \<Rightarrow> nat \<Rightarrow> 'q world \<Rightarrow> nat \<times> 'q world" where
  "sweep_approvals dp now [] n w = (n, w)"
| "sweep_approvals dp now (p # ps) n w =
     (case resolveApproval dp (p_id p) P_EXPIRED None None (\<lambda>_. True) now w of
        Inl _ \<Rightarrow> sweep_approvals dp now ps n w
      | Inr (outcome, w') \<Rightarrow> sweep_approvals dp now ps (if outcome \<noteq> None then n + 1 else n) w')"

definition reconcile :: "'q deps \<Rightarrow> int \<Rightarrow> nat \<Rightarrow> time \<Rightarrow> time \<Rightarrow> 'q world \<Rightarrow> (counts \<times> 'q world) result" where
  "reconcile dp staleMs limit mongoNow now w =
     (let cutoff = now - staleMs;
          stuckReady = limited limit
            (filter (\<lambda>t. t_status t = T_READY \<and> before (t_readyAt t) cutoff) (tasks (fst w))) in
      bind_result (sweep_ready dp now [] stuckReady 0 w) (\<lambda>(ready, db, q).
        let (queued, q) = sweep_enqueue dp (limited limit
              (filter (\<lambda>t. t_status t = T_QUEUED \<and> before (t_queuedAt t) cutoff) (tasks db))) 0 q;
            (running, q) = sweep_enqueue dp (limited limit
              (filter (\<lambda>t. t_status t = T_RUNNING \<and> lease_expired mongoNow t) (tasks db))) 0 q;
            (retrying, q) = sweep_enqueue dp (limited limit
              (filter (\<lambda>t. t_status t = T_RETRYING \<and> before (t_retryAt t) cutoff) (tasks db))) 0 q;
            (expired, w) = (if dep_approvals dp
               then sweep_approvals dp now (limited limit
                      (filter (\<lambda>p. p_status p = P_PENDING \<and> before (Some (p_expiresAt p)) now) (approvals db))) 0 (db, q)
               else (0, db, q)) in
        Inr (\<lparr>c_ready = ready, c_queued = queued, c_running = running, c_retrying = retrying,
              c_expiredApprovals = expired\<rparr>, w)))"

end
