(* ===== verification/Wf_System.thy ===== *)
theory Wf_System
  imports Wf_Prelude
begin

text \<open>
  Transition systems: the states that can be reached from the initial ones, invariants proved
  once from \<open>init\<close> and \<open>step\<close>, and simulations, which carry reachability from a detailed system
  to an abstract one, and the separation of tenants. The engine, the run specification and the queue are instances.
\<close>

inductive reach :: "('s \<Rightarrow> bool) \<Rightarrow> ('s \<Rightarrow> 's \<Rightarrow> bool) \<Rightarrow> 's \<Rightarrow> bool" for init step where
  reach_init: "init s \<Longrightarrow> reach init step s"
| reach_step: "reach init step s \<Longrightarrow> step s s' \<Longrightarrow> reach init step s'"

lemma reach_rtranclp: "reach init step s \<Longrightarrow> step\<^sup>*\<^sup>* s s' \<Longrightarrow> reach init step s'"
  by (rotate_tac, induction rule: rtranclp_induct) (auto intro: reach_step)

lemma reach_mono: "reach init step s \<Longrightarrow> (\<And>s s'. step s s' \<Longrightarrow> step' s s') \<Longrightarrow> reach init step' s"
  by (induction rule: reach.induct) (auto intro: reach_init reach_step)

section \<open>Invariants\<close>

locale invariant_system =
  fixes init :: "'s \<Rightarrow> bool" and step :: "'s \<Rightarrow> 's \<Rightarrow> bool" and inv :: "'s \<Rightarrow> bool"
  assumes inv_init: "init s \<Longrightarrow> inv s"
    and inv_step: "inv s \<Longrightarrow> step s s' \<Longrightarrow> inv s'"
begin

lemma reach_inv: "reach init step s \<Longrightarrow> inv s"
  by (induction rule: reach.induct) (auto intro: inv_init inv_step)

lemma steps_inv: "inv s \<Longrightarrow> step\<^sup>*\<^sup>* s s' \<Longrightarrow> inv s'"
  by (rotate_tac, induction rule: rtranclp_induct) (auto intro: inv_step)

end

section \<open>Simulations\<close>

text \<open>Every detailed step is matched by zero or more abstract steps on the observed state.\<close>

locale simulation = invariant_system init step inv
  for init :: "'s \<Rightarrow> bool" and step inv +
  fixes abs :: "'s \<Rightarrow> 'a" and ainit :: "'a \<Rightarrow> bool" and astep :: "'a \<Rightarrow> 'a \<Rightarrow> bool"
  assumes sim_init: "init s \<Longrightarrow> ainit (abs s)"
    and sim_step: "inv s \<Longrightarrow> step s s' \<Longrightarrow> astep\<^sup>*\<^sup>* (abs s) (abs s')"
begin

lemma sim_reach: "reach init step s \<Longrightarrow> reach ainit astep (abs s)"
proof (induction rule: reach.induct)
  case (reach_init s)
  then show ?case by (auto intro: reach.reach_init sim_init)
next
  case (reach_step s s')
  then show ?case by (meson reach_inv reach_rtranclp sim_step)
qed

lemma sim_steps: "inv s \<Longrightarrow> step\<^sup>*\<^sup>* s s' \<Longrightarrow> astep\<^sup>*\<^sup>* (abs s) (abs s')"
proof (rotate_tac, induction rule: rtranclp_induct)
  case (step s' s'')
  then show ?case by (meson rtranclp_trans sim_step steps_inv)
qed simp

end

section \<open>Separation\<close>

text \<open>Tenants that share a system: a step of someone who may not influence a tenant leaves the tenant's view
  of the state alone.\<close>

locale separation = invariant_system init "\<lambda>s s'. \<exists>u. step u s s'" inv
  for init :: "'s \<Rightarrow> bool" and step :: "'u \<Rightarrow> 's \<Rightarrow> 's \<Rightarrow> bool" and inv +
  fixes may_influence :: "'u \<Rightarrow> 't \<Rightarrow> bool" and view :: "'t \<Rightarrow> 's \<Rightarrow> 'v"
  assumes respects: "inv s \<Longrightarrow> step u s s' \<Longrightarrow> \<not> may_influence u t \<Longrightarrow> view t s' = view t s"
begin

lemma others_invisible:
  assumes "(\<lambda>s s'. \<exists>u. \<not> may_influence u t \<and> step u s s')\<^sup>*\<^sup>* s s'" "inv s"
  shows "inv s' \<and> view t s' = view t s"
  using assms
proof (induction rule: rtranclp_induct)
  case (step s1 s2)
  then show ?case using respects inv_step by metis
qed simp

end

end
