(* ===== verification/Wf_Run_Spec.thy ===== *)
theory Wf_Run_Spec
  imports Wf_States Wf_System
begin

text \<open>
  What the engine promises about one run, without its counters, leases and documents: a run is
  a status and a status per task key, over a fixed dependency graph. The steps are the ones the
  comments of \<open>src/workflow/engine.js\<close> describe: a task becomes ready when all its dependencies
  are completed, a run is completed when all its tasks are, the first final failure cancels
  everything unstarted. The theory proves the invariant of this machine and its progress
  properties; the engine is shown to implement it in \<open>Wf_Engine_Run\<close> and \<open>Wf_Engine_Db\<close>.
\<close>

section \<open>Runs\<close>

type_synonym graph = "key \<rightharpoonup> key list"
type_synonym task_map = "key \<rightharpoonup> task_status"

record run =
  run_status :: execution_status
  run_tasks :: task_map

definition deps_in :: "graph \<Rightarrow> key \<Rightarrow> key set" where
  "deps_in G k = (case G k of None \<Rightarrow> {} | Some ds \<Rightarrow> set ds)"

definition graph_wf :: "graph \<Rightarrow> bool" where
  "graph_wf G \<longleftrightarrow> finite (dom G) \<and> (\<forall>k. deps_in G k \<subseteq> dom G) \<and> acyclic {(d, k). d \<in> deps_in G k}"

definition deps_completed :: "graph \<Rightarrow> task_map \<Rightarrow> key \<Rightarrow> bool" where
  "deps_completed G m k \<longleftrightarrow> (\<forall>d \<in> deps_in G k. m d = Some T_COMPLETED)"

definition live :: "execution_status \<Rightarrow> bool" where
  "live s \<longleftrightarrow> s = E_RUNNING \<or> s = E_PAUSED"

section \<open>Steps\<close>

definition promote :: "graph \<Rightarrow> task_map \<Rightarrow> task_map" where
  "promote G m = (\<lambda>k. if m k = Some T_PENDING \<and> deps_completed G m k then Some T_READY else m k)"

definition cancel_where :: "(task_status \<Rightarrow> bool) \<Rightarrow> task_map \<Rightarrow> task_map" where
  "cancel_where S m = (\<lambda>k. map_option (\<lambda>s. if S s then T_CANCELLED else s) (m k))"

text \<open>A run that is running and has only completed tasks is completed.\<close>

definition settle :: "execution_status \<Rightarrow> task_map \<Rightarrow> execution_status" where
  "settle s m = (if s = E_RUNNING \<and> ran m \<subseteq> {T_COMPLETED} then E_COMPLETED else s)"

definition spec_succeed :: "graph \<Rightarrow> key \<Rightarrow> run \<Rightarrow> run" where
  "spec_succeed G k r =
     (let m = (run_tasks r)(k \<mapsto> T_COMPLETED);
          m' = (if run_status r = E_RUNNING then promote G m else m)
      in \<lparr>run_status = settle (run_status r) m', run_tasks = m'\<rparr>)"

definition spec_fail :: "task_status \<Rightarrow> key \<Rightarrow> run \<Rightarrow> run" where
  "spec_fail outcome k r =
     (let m = (run_tasks r)(k \<mapsto> outcome)
      in if live (run_status r) then \<lparr>run_status = E_FAILED, run_tasks = cancel_where unstarted m\<rparr>
         else r\<lparr>run_tasks := m\<rparr>)"

definition spec_resume :: "graph \<Rightarrow> run \<Rightarrow> run" where
  "spec_resume G r =
     (let m = promote G (run_tasks r) in \<lparr>run_status = settle E_RUNNING m, run_tasks = m\<rparr>)"

definition spec_cancel :: "run \<Rightarrow> run" where
  "spec_cancel r = \<lparr>run_status = E_CANCELLED, run_tasks = cancel_where unfinished (run_tasks r)\<rparr>"

text \<open>Moves of a single task that start, hand over or postpone its work. A takeover of a lapsed
  lease moves a task from running to running.\<close>

definition quiet_move :: "execution_status \<Rightarrow> task_status \<Rightarrow> task_status \<Rightarrow> bool" where
  "quiet_move es s s' \<longleftrightarrow>
     (s, s') \<in> {(T_READY, T_QUEUED), (T_QUEUED, T_RUNNING), (T_RETRYING, T_RUNNING),
                (T_RUNNING, T_RUNNING), (T_RUNNING, T_WAITING_FOR_APPROVAL)}
     \<or> live es \<and> (s, s') = (T_RUNNING, T_RETRYING)"

inductive run_step :: "graph \<Rightarrow> run \<Rightarrow> run \<Rightarrow> bool" for G where
  step_move: "run_tasks r k = Some s \<Longrightarrow> quiet_move (run_status r) s s' \<Longrightarrow>
    run_step G r (r\<lparr>run_tasks := (run_tasks r)(k \<mapsto> s')\<rparr>)"
| step_succeed: "run_tasks r k = Some s \<Longrightarrow> s \<in> {T_RUNNING, T_WAITING_FOR_APPROVAL} \<Longrightarrow>
    run_step G r (spec_succeed G k r)"
| step_fail: "run_tasks r k = Some s \<Longrightarrow> s \<in> {T_RUNNING, T_WAITING_FOR_APPROVAL} \<Longrightarrow>
    outcome \<in> {T_FAILED, T_DEAD_LETTER} \<Longrightarrow> run_step G r (spec_fail outcome k r)"
| step_pause: "run_status r = E_RUNNING \<Longrightarrow> run_step G r (r\<lparr>run_status := E_PAUSED\<rparr>)"
| step_resume: "run_status r = E_PAUSED \<Longrightarrow> run_step G r (spec_resume G r)"
| step_cancel: "live (run_status r) \<Longrightarrow> run_step G r (spec_cancel r)"

inductive_cases run_stepE: "run_step G r r'"

text \<open>A new run: roots are ready, everything else is pending.\<close>

definition run_init :: "graph \<Rightarrow> run" where
  "run_init G = \<lparr>run_status = E_RUNNING,
     run_tasks = (\<lambda>k. map_option (\<lambda>ds. if ds = [] then T_READY else T_PENDING) (G k))\<rparr>"

section \<open>Invariant\<close>

text \<open>Nothing is ready or beyond before its dependencies are completed; a running run has work
  left and no pending task that could be ready; a run that ended well has only completed tasks, a
  failed one nothing left to start, a cancelled one nothing unfinished.\<close>

definition run_inv :: "graph \<Rightarrow> run \<Rightarrow> bool" where
  "run_inv G r \<longleftrightarrow>
     graph_wf G \<and> dom (run_tasks r) = dom G
     \<and> run_status r \<in> {E_RUNNING, E_PAUSED, E_COMPLETED, E_FAILED, E_CANCELLED}
     \<and> (live (run_status r) \<longrightarrow> ran (run_tasks r) \<inter> {T_FAILED, T_DEAD_LETTER, T_CANCELLED} = {})
     \<and> (run_status r = E_RUNNING \<longrightarrow> \<not> ran (run_tasks r) \<subseteq> {T_COMPLETED})
     \<and> (run_status r = E_RUNNING \<longrightarrow>
          (\<forall>k. run_tasks r k = Some T_PENDING \<longrightarrow> \<not> deps_completed G (run_tasks r) k))
     \<and> (\<forall>k s. run_tasks r k = Some s \<longrightarrow> s \<noteq> T_PENDING \<longrightarrow> s \<noteq> T_CANCELLED
          \<longrightarrow> deps_completed G (run_tasks r) k)
     \<and> (run_status r = E_COMPLETED \<longrightarrow> ran (run_tasks r) \<subseteq> {T_COMPLETED})
     \<and> (run_status r = E_FAILED \<longrightarrow> (\<forall>s \<in> ran (run_tasks r). \<not> unstarted s))
     \<and> (run_status r = E_CANCELLED \<longrightarrow> (\<forall>s \<in> ran (run_tasks r). \<not> unfinished s))"

lemma run_inv_deps:
  "run_inv G r \<Longrightarrow> run_tasks r k = Some s \<Longrightarrow> s \<noteq> T_PENDING \<Longrightarrow> s \<noteq> T_CANCELLED \<Longrightarrow>
   deps_completed G (run_tasks r) k"
  unfolding run_inv_def by blast

lemma run_inv_graph: "run_inv G r \<Longrightarrow> graph_wf G" "run_inv G r \<Longrightarrow> dom (run_tasks r) = dom G"
  unfolding run_inv_def by blast+

text \<open>A task is only at work in a run that is live or has failed.\<close>

lemma run_inv_working:
  assumes "run_inv G r" "run_tasks r k = Some s" "s \<in> {T_RUNNING, T_WAITING_FOR_APPROVAL}"
  shows "run_status r \<in> {E_RUNNING, E_PAUSED, E_FAILED}"
proof -
  have "s \<in> ran (run_tasks r)" "unfinished s" "s \<noteq> T_COMPLETED"
    using assms(2,3) by (auto intro: ranI simp: unfinished_def)
  then show ?thesis using assms(1) unfolding run_inv_def by blast
qed

lemma deps_completed_cong:
  "(\<And>d. m d = Some T_COMPLETED \<longleftrightarrow> m' d = Some T_COMPLETED) \<Longrightarrow> deps_completed G m k = deps_completed G m' k"
  by (simp add: deps_completed_def)

lemma deps_completed_mono:
  "deps_completed G m k \<Longrightarrow> (\<And>d. m d = Some T_COMPLETED \<Longrightarrow> m' d = Some T_COMPLETED) \<Longrightarrow>
   deps_completed G m' k"
  by (simp add: deps_completed_def)

lemma promote_completed: "promote G m d = Some T_COMPLETED \<longleftrightarrow> m d = Some T_COMPLETED"
  by (simp add: promote_def)

lemma deps_completed_promote [simp]: "deps_completed G (promote G m) = deps_completed G m"
  by (rule ext, rule deps_completed_cong) (simp add: promote_completed)

lemma dom_promote [simp]: "dom (promote G m) = dom m"
  by (auto simp: promote_def dom_def)

lemma dom_cancel_where [simp]: "dom (cancel_where S m) = dom m"
  by (auto simp: cancel_where_def dom_def)

lemma cancel_where_completed:
  "\<not> S T_COMPLETED \<Longrightarrow> cancel_where S m d = Some T_COMPLETED \<longleftrightarrow> m d = Some T_COMPLETED"
  by (cases "m d") (auto simp: cancel_where_def)

lemma cancel_where_Some:
  "cancel_where S m k = Some s \<longleftrightarrow> (\<exists>s0. m k = Some s0 \<and> s = (if S s0 then T_CANCELLED else s0))"
  by (cases "m k") (auto simp: cancel_where_def)

lemma cancel_where_ran:
  assumes "\<not> S T_CANCELLED" "u \<in> ran (cancel_where S m)"
  shows "\<not> S u"
proof -
  obtain k where "cancel_where S m k = Some u" using assms(2) by (auto simp: ran_def)
  then show ?thesis using assms(1) by (auto simp: cancel_where_Some split: if_splits)
qed

lemma promote_Some:
  "promote G m k = Some s \<longleftrightarrow>
     (if m k = Some T_PENDING \<and> deps_completed G m k then s = T_READY else m k = Some s)"
  by (auto simp: promote_def)

lemma run_inv_init:
  assumes "graph_wf G" "dom G \<noteq> {}"
  shows "run_inv G (run_init G)"
proof -
  have "ran (run_tasks (run_init G)) \<subseteq> {T_READY, T_PENDING}" "ran (run_tasks (run_init G)) \<noteq> {}"
    using assms(2) by (auto simp: run_init_def ran_def dom_def)
  moreover have "\<not> deps_completed G (run_tasks (run_init G)) k"
    if k: "run_tasks (run_init G) k = Some T_PENDING" for k
  proof -
    obtain ds where "G k = Some ds" "ds \<noteq> []" using k by (cases "G k") (auto simp: run_init_def split: if_splits)
    then obtain d where "d \<in> deps_in G k" by (cases ds) (auto simp: deps_in_def)
    moreover have "run_tasks (run_init G) d \<noteq> Some T_COMPLETED"
      by (auto simp: run_init_def)
    ultimately show ?thesis by (auto simp: deps_completed_def)
  qed
  moreover have "deps_completed G (run_tasks (run_init G)) k"
    if "run_tasks (run_init G) k = Some s" "s \<noteq> T_PENDING" for k s
    using that by (auto simp: run_init_def deps_completed_def deps_in_def split: if_splits)
  moreover have "dom (run_tasks (run_init G)) = dom G" by (auto simp: run_init_def dom_def)
  ultimately show ?thesis
    using assms(1) unfolding run_inv_def by (auto simp: run_init_def)
qed

lemma run_inv_move:
  assumes "run_inv G r" "run_tasks r k = Some s" "quiet_move (run_status r) s s'"
  shows "run_inv G (r\<lparr>run_tasks := (run_tasks r)(k \<mapsto> s')\<rparr>)"
proof -
  let ?m = "(run_tasks r)(k \<mapsto> s')"
  have s: "s \<notin> {T_COMPLETED, T_PENDING, T_CANCELLED}"
          "s' \<notin> {T_COMPLETED, T_PENDING, T_CANCELLED, T_FAILED, T_DEAD_LETTER}"
    using assms(3) by (auto simp: quiet_move_def)
  have "deps_completed G ?m j = deps_completed G (run_tasks r) j" for j
    using s assms(2) by (intro deps_completed_cong) auto
  moreover have "run_status r = E_FAILED \<Longrightarrow> \<not> unstarted s'" "run_status r = E_CANCELLED \<Longrightarrow> False"
                "run_status r = E_COMPLETED \<Longrightarrow> False"
    using assms s by (auto simp: quiet_move_def unstarted_def unfinished_def live_def run_inv_def ran_def)
  moreover have "dom ?m = dom (run_tasks r)" using assms(2) by auto
  moreover have "s \<in> ran (run_tasks r)" using assms(2) by (auto simp: ran_def)
  moreover have "ran ?m \<subseteq> insert s' (ran (run_tasks r))" "s' \<in> ran ?m" by (auto simp: ran_def)
  ultimately show ?thesis
    using assms(1,2) s unfolding run_inv_def by (simp split: if_splits) blast
qed

lemma run_inv_succeed:
  assumes "run_inv G r" "run_tasks r k = Some s" "s \<in> {T_RUNNING, T_WAITING_FOR_APPROVAL}"
  shows "run_inv G (spec_succeed G k r)"
proof -
  let ?m = "(run_tasks r)(k \<mapsto> T_COMPLETED)"
  let ?m' = "if run_status r = E_RUNNING then promote G ?m else ?m"
  have dk: "deps_completed G (run_tasks r) k" using assms run_inv_deps by fastforce
  have mono: "deps_completed G ?m j" if "deps_completed G (run_tasks r) j" for j
    using that by (rule deps_completed_mono) simp
  have dps: "deps_completed G ?m' j" if "?m' j = Some u" "u \<noteq> T_PENDING" "u \<noteq> T_CANCELLED" for j u
  proof (cases "deps_completed G ?m j")
    case False
    then have "run_tasks r j = Some u" "j \<noteq> k"
      using that(1) mono dk by (auto simp: promote_Some split: if_splits)
    then show ?thesis using False mono run_inv_deps[OF assms(1)] that(2,3) by blast
  qed simp
  have pend: "\<not> deps_completed G ?m' j" if "run_status r = E_RUNNING" "?m' j = Some T_PENDING" for j
    using that by (auto simp: promote_Some split: if_splits)
  have bad: "ran ?m' \<inter> {T_FAILED, T_DEAD_LETTER, T_CANCELLED} = {}" if "live (run_status r)"
    using assms(1) that unfolding run_inv_def
    by (auto simp: ran_def promote_Some split: if_splits)
  have fl: "\<not> unstarted u" if "run_status r = E_FAILED" "u \<in> ran ?m'" for u
    using that assms(1) unfolding run_inv_def by (auto simp: ran_def unstarted_def split: if_splits)
  have st: "run_status r \<in> {E_RUNNING, E_PAUSED, E_FAILED}"
    using assms by (rule run_inv_working)
  have G: "graph_wf G" "dom ?m' = dom G" using assms(1,2) unfolding run_inv_def by auto
  show ?thesis
    using st dps pend bad fl G unfolding run_inv_def spec_succeed_def Let_def settle_def
    by (elim insertE emptyE) (simp_all add: live_def del: fun_upd_apply)
qed

lemma run_inv_fail:
  assumes "run_inv G r" "run_tasks r k = Some s" "s \<in> {T_RUNNING, T_WAITING_FOR_APPROVAL}"
    "outcome \<in> {T_FAILED, T_DEAD_LETTER}"
  shows "run_inv G (spec_fail outcome k r)"
proof -
  let ?m = "(run_tasks r)(k \<mapsto> outcome)"
  show ?thesis
  proof (cases "live (run_status r)")
    case True
    let ?c = "cancel_where unstarted ?m"
    have dc: "deps_completed G ?c j = deps_completed G (run_tasks r) j" for j
      using assms(2-4) by (intro deps_completed_cong) (auto simp: cancel_where_completed unstarted_def)
    have "deps_completed G ?c j" if "?c j = Some u" "u \<noteq> T_PENDING" "u \<noteq> T_CANCELLED" for j u
    proof -
      have "run_tasks r j = Some u \<or> j = k"
        using that by (auto simp: cancel_where_Some split: if_splits)
      then show ?thesis
        unfolding dc using that(2,3) assms(2,3) run_inv_deps[OF assms(1)] by fastforce
    qed
    moreover have "\<not> unstarted u" if "u \<in> ran ?c" for u
      using that by (rule cancel_where_ran[rotated]) (simp add: unstarted_def)
    moreover have "graph_wf G" "dom ?c = dom G" using assms(1,2) unfolding run_inv_def by auto
    ultimately show ?thesis
      using True unfolding run_inv_def spec_fail_def Let_def by (simp add: live_def del: fun_upd_apply)
  next
    case False
    have dc: "deps_completed G ?m j = deps_completed G (run_tasks r) j" for j
      using assms(2-4) by (intro deps_completed_cong) auto
    have "deps_completed G ?m j" if "?m j = Some u" "u \<noteq> T_PENDING" "u \<noteq> T_CANCELLED" for j u
      unfolding dc using that assms(2,3) run_inv_deps[OF assms(1)] by (fastforce split: if_splits)
    moreover have st: "run_status r = E_FAILED"
      using run_inv_working[OF assms(1-3)] False by (auto simp: live_def)
    moreover have "\<not> unstarted u" if "u \<in> ran ?m" for u
      using that st assms(1,4) unfolding run_inv_def by (auto simp: ran_def unstarted_def split: if_splits)
    moreover have "graph_wf G" "dom ?m = dom G" using assms(1,2) unfolding run_inv_def by auto
    ultimately show ?thesis
      unfolding run_inv_def spec_fail_def Let_def by (simp add: live_def del: fun_upd_apply)
  qed
qed

lemma run_inv_resume:
  assumes "run_inv G r" "run_status r = E_PAUSED"
  shows "run_inv G (spec_resume G r)"
  using assms unfolding run_inv_def spec_resume_def Let_def settle_def
  by (auto simp: live_def ran_def promote_Some split: if_splits)

lemma run_inv_cancel:
  assumes "run_inv G r" "live (run_status r)"
  shows "run_inv G (spec_cancel r)"
proof -
  let ?c = "cancel_where unfinished (run_tasks r)"
  have dc: "deps_completed G ?c j = deps_completed G (run_tasks r) j" for j
    by (intro deps_completed_cong) (auto simp: cancel_where_completed unfinished_def)
  have "deps_completed G ?c j" if "?c j = Some u" "u \<noteq> T_PENDING" "u \<noteq> T_CANCELLED" for j u
    unfolding dc using that assms(1) unfolding run_inv_def
    by (auto simp: cancel_where_Some split: if_splits)
  moreover have "\<not> unfinished u" if "u \<in> ran ?c" for u
    using that by (rule cancel_where_ran[rotated]) (simp add: unfinished_def)
  ultimately show ?thesis
    using assms unfolding run_inv_def spec_cancel_def by (simp add: live_def)
qed

lemma run_inv_step: "run_inv G r \<Longrightarrow> run_step G r r' \<Longrightarrow> run_inv G r'"
proof (erule run_stepE)
  show "run_inv G r \<Longrightarrow> r' = r\<lparr>run_status := E_PAUSED\<rparr> \<Longrightarrow> run_status r = E_RUNNING \<Longrightarrow> run_inv G r'"
    unfolding run_inv_def by (auto simp: live_def)
qed (auto intro: run_inv_move run_inv_succeed run_inv_fail run_inv_resume run_inv_cancel)

interpretation run_machine: invariant_system "\<lambda>r. graph_wf G \<and> dom G \<noteq> {} \<and> r = run_init G" "run_step G" "run_inv G"
  for G
  by unfold_locales (auto intro: run_inv_init run_inv_step)

section \<open>Progress\<close>

text \<open>A task that some process can move on: to the queue, to a worker, or to a decision.\<close>

definition actionable :: "task_status \<Rightarrow> bool" where
  "actionable s \<longleftrightarrow> s \<in> {T_READY, T_QUEUED, T_RUNNING, T_RETRYING, T_WAITING_FOR_APPROVAL}"

text \<open>A running run is never stuck: the acyclic graph has an open task with no open dependency.\<close>

lemma run_not_stuck:
  assumes "run_inv G r" "run_status r = E_RUNNING"
  shows "\<exists>k s. run_tasks r k = Some s \<and> actionable s"
proof -
  let ?open = "{k. \<exists>s. run_tasks r k = Some s \<and> s \<noteq> T_COMPLETED}"
  have G: "graph_wf G" "dom (run_tasks r) = dom G" using run_inv_graph[OF assms(1)] by auto
  let ?R = "{(d, k). d \<in> deps_in G k}"
  have "?R \<subseteq> dom G \<times> dom G"
  proof clarify
    fix d k assume d: "d \<in> deps_in G k"
    then have "d \<in> dom G" using G(1) unfolding graph_wf_def by blast
    moreover have "k \<in> dom G" using d by (cases "G k") (auto simp: deps_in_def)
    ultimately show "d \<in> dom G \<and> k \<in> dom G" by simp
  qed
  then have "finite ?R" using G(1) by (auto simp: graph_wf_def intro: finite_subset)
  then have "wf ?R" using G(1) by (simp add: graph_wf_def finite_acyclic_wf)
  moreover obtain k0 where "k0 \<in> ?open"
    using assms unfolding run_inv_def by (auto simp: ran_def)
  ultimately obtain k where k: "k \<in> ?open" "\<And>d. d \<in> deps_in G k \<Longrightarrow> d \<notin> ?open"
    by (rule wfE_min) auto
  then obtain s where s: "run_tasks r k = Some s" "s \<noteq> T_COMPLETED" by auto
  have "deps_completed G (run_tasks r) k"
  proof (unfold deps_completed_def, intro ballI)
    fix d assume d: "d \<in> deps_in G k"
    then have "d \<in> dom (run_tasks r)" using G by (auto simp: graph_wf_def)
    then show "run_tasks r d = Some T_COMPLETED" using k(2)[OF d] by auto
  qed
  moreover have "s \<notin> {T_FAILED, T_DEAD_LETTER, T_CANCELLED}"
    using assms s(1) unfolding run_inv_def live_def by (auto simp: ran_def)
  ultimately have "actionable s"
    using assms s unfolding run_inv_def by (cases s) (auto simp: actionable_def)
  with s(1) show ?thesis by blast
qed

section \<open>Finality\<close>

lemma run_step_final:
  assumes "run_inv G r" "run_step G r r'"
  shows "run_status r \<in> {E_COMPLETED, E_FAILED, E_CANCELLED} \<Longrightarrow> run_status r' = run_status r"
    "run_tasks r k = Some s \<Longrightarrow> TASK_TRANSITIONS s = [] \<Longrightarrow> run_tasks r' k = Some s"
proof -
  show "run_status r' = run_status r" if "run_status r \<in> {E_COMPLETED, E_FAILED, E_CANCELLED}"
    using assms(2) that
    by (cases rule: run_step.cases) (auto simp: spec_succeed_def spec_fail_def settle_def live_def Let_def)
  assume k: "run_tasks r k = Some s" "TASK_TRANSITIONS s = []"
  then have s: "s \<in> {T_COMPLETED, T_DEAD_LETTER, T_CANCELLED}" by (cases s) auto
  show "run_tasks r' k = Some s"
    using assms(2) k(1) s
    by (cases rule: run_step.cases)
       (auto simp: quiet_move_def spec_succeed_def spec_fail_def spec_resume_def spec_cancel_def
          promote_def cancel_where_def Let_def unstarted_def unfinished_def)
qed

end
