(* ===== verification/Wf_Counter_Run.thy ===== *)
theory Wf_Counter_Run
  imports Wf_Run_Spec
begin

text \<open>
  The bookkeeping of \<open>src/workflow/engine.js\<close> for one run, apart from documents and leases: each
  task knows how many of its dependencies are open (\<open>remainingDeps\<close>) and whom to notify
  (\<open>dependents\<close>), the run knows how many of its tasks are unfinished (\<open>pendingTasks\<close>). The
  updates below are the ones the engine's transactions make; the theory shows that, with the
  counters right, they compute exactly the steps of \<open>Wf_Run_Spec\<close>, and that they keep the
  counters right.
\<close>

section \<open>Runs with counters\<close>

record ctask =
  c_key :: key
  c_deps :: "key list"
  c_dependents :: "key list"
  c_status :: task_status
  c_remaining :: int

record crun =
  cr_status :: execution_status
  cr_pending :: int
  cr_tasks :: "ctask list"

definition set_status :: "key \<Rightarrow> task_status \<Rightarrow> ctask list \<Rightarrow> ctask list" where
  "set_status k s = update_where (\<lambda>t. c_key t = k) (\<lambda>t. t\<lparr>c_status := s\<rparr>)"

definition release :: "key list \<Rightarrow> ctask list \<Rightarrow> ctask list" where
  "release ds = update_where (\<lambda>t. c_key t \<in> set ds) (\<lambda>t. t\<lparr>c_remaining := c_remaining t - 1\<rparr>)"

definition promote_zero :: "(key \<Rightarrow> bool) \<Rightarrow> ctask list \<Rightarrow> ctask list" where
  "promote_zero P = update_where (\<lambda>t. P (c_key t) \<and> c_status t = T_PENDING \<and> c_remaining t = 0)
     (\<lambda>t. t\<lparr>c_status := T_READY\<rparr>)"

definition cancel_in :: "(task_status \<Rightarrow> bool) \<Rightarrow> ctask list \<Rightarrow> ctask list" where
  "cancel_in S = update_where (\<lambda>t. S (c_status t)) (\<lambda>t. t\<lparr>c_status := T_CANCELLED\<rparr>)"

definition c_move :: "key \<Rightarrow> task_status \<Rightarrow> crun \<Rightarrow> crun" where
  "c_move k s r = r\<lparr>cr_tasks := set_status k s (cr_tasks r)\<rparr>"

definition c_succeed :: "key \<Rightarrow> key list \<Rightarrow> crun \<Rightarrow> crun" where
  "c_succeed k ds r =
     (let ts = set_status k T_COMPLETED (cr_tasks r);
          ts = (if live (cr_status r) then release ds ts else ts);
          ts = (if cr_status r = E_RUNNING then promote_zero (\<lambda>j. j \<in> set ds) ts else ts);
          p = cr_pending r - 1
      in \<lparr>cr_status = (if cr_status r = E_RUNNING \<and> p = 0 then E_COMPLETED else cr_status r),
          cr_pending = p, cr_tasks = ts\<rparr>)"

definition c_fail :: "task_status \<Rightarrow> key \<Rightarrow> crun \<Rightarrow> crun" where
  "c_fail outcome k r =
     (let ts = set_status k outcome (cr_tasks r); p = cr_pending r - 1
      in if live (cr_status r)
         then \<lparr>cr_status = E_FAILED, cr_pending = p - int (count_where (\<lambda>t. unstarted (c_status t)) ts),
               cr_tasks = cancel_in unstarted ts\<rparr>
         else r\<lparr>cr_pending := p, cr_tasks := ts\<rparr>)"

definition c_resume :: "crun \<Rightarrow> crun" where
  "c_resume r = r\<lparr>cr_status := (if cr_pending r = 0 then E_COMPLETED else E_RUNNING),
                  cr_tasks := promote_zero (\<lambda>_. True) (cr_tasks r)\<rparr>"

definition c_cancel :: "crun \<Rightarrow> crun" where
  "c_cancel r =
     \<lparr>cr_status = E_CANCELLED,
      cr_pending = cr_pending r - int (count_where (\<lambda>t. unfinished (c_status t)) (cr_tasks r)),
      cr_tasks = cancel_in unfinished (cr_tasks r)\<rparr>"

section \<open>Abstraction and counter invariant\<close>

definition smap :: "ctask list \<Rightarrow> task_map" where
  "smap ts = map_of (map (\<lambda>t. (c_key t, c_status t)) ts)"

definition gmap :: "ctask list \<Rightarrow> graph" where
  "gmap ts = map_of (map (\<lambda>t. (c_key t, c_deps t)) ts)"

definition spec_run :: "crun \<Rightarrow> run" where
  "spec_run r = \<lparr>run_status = cr_status r, run_tasks = smap (cr_tasks r)\<rparr>"

definition open_deps :: "task_map \<Rightarrow> key list \<Rightarrow> nat" where
  "open_deps m ds = length (filter (\<lambda>d. m d \<noteq> Some T_COMPLETED) ds)"

text \<open>The part of a task that never changes: its key, its dependencies and its dependents, which
  are the tasks that depend on it.\<close>

definition links :: "ctask \<Rightarrow> key \<times> key list \<times> key list" where
  "links t = (c_key t, c_deps t, c_dependents t)"

definition links_ok :: "(key \<times> key list \<times> key list) list \<Rightarrow> bool" where
  "links_ok ls \<longleftrightarrow> distinct (map fst ls)
     \<and> (\<forall>(k, ds, cs) \<in> set ls. distinct ds
          \<and> (\<forall>(k', ds', cs') \<in> set ls. k' \<in> set cs \<longleftrightarrow> k \<in> set ds'))"

definition counters_ok :: "crun \<Rightarrow> bool" where
  "counters_ok r \<longleftrightarrow> links_ok (map links (cr_tasks r))
     \<and> cr_pending r = int (count_where (\<lambda>t. unfinished (c_status t)) (cr_tasks r))
     \<and> (live (cr_status r) \<longrightarrow>
          (\<forall>t \<in> set (cr_tasks r). c_remaining t = int (open_deps (smap (cr_tasks r)) (c_deps t))))"

definition crun_inv :: "crun \<Rightarrow> bool" where
  "crun_inv r \<longleftrightarrow> counters_ok r \<and> run_inv (gmap (cr_tasks r)) (spec_run r)"

section \<open>Lookup\<close>

lemma dom_smap [simp]: "dom (smap ts) = c_key ` set ts"
  by (simp add: smap_def dom_map_of_conv_image_fst image_image)

lemma smap_task: "distinct (map c_key ts) \<Longrightarrow> t \<in> set ts \<Longrightarrow> smap ts (c_key t) = Some (c_status t)"
  unfolding smap_def by (rule map_of_is_SomeI) (auto simp: comp_def)

lemma gmap_task: "distinct (map c_key ts) \<Longrightarrow> t \<in> set ts \<Longrightarrow> gmap ts (c_key t) = Some (c_deps t)"
  unfolding gmap_def by (rule map_of_is_SomeI) (auto simp: comp_def)

lemma deps_in_task: "distinct (map c_key ts) \<Longrightarrow> t \<in> set ts \<Longrightarrow> deps_in (gmap ts) (c_key t) = set (c_deps t)"
  by (simp add: deps_in_def gmap_task)

lemma smap_None: "k \<notin> c_key ` set ts \<Longrightarrow> smap ts k = None"
  using dom_smap[of ts] by (metis domIff)

lemma smap_SomeE:
  assumes "smap ts k = Some s"
  obtains t where "t \<in> set ts" "c_key t = k" "c_status t = s"
  using map_of_SomeD[OF assms[unfolded smap_def]] by auto

lemma ran_smap: "distinct (map c_key ts) \<Longrightarrow> ran (smap ts) = c_status ` set ts"
  by (auto simp: ran_def dest: smap_task elim!: smap_SomeE)

lemma smap_eqI:
  assumes "distinct (map c_key ts)" "\<And>t. t \<in> set ts \<Longrightarrow> m (c_key t) = Some (c_status t)"
    "\<And>k. k \<notin> c_key ` set ts \<Longrightarrow> m k = None"
  shows "smap ts = m"
proof
  fix k
  show "smap ts k = m k"
  proof (cases "k \<in> c_key ` set ts")
    case True
    then obtain t where "t \<in> set ts" "c_key t = k" by auto
    with assms(1,2) show ?thesis using smap_task by metis
  qed (simp add: assms(3) smap_None)
qed

text \<open>The status map after an update that keeps the keys.\<close>

lemma smap_update:
  assumes "distinct (map c_key ts)" "\<And>t. t \<in> set ts \<Longrightarrow> P t \<Longrightarrow> c_key (f t) = c_key t"
    "\<And>t. t \<in> set ts \<Longrightarrow> m (c_key t) = Some (c_status (if P t then f t else t))"
    "\<And>k. k \<notin> c_key ` set ts \<Longrightarrow> m k = None"
  shows "smap (update_where P f ts) = m"
proof (rule smap_eqI)
  have keys: "map c_key (update_where P f ts) = map c_key ts" using assms(2) by (rule map_update_where)
  then show "distinct (map c_key (update_where P f ts))" using assms(1) by simp
  have "c_key ` set (update_where P f ts) = c_key ` set ts" using keys by (metis list.set_map)
  then show "m k = None" if "k \<notin> c_key ` set (update_where P f ts)" for k using that assms(4) by simp
  show "m (c_key t) = Some (c_status t)" if "t \<in> set (update_where P f ts)" for t
    using that by (rule update_where_E) (use assms(2,3) in \<open>fastforce+\<close>)
qed

section \<open>Links and counts\<close>

lemma links_update:
  "(\<And>t. t \<in> set ts \<Longrightarrow> P t \<Longrightarrow> links (f t) = links t) \<Longrightarrow> map links (update_where P f ts) = map links ts"
  by (rule map_update_where)

lemma links_ops [simp]:
  "map links (set_status k s ts) = map links ts" "map links (release ds ts) = map links ts"
  "map links (promote_zero P ts) = map links ts" "map links (cancel_in S ts) = map links ts"
  by (auto simp: set_status_def release_def promote_zero_def cancel_in_def links_def intro!: links_update)

lemma links_eqD:
  assumes "map links ts' = map links ts"
  shows "map c_key ts' = map c_key ts" "gmap ts' = gmap ts"
proof -
  have c: "c_key = fst \<circ> links" "(\<lambda>t. (c_key t, c_deps t)) = (\<lambda>(k, ds, _). (k, ds)) \<circ> links"
    by (auto simp: links_def)
  show "map c_key ts' = map c_key ts" unfolding c(1) using assms by (simp only: map_map[symmetric])
  show "gmap ts' = gmap ts" unfolding gmap_def c(2) using assms by (simp only: map_map[symmetric])
qed

lemmas ops_keys [simp] = links_eqD(1)[OF links_ops(1)] links_eqD(1)[OF links_ops(2)]
  links_eqD(1)[OF links_ops(3)] links_eqD(1)[OF links_ops(4)]

lemmas ops_graph [simp] = links_eqD(2)[OF links_ops(1)] links_eqD(2)[OF links_ops(2)]
  links_eqD(2)[OF links_ops(3)] links_eqD(2)[OF links_ops(4)]

lemma links_okD:
  assumes "links_ok (map links ts)"
  shows "distinct (map c_key ts)" "t \<in> set ts \<Longrightarrow> distinct (c_deps t)"
    "t \<in> set ts \<Longrightarrow> u \<in> set ts \<Longrightarrow> c_key u \<in> set (c_dependents t) \<longleftrightarrow> c_key t \<in> set (c_deps u)"
  using assms unfolding links_ok_def by (auto simp: links_def comp_def)

lemma key_set_eq: "map c_key ts' = map c_key ts \<Longrightarrow> c_key ` set ts' = c_key ` set ts"
  by (metis list.set_map)

section \<open>Status maps of the updates\<close>

lemma smap_set_status:
  assumes "distinct (map c_key ts)" "k \<in> c_key ` set ts"
  shows "smap (set_status k s ts) = (smap ts)(k \<mapsto> s)"
  unfolding set_status_def using assms by (intro smap_update) (auto simp: smap_task smap_None)

lemma smap_release: "distinct (map c_key ts) \<Longrightarrow> smap (release ds ts) = smap ts"
  unfolding release_def by (intro smap_update) (auto simp: smap_task smap_None)

lemma smap_cancel_in: "distinct (map c_key ts) \<Longrightarrow> smap (cancel_in S ts) = cancel_where S (smap ts)"
  unfolding cancel_in_def by (intro smap_update) (auto simp: smap_task smap_None cancel_where_def)

text \<open>With the counters right, no open dependency means that all dependencies are completed.\<close>

lemma open_deps_0:
  assumes "distinct (map c_key ts)" "t \<in> set ts"
  shows "open_deps m (c_deps t) = 0 \<longleftrightarrow> deps_completed (gmap ts) m (c_key t)"
  unfolding open_deps_def deps_completed_def deps_in_task[OF assms] by (auto simp: filter_empty_conv)

lemma smap_promote_zero:
  assumes "distinct (map c_key ts)"
    "\<And>t. t \<in> set ts \<Longrightarrow> c_remaining t = int (open_deps (smap ts) (c_deps t))"
    "\<And>t. t \<in> set ts \<Longrightarrow> c_status t = T_PENDING \<Longrightarrow> deps_completed (gmap ts) (smap ts) (c_key t) \<Longrightarrow> P (c_key t)"
  shows "smap (promote_zero P ts) = promote (gmap ts) (smap ts)"
  unfolding promote_zero_def
proof (rule smap_update)
  fix t assume t: "t \<in> set ts"
  have "c_remaining t = 0 \<longleftrightarrow> deps_completed (gmap ts) (smap ts) (c_key t)"
    using assms(2)[OF t] open_deps_0[OF assms(1) t] by simp
  then show "promote (gmap ts) (smap ts) (c_key t) = Some (c_status
      (if P (c_key t) \<and> c_status t = T_PENDING \<and> c_remaining t = 0 then t\<lparr>c_status := T_READY\<rparr> else t))"
    using smap_task[OF assms(1) t] assms(3)[OF t] by (auto simp: promote_def)
qed (use assms(1) in \<open>auto simp: promote_def smap_None\<close>)

section \<open>Counters of the updates\<close>

text \<open>Completing a task closes one dependency of each of its dependents.\<close>

lemma open_deps_complete:
  assumes "distinct ds" "m k \<noteq> Some T_COMPLETED"
  shows "open_deps m ds = open_deps (m(k \<mapsto> T_COMPLETED)) ds + (if k \<in> set ds then 1 else 0)"
  using assms unfolding open_deps_def by (induction ds) auto

lemma open_deps_cong:
  "(\<And>d. m d = Some T_COMPLETED \<longleftrightarrow> m' d = Some T_COMPLETED) \<Longrightarrow> open_deps m ds = open_deps m' ds"
  by (simp add: open_deps_def)

lemma count_set_status:
  assumes "distinct (map c_key ts)" "t \<in> set ts" "S (c_status t)"
  shows "count_where (\<lambda>t. S (c_status t)) (set_status (c_key t) s ts) + (if S s then 0 else 1)
         = count_where (\<lambda>t. S (c_status t)) ts"
  using assms
proof (induction ts)
  case (Cons u us)
  show ?case
  proof (cases "u = t")
    case True
    then have "set_status (c_key t) s us = us"
      using Cons.prems(1) unfolding set_status_def by (intro update_where_False) (metis True distinct.simps(2) image_eqI list.set_map list.simps(9))
    with True Cons.prems show ?thesis by (simp add: set_status_def)
  next
    case False
    with Cons.prems have "c_key u \<noteq> c_key t" "t \<in> set us" by auto
    with Cons show ?thesis by (simp add: set_status_def)
  qed
qed simp

lemma count_status_update:
  "count_where (\<lambda>t. S (c_status t)) (release ds ts) = count_where (\<lambda>t. S (c_status t)) ts"
  "S T_PENDING = S T_READY \<Longrightarrow>
   count_where (\<lambda>t. S (c_status t)) (promote_zero P ts) = count_where (\<lambda>t. S (c_status t)) ts"
  by (auto simp: release_def promote_zero_def intro!: count_where_update_same)

lemma count_cancel_in:
  assumes "\<And>s. S s \<Longrightarrow> unfinished s"
  shows "count_where (\<lambda>t. unfinished (c_status t)) (cancel_in S ts) + count_where (\<lambda>t. S (c_status t)) ts
         = count_where (\<lambda>t. unfinished (c_status t)) ts"
  unfolding cancel_in_def using assms by (intro count_where_update_drop) (auto simp: unfinished_def)

text \<open>In a live run nothing has failed or been cancelled, so that the counter of unfinished tasks
  is zero exactly when all tasks are completed.\<close>

lemma unfinished_0:
  assumes "distinct (map c_key ts)" "ran (smap ts) \<inter> {T_FAILED, T_DEAD_LETTER, T_CANCELLED} = {}"
    "int (count_where (\<lambda>t. unfinished (c_status t)) ts) = p"
  shows "p = 0 \<longleftrightarrow> ran (smap ts) \<subseteq> {T_COMPLETED}"
proof -
  have "unfinished s \<longleftrightarrow> s \<noteq> T_COMPLETED" if "s \<in> ran (smap ts)" for s
    using assms(2) that by (cases s) (auto simp: unfinished_def)
  then show ?thesis using assms(3) unfolding ran_smap[OF assms(1)] by (auto simp: image_subset_iff)
qed

section \<open>The updates implement the specification\<close>

lemma crun_invD:
  assumes "crun_inv r"
  shows "links_ok (map links (cr_tasks r))" "distinct (map c_key (cr_tasks r))"
    "cr_pending r = int (count_where (\<lambda>t. unfinished (c_status t)) (cr_tasks r))"
    "live (cr_status r) \<Longrightarrow> t \<in> set (cr_tasks r) \<Longrightarrow>
       c_remaining t = int (open_deps (smap (cr_tasks r)) (c_deps t))"
    "run_inv (gmap (cr_tasks r)) (spec_run r)"
  using assms links_okD(1) unfolding crun_inv_def counters_ok_def by blast+

lemma crun_move:
  assumes "crun_inv r" "t \<in> set (cr_tasks r)" "quiet_move (cr_status r) (c_status t) s"
  shows "spec_run (c_move (c_key t) s r) = (spec_run r)\<lparr>run_tasks := (run_tasks (spec_run r))(c_key t \<mapsto> s)\<rparr>"
    "run_step (gmap (cr_tasks r)) (spec_run r) (spec_run (c_move (c_key t) s r))"
    "crun_inv (c_move (c_key t) s r)"
proof -
  let ?ts = "set_status (c_key t) s (cr_tasks r)"
  note inv = crun_invD[OF assms(1)]
  have k: "c_key t \<in> c_key ` set (cr_tasks r)" using assms(2) by simp
  have sm: "smap ?ts = (smap (cr_tasks r))(c_key t \<mapsto> s)" by (rule smap_set_status[OF inv(2) k])
  have s: "unfinished s" "unfinished (c_status t)" "s \<noteq> T_COMPLETED" "c_status t \<noteq> T_COMPLETED"
    using assms(3) by (auto simp: quiet_move_def unfinished_def)
  show eq: "spec_run (c_move (c_key t) s r)
      = (spec_run r)\<lparr>run_tasks := (run_tasks (spec_run r))(c_key t \<mapsto> s)\<rparr>"
    by (simp add: spec_run_def c_move_def sm)
  have lk: "run_tasks (spec_run r) (c_key t) = Some (c_status t)"
    using smap_task[OF inv(2) assms(2)] by (simp add: spec_run_def)
  show st: "run_step (gmap (cr_tasks r)) (spec_run r) (spec_run (c_move (c_key t) s r))"
    unfolding eq using lk assms(3) by (intro step_move) (simp_all add: spec_run_def)
  have open_eq: "open_deps (smap ?ts) ds = open_deps (smap (cr_tasks r)) ds" for ds
    using lk s by (intro open_deps_cong) (auto simp: sm spec_run_def)
  have "c_remaining u = int (open_deps (smap ?ts) (c_deps u))"
    if "live (cr_status r)" "u \<in> set ?ts" for u
    unfolding open_eq using that(2) inv(4)[OF that(1)]
    by (auto simp: set_status_def elim!: update_where_E)
  then have "counters_ok (c_move (c_key t) s r)"
    using inv(1,3) count_set_status[OF inv(2) assms(2), of unfinished s] s
    by (simp add: counters_ok_def c_move_def)
  moreover have "run_inv (gmap (cr_tasks r)) (spec_run (c_move (c_key t) s r))"
    by (rule run_inv_step[OF inv(5) st])
  ultimately show "crun_inv (c_move (c_key t) s r)" by (simp add: crun_inv_def c_move_def)
qed

lemma crun_succeed:
  assumes "crun_inv r" "t \<in> set (cr_tasks r)" "c_status t \<in> {T_RUNNING, T_WAITING_FOR_APPROVAL}"
  shows "spec_run (c_succeed (c_key t) (c_dependents t) r) = spec_succeed (gmap (cr_tasks r)) (c_key t) (spec_run r)"
    "counters_ok (c_succeed (c_key t) (c_dependents t) r)"
proof -
  let ?G = "gmap (cr_tasks r)" and ?m = "smap (cr_tasks r)"
  let ?ts1 = "set_status (c_key t) T_COMPLETED (cr_tasks r)"
  let ?ts2 = "if live (cr_status r) then release (c_dependents t) ?ts1 else ?ts1"
  let ?ts3 = "if cr_status r = E_RUNNING then promote_zero (\<lambda>j. j \<in> set (c_dependents t)) ?ts2 else ?ts2"
  note inv = crun_invD[OF assms(1)]
  have k: "c_key t \<in> c_key ` set (cr_tasks r)" using assms(2) by simp
  have sm1: "smap ?ts1 = ?m(c_key t \<mapsto> T_COMPLETED)" by (rule smap_set_status[OF inv(2) k])
  have keys: "distinct (map c_key ?ts1)" "distinct (map c_key ?ts2)" "map links ?ts2 = map links (cr_tasks r)"
    "map links ?ts3 = map links (cr_tasks r)" using inv(2) by simp_all
  have sm2: "smap ?ts2 = smap ?ts1" using smap_release[OF keys(1)] by simp
  have mk: "?m (c_key t) = Some (c_status t)" by (rule smap_task[OF inv(2) assms(2)])
  have nk: "?m (c_key t) \<noteq> Some T_COMPLETED" using mk assms(3) by auto
  have rem2: "c_remaining u = int (open_deps (smap ?ts1) (c_deps u))"
    if lv: "live (cr_status r)" and u: "u \<in> set ?ts2" for u
  proof -
    obtain v where v: "v \<in> set (cr_tasks r)" "c_key u = c_key v" "c_deps u = c_deps v"
      "c_remaining u = c_remaining v - (if c_key v \<in> set (c_dependents t) then 1 else 0)"
      using u lv by (auto simp: release_def set_status_def elim!: update_where_E split: if_splits)
    have "c_key v \<in> set (c_dependents t) \<longleftrightarrow> c_key t \<in> set (c_deps v)"
      by (rule links_okD(3)[OF inv(1) assms(2) v(1)])
    then show ?thesis
      using inv(4)[OF lv v(1)] v(3,4) open_deps_complete[of "c_deps v" ?m "c_key t"]
        links_okD(2)[OF inv(1) v(1)] nk unfolding sm1 by auto
  qed
  have sm3: "smap ?ts3 = (if cr_status r = E_RUNNING then promote ?G (smap ?ts1) else smap ?ts1)"
  proof (cases "cr_status r = E_RUNNING")
    case True
    have "smap (promote_zero (\<lambda>j. j \<in> set (c_dependents t)) ?ts2) = promote (gmap ?ts2) (smap ?ts2)"
    proof (rule smap_promote_zero[OF keys(2)])
      fix u assume u: "u \<in> set ?ts2"
      show "c_remaining u = int (open_deps (smap ?ts2) (c_deps u))"
        unfolding sm2 using True u by (intro rem2) (simp_all add: live_def)
      assume pend: "c_status u = T_PENDING" and dc: "deps_completed (gmap ?ts2) (smap ?ts2) (c_key u)"
      obtain v where v: "v \<in> set (cr_tasks r)" "c_key u = c_key v" "c_deps u = c_deps v" "c_status v = T_PENDING"
        using u pend by (auto simp: release_def set_status_def elim!: update_where_E split: if_splits)
      have "\<not> deps_completed ?G ?m (c_key v)"
        using inv(5) True smap_task[OF inv(2) v(1)] v(4) unfolding run_inv_def spec_run_def by simp
      moreover have "deps_completed ?G (?m(c_key t \<mapsto> T_COMPLETED)) (c_key v)"
        using dc v(2) sm1 sm2 links_eqD(2)[OF keys(3)] by simp
      ultimately have "c_key t \<in> deps_in ?G (c_key v)"
        unfolding deps_completed_def by (metis fun_upd_other)
      then show "c_key u \<in> set (c_dependents t)"
        using links_okD(3)[OF inv(1) assms(2) v(1)] v(2) deps_in_task[OF inv(2) v(1)] by simp
    qed
    then show ?thesis using True sm2 links_eqD(2)[OF keys(3)] by simp
  qed (simp add: sm2)
  have cnt: "int (count_where (\<lambda>t. unfinished (c_status t)) ?ts3) = cr_pending r - 1"
    using count_set_status[OF inv(2) assms(2), of unfinished T_COMPLETED] assms(3) inv(3)
    by (auto simp: count_status_update)
  have open_eq: "open_deps (smap ?ts3) ds = open_deps (smap ?ts1) ds" for ds
    unfolding sm3 by (intro open_deps_cong) (simp add: promote_completed)
  have "c_remaining u = int (open_deps (smap ?ts3) (c_deps u))"
    if lv: "live (cr_status r)" and u: "u \<in> set ?ts3" for u
  proof -
    obtain v where "v \<in> set ?ts2" "c_deps u = c_deps v" "c_remaining u = c_remaining v"
      using u by (auto simp: promote_zero_def elim!: update_where_E split: if_splits)
    then show ?thesis unfolding open_eq using rem2[OF lv] by simp
  qed
  then show "counters_ok (c_succeed (c_key t) (c_dependents t) r)"
    unfolding counters_ok_def c_succeed_def Let_def using inv(1) keys(4) cnt
    by (auto simp: live_def)
  have "cr_pending r - 1 = 0 \<longleftrightarrow> ran (smap ?ts3) \<subseteq> {T_COMPLETED}" if R: "cr_status r = E_RUNNING"
  proof -
    have "ran (smap ?ts3) \<inter> {T_FAILED, T_DEAD_LETTER, T_CANCELLED} = {}"
      using inv(5) R unfolding sm3 sm1 run_inv_def spec_run_def
      by (auto simp: live_def ran_def promote_Some split: if_splits)
    with cnt show ?thesis using links_eqD(1)[OF keys(4)] inv(2) by (intro unfinished_0) simp_all
  qed
  then show "spec_run (c_succeed (c_key t) (c_dependents t) r)
      = spec_succeed (gmap (cr_tasks r)) (c_key t) (spec_run r)"
    unfolding spec_run_def c_succeed_def spec_succeed_def Let_def settle_def
    using sm3 sm1 by auto
qed

lemma crun_fail:
  assumes "crun_inv r" "t \<in> set (cr_tasks r)" "c_status t \<in> {T_RUNNING, T_WAITING_FOR_APPROVAL}"
    "outcome \<in> {T_FAILED, T_DEAD_LETTER}"
  shows "spec_run (c_fail outcome (c_key t) r) = spec_fail outcome (c_key t) (spec_run r)"
    "counters_ok (c_fail outcome (c_key t) r)"
proof -
  let ?ts = "set_status (c_key t) outcome (cr_tasks r)"
  note inv = crun_invD[OF assms(1)]
  have k: "c_key t \<in> c_key ` set (cr_tasks r)" using assms(2) by simp
  have sm: "smap ?ts = (smap (cr_tasks r))(c_key t \<mapsto> outcome)" by (rule smap_set_status[OF inv(2) k])
  have d: "distinct (map c_key ?ts)" using inv(2) by simp
  show "spec_run (c_fail outcome (c_key t) r) = spec_fail outcome (c_key t) (spec_run r)"
    by (simp add: spec_run_def c_fail_def spec_fail_def Let_def sm smap_cancel_in[OF d])
  have c1: "int (count_where (\<lambda>t. unfinished (c_status t)) ?ts) = cr_pending r - 1"
    using count_set_status[OF inv(2) assms(2), of unfinished outcome] assms(3,4) inv(3) by auto
  have c2: "count_where (\<lambda>t. unfinished (c_status t)) (cancel_in unstarted ?ts)
      + count_where (\<lambda>t. unstarted (c_status t)) ?ts = count_where (\<lambda>t. unfinished (c_status t)) ?ts"
    by (rule count_cancel_in) (rule unstarted_unfinished)
  show "counters_ok (c_fail outcome (c_key t) r)"
    using inv(1) c1 c2 by (auto simp: counters_ok_def c_fail_def Let_def live_def)
qed

lemma crun_resume:
  assumes "crun_inv r" "cr_status r = E_PAUSED"
  shows "spec_run (c_resume r) = spec_resume (gmap (cr_tasks r)) (spec_run r)" "counters_ok (c_resume r)"
proof -
  let ?ts = "promote_zero (\<lambda>_. True) (cr_tasks r)" and ?G = "gmap (cr_tasks r)"
  note inv = crun_invD[OF assms(1)]
  have lv: "live (cr_status r)" using assms(2) by (simp add: live_def)
  have sm: "smap ?ts = promote ?G (smap (cr_tasks r))"
    by (rule smap_promote_zero[OF inv(2) inv(4)[OF lv]]) simp_all
  have cnt: "int (count_where (\<lambda>t. unfinished (c_status t)) ?ts) = cr_pending r"
    using inv(3) by (simp add: count_status_update)
  have "ran (smap ?ts) \<inter> {T_FAILED, T_DEAD_LETTER, T_CANCELLED} = {}"
    using inv(5) assms(2) unfolding sm run_inv_def spec_run_def
    by (auto simp: live_def ran_def promote_Some split: if_splits)
  then have "cr_pending r = 0 \<longleftrightarrow> ran (smap ?ts) \<subseteq> {T_COMPLETED}"
    using inv(2) cnt by (intro unfinished_0) simp_all
  then show "spec_run (c_resume r) = spec_resume ?G (spec_run r)"
    by (simp add: spec_run_def c_resume_def spec_resume_def settle_def sm)
  have open_eq: "open_deps (smap ?ts) ds = open_deps (smap (cr_tasks r)) ds" for ds
    unfolding sm by (intro open_deps_cong) (simp add: promote_completed)
  have "c_remaining u = int (open_deps (smap ?ts) (c_deps u))" if "u \<in> set ?ts" for u
    unfolding open_eq using that inv(4)[OF lv] by (auto simp: promote_zero_def elim!: update_where_E)
  then show "counters_ok (c_resume r)" using inv(1) cnt by (simp add: counters_ok_def c_resume_def)
qed

lemma crun_cancel:
  assumes "crun_inv r"
  shows "spec_run (c_cancel r) = spec_cancel (spec_run r)" "counters_ok (c_cancel r)"
proof -
  note inv = crun_invD[OF assms(1)]
  show "spec_run (c_cancel r) = spec_cancel (spec_run r)"
    by (simp add: spec_run_def c_cancel_def spec_cancel_def smap_cancel_in[OF inv(2)])
  show "counters_ok (c_cancel r)"
    using inv(1,3) count_cancel_in[of unfinished "cr_tasks r"]
    by (simp add: counters_ok_def c_cancel_def live_def)
qed

section \<open>The machine with counters\<close>

inductive crun_step :: "crun \<Rightarrow> crun \<Rightarrow> bool" where
  c_step_move: "t \<in> set (cr_tasks r) \<Longrightarrow> quiet_move (cr_status r) (c_status t) s \<Longrightarrow>
    crun_step r (c_move (c_key t) s r)"
| c_step_succeed: "t \<in> set (cr_tasks r) \<Longrightarrow> c_status t \<in> {T_RUNNING, T_WAITING_FOR_APPROVAL} \<Longrightarrow>
    crun_step r (c_succeed (c_key t) (c_dependents t) r)"
| c_step_fail: "t \<in> set (cr_tasks r) \<Longrightarrow> c_status t \<in> {T_RUNNING, T_WAITING_FOR_APPROVAL} \<Longrightarrow>
    outcome \<in> {T_FAILED, T_DEAD_LETTER} \<Longrightarrow> crun_step r (c_fail outcome (c_key t) r)"
| c_step_pause: "cr_status r = E_RUNNING \<Longrightarrow> crun_step r (r\<lparr>cr_status := E_PAUSED\<rparr>)"
| c_step_resume: "cr_status r = E_PAUSED \<Longrightarrow> crun_step r (c_resume r)"
| c_step_cancel: "live (cr_status r) \<Longrightarrow> crun_step r (c_cancel r)"

lemma spec_run_status [simp]: "run_status (spec_run r) = cr_status r"
  by (simp add: spec_run_def)

lemma crun_step_links: "crun_step r r' \<Longrightarrow> map links (cr_tasks r') = map links (cr_tasks r)"
  by (induction rule: crun_step.induct)
     (auto simp: c_move_def c_succeed_def c_fail_def c_resume_def c_cancel_def Let_def)

lemma crun_step_refines:
  assumes "crun_inv r" "crun_step r r'"
  shows "run_step (gmap (cr_tasks r)) (spec_run r) (spec_run r')" "counters_ok r'"
proof -
  note d = crun_invD(2)[OF assms(1)]
  have lk: "run_tasks (spec_run r) (c_key t) = Some (c_status t)" if "t \<in> set (cr_tasks r)" for t
    using smap_task[OF d that] by (simp add: spec_run_def)
  have "run_step (gmap (cr_tasks r)) (spec_run r) (spec_run r') \<and> counters_ok r'"
    using assms(2)
  proof (cases rule: crun_step.cases)
    case (c_step_move t s)
    then show ?thesis using crun_move[OF assms(1)] by (simp add: crun_inv_def)
  next
    case (c_step_succeed t)
    then show ?thesis using crun_succeed[OF assms(1)] lk step_succeed by metis
  next
    case (c_step_fail t outcome)
    then show ?thesis using crun_fail[OF assms(1)] lk step_fail by metis
  next
    case c_step_pause
    have "spec_run r' = (spec_run r)\<lparr>run_status := E_PAUSED\<rparr>" using c_step_pause by (simp add: spec_run_def)
    moreover have "counters_ok r'"
      using assms(1) c_step_pause by (simp add: crun_inv_def counters_ok_def live_def)
    ultimately show ?thesis using c_step_pause by (simp add: step_pause)
  next
    case c_step_resume
    then show ?thesis using crun_resume[OF assms(1)] step_resume[of "spec_run r"] by simp
  next
    case c_step_cancel
    then show ?thesis using crun_cancel[OF assms(1)] step_cancel[of "spec_run r"] by simp
  qed
  then show "run_step (gmap (cr_tasks r)) (spec_run r) (spec_run r')" "counters_ok r'" by simp_all
qed

lemma crun_step_inv: "crun_inv r \<Longrightarrow> crun_step r r' \<Longrightarrow> crun_inv r'"
  using crun_step_refines run_inv_step crun_invD(5) links_eqD(2)[OF crun_step_links]
  unfolding crun_inv_def by metis

interpretation counter_machine: simulation "\<lambda>r. crun_inv r \<and> gmap (cr_tasks r) = G" crun_step
  "\<lambda>r. crun_inv r \<and> gmap (cr_tasks r) = G" spec_run "run_inv G" "run_step G" for G
proof
  show "crun_inv r' \<and> gmap (cr_tasks r') = G" if "crun_inv r \<and> gmap (cr_tasks r) = G" "crun_step r r'" for r r'
    using that crun_step_inv[of r r'] links_eqD(2)[OF crun_step_links[OF that(2)]] by simp
  show "(run_step G)\<^sup>*\<^sup>* (spec_run r) (spec_run r')"
    if "crun_inv r \<and> gmap (cr_tasks r) = G" "crun_step r r'" for r r'
    using that crun_step_refines(1) by auto
qed (auto dest: crun_invD(5))

end
