(* ===== verification/Wf_Engine_Db.thy ===== *)
theory Wf_Engine_Db
  imports Wf_Engine Wf_Counter_Run Wf_Dag_Correct
begin

text \<open>
  The engine's database as a collection of runs. \<open>view i db\<close> is the run with counters of
  \<open>Wf_Counter_Run\<close> that execution \<open>i\<close> and its tasks form; \<open>updates_run i F db db'\<close> says that a
  piece of the engine applied \<open>F\<close> to that run and left all others alone. The laws of the pieces
  compose, so that each transaction of \<open>src/workflow/engine.js\<close> is shown to be one step of the
  run machine, to be total, and to keep the database invariant.
\<close>

section \<open>Runs in the database\<close>

definition ctask_of :: "task \<Rightarrow> ctask" where
  "ctask_of t = \<lparr>c_key = t_key t, c_deps = t_dependsOn t, c_dependents = t_dependents t,
                 c_status = t_status t, c_remaining = t_remainingDeps t\<rparr>"

lemma ctask_of_simps [simp]:
  "c_key (ctask_of t) = t_key t" "c_deps (ctask_of t) = t_dependsOn t"
  "c_dependents (ctask_of t) = t_dependents t" "c_status (ctask_of t) = t_status t"
  "c_remaining (ctask_of t) = t_remainingDeps t"
  by (simp_all add: ctask_of_def)

definition ctasks :: "oid \<Rightarrow> db \<Rightarrow> ctask list" where
  "ctasks i db = map ctask_of (tasks_of i db)"

definition view :: "oid \<Rightarrow> db \<Rightarrow> crun option" where
  "view i db =
     map_option (\<lambda>e. \<lparr>cr_status = e_status e, cr_pending = e_pendingTasks e, cr_tasks = ctasks i db\<rparr>)
       (find_execution i db)"

text \<open>The identities in the database: which executions there are, and which task belongs to which.\<close>

definition exec_ids :: "db \<Rightarrow> oid list" where
  "exec_ids db = map e_id (executions db)"

definition task_ids :: "db \<Rightarrow> (oid \<times> oid) list" where
  "task_ids db = map (\<lambda>t. (t_id t, t_executionId t)) (tasks db)"

definition task_names :: "db \<Rightarrow> (oid \<times> oid \<times> key) list" where
  "task_names db = map (\<lambda>t. (t_id t, t_executionId t, t_key t)) (tasks db)"

definition db_ok :: "db \<Rightarrow> bool" where
  "db_ok db \<longleftrightarrow> distinct (exec_ids db) \<and> distinct (map fst (task_ids db))
     \<and> snd ` set (task_ids db) \<subseteq> set (exec_ids db)
     \<and> (\<forall>i \<in> set (exec_ids db) \<union> fst ` set (task_ids db). i < next_id db)"

definition db_inv :: "db \<Rightarrow> bool" where
  "db_inv db \<longleftrightarrow> db_ok db \<and> (\<forall>i r. view i db = Some r \<longrightarrow> crun_inv r)"

definition updates_run :: "oid \<Rightarrow> (crun \<Rightarrow> crun) \<Rightarrow> db \<Rightarrow> db \<Rightarrow> bool" where
  "updates_run i F db db' \<longleftrightarrow>
     exec_ids db' = exec_ids db \<and> task_ids db' = task_ids db \<and> task_names db' = task_names db
     \<and> next_id db \<le> next_id db'
     \<and> (\<forall>j. view j db' = (if j = i then map_option F (view j db) else view j db))"

section \<open>Lookup and collection updates\<close>

lemma find_update_where:
  "(\<And>x. x \<in> set xs \<Longrightarrow> P x \<Longrightarrow> Q (f x) = Q x) \<Longrightarrow>
   List.find Q (update_where P f xs) = map_option (\<lambda>x. if P x then f x else x) (List.find Q xs)"
  by (induction xs) auto

lemma count_where_none: "(\<And>x. x \<in> set xs \<Longrightarrow> \<not> P x) \<Longrightarrow> count_where P xs = 0"
  by simp

lemma map_update_where_commute:
  "(\<And>x. x \<in> set xs \<Longrightarrow> P x = P' (g x)) \<Longrightarrow> (\<And>x. x \<in> set xs \<Longrightarrow> P x \<Longrightarrow> g (f x) = f' (g x)) \<Longrightarrow>
   map g (update_where P f xs) = update_where P' f' (map g xs)"
  by (induction xs) auto

lemma in_tasks_of: "t \<in> set (tasks_of i db) \<longleftrightarrow> t \<in> set (tasks db) \<and> t_executionId t = i"
  by (auto simp: tasks_of_def)

lemma db_okD:
  assumes "db_ok db"
  shows "distinct (map e_id (executions db))" "distinct (map t_id (tasks db))"
    "t \<in> set (tasks db) \<Longrightarrow> \<exists>e. find_execution (t_executionId t) db = Some e \<and> e_id e = t_executionId t"
    "e \<in> set (executions db) \<Longrightarrow> e_id e < next_id db" "t \<in> set (tasks db) \<Longrightarrow> t_id t < next_id db"
proof -
  show "distinct (map e_id (executions db))" "distinct (map t_id (tasks db))"
    "e \<in> set (executions db) \<Longrightarrow> e_id e < next_id db" "t \<in> set (tasks db) \<Longrightarrow> t_id t < next_id db"
    using assms by (auto simp: db_ok_def exec_ids_def task_ids_def comp_def image_image)
  assume t: "t \<in> set (tasks db)"
  then obtain e where "e \<in> set (executions db)" "e_id e = t_executionId t"
    using assms by (force simp: db_ok_def exec_ids_def task_ids_def)
  then show "\<exists>e. find_execution (t_executionId t) db = Some e \<and> e_id e = t_executionId t"
    unfolding find_execution_def
    by (metis (mono_tags, lifting) find_None_iff_all find_filter_Some option.exhaust)
qed

lemma find_task_eq:
  assumes "db_ok db" "t \<in> set (tasks db)"
  shows "find_task (t_id t) db = Some t"
  unfolding find_task_def using find_unique[OF db_okD(2)[OF assms(1)] assms(2), of "t_id t" "\<lambda>_. True"] by simp

lemma find_task_Some: "find_task i db = Some t \<Longrightarrow> t \<in> set (tasks db) \<and> t_id t = i"
  unfolding find_task_def by (drule find_filter_Some) simp

lemma find_execution_Some: "find_execution i db = Some e \<Longrightarrow> e \<in> set (executions db) \<and> e_id e = i"
  unfolding find_execution_def by (drule find_filter_Some) simp

lemma view_Some:
  "view i db = Some r \<longleftrightarrow> (\<exists>e. find_execution i db = Some e \<and> cr_status r = e_status e
     \<and> cr_pending r = e_pendingTasks e \<and> cr_tasks r = ctasks i db)"
  by (auto simp: view_def)

text \<open>In a consistent database a task is determined by its id, and within its run by its key.\<close>

lemma db_inv_view:
  assumes "db_inv db" "t \<in> set (tasks db)"
  obtains r where "view (t_executionId t) db = Some r" "crun_inv r" "ctask_of t \<in> set (cr_tasks r)"
    "cr_tasks r = ctasks (t_executionId t) db"
proof -
  obtain e where "find_execution (t_executionId t) db = Some e"
    using db_okD(3) assms unfolding db_inv_def by blast
  then have "view (t_executionId t) db = Some \<lparr>cr_status = e_status e, cr_pending = e_pendingTasks e,
      cr_tasks = ctasks (t_executionId t) db\<rparr>" by (simp add: view_def)
  with assms show ?thesis
    using that unfolding db_inv_def by (force simp: ctasks_def in_tasks_of)
qed

lemma task_unique:
  assumes "db_inv db" "t \<in> set (tasks db)" "u \<in> set (tasks db)"
  shows "t_id u = t_id t \<longleftrightarrow> t_executionId u = t_executionId t \<and> t_key u = t_key t"
proof
  show "t_id u = t_id t \<Longrightarrow> t_executionId u = t_executionId t \<and> t_key u = t_key t"
    using distinct_map_eqD[OF db_okD(2)] assms unfolding db_inv_def by metis
  assume eq: "t_executionId u = t_executionId t \<and> t_key u = t_key t"
  obtain r where r: "crun_inv r" "cr_tasks r = ctasks (t_executionId t) db" using assms db_inv_view by metis
  have "distinct (map t_key (tasks_of (t_executionId t) db))"
    using crun_invD(2)[OF r(1)] unfolding r(2) ctasks_def by (simp add: comp_def)
  then have "u = t" using eq assms(2,3) distinct_map_eqD[of t_key _ u t] by (simp add: in_tasks_of)
  then show "t_id u = t_id t" by simp
qed

section \<open>How the pieces of the engine act on runs\<close>

lemma updates_run_refl: "updates_run i (\<lambda>r. r) db db"
  by (simp add: updates_run_def option.map_ident)

lemma updates_run_trans:
  "updates_run i F db db' \<Longrightarrow> updates_run i F' db' db'' \<Longrightarrow> updates_run i (\<lambda>r. F' (F r)) db db''"
  by (auto simp: updates_run_def option.map_comp comp_def)

lemma updates_run_cong:
  "updates_run i F db db' \<Longrightarrow> (\<And>r. view i db = Some r \<Longrightarrow> F r = F' r) \<Longrightarrow> updates_run i F' db db'"
  by (cases "view i db") (auto simp: updates_run_def)

lemma updates_run_if:
  "(b \<Longrightarrow> updates_run i F db db1) \<Longrightarrow> (\<not> b \<Longrightarrow> updates_run i F' db db2) \<Longrightarrow>
   updates_run i (\<lambda>r. if b then F r else F' r) db (if b then db1 else db2)"
  by (cases b) simp_all

text \<open>Only the executions and the tasks matter.\<close>

lemma updates_run_other:
  "updates_run i F db db' \<Longrightarrow> executions db'' = executions db' \<Longrightarrow> tasks db'' = tasks db' \<Longrightarrow>
   next_id db' \<le> next_id db'' \<Longrightarrow> updates_run i F db db''"
  by (auto simp: updates_run_def exec_ids_def task_ids_def task_names_def view_def ctasks_def tasks_of_def find_execution_def)

lemma emit_simps [simp]:
  "executions (emit dp ty i pl now db) = executions db" "tasks (emit dp ty i pl now db) = tasks db"
  "attempts (emit dp ty i pl now db) = attempts db" "approvals (emit dp ty i pl now db) = approvals db"
  "next_id db \<le> next_id (emit dp ty i pl now db)"
  by (simp_all add: emit_def)

lemma updates_run_emit: "updates_run i F db db' \<Longrightarrow> updates_run i F db (emit dp ty j pl now db')"
  by (erule updates_run_other) simp_all

lemma updates_run_tasks:
  assumes "\<And>t. t \<in> set (tasks db) \<Longrightarrow> P t \<Longrightarrow>
       t_id (f t) = t_id t \<and> t_executionId (f t) = t_executionId t \<and> t_key (f t) = t_key t"
    "\<And>t. t \<in> set (tasks db) \<Longrightarrow> P t \<Longrightarrow> t_executionId t \<noteq> i \<Longrightarrow> ctask_of (f t) = ctask_of t"
    "\<And>t. t \<in> set (tasks db) \<Longrightarrow> t_executionId t = i \<Longrightarrow> P t = P' (ctask_of t)"
    "\<And>t. t \<in> set (tasks db) \<Longrightarrow> t_executionId t = i \<Longrightarrow> P t \<Longrightarrow> ctask_of (f t) = f' (ctask_of t)"
  shows "updates_run i (\<lambda>r. r\<lparr>cr_tasks := update_where P' f' (cr_tasks r)\<rparr>) db
           (db\<lparr>tasks := update_where P f (tasks db)\<rparr>)"
proof -
  let ?db = "db\<lparr>tasks := update_where P f (tasks db)\<rparr>"
  have of: "tasks_of j ?db = update_where P f (tasks_of j db)" for j
    unfolding tasks_of_def using assms(1) by (simp add: filter_update_where)
  have "ctasks i ?db = update_where P' f' (ctasks i db)"
    unfolding ctasks_def of using assms(3,4) by (intro map_update_where_commute) (auto simp: in_tasks_of)
  moreover have "ctasks j ?db = ctasks j db" if "j \<noteq> i" for j
    unfolding ctasks_def of using assms(2) that by (intro map_update_where) (auto simp: in_tasks_of)
  moreover have "task_ids ?db = task_ids db" "task_names ?db = task_names db"
    unfolding task_ids_def task_names_def using assms(1) by (simp_all add: map_update_where)
  ultimately show ?thesis
    by (auto simp: updates_run_def exec_ids_def view_def find_execution_def option.map_comp comp_def)
qed

lemma updates_run_execution:
  assumes "\<And>e. e \<in> set (executions db) \<Longrightarrow> P e \<Longrightarrow> e_id e = i \<and> e_id (f e) = i"
    "\<And>e. e \<in> set (executions db) \<Longrightarrow> e_id e = i \<Longrightarrow>
       F \<lparr>cr_status = e_status e, cr_pending = e_pendingTasks e, cr_tasks = ctasks i db\<rparr>
       = \<lparr>cr_status = e_status (if P e then f e else e), cr_pending = e_pendingTasks (if P e then f e else e),
          cr_tasks = ctasks i db\<rparr>"
  shows "updates_run i F db (db\<lparr>executions := update_where P f (executions db)\<rparr>)"
proof -
  let ?db = "db\<lparr>executions := update_where P f (executions db)\<rparr>"
  have fe: "find_execution j ?db = map_option (\<lambda>e. if P e then f e else e) (find_execution j db)" for j
    unfolding find_execution_def using assms(1) by (simp add: find_update_where)
  have "exec_ids ?db = exec_ids db" unfolding exec_ids_def using assms(1) by (simp add: map_update_where)
  moreover have ct: "ctasks j ?db = ctasks j db" for j by (simp add: ctasks_def tasks_of_def)
  moreover have "view j ?db = (if j = i then map_option F (view j db) else view j db)" for j
  proof (cases "find_execution j db")
    case (Some e)
    note e = find_execution_Some[OF Some]
    show ?thesis
    proof (cases "j = i")
      case True
      then show ?thesis using Some e assms(2)[of e] by (simp add: view_def fe ct)
    next
      case False
      then have "\<not> P e" using assms(1)[of e] e by auto
      then show ?thesis using Some False by (simp add: view_def fe ct)
    qed
  qed (auto simp: view_def fe)
  ultimately show ?thesis by (simp add: updates_run_def task_ids_def task_names_def)
qed

lemma updates_inc_pending:
  "updates_run i (\<lambda>r. r\<lparr>cr_pending := cr_pending r + n\<rparr>) db (inc_pending n i db)"
  unfolding inc_pending_def by (rule updates_run_execution) auto

lemma updates_execution_status:
  assumes "\<And>e. e_id (upd e) = e_id e"
    "\<And>e. e_status (upd e) = s' \<and> e_pendingTasks (upd e) = e_pendingTasks e - n"
  shows "updates_run i (\<lambda>r. if cr_status r = s then r\<lparr>cr_status := s', cr_pending := cr_pending r - n\<rparr> else r)
           db (set_execution_status i s upd db)"
  unfolding set_execution_status_def by (rule updates_run_execution) (auto simp: assms)

lemma updates_release:
  assumes "t_executionId task = i"
  shows "updates_run i (\<lambda>r. r\<lparr>cr_tasks := release (t_dependents task) (cr_tasks r)\<rparr>) db (release_dependents task db)"
  unfolding release_dependents_def release_def
  by (rule updates_run_tasks) (auto simp: assms ctask_of_def)

lemma updates_promote_dependents:
  assumes "t_executionId task = i"
  shows "updates_run i (\<lambda>r. r\<lparr>cr_tasks := promote_zero (\<lambda>j. j \<in> set (t_dependents task)) (cr_tasks r)\<rparr>) db
           (promote_dependents task now db)"
  unfolding promote_dependents_def promote_zero_def
  by (rule updates_run_tasks) (auto simp: assms ctask_of_def)

lemma updates_promote_ready:
  "updates_run i (\<lambda>r. r\<lparr>cr_tasks := promote_zero (\<lambda>_. True) (cr_tasks r)\<rparr>) db (promote_ready i now db)"
  unfolding promote_ready_def promote_zero_def
  by (rule updates_run_tasks) (auto simp: ctask_of_def)

lemma updates_cancel_tasks:
  assumes "\<And>t. t_id (upd t) = t_id t \<and> t_executionId (upd t) = t_executionId t \<and> t_key (upd t) = t_key t
                \<and> ctask_of (upd t) = ctask_of t"
  shows "updates_run i (\<lambda>r. r\<lparr>cr_tasks := cancel_in S (cr_tasks r)\<rparr>) db (snd (cancel_tasks S i upd db))"
    "fst (cancel_tasks S i upd db) = count_where (\<lambda>t. S (c_status t)) (ctasks i db)"
proof -
  have "ctask_of ((upd t)\<lparr>t_status := s\<rparr>) = (ctask_of t)\<lparr>c_status := s\<rparr>" for t s
    using assms[of t] by (simp add: ctask_of_def)
  then show "updates_run i (\<lambda>r. r\<lparr>cr_tasks := cancel_in S (cr_tasks r)\<rparr>) db (snd (cancel_tasks S i upd db))"
    unfolding cancel_tasks_def cancel_in_def Let_def snd_conv
    by (intro updates_run_tasks) (auto simp: assms)
  show "fst (cancel_tasks S i upd db) = count_where (\<lambda>t. S (c_status t)) (ctasks i db)"
    by (simp add: cancel_tasks_def Let_def count_where_def ctasks_def tasks_of_def filter_map comp_def conj_commute)
qed

section \<open>Conditional task updates\<close>

text \<open>\<open>transitionTask\<close> for a legal transition: it wins exactly when a task with the id is in the
  expected status and satisfies the extra condition, and then moves that task within its run.\<close>

lemma transitionTask_total:
  assumes "t' \<in> set (TASK_TRANSITIONS s)"
  shows "transitionTask i s t' wher upd db =
     (let P = (\<lambda>t. wher t \<and> t_id t = i \<and> t_status t = s) in
      Inr (count_where P (tasks db) = 1,
           db\<lparr>tasks := update_where P (\<lambda>t. (upd t)\<lparr>t_status := t'\<rparr>) (tasks db)\<rparr>))"
  using assms by (simp add: transitionTask_def del: TASK_TRANSITIONS.simps task_name.simps)

lemma transitionTask_lost:
  assumes "to \<in> set (TASK_TRANSITIONS s)" "\<not> (\<exists>t \<in> set (tasks db). wher t \<and> t_id t = i \<and> t_status t = s)"
  shows "transitionTask i s to wher upd db = Inr (False, db)"
proof -
  have "update_where (\<lambda>t. wher t \<and> t_id t = i \<and> t_status t = s) (\<lambda>t. (upd t)\<lparr>t_status := to\<rparr>) (tasks db) = tasks db"
    using assms(2) by (intro update_where_False) auto
  moreover have "count_where (\<lambda>t. wher t \<and> t_id t = i \<and> t_status t = s) (tasks db) \<noteq> 1"
    using assms(2) by (subst count_where_none) auto
  ultimately show ?thesis unfolding transitionTask_total[OF assms(1)] Let_def by simp
qed

definition moved :: "task \<Rightarrow> task \<Rightarrow> db \<Rightarrow> db" where
  "moved t t' db = db\<lparr>tasks := update_where (\<lambda>u. u = t) (\<lambda>_. t') (tasks db)\<rparr>"

lemma transitionTask_won:
  assumes "to \<in> set (TASK_TRANSITIONS (t_status t))" "db_ok db" "t \<in> set (tasks db)" "wher t"
  shows "transitionTask (t_id t) (t_status t) to wher upd db = Inr (True, moved t ((upd t)\<lparr>t_status := to\<rparr>) db)"
proof -
  let ?P = "\<lambda>u. wher u \<and> t_id u = t_id t \<and> t_status u = t_status t"
  have P: "?P u \<longleftrightarrow> u = t" if "u \<in> set (tasks db)" for u
    using that assms(3,4) distinct_map_eqD[OF db_okD(2)[OF assms(2)]] by auto
  have "count_where ?P (tasks db) = 1"
    using count_where_unique[OF db_okD(2)[OF assms(2)], of ?P "t_id t"] assms(3,4) by auto
  moreover have "update_where ?P (\<lambda>t. (upd t)\<lparr>t_status := to\<rparr>) (tasks db)
      = update_where (\<lambda>u. u = t) (\<lambda>_. (upd t)\<lparr>t_status := to\<rparr>) (tasks db)"
    using P by (intro update_where_cong) auto
  ultimately show ?thesis unfolding transitionTask_total[OF assms(1)] Let_def moved_def by simp
qed

lemma moved_simps [simp]:
  "executions (moved t t' db) = executions db" "attempts (moved t t' db) = attempts db"
  "approvals (moved t t' db) = approvals db" "outbox (moved t t' db) = outbox db"
  "next_id (moved t t' db) = next_id db" "find_execution i (moved t t' db) = find_execution i db"
  by (simp_all add: moved_def find_execution_def)

lemma updates_moved:
  assumes "db_inv db" "t \<in> set (tasks db)" "t_executionId t = i" "t_id t' = t_id t" "t_executionId t' = i"
    "ctask_of t' = (ctask_of t)\<lparr>c_status := s\<rparr>"
  shows "updates_run i (c_move (t_key t) s) db (moved t t' db)"
proof -
  have u: "u = t" if "u \<in> set (tasks db)" "t_executionId u = i" "t_key u = t_key t" for u
    using task_unique[OF assms(1,2) that(1)] that assms(2,3) distinct_map_eqD[OF db_okD(2), of db u t] assms(1)
    by (simp add: db_inv_def)
  have "t_key t' = t_key t" using arg_cong[OF assms(6), of c_key] by simp
  then have "updates_run i (\<lambda>r. r\<lparr>cr_tasks := update_where (\<lambda>c. c_key c = t_key t) (\<lambda>c. c\<lparr>c_status := s\<rparr>) (cr_tasks r)\<rparr>)
    db (moved t t' db)"
    unfolding moved_def using assms u by (intro updates_run_tasks) auto
  then show ?thesis by (rule updates_run_cong) (simp add: c_move_def set_status_def)
qed

lemma find_task_moved:
  assumes "db_ok db" "t \<in> set (tasks db)" "t_id t' = t_id t"
  shows "find_task (t_id t) (moved t t' db) = Some t'"
proof -
  have "find_task (t_id t) (moved t t' db) = map_option (\<lambda>u. if u = t then t' else u) (find_task (t_id t) db)"
    unfolding find_task_def moved_def using assms(3) by (simp, intro find_update_where) simp
  then show ?thesis using find_task_eq[OF assms(1,2)] by simp
qed

section \<open>What follows the end of a task\<close>

lemma updates_close_attempt: "updates_run i F db db' \<Longrightarrow> updates_run i F db (close_attempt tid n upd db')"
  by (erule updates_run_other) (simp_all add: close_attempt_def)

lemma close_attempt_simps [simp]:
  "executions (close_attempt tid n upd db) = executions db" "tasks (close_attempt tid n upd db) = tasks db"
  "approvals (close_attempt tid n upd db) = approvals db" "outbox (close_attempt tid n upd db) = outbox db"
  "next_id (close_attempt tid n upd db) = next_id db"
  by (simp_all add: close_attempt_def)

lemma find_execution_cong: "executions db = executions db' \<Longrightarrow> find_execution i db = find_execution i db'"
  by (simp add: find_execution_def)

lemma find_inc_pending:
  "find_execution i (inc_pending n i db)
   = map_option (\<lambda>e. e\<lparr>e_pendingTasks := e_pendingTasks e + n\<rparr>) (find_execution i db)"
proof -
  have "find_execution i (inc_pending n i db)
      = map_option (\<lambda>e. if e_id e = i then e\<lparr>e_pendingTasks := e_pendingTasks e + n\<rparr> else e) (find_execution i db)"
    unfolding find_execution_def inc_pending_def by (simp, intro find_update_where) simp
  then show ?thesis by (cases "find_execution i db") (auto dest: find_execution_Some)
qed

text \<open>\<open>afterTaskSucceeded\<close>, on a database in which the task has just been marked completed.\<close>

lemma after_succeeded:
  assumes "find_execution (t_executionId task) db = Some e"
  shows "\<exists>db'. afterTaskSucceeded dp task now db = Inr db'
     \<and> approvals db' = approvals db \<and> attempts db' = attempts db
     \<and> updates_run (t_executionId task) (\<lambda>r.
         let ts = (if live (cr_status r) then release (t_dependents task) (cr_tasks r) else cr_tasks r);
             ts = (if cr_status r = E_RUNNING then promote_zero (\<lambda>j. j \<in> set (t_dependents task)) ts else ts);
             p = cr_pending r - 1
         in \<lparr>cr_status = (if cr_status r = E_RUNNING \<and> p = 0 then E_COMPLETED else cr_status r),
             cr_pending = p, cr_tasks = ts\<rparr>) db db'"
proof -
  let ?i = "t_executionId task" and ?ds = "t_dependents task"
  let ?dec = "\<lambda>r::crun. r\<lparr>cr_pending := cr_pending r + - 1\<rparr>"
  let ?rel = "\<lambda>r::crun. r\<lparr>cr_tasks := release ?ds (cr_tasks r)\<rparr>"
  let ?pro = "\<lambda>r::crun. r\<lparr>cr_tasks := promote_zero (\<lambda>j. j \<in> set ?ds) (cr_tasks r)\<rparr>"
  let ?fin = "\<lambda>r::crun. if cr_status r = E_RUNNING then r\<lparr>cr_status := E_COMPLETED, cr_pending := cr_pending r - 0\<rparr> else r"
  define db1 where "db1 = inc_pending (- 1) ?i db"
  have fe: "find_execution ?i db1 = Some (e\<lparr>e_pendingTasks := e_pendingTasks e + - 1\<rparr>)"
    unfolding db1_def using assms by (simp add: find_inc_pending)
  have eid: "e_id e = ?i" using find_execution_Some[OF assms] by simp
  have vw: "view ?i db = Some \<lparr>cr_status = e_status e, cr_pending = e_pendingTasks e, cr_tasks = ctasks ?i db\<rparr>"
    using assms by (simp add: view_def)
  have u1: "updates_run ?i ?dec db db1" unfolding db1_def by (rule updates_inc_pending)
  define db2 where "db2 = (if live (e_status e) \<and> ?ds \<noteq> [] then release_dependents task db1 else db1)"
  define db3 where "db3 = (if e_status e = E_RUNNING \<and> ?ds \<noteq> [] then promote_dependents task now db2 else db2)"
  define db4 where "db4 = (if e_status e = E_RUNNING \<and> e_pendingTasks e + - 1 = 0
     then emit dp ''execution.completed'' ?i [] now (set_execution_status ?i E_RUNNING
            (\<lambda>e. e\<lparr>e_status := E_COMPLETED, e_completedAt := Some now\<rparr>) db3) else db3)"
  have u2: "updates_run ?i (\<lambda>r. if live (e_status e) \<and> ?ds \<noteq> [] then ?rel (?dec r) else ?dec r) db db2"
    unfolding db2_def by (rule updates_run_if[OF updates_run_trans[OF u1 updates_release[OF refl]] u1])
  have u3: "updates_run ?i (\<lambda>r. let r2 = (if live (e_status e) \<and> ?ds \<noteq> [] then ?rel (?dec r) else ?dec r) in
      if e_status e = E_RUNNING \<and> ?ds \<noteq> [] then ?pro r2 else r2) db db3"
    unfolding db3_def Let_def by (rule updates_run_if[OF updates_run_trans[OF u2 updates_promote_dependents[OF refl]] u2])
  have fin: "updates_run ?i ?fin db3 (set_execution_status ?i E_RUNNING
      (\<lambda>e. e\<lparr>e_status := E_COMPLETED, e_completedAt := Some now\<rparr>) db3)"
    by (rule updates_execution_status) simp_all
  have u4: "updates_run ?i (\<lambda>r. let r2 = (if live (e_status e) \<and> ?ds \<noteq> [] then ?rel (?dec r) else ?dec r);
      r3 = (if e_status e = E_RUNNING \<and> ?ds \<noteq> [] then ?pro r2 else r2) in
      if e_status e = E_RUNNING \<and> e_pendingTasks e + - 1 = 0 then ?fin r3 else r3) db db4"
    unfolding db4_def Let_def
    by (rule updates_run_if[OF updates_run_emit[OF updates_run_trans[OF u3[unfolded Let_def] fin]] u3[unfolded Let_def]])
  have nil: "release [] ts = ts" "promote_zero (\<lambda>j. j \<in> set []) ts = ts" for ts
    by (simp_all add: release_def promote_zero_def)
  define db5 where "db5 = emit dp ''task.completed'' ?i
     [(''taskId'', JId (t_id task)), (''key'', JStr (t_key task)), (''attempt'', JNum (of_int (t_attempt task))),
      (''durationMs'', json_opt (\<lambda>i. JNum (of_int i)) (duration task now))] now db4"
  have "afterTaskSucceeded dp task now db = Inr db5"
    unfolding afterTaskSucceeded_def Let_def db1_def[symmetric] fe db5_def db4_def db3_def db2_def
    by (auto simp: live_def eid simp del: execution_name.simps task_name.simps)
  moreover have "updates_run ?i (\<lambda>r.
         let ts = (if live (cr_status r) then release ?ds (cr_tasks r) else cr_tasks r);
             ts = (if cr_status r = E_RUNNING then promote_zero (\<lambda>j. j \<in> set ?ds) ts else ts);
             p = cr_pending r - 1
         in \<lparr>cr_status = (if cr_status r = E_RUNNING \<and> p = 0 then E_COMPLETED else cr_status r),
             cr_pending = p, cr_tasks = ts\<rparr>) db db5"
    unfolding db5_def by (rule updates_run_emit, rule updates_run_cong[OF u4])
      (use nil in \<open>auto simp: vw Let_def live_def\<close>)
  moreover have "approvals db5 = approvals db \<and> attempts db5 = attempts db"
    by (simp add: db5_def db4_def db3_def db2_def db1_def set_execution_status_def promote_dependents_def
        release_dependents_def inc_pending_def)
  ultimately show ?thesis by blast
qed

text \<open>\<open>afterTaskFailedForGood\<close>, on a database in which the task has just been marked failed.\<close>

lemma after_failed:
  assumes "find_execution (t_executionId task) db = Some e"
  shows "\<exists>db'. afterTaskFailedForGood dp task outcome message rt now db = Inr db'
     \<and> approvals db' = approvals db \<and> attempts db' = attempts db
     \<and> updates_run (t_executionId task) (\<lambda>r.
         if live (cr_status r)
         then \<lparr>cr_status = E_FAILED,
               cr_pending = cr_pending r - 1 - int (count_where (\<lambda>t. unstarted (c_status t)) (cr_tasks r)),
               cr_tasks = cancel_in unstarted (cr_tasks r)\<rparr>
         else r\<lparr>cr_pending := cr_pending r - 1\<rparr>) db db'"
proof -
  let ?i = "t_executionId task"
  let ?dec = "\<lambda>r::crun. r\<lparr>cr_pending := cr_pending r + - 1\<rparr>"
  let ?can = "\<lambda>r::crun. r\<lparr>cr_tasks := cancel_in unstarted (cr_tasks r)\<rparr>"
  define db1 where "db1 = inc_pending (- 1) ?i db"
  define c where "c = cancel_tasks unstarted ?i (\<lambda>t. t\<lparr>t_completedAt := Some now\<rparr>) db1"
  let ?n = "int (fst c)"
  let ?fin = "\<lambda>r::crun. if cr_status r = e_status e then r\<lparr>cr_status := E_FAILED, cr_pending := cr_pending r - ?n\<rparr> else r"
  have fe: "find_execution ?i db1 = Some (e\<lparr>e_pendingTasks := e_pendingTasks e + - 1\<rparr>)"
    unfolding db1_def using assms by (simp add: find_inc_pending)
  have eid: "e_id e = ?i" using find_execution_Some[OF assms] by simp
  have vw: "view ?i db = Some \<lparr>cr_status = e_status e, cr_pending = e_pendingTasks e, cr_tasks = ctasks ?i db\<rparr>"
    using assms by (simp add: view_def)
  have u1: "updates_run ?i ?dec db db1" unfolding db1_def by (rule updates_inc_pending)
  have "ctasks ?i db1 = ctasks ?i db" by (simp add: db1_def inc_pending_def ctasks_def tasks_of_def)
  then have n: "fst c = count_where (\<lambda>t. unstarted (c_status t)) (ctasks ?i db)"
    unfolding c_def by (subst updates_cancel_tasks(2)) (simp_all add: ctask_of_def)
  have u2: "updates_run ?i (\<lambda>r. ?can (?dec r)) db (snd c)"
    unfolding c_def by (rule updates_run_trans[OF u1 updates_cancel_tasks(1)]) (simp add: ctask_of_def)
  define db3 where "db3 = (if live (e_status e) then
     emit dp ''execution.failed'' ?i [(''failedTask'', JStr (t_key task)), (''error'', JStr message)] now
       (set_execution_status ?i (e_status e)
          (\<lambda>e. e\<lparr>e_status := E_FAILED, e_error := Some (failure_text task outcome message),
                 e_completedAt := Some now, e_pendingTasks := e_pendingTasks e - ?n\<rparr>) (snd c)) else db1)"
  have u3: "updates_run ?i (\<lambda>r. if live (e_status e) then ?fin (?can (?dec r)) else ?dec r) db db3"
    unfolding db3_def
    by (rule updates_run_if[OF updates_run_emit[OF updates_run_trans[OF u2 updates_execution_status]] u1]) simp_all
  define db4 where "db4 = emit dp (if outcome = T_DEAD_LETTER then ''task.dead_lettered'' else ''task.failed'') ?i
     [(''taskId'', JId (t_id task)), (''key'', JStr (t_key task)), (''attempt'', JNum (of_int (t_attempt task))),
      (''error'', JStr message), (''retryable'', JBool rt)] now db3"
  have "afterTaskFailedForGood dp task outcome message rt now db = Inr db4"
    unfolding afterTaskFailedForGood_def Let_def db1_def[symmetric] fe c_def[symmetric] db4_def db3_def
    by (auto simp: live_def eid split_beta simp del: execution_name.simps task_name.simps)
  moreover have "updates_run ?i (\<lambda>r.
         if live (cr_status r)
         then \<lparr>cr_status = E_FAILED,
               cr_pending = cr_pending r - 1 - int (count_where (\<lambda>t. unstarted (c_status t)) (cr_tasks r)),
               cr_tasks = cancel_in unstarted (cr_tasks r)\<rparr>
         else r\<lparr>cr_pending := cr_pending r - 1\<rparr>) db db4"
    unfolding db4_def by (rule updates_run_emit, rule updates_run_cong[OF u3]) (auto simp: vw n)
  moreover have "approvals db4 = approvals db \<and> attempts db4 = attempts db"
    by (simp add: db4_def db3_def c_def db1_def set_execution_status_def cancel_tasks_def inc_pending_def Let_def)
  ultimately show ?thesis by blast
qed

section \<open>The transactions\<close>

text \<open>A database whose run \<open>i\<close> was changed by one step of the run machine is consistent again.\<close>

lemma updates_run_inv:
  assumes "db_inv db" "updates_run i F db db'" "\<And>r. view i db = Some r \<Longrightarrow> crun_step r (F r) \<or> F r = r"
  shows "db_inv db'"
proof -
  have "db_ok db'"
    using assms(1,2) unfolding db_inv_def db_ok_def updates_run_def by (metis order_less_le_trans)
  moreover have "crun_inv r'" if v: "view j db' = Some r'" for j r'
  proof (cases "j = i")
    case True
    then obtain r where "view i db = Some r" "r' = F r" using assms(2) v by (auto simp: updates_run_def)
    then show ?thesis using assms(1,3) crun_step_inv unfolding db_inv_def by metis
  next
    case False
    then show ?thesis using assms(1,2) that by (auto simp: updates_run_def db_inv_def)
  qed
  ultimately show ?thesis by (simp add: db_inv_def)
qed

text \<open>One engine transaction: nothing happened, or one run took one step. (The database may still
  differ in what no run looks at: events, attempts, leases, time stamps.)\<close>

definition run_txn :: "oid \<Rightarrow> (crun \<Rightarrow> crun) \<Rightarrow> db \<Rightarrow> db \<Rightarrow> bool" where
  "run_txn i F db db' \<longleftrightarrow> updates_run i F db db' \<and> (\<forall>r. view i db = Some r \<longrightarrow> crun_step r (F r))"

lemma run_txn_inv: "db_inv db \<Longrightarrow> run_txn i F db db' \<Longrightarrow> db_inv db'"
  by (rule updates_run_inv[of db i F]) (auto simp: run_txn_def)

lemma moved_txn:
  assumes "db_inv db" "t \<in> set (tasks db)" "t_id t' = t_id t" "t_executionId t' = t_executionId t"
    "ctask_of t' = (ctask_of t)\<lparr>c_status := s\<rparr>"
    "\<And>e. find_execution (t_executionId t) db = Some e \<Longrightarrow> quiet_move (e_status e) (t_status t) s"
  shows "run_txn (t_executionId t) (c_move (t_key t) s) db (moved t t' db)"
proof -
  have "updates_run (t_executionId t) (c_move (t_key t) s) db (moved t t' db)"
    using assms by (intro updates_moved) simp_all
  moreover have "crun_step r (c_move (t_key t) s r)" if v: "view (t_executionId t) db = Some r" for r
  proof -
    obtain r' where r: "view (t_executionId t) db = Some r'" "ctask_of t \<in> set (cr_tasks r')"
      using db_inv_view[OF assms(1,2)] by metis
    then show ?thesis
      using v assms(6) c_step_move[of "ctask_of t" r s] by (auto simp: view_Some)
  qed
  ultimately show ?thesis by (simp add: run_txn_def)
qed

text \<open>The successful and the failed end of a task at work.\<close>

lemma view_step:
  assumes "db_inv db" "t \<in> set (tasks db)" "t_status t \<in> {T_RUNNING, T_WAITING_FOR_APPROVAL}"
    "view (t_executionId t) db = Some r"
  shows "crun_step r (c_succeed (t_key t) (t_dependents t) r)"
    "outcome \<in> {T_FAILED, T_DEAD_LETTER} \<Longrightarrow> crun_step r (c_fail outcome (t_key t) r)"
proof -
  have "ctask_of t \<in> set (cr_tasks r)" using db_inv_view[OF assms(1,2)] assms(4) by (metis option.inject)
  then show "crun_step r (c_succeed (t_key t) (t_dependents t) r)"
    "outcome \<in> {T_FAILED, T_DEAD_LETTER} \<Longrightarrow> crun_step r (c_fail outcome (t_key t) r)"
    using c_step_succeed[of "ctask_of t" r] c_step_fail[of "ctask_of t" r outcome] assms(3) by simp_all
qed

lemma succeeded_txn:
  assumes "db_inv db" "t \<in> set (tasks db)" "t_status t \<in> {T_RUNNING, T_WAITING_FOR_APPROVAL}"
    "t_id t' = t_id t" "t_executionId t' = t_executionId t" "ctask_of t' = (ctask_of t)\<lparr>c_status := T_COMPLETED\<rparr>"
    "executions db1 = executions db" "tasks db1 = tasks (moved t t' db)" "next_id db \<le> next_id db1"
  shows "\<exists>db'. afterTaskSucceeded dp t' now db1 = Inr db'
     \<and> approvals db' = approvals db1 \<and> attempts db' = attempts db1
     \<and> run_txn (t_executionId t) (c_succeed (t_key t) (t_dependents t)) db db'"
proof -
  obtain e where e: "find_execution (t_executionId t) db = Some e"
    using db_okD(3) assms(1,2) unfolding db_inv_def by blast
  have ds: "t_dependents t' = t_dependents t" using assms(6) by (metis ctask.select_convs(3) ctask.surjective ctask.update_convs(4) ctask_of_simps(3))
  have "find_execution (t_executionId t') db1 = Some e"
    using e assms(5) find_execution_cong[OF assms(7)] by simp
  from after_succeeded[OF this, of dp now] obtain db' where
    db': "afterTaskSucceeded dp t' now db1 = Inr db'" "approvals db' = approvals db1" "attempts db' = attempts db1"
    and u: "updates_run (t_executionId t) (\<lambda>r.
         let ts = (if live (cr_status r) then release (t_dependents t) (cr_tasks r) else cr_tasks r);
             ts = (if cr_status r = E_RUNNING then promote_zero (\<lambda>j. j \<in> set (t_dependents t)) ts else ts);
             p = cr_pending r - 1
         in \<lparr>cr_status = (if cr_status r = E_RUNNING \<and> p = 0 then E_COMPLETED else cr_status r),
             cr_pending = p, cr_tasks = ts\<rparr>) db1 db'"
    unfolding assms(5) ds by blast
  have "updates_run (t_executionId t) (c_move (t_key t) T_COMPLETED) db db1"
    by (rule updates_run_other[OF updates_moved[OF assms(1,2) refl assms(4)]]) (use assms in simp_all)
  from updates_run_trans[OF this u]
  have "updates_run (t_executionId t) (c_succeed (t_key t) (t_dependents t)) db db'"
    by (rule updates_run_cong) (simp add: c_succeed_def c_move_def Let_def)
  then have "run_txn (t_executionId t) (c_succeed (t_key t) (t_dependents t)) db db'"
    using view_step(1)[OF assms(1-3)] by (simp add: run_txn_def)
  with db' show ?thesis by blast
qed

lemma failed_txn:
  assumes "db_inv db" "t \<in> set (tasks db)" "t_status t \<in> {T_RUNNING, T_WAITING_FOR_APPROVAL}"
    "outcome \<in> {T_FAILED, T_DEAD_LETTER}" "t_executionId t0 = t_executionId t"
    "t_id t' = t_id t" "t_executionId t' = t_executionId t" "ctask_of t' = (ctask_of t)\<lparr>c_status := outcome\<rparr>"
    "executions db1 = executions db" "tasks db1 = tasks (moved t t' db)" "next_id db \<le> next_id db1"
  shows "\<exists>db'. afterTaskFailedForGood dp t0 out message rt now db1 = Inr db'
     \<and> approvals db' = approvals db1 \<and> attempts db' = attempts db1
     \<and> run_txn (t_executionId t) (c_fail outcome (t_key t)) db db'"
proof -
  obtain e where e: "find_execution (t_executionId t) db = Some e"
    using db_okD(3) assms(1,2) unfolding db_inv_def by blast
  have "find_execution (t_executionId t0) db1 = Some e"
    using e assms(5) find_execution_cong[OF assms(9)] by simp
  from after_failed[OF this, of dp out message rt now] obtain db' where
    db': "afterTaskFailedForGood dp t0 out message rt now db1 = Inr db'"
      "approvals db' = approvals db1" "attempts db' = attempts db1"
    and u: "updates_run (t_executionId t) (\<lambda>r.
         if live (cr_status r)
         then \<lparr>cr_status = E_FAILED,
               cr_pending = cr_pending r - 1 - int (count_where (\<lambda>t. unstarted (c_status t)) (cr_tasks r)),
               cr_tasks = cancel_in unstarted (cr_tasks r)\<rparr>
         else r\<lparr>cr_pending := cr_pending r - 1\<rparr>) db1 db'"
    unfolding assms(5) by blast
  have "updates_run (t_executionId t) (c_move (t_key t) outcome) db db1"
    by (rule updates_run_other[OF updates_moved[OF assms(1,2) refl assms(6)]]) (use assms in simp_all)
  from updates_run_trans[OF this u]
  have "updates_run (t_executionId t) (c_fail outcome (t_key t)) db db'"
    by (rule updates_run_cong) (simp add: c_fail_def c_move_def Let_def)
  then have "run_txn (t_executionId t) (c_fail outcome (t_key t)) db db'"
    using view_step(2)[OF assms(1-3)] assms(4) by (simp add: run_txn_def)
  with db' show ?thesis by blast
qed

subsection \<open>Reports\<close>

text \<open>Whether a report of a worker is current: the task is running under the presented token.\<close>

definition current :: "oid \<Rightarrow> int \<Rightarrow> db \<Rightarrow> task \<Rightarrow> bool" where
  "current tid tok db t \<longleftrightarrow> t \<in> set (tasks db) \<and> t_id t = tid \<and> t_status t = T_RUNNING \<and> t_leaseToken t = tok"

lemma complete_txn_stale:
  assumes "\<nexists>t. current tid tok db t"
  shows "complete_txn dp tid tok out now db = Inr (None, db)"
proof -
  have "transitionTask tid T_RUNNING T_COMPLETED (\<lambda>t. t_leaseToken t = tok) upd db = Inr (False, db)" for upd
    using assms by (intro transitionTask_lost) (auto simp: current_def)
  then show ?thesis by (simp add: complete_txn_def)
qed

lemma complete_txn_current:
  assumes "db_inv db" "current tid tok db t"
  shows "\<exists>db'. complete_txn dp tid tok out now db = Inr (Some (t_executionId t), db')
     \<and> approvals db' = approvals db
     \<and> run_txn (t_executionId t) (c_succeed (t_key t) (t_dependents t)) db db'"
proof -
  let ?upd = "\<lambda>t. t\<lparr>t_output := out, t_completedAt := Some now, t_leaseOwner := None, t_leaseExpiresAt := None\<rparr>"
  let ?t = "(?upd t)\<lparr>t_status := T_COMPLETED\<rparr>"
  have t: "t \<in> set (tasks db)" "t_id t = tid" "t_status t = T_RUNNING" "t_leaseToken t = tok" "db_ok db"
    using assms by (auto simp: current_def db_inv_def)
  have tr: "transitionTask tid T_RUNNING T_COMPLETED (\<lambda>t. t_leaseToken t = tok) ?upd db = Inr (True, moved t ?t db)"
    using transitionTask_won[of T_COMPLETED t db "\<lambda>t. t_leaseToken t = tok" ?upd] t by simp
  have ft: "find_task tid (moved t ?t db) = Some ?t" using find_task_moved[OF t(5,1), of ?t] t(2) by simp
  let ?db = "close_attempt tid (t_attempt ?t)
     (\<lambda>a. a\<lparr>a_status := A_SUCCEEDED, a_finishedAt := Some now, a_durationMs := duration ?t now\<rparr>) (moved t ?t db)"
  have "\<exists>db'. afterTaskSucceeded dp ?t now ?db = Inr db' \<and> approvals db' = approvals ?db \<and> attempts db' = attempts ?db
     \<and> run_txn (t_executionId t) (c_succeed (t_key t) (t_dependents t)) db db'"
    by (rule succeeded_txn[OF assms(1) t(1)]) (simp_all add: t ctask_of_def)
  then obtain db' where "afterTaskSucceeded dp ?t now ?db = Inr db'" "approvals db' = approvals db"
    "run_txn (t_executionId t) (c_succeed (t_key t) (t_dependents t)) db db'" by auto
  then show ?thesis unfolding complete_txn_def tr bind_result_simps split_conv using ft by simp
qed

definition fail_noop :: "fail_result \<times> task option" where
  "fail_noop = (\<lparr>f_applied = False, f_outcome = None, f_delayMs = None\<rparr>, None)"

lemma fail_txn_stale:
  assumes "\<nexists>t. current tid tok db t"
  shows "fail_txn dp tid tok err now db = Inr (fail_noop, db)"
proof -
  have "List.find (\<lambda>t. t_id t = tid \<and> t_status t = T_RUNNING \<and> t_leaseToken t = tok) (tasks db) = None"
    using assms by (auto simp: find_None_iff_all current_def)
  then show ?thesis by (simp add: fail_txn_def fail_noop_def)
qed

text \<open>Which of the three outcomes a failure has.\<close>

definition fail_outcome :: "js_error option \<Rightarrow> task \<Rightarrow> execution \<Rightarrow> task_status" where
  "fail_outcome err t e =
     (if isRetryable err \<and> t_attempt t < t_maxAttempts t \<and> live (e_status e) then T_RETRYING
      else if isRetryable err \<and> \<not> t_attempt t < t_maxAttempts t then T_DEAD_LETTER
      else T_FAILED)"

lemma fail_retry_ok:
  assumes "db_inv db" "t \<in> set (tasks db)" "t_status t = T_RUNNING"
    "find_execution (t_executionId t) db = Some e" "live (e_status e)"
    "executions db1 = executions db" "tasks db1 = tasks db" "next_id db1 = next_id db"
  shows "\<exists>db' d. fail_retry dp t message now db1
       = Inr ((\<lparr>f_applied = True, f_outcome = Some T_RETRYING, f_delayMs = Some d\<rparr>, Some t), db')
     \<and> d = dep_backoff dp (t_attempt t) (t_baseDelayMs t)
     \<and> approvals db' = approvals db1
     \<and> run_txn (t_executionId t) (c_move (t_key t) T_RETRYING) db db'"
proof -
  let ?d = "dep_backoff dp (t_attempt t) (t_baseDelayMs t)"
  let ?upd = "\<lambda>t. t\<lparr>t_error := Some message, t_leaseOwner := None, t_leaseExpiresAt := None, t_retryAt := Some (now + ?d)\<rparr>"
  let ?t = "(?upd t)\<lparr>t_status := T_RETRYING\<rparr>"
  have ok: "db_ok db1" using assms(1,6-8) by (simp add: db_inv_def db_ok_def exec_ids_def task_ids_def)
  have tr: "transitionTask (t_id t) T_RUNNING T_RETRYING (\<lambda>u. t_leaseToken u = t_leaseToken t) ?upd db1
      = Inr (True, moved t ?t db1)"
    using transitionTask_won[of T_RETRYING t db1 "\<lambda>u. t_leaseToken u = t_leaseToken t" ?upd] assms(2,3,7) ok by simp
  have "run_txn (t_executionId t) (c_move (t_key t) T_RETRYING) db (moved t ?t db)"
    by (rule moved_txn[OF assms(1,2)]) (use assms in \<open>simp_all add: ctask_of_def quiet_move_def\<close>)
  then have "run_txn (t_executionId t) (c_move (t_key t) T_RETRYING) db (emit dp ty j pl n (moved t ?t db1))" for ty j pl n
    unfolding run_txn_def using assms(6-8)
    by (auto intro!: updates_run_emit elim!: updates_run_other simp: moved_def)
  then show ?thesis unfolding fail_retry_def Let_def tr by simp
qed

lemma fail_terminal_ok:
  assumes "db_inv db" "t \<in> set (tasks db)" "t_status t = T_RUNNING" "outcome \<in> {T_FAILED, T_DEAD_LETTER}"
    "executions db1 = executions db" "tasks db1 = tasks db" "next_id db1 = next_id db"
  shows "\<exists>db'. fail_terminal dp t outcome message rt now db1
       = Inr ((\<lparr>f_applied = True, f_outcome = Some outcome, f_delayMs = None\<rparr>, None), db')
     \<and> approvals db' = approvals db1
     \<and> run_txn (t_executionId t) (c_fail outcome (t_key t)) db db'"
proof -
  let ?upd = "\<lambda>t. t\<lparr>t_error := Some message, t_completedAt := Some now, t_leaseOwner := None, t_leaseExpiresAt := None\<rparr>"
  let ?t = "(?upd t)\<lparr>t_status := T_FAILED\<rparr>"
  let ?t' = "(?upd t)\<lparr>t_status := outcome\<rparr>"
  have ok: "db_ok db1" using assms(1,5-7) by (simp add: db_inv_def db_ok_def exec_ids_def task_ids_def)
  have t1: "t \<in> set (tasks db1)" using assms(2,6) by simp
  have tr: "transitionTask (t_id t) T_RUNNING T_FAILED (\<lambda>u. t_leaseToken u = t_leaseToken t) ?upd db1
      = Inr (True, moved t ?t db1)"
    using transitionTask_won[of T_FAILED t db1 "\<lambda>u. t_leaseToken u = t_leaseToken t" ?upd] assms(3) t1 ok by simp
  have ok2: "db_ok (moved t ?t db1)"
  proof -
    have "task_ids (moved t ?t db1) = task_ids db1"
      unfolding task_ids_def moved_def by (simp, intro map_update_where) simp
    then show ?thesis using ok by (simp add: db_ok_def exec_ids_def)
  qed
  have t2: "?t \<in> set (tasks (moved t ?t db1))" using t1 by (force simp: moved_def set_update_where)
  have dl: "transitionTask (t_id t) T_FAILED T_DEAD_LETTER (\<lambda>_. True) (\<lambda>t. t) (moved t ?t db1)
      = Inr (True, moved t (?t\<lparr>t_status := T_DEAD_LETTER\<rparr>) db1)"
  proof -
    have "tasks (moved ?t (?t\<lparr>t_status := T_DEAD_LETTER\<rparr>) (moved t ?t db1))
        = tasks (moved t (?t\<lparr>t_status := T_DEAD_LETTER\<rparr>) db1)"
    proof -
      have ne: "t_id ?t = t_id t" "t_status ?t \<noteq> t_status t" using assms(3) by simp_all
      have "u \<noteq> ?t" if "u \<in> set (tasks db1)" for u
        using distinct_map_eqD[OF db_okD(2)[OF ok] that t1] ne by metis
      then show ?thesis by (auto simp: moved_def update_where_def)
    qed
    then have "moved ?t (?t\<lparr>t_status := T_DEAD_LETTER\<rparr>) (moved t ?t db1) = moved t (?t\<lparr>t_status := T_DEAD_LETTER\<rparr>) db1"
      by (simp add: moved_def)
    then show ?thesis
      using transitionTask_won[of T_DEAD_LETTER ?t "moved t ?t db1" "\<lambda>_. True" "\<lambda>t. t"] ok2 t2 by simp
  qed
  have step2: "(if outcome = T_DEAD_LETTER then transitionTask (t_id t) T_FAILED T_DEAD_LETTER (\<lambda>_. True) (\<lambda>t. t) (moved t ?t db1)
      else Inr (True, moved t ?t db1)) = Inr (True, moved t ?t' db1)"
    using assms(4) dl by auto
  have "\<exists>db'. afterTaskFailedForGood dp t outcome message rt now (moved t ?t' db1) = Inr db'
     \<and> approvals db' = approvals (moved t ?t' db1) \<and> attempts db' = attempts (moved t ?t' db1)
     \<and> run_txn (t_executionId t) (c_fail outcome (t_key t)) db db'"
    by (rule failed_txn[OF assms(1,2), of _ _ ?t'])
       (use assms in \<open>simp_all add: ctask_of_def moved_def\<close>)
  then obtain db' where "afterTaskFailedForGood dp t outcome message rt now (moved t ?t' db1) = Inr db'"
    "approvals db' = approvals db1" "run_txn (t_executionId t) (c_fail outcome (t_key t)) db db'" by auto
  then show ?thesis unfolding fail_terminal_def tr bind_result_simps split_conv using step2 by simp
qed

lemma fail_txn_current:
  fixes err :: "js_error option"
  assumes "db_inv db" "current tid tok db t" "find_execution (t_executionId t) db = Some e"
  defines "out \<equiv> fail_outcome err t e"
  shows "\<exists>db'. fail_txn dp tid tok err now db
       = Inr ((\<lparr>f_applied = True, f_outcome = Some out,
                f_delayMs = (if out = T_RETRYING then Some (dep_backoff dp (t_attempt t) (t_baseDelayMs t)) else None)\<rparr>,
               (if out = T_RETRYING then Some t else None)), db')
     \<and> approvals db' = approvals db
     \<and> run_txn (t_executionId t) (if out = T_RETRYING then c_move (t_key t) T_RETRYING else c_fail out (t_key t)) db db'"
proof -
  have t: "t \<in> set (tasks db)" "t_id t = tid" "t_status t = T_RUNNING" "t_leaseToken t = tok" "db_ok db"
    using assms by (auto simp: current_def db_inv_def)
  have fd: "List.find (\<lambda>t. t_id t = tid \<and> t_status t = T_RUNNING \<and> t_leaseToken t = tok) (tasks db) = Some t"
    using find_unique[OF db_okD(2)[OF t(5)] t(1,2), of "\<lambda>t. t_status t = T_RUNNING \<and> t_leaseToken t = tok"] t by simp
  define db1 where "db1 = close_attempt tid (t_attempt t)
     (\<lambda>a. a\<lparr>a_status := (if map_option je_name err = Some ''TimeoutError'' then A_TIMED_OUT else A_FAILED),
            a_finishedAt := Some now, a_durationMs := duration t now,
            a_error := Some (error_message err, isRetryable err)\<rparr>) db"
  have d1: "executions db1 = executions db" "tasks db1 = tasks db" "next_id db1 = next_id db" "approvals db1 = approvals db"
    by (simp_all add: db1_def)
  have fe: "find_execution (t_executionId t) db1 = Some e" using assms(3) find_execution_cong[OF d1(1)] by simp
  have ft: "fail_txn dp tid tok err now db =
      (if isRetryable err \<and> t_attempt t < t_maxAttempts t \<and> live (e_status e)
       then fail_retry dp t (error_message err) now db1
       else fail_terminal dp t (if isRetryable err \<and> \<not> t_attempt t < t_maxAttempts t then T_DEAD_LETTER else T_FAILED)
              (error_message err) (isRetryable err) now db1)"
    unfolding fail_txn_def Let_def fd option.case db1_def[symmetric] fe live_def ..
  show ?thesis
  proof (cases "isRetryable err \<and> t_attempt t < t_maxAttempts t \<and> live (e_status e)")
    case True
    then have out: "out = T_RETRYING" by (simp add: out_def fail_outcome_def)
    show ?thesis
      using fail_retry_ok[OF assms(1) t(1,3) assms(3) _ d1(1-3), of dp "error_message err" now] True d1(4)
      unfolding ft out by auto
  next
    case False
    then have out: "out = (if isRetryable err \<and> \<not> t_attempt t < t_maxAttempts t then T_DEAD_LETTER else T_FAILED)"
      "out \<in> {T_FAILED, T_DEAD_LETTER}" by (auto simp: out_def fail_outcome_def)
    have "fail_txn dp tid tok err now db = fail_terminal dp t out (error_message err) (isRetryable err) now db1"
      using False unfolding ft out(1) by (simp only: if_False)
    then show ?thesis
      using fail_terminal_ok[OF assms(1) t(1,3) out(2) d1(1-3), of dp "error_message err" "isRetryable err" now] d1(4) out(2)
      by auto
  qed
qed

subsection \<open>Claims, hand-over to a human, decisions\<close>

lemma claimTask_cases:
  assumes "db_inv db" "claimTask tid w ms mnow db = Inr (r, db')"
  shows "(r = None \<and> db' = db \<and> (\<forall>t \<in> set (tasks db). t_id t = tid \<longrightarrow> \<not> claimable mnow t))
     \<or> (\<exists>t. t \<in> set (tasks db) \<and> t_id t = tid \<and> claimable mnow t \<and> r = Some (claim_update w ms mnow t)
          \<and> db' = moved t (claim_update w ms mnow t) db
          \<and> run_txn (t_executionId t) (c_move (t_key t) T_RUNNING) db db')"
proof -
  let ?P = "\<lambda>t. t_id t = tid \<and> claimable mnow t"
  have ok: "db_ok db" using assms(1) by (simp add: db_inv_def)
  show ?thesis
  proof (cases "List.find ?P (tasks db)")
    case None
    then have "\<forall>t \<in> set (tasks db). t_id t = tid \<longrightarrow> \<not> claimable mnow t" by (auto simp: find_None_iff_all)
    then show ?thesis using assms(2) by (simp add: claimTask_eq None Let_def)
  next
    case (Some t)
    note t = find_filter_Some[OF Some]
    have P: "?P u \<longleftrightarrow> u = t" if "u \<in> set (tasks db)" for u
      using that t distinct_map_eqD[OF db_okD(2)[OF ok]] by auto
    have eq: "db\<lparr>tasks := update_where ?P (claim_update w ms mnow) (tasks db)\<rparr> = moved t (claim_update w ms mnow t) db"
      unfolding moved_def using P by (auto intro!: update_where_cong arg_cong[of _ _ "\<lambda>ts. db\<lparr>tasks := ts\<rparr>"])
    have "run_txn (t_executionId t) (c_move (t_key t) T_RUNNING) db (moved t (claim_update w ms mnow t) db)"
      using t by (intro moved_txn[OF assms(1)])
        (auto simp: claim_update_def ctask_of_def quiet_move_def claimable_def)
    then show ?thesis using assms(2) t eq by (auto simp: claimTask_eq Some Let_def)
  qed
qed

lemma renew_updates: "updates_run i (\<lambda>r. r) db (snd (renewTaskLease tid tok ms now db))"
proof -
  have "updates_run i (\<lambda>r. r\<lparr>cr_tasks := update_where (\<lambda>c. False) (\<lambda>c. c) (cr_tasks r)\<rparr>) db
     (snd (renewTaskLease tid tok ms now db))"
  proof -
    let ?f = "\<lambda>t. t\<lparr>t_leaseExpiresAt := Some (now + ms)\<rparr>"
    let ?P = "\<lambda>t. t_id t = tid \<and> t_status t = T_RUNNING \<and> t_leaseToken t = tok"
    have "updates_run i (\<lambda>r. r\<lparr>cr_tasks := update_where (\<lambda>c. True) (\<lambda>c. c) (cr_tasks r)\<rparr>) db
        (db\<lparr>tasks := update_where (\<lambda>_. True) (\<lambda>t. if ?P t then ?f t else t) (tasks db)\<rparr>)"
      by (rule updates_run_tasks) (auto simp: ctask_of_def)
    then show ?thesis by (simp add: renewTaskLease_def Let_def update_where_def)
  qed
  then show ?thesis by (rule updates_run_cong) (simp add: update_where_def)
qed

lemma suspend_cases:
  assumes "db_inv db" "suspendForApproval dp tid tok rq now db = Inr (b, db')"
  shows "(\<not> b \<and> db' = db)
     \<or> (b \<and> (\<exists>t. current tid tok db t
          \<and> (\<exists>p. approvals db' = approvals db @ [p] \<and> p_status p = P_PENDING \<and> p_taskId p = tid
                \<and> p_id p = next_id db \<and> p_executionId p = t_executionId t)
          \<and> (\<forall>p \<in> set (approvals db). p_taskId p \<noteq> tid)
          \<and> run_txn (t_executionId t) (c_move (t_key t) T_WAITING_FOR_APPROVAL) db db'))"
proof (cases "\<exists>t. current tid tok db t")
  case False
  have "transitionTask tid T_RUNNING T_WAITING_FOR_APPROVAL (\<lambda>t. t_leaseToken t = tok) upd db = Inr (False, db)" for upd
    using False by (intro transitionTask_lost) (auto simp: current_def)
  then show ?thesis using assms(2) by (auto simp: suspendForApproval_def split: if_splits)
next
  case True
  then obtain t where cur: "current tid tok db t" by blast
  let ?upd = "\<lambda>t. t\<lparr>t_leaseOwner := None, t_leaseExpiresAt := None\<rparr>"
  let ?t = "(?upd t)\<lparr>t_status := T_WAITING_FOR_APPROVAL\<rparr>"
  have t: "t \<in> set (tasks db)" "t_id t = tid" "t_status t = T_RUNNING" "t_leaseToken t = tok" "db_ok db"
    using assms cur by (auto simp: current_def db_inv_def)
  have tr: "transitionTask tid T_RUNNING T_WAITING_FOR_APPROVAL (\<lambda>t. t_leaseToken t = tok) ?upd db = Inr (True, moved t ?t db)"
    using transitionTask_won[of T_WAITING_FOR_APPROVAL t db "\<lambda>t. t_leaseToken t = tok" ?upd] t by simp
  have ft: "find_task tid (moved t ?t db) = Some ?t" using find_task_moved[OF t(5,1), of ?t] t(2) by simp
  have m: "run_txn (t_executionId t) (c_move (t_key t) T_WAITING_FOR_APPROVAL) db (moved t ?t db)"
    by (rule moved_txn[OF assms(1) t(1)]) (use t in \<open>simp_all add: ctask_of_def quiet_move_def\<close>)
  have other: "run_txn (t_executionId t) (c_move (t_key t) T_WAITING_FOR_APPROVAL) db db''"
    if "executions db'' = executions (moved t ?t db)" "tasks db'' = tasks (moved t ?t db)" "next_id db \<le> next_id db''" for db''
    using m that unfolding run_txn_def by (auto elim: updates_run_other)
  have res: "b \<and> (\<exists>p. approvals db' = approvals db @ [p] \<and> p_status p = P_PENDING \<and> p_taskId p = tid \<and> p_id p = next_id db
        \<and> p_executionId p = t_executionId t)
      \<and> (\<forall>p \<in> set (approvals db). p_taskId p \<noteq> tid)
      \<and> executions db' = executions (moved t ?t db) \<and> tasks db' = tasks (moved t ?t db) \<and> next_id db \<le> next_id db'"
    using assms(2) unfolding suspendForApproval_def tr bind_result_simps split_conv
    using ft t(2) by (auto simp: Let_def emit_def split: if_splits)
  then show ?thesis using cur other[of db'] by blast
qed

lemma resolve_txn_cases:
  assumes "db_inv db" "resolve_txn dp aid decision by cm scope now db = Inr ((out, eid), db')"
    "decision \<in> {P_APPROVED, P_REJECTED, P_EXPIRED}"
  shows "(out = None \<and> eid = None \<and> db' = db)
     \<or> (out = Some decision \<and> (\<exists>p t. p \<in> set (approvals db) \<and> p_id p = aid \<and> p_status p = P_PENDING
          \<and> t \<in> set (tasks db) \<and> t_id t = p_taskId p \<and> t_status t = T_WAITING_FOR_APPROVAL
          \<and> eid = Some (t_executionId t)
          \<and> approvals db' = update_where (\<lambda>p. p_id p = aid \<and> p_status p = P_PENDING \<and> scope p)
               (\<lambda>p. p\<lparr>p_status := decision, p_decidedBy := by, p_decidedAt := Some now, p_comment := cm\<rparr>) (approvals db)
          \<and> run_txn (t_executionId t)
              (if decision = P_APPROVED then c_succeed (t_key t) (t_dependents t) else c_fail T_FAILED (t_key t)) db db'))"
proof -
  let ?P = "\<lambda>p. p_id p = aid \<and> p_status p = P_PENDING \<and> scope p"
  show ?thesis
  proof (cases "List.find ?P (approvals db)")
    case None
    then show ?thesis using assms(2) by (simp add: resolve_txn_def)
  next
    case (Some p)
    note p = find_filter_Some[OF Some]
    define db1 where "db1 = db\<lparr>approvals := update_where ?P
       (\<lambda>p. p\<lparr>p_status := decision, p_decidedBy := by, p_decidedAt := Some now, p_comment := cm\<rparr>) (approvals db)\<rparr>"
    have d1: "executions db1 = executions db" "tasks db1 = tasks db" "next_id db1 = next_id db" by (simp_all add: db1_def)
    have ok1: "db_ok db1" using assms(1) d1 by (simp add: db_inv_def db_ok_def exec_ids_def task_ids_def)
    define s where "s = (if decision = P_APPROVED then T_COMPLETED else T_FAILED)"
    define upd where "upd = (\<lambda>t::task. if decision = P_APPROVED
       then t\<lparr>t_output := JObj [(''approved'', JBool True), (''decidedBy'', json_opt JId by),
                (''comment'', json_opt JStr cm), (''decidedAt'', JDate now)], t_completedAt := Some now\<rparr>
       else t\<lparr>t_error := Some (decision_error decision cm), t_completedAt := Some now\<rparr>)"
    have legal: "s \<in> set (TASK_TRANSITIONS T_WAITING_FOR_APPROVAL)" by (simp add: s_def)
    note eq = assms(2)[unfolded resolve_txn_def Let_def Some option.case db1_def[symmetric] s_def[symmetric] upd_def[symmetric]]
    have "\<exists>t \<in> set (tasks db1). True \<and> t_id t = p_taskId p \<and> t_status t = T_WAITING_FOR_APPROVAL"
    proof (rule ccontr)
      assume "\<not> ?thesis"
      then have "transitionTask (p_taskId p) T_WAITING_FOR_APPROVAL s (\<lambda>_. True) upd db1 = Inr (False, db1)"
        by (intro transitionTask_lost[OF legal]) auto
      with eq show False by simp
    qed
    then obtain t where t: "t \<in> set (tasks db)" "t_id t = p_taskId p" "t_status t = T_WAITING_FOR_APPROVAL"
      using d1(2) by auto
    let ?t = "(upd t)\<lparr>t_status := s\<rparr>"
    have tr: "transitionTask (p_taskId p) T_WAITING_FOR_APPROVAL s (\<lambda>_. True) upd db1 = Inr (True, moved t ?t db1)"
      using transitionTask_won[of s t db1 "\<lambda>_. True" upd] t d1(2) ok1 legal by (simp del: TASK_TRANSITIONS.simps)
    have same: "t_id ?t = t_id t" "t_executionId ?t = t_executionId t" "ctask_of ?t = (ctask_of t)\<lparr>c_status := s\<rparr>"
      by (auto simp: upd_def ctask_of_def)
    have ft: "find_task (p_taskId p) (moved t ?t db1) = Some ?t"
      using find_task_moved[OF ok1, of t ?t] t d1(2) same(1) by simp
    define after where "after = (if decision = P_APPROVED then afterTaskSucceeded dp ?t now (moved t ?t db1)
       else afterTaskFailedForGood dp ?t T_FAILED (case t_error ?t of None \<Rightarrow> ''null'' | Some m \<Rightarrow> m) False now (moved t ?t db1))"
    let ?F = "if decision = P_APPROVED then c_succeed (t_key t) (t_dependents t) else c_fail T_FAILED (t_key t)"
    have "\<exists>db2. after = Inr db2 \<and> approvals db2 = approvals db1 \<and> run_txn (t_executionId t) ?F db db2"
    proof (cases "decision = P_APPROVED")
      case True
      have "\<exists>db'. afterTaskSucceeded dp ?t now (moved t ?t db1) = Inr db' \<and> approvals db' = approvals (moved t ?t db1)
          \<and> attempts db' = attempts (moved t ?t db1)
          \<and> run_txn (t_executionId t) (c_succeed (t_key t) (t_dependents t)) db db'"
        by (rule succeeded_txn[OF assms(1) t(1)]) (use True d1 same t in \<open>simp_all add: moved_def s_def\<close>)
      then show ?thesis using True by (auto simp: after_def)
    next
      case False
      have "\<exists>db'. afterTaskFailedForGood dp ?t T_FAILED (case t_error ?t of None \<Rightarrow> ''null'' | Some m \<Rightarrow> m) False now
            (moved t ?t db1) = Inr db' \<and> approvals db' = approvals (moved t ?t db1)
          \<and> attempts db' = attempts (moved t ?t db1)
          \<and> run_txn (t_executionId t) (c_fail T_FAILED (t_key t)) db db'"
        by (rule failed_txn[OF assms(1) t(1), of _ _ ?t]) (use False d1 same t in \<open>simp_all add: moved_def s_def\<close>)
      then show ?thesis using False by (auto simp: after_def)
    qed
    then obtain db2 where db2: "after = Inr db2" "approvals db2 = approvals db1" "run_txn (t_executionId t) ?F db db2"
      by blast
    have "out = Some decision" "eid = Some (t_executionId t)"
      and db': "\<exists>ty j pl. db' = emit dp ty j pl now db2"
      using eq[unfolded tr bind_result_simps split_conv ft option.case after_def[symmetric] db2(1)] same(2) by auto
    moreover have "run_txn (t_executionId t) ?F db db'" using db' db2(3) by (auto simp: run_txn_def intro: updates_run_emit)
    moreover have "approvals db' = approvals db1" using db' db2(2) by auto
    then have "approvals db' = update_where ?P
       (\<lambda>p. p\<lparr>p_status := decision, p_decidedBy := by, p_decidedAt := Some now, p_comment := cm\<rparr>) (approvals db)"
      by (simp add: db1_def)
    ultimately show ?thesis using p t by blast
  qed
qed

end
