(* ===== verification/Wf_Engine_Steps.thy ===== *)
theory Wf_Engine_Steps
  imports Wf_Engine_Db
begin

text \<open>
  The remaining transactions of the engine on runs (pause, resume, cancel, dispatch, start), and
  the engine as a transition system on databases: every process interleaves the atomic steps of
  \<open>src/workflow/engine.js\<close> freely. The system keeps the database invariant and simulates the run
  specification for each of its runs.
\<close>

section \<open>Run control\<close>

lemma set_execution_status_none:
  "\<not> (\<exists>e \<in> set (executions db). e_id e = i \<and> e_status e = s) \<Longrightarrow> set_execution_status i s upd db = db"
  unfolding set_execution_status_def by (subst update_where_False) auto

lemma find_append:
  "List.find P (xs @ ys) = (case List.find P xs of None \<Rightarrow> List.find P ys | Some x \<Rightarrow> Some x)"
  by (induction xs) auto

lemma find_execution_eq:
  assumes "db_ok db" "e \<in> set (executions db)"
  shows "find_execution (e_id e) db = Some e"
  unfolding find_execution_def
  using find_unique[OF db_okD(1)[OF assms(1)] assms(2), of "e_id e" "\<lambda>_. True"] by simp

lemma find_status:
  assumes "db_ok db"
  shows "List.find (\<lambda>e. e_id e = i \<and> S (e_status e)) (executions db)
     = (case find_execution i db of Some e \<Rightarrow> if S (e_status e) then Some e else None | None \<Rightarrow> None)"
proof (cases "find_execution i db")
  case None
  then have "List.find (\<lambda>e. e_id e = i \<and> S (e_status e)) (executions db) = None"
    by (auto simp: find_execution_def find_None_iff_all)
  then show ?thesis using None by simp
next
  case (Some e)
  note e = find_execution_Some[OF Some]
  show ?thesis
  proof (cases "S (e_status e)")
    case True
    then show ?thesis using Some e find_unique[OF db_okD(1)[OF assms], of e i "\<lambda>e. S (e_status e)"] by simp
  next
    case False
    then have "List.find (\<lambda>e. e_id e = i \<and> S (e_status e)) (executions db) = None"
      using e distinct_map_eqD[OF db_okD(1)[OF assms]] by (auto simp: find_None_iff_all)
    then show ?thesis using False Some by simp
  qed
qed

lemma pause_cases:
  assumes "db_inv db"
  shows "(\<exists>e. find_execution i db = Some e \<and> e_status e = E_RUNNING
            \<and> (\<exists>db'. pauseExecution dp i now db = Inr (True, db') \<and> approvals db' = approvals db
                   \<and> run_txn i (\<lambda>r. r\<lparr>cr_status := E_PAUSED\<rparr>) db db'))
     \<or> (map_option e_status (find_execution i db) \<noteq> Some E_RUNNING \<and> pauseExecution dp i now db = Inr (False, db))"
proof -
  let ?upd = "\<lambda>e. e\<lparr>e_status := E_PAUSED\<rparr>"
  have ok: "db_ok db" using assms by (simp add: db_inv_def)
  have cnt: "count_where (\<lambda>e. e_id e = i \<and> e_status e = E_RUNNING) (executions db)
      = (if \<exists>e \<in> set (executions db). e_id e = i \<and> e_status e = E_RUNNING then 1 else 0)"
    by (rule count_where_unique[OF db_okD(1)[OF ok]]) simp
  show ?thesis
  proof (cases "\<exists>e \<in> set (executions db). e_id e = i \<and> e_status e = E_RUNNING")
    case True
    then obtain e where e: "find_execution i db = Some e" "e_status e = E_RUNNING" using find_execution_eq[OF ok] by blast
    have "updates_run i (\<lambda>r. if cr_status r = E_RUNNING then r\<lparr>cr_status := E_PAUSED, cr_pending := cr_pending r - 0\<rparr> else r)
        db (set_execution_status i E_RUNNING ?upd db)"
      by (rule updates_execution_status) simp_all
    then have "updates_run i (\<lambda>r. r\<lparr>cr_status := E_PAUSED\<rparr>) db (set_execution_status i E_RUNNING ?upd db)"
      by (rule updates_run_cong) (use e in \<open>auto simp: view_Some\<close>)
    moreover have "cr_status r = E_RUNNING" if "view i db = Some r" for r using that e by (auto simp: view_Some)
    ultimately have "run_txn i (\<lambda>r. r\<lparr>cr_status := E_PAUSED\<rparr>) db
        (emit dp ''execution.paused'' i [] now (set_execution_status i E_RUNNING ?upd db))"
      by (auto simp: run_txn_def intro: updates_run_emit c_step_pause)
    then show ?thesis
      using True e cnt by (auto simp: pauseExecution_def set_execution_status_def simp del: execution_name.simps)
  next
    case False
    then have "map_option e_status (find_execution i db) \<noteq> Some E_RUNNING" by (auto dest: find_execution_Some)
    then show ?thesis
      using False cnt set_execution_status_none[OF False, of ?upd]
      by (auto simp: pauseExecution_def simp del: execution_name.simps)
  qed
qed

lemma resume_txn_cases:
  assumes "db_inv db"
  shows "(\<exists>e. find_execution i db = Some e \<and> e_status e = E_PAUSED
            \<and> (\<exists>db'. resume_txn dp i now db = Inr (True, db') \<and> approvals db' = approvals db
                   \<and> run_txn i c_resume db db'))
     \<or> (map_option e_status (find_execution i db) \<noteq> Some E_PAUSED \<and> resume_txn dp i now db = Inr (False, db))"
proof -
  have ok: "db_ok db" using assms by (simp add: db_inv_def)
  note fs = find_status[OF ok, of i "\<lambda>s. s = E_PAUSED"]
  show ?thesis
  proof (cases "map_option e_status (find_execution i db) = Some E_PAUSED")
    case True
    then obtain e where e: "find_execution i db = Some e" "e_status e = E_PAUSED" by auto
    let ?u1 = "\<lambda>e. e\<lparr>e_status := E_RUNNING\<rparr>" and ?u2 = "\<lambda>e. e\<lparr>e_status := E_COMPLETED, e_completedAt := Some now\<rparr>"
    let ?F1 = "\<lambda>r. if cr_status r = E_PAUSED then r\<lparr>cr_status := E_RUNNING, cr_pending := cr_pending r - 0\<rparr> else r"
    let ?F2 = "\<lambda>r. r\<lparr>cr_tasks := promote_zero (\<lambda>_. True) (cr_tasks r)\<rparr>"
    let ?F3 = "\<lambda>r. if cr_status r = E_RUNNING then r\<lparr>cr_status := E_COMPLETED, cr_pending := cr_pending r - 0\<rparr> else r"
    define db1 where "db1 = promote_ready i now (emit dp ''execution.resumed'' i [] now (set_execution_status i E_PAUSED ?u1 db))"
    define db2 where "db2 = (if e_pendingTasks e = 0
       then emit dp ''execution.completed'' i [] now (set_execution_status i E_RUNNING ?u2 db1) else db1)"
    have "updates_run i ?F1 db (set_execution_status i E_PAUSED ?u1 db)"
      by (rule updates_execution_status) simp_all
    then have u1: "updates_run i (\<lambda>r. ?F2 (?F1 r)) db db1"
      unfolding db1_def by (rule updates_run_trans[OF updates_run_emit updates_promote_ready])
    have "updates_run i (\<lambda>r. if e_pendingTasks e = 0 then ?F3 (?F2 (?F1 r)) else ?F2 (?F1 r)) db db2"
      unfolding db2_def
      by (rule updates_run_if[OF updates_run_emit[OF updates_run_trans[OF u1 updates_execution_status]] u1]) simp_all
    then have "updates_run i c_resume db db2"
      by (rule updates_run_cong) (use e in \<open>auto simp: view_Some c_resume_def\<close>)
    moreover have "cr_status r = E_PAUSED" if "view i db = Some r" for r using that e by (auto simp: view_Some)
    ultimately have "run_txn i c_resume db db2" by (auto simp: run_txn_def intro: c_step_resume)
    moreover have "resume_txn dp i now db = Inr (True, db2)"
      using e by (auto simp: resume_txn_def fs Let_def db2_def db1_def simp del: execution_name.simps)
    moreover have "approvals db2 = approvals db"
      by (simp add: db2_def db1_def promote_ready_def set_execution_status_def)
    ultimately show ?thesis using e by blast
  next
    case False
    then have "List.find (\<lambda>e. e_id e = i \<and> e_status e = E_PAUSED) (executions db) = None"
      unfolding fs by (auto split: option.splits)
    then show ?thesis using False by (simp add: resume_txn_def del: execution_name.simps)
  qed
qed

lemma cancel_cases:
  assumes "db_inv db"
  shows "(\<exists>e. find_execution i db = Some e \<and> live (e_status e)
            \<and> (\<exists>db'. cancelExecution dp i now db = Inr (True, db') \<and> run_txn i c_cancel db db'
                 \<and> approvals db' = (if dep_approvals dp
                      then update_where (\<lambda>p. p_executionId p = i \<and> p_status p = P_PENDING)
                             (\<lambda>p. p\<lparr>p_status := P_CANCELLED, p_decidedAt := Some now\<rparr>) (approvals db)
                      else approvals db)))
     \<or> (\<not> (\<exists>e. find_execution i db = Some e \<and> live (e_status e)) \<and> cancelExecution dp i now db = Inr (False, db))"
proof -
  have ok: "db_ok db" using assms by (simp add: db_inv_def)
  have S: "(e_status e \<in> {E_RUNNING, E_PAUSED}) = live (e_status e)" for e by (simp add: live_def)
  note fs = find_status[OF ok, of i live]
  show ?thesis
  proof (cases "\<exists>e. find_execution i db = Some e \<and> live (e_status e)")
    case True
    then obtain e where e: "find_execution i db = Some e" "live (e_status e)" by auto
    let ?ut = "\<lambda>t. t\<lparr>t_completedAt := Some now, t_leaseOwner := None, t_leaseExpiresAt := None\<rparr>"
    define c where "c = cancel_tasks unfinished i ?ut db"
    let ?ue = "\<lambda>e. e\<lparr>e_status := E_CANCELLED, e_completedAt := Some now, e_error := Some ''Cancelled by user'',
                    e_pendingTasks := e_pendingTasks e - int (fst c)\<rparr>"
    define db1 where "db1 = set_execution_status i (e_status e) ?ue (snd c)"
    define db2 where "db2 = (if dep_approvals dp then db1\<lparr>approvals := update_where
        (\<lambda>p. p_executionId p = i \<and> p_status p = P_PENDING)
        (\<lambda>p. p\<lparr>p_status := P_CANCELLED, p_decidedAt := Some now\<rparr>) (approvals db1)\<rparr> else db1)"
    have n: "fst c = count_where (\<lambda>t. unfinished (c_status t)) (ctasks i db)"
      unfolding c_def by (subst updates_cancel_tasks(2)) (simp_all add: ctask_of_def)
    have "updates_run i (\<lambda>r. r\<lparr>cr_tasks := cancel_in unfinished (cr_tasks r)\<rparr>) db (snd c)"
      unfolding c_def by (rule updates_cancel_tasks(1)) (simp add: ctask_of_def)
    from updates_run_trans[OF this updates_execution_status[of ?ue E_CANCELLED "int (fst c)" i "e_status e" "snd c"]]
    have "updates_run i (\<lambda>r. if cr_status r = e_status e
        then r\<lparr>cr_status := E_CANCELLED, cr_pending := cr_pending r - int (fst c), cr_tasks := cancel_in unfinished (cr_tasks r)\<rparr>
        else r\<lparr>cr_tasks := cancel_in unfinished (cr_tasks r)\<rparr>) db db1"
      unfolding db1_def by (rule updates_run_cong) simp_all
    then have "updates_run i c_cancel db db1"
      by (rule updates_run_cong) (use e n in \<open>auto simp: view_Some c_cancel_def\<close>)
    then have "updates_run i c_cancel db db2" by (rule updates_run_other) (simp_all add: db2_def)
    moreover have "live (cr_status r)" if "view i db = Some r" for r using that e by (auto simp: view_Some)
    ultimately have txn: "run_txn i c_cancel db (emit dp ty j pl now db2)" for ty j pl
      by (auto simp: run_txn_def intro: updates_run_emit c_step_cancel)
    have "E_CANCELLED \<in> set (EXECUTION_TRANSITIONS (e_status e))" using e(2) by (auto simp: live_def)
    then have "cancelExecution dp i now db = Inr (True, emit dp ''execution.cancelled'' i
        [(''cancelledTasks'', JNum (of_nat (fst c)))] now db2)"
      unfolding cancelExecution_def S fs using e
      by (simp add: split_beta Let_def c_def[symmetric] db1_def[symmetric] db2_def del: execution_name.simps EXECUTION_TRANSITIONS.simps)
    moreover have "approvals db1 = approvals db" by (simp add: db1_def set_execution_status_def c_def cancel_tasks_def Let_def)
    ultimately show ?thesis using e txn by (auto simp: db2_def)
  next
    case False
    then have "List.find (\<lambda>e. e_id e = i \<and> live (e_status e)) (executions db) = None"
      unfolding fs by (auto split: option.splits)
    then have "cancelExecution dp i now db = Inr (False, db)" unfolding cancelExecution_def S by simp
    then show ?thesis using False by simp
  qed
qed

section \<open>Dispatch\<close>

lemma dispatchTask_cases:
  assumes "db_inv db"
  shows "(\<exists>t'. t' \<in> set (tasks db) \<and> t_id t' = t_id t \<and> t_status t' = T_READY
       \<and> (\<exists>db'. dispatchTask dp now t (db, q) = Inr (True, db', snd (enqueueSafely dp t q))
              \<and> approvals db' = approvals db \<and> db' = moved t' (t'\<lparr>t_queuedAt := Some now, t_status := T_QUEUED\<rparr>) db
              \<and> run_txn (t_executionId t') (c_move (t_key t') T_QUEUED) db db'))
     \<or> (\<not> (\<exists>t' \<in> set (tasks db). t_id t' = t_id t \<and> t_status t' = T_READY)
         \<and> dispatchTask dp now t (db, q) = Inr (False, db, q))"
proof (cases "\<exists>t' \<in> set (tasks db). t_id t' = t_id t \<and> t_status t' = T_READY")
  case True
  then obtain t' where t': "t' \<in> set (tasks db)" "t_id t' = t_id t" "t_status t' = T_READY" by blast
  let ?upd = "\<lambda>t. t\<lparr>t_queuedAt := Some now\<rparr>" and ?t = "t'\<lparr>t_queuedAt := Some now, t_status := T_QUEUED\<rparr>"
  have tr: "transitionTask (t_id t) T_READY T_QUEUED (\<lambda>_. True) ?upd db = Inr (True, moved t' ?t db)"
    using transitionTask_won[of T_QUEUED t' db "\<lambda>_. True" ?upd] t' assms by (simp add: db_inv_def)
  have "run_txn (t_executionId t') (c_move (t_key t') T_QUEUED) db (moved t' ?t db)"
    by (rule moved_txn[OF assms t'(1)]) (use t' in \<open>simp_all add: ctask_of_def quiet_move_def\<close>)
  then show ?thesis using tr t' by (auto simp: dispatchTask_def)
next
  case False
  have "transitionTask (t_id t) T_READY T_QUEUED (\<lambda>_. True) upd db = Inr (False, db)" for upd
    using False by (intro transitionTask_lost) auto
  then show ?thesis using False by (simp add: dispatchTask_def)
qed

section \<open>Starting a run\<close>

lemma topological_acyclic:
  assumes "topological D {} ord" "\<And>k. k \<notin> set ord \<Longrightarrow> D k = []"
  shows "acyclic {(d, k). d \<in> set (D k)}"
proof (rule wf_acyclic, rule wf_subset[OF wf_measure])
  let ?idx = "\<lambda>k. length (takeWhile (\<lambda>x. x \<noteq> k) ord)"
  show "{(d, k). d \<in> set (D k)} \<subseteq> measure ?idx"
  proof clarify
    fix d k assume d: "d \<in> set (D k)"
    then have "k \<in> set ord" using assms(2) by fastforce
    then obtain ys zs where o: "ord = ys @ k # zs" "k \<notin> set ys" by (meson split_list_first)
    then have "d \<in> set ys" using topological_position[of D "{}" ys k zs] assms(1) d by auto
    then obtain us vs where "ys = us @ d # vs" "d \<notin> set us" by (meson split_list_first)
    then have "?idx d < length ys" unfolding o(1) by (auto simp: takeWhile_append)
    moreover have "takeWhile (\<lambda>x. x \<noteq> k) ord = ys" using o by (auto simp: takeWhile_append)
    ultimately show "(d, k) \<in> measure ?idx" by simp
  qed
qed

text \<open>The graph of a workflow that passed validation.\<close>

definition def_graph :: "task_def list \<Rightarrow> graph" where
  "def_graph ds = map_of (map (\<lambda>d. (d_key d, deps d)) ds)"

lemma deps_in_def_graph: "deps_in (def_graph ds) k = set (deps_of ds k)"
  by (simp add: deps_in_def def_graph_def deps_of_def split: option.split)

lemma def_graph_wf:
  assumes "validateDag ds = Inr c" "valid c"
  shows "graph_wf (def_graph ds)"
proof -
  obtain m where v: "graph_ok ds" "kahn_inv ds m [] (levels c) (order c)" "set (order c) = keys_of ds"
    using valid_result[OF assms] .
  have top: "topological (deps_of ds) {} (order c)" using v(2) by (simp add: kahn_inv_def)
  have "acyclic {(d, k). d \<in> set (deps_of ds k)}"
    by (rule topological_acyclic[OF top]) (simp add: v(3) deps_of_unknown)
  moreover have "set (deps_of ds k) \<subseteq> keys_of ds" for k
    using v(1) deps_of_task[of ds] deps_of_unknown[of k ds]
    by (cases "k \<in> keys_of ds") (force simp: graph_ok_def)+
  moreover have "dom (def_graph ds) = keys_of ds"
    by (simp add: def_graph_def dom_map_of_conv_image_fst image_image)
  ultimately show ?thesis by (simp add: graph_wf_def deps_in_def_graph)
qed

text \<open>The documents a run starts with.\<close>

definition init_ctask :: "task_def list \<Rightarrow> task_def \<Rightarrow> ctask" where
  "init_ctask ds d = \<lparr>c_key = d_key d, c_deps = deps d, c_dependents = children_of ds (d_key d),
     c_status = (if deps d = [] then T_READY else T_PENDING), c_remaining = int (length (deps d))\<rparr>"

definition init_crun :: "task_def list \<Rightarrow> crun" where
  "init_crun ds = \<lparr>cr_status = E_RUNNING, cr_pending = int (length ds), cr_tasks = map (init_ctask ds) ds\<rparr>"

lemma gmap_init: "gmap (map (init_ctask ds) ds) = def_graph ds"
  by (simp add: gmap_def def_graph_def init_ctask_def comp_def)

lemma spec_init:
  assumes "distinct (map d_key ds)"
  shows "spec_run (init_crun ds) = run_init (def_graph ds)"
proof -
  have "map_of (map (\<lambda>d. (d_key d, f (deps d))) ds) k = map_option f (def_graph ds k)" for f :: "key list \<Rightarrow> task_status" and k
    unfolding def_graph_def by (induction ds) auto
  from this[of "\<lambda>xs. if xs = [] then T_READY else T_PENDING"] show ?thesis
    by (auto simp: spec_run_def run_init_def init_crun_def smap_def init_ctask_def comp_def)
qed

lemma init_crun_inv:
  assumes "validateDag ds = Inr c" "valid c" "ds \<noteq> []"
  shows "crun_inv (init_crun ds)"
proof -
  obtain m where g: "graph_ok ds" using valid_result[OF assms(1,2)] by metis
  note d = graph_okD(1)[OF g]
  have "links_ok (map links (map (init_ctask ds) ds))"
  proof -
    have "d_key b \<in> set (children_of ds (d_key a)) \<longleftrightarrow> d_key a \<in> set (deps b)" if "b \<in> set ds" for a b
      using set_children_of[OF g] that deps_of_task[OF d that] by simp
    then show ?thesis
      using g by (auto simp: links_ok_def links_def init_ctask_def graph_ok_def comp_def)
  qed
  moreover have "count_where (\<lambda>t. unfinished (c_status t)) (map (init_ctask ds) xs) = length xs" for xs
    by (induction xs) (auto simp: init_ctask_def)
  moreover have "c_remaining t = int (open_deps (smap (map (init_ctask ds) ds)) (c_deps t))"
    if "t \<in> set (map (init_ctask ds) ds)" for t
  proof -
    have "s \<noteq> T_COMPLETED" if "smap (map (init_ctask ds) ds) k = Some s" for k s
      using that by (rule smap_SomeE) (auto simp: init_ctask_def split: if_splits)
    then have "open_deps (smap (map (init_ctask ds) ds)) ks = length ks" for ks
      unfolding open_deps_def by (metis (mono_tags, lifting) filter_True)
    then show ?thesis using that by (auto simp: init_ctask_def)
  qed
  moreover have "run_inv (gmap (cr_tasks (init_crun ds))) (spec_run (init_crun ds))"
  proof -
    have "dom (def_graph ds) \<noteq> {}" using assms(3) by (simp add: def_graph_def dom_map_of_conv_image_fst)
    then show ?thesis using run_inv_init[OF def_graph_wf[OF assms(1,2)]]
      unfolding spec_init[OF d] by (simp add: init_crun_def gmap_init)
  qed
  ultimately show ?thesis by (simp add: crun_inv_def counters_ok_def init_crun_def)
qed

lemma map_enumerate:
  "map (\<lambda>(n, x). f n) (enumerate n xs) = map f [n..<n + length xs]"
  "(\<And>x. x \<in> set xs \<Longrightarrow> h x = g x) \<Longrightarrow> map (\<lambda>(n, x). h x) (enumerate n xs) = map g xs"
proof -
  show "map (\<lambda>(n, x). f n) (enumerate n xs) = map f [n..<n + length xs]"
    by (simp add: map_fst_enumerate[symmetric] split_beta comp_def del: map_fst_enumerate)
  show "map (\<lambda>(n, x). h x) (enumerate n xs) = map g xs" if "\<And>x. x \<in> set xs \<Longrightarrow> h x = g x"
    using that by (induction xs arbitrary: n) (auto simp: enumerate_simps)
qed

lemma new_tasks_map:
  "map g (new_tasks wfl ch now i) = map (\<lambda>(n, d). g (new_task wfl ch now i n d)) (enumerate (i + 1) (w_tasks wfl))"
  by (simp add: new_tasks_def comp_def split_beta)

lemma new_tasks_ids:
  "map (\<lambda>t. (t_id t, t_executionId t)) (new_tasks wfl ch now i) = map (\<lambda>n. (n, i)) [i + 1..<i + 1 + length (w_tasks wfl)]"
  unfolding new_tasks_map map_enumerate(1)[symmetric] by (simp add: new_task_def Let_def)

lemma new_tasks_ctasks:
  assumes "\<forall>d \<in> keys_of (w_tasks wfl). map_of ch d = Some (children_of (w_tasks wfl) d)"
  shows "map ctask_of (new_tasks wfl ch now i) = map (init_ctask (w_tasks wfl)) (w_tasks wfl)"
proof -
  let ?h = "\<lambda>d. ctask_of (new_task wfl ch now i 0 d)"
  have "map ctask_of (new_tasks wfl ch now i) = map (\<lambda>(n, d). ?h d) (enumerate (i + 1) (w_tasks wfl))"
    unfolding new_tasks_map by (simp add: new_task_def Let_def ctask_of_def)
  also have "\<dots> = map (init_ctask (w_tasks wfl)) (w_tasks wfl)"
    by (rule map_enumerate(2)) (use assms in \<open>simp add: new_task_def Let_def ctask_of_def init_ctask_def\<close>)
  finally show ?thesis .
qed

lemma new_tasks_keys: "map t_key (new_tasks wfl ch now i) = map d_key (w_tasks wfl)"
  unfolding new_tasks_map by (simp add: new_task_def Let_def map_enumerate(2)[OF refl])

text \<open>When a run starts: exactly for valid graphs with explicit dependency lists and an unused
  idempotency key.\<close>

lemma start_run_eq:
  "start_run dp wfl sp now db =
     (if \<not> is_dag (w_tasks wfl) then Inl (ValidationError ''INVALID_WORKFLOW_GRAPH'')
      else if \<exists>t \<in> set (w_tasks wfl). d_dependsOn t = None then Inl NullDereference
      else bind_result (children_map (w_tasks wfl)) (\<lambda>ch. start_txn dp wfl ch sp now db))"
proof (cases rule: validateDag_cases[of "w_tasks wfl"])
  case (acyclic ord lvls m)
  then have "is_dag (w_tasks wfl)"
    using topological_no_cycle[of "w_tasks wfl" ord] by (auto simp: is_dag_def kahn_inv_def)
  then show ?thesis using acyclic by (simp add: start_run_def)
qed (auto simp: start_run_def is_dag_def)

lemma start_run_ok:
  assumes "db_inv db" "start_run dp wfl sp now db = Inr (e, db')" "w_tasks wfl \<noteq> []"
  shows "db_inv db'" "e_id e = next_id db" "view (next_id db) db' = Some (init_crun (w_tasks wfl))"
    "\<And>j. j \<noteq> next_id db \<Longrightarrow> view j db' = view j db" "view (next_id db) db = None" "approvals db' = approvals db"
    "\<exists>xs. tasks db' = tasks db @ xs"
proof -
  let ?i = "next_id db" and ?ds = "w_tasks wfl"
  have ok: "db_ok db" using assms(1) by (simp add: db_inv_def)
  obtain c where c: "validateDag ?ds = Inr c" "valid c"
    using assms(2) by (cases "validateDag ?ds") (auto simp: start_run_def split: if_splits)
  obtain m where g: "graph_ok ?ds" using valid_result[OF c] by metis
  obtain ch where ch: "children_map ?ds = Inr ch" "\<forall>d \<in> keys_of ?ds. map_of ch d = Some (children_of ?ds d)"
    using children_map_ok[OF g] by blast
  let ?ts = "new_tasks wfl ch now ?i" and ?e = "new_execution wfl sp now ?i"
  define db1 where "db1 = db\<lparr>executions := executions db @ [?e], tasks := tasks db @ ?ts, next_id := ?i + 1 + length ?ts\<rparr>"
  have tx: "start_txn dp wfl ch sp now db = Inr (e, db')"
    using assms(2) c ch(1) by (auto simp: start_run_def split: if_splits)
  have e: "e = ?e" "executions db' = executions db1" "tasks db' = tasks db1" "next_id db1 \<le> next_id db'"
    "approvals db' = approvals db"
    using tx by (auto simp: start_txn_def Let_def db1_def emit_def split: if_splits)
  show "e_id e = ?i" using e(1) by (simp add: new_execution_def)
  show "approvals db' = approvals db" by (rule e(5))
  show "\<exists>xs. tasks db' = tasks db @ xs" using e(3) by (simp add: db1_def)
  have no_e: "find_execution ?i db = None"
    using db_okD(4)[OF ok] by (fastforce simp: find_execution_def find_None_iff_all)
  then show "view ?i db = None" by (simp add: view_def)
  have no_t: "t_executionId t \<noteq> ?i" if "t \<in> set (tasks db)" for t
    using db_okD(3)[OF ok that] no_e by auto
  have v: "view j db' = view j db1" for j
    using e by (simp add: view_def find_execution_def ctasks_def tasks_of_def)
  have ex: "t_executionId t = ?i" if "t \<in> set ?ts" for t
    using that by (auto simp: new_tasks_def new_task_def Let_def)
  have "tasks_of ?i db1 = ?ts" using no_t ex by (simp add: tasks_of_def db1_def filter_False filter_id_conv)
  then have "ctasks ?i db1 = map (init_ctask ?ds) ?ds" using new_tasks_ctasks[OF ch(2)] by (simp add: ctasks_def)
  moreover have "find_execution ?i db1 = Some ?e"
    using no_e by (simp add: find_execution_def db1_def find_append new_execution_def)
  ultimately show vi: "view ?i db' = Some (init_crun ?ds)"
    unfolding v by (simp add: view_def init_crun_def new_execution_def)
  show vj: "view j db' = view j db" if "j \<noteq> ?i" for j
  proof -
    have "tasks_of j db1 = tasks_of j db" using ex that by (auto simp: tasks_of_def db1_def filter_empty_conv)
    moreover have "find_execution j db1 = find_execution j db"
      using that by (auto simp: find_execution_def db1_def find_append new_execution_def split: option.split)
    ultimately show ?thesis unfolding v by (simp add: view_def ctasks_def)
  qed
  have "db_ok db1"
  proof -
    have ids: "exec_ids db1 = exec_ids db @ [?i]"
      "task_ids db1 = task_ids db @ map (\<lambda>n. (n, ?i)) [?i + 1..<?i + 1 + length ?ds]"
      "next_id db1 = ?i + 1 + length ?ds"
      using arg_cong[OF new_tasks_keys[of wfl ch now ?i], of length]
      by (simp_all add: exec_ids_def task_ids_def db1_def new_execution_def new_tasks_ids del: upt_Suc)
    have old: "distinct (exec_ids db)" "distinct (map fst (task_ids db))" "snd ` set (task_ids db) \<subseteq> set (exec_ids db)"
      "\<And>j. j \<in> set (exec_ids db) \<Longrightarrow> j < ?i" "\<And>j. j \<in> fst ` set (task_ids db) \<Longrightarrow> j < ?i"
      using ok unfolding db_ok_def by blast+
    have fst1: "map fst (task_ids db1) = map fst (task_ids db) @ [?i + 1..<?i + 1 + length ?ds]"
      unfolding ids(2) by (simp add: comp_def del: upt_Suc)
    have "distinct (exec_ids db1)" using old(1,4) ids(1) by auto
    moreover have "distinct (map fst (task_ids db1))" using old(2,5) unfolding fst1 by (fastforce simp del: upt_Suc)
    moreover have "snd ` set (task_ids db1) \<subseteq> set (exec_ids db1)" using old(3) unfolding ids by (auto simp del: upt_Suc)
    moreover have "j < next_id db1" if "j \<in> set (exec_ids db1)" for j using that old(4) unfolding ids by fastforce
    moreover have "j < next_id db1" if "j \<in> fst ` set (task_ids db1)" for j
    proof -
      have "j \<in> set (map fst (task_ids db1))" using that by (metis list.set_map)
      then show ?thesis using old(5) unfolding fst1 ids(3) by (fastforce simp del: upt_Suc)
    qed
    ultimately show ?thesis unfolding db_ok_def by blast
  qed
  then have "db_ok db'" using e(2-4) unfolding db_ok_def exec_ids_def task_ids_def by (metis order_less_le_trans)
  then show "db_inv db'"
    using vi vj init_crun_inv[OF c assms(3)] assms(1) unfolding db_inv_def by (metis option.inject)
qed

section \<open>The engine as a transition system\<close>

text \<open>The claim that returned task document \<open>t\<close> has happened.\<close>

definition attempted :: "task \<Rightarrow> db \<Rightarrow> bool" where
  "attempted t db \<longleftrightarrow> (\<exists>t' \<in> set (tasks db). t_id t' = t_id t \<and> t_attempt t \<le> t_attempt t')"

text \<open>The atomic steps any process may take, under any of the engine configurations in \<open>D\<close>. The
  last rule lets the queue change by itself: workers and the other parts of the system use it. The record of an
  attempt is created for a claim that happened.
  Runs are started for non-empty definitions, which the request schema guarantees.\<close>

inductive engine_step :: "('q deps \<Rightarrow> bool) \<Rightarrow> 'q world \<Rightarrow> 'q world \<Rightarrow> bool" for D where
  es_start: "D dp \<Longrightarrow> w_tasks wfl \<noteq> [] \<Longrightarrow> start_run dp wfl sp now db = Inr (e, db') \<Longrightarrow>
    engine_step D (db, q) (db', q)"
| es_dispatch: "D dp \<Longrightarrow> dispatchTask dp now t (db, q) = Inr (b, db', q') \<Longrightarrow> engine_step D (db, q) (db', q')"
| es_claim: "D dp \<Longrightarrow> claimTask tid wid (dep_leaseMs dp) mnow db = Inr (r, db') \<Longrightarrow> engine_step D (db, q) (db', q)"
| es_abandon: "engine_step D (db, q) (abandon_attempts t now db, q)"
| es_attempt: "attempted t db \<Longrightarrow> create_attempt t wid db = Inr db' \<Longrightarrow> engine_step D (db, q) (db', q)"
| es_emit: "D dp \<Longrightarrow> ty = ''task.started'' \<Longrightarrow> engine_step D (db, q) (emit dp ty i pl now db, q)"
| es_renew: "D dp \<Longrightarrow> renewLease dp tid tok mnow db = (b, db') \<Longrightarrow> engine_step D (db, q) (db', q)"
| es_complete: "D dp \<Longrightarrow> complete_txn dp tid tok out now db = Inr (r, db') \<Longrightarrow> engine_step D (db, q) (db', q)"
| es_fail: "D dp \<Longrightarrow> fail_txn dp tid tok err now db = Inr (r, db') \<Longrightarrow> engine_step D (db, q) (db', q)"
| es_suspend: "D dp \<Longrightarrow> suspendForApproval dp tid tok rq now db = Inr (b, db') \<Longrightarrow> engine_step D (db, q) (db', q)"
| es_resolve: "D dp \<Longrightarrow> decision \<in> {P_APPROVED, P_REJECTED, P_EXPIRED} \<Longrightarrow>
    resolve_txn dp aid decision by cm scope now db = Inr (r, db') \<Longrightarrow> engine_step D (db, q) (db', q)"
| es_pause: "D dp \<Longrightarrow> pauseExecution dp i now db = Inr (b, db') \<Longrightarrow> engine_step D (db, q) (db', q)"
| es_resume: "D dp \<Longrightarrow> resume_txn dp i now db = Inr (b, db') \<Longrightarrow> engine_step D (db, q) (db', q)"
| es_cancel: "D dp \<Longrightarrow> cancelExecution dp i now db = Inr (b, db') \<Longrightarrow> engine_step D (db, q) (db', q)"
| es_queue: "engine_step D (db, q) (db, q')"

text \<open>What a step does to the runs: nothing, one step of one run, or a new run.\<close>

definition no_run_change :: "db \<Rightarrow> db \<Rightarrow> bool" where
  "no_run_change db db' \<longleftrightarrow> (\<forall>i. updates_run i (\<lambda>r. r) db db')"

definition new_run :: "oid \<Rightarrow> task_def list \<Rightarrow> db \<Rightarrow> db \<Rightarrow> bool" where
  "new_run i ds db db' \<longleftrightarrow> db_inv db' \<and> ds \<noteq> [] \<and> is_dag ds \<and> view i db = None \<and> view i db' = Some (init_crun ds)
     \<and> (\<forall>j. j \<noteq> i \<longrightarrow> view j db' = view j db) \<and> (\<exists>xs. tasks db' = tasks db @ xs)"

lemma no_run_change_other:
  "executions db' = executions db \<Longrightarrow> tasks db' = tasks db \<Longrightarrow> next_id db \<le> next_id db' \<Longrightarrow> no_run_change db db'"
  unfolding no_run_change_def by (blast intro: updates_run_other updates_run_refl)

lemma no_run_change_refl [simp]: "no_run_change db db"
  by (simp add: no_run_change_other)

lemma engine_step_effect:
  assumes "db_inv (fst w)" "engine_step D w w'"
  shows "no_run_change (fst w) (fst w') \<or> (\<exists>i F. run_txn i F (fst w) (fst w')) \<or> (\<exists>i ds. new_run i ds (fst w) (fst w'))"
  using assms(2,1)
proof (cases rule: engine_step.cases)
  case (es_start dp wfl sp now db e db' q)
  then have "is_dag (w_tasks wfl)" by (auto simp: start_run_eq split: if_splits)
  then have "new_run (next_id db) (w_tasks wfl) db db'"
    using es_start assms(1) start_run_ok[of db dp wfl sp now e db'] by (simp add: new_run_def)
  then show ?thesis using es_start by auto
next
  case (es_dispatch dp now t db q b db' q')
  then show ?thesis using assms(1) dispatchTask_cases[of db t dp now q] by auto
next
  case (es_claim dp tid wid mnow db r db' q)
  then show ?thesis using assms(1) claimTask_cases[of db tid wid "dep_leaseMs dp" mnow r db'] by auto
next
  case (es_abandon db q t now)
  then show ?thesis by (simp add: no_run_change_other abandon_attempts_def)
next
  case (es_attempt t wid db db' q)
  then show ?thesis by (auto simp: create_attempt_def split: if_splits intro!: no_run_change_other)
next
  case (es_emit dp ty db q i pl now)
  then show ?thesis by (simp add: no_run_change_other)
next
  case (es_renew dp tid tok mnow db b db' q)
  then have "db' = snd (renewTaskLease tid tok (dep_leaseMs dp) mnow db)" by (simp add: renewLease_def)
  then show ?thesis using es_renew renew_updates by (auto simp: no_run_change_def)
next
  case (es_complete dp tid tok out now db r db' q)
  then show ?thesis
    using assms(1) complete_txn_stale[of tid tok db dp out now] complete_txn_current[of db tid tok _ dp out now]
    by (cases "\<exists>t. current tid tok db t") fastforce+
next
  case (es_fail dp tid tok err now db r db' q)
  show ?thesis
  proof (cases "\<exists>t. current tid tok db t")
    case True
    then obtain t where t: "current tid tok db t" by blast
    then have "t \<in> set (tasks db)" "db_ok db" using assms(1) es_fail by (auto simp: current_def db_inv_def)
    then obtain e where "find_execution (t_executionId t) db = Some e" using db_okD(3) by blast
    then show ?thesis using es_fail assms(1) fail_txn_current[OF _ t, of e dp err now] by fastforce
  next
    case False
    then show ?thesis using es_fail fail_txn_stale[of tid tok db dp err now] by simp
  qed
next
  case (es_suspend dp tid tok rq now db b db' q)
  then show ?thesis using assms(1) suspend_cases[of db dp tid tok rq now b db'] by auto
next
  case (es_resolve dp decision aid "by" cm scope now db r db' q)
  then show ?thesis
    using assms(1) resolve_txn_cases[of db dp aid decision "by" cm scope now "fst r" "snd r" db'] by auto
next
  case (es_pause dp i now db b db' q)
  then show ?thesis using assms(1) pause_cases[of db i dp now] by auto
next
  case (es_resume dp i now db b db' q)
  then show ?thesis using assms(1) resume_txn_cases[of db i dp now] by auto
next
  case (es_cancel dp i now db b db' q)
  then show ?thesis using assms(1) cancel_cases[of db i dp now] by auto
qed simp_all

lemma engine_step_inv: "db_inv (fst w) \<Longrightarrow> engine_step D w w' \<Longrightarrow> db_inv (fst w')"
  using engine_step_effect run_txn_inv updates_run_inv[of "fst w" _ "\<lambda>r. r"]
  unfolding no_run_change_def new_run_def by blast

text \<open>A task document is never deleted or renamed, and a final task status is final.\<close>

lemma task_persists:
  assumes "db_inv (fst w)" "engine_step D w w'" "t \<in> set (tasks (fst w))"
  shows "\<exists>t' \<in> set (tasks (fst w')). t_id t' = t_id t \<and> t_executionId t' = t_executionId t \<and> t_key t' = t_key t
           \<and> (TASK_TRANSITIONS (t_status t) = [] \<longrightarrow> t_status t' = t_status t)"
proof -
  have old: "t_status t' = t_status t" if h: "updates_run i F (fst w) (fst w')" "t' \<in> set (tasks (fst w'))" "db_inv (fst w')"
      "t_executionId t' = t_executionId t" "t_key t' = t_key t"
      "\<And>r. view i (fst w) = Some r \<Longrightarrow> crun_step r (F r) \<or> F r = r" "TASK_TRANSITIONS (t_status t) = []" for i F t'
  proof -
    obtain r where r: "view (t_executionId t) (fst w) = Some r" "crun_inv r" "ctask_of t \<in> set (cr_tasks r)"
      using db_inv_view[OF assms(1,3)] by metis
    obtain r' where r': "view (t_executionId t) (fst w') = Some r'" "crun_inv r'" "ctask_of t' \<in> set (cr_tasks r')"
      using db_inv_view[OF h(3,2)] h(4) by metis
    have st: "run_tasks (spec_run r) (t_key t) = Some (t_status t)" "run_tasks (spec_run r') (t_key t) = Some (t_status t')"
      using smap_task[OF crun_invD(2)[OF r(2)] r(3)] smap_task[OF crun_invD(2)[OF r'(2)] r'(3)] h(5)
      by (simp_all add: spec_run_def)
    have "r' = r \<or> crun_step r r'"
      using h(1,6) r(1) r'(1) by (cases "t_executionId t = i") (auto simp: updates_run_def)
    then show ?thesis
      using run_step_final(2)[OF crun_invD(5)[OF r(2)] crun_step_refines(1)[OF r(2)] st(1) h(7)] st by auto
  qed
  have inv': "db_inv (fst w')" by (rule engine_step_inv[OF assms(1,2)])
  consider i F where "updates_run i F (fst w) (fst w')" "\<And>r. view i (fst w) = Some r \<Longrightarrow> crun_step r (F r) \<or> F r = r"
    | xs where "tasks (fst w') = tasks (fst w) @ xs"
    using engine_step_effect[OF assms(1,2)] unfolding no_run_change_def run_txn_def new_run_def by metis
  then show ?thesis
  proof cases
    case 1
    have "(t_id t, t_executionId t, t_key t) \<in> set (task_names (fst w))" using assms(3) by (force simp: task_names_def)
    then have "(t_id t, t_executionId t, t_key t) \<in> set (task_names (fst w'))" using 1(1) by (simp add: updates_run_def)
    then obtain t' where "t' \<in> set (tasks (fst w'))" "t_id t' = t_id t" "t_executionId t' = t_executionId t" "t_key t' = t_key t"
      by (auto simp: task_names_def)
    then show ?thesis using old[OF 1(1) _ inv' _ _ 1(2)] by blast
  next
    case 2
    then show ?thesis using assms(3) by auto
  qed
qed

lemma task_persists_steps:
  assumes "db_inv (fst w)" "(engine_step D)\<^sup>*\<^sup>* w w'" "t \<in> set (tasks (fst w))"
  shows "\<exists>t' \<in> set (tasks (fst w')). t_id t' = t_id t \<and> t_executionId t' = t_executionId t \<and> t_key t' = t_key t
           \<and> (TASK_TRANSITIONS (t_status t) = [] \<longrightarrow> t_status t' = t_status t)"
  using assms(2)
proof (induction rule: rtranclp_induct)
  case base
  then show ?case using assms(3) by blast
next
  case (step w1 w2)
  have "db_inv (fst w1)" using step.hyps(1)
    by (induction rule: rtranclp_induct) (use assms(1) engine_step_inv in auto)
  then show ?case using step.IH task_persists[OF _ step.hyps(2)] by metis
qed

lemma db_inv_empty: "db_inv empty_db"
  by (simp add: db_inv_def db_ok_def empty_db_def exec_ids_def task_ids_def view_def find_execution_def)

text \<open>The life of one run: it is born in its initial state and then steps.\<close>

inductive life_step :: "(graph \<times> run) option \<Rightarrow> (graph \<times> run) option \<Rightarrow> bool" where
  life_born: "graph_wf G \<Longrightarrow> dom G \<noteq> {} \<Longrightarrow> life_step None (Some (G, run_init G))"
| life_step: "run_step G r r' \<Longrightarrow> life_step (Some (G, r)) (Some (G, r'))"

definition observe :: "oid \<Rightarrow> 'q world \<Rightarrow> (graph \<times> run) option" where
  "observe i w = map_option (\<lambda>r. (gmap (cr_tasks r), spec_run r)) (view i (fst w))"

lemma engine_step_life:
  assumes "db_inv (fst w)" "engine_step D w w'"
  shows "life_step\<^sup>*\<^sup>* (observe i w) (observe i w')"
proof -
  consider "no_run_change (fst w) (fst w')" | j F where "run_txn j F (fst w) (fst w')"
    | j ds where "new_run j ds (fst w) (fst w')"
    using engine_step_effect[OF assms] by blast
  then show ?thesis
  proof cases
    case 1
    then have "view i (fst w') = map_option (\<lambda>r. r) (view i (fst w))"
      unfolding no_run_change_def updates_run_def by presburger
    then have "view i (fst w') = view i (fst w)" by (simp add: option.map_ident)
    then show ?thesis by (simp add: observe_def)
  next
    case 2
    show ?thesis
    proof (cases "view i (fst w)")
      case (Some r)
      show ?thesis
      proof (cases "i = j")
        case True
        have st: "crun_step r (F r)" "view i (fst w') = Some (F r)"
          using 2 Some True by (auto simp: run_txn_def updates_run_def)
        have "crun_inv r" using assms(1) Some by (auto simp: db_inv_def)
        from crun_step_refines(1)[OF this st(1)] links_eqD(2)[OF crun_step_links[OF st(1)]]
        show ?thesis using Some st(2) by (auto simp: observe_def intro!: r_into_rtranclp life_step.life_step)
      qed (use 2 Some in \<open>auto simp: run_txn_def updates_run_def observe_def\<close>)
    qed (use 2 in \<open>auto simp: run_txn_def updates_run_def observe_def\<close>)
  next
    case 3
    show ?thesis
    proof (cases "i = j")
      case True
      have inv: "crun_inv (init_crun ds)" using 3 by (auto simp: new_run_def db_inv_def)
      have d: "distinct (map d_key ds)" using 3 by (simp add: new_run_def is_dag_def graph_ok_def)
      have "dom (def_graph ds) \<noteq> {}" using 3 by (simp add: new_run_def def_graph_def dom_map_of_conv_image_fst)
      moreover have "graph_wf (def_graph ds)"
        using crun_invD(5)[OF inv] run_inv_graph(1) by (fastforce simp: init_crun_def gmap_init)
      moreover have "observe i w' = Some (def_graph ds, run_init (def_graph ds))"
        using 3 True spec_init[OF d] by (simp add: observe_def new_run_def init_crun_def gmap_init)
      moreover have "observe i w = None" using 3 True by (simp add: observe_def new_run_def)
      ultimately show ?thesis using life_born[of "def_graph ds"] by (simp add: r_into_rtranclp)
    next
      case False
      then show ?thesis using 3 by (simp add: new_run_def observe_def)
    qed
  qed
qed

interpretation engine: simulation "\<lambda>w. fst w = empty_db" "engine_step D" "\<lambda>w. db_inv (fst w)"
  "observe i" "\<lambda>v. v = None" life_step for D i
proof
  show "observe i w = None" if "fst w = empty_db" for w
    using that by (simp add: observe_def view_def find_execution_def empty_db_def)
  show "life_step\<^sup>*\<^sup>* (observe i w) (observe i w')" if "db_inv (fst w)" "engine_step D w w'" for w w'
    using that by (rule engine_step_life)
qed (use db_inv_empty engine_step_inv in auto)

end
