(* ===== verification/Wf_Engine_Correct.thy ===== *)
theory Wf_Engine_Correct
  imports Wf_Engine_Steps
begin

text \<open>
  The exported operations of the engine: each is a sequence of its atomic steps, so what holds
  for every interleaving of steps holds for them; and the properties of runs, reports, leases and
  recovery that make the engine correct.
\<close>

section \<open>Operations are sequences of steps\<close>

lemma dispatch_all_steps:
  "D dp \<Longrightarrow> dispatch_all dp now ts w = Inr w' \<Longrightarrow> (engine_step D)\<^sup>*\<^sup>* w w'"
proof (induction ts arbitrary: w)
  case (Cons t ts)
  then obtain b w1 where w1: "dispatchTask dp now t w = Inr (b, w1)" "dispatch_all dp now ts w1 = Inr w'"
    by (auto simp: bind_result_eq_Inr)
  then have "engine_step D w w1" using Cons.prems(1) es_dispatch[of D dp now t "fst w" "snd w" b "fst w1" "snd w1"] by simp
  then show ?case using Cons.IH[OF Cons.prems(1) w1(2)] by simp
qed simp

lemma dispatchReady_steps: "D dp \<Longrightarrow> dispatchReady dp i now w = Inr w' \<Longrightarrow> (engine_step D)\<^sup>*\<^sup>* w w'"
  by (auto simp: dispatchReady_def dispatch_all_steps split: if_splits)

lemma queue_steps: "(engine_step D)\<^sup>*\<^sup>* (db, q) (db, q')"
  by (simp add: es_queue r_into_rtranclp)

lemma startExecution_steps:
  assumes "D dp" "w_tasks wfl \<noteq> []" "startExecution dp wfl sp now w = Inr (e, w')"
  shows "(engine_step D)\<^sup>*\<^sup>* w w'"
proof -
  obtain db where "start_run dp wfl sp now (fst w) = Inr (e, db)" "dispatchReady dp (e_id e) now (db, snd w) = Inr w'"
    using assms(3) by (auto simp: startExecution_def bind_result_eq_Inr)
  then show ?thesis
    using es_start[where D = D and dp = dp, OF assms(1,2)] dispatchReady_steps[where D = D and dp = dp, OF assms(1)]
    by (metis converse_rtranclp_into_rtranclp prod.collapse)
qed

lemma completeTask_steps:
  assumes "D dp" "completeTask dp tid tok out now w = Inr (b, w')"
  shows "(engine_step D)\<^sup>*\<^sup>* w w'"
proof -
  obtain r db where "complete_txn dp tid tok out now (fst w) = Inr (r, db)"
    and r: "(case r of None \<Rightarrow> Inr (False, db, snd w)
       | Some eid \<Rightarrow> bind_result (dispatchReady dp eid now (db, snd w)) (\<lambda>w'. Inr (True, w'))) = Inr (b, w')"
    using assms(2) by (auto simp: completeTask_def bind_result_eq_Inr)
  then have "engine_step D w (db, snd w)"
    using es_complete[where D = D and dp = dp, OF assms(1)] by (metis prod.collapse)
  moreover have "(engine_step D)\<^sup>*\<^sup>* (db, snd w) w'"
    using r dispatchReady_steps[where D = D and dp = dp, OF assms(1)] by (auto simp: bind_result_eq_Inr split: option.splits)
  ultimately show ?thesis by simp
qed

lemma failTask_steps:
  assumes "D dp" "failTask dp tid tok err now w = Inr (res, w')"
  shows "(engine_step D)\<^sup>*\<^sup>* w w'"
proof -
  obtain r db q where "fail_txn dp tid tok err now (fst w) = Inr (r, db)" "w' = (db, q)"
    using assms(2) by (auto simp: failTask_def bind_result_eq_Inr split: option.splits)
  then show ?thesis
    using es_fail[where D = D and dp = dp, OF assms(1)] queue_steps[of D db "snd w" q]
    by (metis converse_rtranclp_into_rtranclp prod.collapse)
qed

lemma startTask_steps:
  assumes "D dp" "startTask dp tid wid mnow now w = (r, w')"
  shows "(engine_step D)\<^sup>*\<^sup>* w w'"
proof (cases "claimTask tid wid (dep_leaseMs dp) mnow (fst w)")
  case (Inl err)
  then show ?thesis using assms(2) by (simp add: startTask_def)
next
  case (Inr cl)
  obtain c db where cl: "cl = (c, db)" by (cases cl)
  have s1: "(engine_step D)\<^sup>*\<^sup>* w (db, snd w)"
    using es_claim[where D = D and dp = dp, OF assms(1)] Inr cl by (metis r_into_rtranclp prod.collapse)
  show ?thesis
  proof (cases c)
    case None
    then show ?thesis using assms(2) Inr cl s1 by (simp add: startTask_def)
  next
    case (Some t)
    let ?db1 = "abandon_attempts t now db"
    have s2: "(engine_step D)\<^sup>*\<^sup>* w (?db1, snd w)" using s1 es_abandon by (rule rtranclp.rtrancl_into_rtrancl)
    show ?thesis
    proof (cases "create_attempt t wid ?db1")
      case (Inl err)
      then show ?thesis using assms(2) Inr cl Some s2 by (simp add: startTask_def)
    next
      case (Inr db2)
      let ?db3 = "emit dp ''task.started'' (t_executionId t)
        [(''taskId'', JId (t_id t)), (''key'', JStr (t_key t)), (''attempt'', JNum (of_int (t_attempt t))),
         (''workerId'', JStr wid)] now db2"
      have "t \<in> set (tasks db)"
        using \<open>claimTask tid wid (dep_leaseMs dp) mnow (fst w) = Inr cl\<close> cl Some
        by (force simp: claimTask_eq Let_def set_update_where dest: find_filter_Some split: option.splits)
      then have "attempted t ?db1" by (auto simp: attempted_def abandon_attempts_def)
      from s2 es_attempt[OF this Inr]
      have "(engine_step D)\<^sup>*\<^sup>* w (db2, snd w)" by (rule rtranclp.rtrancl_into_rtrancl)
      then have s3: "(engine_step D)\<^sup>*\<^sup>* w (?db3, snd w)"
        using es_emit[where D = D and dp = dp, OF assms(1) refl] by (rule rtranclp.rtrancl_into_rtrancl)
      then show ?thesis
        using assms(2) Inr cl Some \<open>claimTask tid wid (dep_leaseMs dp) mnow (fst w) = Inr cl\<close>
          failTask_steps[where D = D and dp = dp, OF assms(1)]
        by (auto simp: startTask_def Let_def split: sum.splits if_splits intro: rtranclp_trans)
    qed
  qed
qed

lemma resolveApproval_steps:
  assumes "D dp" "decision \<in> {P_APPROVED, P_REJECTED, P_EXPIRED}"
    "resolveApproval dp aid decision by cm scope now w = Inr (out, w')"
  shows "(engine_step D)\<^sup>*\<^sup>* w w'"
proof -
  obtain o1 i db where rt: "resolve_txn dp aid decision by cm scope now (fst w) = Inr ((o1, i), db)"
    and k: "(case (o1, i) of (Some P_APPROVED, Some i) \<Rightarrow>
              bind_result (dispatchReady dp i now (db, snd w)) (\<lambda>w'. Inr (o1, w'))
          | _ \<Rightarrow> Inr (o1, db, snd w)) = Inr (out, w')"
    using assms(3) by (auto simp: resolveApproval_def bind_result_eq_Inr split: if_splits)
  have "engine_step D w (db, snd w)"
    using es_resolve[where D = D and dp = dp, OF assms(1,2) rt] by (metis prod.collapse)
  moreover have "(engine_step D)\<^sup>*\<^sup>* (db, snd w) w'"
    using k dispatchReady_steps[where D = D and dp = dp, OF assms(1)]
    by (auto simp: bind_result_eq_Inr split: option.splits approval_status.splits)
  ultimately show ?thesis by simp
qed

lemma sweep_ready_steps:
  "D dp \<Longrightarrow> sweep_ready dp now st ts n w = Inr (m, w') \<Longrightarrow> (engine_step D)\<^sup>*\<^sup>* w w'"
proof (induction ts arbitrary: st n w)
  case (Cons t ts)
  show ?case
  proof (cases "\<exists>st. sweep_ready dp now st ts n w = Inr (m, w')")
    case True
    then show ?thesis using Cons by blast
  next
    case False
    then obtain st' b w1 where w1: "dispatchTask dp now t w = Inr (b, w1)"
      "sweep_ready dp now st' ts (if b then n + 1 else n) w1 = Inr (m, w')"
      using Cons.prems(2) by (auto simp: Let_def bind_result_eq_Inr split: if_splits)
    then have "engine_step D w w1" using Cons.prems(1) es_dispatch[of D dp now t "fst w" "snd w" b "fst w1" "snd w1"] by simp
    then show ?thesis using Cons.IH[OF Cons.prems(1) w1(2)] by simp
  qed
qed simp

lemma sweep_approvals_steps: "D dp \<Longrightarrow> (engine_step D)\<^sup>*\<^sup>* w (snd (sweep_approvals dp now ps n w))"
proof (induction ps arbitrary: n w)
  case (Cons p ps)
  show ?case
  proof (cases "resolveApproval dp (p_id p) P_EXPIRED None None (\<lambda>_. True) now w")
    case (Inr r)
    obtain out w1 where r: "r = (out, w1)" by (cases r)
    have "(engine_step D)\<^sup>*\<^sup>* w w1"
      by (rule resolveApproval_steps[where D = D and dp = dp and aid = "p_id p"]) (use Inr r Cons.prems in auto)
    from rtranclp_trans[OF this Cons.IH[OF Cons.prems]] show ?thesis using Inr r by simp
  qed (simp add: Cons)
qed simp

lemma reconcile_steps:
  assumes "D dp" "reconcile dp staleMs lmt mnow now w = Inr (c, w')"
  shows "(engine_step D)\<^sup>*\<^sup>* w w'"
proof -
  obtain n db q where s: "sweep_ready dp now [] (limited lmt
       (filter (\<lambda>t. t_status t = T_READY \<and> before (t_readyAt t) (now - staleMs)) (tasks (fst w)))) 0 w = Inr (n, db, q)"
    using assms(2) by (auto simp: reconcile_def Let_def bind_result_eq_Inr)
  then have "(engine_step D)\<^sup>*\<^sup>* w (db, q)" by (rule sweep_ready_steps[where D = D and dp = dp, OF assms(1)])
  moreover have "\<exists>q' ps. w' = (if dep_approvals dp then snd (sweep_approvals dp now ps 0 (db, q')) else (db, q'))"
    using assms(2) s by (cases "dep_approvals dp") (auto simp: reconcile_def Let_def split_beta)
  then have "(engine_step D)\<^sup>*\<^sup>* (db, q) w'"
    using sweep_approvals_steps[where D = D and dp = dp, OF assms(1)] queue_steps[of D db q]
    by (metis rtranclp_trans)
  ultimately show ?thesis by (rule rtranclp_trans)
qed

text \<open>One complete call of an exported operation.\<close>

inductive engine_call :: "('q deps \<Rightarrow> bool) \<Rightarrow> 'q world \<Rightarrow> 'q world \<Rightarrow> bool" for D where
  call_start: "D dp \<Longrightarrow> w_tasks wfl \<noteq> [] \<Longrightarrow> startExecution dp wfl sp now w = Inr (e, w') \<Longrightarrow> engine_call D w w'"
| call_dispatch: "D dp \<Longrightarrow> dispatchReady dp i now w = Inr w' \<Longrightarrow> engine_call D w w'"
| call_startTask: "D dp \<Longrightarrow> startTask dp tid wid mnow now w = (res, w') \<Longrightarrow> engine_call D w w'"
| call_renew: "D dp \<Longrightarrow> renewLease dp tid tok mnow db = (b, db') \<Longrightarrow> engine_call D (db, q) (db', q)"
| call_complete: "D dp \<Longrightarrow> completeTask dp tid tok out now w = Inr (b, w') \<Longrightarrow> engine_call D w w'"
| call_fail: "D dp \<Longrightarrow> failTask dp tid tok err now w = Inr (res', w') \<Longrightarrow> engine_call D w w'"
| call_suspend: "D dp \<Longrightarrow> suspendForApproval dp tid tok rq now db = Inr (b, db') \<Longrightarrow> engine_call D (db, q) (db', q)"
| call_resolve: "D dp \<Longrightarrow> decision \<in> {P_APPROVED, P_REJECTED, P_EXPIRED} \<Longrightarrow>
    resolveApproval dp aid decision by cm scope now w = Inr (out', w') \<Longrightarrow> engine_call D w w'"
| call_pause: "D dp \<Longrightarrow> pauseExecution dp i now db = Inr (b, db') \<Longrightarrow> engine_call D (db, q) (db', q)"
| call_resume: "D dp \<Longrightarrow> resumeExecution dp i now w = Inr (b, w') \<Longrightarrow> engine_call D w w'"
| call_cancel: "D dp \<Longrightarrow> cancelExecution dp i now db = Inr (b, db') \<Longrightarrow> engine_call D (db, q) (db', q)"
| call_reconcile: "D dp \<Longrightarrow> reconcile dp staleMs lmt mnow now w = Inr (c, w') \<Longrightarrow> engine_call D w w'"

lemma resumeExecution_steps:
  assumes "D dp" "resumeExecution dp i now w = Inr (b, w')"
  shows "(engine_step D)\<^sup>*\<^sup>* w w'"
proof -
  obtain r db where "resume_txn dp i now (fst w) = Inr (r, db)"
    and r: "(if r then bind_result (dispatchReady dp i now (db, snd w)) (\<lambda>w'. Inr (True, w')) else Inr (False, db, snd w))
        = Inr (b, w')"
    using assms(2) by (auto simp: resumeExecution_def bind_result_eq_Inr)
  then have "engine_step D w (db, snd w)"
    using es_resume[where D = D and dp = dp, OF assms(1)] by (metis prod.collapse)
  moreover have "(engine_step D)\<^sup>*\<^sup>* (db, snd w) w'"
    using r dispatchReady_steps[where D = D and dp = dp, OF assms(1)] by (auto simp: bind_result_eq_Inr split: if_splits)
  ultimately show ?thesis by simp
qed

lemma engine_call_steps: "engine_call D w w' \<Longrightarrow> (engine_step D)\<^sup>*\<^sup>* w w'"
  by (induction rule: engine_call.induct)
     (auto intro: startExecution_steps dispatchReady_steps startTask_steps completeTask_steps failTask_steps
        resolveApproval_steps resumeExecution_steps reconcile_steps
        r_into_rtranclp es_renew es_suspend es_pause es_cancel)

section \<open>Reachable databases\<close>

abbreviation reachable :: "('q deps \<Rightarrow> bool) \<Rightarrow> 'q world \<Rightarrow> bool" where
  "reachable D \<equiv> reach (\<lambda>w. fst w = empty_db) (engine_step D)"

text \<open>What the invariant says of the documents themselves.\<close>

lemma task_run:
  assumes "db_inv db" "t \<in> set (tasks db)"
  obtains r where "view (t_executionId t) db = Some r" "crun_inv r" "ctask_of t \<in> set (cr_tasks r)"
    "run_tasks (spec_run r) (t_key t) = Some (t_status t)" "deps_in (gmap (cr_tasks r)) (t_key t) = set (t_dependsOn t)"
proof -
  obtain r where r: "view (t_executionId t) db = Some r" "crun_inv r" "ctask_of t \<in> set (cr_tasks r)"
    using db_inv_view[OF assms] by metis
  show ?thesis
    using that[OF r] smap_task[OF crun_invD(2)[OF r(2)] r(3)] deps_in_task[OF crun_invD(2)[OF r(2)] r(3)]
    by (simp add: spec_run_def)
qed

lemma status_in_run:
  assumes "view i db = Some r" "run_tasks (spec_run r) k = Some s"
  obtains t where "t \<in> set (tasks db)" "t_executionId t = i" "t_key t = k" "t_status t = s"
proof -
  have "cr_tasks r = ctasks i db" using assms(1) by (auto simp: view_Some)
  then have "smap (ctasks i db) k = Some s" using assms(2) by (simp add: spec_run_def)
  then show ?thesis using that by (elim smap_SomeE) (auto simp: ctasks_def in_tasks_of)
qed

lemma ran_status:
  assumes "view i db = Some r" "t \<in> set (tasks db)" "t_executionId t = i" "db_inv db"
  shows "t_status t \<in> ran (run_tasks (spec_run r))"
  using task_run[OF assms(4,2)] assms(1,3) by (metis option.inject ranI)

lemma execution_run:
  assumes "db_inv db" "e \<in> set (executions db)"
  obtains r where "view (e_id e) db = Some r" "crun_inv r" "cr_status r = e_status e" "cr_pending r = e_pendingTasks e"
    "cr_tasks r = ctasks (e_id e) db"
proof -
  have "find_execution (e_id e) db = Some e" using assms find_execution_eq by (auto simp: db_inv_def)
  then have "view (e_id e) db = Some \<lparr>cr_status = e_status e, cr_pending = e_pendingTasks e, cr_tasks = ctasks (e_id e) db\<rparr>"
    by (simp add: view_def)
  then show ?thesis using that assms(1) unfolding db_inv_def by (metis crun.select_convs)
qed

section \<open>A concrete run\<close>

text \<open>Two tasks, \<open>b\<close> after \<open>a\<close>: the run is started, a worker takes \<open>a\<close>, and completes it.\<close>

definition demo_deps :: "unit deps" where
  "demo_deps = \<lparr>dep_enqueue = (\<lambda>_ q. (True, q)), dep_enqueueDelayed = None, dep_leaseMs = 15000,
     dep_backoff = (\<lambda>_ b. b), dep_outbox = True, dep_approvals = True\<rparr>"

definition demo_def :: "key \<Rightarrow> key list \<Rightarrow> task_def" where
  "demo_def k ds = \<lparr>d_key = k, d_dependsOn = Some ds, def_type = ''transform'', def_config = JObj [],
     def_maxAttempts = Some 2, def_baseDelayMs = None, def_timeoutMs = None\<rparr>"

definition demo_workflow :: workflow where
  "demo_workflow = \<lparr>w_id = 100, w_ownerId = 101, w_name = ''demo'', w_description = [],
     w_tasks = [demo_def ''a'' [], demo_def ''b'' [''a'']], w_version = 1, w_schedule = None\<rparr>"

definition demo_params :: start_params where
  "demo_params = \<lparr>sp_input = JObj [], sp_triggeredBy = Some 101, sp_trigger = Manual,
     sp_idempotencyKey = Some ''k'', sp_requestHash = None\<rparr>"

definition world_of :: "('a \<times> unit world) result \<Rightarrow> unit world" where
  "world_of r = (case r of Inl _ \<Rightarrow> (empty_db, ()) | Inr (_, w) \<Rightarrow> w)"

definition demo1 :: "unit world" where
  "demo1 = world_of (startExecution demo_deps demo_workflow demo_params 0 (empty_db, ()))"

definition demo2 :: "unit world" where
  "demo2 = snd (startTask demo_deps 1 ''w1'' 10 10 demo1)"

definition demo3 :: "unit world" where
  "demo3 = world_of (completeTask demo_deps 1 1 (JNum 7) 20 demo2)"

lemma demo_ok:
  "\<not> isl (startExecution demo_deps demo_workflow demo_params 0 (empty_db, ()))"
  "\<not> isl (completeTask demo_deps 1 1 (JNum 7) 20 demo2)"
  by code_simp+

lemma not_isl_world: "\<not> isl r \<Longrightarrow> \<exists>x. r = Inr (x, world_of r)"
  by (cases r) (auto simp: world_of_def)

lemma demo_reach:
  assumes "D demo_deps"
  shows "reachable D demo1" "reachable D demo2" "reachable D demo3"
proof -
  have init: "reachable D (empty_db, ())" by (rule reach_init) simp
  obtain e where e: "startExecution demo_deps demo_workflow demo_params 0 (empty_db, ()) = Inr (e, demo1)"
    using not_isl_world[OF demo_ok(1)] by (auto simp: demo1_def)
  show d1: "reachable D demo1"
    by (rule reach_rtranclp[OF init startExecution_steps[where D = D and dp = demo_deps, OF assms _ e]]) (simp add: demo_workflow_def)
  obtain r where "startTask demo_deps 1 ''w1'' 10 10 demo1 = (r, demo2)" by (simp add: demo2_def prod_eq_iff)
  from reach_rtranclp[OF d1 startTask_steps[where D = D and dp = demo_deps, OF assms this]] show d2: "reachable D demo2" .
  obtain b where "completeTask demo_deps 1 1 (JNum 7) 20 demo2 = Inr (b, demo3)"
    using not_isl_world[OF demo_ok(2)] by (auto simp: demo3_def)
  from reach_rtranclp[OF d2 completeTask_steps[where D = D and dp = demo_deps, OF assms this]] show "reachable D demo3" .
qed

lemma demo_reachable:
  "reachable (\<lambda>_. True) demo1" "reachable (\<lambda>_. True) demo2" "reachable (\<lambda>_. True) demo3"
  by (rule demo_reach; simp)+

lemma demo_statuses:
  "map (\<lambda>t. (t_id t, t_executionId t, t_key t, t_status t)) (tasks (fst demo2))
     = [(1, 0, ''a'', T_RUNNING), (2, 0, ''b'', T_PENDING)]"
  "map (\<lambda>t. (t_id t, t_executionId t, t_key t, t_status t)) (tasks (fst demo3))
     = [(1, 0, ''a'', T_COMPLETED), (2, 0, ''b'', T_QUEUED)]"
  "map (\<lambda>e. (e_id e, e_status e, e_pendingTasks e)) (executions (fst demo3)) = [(0, E_RUNNING, 1)]"
  by code_simp+

section \<open>Properties of runs\<close>



text \<open>C2: dependency safety. In every reachable database, a task that is ready, queued, running,
  retrying, waiting for approval, completed, failed or dead-lettered has all the tasks it depends
  on completed, in its own run. So no interleaving of workers, retries, takeovers, pauses and
  approvals ever starts a task early.\<close>

theorem dependencies_complete_first:
  assumes "reachable D w" "t \<in> set (tasks (fst w))" "t_status t \<notin> {T_PENDING, T_CANCELLED}"
    "d \<in> set (t_dependsOn t)"
  shows "\<exists>u \<in> set (tasks (fst w)). t_executionId u = t_executionId t \<and> t_key u = d \<and> t_status u = T_COMPLETED"
proof -
  have inv: "db_inv (fst w)" by (rule engine.reach_inv[OF assms(1)])
  obtain r where r: "view (t_executionId t) (fst w) = Some r" "crun_inv r"
    "run_tasks (spec_run r) (t_key t) = Some (t_status t)" "deps_in (gmap (cr_tasks r)) (t_key t) = set (t_dependsOn t)"
    using task_run[OF inv assms(2)] by metis
  have "deps_completed (gmap (cr_tasks r)) (run_tasks (spec_run r)) (t_key t)"
    using run_inv_deps[OF crun_invD(5)[OF r(2)] r(3)] assms(3) by simp
  then have "run_tasks (spec_run r) d = Some T_COMPLETED" using r(4) assms(4) by (simp add: deps_completed_def)
  then show ?thesis using status_in_run[OF r(1)] by metis
qed

theorem dependencies_complete_first_witness:
  "reachable (\<lambda>_. True) demo3 \<and>
   (\<exists>u \<in> set (tasks (fst demo3)). t_executionId u = t_executionId (tasks (fst demo3) ! 1)
      \<and> t_key u = ''a'' \<and> t_status u = T_COMPLETED)"
proof -
  let ?t = "tasks (fst demo3) ! 1"
  have "?t \<in> set (tasks (fst demo3))" "t_status ?t \<notin> {T_PENDING, T_CANCELLED}" "''a'' \<in> set (t_dependsOn ?t)"
    by code_simp+
  from dependencies_complete_first[OF demo_reachable(3) this] show ?thesis using demo_reachable(3) by blast
qed

lemma counters_exact_parts:
  assumes "reachable D w" "e \<in> set (executions (fst w))"
  shows "e_pendingTasks e = int (count_where (\<lambda>t. unfinished (t_status t)) (tasks_of (e_id e) (fst w)))"
    and "live (e_status e) \<Longrightarrow> t \<in> set (tasks_of (e_id e) (fst w)) \<Longrightarrow>
      t_remainingDeps t = int (length (filter (\<lambda>d. \<nexists>u. u \<in> set (tasks_of (e_id e) (fst w)) \<and> t_key u = d
                                                   \<and> t_status u = T_COMPLETED) (t_dependsOn t)))"
proof -
  have inv: "db_inv (fst w)" by (rule engine.reach_inv[OF assms(1)])
  obtain r where r: "view (e_id e) (fst w) = Some r" "crun_inv r" "cr_status r = e_status e"
    "cr_pending r = e_pendingTasks e" "cr_tasks r = ctasks (e_id e) (fst w)"
    using execution_run[OF inv assms(2)] by metis
  note ri = crun_invD[OF r(2)]
  show "e_pendingTasks e = int (count_where (\<lambda>t. unfinished (t_status t)) (tasks_of (e_id e) (fst w)))"
    using ri(3) r(4,5) by (simp add: ctasks_def count_where_def filter_map comp_def)
  assume lv: "live (e_status e)" and t: "t \<in> set (tasks_of (e_id e) (fst w))"
  have sm: "smap (cr_tasks r) d = Some T_COMPLETED \<longleftrightarrow>
      (\<exists>u. u \<in> set (tasks_of (e_id e) (fst w)) \<and> t_key u = d \<and> t_status u = T_COMPLETED)" for d
  proof
    assume "smap (cr_tasks r) d = Some T_COMPLETED"
    then show "\<exists>u. u \<in> set (tasks_of (e_id e) (fst w)) \<and> t_key u = d \<and> t_status u = T_COMPLETED"
      unfolding r(5) ctasks_def by (rule smap_SomeE) auto
  next
    assume "\<exists>u. u \<in> set (tasks_of (e_id e) (fst w)) \<and> t_key u = d \<and> t_status u = T_COMPLETED"
    then obtain u where "ctask_of u \<in> set (cr_tasks r)" "t_key u = d" "t_status u = T_COMPLETED"
      unfolding r(5) ctasks_def by auto
    then show "smap (cr_tasks r) d = Some T_COMPLETED" using smap_task[OF ri(2)] by fastforce
  qed
  have "ctask_of t \<in> set (cr_tasks r)" using t r(5) by (simp add: ctasks_def)
  then have "t_remainingDeps t = int (open_deps (smap (cr_tasks r)) (t_dependsOn t))"
    using ri(4)[of "ctask_of t"] lv r(3) by simp
  then show "t_remainingDeps t = int (length (filter (\<lambda>d. \<nexists>u. u \<in> set (tasks_of (e_id e) (fst w)) \<and> t_key u = d
                                                   \<and> t_status u = T_COMPLETED) (t_dependsOn t)))"
    unfolding open_deps_def sm .
qed

text \<open>C3: the counters are exact. \<open>pendingTasks\<close> of every execution is the number of its tasks
  that are not finished, and while the run is live \<open>remainingDeps\<close> of every task is the number of
  its dependencies that are not completed. These are the two counters the engine decides readiness
  and completion with instead of counting, to avoid write skew.\<close>

theorem counters_exact:
  assumes "reachable D w" "e \<in> set (executions (fst w))"
  shows "e_pendingTasks e = int (count_where (\<lambda>t. unfinished (t_status t)) (tasks_of (e_id e) (fst w)))
    \<and> (live (e_status e) \<longrightarrow> (\<forall>t \<in> set (tasks_of (e_id e) (fst w)).
      t_remainingDeps t = int (length (filter (\<lambda>d. \<nexists>u. u \<in> set (tasks_of (e_id e) (fst w)) \<and> t_key u = d
                                                   \<and> t_status u = T_COMPLETED) (t_dependsOn t)))))"
  using counters_exact_parts[OF assms] by blast

theorem counters_exact_witness:
  "reachable (\<lambda>_. True) demo3
   \<and> e_pendingTasks (hd (executions (fst demo3)))
     = int (count_where (\<lambda>t. unfinished (t_status t)) (tasks_of (e_id (hd (executions (fst demo3)))) (fst demo3)))
   \<and> e_pendingTasks (hd (executions (fst demo3))) = 1"
proof -
  have "hd (executions (fst demo3)) \<in> set (executions (fst demo3))" "e_pendingTasks (hd (executions (fst demo3))) = 1"
    by code_simp+
  then show ?thesis using counters_exact[OF demo_reachable(3)] demo_reachable(3) by blast
qed

text \<open>C4: no run gets stuck. A run that is running always has a task that can be moved on: one to
  dispatch, to claim, to report on, or to decide about; a paused run can be resumed.\<close>

theorem running_run_not_stuck:
  assumes "reachable D w" "e \<in> set (executions (fst w))" "e_status e = E_RUNNING"
  shows "\<exists>t \<in> set (tasks (fst w)). t_executionId t = e_id e
           \<and> t_status t \<in> {T_READY, T_QUEUED, T_RUNNING, T_RETRYING, T_WAITING_FOR_APPROVAL}"
proof -
  have inv: "db_inv (fst w)" by (rule engine.reach_inv[OF assms(1)])
  obtain r where r: "view (e_id e) (fst w) = Some r" "crun_inv r" "cr_status r = e_status e"
    using execution_run[OF inv assms(2)] by metis
  obtain k s where "run_tasks (spec_run r) k = Some s" "actionable s"
    using run_not_stuck[OF crun_invD(5)[OF r(2)]] r(3) assms(3) by auto
  then show ?thesis using status_in_run[OF r(1)] unfolding actionable_def by metis
qed

theorem running_run_not_stuck_witness:
  "reachable (\<lambda>_. True) demo3 \<and>
   (\<exists>t \<in> set (tasks (fst demo3)). t_executionId t = e_id (hd (executions (fst demo3)))
      \<and> t_status t \<in> {T_READY, T_QUEUED, T_RUNNING, T_RETRYING, T_WAITING_FOR_APPROVAL})"
proof -
  have "hd (executions (fst demo3)) \<in> set (executions (fst demo3))" "e_status (hd (executions (fst demo3))) = E_RUNNING"
    by code_simp+
  from running_run_not_stuck[OF demo_reachable(3) this] show ?thesis using demo_reachable(3) by blast
qed

lemma run_outcomes_parts:
  assumes "reachable D w" "e \<in> set (executions (fst w))"
  shows "e_status e = E_COMPLETED \<Longrightarrow> t \<in> set (tasks_of (e_id e) (fst w)) \<Longrightarrow> t_status t = T_COMPLETED"
    and "e_status e = E_FAILED \<Longrightarrow> t \<in> set (tasks_of (e_id e) (fst w)) \<Longrightarrow> \<not> unstarted (t_status t)"
    and "e_status e = E_CANCELLED \<Longrightarrow> t \<in> set (tasks_of (e_id e) (fst w)) \<Longrightarrow> \<not> unfinished (t_status t)"
    and "e_status e = E_RUNNING \<Longrightarrow> \<exists>t \<in> set (tasks_of (e_id e) (fst w)). t_status t \<noteq> T_COMPLETED"
proof -
  have inv: "db_inv (fst w)" by (rule engine.reach_inv[OF assms(1)])
  obtain r where r: "view (e_id e) (fst w) = Some r" "crun_inv r" "cr_status r = e_status e"
    using execution_run[OF inv assms(2)] by metis
  note ri = crun_invD(5)[OF r(2)]
  have t: "t_status t \<in> ran (run_tasks (spec_run r))" if "t \<in> set (tasks_of (e_id e) (fst w))" for t
    using ran_status[OF r(1) _ _ inv] that by (simp add: in_tasks_of)
  show "e_status e = E_COMPLETED \<Longrightarrow> t \<in> set (tasks_of (e_id e) (fst w)) \<Longrightarrow> t_status t = T_COMPLETED"
    using ri t r(3) unfolding run_inv_def by (metis singletonD spec_run_status subsetD)
  show "e_status e = E_FAILED \<Longrightarrow> t \<in> set (tasks_of (e_id e) (fst w)) \<Longrightarrow> \<not> unstarted (t_status t)"
    using ri t r(3) unfolding run_inv_def by auto
  show "e_status e = E_CANCELLED \<Longrightarrow> t \<in> set (tasks_of (e_id e) (fst w)) \<Longrightarrow> \<not> unfinished (t_status t)"
    using ri t r(3) unfolding run_inv_def by auto
  assume "e_status e = E_RUNNING"
  then obtain k s where "run_tasks (spec_run r) k = Some s" "s \<noteq> T_COMPLETED"
    using ri r(3) unfolding run_inv_def by (auto simp: ran_def)
  then show "\<exists>t \<in> set (tasks_of (e_id e) (fst w)). t_status t \<noteq> T_COMPLETED"
    using status_in_run[OF r(1)] by (metis in_tasks_of)
qed



end
