(* ===== verification/Wf_Engine_Reports.thy ===== *)
theory Wf_Engine_Reports
  imports Wf_Engine_Correct
begin

text \<open>
  What the engine's operations do, branch by branch: starting runs, claims and leases, reports of
  workers (completion, failure with its three outcomes), run control, and the finality of results.
\<close>

section \<open>Totality of dispatch\<close>

lemma dispatch_all_total:
  "db_inv (fst w) \<Longrightarrow> \<exists>w'. dispatch_all dp now ts w = Inr w' \<and> db_inv (fst w')"
proof (induction ts arbitrary: w)
  case (Cons t ts)
  obtain b w1 where w1: "dispatchTask dp now t w = Inr (b, w1)"
    using dispatchTask_cases[OF Cons.prems, of t dp now "snd w"] by fastforce
  then have "engine_step (\<lambda>_. True) w w1" using es_dispatch[of "\<lambda>_. True" dp now t "fst w" "snd w" b "fst w1" "snd w1"] by simp
  then have "db_inv (fst w1)" using engine_step_inv Cons.prems by blast
  then show ?case using Cons.IH[of w1] w1 by simp
qed simp

lemma dispatchReady_total:
  "db_inv (fst w) \<Longrightarrow> \<exists>w'. dispatchReady dp i now w = Inr w' \<and> db_inv (fst w')"
  unfolding dispatchReady_def using dispatch_all_total[of w] by metis

lemma run_txn_status:
  assumes "run_txn i F db db'" "view i db = Some r"
  shows "view i db' = Some (F r)"
  using assms by (simp add: run_txn_def updates_run_def)

section \<open>Reports\<close>

text \<open>A report is current when the task runs under the presented lease token; a task that is not
  running has no current report.\<close>

lemma not_current_terminal:
  assumes "db_inv db" "t \<in> set (tasks db)" "t_status t \<noteq> T_RUNNING"
  shows "\<nexists>u. current (t_id t) tok db u"
  using assms distinct_map_eqD[OF db_okD(2), of db] by (auto simp: current_def db_inv_def)

lemma completeTask_stale:
  "\<nexists>t. current tid tok (fst w) t \<Longrightarrow> completeTask dp tid tok out now w = Inr (False, w)"
  by (simp add: completeTask_def complete_txn_stale)

lemma failTask_stale:
  "\<nexists>t. current tid tok (fst w) t \<Longrightarrow>
   failTask dp tid tok err now w = Inr (\<lparr>f_applied = False, f_outcome = None, f_delayMs = None\<rparr>, w)"
  by (simp add: failTask_def fail_txn_stale fail_noop_def)

lemma completeTask_current:
  assumes "db_inv (fst w)" "current tid tok (fst w) t"
  shows "\<exists>w'. completeTask dp tid tok out now w = Inr (True, w')
     \<and> (\<exists>t' \<in> set (tasks (fst w')). t_id t' = tid \<and> t_status t' = T_COMPLETED)"
proof -
  obtain db where db: "complete_txn dp tid tok out now (fst w) = Inr (Some (t_executionId t), db)"
    "run_txn (t_executionId t) (c_succeed (t_key t) (t_dependents t)) (fst w) db"
    using complete_txn_current[OF assms, of dp out now] by blast
  have inv: "db_inv db" by (rule run_txn_inv[OF assms(1) db(2)])
  have t: "t \<in> set (tasks (fst w))" "t_id t = tid" "t_status t = T_RUNNING" using assms(2) by (auto simp: current_def)
  obtain r where r: "view (t_executionId t) (fst w) = Some r" "crun_inv r" "ctask_of t \<in> set (cr_tasks r)"
    using db_inv_view[OF assms(1) t(1)] by metis
  have "run_tasks (spec_run (c_succeed (t_key t) (t_dependents t) r)) (t_key t) = Some T_COMPLETED"
    using crun_succeed(1)[OF r(2,3)] t(3) by (simp add: spec_succeed_def Let_def promote_def)
  moreover have "view (t_executionId t) db = Some (c_succeed (t_key t) (t_dependents t) r)"
    by (rule run_txn_status[OF db(2) r(1)])
  ultimately obtain t1 where t1: "t1 \<in> set (tasks db)" "t_executionId t1 = t_executionId t" "t_key t1 = t_key t" "t_status t1 = T_COMPLETED"
    using status_in_run by metis
  have "(t_id t, t_executionId t, t_key t) \<in> set (task_names db)"
    using db(2) t(1) by (force simp: run_txn_def updates_run_def task_names_def)
  then obtain t2 where "t2 \<in> set (tasks db)" "t_id t2 = tid" "t_executionId t2 = t_executionId t" "t_key t2 = t_key t"
    using t(2) by (auto simp: task_names_def)
  then have t1id: "t_id t1 = tid" using task_unique[OF inv, of t2 t1] t1 by simp
  obtain w' where w': "dispatchReady dp (t_executionId t) now (db, snd w) = Inr w'"
    using dispatchReady_total[of "(db, snd w)"] inv by fastforce
  have "(engine_step (\<lambda>_. True))\<^sup>*\<^sup>* (db, snd w) w'" using dispatchReady_steps[of "\<lambda>_. True", OF _ w'] by simp
  then have "\<exists>t' \<in> set (tasks (fst w')). t_id t' = tid \<and> t_status t' = T_COMPLETED"
    using task_persists_steps[of "(db, snd w)" _ w' t1] inv t1 t1id by fastforce
  then show ?thesis using db(1) w' by (simp add: completeTask_def)
qed

lemma completion_fenced_once_parts:
  assumes "reachable D w" "D dp"
  shows "(\<exists>t. current tid tok (fst w) t) \<Longrightarrow> \<exists>w'. completeTask dp tid tok out now w = Inr (True, w')"
    and "\<nexists>t. current tid tok (fst w) t \<Longrightarrow> completeTask dp tid tok out now w = Inr (False, w)"
    and "completeTask dp tid tok out now w = Inr (True, w') \<Longrightarrow> (engine_step D)\<^sup>*\<^sup>* w' w'' \<Longrightarrow>
      completeTask dp' tid tok' out' now' w'' = Inr (False, w'')
      \<and> failTask dp' tid tok' err now' w'' = Inr (\<lparr>f_applied = False, f_outcome = None, f_delayMs = None\<rparr>, w'')"
proof -
  have inv: "db_inv (fst w)" by (rule engine.reach_inv[OF assms(1)])
  show "\<exists>w'. completeTask dp tid tok out now w = Inr (True, w')" if "\<exists>t. current tid tok (fst w) t"
    using that completeTask_current[OF inv] by blast
  show "completeTask dp tid tok out now w = Inr (False, w)" if "\<nexists>t. current tid tok (fst w) t"
    using that by (rule completeTask_stale)
  assume c: "completeTask dp tid tok out now w = Inr (True, w')" and st: "(engine_step D)\<^sup>*\<^sup>* w' w''"
  have "\<exists>t. current tid tok (fst w) t" using c completeTask_stale[of tid tok w dp out now] by auto
  then obtain t where t: "t \<in> set (tasks (fst w'))" "t_id t = tid" "t_status t = T_COMPLETED"
    using completeTask_current[OF inv, of tid tok _ dp out now] c by auto
  have r': "reachable D w'" by (rule reach_rtranclp[OF assms(1) completeTask_steps[where D = D and dp = dp, OF assms(2) c]])
  have inv': "db_inv (fst w')" "db_inv (fst w'')"
    using engine.reach_inv[OF r'] engine.reach_inv[OF reach_rtranclp[OF r' st]] by simp_all
  obtain t' where "t' \<in> set (tasks (fst w''))" "t_id t' = tid" "t_status t' = T_COMPLETED"
    using task_persists_steps[OF inv'(1) st t(1)] t by auto
  then have "\<nexists>u. current tid tok' (fst w'') u" using not_current_terminal[OF inv'(2)] by auto
  then show "completeTask dp' tid tok' out' now' w'' = Inr (False, w'')
      \<and> failTask dp' tid tok' err now' w'' = Inr (\<lparr>f_applied = False, f_outcome = None, f_delayMs = None\<rparr>, w'')"
    by (simp add: completeTask_stale failTask_stale)
qed

text \<open>C9: completion is fenced, total and happens once. A completion report succeeds exactly when
  the task is running under the reported lease token; otherwise nothing changes. Once it has
  succeeded the task is completed, and no later completion or failure report for it, with any
  token, by any process, after any further steps of the system, changes anything.\<close>

theorem completion_fenced_once:
  assumes "reachable D w" "D dp"
  shows "((\<exists>t. current tid tok (fst w) t) \<longrightarrow> (\<exists>w'. completeTask dp tid tok out now w = Inr (True, w')))
    \<and> ((\<nexists>t. current tid tok (fst w) t) \<longrightarrow> completeTask dp tid tok out now w = Inr (False, w))
    \<and> (\<forall>w' w'' dp' tok' out' err now'.
        completeTask dp tid tok out now w = Inr (True, w') \<longrightarrow> (engine_step D)\<^sup>*\<^sup>* w' w'' \<longrightarrow>
        completeTask dp' tid tok' out' now' w'' = Inr (False, w'')
        \<and> failTask dp' tid tok' err now' w'' = Inr (\<lparr>f_applied = False, f_outcome = None, f_delayMs = None\<rparr>, w''))"
  using completion_fenced_once_parts[OF assms] by blast

theorem completion_fenced_once_witness:
  "completeTask demo_deps 1 1 (JNum 7) 20 demo2 = Inr (True, demo3)
   \<and> completeTask demo_deps 1 1 (JNum 8) 30 demo3 = Inr (False, demo3)
   \<and> completeTask demo_deps 1 0 (JNum 8) 30 demo2 = Inr (False, demo2)"
proof -
  have d3: "completeTask demo_deps 1 1 (JNum 7) 20 demo2 = Inr (True, demo3)"
  proof -
    obtain b where b: "completeTask demo_deps 1 1 (JNum 7) 20 demo2 = Inr (b, demo3)"
      using not_isl_world[OF demo_ok(2)] by (auto simp: demo3_def)
    have "fst (projr (completeTask demo_deps 1 1 (JNum 7) 20 demo2)) = True" by code_simp
    then show ?thesis using b by simp
  qed
  have "list_all (\<lambda>t. \<not> (t_id t = 1 \<and> t_status t = T_RUNNING \<and> t_leaseToken t = 0)) (tasks (fst demo2))" by code_simp
  then have "\<nexists>t. current 1 0 (fst demo2) t" by (auto simp: current_def list_all_iff)
  then show ?thesis
    using completion_fenced_once[where w = demo2 and dp = demo_deps and tid = 1 and tok = 0, OF demo_reachable(2)]
      completion_fenced_once[where w = demo2 and dp = demo_deps and tid = 1 and tok = 1, OF demo_reachable(2)] d3
    by blast
qed

section \<open>Failures\<close>

lemma failTask_current:
  fixes err :: "js_error option"
  assumes "db_inv (fst w)" "current tid tok (fst w) t" "find_execution (t_executionId t) (fst w) = Some e"
  shows "\<exists>db'. failTask dp tid tok err now w =
       Inr (\<lparr>f_applied = True, f_outcome = Some (fail_outcome err t e),
             f_delayMs = (if fail_outcome err t e = T_RETRYING then Some (dep_backoff dp (t_attempt t) (t_baseDelayMs t)) else None)\<rparr>,
            db', (if fail_outcome err t e = T_RETRYING
                  then enqueueRetrySafely dp t (dep_backoff dp (t_attempt t) (t_baseDelayMs t)) (snd w) else snd w))
     \<and> run_txn (t_executionId t) (if fail_outcome err t e = T_RETRYING then c_move (t_key t) T_RETRYING
                                  else c_fail (fail_outcome err t e) (t_key t)) (fst w) db'"
proof -
  obtain db' where db': "fail_txn dp tid tok err now (fst w)
       = Inr ((\<lparr>f_applied = True, f_outcome = Some (fail_outcome err t e),
                f_delayMs = (if fail_outcome err t e = T_RETRYING then Some (dep_backoff dp (t_attempt t) (t_baseDelayMs t)) else None)\<rparr>,
               (if fail_outcome err t e = T_RETRYING then Some t else None)), db')"
     "run_txn (t_executionId t) (if fail_outcome err t e = T_RETRYING then c_move (t_key t) T_RETRYING
                                  else c_fail (fail_outcome err t e) (t_key t)) (fst w) db'"
    using fail_txn_current[OF assms, of dp err now] by blast
  then show ?thesis by (cases "fail_outcome err t e = T_RETRYING") (simp_all add: failTask_def)
qed

text \<open>The run after a failure.\<close>

lemma failTask_run:
  fixes err :: "js_error option"
  assumes "db_inv (fst w)" "current tid tok (fst w) t" "find_execution (t_executionId t) (fst w) = Some e"
    "failTask dp tid tok err now w = Inr (res, w')" "view (t_executionId t) (fst w) = Some r"
  shows "\<exists>r'. view (t_executionId t) (fst w') = Some r' \<and> spec_run r' =
      (if fail_outcome err t e = T_RETRYING
       then (spec_run r)\<lparr>run_tasks := (run_tasks (spec_run r))(t_key t \<mapsto> T_RETRYING)\<rparr>
       else spec_fail (fail_outcome err t e) (t_key t) (spec_run r))"
proof -
  obtain db' q where w': "w' = (db', q)"
    and tx: "run_txn (t_executionId t) (if fail_outcome err t e = T_RETRYING then c_move (t_key t) T_RETRYING
         else c_fail (fail_outcome err t e) (t_key t)) (fst w) db'"
    using failTask_current[OF assms(1-3), of dp err now] assms(4) by auto
  have t: "t \<in> set (tasks (fst w))" "t_status t = T_RUNNING" using assms(2) by (auto simp: current_def)
  have r: "crun_inv r" "ctask_of t \<in> set (cr_tasks r)" "cr_status r = e_status e"
    using db_inv_view[OF assms(1) t(1)] assms(3,5) by (metis option.inject, metis option.inject, auto simp: view_Some)
  show ?thesis
  proof (cases "fail_outcome err t e = T_RETRYING")
    case True
    then have "quiet_move (cr_status r) (c_status (ctask_of t)) T_RETRYING"
      using t(2) r(3) by (auto simp: quiet_move_def fail_outcome_def split: if_splits)
    then show ?thesis using True crun_move(1)[OF r(1,2)] run_txn_status[OF tx assms(5)] w' by simp
  next
    case False
    then have "fail_outcome err t e \<in> {T_FAILED, T_DEAD_LETTER}" by (auto simp: fail_outcome_def)
    then show ?thesis using False crun_fail(1)[OF r(1,2)] t(2) run_txn_status[OF tx assms(5)] w' by simp
  qed
qed

text \<open>C10: a failure report under the current lease token has exactly one of three outcomes. It is
  retried, with the backoff delay and without touching the rest of the run, when the error is
  retryable, attempts remain and the run is live; it is dead-lettered when it is retryable and the
  attempts are used up; it fails otherwise. The last two apply fail-fast: in a live run every
  unstarted task is cancelled and the run has failed. The engine's run afterwards is exactly the
  specified one.\<close>

theorem failure_outcomes:
  fixes err :: "js_error option"
  assumes "reachable D w" "D dp" "current tid tok (fst w) t" "find_execution (t_executionId t) (fst w) = Some e"
    "observe (t_executionId t) w = Some (G, r)"
  shows "\<exists>res w'. failTask dp tid tok err now w = Inr (res, w') \<and> f_applied res
     \<and> f_outcome res = Some (if isRetryable err \<and> t_attempt t < t_maxAttempts t \<and> live (e_status e) then T_RETRYING
          else if isRetryable err \<and> t_maxAttempts t \<le> t_attempt t then T_DEAD_LETTER else T_FAILED)
     \<and> (f_outcome res = Some T_RETRYING \<longrightarrow>
          f_delayMs res = Some (dep_backoff dp (t_attempt t) (t_baseDelayMs t))
          \<and> observe (t_executionId t) w' = Some (G, r\<lparr>run_tasks := (run_tasks r)(t_key t \<mapsto> T_RETRYING)\<rparr>))
     \<and> (\<forall>s. f_outcome res = Some s \<longrightarrow> s \<noteq> T_RETRYING \<longrightarrow> observe (t_executionId t) w' = Some (G, spec_fail s (t_key t) r))"
proof -
  have inv: "db_inv (fst w)" by (rule engine.reach_inv[OF assms(1)])
  let ?i = "t_executionId t" and ?o = "fail_outcome err t e"
  obtain cr where cr: "view ?i (fst w) = Some cr" "G = gmap (cr_tasks cr)" "r = spec_run cr"
    using assms(5) by (auto simp: observe_def)
  obtain db' where f: "failTask dp tid tok err now w =
       Inr (\<lparr>f_applied = True, f_outcome = Some ?o,
             f_delayMs = (if ?o = T_RETRYING then Some (dep_backoff dp (t_attempt t) (t_baseDelayMs t)) else None)\<rparr>,
            db', (if ?o = T_RETRYING then enqueueRetrySafely dp t (dep_backoff dp (t_attempt t) (t_baseDelayMs t)) (snd w) else snd w))"
    and tx: "run_txn ?i (if ?o = T_RETRYING then c_move (t_key t) T_RETRYING else c_fail ?o (t_key t)) (fst w) db'"
    using failTask_current[OF inv assms(3,4), of dp err now] by blast
  obtain cr' where cr': "view ?i db' = Some cr'" "spec_run cr' =
      (if ?o = T_RETRYING then r\<lparr>run_tasks := (run_tasks r)(t_key t \<mapsto> T_RETRYING)\<rparr> else spec_fail ?o (t_key t) r)"
    using failTask_run[OF inv assms(3,4) f cr(1)] cr(3) by auto
  have "crun_step cr cr'" using tx cr(1) run_txn_status[OF tx cr(1)] cr'(1) by (simp add: run_txn_def)
  then have "gmap (cr_tasks cr') = G" using links_eqD(2)[OF crun_step_links] cr(2) by simp
  then have ob: "observe ?i (db', q) = Some (G, if ?o = T_RETRYING then r\<lparr>run_tasks := (run_tasks r)(t_key t \<mapsto> T_RETRYING)\<rparr>
      else spec_fail ?o (t_key t) r)" for q :: 'a using cr' by (simp add: observe_def)
  have o: "?o = (if isRetryable err \<and> t_attempt t < t_maxAttempts t \<and> live (e_status e) then T_RETRYING
          else if isRetryable err \<and> t_maxAttempts t \<le> t_attempt t then T_DEAD_LETTER else T_FAILED)"
    by (simp add: fail_outcome_def not_less)
  show ?thesis unfolding o[symmetric] f by (intro exI conjI, rule refl) (simp_all add: ob split: if_splits)
qed

theorem failure_outcomes_witness:
  "\<exists>res w'. failTask demo_deps 1 1 None 20 demo2 = Inr (res, w') \<and> f_outcome res = Some T_RETRYING \<and> f_delayMs res = Some 1000"
proof -
  let ?t = "hd (tasks (fst demo2))" and ?e = "hd (executions (fst demo2))"
  have t: "current 1 1 (fst demo2) ?t" unfolding current_def by code_simp
  have ex: "find_execution (t_executionId ?t) (fst demo2) = Some ?e" by code_simp
  have "observe (t_executionId ?t) demo2 \<noteq> None" using ex by (simp add: observe_def view_def)
  then obtain G r where ob: "observe (t_executionId ?t) demo2 = Some (G, r)" by auto
  have v: "t_attempt ?t < t_maxAttempts ?t" "live (e_status ?e)" "isRetryable None"
    "dep_backoff demo_deps (t_attempt ?t) (t_baseDelayMs ?t) = 1000"
    unfolding live_def by code_simp+
  show ?thesis
    using failure_outcomes[where D = "\<lambda>_. True" and dp = demo_deps and err = None and now = 20,
        OF demo_reachable(2) _ t ex ob] v by auto
qed

section \<open>Claims and leases\<close>

lemma moved_mem:
  assumes "db_ok db" "t \<in> set (tasks db)" "t_id t' = t_id t" "u \<in> set (tasks (moved t t' db))" "t_id u = t_id t"
  shows "u = t'"
proof -
  obtain v where v: "v \<in> set (tasks db)" "u = (if v = t then t' else v)"
    using assms(4) by (auto simp: moved_def set_update_where)
  then have "v = t" using assms distinct_map_eqD[OF db_okD(2)[OF assms(1)] v(1) assms(2)] by (auto split: if_splits)
  then show ?thesis using v by simp
qed

lemma claim_exclusive_parts:
  assumes "reachable D (db, q)" "claimTask tid wid ms mnow db = Inr (Some t, db')"
  shows "mnow2 \<le> mnow + ms \<Longrightarrow> claimTask tid wid2 ms2 mnow2 db' = Inr (None, db')"
    and "\<exists>t0 \<in> set (tasks db). t_id t0 = tid \<and> claimable mnow t0 \<and> t_leaseToken t = t_leaseToken t0 + 1
           \<and> t_attempt t = t_attempt t0 + 1"
    and "tok \<noteq> t_leaseToken t \<Longrightarrow>
      completeTask dp tid tok out now (db', q) = Inr (False, db', q)
      \<and> failTask dp tid tok err now (db', q) = Inr (\<lparr>f_applied = False, f_outcome = None, f_delayMs = None\<rparr>, db', q)
      \<and> fst (renewTaskLease tid tok ms3 mnow3 db') = False"
    and "fst (renewTaskLease tid (t_leaseToken t) ms3 mnow3 db')"
proof -
  have inv: "db_inv db" using engine.reach_inv[OF assms(1)] by simp
  then have ok: "db_ok db" by (simp add: db_inv_def)
  obtain t0 where t0: "t0 \<in> set (tasks db)" "t_id t0 = tid" "claimable mnow t0" "t = claim_update wid ms mnow t0"
    "db' = moved t0 t db" "run_txn (t_executionId t0) (c_move (t_key t0) T_RUNNING) db db'"
    using claimTask_cases[OF inv assms(2)] by auto
  have inv': "db_inv db'" by (rule run_txn_inv[OF inv t0(6)])
  have tid: "t_id t = t_id t0" using t0(4) by (simp add: claim_update_def)
  have only: "u = t" if "u \<in> set (tasks db')" "t_id u = tid" for u
    using moved_mem[OF ok t0(1) tid] that t0(2,5) by simp
  have mem: "t \<in> set (tasks db')" using t0(1,5) by (force simp: moved_def set_update_where)
  show "claimTask tid wid2 ms2 mnow2 db' = Inr (None, db')" if "mnow2 \<le> mnow + ms"
  proof -
    have "\<not> claimable mnow2 t" using t0(4) that by (simp add: claimable_def claim_update_def lease_expired_def)
    then have "List.find (\<lambda>t. t_id t = tid \<and> claimable mnow2 t) (tasks db') = None"
      using only by (auto simp: find_None_iff_all)
    then show ?thesis by (simp add: claimTask_eq)
  qed
  show "\<exists>t0 \<in> set (tasks db). t_id t0 = tid \<and> claimable mnow t0 \<and> t_leaseToken t = t_leaseToken t0 + 1
           \<and> t_attempt t = t_attempt t0 + 1"
    using t0 by (auto simp: claim_update_def)
  have cnt: "count_where (\<lambda>t. t_id t = tid \<and> t_status t = T_RUNNING \<and> t_leaseToken t = tok) (tasks db')
      = (if tok = t_leaseToken t then 1 else 0)" for tok
  proof -
    have "count_where (\<lambda>t. t_id t = tid \<and> t_status t = T_RUNNING \<and> t_leaseToken t = tok) (tasks db')
      = (if \<exists>t \<in> set (tasks db'). t_id t = tid \<and> t_status t = T_RUNNING \<and> t_leaseToken t = tok then 1 else 0)"
      using inv' by (intro count_where_unique[OF db_okD(2)]) (auto simp: db_inv_def)
    moreover have "t_status t = T_RUNNING" using t0(4) by (simp add: claim_update_def)
    then have "(\<exists>t \<in> set (tasks db'). t_id t = tid \<and> t_status t = T_RUNNING \<and> t_leaseToken t = tok) \<longleftrightarrow> tok = t_leaseToken t"
      using only mem tid t0(2) by metis
    ultimately show ?thesis by simp
  qed
  show "fst (renewTaskLease tid (t_leaseToken t) ms3 mnow3 db')"
    using cnt[of "t_leaseToken t"] by (simp add: renewTaskLease_def Let_def)
  assume tok: "tok \<noteq> t_leaseToken t"
  then have "\<nexists>u. current tid tok (fst (db', q)) u" using only by (auto simp: current_def)
  then show "completeTask dp tid tok out now (db', q) = Inr (False, db', q)
      \<and> failTask dp tid tok err now (db', q) = Inr (\<lparr>f_applied = False, f_outcome = None, f_delayMs = None\<rparr>, db', q)
      \<and> fst (renewTaskLease tid tok ms3 mnow3 db') = False"
    using completeTask_stale[of tid tok "(db', q)" dp out now] failTask_stale[of tid tok "(db', q)" dp err now] tok
    by (simp add: renewTaskLease_def Let_def cnt)
qed

text \<open>C11: a claim is exclusive until its lease runs out, and fences the previous holder. After a
  worker claimed a task, every other claim before the end of the lease, by MongoDB's clock, is
  refused; the claim raised the lease token by one, so that a report or a renewal under any other
  token, also the one of the worker that lost its lease, changes nothing; and the holder's own
  renewal succeeds and restarts the lease.\<close>

theorem claim_exclusive:
  assumes "reachable D (db, q)" "claimTask tid wid ms mnow db = Inr (Some t, db')"
  shows "(mnow2 \<le> mnow + ms \<longrightarrow> claimTask tid wid2 ms2 mnow2 db' = Inr (None, db'))
    \<and> (\<exists>t0 \<in> set (tasks db). t_id t0 = tid \<and> claimable mnow t0 \<and> t_leaseToken t = t_leaseToken t0 + 1
           \<and> t_attempt t = t_attempt t0 + 1)
    \<and> (tok \<noteq> t_leaseToken t \<longrightarrow>
      completeTask dp tid tok out now (db', q) = Inr (False, db', q)
      \<and> failTask dp tid tok err now (db', q) = Inr (\<lparr>f_applied = False, f_outcome = None, f_delayMs = None\<rparr>, db', q)
      \<and> fst (renewTaskLease tid tok ms3 mnow3 db') = False)
    \<and> fst (renewTaskLease tid (t_leaseToken t) ms3 mnow3 db')"
  using claim_exclusive_parts[OF assms] by blast

theorem claim_exclusive_witness:
  "\<exists>t db'. claimTask 1 ''w1'' 15000 10 (fst demo1) = Inr (Some t, db') \<and> claimTask 1 ''w2'' 15000 10000 db' = Inr (None, db')"
proof -
  have "\<not> isl (claimTask 1 ''w1'' 15000 10 (fst demo1)) \<and> fst (projr (claimTask 1 ''w1'' 15000 10 (fst demo1))) \<noteq> None"
    by code_simp
  then obtain t db' where c: "claimTask 1 ''w1'' 15000 10 (fst demo1) = Inr (Some t, db')"
    by (cases "claimTask 1 ''w1'' 15000 10 (fst demo1)") auto
  have "reachable (\<lambda>_. True) (fst demo1, snd demo1)" using demo_reachable(1) by (simp only: prod.collapse)
  from claim_exclusive[OF this c, of 10000 "''w2''" 15000] c show ?thesis by auto
qed

section \<open>Starting runs\<close>

lemma startExecution_behaviour_parts:
  assumes "reachable D w" "w_tasks wfl \<noteq> []"
  shows "\<not> is_dag (w_tasks wfl) \<Longrightarrow> startExecution dp wfl sp now w = Inl (ValidationError ''INVALID_WORKFLOW_GRAPH'')"
    and "is_dag (w_tasks wfl) \<Longrightarrow> \<exists>t \<in> set (w_tasks wfl). d_dependsOn t = None \<Longrightarrow>
      startExecution dp wfl sp now w = Inl NullDereference"
    and "is_dag (w_tasks wfl) \<Longrightarrow> \<forall>t \<in> set (w_tasks wfl). d_dependsOn t \<noteq> None \<Longrightarrow> idempotency_taken sp (fst w) \<Longrightarrow>
      startExecution dp wfl sp now w = Inl (DuplicateKey IxIdempotency)"
    and "is_dag (w_tasks wfl) \<Longrightarrow> \<forall>t \<in> set (w_tasks wfl). d_dependsOn t \<noteq> None \<Longrightarrow> \<not> idempotency_taken sp (fst w) \<Longrightarrow>
      \<exists>e db w'. start_run dp wfl sp now (fst w) = Inr (e, db) \<and> startExecution dp wfl sp now w = Inr (e, w')
        \<and> observe (e_id e) w = None
        \<and> observe (e_id e) (db, snd w) = Some (def_graph (w_tasks wfl), run_init (def_graph (w_tasks wfl)))
        \<and> (sp_idempotencyKey sp \<noteq> None \<longrightarrow> idempotency_taken sp db)"
proof -
  have inv: "db_inv (fst w)" by (rule engine.reach_inv[OF assms(1)])
  show "\<not> is_dag (w_tasks wfl) \<Longrightarrow> startExecution dp wfl sp now w = Inl (ValidationError ''INVALID_WORKFLOW_GRAPH'')"
    by (simp add: startExecution_def start_run_eq)
  show "is_dag (w_tasks wfl) \<Longrightarrow> \<exists>t \<in> set (w_tasks wfl). d_dependsOn t = None \<Longrightarrow>
      startExecution dp wfl sp now w = Inl NullDereference"
    by (simp add: startExecution_def start_run_eq)
  assume dag: "is_dag (w_tasks wfl)" and ds: "\<forall>t \<in> set (w_tasks wfl). d_dependsOn t \<noteq> None"
  then have g: "graph_ok (w_tasks wfl)" by (simp add: is_dag_def)
  obtain ch where ch: "children_map (w_tasks wfl) = Inr ch" using children_map_ok[OF g] by metis
  have sr: "start_run dp wfl sp now (fst w) = start_txn dp wfl ch sp now (fst w)"
    using dag ds ch by (auto simp: start_run_eq)
  have d: "distinct (map t_key (new_tasks wfl ch now (next_id (fst w))))"
    using graph_okD(1)[OF g] by (simp add: new_tasks_keys)
  show "idempotency_taken sp (fst w) \<Longrightarrow> startExecution dp wfl sp now w = Inl (DuplicateKey IxIdempotency)"
    by (simp add: startExecution_def sr start_txn_def Let_def)
  assume free: "\<not> idempotency_taken sp (fst w)"
  obtain e db where e: "start_run dp wfl sp now (fst w) = Inr (e, db)"
    "executions db = executions (fst w) @ [new_execution wfl sp now (next_id (fst w))]"
    using free d unfolding sr by (simp add: start_txn_def Let_def)
  note ok = start_run_ok[OF inv e(1) assms(2)]
  obtain w' where w': "dispatchReady dp (e_id e) now (db, snd w) = Inr w'"
    using dispatchReady_total[of "(db, snd w)"] ok(1) by fastforce
  have "startExecution dp wfl sp now w = Inr (e, w')" using e(1) w' by (simp add: startExecution_def)
  moreover have "observe (e_id e) w = None" using ok(2,5) by (simp add: observe_def)
  moreover have "observe (e_id e) (db, snd w) = Some (def_graph (w_tasks wfl), run_init (def_graph (w_tasks wfl)))"
    using ok(2,3) spec_init[OF graph_okD(1)[OF g]] by (simp add: observe_def init_crun_def gmap_init)
  moreover have "sp_idempotencyKey sp \<noteq> None \<longrightarrow> idempotency_taken sp db"
    using e(2) by (simp add: idempotency_taken_def new_execution_def)
  ultimately show "\<exists>e db w'. start_run dp wfl sp now (fst w) = Inr (e, db) \<and> startExecution dp wfl sp now w = Inr (e, w')
        \<and> observe (e_id e) w = None
        \<and> observe (e_id e) (db, snd w) = Some (def_graph (w_tasks wfl), run_init (def_graph (w_tasks wfl)))
        \<and> (sp_idempotencyKey sp \<noteq> None \<longrightarrow> idempotency_taken sp db)"
    using e(1) by blast
qed

text \<open>C12: what \<open>startExecution\<close> does. It fails with a validation error exactly for graphs that are not
  acyclic, with a type error for an absent dependency list, and with a duplicate-key error when the
  caller's idempotency key is taken; otherwise it creates one run in its initial state, with the
  workflow's graph, every task \<open>READY\<close> or \<open>PENDING\<close> by its dependencies. In particular a second
  start under the same key never creates a second run.\<close>

theorem startExecution_behaviour:
  assumes "reachable D w" "w_tasks wfl \<noteq> []"
  shows "(\<not> is_dag (w_tasks wfl) \<longrightarrow>
      startExecution dp wfl sp now w = Inl (ValidationError ''INVALID_WORKFLOW_GRAPH''))
    \<and> (is_dag (w_tasks wfl) \<longrightarrow> (\<exists>t \<in> set (w_tasks wfl). d_dependsOn t = None) \<longrightarrow>
      startExecution dp wfl sp now w = Inl NullDereference)
    \<and> (is_dag (w_tasks wfl) \<longrightarrow> (\<forall>t \<in> set (w_tasks wfl). d_dependsOn t \<noteq> None) \<longrightarrow> idempotency_taken sp (fst w) \<longrightarrow>
      startExecution dp wfl sp now w = Inl (DuplicateKey IxIdempotency))
    \<and> (is_dag (w_tasks wfl) \<longrightarrow> (\<forall>t \<in> set (w_tasks wfl). d_dependsOn t \<noteq> None) \<longrightarrow> \<not> idempotency_taken sp (fst w) \<longrightarrow>
      (\<exists>e db w'. start_run dp wfl sp now (fst w) = Inr (e, db) \<and> startExecution dp wfl sp now w = Inr (e, w')
        \<and> observe (e_id e) w = None
        \<and> observe (e_id e) (db, snd w) = Some (def_graph (w_tasks wfl), run_init (def_graph (w_tasks wfl)))
        \<and> (sp_idempotencyKey sp \<noteq> None \<longrightarrow> idempotency_taken sp db)))"
  using startExecution_behaviour_parts[OF assms] by blast

theorem startExecution_behaviour_witness:
  "startExecution demo_deps demo_workflow demo_params 50 demo1 = Inl (DuplicateKey IxIdempotency)
   \<and> startExecution demo_deps (demo_workflow\<lparr>w_tasks := [demo_def ''a'' [''b''], demo_def ''b'' [''a'']]\<rparr>) demo_params 50 demo1
     = Inl (ValidationError ''INVALID_WORKFLOW_GRAPH'')"
proof -
  have v: "validateDag (w_tasks demo_workflow) = Inr \<lparr>valid = True, errors = [], order = [''a'', ''b''], levels = [[''a''], [''b'']]\<rparr>"
    by code_simp
  have dag: "is_dag (w_tasks demo_workflow)"
  proof (rule ccontr)
    assume n: "\<not> is_dag (w_tasks demo_workflow)"
    show False by (rule validateDag_cases[of "w_tasks demo_workflow"])
      (use v n topological_no_cycle[of "w_tasks demo_workflow"] in \<open>auto simp: is_dag_def kahn_inv_def\<close>)
  qed
  have dep: "\<forall>t \<in> set (w_tasks demo_workflow). d_dependsOn t \<noteq> None" by (simp add: demo_workflow_def demo_def_def)
  have taken: "idempotency_taken demo_params (fst demo1)" by code_simp
  let ?bad = "demo_workflow\<lparr>w_tasks := [demo_def ''a'' [''b''], demo_def ''b'' [''a'']]\<rparr>"
  have c: "dependency_cycle (w_tasks ?bad) [''a'', ''b'', ''a'']"
    by (simp add: dependency_cycle_def deps_of_def deps_def demo_def_def)
  then have "\<not> is_dag (w_tasks ?bad)" by (auto simp: is_dag_def)
  then show ?thesis
    using startExecution_behaviour[where wfl = demo_workflow and sp = demo_params, OF demo_reachable(1)] dag dep taken
      startExecution_behaviour[where wfl = ?bad, OF demo_reachable(1)]
    by (simp add: demo_workflow_def)
qed

end
