(* ===== verification/Wf_Engine_Tasks.thy ===== *)
theory Wf_Engine_Tasks
  imports Wf_Engine_Reports
begin

text \<open>
  What the engine may do to a single task document over time: its lease token never decreases, and
  it becomes running only under a new token; its attempt number never decreases, and attempt
  records never run ahead of it; and a task that is ready, queued or retrying carries
  the time stamp by which the reconciler finds it.
\<close>

section \<open>Admissible changes of a task document\<close>

definition stamped :: "task \<Rightarrow> bool" where
  "stamped t \<longleftrightarrow> (t_status t = T_READY \<longrightarrow> t_readyAt t \<noteq> None) \<and> (t_status t = T_QUEUED \<longrightarrow> t_queuedAt t \<noteq> None)
     \<and> (t_status t = T_RETRYING \<longrightarrow> t_retryAt t \<noteq> None)"

definition task_rel :: "task \<Rightarrow> task \<Rightarrow> bool" where
  "task_rel t t' \<longleftrightarrow> t_id t' = t_id t \<and> t_attempt t \<le> t_attempt t' \<and> (stamped t \<longrightarrow> stamped t')
     \<and> (t_leaseToken t' = t_leaseToken t \<and> (t_status t' = T_RUNNING \<longrightarrow> t_status t = T_RUNNING)
        \<or> t_leaseToken t < t_leaseToken t')"

definition tasks_evolve :: "task list \<Rightarrow> task list \<Rightarrow> bool" where
  "tasks_evolve ts ts' \<longleftrightarrow> (\<exists>xs ys. ts' = xs @ ys \<and> list_all2 task_rel ts xs \<and> list_all stamped ys)"

lemma task_rel_refl [simp]: "task_rel t t"
  by (simp add: task_rel_def)

lemma task_rel_trans: "task_rel t t' \<Longrightarrow> task_rel t' t'' \<Longrightarrow> task_rel t t''"
  by (auto simp: task_rel_def)

lemma tasks_evolve_refl [simp]: "tasks_evolve ts ts"
  unfolding tasks_evolve_def by (intro exI[of _ ts] exI[of _ "[]"]) (simp add: list.rel_refl)

lemma tasks_evolve_trans:
  assumes "tasks_evolve ts ts'" "tasks_evolve ts' ts''"
  shows "tasks_evolve ts ts''"
proof -
  obtain xs ys where 1: "ts' = xs @ ys" "list_all2 task_rel ts xs" "list_all stamped ys"
    using assms(1) by (auto simp: tasks_evolve_def)
  obtain xs' ys' zs where 2: "ts'' = (xs' @ ys') @ zs" "list_all2 task_rel xs xs'" "list_all2 task_rel ys ys'" "list_all stamped zs"
    using assms(2) 1(1) by (auto simp: tasks_evolve_def list_all2_append1)
  have "list_all stamped ys'"
    using 1(3) 2(3) by (auto simp: list_all_length list_all2_conv_all_nth task_rel_def)
  moreover have "list_all2 task_rel ts xs'" by (rule list_all2_trans[OF _ 1(2) 2(2)]) (rule task_rel_trans)
  ultimately show ?thesis using 2(1,4) unfolding tasks_evolve_def by (metis append.assoc list_all_append)
qed

lemma evolve_update:
  "(\<And>t. t \<in> set ts \<Longrightarrow> P t \<Longrightarrow> task_rel t (f t)) \<Longrightarrow> tasks_evolve ts (update_where P f ts)"
  unfolding tasks_evolve_def update_where_def
  by (intro exI[of _ "map (\<lambda>x. if P x then f x else x) ts"] exI[of _ "[]"]) (simp add: list_all2_conv_all_nth)

lemma evolve_append: "list_all stamped ys \<Longrightarrow> tasks_evolve ts (ts @ ys)"
  unfolding tasks_evolve_def by (intro exI[of _ ts] exI[of _ ys]) (simp add: list.rel_refl)

lemma evolve_task:
  assumes "tasks_evolve ts ts'" "t \<in> set ts"
  shows "\<exists>t' \<in> set ts'. task_rel t t'"
proof -
  obtain xs ys where *: "ts' = xs @ ys" "list_all2 task_rel ts xs" using assms(1) by (auto simp: tasks_evolve_def)
  obtain n where "n < length ts" "t = ts ! n" using assms(2) by (auto simp: in_set_conv_nth)
  then have "task_rel t (xs ! n)" "xs ! n \<in> set xs"
    using *(2) list_all2_lengthD[OF *(2)] by (simp_all add: list_all2_nthD)
  then show ?thesis using *(1) by auto
qed

lemma evolve_stamped: "tasks_evolve ts ts' \<Longrightarrow> list_all stamped ts \<Longrightarrow> list_all stamped ts'"
proof -
  have *: "list_all2 task_rel ts xs \<Longrightarrow> list_all stamped ts \<Longrightarrow> list_all stamped xs" for xs
    by (induction rule: list_all2_induct) (simp_all add: task_rel_def)
  show "tasks_evolve ts ts' \<Longrightarrow> list_all stamped ts \<Longrightarrow> list_all stamped ts'"
    unfolding tasks_evolve_def using * by auto
qed

section \<open>Every transaction of the engine\<close>

text \<open>The operations on the database, as changes of its tasks.\<close>

lemma transitionTask_evolves:
  assumes "transitionTask i s s' wher upd db = Inr (b, db')"
    "\<And>t. t_status t = s \<Longrightarrow> task_rel t ((upd t)\<lparr>t_status := s'\<rparr>)"
  shows "tasks_evolve (tasks db) (tasks db')"
  using assms(1) by (auto simp: transitionTask_def bind_result_eq_Inr Let_def intro!: evolve_update assms(2))

lemma task_simps_other [simp]:
  "tasks (emit dp ty i pl now db) = tasks db" "tasks (inc_pending n i db) = tasks db"
  "tasks (set_execution_status i s u db) = tasks db"
  by (simp_all add: emit_def inc_pending_def set_execution_status_def)

lemma release_evolves: "tasks_evolve (tasks db) (tasks (release_dependents task db))"
  by (auto simp: release_dependents_def task_rel_def stamped_def intro!: evolve_update)

lemma promote_evolves:
  "tasks_evolve (tasks db) (tasks (promote_dependents task now db))"
  "tasks_evolve (tasks db) (tasks (promote_ready i now db))"
  by (auto simp: promote_dependents_def promote_ready_def task_rel_def stamped_def intro!: evolve_update)

lemma cancel_evolves:
  assumes "\<And>t. t_id (upd t) = t_id t \<and> t_leaseToken (upd t) = t_leaseToken t \<and> t_attempt (upd t) = t_attempt t"
  shows "tasks_evolve (tasks db) (tasks (snd (cancel_tasks S i upd db)))"
  using assms by (auto simp: cancel_tasks_def Let_def task_rel_def stamped_def intro!: evolve_update)

lemma after_succeeded_evolves:
  assumes "afterTaskSucceeded dp task now db = Inr db'"
  shows "tasks_evolve (tasks db) (tasks db')"
proof -
  have "tasks_evolve (tasks db) (tasks (promote_dependents task now (release_dependents task (inc_pending n i db))))" for n i
    using tasks_evolve_trans[OF release_evolves promote_evolves(1)] by (metis task_simps_other(2))
  moreover have "tasks_evolve (tasks db) (tasks (release_dependents task (inc_pending n i db)))" for n i
    using release_evolves[of "inc_pending n i db"] by simp
  ultimately show ?thesis
    using assms by (auto simp: afterTaskSucceeded_def Let_def bind_result_eq_Inr split: option.splits if_splits)
qed

lemma after_failed_evolves:
  assumes "afterTaskFailedForGood dp task outcome msg rt now db = Inr db'"
  shows "tasks_evolve (tasks db) (tasks db')"
  using assms cancel_evolves[where upd = "\<lambda>t. t\<lparr>t_completedAt := Some now\<rparr>" and S = unstarted and i = "t_executionId task"
      and db = "inc_pending (- 1) (t_executionId task) db"]
  by (auto simp: afterTaskFailedForGood_def Let_def bind_result_eq_Inr split_beta split: option.splits if_splits)

text \<open>A guarded transition followed by the rest of the transaction.\<close>

lemma complete_evolves:
  assumes "complete_txn dp i tok out now db = Inr (r, db')"
  shows "tasks_evolve (tasks db) (tasks db')"
proof -
  obtain b db1 where t: "transitionTask i T_RUNNING T_COMPLETED (\<lambda>t. t_leaseToken t = tok)
       (\<lambda>t. t\<lparr>t_output := out, t_completedAt := Some now, t_leaseOwner := None, t_leaseExpiresAt := None\<rparr>) db = Inr (b, db1)"
    and r: "db' = db1 \<or> (\<exists>task n upd. afterTaskSucceeded dp task now (close_attempt i n upd db1) = Inr db')"
    using assms unfolding complete_txn_def by (auto simp: bind_result_eq_Inr split: if_splits option.splits) blast
  have "tasks_evolve (tasks db) (tasks db1)"
    by (rule transitionTask_evolves[OF t]) (simp add: task_rel_def stamped_def)
  moreover have "tasks_evolve (tasks db1) (tasks db')" using r after_succeeded_evolves by (metis close_attempt_simps(2) tasks_evolve_refl)
  ultimately show ?thesis by (rule tasks_evolve_trans)
qed

lemma fail_retry_evolves:
  assumes "fail_retry dp task msg now db = Inr (r, db')"
  shows "tasks_evolve (tasks db) (tasks db')"
proof -
  define d where "d = dep_backoff dp (t_attempt task) (t_baseDelayMs task)"
  obtain b db1 where t: "transitionTask (t_id task) T_RUNNING T_RETRYING (\<lambda>t. t_leaseToken t = t_leaseToken task)
       (\<lambda>t. t\<lparr>t_error := Some msg, t_leaseOwner := None, t_leaseExpiresAt := None, t_retryAt := Some (now + d)\<rparr>) db = Inr (b, db1)"
    and r: "tasks db' = tasks db1"
    using assms unfolding fail_retry_def Let_def d_def by (auto simp: bind_result_eq_Inr split: if_splits)
  show ?thesis unfolding r by (rule transitionTask_evolves[OF t]) (simp add: task_rel_def stamped_def)
qed

lemma fail_terminal_evolves:
  assumes "fail_terminal dp task outcome msg rt now db = Inr (r, db')"
  shows "tasks_evolve (tasks db) (tasks db')"
proof -
  obtain b db1 where t: "transitionTask (t_id task) T_RUNNING T_FAILED (\<lambda>t. t_leaseToken t = t_leaseToken task)
       (\<lambda>t. t\<lparr>t_error := Some msg, t_completedAt := Some now, t_leaseOwner := None, t_leaseExpiresAt := None\<rparr>) db = Inr (b, db1)"
    and r: "db' = db1 \<or> (\<exists>b2 db2. (transitionTask (t_id task) T_FAILED T_DEAD_LETTER (\<lambda>_. True) (\<lambda>t. t) db1 = Inr (b2, db2)
       \<or> db2 = db1) \<and> afterTaskFailedForGood dp task outcome msg rt now db2 = Inr db')"
    using assms unfolding fail_terminal_def by (auto simp: bind_result_eq_Inr split: if_splits)
  have 1: "tasks_evolve (tasks db) (tasks db1)"
    by (rule transitionTask_evolves[OF t]) (simp add: task_rel_def stamped_def)
  have 2: "tasks_evolve (tasks db1) (tasks db2)"
    if "transitionTask (t_id task) T_FAILED T_DEAD_LETTER (\<lambda>_. True) (\<lambda>t. t) db1 = Inr (b2, db2)" for b2 db2
    by (rule transitionTask_evolves[OF that]) (simp add: task_rel_def stamped_def)
  show ?thesis using r 1 2 after_failed_evolves tasks_evolve_trans by metis
qed

lemma fail_evolves:
  assumes "fail_txn dp i tok err now db = Inr (r, db')"
  shows "tasks_evolve (tasks db) (tasks db')"
proof -
  have "db' = db \<or> (\<exists>task msg n upd. fail_retry dp task msg now (close_attempt i n upd db) = Inr (r, db'))
     \<or> (\<exists>task outcome msg rt n upd. fail_terminal dp task outcome msg rt now (close_attempt i n upd db) = Inr (r, db'))"
    using assms unfolding fail_txn_def Let_def by (auto split: option.splits if_splits)
  then show ?thesis using fail_retry_evolves fail_terminal_evolves by (metis close_attempt_simps(2) tasks_evolve_refl)
qed

lemma suspend_evolves:
  assumes "suspendForApproval dp i tok rq now db = Inr (b, db')"
  shows "tasks_evolve (tasks db) (tasks db')"
proof -
  obtain b db1 where t: "transitionTask i T_RUNNING T_WAITING_FOR_APPROVAL (\<lambda>t. t_leaseToken t = tok)
       (\<lambda>t. t\<lparr>t_leaseOwner := None, t_leaseExpiresAt := None\<rparr>) db = Inr (b, db1)" and r: "tasks db' = tasks db1"
    using assms unfolding suspendForApproval_def by (auto simp: bind_result_eq_Inr Let_def split: if_splits option.splits)
  show ?thesis unfolding r by (rule transitionTask_evolves[OF t]) (simp add: task_rel_def stamped_def)
qed

lemma resolve_evolves:
  assumes "resolve_txn dp aid dec by cm scope now db = Inr (r, db')"
  shows "tasks_evolve (tasks db) (tasks db')"
proof (cases "List.find (\<lambda>p. p_id p = aid \<and> p_status p = P_PENDING \<and> scope p) (approvals db)")
  case (Some p)
  let ?to = "if dec = P_APPROVED then T_COMPLETED else T_FAILED"
  let ?upd = "\<lambda>t. if dec = P_APPROVED
        then t\<lparr>t_output := JObj [(''approved'', JBool True), (''decidedBy'', json_opt JId by),
                                 (''comment'', json_opt JStr cm), (''decidedAt'', JDate now)], t_completedAt := Some now\<rparr>
        else t\<lparr>t_error := Some (decision_error dec cm), t_completedAt := Some now\<rparr>"
  let ?db0 = "db\<lparr>approvals := update_where (\<lambda>p. p_id p = aid \<and> p_status p = P_PENDING \<and> scope p)
        (\<lambda>p. p\<lparr>p_status := dec, p_decidedBy := by, p_decidedAt := Some now, p_comment := cm\<rparr>) (approvals db)\<rparr>"
  obtain b db1 where t: "transitionTask (p_taskId p) T_WAITING_FOR_APPROVAL ?to (\<lambda>_. True) ?upd ?db0 = Inr (b, db1)"
    and k: "\<exists>task db2. (afterTaskSucceeded dp task now db1 = Inr db2 \<or> (\<exists>oc m. afterTaskFailedForGood dp task oc m False now db1 = Inr db2))
       \<and> tasks db' = tasks db2"
    using assms unfolding resolve_txn_def Let_def Some option.case
    by (elim bind_result_InrE) (auto elim!: bind_result_InrE split: option.splits if_splits, blast+)
  have "tasks_evolve (tasks ?db0) (tasks db1)"
    by (rule transitionTask_evolves[OF t]) (simp add: task_rel_def stamped_def)
  moreover from k obtain task db2 where d: "tasks db' = tasks db2"
    "afterTaskSucceeded dp task now db1 = Inr db2 \<or> (\<exists>oc m. afterTaskFailedForGood dp task oc m False now db1 = Inr db2)"
    by blast
  have "tasks_evolve (tasks db1) (tasks db')"
    unfolding d(1) using d(2) after_succeeded_evolves after_failed_evolves by blast
  ultimately show ?thesis using tasks_evolve_trans by fastforce
qed (use assms in \<open>simp add: resolve_txn_def Let_def\<close>)

section \<open>Every step\<close>

lemma new_task_stamped: "stamped (new_task wfl ch now eid i def)"
  by (simp add: stamped_def new_task_def Let_def)

lemma start_evolves:
  assumes "start_run dp wfl sp now db = Inr (e, db')"
  shows "tasks_evolve (tasks db) (tasks db')"
proof -
  have "\<exists>ch. tasks db' = tasks db @ new_tasks wfl ch now (next_id db)"
    using assms by (auto simp: start_run_def start_txn_def Let_def elim!: bind_result_InrE split: if_splits) metis
  then show ?thesis
    by (auto simp: new_tasks_def list_all_iff new_task_stamped intro!: evolve_append)
qed

lemma claim_evolves:
  assumes "claimTask i wid ms mnow db = Inr (r, db')"
  shows "tasks_evolve (tasks db) (tasks db')"
  using assms by (auto simp: claimTask_eq Let_def task_rel_def stamped_def claim_update_def split: option.splits intro!: evolve_update)

lemma dispatch_evolves:
  assumes "dispatchTask dp now t w = Inr (b, w')"
  shows "tasks_evolve (tasks (fst w)) (tasks (fst w'))"
proof -
  obtain won where "transitionTask (t_id t) T_READY T_QUEUED (\<lambda>_. True) (\<lambda>t. t\<lparr>t_queuedAt := Some now\<rparr>) (fst w) = Inr (won, fst w')"
    using assms unfolding dispatchTask_def by (auto elim!: bind_result_InrE split: if_splits)
  then show ?thesis by (rule transitionTask_evolves) (simp add: task_rel_def stamped_def)
qed

lemma resume_evolves:
  assumes "resume_txn dp i now db = Inr (b, db')"
  shows "tasks_evolve (tasks db) (tasks db')"
proof -
  have "tasks_evolve (tasks db) (tasks (promote_ready i now db1))" if "tasks db1 = tasks db" for db1
    using promote_evolves(2)[of db1 i now] that by simp
  then show ?thesis
    using assms by (auto simp: resume_txn_def Let_def elim!: bind_result_InrE split: option.splits if_splits)
qed

lemma cancel_run_evolves:
  assumes "cancelExecution dp i now db = Inr (b, db')"
  shows "tasks_evolve (tasks db) (tasks db')"
  using assms cancel_evolves[where upd = "\<lambda>t. t\<lparr>t_completedAt := Some now, t_leaseOwner := None, t_leaseExpiresAt := None\<rparr>"
      and S = unfinished and i = i and db = db]
  by (auto simp: cancelExecution_def Let_def split_beta elim!: bind_result_InrE split: option.splits if_splits)

lemma engine_step_evolves:
  assumes "engine_step D w w'"
  shows "tasks_evolve (tasks (fst w)) (tasks (fst w'))"
  using assms
proof cases
  case (es_renew dp tid tok mnow db b db' q)
  then have "tasks db' = tasks (snd (renewTaskLease tid tok (dep_leaseMs dp) mnow db))" by (simp add: renewLease_def)
  then show ?thesis using es_renew
    by (auto simp: renewTaskLease_def Let_def task_rel_def stamped_def intro!: evolve_update)
next
  case (es_pause dp i now db b db' q)
  then show ?thesis by (auto simp: pauseExecution_def elim!: bind_result_InrE split: if_splits)
next
  case (es_attempt t wid db db' q)
  then show ?thesis by (auto simp: create_attempt_def split: if_splits)
qed (auto dest: start_evolves dispatch_evolves claim_evolves complete_evolves fail_evolves suspend_evolves resolve_evolves
    resume_evolves cancel_run_evolves simp: abandon_attempts_def)

lemma engine_steps_evolve: "(engine_step D)\<^sup>*\<^sup>* w w' \<Longrightarrow> tasks_evolve (tasks (fst w)) (tasks (fst w'))"
  by (induction rule: rtranclp_induct) (auto intro: tasks_evolve_trans engine_step_evolves)

interpretation stamps: invariant_system "\<lambda>w. fst w = empty_db" "engine_step D" "\<lambda>w. list_all stamped (tasks (fst w))" for D
  by unfold_locales (auto simp: empty_db_def intro: evolve_stamped engine_step_evolves)

section \<open>Settled claims\<close>

text \<open>The claim under token \<open>tok\<close> is over: the task left the status it was claimed into, or was
  claimed again.\<close>

definition settled :: "oid \<Rightarrow> int \<Rightarrow> db \<Rightarrow> bool" where
  "settled i tok db \<longleftrightarrow> (\<exists>t \<in> set (tasks db). t_id t = i \<and>
     (tok < t_leaseToken t \<or> t_leaseToken t = tok \<and> t_status t \<noteq> T_RUNNING))"

lemma settled_evolve: "settled i tok db \<Longrightarrow> tasks_evolve (tasks db) (tasks db') \<Longrightarrow> settled i tok db'"
proof -
  assume "settled i tok db" and e: "tasks_evolve (tasks db) (tasks db')"
  then obtain t where t: "t \<in> set (tasks db)" "t_id t = i"
    "tok < t_leaseToken t \<or> t_leaseToken t = tok \<and> t_status t \<noteq> T_RUNNING" by (auto simp: settled_def)
  obtain t' where "t' \<in> set (tasks db')" "task_rel t t'" using evolve_task[OF e t(1)] by blast
  then show ?thesis using t(2,3) unfolding settled_def task_rel_def by (metis less_trans)
qed

lemma settled_stale:
  assumes "db_inv db" "settled i tok db"
  shows "\<nexists>t. current i tok db t"
proof
  assume "\<exists>t. current i tok db t"
  then obtain t where t: "t \<in> set (tasks db)" "t_id t = i" "t_status t = T_RUNNING" "t_leaseToken t = tok"
    by (auto simp: current_def)
  obtain u where u: "u \<in> set (tasks db)" "t_id u = i" "tok < t_leaseToken u \<or> t_leaseToken u = tok \<and> t_status u \<noteq> T_RUNNING"
    using assms(2) by (auto simp: settled_def)
  have "u = t" using distinct_map_eqD[OF db_okD(2) u(1) t(1)] assms(1) t(2) u(2) by (simp add: db_inv_def)
  then show False using t u by simp
qed

lemma not_current_settled:
  "t \<in> set (tasks db) \<Longrightarrow> t_id t = i \<Longrightarrow> tok \<le> t_leaseToken t \<Longrightarrow> \<nexists>t. current i tok db t \<Longrightarrow> settled i tok db"
  unfolding settled_def current_def by force

section \<open>Attempt records\<close>

text \<open>The key of the unique index, and the invariant: keys are unique and none is ahead of its task.\<close>

definition attempt_keys :: "db \<Rightarrow> (oid \<times> int) list" where
  "attempt_keys db = map (\<lambda>a. (a_taskId a, a_attempt a)) (attempts db)"

definition attempts_ok :: "db \<Rightarrow> bool" where
  "attempts_ok db \<longleftrightarrow> distinct (attempt_keys db)
     \<and> (\<forall>(i, n) \<in> set (attempt_keys db). \<exists>t \<in> set (tasks db). t_id t = i \<and> n \<le> t_attempt t)"

lemma attempt_keys_simps [simp]:
  "attempt_keys (emit dp ty i pl now db) = attempt_keys db" "attempt_keys (inc_pending n i db) = attempt_keys db"
  "attempt_keys (set_execution_status i s u db) = attempt_keys db"
  "attempt_keys (release_dependents task db) = attempt_keys db" "attempt_keys (promote_dependents task now db) = attempt_keys db"
  "attempt_keys (promote_ready i now db) = attempt_keys db" "attempt_keys (snd (cancel_tasks S i upd db)) = attempt_keys db"
  "attempt_keys (abandon_attempts task now db) = attempt_keys db"
  "attempt_keys (db\<lparr>approvals := ps\<rparr>) = attempt_keys db" "attempt_keys (db\<lparr>tasks := ts\<rparr>) = attempt_keys db"
  "attempt_keys (db\<lparr>next_id := m\<rparr>) = attempt_keys db" "attempt_keys (db\<lparr>executions := es\<rparr>) = attempt_keys db"
  by (simp_all add: attempt_keys_def emit_def inc_pending_def set_execution_status_def release_dependents_def
      promote_dependents_def promote_ready_def cancel_tasks_def abandon_attempts_def Let_def map_update_where)

lemma attempt_keys_close:
  "(\<And>a. a_taskId (upd a) = a_taskId a \<and> a_attempt (upd a) = a_attempt a) \<Longrightarrow>
   attempt_keys (close_attempt i n upd db) = attempt_keys db"
  by (simp add: attempt_keys_def close_attempt_def map_update_where)

lemma attempt_keys_transition:
  "transitionTask i s s' wher upd db = Inr (b, db') \<Longrightarrow> attempt_keys db' = attempt_keys db"
  by (auto simp: transitionTask_def Let_def elim!: bind_result_InrE)

lemma attempt_keys_after:
  "afterTaskSucceeded dp task now db = Inr db' \<Longrightarrow> attempt_keys db' = attempt_keys db"
  "afterTaskFailedForGood dp task oc msg rt now db = Inr db' \<Longrightarrow> attempt_keys db' = attempt_keys db"
  by (auto simp: afterTaskSucceeded_def afterTaskFailedForGood_def Let_def split_beta elim!: bind_result_InrE
      split: option.splits if_splits)

lemma attempt_keys_fail:
  "fail_retry dp task msg now db = Inr (r, db') \<Longrightarrow> attempt_keys db' = attempt_keys db"
  "fail_terminal dp task oc msg rt now db = Inr (r, db') \<Longrightarrow> attempt_keys db' = attempt_keys db"
  by (auto simp: fail_retry_def fail_terminal_def Let_def elim!: bind_result_InrE
      dest!: attempt_keys_transition attempt_keys_after split: if_splits)

lemma attempt_keys_txn:
  "complete_txn dp i tok out now db = Inr (r1, db') \<Longrightarrow> attempt_keys db' = attempt_keys db"
  "fail_txn dp i tok err now db = Inr (r2, db') \<Longrightarrow> attempt_keys db' = attempt_keys db"
  "suspendForApproval dp i tok rq now db = Inr (b, db') \<Longrightarrow> attempt_keys db' = attempt_keys db"
  "resolve_txn dp aid dec by cm scope now db = Inr (r3, db') \<Longrightarrow> attempt_keys db' = attempt_keys db"
  by (auto simp: complete_txn_def fail_txn_def suspendForApproval_def resolve_txn_def Let_def attempt_keys_close
      elim!: bind_result_InrE dest!: attempt_keys_transition attempt_keys_after attempt_keys_fail
      split: option.splits if_splits)

lemma attempt_keys_run:
  "start_run dp wfl sp now db = Inr (e, db') \<Longrightarrow> attempt_keys db' = attempt_keys db"
  "claimTask tid wid ms mnow db = Inr (cl, db') \<Longrightarrow> attempt_keys db' = attempt_keys db"
  "pauseExecution dp i now db = Inr (b, db') \<Longrightarrow> attempt_keys db' = attempt_keys db"
  "resume_txn dp i now db = Inr (b, db') \<Longrightarrow> attempt_keys db' = attempt_keys db"
  "cancelExecution dp i now db = Inr (b, db') \<Longrightarrow> attempt_keys db' = attempt_keys db"
  "dispatchTask dp now t w = Inr (b, w') \<Longrightarrow> attempt_keys (fst w') = attempt_keys (fst w)"
  by (auto simp: start_run_def start_txn_def claimTask_eq pauseExecution_def resume_txn_def cancelExecution_def dispatchTask_def
      Let_def split_beta elim!: bind_result_InrE dest!: attempt_keys_transition split: option.splits if_splits)

lemma attempts_ok_step:
  assumes "attempts_ok (fst w)" "engine_step D w w'"
  shows "attempts_ok (fst w')"
proof -
  have ev: "tasks_evolve (tasks (fst w)) (tasks (fst w'))" by (rule engine_step_evolves[OF assms(2)])
  have keep: "\<exists>t \<in> set (tasks (fst w')). t_id t = i \<and> n \<le> t_attempt t"
    if "\<exists>t \<in> set (tasks (fst w)). t_id t = i \<and> n \<le> t_attempt t" for i n
    using that evolve_task[OF ev] unfolding task_rel_def by (metis order_trans)
  have "attempt_keys (fst w') = attempt_keys (fst w)
     \<or> (\<exists>i n. attempt_keys (fst w') = attempt_keys (fst w) @ [(i, n)] \<and> (i, n) \<notin> set (attempt_keys (fst w))
          \<and> (\<exists>t \<in> set (tasks (fst w)). t_id t = i \<and> n \<le> t_attempt t))"
    using assms(2)
  proof cases
    case (es_attempt t db wid db' q)
    then have "attempt_keys db' = attempt_keys db @ [(t_id t, t_attempt t)]" "(t_id t, t_attempt t) \<notin> set (attempt_keys db)"
      by (auto simp: create_attempt_def attempt_keys_def split: if_splits)
    then show ?thesis using es_attempt by (auto simp: attempted_def)
  next
    case (es_renew dp tid tok mnow db b db' q)
    then have "db' = snd (renewTaskLease tid tok (dep_leaseMs dp) mnow db)" by (simp add: renewLease_def)
    then show ?thesis using es_renew by (simp add: renewTaskLease_def Let_def)
  qed (auto dest: attempt_keys_txn attempt_keys_run)
  then show ?thesis using assms(1) keep unfolding attempts_ok_def by fastforce
qed

interpretation attempts: invariant_system "\<lambda>w. fst w = empty_db" "engine_step D" "\<lambda>w. attempts_ok (fst w)" for D
proof
  show "attempts_ok (fst w)" if "fst w = empty_db" for w
    using that by (simp add: empty_db_def attempts_ok_def attempt_keys_def)
qed (rule attempts_ok_step)

end
