(* ===== verification/Wf_Queue.thy ===== *)
theory Wf_Queue
  imports Wf_System
begin

text \<open>
  The Redis task queue, \<open>src/queues/taskQueue.js\<close>: a list of ids waiting for a worker, a sorted set
  of leases, a sorted set of delayed ids, and the set of all ids in one of the three. A Lua script
  is one atomic function of the four keys and of Redis' clock. A sorted set is an association list
  from members to scores; a range query returns the members ordered by score and, within a score,
  by member (ids have one length, so their order as strings is their order as numbers).
\<close>

section \<open>State and scripts\<close>

record queue =
  q_ready :: "oid list"
  q_leases :: "(oid \<times> time) list"
  q_delayed :: "(oid \<times> time) list"
  q_members :: "oid set"

definition empty_queue :: queue where
  "empty_queue = \<lparr>q_ready = [], q_leases = [], q_delayed = [], q_members = {}\<rparr>"

definition wfEnqueue :: "oid \<Rightarrow> queue \<Rightarrow> bool \<times> queue" where
  "wfEnqueue i q =
     (if i \<notin> q_members q then (True, q\<lparr>q_members := insert i (q_members q), q_ready := q_ready q @ [i]\<rparr>)
      else (False, q))"

definition wfEnqueueDelayed :: "oid \<Rightarrow> int \<Rightarrow> time \<Rightarrow> queue \<Rightarrow> bool \<times> queue" where
  "wfEnqueueDelayed i delay now q =
     (let wasLeased = (map_of (q_leases q) i \<noteq> None);
          isNew = (i \<notin> q_members q);
          q = q\<lparr>q_leases := AList.delete i (q_leases q), q_members := insert i (q_members q)\<rparr> in
      if wasLeased \<or> isNew then (True, q\<lparr>q_delayed := AList.update i (now + delay) (q_delayed q)\<rparr>)
      else (False, q))"

definition wfClaim :: "int \<Rightarrow> time \<Rightarrow> queue \<Rightarrow> oid option \<times> queue" where
  "wfClaim leaseMs now q =
     (case q_ready q of
        [] \<Rightarrow> (None, q)
      | i # r \<Rightarrow> (Some i, q\<lparr>q_ready := r, q_leases := AList.update i (now + leaseMs) (q_leases q)\<rparr>))"

definition wfExtendLease :: "oid \<Rightarrow> int \<Rightarrow> time \<Rightarrow> queue \<Rightarrow> bool \<times> queue" where
  "wfExtendLease i leaseMs now q =
     (if map_of (q_leases q) i \<noteq> None
      then (True, q\<lparr>q_leases := AList.update i (now + leaseMs) (q_leases q)\<rparr>)
      else (False, q))"

definition wfAck :: "oid \<Rightarrow> queue \<Rightarrow> bool \<times> queue" where
  "wfAck i q =
     (if map_of (q_leases q) i \<noteq> None
      then (True, q\<lparr>q_leases := AList.delete i (q_leases q), q_members := q_members q - {i}\<rparr>)
      else (False, q))"

text \<open>\<open>ZRANGEBYSCORE key -inf now LIMIT 0 n\<close>\<close>

definition due :: "time \<Rightarrow> nat \<Rightarrow> (oid \<times> time) list \<Rightarrow> oid list" where
  "due now n z = take n (map fst (filter (\<lambda>(i, s). s \<le> now) (sort_key snd (sort_key fst z))))"

text \<open>The loop of the reaper, and the same loop of the promoter.\<close>

fun requeue_ids :: "oid list \<Rightarrow> queue \<Rightarrow> queue" where
  "requeue_ids [] q = q"
| "requeue_ids (i # is) q =
     requeue_ids is
       (if map_of (q_leases q) i \<noteq> None
        then q\<lparr>q_leases := AList.delete i (q_leases q), q_ready := q_ready q @ [i]\<rparr> else q)"

definition wfRequeueExpired :: "nat \<Rightarrow> time \<Rightarrow> queue \<Rightarrow> oid list \<times> queue" where
  "wfRequeueExpired n now q = (let is = due now n (q_leases q) in (is, requeue_ids is q))"

fun promote_ids :: "oid list \<Rightarrow> queue \<Rightarrow> queue" where
  "promote_ids [] q = q"
| "promote_ids (i # is) q =
     promote_ids is
       (if map_of (q_delayed q) i \<noteq> None
        then q\<lparr>q_delayed := AList.delete i (q_delayed q), q_ready := q_ready q @ [i]\<rparr> else q)"

definition wfPromoteDue :: "nat \<Rightarrow> time \<Rightarrow> queue \<Rightarrow> oid list \<times> queue" where
  "wfPromoteDue n now q = (let is = due now n (q_delayed q) in (is, promote_ids is q))"

section \<open>The client object\<close>

text \<open>\<open>createTaskQueue\<close>: the methods round their arguments and call the scripts.
  \<open>Math.round\<close> rounds halves up.\<close>

definition js_round :: "rat \<Rightarrow> int" where
  "js_round x = \<lfloor>x + 1 / 2\<rfloor>"

lemma js_round_of_int [simp]: "js_round (of_int i) = i" "js_round (numeral n) = numeral n"
proof -
  have *: "\<lfloor>of_int i + 1 / 2 :: rat\<rfloor> = i" for i by (rule floor_unique) simp_all
  then show "js_round (of_int i) = i" by (simp add: js_round_def)
  show "js_round (numeral n) = numeral n" using *[of "numeral n"] by (simp add: js_round_def)
qed

definition enqueue :: "oid \<Rightarrow> queue \<Rightarrow> bool \<times> queue" where
  "enqueue i q = wfEnqueue i q"

definition enqueueDelayed :: "oid \<Rightarrow> rat \<Rightarrow> time \<Rightarrow> queue \<Rightarrow> bool \<times> queue" where
  "enqueueDelayed i delayMs now q = wfEnqueueDelayed i (max 0 (js_round delayMs)) now q"

definition claim :: "rat \<Rightarrow> time \<Rightarrow> queue \<Rightarrow> oid option \<times> queue" where
  "claim leaseMs now q = wfClaim (js_round leaseMs) now q"

definition extendLease :: "oid \<Rightarrow> rat \<Rightarrow> time \<Rightarrow> queue \<Rightarrow> bool \<times> queue" where
  "extendLease i leaseMs now q = wfExtendLease i (js_round leaseMs) now q"

definition ack :: "oid \<Rightarrow> queue \<Rightarrow> bool \<times> queue" where
  "ack i q = wfAck i q"

definition requeueExpired :: "nat \<Rightarrow> time \<Rightarrow> queue \<Rightarrow> oid list \<times> queue" where
  "requeueExpired limit now q = wfRequeueExpired limit now q"

definition promoteDue :: "nat \<Rightarrow> time \<Rightarrow> queue \<Rightarrow> oid list \<times> queue" where
  "promoteDue limit now q = wfPromoteDue limit now q"

definition stats :: "queue \<Rightarrow> nat \<times> nat \<times> nat" where
  "stats q = (length (q_ready q), length (q_leases q), length (q_delayed q))"

section \<open>Where an id is\<close>

datatype place = Absent | Waiting | Leased time | Delayed time

definition place :: "queue \<Rightarrow> oid \<Rightarrow> place" where
  "place q i =
     (if i \<in> set (q_ready q) then Waiting
      else case map_of (q_leases q) i of
             Some d \<Rightarrow> Leased d
           | None \<Rightarrow> (case map_of (q_delayed q) i of Some d \<Rightarrow> Delayed d | None \<Rightarrow> Absent))"

text \<open>Each id is in at most one of the structures, once, and \<open>members\<close> is their union.\<close>

definition queue_inv :: "queue \<Rightarrow> bool" where
  "queue_inv q \<longleftrightarrow>
     distinct (q_ready q) \<and> distinct (map fst (q_leases q)) \<and> distinct (map fst (q_delayed q))
     \<and> (\<forall>i \<in> set (q_ready q). map_of (q_leases q) i = None \<and> map_of (q_delayed q) i = None)
     \<and> (\<forall>i. map_of (q_leases q) i = None \<or> map_of (q_delayed q) i = None)
     \<and> (\<forall>i. i \<in> q_members q \<longleftrightarrow>
          i \<in> set (q_ready q) \<or> map_of (q_leases q) i \<noteq> None \<or> map_of (q_delayed q) i \<noteq> None)"

lemma map_of_delete [simp]: "map_of (AList.delete i al) = (map_of al)(i := None)"
  by (rule delete_conv')

declare map_of_eq_Some_iff [simp del]

lemmas zset_distinct = distinct_update distinct_delete

lemma queue_inv_excl:
  assumes "queue_inv q"
  shows "i \<in> set (q_ready q) \<Longrightarrow> map_of (q_leases q) i = None \<and> map_of (q_delayed q) i = None"
    "map_of (q_leases q) i = Some d \<Longrightarrow> i \<notin> set (q_ready q) \<and> map_of (q_delayed q) i = None"
    "map_of (q_delayed q) i = Some d \<Longrightarrow> i \<notin> set (q_ready q) \<and> map_of (q_leases q) i = None"
  using assms unfolding queue_inv_def by (metis option.distinct(1))+

lemma queue_inv_empty: "queue_inv empty_queue"
  by (simp add: queue_inv_def empty_queue_def)

lemma members_place: "queue_inv q \<Longrightarrow> i \<in> q_members q \<longleftrightarrow> place q i \<noteq> Absent"
  by (simp add: queue_inv_def place_def split: option.splits)

lemma place_iff:
  assumes "queue_inv q"
  shows "place q i = Waiting \<longleftrightarrow> i \<in> set (q_ready q)" "place q i = Leased d \<longleftrightarrow> map_of (q_leases q) i = Some d"
    "place q i = Delayed d \<longleftrightarrow> map_of (q_delayed q) i = Some d"
    "place q i = Absent \<longleftrightarrow> i \<notin> q_members q"
proof -
  show "place q i = Waiting \<longleftrightarrow> i \<in> set (q_ready q)" by (simp add: place_def split: option.split)
  show "place q i = Leased d \<longleftrightarrow> map_of (q_leases q) i = Some d"
    using queue_inv_excl(1)[OF assms, of i] by (simp add: place_def split: option.split)
  show "place q i = Delayed d \<longleftrightarrow> map_of (q_delayed q) i = Some d"
    using queue_inv_excl(1,3)[OF assms, of i] by (cases "map_of (q_delayed q) i") (auto simp: place_def split: option.split)
  show "place q i = Absent \<longleftrightarrow> i \<notin> q_members q" using members_place[OF assms, of i] by simp
qed

section \<open>What each script does\<close>

text \<open>Every script keeps the invariant and moves exactly the ids it is about.\<close>

lemma enqueue_place:
  assumes "queue_inv q"
  shows "queue_inv (snd (wfEnqueue i q))" "fst (wfEnqueue i q) \<longleftrightarrow> place q i = Absent"
    "place (snd (wfEnqueue i q)) = (if place q i = Absent then (place q)(i := Waiting) else place q)"
proof -
  show "fst (wfEnqueue i q) \<longleftrightarrow> place q i = Absent"
    using members_place[OF assms] by (simp add: wfEnqueue_def)
  show "queue_inv (snd (wfEnqueue i q))"
    using assms unfolding queue_inv_def wfEnqueue_def by auto
  show "place (snd (wfEnqueue i q)) = (if place q i = Absent then (place q)(i := Waiting) else place q)"
    using members_place[OF assms, of i] by (auto simp: wfEnqueue_def place_def split: option.splits)
qed

lemma enqueueDelayed_place:
  fixes i :: oid
  assumes "queue_inv q"
  defines "moves \<equiv> place q i = Absent \<or> (\<exists>d. place q i = Leased d)"
  shows "queue_inv (snd (wfEnqueueDelayed i delay now q))" "fst (wfEnqueueDelayed i delay now q) \<longleftrightarrow> moves"
    "place (snd (wfEnqueueDelayed i delay now q)) = (if moves then (place q)(i := Delayed (now + delay)) else place q)"
proof -
  have mv: "moves \<longleftrightarrow> map_of (q_leases q) i \<noteq> None \<or> i \<notin> q_members q"
    using place_iff[OF assms(1), of i] by (auto simp: moves_def)
  show "fst (wfEnqueueDelayed i delay now q) \<longleftrightarrow> moves" by (simp add: mv wfEnqueueDelayed_def Let_def)
  show "queue_inv (snd (wfEnqueueDelayed i delay now q))"
    using assms(1) unfolding queue_inv_def wfEnqueueDelayed_def Let_def
    by (auto simp: zset_distinct)
  show "place (snd (wfEnqueueDelayed i delay now q)) = (if moves then (place q)(i := Delayed (now + delay)) else place q)"
  proof
    fix j
    show "place (snd (wfEnqueueDelayed i delay now q)) j = (if moves then (place q)(i := Delayed (now + delay)) else place q) j"
      using assms(1) unfolding mv queue_inv_def
      by (cases "j = i") (auto simp: wfEnqueueDelayed_def place_def Let_def split: option.splits)
  qed
qed

lemma claim_place:
  assumes "queue_inv q"
  shows "queue_inv (snd (wfClaim ms now q))" "fst (wfClaim ms now q) = (case q_ready q of [] \<Rightarrow> None | i # _ \<Rightarrow> Some i)"
    "place (snd (wfClaim ms now q)) = (case q_ready q of [] \<Rightarrow> place q | i # _ \<Rightarrow> (place q)(i := Leased (now + ms)))"
    "q_ready (snd (wfClaim ms now q)) = tl (q_ready q)"
proof -
  show "queue_inv (snd (wfClaim ms now q))"
    using assms unfolding queue_inv_def wfClaim_def by (cases "q_ready q") (auto simp: zset_distinct)
  show "fst (wfClaim ms now q) = (case q_ready q of [] \<Rightarrow> None | i # _ \<Rightarrow> Some i)"
    "q_ready (snd (wfClaim ms now q)) = tl (q_ready q)"
    by (simp_all add: wfClaim_def split: list.split)
  show "place (snd (wfClaim ms now q)) = (case q_ready q of [] \<Rightarrow> place q | i # _ \<Rightarrow> (place q)(i := Leased (now + ms)))"
    using assms unfolding queue_inv_def
    by (cases "q_ready q") (auto simp: wfClaim_def place_def fun_eq_iff split: option.splits)
qed

lemma extendLease_place:
  assumes "queue_inv q"
  shows "queue_inv (snd (wfExtendLease i ms now q))" "fst (wfExtendLease i ms now q) \<longleftrightarrow> (\<exists>d. place q i = Leased d)"
    "place (snd (wfExtendLease i ms now q)) = (if \<exists>d. place q i = Leased d then (place q)(i := Leased (now + ms)) else place q)"
    "q_ready (snd (wfExtendLease i ms now q)) = q_ready q"
proof -
  have lv: "(\<exists>d. place q i = Leased d) \<longleftrightarrow> map_of (q_leases q) i \<noteq> None"
    using place_iff(2)[OF assms, of i] by auto
  show "fst (wfExtendLease i ms now q) \<longleftrightarrow> (\<exists>d. place q i = Leased d)" unfolding lv by (simp add: wfExtendLease_def)
  show "queue_inv (snd (wfExtendLease i ms now q))"
  proof (cases "map_of (q_leases q) i")
    case (Some d)
    with queue_inv_excl(2)[OF assms] have "i \<notin> set (q_ready q)" "map_of (q_delayed q) i = None" by auto
    with Some assms show ?thesis unfolding queue_inv_def wfExtendLease_def by (auto simp: zset_distinct)
  qed (use assms in \<open>simp add: wfExtendLease_def\<close>)
  show "place (snd (wfExtendLease i ms now q)) = (if \<exists>d. place q i = Leased d then (place q)(i := Leased (now + ms)) else place q)"
    using queue_inv_excl(1)[OF assms, of i] unfolding lv
    by (auto simp: wfExtendLease_def place_def fun_eq_iff split: option.split)
  show "q_ready (snd (wfExtendLease i ms now q)) = q_ready q" by (simp add: wfExtendLease_def)
qed

lemma ack_place:
  assumes "queue_inv q"
  shows "queue_inv (snd (wfAck i q))" "fst (wfAck i q) \<longleftrightarrow> (\<exists>d. place q i = Leased d)"
    "place (snd (wfAck i q)) = (if \<exists>d. place q i = Leased d then (place q)(i := Absent) else place q)"
    "q_ready (snd (wfAck i q)) = q_ready q"
proof -
  have lv: "(\<exists>d. place q i = Leased d) \<longleftrightarrow> map_of (q_leases q) i \<noteq> None"
    using place_iff(2)[OF assms, of i] by auto
  show "fst (wfAck i q) \<longleftrightarrow> (\<exists>d. place q i = Leased d)" unfolding lv by (simp add: wfAck_def)
  show "queue_inv (snd (wfAck i q))"
  proof (cases "map_of (q_leases q) i")
    case (Some d)
    with queue_inv_excl(2)[OF assms] have "i \<notin> set (q_ready q)" "map_of (q_delayed q) i = None" by auto
    with Some assms show ?thesis unfolding queue_inv_def wfAck_def by (auto simp: zset_distinct)
  qed (use assms in \<open>simp add: wfAck_def\<close>)
  show "place (snd (wfAck i q)) = (if \<exists>d. place q i = Leased d then (place q)(i := Absent) else place q)"
  proof (cases "map_of (q_leases q) i")
    case (Some d)
    with queue_inv_excl(2)[OF assms] have "i \<notin> set (q_ready q)" "map_of (q_delayed q) i = None" by auto
    with Some show ?thesis unfolding lv by (auto simp: wfAck_def place_def fun_eq_iff split: option.split)
  qed (simp add: wfAck_def lv del: not_None_eq)
  show "q_ready (snd (wfAck i q)) = q_ready q" by (simp add: wfAck_def)
qed

text \<open>The reaper and the promoter move what is due, in the order of the deadlines, to the end of
  the list.\<close>

lemma requeue_ids_place:
  assumes "queue_inv q" "distinct is" "\<And>i. i \<in> set is \<Longrightarrow> map_of (q_leases q) i \<noteq> None"
  shows "queue_inv (requeue_ids is q) \<and> place (requeue_ids is q) = (\<lambda>i. if i \<in> set is then Waiting else place q i)
    \<and> q_ready (requeue_ids is q) = q_ready q @ is"
  using assms
proof (induction "is" arbitrary: q)
  case (Cons i "is")
  let ?q = "q\<lparr>q_leases := AList.delete i (q_leases q), q_ready := q_ready q @ [i]\<rparr>"
  obtain d where d: "map_of (q_leases q) i = Some d" using Cons.prems(3)[of i] by auto
  note x = queue_inv_excl(2)[OF Cons.prems(1) d]
  have inv: "queue_inv ?q" using Cons.prems(1) d x unfolding queue_inv_def by (auto simp: zset_distinct)
  have pl: "place ?q = (place q)(i := Waiting)" by (auto simp: place_def fun_eq_iff split: option.split)
  have ih: "map_of (q_leases ?q) j \<noteq> None" if "j \<in> set is" for j using that Cons.prems by auto
  note IH = Cons.IH[OF inv _ ih]
  have eq: "requeue_ids (i # is) q = requeue_ids is ?q" using Cons.prems by simp
  show ?case unfolding eq using IH Cons.prems(2) pl by (auto simp: fun_eq_iff)
qed simp_all

lemma promote_ids_place:
  assumes "queue_inv q" "distinct is" "\<And>i. i \<in> set is \<Longrightarrow> map_of (q_delayed q) i \<noteq> None"
  shows "queue_inv (promote_ids is q) \<and> place (promote_ids is q) = (\<lambda>i. if i \<in> set is then Waiting else place q i)
    \<and> q_ready (promote_ids is q) = q_ready q @ is"
  using assms
proof (induction "is" arbitrary: q)
  case (Cons i "is")
  let ?q = "q\<lparr>q_delayed := AList.delete i (q_delayed q), q_ready := q_ready q @ [i]\<rparr>"
  obtain d where d: "map_of (q_delayed q) i = Some d" using Cons.prems(3)[of i] by auto
  note x = queue_inv_excl(3)[OF Cons.prems(1) d]
  have inv: "queue_inv ?q" using Cons.prems(1) d x unfolding queue_inv_def by (auto simp: zset_distinct)
  have pl: "place ?q = (place q)(i := Waiting)" by (auto simp: place_def fun_eq_iff split: option.split)
  have ih: "map_of (q_delayed ?q) j \<noteq> None" if "j \<in> set is" for j using that Cons.prems by auto
  note IH = Cons.IH[OF inv _ ih]
  have eq: "promote_ids (i # is) q = promote_ids is ?q" using Cons.prems by simp
  show ?case unfolding eq using IH Cons.prems(2) pl by (auto simp: fun_eq_iff)
qed simp_all

lemma due_props:
  assumes "distinct (map fst z)"
  shows "distinct (due now n z)" "i \<in> set (due now n z) \<Longrightarrow> \<exists>s. map_of z i = Some s \<and> s \<le> now"
    "length z \<le> n \<Longrightarrow> map_of z i = Some s \<Longrightarrow> s \<le> now \<Longrightarrow> i \<in> set (due now n z)"
    "sorted (map (\<lambda>i. the (map_of z i)) (due now n z))"
proof -
  let ?z = "sort_key snd (sort_key fst z)"
  have d: "distinct (map fst ?z)" using assms by (simp add: distinct_map distinct_sort)
  have m: "map_of z i = Some s \<longleftrightarrow> (i, s) \<in> set z" for i s using assms by (rule map_of_eq_Some_iff)
  have df: "distinct (map fst (filter (\<lambda>(i, s). s \<le> now) ?z))" using d by (simp add: distinct_map_filter)
  then show "distinct (due now n z)" by (simp add: due_def)
  show "i \<in> set (due now n z) \<Longrightarrow> \<exists>s. map_of z i = Some s \<and> s \<le> now"
    unfolding due_def m by (drule set_take_subset[THEN subsetD]) auto
  show "i \<in> set (due now n z)" if "length z \<le> n" "map_of z i = Some s" "s \<le> now"
  proof -
    have "length (filter (\<lambda>(i, s). s \<le> now) ?z) \<le> length ?z" by (rule length_filter_le)
    then have "length (filter (\<lambda>(i, s). s \<le> now) ?z) \<le> n" using that(1) by simp
    then show ?thesis using that by (force simp: due_def m)
  qed
  let ?f = "filter (\<lambda>(i, s). s \<le> now) ?z"
  have "map (\<lambda>i. the (map_of z i)) (map fst ?f) = map snd ?f"
    using map_of_is_SomeI[OF assms] by (fastforce simp: comp_def)
  then have "map (\<lambda>i. the (map_of z i)) (due now n z) = take n (map snd ?f)"
    unfolding due_def by (simp only: take_map[symmetric])
  moreover have "sorted (map snd ?f)" by (intro sorted_filter) simp
  ultimately show "sorted (map (\<lambda>i. the (map_of z i)) (due now n z))" by (simp add: sorted_wrt_take)
qed

lemma requeueExpired_place:
  fixes n :: nat and now :: time
  assumes "queue_inv q"
  defines "is \<equiv> fst (wfRequeueExpired n now q)"
  shows "queue_inv (snd (wfRequeueExpired n now q))"
    "place (snd (wfRequeueExpired n now q)) = (\<lambda>i. if i \<in> set is then Waiting else place q i)"
    "i \<in> set is \<Longrightarrow> \<exists>d. place q i = Leased d \<and> d \<le> now"
    "length (q_leases q) \<le> n \<Longrightarrow> place q i = Leased d \<Longrightarrow> d \<le> now \<Longrightarrow> i \<in> set is"
    "q_ready (snd (wfRequeueExpired n now q)) = q_ready q @ is"
proof -
  have d: "distinct (map fst (q_leases q))" using assms(1) by (simp add: queue_inv_def)
  note dp = due_props[where now = now and n = n, OF d]
  have is_def: "is = due now n (q_leases q)" by (simp add: is_def wfRequeueExpired_def Let_def)
  have l: "map_of (q_leases q) j \<noteq> None" if "j \<in> set is" for j using dp(2) that is_def by fastforce
  have dis: "distinct is" using dp(1) is_def by simp
  note r = requeue_ids_place[OF assms(1) dis l]
  have eq: "snd (wfRequeueExpired n now q) = requeue_ids is q" by (simp add: is_def wfRequeueExpired_def Let_def)
  show "queue_inv (snd (wfRequeueExpired n now q))"
    "place (snd (wfRequeueExpired n now q)) = (\<lambda>i. if i \<in> set is then Waiting else place q i)"
    "q_ready (snd (wfRequeueExpired n now q)) = q_ready q @ is"
    unfolding eq using r by simp_all
  show "i \<in> set is \<Longrightarrow> \<exists>d. place q i = Leased d \<and> d \<le> now"
    using dp(2) place_iff(2)[OF assms(1)] is_def by fastforce
  show "length (q_leases q) \<le> n \<Longrightarrow> place q i = Leased d \<Longrightarrow> d \<le> now \<Longrightarrow> i \<in> set is"
    using dp(3) place_iff(2)[OF assms(1)] is_def by fastforce
qed

lemma promoteDue_place:
  fixes n :: nat and now :: time
  assumes "queue_inv q"
  defines "is \<equiv> fst (wfPromoteDue n now q)"
  shows "queue_inv (snd (wfPromoteDue n now q))"
    "place (snd (wfPromoteDue n now q)) = (\<lambda>i. if i \<in> set is then Waiting else place q i)"
    "i \<in> set is \<Longrightarrow> \<exists>d. place q i = Delayed d \<and> d \<le> now"
    "length (q_delayed q) \<le> n \<Longrightarrow> place q i = Delayed d \<Longrightarrow> d \<le> now \<Longrightarrow> i \<in> set is"
    "q_ready (snd (wfPromoteDue n now q)) = q_ready q @ is"
proof -
  have d: "distinct (map fst (q_delayed q))" using assms(1) by (simp add: queue_inv_def)
  note dp = due_props[where now = now and n = n, OF d]
  have is_def: "is = due now n (q_delayed q)" by (simp add: is_def wfPromoteDue_def Let_def)
  have l: "map_of (q_delayed q) j \<noteq> None" if "j \<in> set is" for j using dp(2) that is_def by fastforce
  have dis: "distinct is" using dp(1) is_def by simp
  note r = promote_ids_place[OF assms(1) dis l]
  have eq: "snd (wfPromoteDue n now q) = promote_ids is q" by (simp add: is_def wfPromoteDue_def Let_def)
  show "queue_inv (snd (wfPromoteDue n now q))"
    "place (snd (wfPromoteDue n now q)) = (\<lambda>i. if i \<in> set is then Waiting else place q i)"
    "q_ready (snd (wfPromoteDue n now q)) = q_ready q @ is"
    unfolding eq using r by simp_all
  show "i \<in> set is \<Longrightarrow> \<exists>d. place q i = Delayed d \<and> d \<le> now"
    using dp(2) place_iff(3)[OF assms(1)] is_def by fastforce
  show "length (q_delayed q) \<le> n \<Longrightarrow> place q i = Delayed d \<Longrightarrow> d \<le> now \<Longrightarrow> i \<in> set is"
    using dp(3) place_iff(3)[OF assms(1)] is_def by fastforce
qed

section \<open>The queue as a transition system\<close>

inductive queue_step :: "queue \<Rightarrow> queue \<Rightarrow> bool" where
  "queue_step q (snd (enqueue i q))"
| "queue_step q (snd (enqueueDelayed i d now q))"
| "queue_step q (snd (claim ms now q))"
| "queue_step q (snd (extendLease i ms now q))"
| "queue_step q (snd (ack i q))"
| "queue_step q (snd (requeueExpired n now q))"
| "queue_step q (snd (promoteDue n now q))"

lemmas client_defs = enqueue_def enqueueDelayed_def claim_def extendLease_def ack_def requeueExpired_def promoteDue_def

lemma queue_step_inv: "queue_inv q \<Longrightarrow> queue_step q q' \<Longrightarrow> queue_inv q'"
  by (erule queue_step.cases)
     (simp_all add: client_defs enqueue_place enqueueDelayed_place claim_place extendLease_place ack_place
        requeueExpired_place promoteDue_place)

interpretation redis_queue: invariant_system "\<lambda>q. q = empty_queue" queue_step queue_inv
  by unfold_locales (auto simp: queue_inv_empty queue_step_inv)

section \<open>What the engine and the workers rely on\<close>

text \<open>The contract of a work queue: ids are put in, handed out under a lease, and leave only by an
  acknowledgement of somebody who holds a lease. \<open>present\<close> tells whether an id is in the queue in
  whatever form, \<open>waiting\<close> is what will be handed out, in order.\<close>

fun take_many :: "('q \<Rightarrow> 'i option \<times> 'q) \<Rightarrow> nat \<Rightarrow> 'q \<Rightarrow> 'i option list \<times> 'q" where
  "take_many f 0 q = ([], q)"
| "take_many f (Suc n) q = (let (x, q') = f q; (xs, q'') = take_many f n q' in (x # xs, q''))"

locale work_queue =
  fixes inv :: "'q \<Rightarrow> bool" and present :: "'q \<Rightarrow> 'i \<Rightarrow> bool" and waiting :: "'q \<Rightarrow> 'i list"
    and put :: "'i \<Rightarrow> 'q \<Rightarrow> 'q" and take_next :: "'q \<Rightarrow> 'i option \<times> 'q"
  assumes put_inv: "inv q \<Longrightarrow> inv (put i q)"
    and take_inv: "inv q \<Longrightarrow> inv (snd (take_next q))"
    and put_present: "inv q \<Longrightarrow> present (put i q) j \<longleftrightarrow> j = i \<or> present q j"
    and put_waiting: "inv q \<Longrightarrow> waiting (put i q) = (if present q i then waiting q else waiting q @ [i])"
    and take_result: "inv q \<Longrightarrow> fst (take_next q) = (case waiting q of [] \<Rightarrow> None | i # _ \<Rightarrow> Some i)"
    and take_waiting: "inv q \<Longrightarrow> waiting (snd (take_next q)) = tl (waiting q)"
    and take_present: "inv q \<Longrightarrow> present (snd (take_next q)) j \<longleftrightarrow> present q j"
begin

lemma puts_present: "inv q \<Longrightarrow> inv (fold put is q) \<and> (present (fold put is q) j \<longleftrightarrow> j \<in> set is \<or> present q j)"
  by (induction "is" arbitrary: q) (auto simp: put_inv put_present)

lemma puts_waiting:
  "inv q \<Longrightarrow> distinct is \<Longrightarrow> (\<And>i. i \<in> set is \<Longrightarrow> \<not> present q i) \<Longrightarrow> waiting (fold put is q) = waiting q @ is"
proof (induction "is" arbitrary: q)
  case (Cons i "is")
  have "waiting (fold put is (put i q)) = waiting (put i q) @ is"
    by (rule Cons.IH) (use Cons.prems in \<open>auto simp: put_inv put_present\<close>)
  then show ?case using Cons.prems by (simp add: put_waiting)
qed simp

lemma takes_fifo:
  "inv q \<Longrightarrow> n \<le> length (waiting q) \<Longrightarrow> fst (take_many take_next n q) = map Some (take n (waiting q))
     \<and> waiting (snd (take_many take_next n q)) = drop n (waiting q)"
proof (induction n arbitrary: q)
  case (Suc n)
  then obtain i "is" where w: "waiting q = i # is" by (cases "waiting q") auto
  obtain x q' where t: "take_next q = (x, q')" by (cases "take_next q")
  have "x = Some i" "waiting q' = is" "inv q'"
    using take_result[OF Suc.prems(1)] take_waiting[OF Suc.prems(1)] take_inv[OF Suc.prems(1)] t w by simp_all
  moreover have "fst (take_many take_next n q') = map Some (take n (waiting q')) \<and> waiting (snd (take_many take_next n q')) = drop n (waiting q')"
    using Suc.IH[of q'] Suc.prems(2) calculation w by simp
  ultimately show ?case using t w by (simp add: Let_def split_beta)
qed simp

text \<open>Putting new ids in and taking as many out as were waiting and put in hands them out first in,
  first out.\<close>

lemma put_take_fifo:
  assumes "inv q" "distinct is" "\<And>i. i \<in> set is \<Longrightarrow> \<not> present q i"
  shows "fst (take_many take_next (length (waiting q) + length is) (fold put is q)) = map Some (waiting q @ is)"
proof -
  have w: "waiting (fold put is q) = waiting q @ is" using assms by (intro puts_waiting)
  have "inv (fold put is q)" using puts_present[OF assms(1)] by blast
  from takes_fifo[OF this, of "length (waiting q) + length is"] show ?thesis using w by simp
qed

end

interpretation wq: work_queue queue_inv "\<lambda>q i. place q i \<noteq> Absent" q_ready "\<lambda>i q. snd (enqueue i q)" "claim ms now"
  for ms :: rat and now :: time
proof
  fix q i j
  assume q: "queue_inv q"
  show "place (snd (enqueue i q)) j \<noteq> Absent \<longleftrightarrow> j = i \<or> place q j \<noteq> Absent"
    using enqueue_place(3)[OF q, of i] by (auto simp: enqueue_def)
  show "q_ready (snd (enqueue i q)) = (if place q i \<noteq> Absent then q_ready q else q_ready q @ [i])"
    using members_place[OF q, of i] by (simp add: enqueue_def wfEnqueue_def)
  show "place (snd (claim ms now q)) j \<noteq> Absent \<longleftrightarrow> place q j \<noteq> Absent"
    using claim_place(3)[OF q, of "js_round ms" now] place_iff(1)[OF q, of j]
    by (cases "q_ready q") (auto simp: claim_def)
qed (simp_all add: client_defs enqueue_place claim_place)

section \<open>Properties\<close>

text \<open>C14: every id is in one place. In every state the scripts can reach, an id of \<open>members\<close> occurs
  exactly once, in the ready list, in the leases or in the delayed set, and any other id nowhere: no
  interleaving of enqueues, claims, retries, acknowledgements, reaping and promotion duplicates a
  task in the queue or leaves one behind outside it.\<close>

theorem queue_ids_in_one_place:
  assumes "reach (\<lambda>q. q = empty_queue) queue_step q"
  shows "count_list (q_ready q) i + count_list (map fst (q_leases q)) i + count_list (map fst (q_delayed q)) i
         = (if i \<in> q_members q then 1 else 0)"
proof -
  have inv: "queue_inv q" by (rule redis_queue.reach_inv[OF assms])
  have d: "distinct (q_ready q)" "distinct (map fst (q_leases q))" "distinct (map fst (q_delayed q))"
    using inv by (auto simp: queue_inv_def)
  have c: "count_list (q_ready q) i = (if i \<in> set (q_ready q) then 1 else 0)"
    "count_list (map fst (q_leases q)) i = (if map_of (q_leases q) i \<noteq> None then 1 else 0)"
    "count_list (map fst (q_delayed q)) i = (if map_of (q_delayed q) i \<noteq> None then 1 else 0)"
    using count_list_distinct[OF d(1)] count_list_distinct[OF d(2)] count_list_distinct[OF d(3)]
    by (simp_all add: map_of_eq_None_iff del: not_None_eq)
  have m: "i \<in> q_members q \<longleftrightarrow> i \<in> set (q_ready q) \<or> map_of (q_leases q) i \<noteq> None \<or> map_of (q_delayed q) i \<noteq> None"
    using inv unfolding queue_inv_def by blast
  have one: "(a \<longrightarrow> \<not> b \<and> \<not> c) \<and> (\<not> b \<or> \<not> c) \<Longrightarrow>
      (if a then 1 else 0) + (if b then 1 else 0) + (if c then 1 else 0 :: nat) = (if a \<or> b \<or> c then 1 else 0)" for a b c
    by auto
  show ?thesis unfolding c m by (rule one) (use inv[unfolded queue_inv_def] in \<open>simp only: not_not; blast\<close>)
qed

definition demo_queue :: queue where
  "demo_queue = snd (claim 1000 5 (snd (enqueue 8 (snd (enqueue 7 empty_queue)))))"

lemma demo_queue_reach: "reach (\<lambda>q. q = empty_queue) queue_step demo_queue"
proof -
  have r0: "reach (\<lambda>q. q = empty_queue) queue_step empty_queue" by (rule reach_init) simp
  have r1: "reach (\<lambda>q. q = empty_queue) queue_step (snd (enqueue 7 empty_queue))"
    by (rule reach_step[where step = queue_step, OF r0]) (rule queue_step.intros(1))
  have "reach (\<lambda>q. q = empty_queue) queue_step (snd (enqueue 8 (snd (enqueue 7 empty_queue))))"
    by (rule reach_step[where step = queue_step, OF r1]) (rule queue_step.intros(1))
  then show ?thesis
    unfolding demo_queue_def by (rule reach_step[where step = queue_step]) (rule queue_step.intros(3))
qed

lemma demo_queue_eq: "demo_queue = \<lparr>q_ready = [8], q_leases = [(7, 1005)], q_delayed = [], q_members = {7, 8}\<rparr>"
  by (simp add: demo_queue_def client_defs wfEnqueue_def wfClaim_def empty_queue_def insert_commute)

theorem queue_ids_in_one_place_witness:
  "reach (\<lambda>q. q = empty_queue) queue_step demo_queue \<and>
   count_list (q_ready demo_queue) 7 + count_list (map fst (q_leases demo_queue)) 7 + count_list (map fst (q_delayed demo_queue)) 7 = 1"
  using queue_ids_in_one_place[OF demo_queue_reach, of 7] demo_queue_reach by (simp add: demo_queue_eq)

text \<open>What the queue operations do, seen from an id's place. Enqueueing puts an absent id at the
  end of the line and is a no-op otherwise (idempotent re-enqueueing); a delayed enqueue takes an
  absent id, or the lease of the caller, into the delayed set; a claim leases the first waiting id;
  extending and acknowledging act only on leased ids; the reaper and the promoter return exactly
  ids whose time has come, and nothing else moves.\<close>

theorem queue_operations:
  assumes "queue_inv q"
  shows "place (snd (enqueue i q)) = (if place q i = Absent then (place q)(i := Waiting) else place q)
    \<and> (fst (enqueue i q) \<longleftrightarrow> place q i = Absent)
    \<and> place (snd (enqueueDelayed i d now q))
        = (if place q i = Absent \<or> (\<exists>x. place q i = Leased x) then (place q)(i := Delayed (now + max 0 (js_round d))) else place q)
    \<and> place (snd (claim ms now q))
        = (case q_ready q of [] \<Rightarrow> place q | j # _ \<Rightarrow> (place q)(j := Leased (now + js_round ms)))
    \<and> fst (claim ms now q) = (case q_ready q of [] \<Rightarrow> None | j # _ \<Rightarrow> Some j)
    \<and> place (snd (extendLease i ms now q)) = (if \<exists>x. place q i = Leased x then (place q)(i := Leased (now + js_round ms)) else place q)
    \<and> place (snd (ack i q)) = (if \<exists>x. place q i = Leased x then (place q)(i := Absent) else place q)
    \<and> place (snd (requeueExpired n now q)) = (\<lambda>j. if j \<in> set (fst (requeueExpired n now q)) then Waiting else place q j)
    \<and> (\<forall>j \<in> set (fst (requeueExpired n now q)). \<exists>x \<le> now. place q j = Leased x)
    \<and> place (snd (promoteDue n now q)) = (\<lambda>j. if j \<in> set (fst (promoteDue n now q)) then Waiting else place q j)
    \<and> (\<forall>j \<in> set (fst (promoteDue n now q)). \<exists>x \<le> now. place q j = Delayed x)"
  unfolding client_defs
  by (intro conjI ballI enqueue_place(2,3)[OF assms] enqueueDelayed_place(3)[OF assms] claim_place(2,3)[OF assms]
      extendLease_place(3)[OF assms] ack_place(3)[OF assms] requeueExpired_place(2)[OF assms] promoteDue_place(2)[OF assms])
     (use requeueExpired_place(3)[OF assms] promoteDue_place(3)[OF assms] in \<open>blast+\<close>)

theorem queue_operations_witness:
  "queue_inv demo_queue \<and> place (snd (ack 7 demo_queue)) 7 = Absent \<and> place (snd (enqueue 7 demo_queue)) 7 = Leased 1005"
proof -
  have inv: "queue_inv demo_queue" by (rule redis_queue.reach_inv[OF demo_queue_reach])
  have p: "place demo_queue 7 = Leased 1005" by (simp add: demo_queue_eq place_def)
  then show ?thesis using queue_operations[OF inv, of 7] inv by simp
qed

text \<open>First in, first out. New ids put into the queue are handed out after those that were
  waiting, in the order in which they were put in, each exactly once.\<close>

theorem queue_fifo:
  assumes "queue_inv q" "distinct is" "\<forall>i \<in> set is. place q i = Absent"
  shows "fst (take_many (claim ms now) (length (q_ready q) + length is) (fold (\<lambda>i q. snd (enqueue i q)) is q))
         = map Some (q_ready q @ is)"
  using wq.put_take_fifo[OF assms(1,2), of ms now] assms(3) by blast

theorem queue_fifo_witness:
  "fst (take_many (claim 10 0) 3 (fold (\<lambda>i q. snd (enqueue i q)) [3, 1] demo_queue)) = [Some 8, Some 3, Some 1]"
proof -
  have inv: "queue_inv demo_queue" by (rule redis_queue.reach_inv[OF demo_queue_reach])
  have "\<forall>i \<in> set [3, 1]. place demo_queue i = Absent" by (simp add: demo_queue_eq place_def)
  from queue_fifo[OF inv _ this, of 10 0] show ?thesis by (simp add: demo_queue_eq eval_nat_numeral)
qed

text \<open>The queue loses nothing, and nothing stays away. An id leaves the queue only by an
  acknowledgement while it is leased; once the deadline of its lease or of its delay has passed, the
  next sufficiently large sweep makes it wait for a worker again.\<close>

theorem queue_loses_nothing:
  assumes "queue_inv q" "place q i \<noteq> Absent"
  shows "(queue_step q q' \<and> place q' i = Absent \<longrightarrow> q' = snd (ack i q) \<and> (\<exists>d. place q i = Leased d))
    \<and> (\<forall>d \<le> now. place q i = Leased d \<longrightarrow> length (q_leases q) \<le> n \<longrightarrow> place (snd (requeueExpired n now q)) i = Waiting)
    \<and> (\<forall>d \<le> now. place q i = Delayed d \<longrightarrow> length (q_delayed q) \<le> n \<longrightarrow> place (snd (promoteDue n now q)) i = Waiting)"
proof (intro conjI)
  show "queue_step q q' \<and> place q' i = Absent \<longrightarrow> q' = snd (ack i q) \<and> (\<exists>d. place q i = Leased d)"
  proof (intro impI, elim conjE)
    assume st: "queue_step q q'" and ab: "place q' i = Absent"
    show "q' = snd (ack i q) \<and> (\<exists>d. place q i = Leased d)"
      using st
    proof (cases rule: queue_step.cases)
      case (5 j)
      then show ?thesis using ab assms(2) ack_place(3)[OF assms(1), of j]
        by (cases "i = j") (auto simp: ack_def split: if_splits)
    qed (use ab assms(2) in \<open>auto simp: client_defs enqueue_place[OF assms(1)] enqueueDelayed_place[OF assms(1)]
        claim_place[OF assms(1)] extendLease_place[OF assms(1)] requeueExpired_place[OF assms(1)] promoteDue_place[OF assms(1)]
        split: if_splits list.splits\<close>)
  qed
  show "\<forall>d \<le> now. place q i = Leased d \<longrightarrow> length (q_leases q) \<le> n \<longrightarrow> place (snd (requeueExpired n now q)) i = Waiting"
    using requeueExpired_place(2,4)[where n = n and now = now, OF assms(1)] by (auto simp: requeueExpired_def)
  show "\<forall>d \<le> now. place q i = Delayed d \<longrightarrow> length (q_delayed q) \<le> n \<longrightarrow> place (snd (promoteDue n now q)) i = Waiting"
    using promoteDue_place(2,4)[where n = n and now = now, OF assms(1)] by (auto simp: promoteDue_def)
qed

theorem queue_loses_nothing_witness:
  "queue_inv demo_queue \<and> place demo_queue 7 = Leased 1005 \<and> place (snd (requeueExpired 100 2000 demo_queue)) 7 = Waiting"
proof -
  have inv: "queue_inv demo_queue" by (rule redis_queue.reach_inv[OF demo_queue_reach])
  have p: "place demo_queue 7 = Leased 1005" "length (q_leases demo_queue) \<le> 100" by (simp_all add: demo_queue_eq place_def)
  then show ?thesis using queue_loses_nothing[OF inv, of 7 demo_queue 2000 100] inv by simp
qed

text \<open>Leases have no owner. The comment of \<open>wfAck\<close> says that an id is forgotten only if the
  caller still holds the lease. The script only tests that somebody does: after a worker lost its
  lease to the reaper and another worker claimed the id again, the late acknowledgement of the first
  removes the id although the second is still at work on it.\<close>

theorem ack_has_no_owner:
  "let q1 = snd (claim 1000 0 (snd (enqueue 7 empty_queue)));
       q2 = snd (requeueExpired 100 2000 q1);
       (second, q3) = claim 1000 2001 q2
   in second = Some 7 \<and> place q3 7 = Leased 3001 \<and> ack 7 q3 = (True, empty_queue)"
  by (simp add: client_defs wfEnqueue_def wfClaim_def wfRequeueExpired_def wfAck_def due_def empty_queue_def
      place_def Let_def)

end
