(* ===== verification/Wf_Worker.thy ===== *)
theory Wf_Worker
  imports Wf_Engine_Tasks Wf_Queue
begin

text \<open>
  The queue worker: \<open>src/utils/withTimeout.js\<close>, \<open>src/workers/approval.js\<close>,
  \<open>src/workers/runTask.js\<close> and \<open>src/workers/queueWorker.js\<close>, on the engine and the Redis queue
  together (\<open>src/worker.js\<close> wires them). Handlers are a parameter: a handler is what its promise
  does, and when. A worker loop is a small program whose awaits are the points at which other
  processes run or the worker dies.
\<close>

section \<open>Racing a promise against a timer\<close>

datatype 'a settlement = Fulfilled 'a | Rejected "js_error option"

text \<open>A promise settles after some time or never (\<open>None\<close>). A rejection carries what was thrown,
  \<open>None\<close> for a falsy value such as \<open>undefined\<close>.\<close>

type_synonym 'a promise = "('a settlement \<times> time) option"

text \<open>\<open>setTimeout\<close>: a delay below 1 ms or beyond 31 bits is taken for 1 ms.\<close>

definition timer_delay :: "int \<Rightarrow> int" where
  "timer_delay ms = (if 1 \<le> ms \<and> ms \<le> 2 ^ 31 - 1 then ms else 1)"

definition TimeoutError :: "string \<Rightarrow> int \<Rightarrow> js_error" where
  "TimeoutError label ms =
     \<lparr>je_name = ''TimeoutError'', je_message = label @ '' timed out after '' @ show_int ms @ ''ms'',
      je_retryable = None, je_non_retryable = False\<rparr>"

text \<open>\<open>Promise.race\<close>: the promise wins if it settles before the timer fires.\<close>

definition withTimeout :: "'a promise \<Rightarrow> int \<Rightarrow> string \<Rightarrow> 'a settlement" where
  "withTimeout promise ms label =
     (case promise of
        Some (s, t) \<Rightarrow> if t < timer_delay ms then s else Rejected (Some (TimeoutError label ms))
      | None \<Rightarrow> Rejected (Some (TimeoutError label ms)))"

section \<open>Running one claimed task\<close>

text \<open>What a handler resolves to: nothing, a value, or \<open>AwaitApproval\<close>.\<close>

datatype handler_output = Undefined | Value json | AwaitApproval approval_request

record handler_args =
  h_config :: json
  h_input :: json
  h_parents :: "(key \<times> json) list"
  h_attempt :: int
  h_ownerId :: oid

type_synonym handlers = "string \<Rightarrow> (handler_args \<Rightarrow> handler_output promise) option"

text \<open>\<open>{ task, input, parents }\<close>, what \<open>engine.startTask\<close> returned.\<close>

type_synonym claimed = "task \<times> json \<times> (key \<times> json) list"

definition handler_args_of :: "claimed \<Rightarrow> handler_args" where
  "handler_args_of c =
     (case c of (task, input, parents) \<Rightarrow>
        \<lparr>h_config = (if t_config task = JNull then JObj [] else t_config task), h_input = input,
         h_parents = parents, h_attempt = t_attempt task, h_ownerId = t_ownerId task\<rparr>)"

text \<open>The \<open>try\<close> block.\<close>

definition run_handler :: "handlers \<Rightarrow> claimed \<Rightarrow> handler_output settlement" where
  "run_handler handlers c =
     (let task = fst c in
      case handlers (t_type task) of
        None \<Rightarrow> Rejected (Some (NonRetryableError (''No handler registered for task type \"'' @ t_type task @ ''\"'')))
      | Some handler \<Rightarrow>
          withTimeout (handler (handler_args_of c)) (t_timeoutMs task) (''task \"'' @ t_key task @ ''\"''))"

text \<open>The report: \<open>if (failure)\<close> is a test for truth, so a rejection with a falsy value leaves
  \<open>failure\<close> falsy and \<open>output\<close> undefined.\<close>

definition report :: "'q deps \<Rightarrow> task \<Rightarrow> handler_output settlement \<Rightarrow> time \<Rightarrow> 'q world \<Rightarrow> 'q world result" where
  "report dp task s now w =
     (case s of
        Rejected (Some err) \<Rightarrow>
          bind_result (failTask dp (t_id task) (t_leaseToken task) (Some err) now w) (\<lambda>(_, w'). Inr w')
      | Fulfilled (AwaitApproval request) \<Rightarrow>
          bind_result (suspendForApproval dp (t_id task) (t_leaseToken task) request now (fst w)) (\<lambda>(_, db). Inr (db, snd w))
      | Fulfilled (Value v) \<Rightarrow>
          bind_result (completeTask dp (t_id task) (t_leaseToken task) v now w) (\<lambda>(_, w'). Inr w')
      | _ \<Rightarrow>
          bind_result (completeTask dp (t_id task) (t_leaseToken task) JNull now w) (\<lambda>(_, w'). Inr w'))"

definition runTask :: "'q deps \<Rightarrow> handlers \<Rightarrow> claimed \<Rightarrow> time \<Rightarrow> 'q world \<Rightarrow> 'q world result" where
  "runTask dp handlers c now w = report dp (fst c) (run_handler handlers c) now w"

section \<open>The engine on the Redis queue\<close>

text \<open>The wiring of \<open>src/worker.js\<close>: \<open>up i\<close> tells whether Redis could be reached for id \<open>i\<close> during
  the call, \<open>rnow\<close> is the clock of Redis.\<close>

definition redis_deps :: "(oid \<Rightarrow> bool) \<Rightarrow> time \<Rightarrow> int \<Rightarrow> (int \<Rightarrow> int \<Rightarrow> int) \<Rightarrow> queue deps" where
  "redis_deps up rnow leaseMs backoff =
     \<lparr>dep_enqueue = (\<lambda>i q. if up i then (True, snd (enqueue i q)) else (False, q)),
      dep_enqueueDelayed = Some (\<lambda>i d q. if up i then (True, snd (enqueueDelayed i (of_int d) rnow q)) else (False, q)),
      dep_leaseMs = leaseMs, dep_backoff = backoff, dep_outbox = True, dep_approvals = True\<rparr>"

definition redis_engine :: "queue deps \<Rightarrow> bool" where
  "redis_engine dp \<longleftrightarrow> (\<exists>up rnow leaseMs backoff. dp = redis_deps up rnow leaseMs backoff)"

section \<open>The worker loop\<close>

text \<open>Where a loop stands between two awaits: waiting for work, holding a popped id, holding a
  task claimed in MongoDB, running its handler, with a result to report, about to acknowledge (with the claim it
  reported, or none when there was nothing to do).\<close>

datatype loop_state =
    Idle
  | Popped oid
  | Claimed oid claimed
  | Running oid claimed
  | Finished oid claimed "handler_output settlement"
  | Acking oid "claimed option"

definition loop_claim :: "rat \<Rightarrow> time \<Rightarrow> queue world \<Rightarrow> loop_state \<times> queue world" where
  "loop_claim claimLeaseMs rnow w =
     (case claim claimLeaseMs rnow (snd w) of
        (None, q) \<Rightarrow> (Idle, fst w, q)
      | (Some i, q) \<Rightarrow> (Popped i, fst w, q))"

text \<open>\<open>processTask\<close> up to the handler: an exception is logged and the loop goes on.\<close>

definition process_start :: "queue deps \<Rightarrow> string \<Rightarrow> time \<Rightarrow> time \<Rightarrow> oid \<Rightarrow> queue world \<Rightarrow> loop_state \<times> queue world" where
  "process_start dp workerId mongoNow now i w =
     (case startTask dp i workerId mongoNow now w of
        (Inl err, w') \<Rightarrow> (Idle, w')
      | (Inr None, w') \<Rightarrow> (Acking i None, w')
      | (Inr (Some c), w') \<Rightarrow> (Claimed i c, w'))"

definition process_extend :: "rat \<Rightarrow> time \<Rightarrow> oid \<Rightarrow> claimed \<Rightarrow> queue world \<Rightarrow> loop_state \<times> queue world" where
  "process_extend leaseMs rnow i c w = (Running i c, fst w, snd (extendLease i leaseMs rnow (snd w)))"

text \<open>One tick of the renewal timer; on a lost lease the handler's signal is aborted.\<close>

definition process_renew :: "queue deps \<Rightarrow> rat \<Rightarrow> time \<Rightarrow> time \<Rightarrow> oid \<Rightarrow> claimed \<Rightarrow> queue world \<Rightarrow> bool \<times> queue world" where
  "process_renew dp leaseMs mongoNow rnow i c w =
     (let (stillOurs, db) = renewLease dp (t_id (fst c)) (t_leaseToken (fst c)) mongoNow (fst w) in
      if \<not> stillOurs then (False, db, snd w)
      else (True, db, snd (extendLease i leaseMs rnow (snd w))))"

definition process_report :: "queue deps \<Rightarrow> time \<Rightarrow> oid \<Rightarrow> claimed \<Rightarrow> handler_output settlement \<Rightarrow> queue world
    \<Rightarrow> loop_state \<times> queue world" where
  "process_report dp now i c s w =
     (case report dp (fst c) s now w of
        Inl err \<Rightarrow> (Idle, w)
      | Inr w' \<Rightarrow> (Acking i (Some c), w'))"

definition process_ack :: "oid \<Rightarrow> queue world \<Rightarrow> loop_state \<times> queue world" where
  "process_ack i w = (Idle, fst w, snd (ack i (snd w)))"

text \<open>\<open>processTask\<close> when nothing comes in between.\<close>

definition processTask :: "queue deps \<Rightarrow> handlers \<Rightarrow> rat \<Rightarrow> string \<Rightarrow> time \<Rightarrow> time \<Rightarrow> time \<Rightarrow> oid \<Rightarrow> queue world
    \<Rightarrow> loop_state \<times> queue world" where
  "processTask dp handlers leaseMs workerId mongoNow now rnow i w =
     (case process_start dp workerId mongoNow now i w of
        (Claimed j c, w1) \<Rightarrow>
          (case process_report dp now j c (run_handler handlers c) (snd (process_extend leaseMs rnow j c w1)) of
             (Acking k _, w2) \<Rightarrow> process_ack k w2
           | (ls, w2) \<Rightarrow> (ls, w2))
      | (Acking j _, w1) \<Rightarrow> process_ack j w1
      | (ls, w1) \<Rightarrow> (ls, w1))"

text \<open>Both maintenance calls; \<open>Promise.all\<close> starts the reaper first.\<close>

definition maintenance :: "nat \<Rightarrow> time \<Rightarrow> queue \<Rightarrow> queue" where
  "maintenance n rnow q = snd (promoteDue n rnow (snd (requeueExpired n rnow q)))"

text \<open>The loop as a step relation; handlers, clocks and intervals are arbitrary. The renewal timer
  runs until the report is done. \<open>loop_abort\<close> is an
  exception of any await (a command to Redis or MongoDB that failed) or the death of the worker:
  what was done stays done and the loop starts over, here or in another process.\<close>

inductive loop_step :: "loop_state \<times> queue world \<Rightarrow> loop_state \<times> queue world \<Rightarrow> bool" where
  loop_pop: "loop_step (Idle, w) (loop_claim ms rnow w)"
| loop_start: "redis_engine dp \<Longrightarrow> loop_step (Popped i, w) (process_start dp wid mnow now i w)"
| loop_extend: "loop_step (Claimed i c, w) (process_extend ms rnow i c w)"
| loop_renew: "redis_engine dp \<Longrightarrow> loop_step (Running i c, w) (Running i c, snd (process_renew dp ms mnow rnow i c w))"
| loop_renew_late: "redis_engine dp \<Longrightarrow>
    loop_step (Finished i c s, w) (Finished i c s, snd (process_renew dp ms mnow rnow i c w))"
| loop_finish: "loop_step (Running i c, w) (Finished i c (run_handler handlers c), w)"
| loop_report: "redis_engine dp \<Longrightarrow> loop_step (Finished i c s, w) (process_report dp now i c s w)"
| loop_ack: "loop_step (Acking i cl, w) (process_ack i w)"
| loop_abort: "loop_step (ls, w) (Idle, w)"

text \<open>The whole system: any number of loops, the calls of the API, the scheduler and the reconciler,
  and queue maintenance, interleaved.\<close>

type_synonym system = "(nat \<Rightarrow> loop_state) \<times> queue world"

inductive system_step :: "system \<Rightarrow> system \<Rightarrow> bool" where
  sys_loop: "loop_step (ls n, w) (l', w') \<Longrightarrow> system_step (ls, w) (ls(n := l'), w')"
| sys_call: "engine_call redis_engine w w' \<Longrightarrow> system_step (ls, w) (ls, w')"
| sys_maintenance: "system_step (ls, db, q) (ls, db, maintenance n rnow q)"

definition system_init :: "system \<Rightarrow> bool" where
  "system_init s \<longleftrightarrow> s = ((\<lambda>_. Idle), empty_db, empty_queue)"

inductive_cases loop_stepE: "loop_step (l, w) (l', w')"

end
