(* ===== verification/Wf_Worker_Correct.thy ===== *)
theory Wf_Worker_Correct
  imports Wf_Worker
begin

text \<open>
  Correctness of the workers together with the engine and the queue: the composed system stays
  within what was proved of its parts, an acknowledgement comes after the result is stored, what
  the processing of one task leaves behind, and the recovery of tasks whose queue entry was lost.
\<close>

section \<open>What the engine does to the queue\<close>

text \<open>The queue after the three sweeps of \<open>reconcile\<close> that only enqueue.\<close>

definition swept :: "'q deps \<Rightarrow> int \<Rightarrow> nat \<Rightarrow> time \<Rightarrow> time \<Rightarrow> db \<Rightarrow> 'q \<Rightarrow> 'q" where
  "swept dp staleMs lmt mnow now db q =
     (let q = snd (sweep_enqueue dp (limited lmt
            (filter (\<lambda>t. t_status t = T_QUEUED \<and> before (t_queuedAt t) (now - staleMs)) (tasks db))) 0 q);
          q = snd (sweep_enqueue dp (limited lmt
            (filter (\<lambda>t. t_status t = T_RUNNING \<and> lease_expired mnow t) (tasks db))) 0 q)
      in snd (sweep_enqueue dp (limited lmt
            (filter (\<lambda>t. t_status t = T_RETRYING \<and> before (t_retryAt t) (now - staleMs)) (tasks db))) 0 q))"

lemma reconcile_sweeps:
  assumes "reconcile dp staleMs lmt mnow now w = Inr (c, w')"
  obtains n db q ps where
    "sweep_ready dp now [] (limited lmt
       (filter (\<lambda>t. t_status t = T_READY \<and> before (t_readyAt t) (now - staleMs)) (tasks (fst w)))) 0 w = Inr (n, db, q)"
    "w' = (let q' = swept dp staleMs lmt mnow now db q in
           if dep_approvals dp then snd (sweep_approvals dp now ps 0 (db, q')) else (db, q'))"
proof -
  obtain n db q where s: "sweep_ready dp now [] (limited lmt
       (filter (\<lambda>t. t_status t = T_READY \<and> before (t_readyAt t) (now - staleMs)) (tasks (fst w)))) 0 w = Inr (n, db, q)"
    using assms by (auto simp: reconcile_def Let_def elim!: bind_result_InrE)
  have "w' = (let q' = swept dp staleMs lmt mnow now db q in
      if dep_approvals dp then snd (sweep_approvals dp now (limited lmt
        (filter (\<lambda>p. p_status p = P_PENDING \<and> before (Some (p_expiresAt p)) now) (approvals db))) 0 (db, q')) else (db, q'))"
    using assms s by (cases "dep_approvals dp") (auto simp: reconcile_def swept_def Let_def split_beta)
  with s show ?thesis by (rule that)
qed

text \<open>The engine reaches the queue only through the two injected functions, so whatever they keep,
  every operation keeps. \<open>R\<close> is the kept relation between the queue before and after. Most
  operations use \<open>enqueue\<close> alone.\<close>

locale enqueue_only =
  fixes D :: "'q deps \<Rightarrow> bool" and R :: "'q \<Rightarrow> 'q \<Rightarrow> bool"
  assumes R_refl: "R q q" and R_trans: "R q q' \<Longrightarrow> R q' q'' \<Longrightarrow> R q q''"
    and R_enqueue: "D dp \<Longrightarrow> R q (snd (dep_enqueue dp i q))"
begin

lemma dispatchTask_R: "D dp \<Longrightarrow> dispatchTask dp now t w = Inr (b, w') \<Longrightarrow> R (snd w) (snd w')"
  by (auto simp: dispatchTask_def enqueueSafely_def R_refl R_enqueue elim!: bind_result_InrE split: if_splits)

lemma dispatch_all_R: "D dp \<Longrightarrow> dispatch_all dp now ts w = Inr w' \<Longrightarrow> R (snd w) (snd w')"
proof (induction ts arbitrary: w)
  case (Cons t ts)
  then obtain b w1 where "dispatchTask dp now t w = Inr (b, w1)" "dispatch_all dp now ts w1 = Inr w'"
    by (auto elim!: bind_result_InrE)
  then show ?case using R_trans[OF dispatchTask_R Cons.IH] Cons.prems(1) by blast
qed (simp add: R_refl)

lemma dispatchReady_R: "D dp \<Longrightarrow> dispatchReady dp i now w = Inr w' \<Longrightarrow> R (snd w) (snd w')"
  by (auto simp: dispatchReady_def R_refl dispatch_all_R split: if_splits)

lemma then_dispatch: "dispatchReady dp i now (db, q) = Inr w' \<Longrightarrow> D dp \<Longrightarrow> R q (snd w')"
  using dispatchReady_R[of dp i now "(db, q)" w'] by simp

lemma startExecution_R: "D dp \<Longrightarrow> startExecution dp wfl sp now w = Inr (e, w') \<Longrightarrow> R (snd w) (snd w')"
  by (auto simp: startExecution_def elim!: bind_result_InrE dest: then_dispatch)

lemma completeTask_R: "D dp \<Longrightarrow> completeTask dp tid tok out now w = Inr (b, w') \<Longrightarrow> R (snd w) (snd w')"
  by (auto simp: completeTask_def R_refl elim!: bind_result_InrE dest: then_dispatch split: option.splits)

lemma resumeExecution_R: "D dp \<Longrightarrow> resumeExecution dp i now w = Inr (b, w') \<Longrightarrow> R (snd w) (snd w')"
  by (auto simp: resumeExecution_def R_refl elim!: bind_result_InrE dest: then_dispatch split: if_splits)

lemma resolveApproval_R: "D dp \<Longrightarrow> resolveApproval dp aid dec by cm scope now w = Inr (r, w') \<Longrightarrow> R (snd w) (snd w')"
  by (auto simp: resolveApproval_def R_refl elim!: bind_result_InrE dest: then_dispatch
      split: if_splits option.splits approval_status.splits)

lemma sweep_ready_R: "D dp \<Longrightarrow> sweep_ready dp now st ts n w = Inr (m, w') \<Longrightarrow> R (snd w) (snd w')"
proof (induction ts arbitrary: st n w)
  case (Cons t ts)
  show ?case
  proof (cases "\<exists>st. sweep_ready dp now st ts n w = Inr (m, w')")
    case True
    then show ?thesis using Cons by blast
  next
    case False
    then obtain st b w1 where w1: "dispatchTask dp now t w = Inr (b, w1)"
      "sweep_ready dp now st ts (if b then n + 1 else n) w1 = Inr (m, w')"
      using Cons.prems(2) by (auto simp: Let_def elim!: bind_result_InrE split: if_splits)
    show ?thesis by (rule R_trans[OF dispatchTask_R[OF Cons.prems(1) w1(1)] Cons.IH[OF Cons.prems(1) w1(2)]])
  qed
qed (simp add: R_refl)

lemma sweep_enqueue_R: "D dp \<Longrightarrow> R q (snd (sweep_enqueue dp ts n q))"
proof (induction ts arbitrary: n q)
  case (Cons t ts)
  have "R q (snd (sweep_enqueue dp ts m (snd (dep_enqueue dp (t_id t) q))))" for m
    by (rule R_trans[OF R_enqueue[OF Cons.prems] Cons.IH[OF Cons.prems]])
  then show ?case by (simp add: Let_def split_beta enqueueSafely_def)
qed (simp add: R_refl)

lemma sweep_approvals_R: "D dp \<Longrightarrow> R (snd w) (snd (snd (sweep_approvals dp now ps n w)))"
proof (induction ps arbitrary: n w)
  case (Cons p ps)
  show ?case
  proof (cases "resolveApproval dp (p_id p) P_EXPIRED None None (\<lambda>_. True) now w")
    case (Inr r)
    obtain out w1 where r: "r = (out, w1)" by (cases r)
    have "R (snd w) (snd w1)" by (rule resolveApproval_R[OF Cons.prems]) (use Inr r in simp)
    then show ?thesis using R_trans[OF _ Cons.IH[OF Cons.prems]] Inr r by simp
  qed (simp add: Cons)
qed (simp add: R_refl)

lemma swept_R: "D dp \<Longrightarrow> R q (swept dp staleMs lmt mnow now db q)"
  unfolding swept_def Let_def by (rule R_trans[OF R_trans[OF sweep_enqueue_R sweep_enqueue_R] sweep_enqueue_R])

lemma reconcile_R:
  assumes "D dp" "reconcile dp staleMs lmt mnow now w = Inr (c, w')"
  shows "R (snd w) (snd w')"
proof -
  obtain n db q ps where sr: "sweep_ready dp now [] (limited lmt
       (filter (\<lambda>t. t_status t = T_READY \<and> before (t_readyAt t) (now - staleMs)) (tasks (fst w)))) 0 w = Inr (n, db, q)"
    and s: "w' = (let q' = swept dp staleMs lmt mnow now db q in
           if dep_approvals dp then snd (sweep_approvals dp now ps 0 (db, q')) else (db, q'))"
    by (rule reconcile_sweeps[OF assms(2)])
  have "R (snd w) q" using sweep_ready_R[OF assms(1) sr] by simp
  then have "R (snd w) (swept dp staleMs lmt mnow now db q)" by (rule R_trans[OF _ swept_R[OF assms(1)]])
  then show ?thesis
    using R_trans[OF _ sweep_approvals_R[OF assms(1), of "(db, swept dp staleMs lmt mnow now db q)" now ps 0]] s
    by (simp add: Let_def)
qed

end

text \<open>A failure may enqueue its task again after a delay.\<close>

locale enqueue_discipline = enqueue_only D R
  for D :: "'q deps \<Rightarrow> bool" and R +
  assumes R_delayed: "D dp \<Longrightarrow> dep_enqueueDelayed dp = Some f \<Longrightarrow> R q (snd (f i d q))"
begin

lemma then_fail: "failTask dp tid tok err now (db, q) = Inr (r, w') \<Longrightarrow> D dp \<Longrightarrow> R q (snd w')"
  by (auto simp: failTask_def enqueueRetrySafely_def R_refl R_enqueue R_delayed elim!: bind_result_InrE split: option.splits)

lemma failTask_R: "D dp \<Longrightarrow> failTask dp tid tok err now w = Inr (r, w') \<Longrightarrow> R (snd w) (snd w')"
  using then_fail[of dp tid tok err now "fst w" "snd w"] by simp

lemma startTask_R: "D dp \<Longrightarrow> startTask dp tid wid mnow now w = (r, w') \<Longrightarrow> R (snd w) (snd w')"
  by (auto simp: startTask_def Let_def R_refl dest: then_fail split: sum.splits option.splits if_splits)

lemma engine_call_R: "engine_call D w w' \<Longrightarrow> R (snd w) (snd w')"
  by (induction rule: engine_call.induct)
     (auto simp: R_refl intro: startExecution_R dispatchReady_R startTask_R completeTask_R failTask_R resolveApproval_R
       resumeExecution_R reconcile_R)

lemma report_R: "D dp \<Longrightarrow> report dp task s now w = Inr w' \<Longrightarrow> R (snd w) (snd w')"
  by (auto simp: report_def R_refl elim!: bind_result_InrE dest: failTask_R completeTask_R
      split: settlement.splits option.splits handler_output.splits)

end

section \<open>The composed system\<close>

lemma queue_move: "queue_step q q' \<Longrightarrow> queue_step\<^sup>*\<^sup>* q q'"
  by (rule r_into_rtranclp)

lemmas queue_moves = queue_step.intros[THEN queue_move]

interpretation redis_moves: enqueue_discipline redis_engine "queue_step\<^sup>*\<^sup>*"
proof
  show "queue_step\<^sup>*\<^sup>* q (snd (f i d q))" if "redis_engine dp" "dep_enqueueDelayed dp = Some f" for dp f q i d
    using that queue_moves(2)[of q i "of_int d"] by (auto simp: redis_engine_def redis_deps_def)
qed (auto simp: redis_engine_def redis_deps_def intro: queue_moves(1) split: if_splits)

lemma renew_effect:
  assumes "redis_engine dp" "w' = snd (process_renew dp ms mnow rnow i c w)"
  shows "(engine_step redis_engine)\<^sup>*\<^sup>* w w' \<and> queue_step\<^sup>*\<^sup>* (snd w) (snd w')"
proof -
  obtain b db where r: "renewLease dp (t_id (fst c)) (t_leaseToken (fst c)) mnow (fst w) = (b, db)" by fastforce
  then have "engine_step redis_engine w (db, snd w)"
    using es_renew[of redis_engine dp _ _ _ "fst w" b db "snd w"] assms by simp
  moreover have "w' = (db, snd w) \<or> w' = (db, snd (extendLease i ms rnow (snd w)))"
    using assms r by (auto simp: process_renew_def split: if_splits)
  ultimately show ?thesis using es_queue[of redis_engine db "snd w"]
    by (auto intro: queue_moves r_into_rtranclp converse_rtranclp_into_rtranclp)
qed

lemma loop_step_effect:
  assumes "loop_step (l, w) (l', w')"
  shows "(engine_step redis_engine)\<^sup>*\<^sup>* w w' \<and> queue_step\<^sup>*\<^sup>* (snd w) (snd w')"
proof -
  have q: "(engine_step redis_engine)\<^sup>*\<^sup>* w (fst w, q)" for q by (metis prod.collapse queue_steps)
  show ?thesis
    using assms
  proof cases
    case (loop_pop ms rnow)
    then have "w' = (fst w, snd (claim ms rnow (snd w)))"
      by (auto simp: loop_claim_def split: prod.splits option.splits)
    then show ?thesis using q by (auto intro: queue_moves r_into_rtranclp)
  next
    case (loop_start dp i wid mnow now)
    then obtain r where "startTask dp i wid mnow now w = (r, w')"
      by (auto simp: process_start_def split: prod.splits sum.splits option.splits)
    then show ?thesis using loop_start startTask_steps[of redis_engine] redis_moves.startTask_R by blast
  next
    case (loop_renew dp i c ms mnow rnow)
    then show ?thesis using renew_effect by blast
  next
    case (loop_renew_late dp i c s ms mnow rnow)
    then show ?thesis using renew_effect by blast
  next
    case (loop_report dp i c s now)
    then have "w' = w \<or> report dp (fst c) s now w = Inr w'" by (auto simp: process_report_def split: sum.splits)
    moreover have "(engine_step redis_engine)\<^sup>*\<^sup>* w w'" if "report dp (fst c) s now w = Inr w'"
      using that loop_report(3)
      by (auto simp: report_def elim!: bind_result_InrE split: settlement.splits option.splits handler_output.splits
          intro: failTask_steps[of redis_engine] completeTask_steps[of redis_engine]
            r_into_rtranclp es_suspend[of redis_engine _ _ _ _ _ "fst w" _ _ "snd w", simplified])
    ultimately show ?thesis using redis_moves.report_R loop_report(3) by blast
  qed (use q in \<open>auto simp: process_extend_def process_ack_def intro: queue_moves r_into_rtranclp\<close>)
qed

lemma system_step_effect:
  assumes "system_step s s'"
  shows "(engine_step redis_engine)\<^sup>*\<^sup>* (snd s) (snd s') \<and> queue_step\<^sup>*\<^sup>* (snd (snd s)) (snd (snd s'))"
  using assms
proof cases
  case (sys_loop ls n w l' w')
  then show ?thesis using loop_step_effect by auto
next
  case (sys_call w w' ls)
  then show ?thesis using engine_call_steps[of redis_engine w w'] redis_moves.engine_call_R[of w w'] by simp
next
  case (sys_maintenance ls db q n rnow)
  have "queue_step\<^sup>*\<^sup>* q (maintenance n rnow q)"
    unfolding maintenance_def by (rule rtranclp.rtrancl_into_rtrancl[OF r_into_rtranclp]) (rule queue_step.intros)+
  then show ?thesis using sys_maintenance queue_steps by simp
qed

text \<open>Reachable states of the system are reachable states of the engine and of the queue.\<close>

lemma system_reach:
  assumes "reach system_init system_step s"
  shows "reachable redis_engine (snd s) \<and> reach (\<lambda>q. q = empty_queue) queue_step (snd (snd s))"
  using assms
proof (induction rule: reach.induct)
  case (reach_init s)
  then show ?case by (auto simp: system_init_def intro!: reach.reach_init)
next
  case (reach_step s s')
  note e = system_step_effect[OF reach_step.hyps(2)]
  show ?case using reach_rtranclp[OF conjunct1[OF reach_step.IH] conjunct1[OF e]]
      reach_rtranclp[OF conjunct2[OF reach_step.IH] conjunct2[OF e]] by blast
qed

section \<open>Reports settle claims\<close>

text \<open>After a transaction on its run, a task is in the status the transaction gave it.\<close>

lemma run_txn_task:
  assumes "db_inv db" "t \<in> set (tasks db)" "run_txn (t_executionId t) F db db'"
    "view (t_executionId t) db = Some r" "run_tasks (spec_run (F r)) (t_key t) = Some s"
  shows "\<exists>t' \<in> set (tasks db'). t_id t' = t_id t \<and> t_status t' = s"
proof -
  have inv: "db_inv db'" by (rule run_txn_inv[OF assms(1,3)])
  have "view (t_executionId t) db' = Some (F r)" by (rule run_txn_status[OF assms(3,4)])
  then obtain t1 where t1: "t1 \<in> set (tasks db')" "t_executionId t1 = t_executionId t" "t_key t1 = t_key t" "t_status t1 = s"
    using status_in_run assms(5) by metis
  have "(t_id t, t_executionId t, t_key t) \<in> set (task_names db')"
    using assms(2,3) by (force simp: run_txn_def updates_run_def task_names_def)
  then obtain t2 where "t2 \<in> set (tasks db')" "t_id t2 = t_id t" "t_executionId t2 = t_executionId t" "t_key t2 = t_key t"
    by (auto simp: task_names_def)
  then show ?thesis using task_unique[OF inv, of t2 t1] t1 by auto
qed

lemma failTask_leaves:
  assumes "db_inv (fst w)" "current tid tok (fst w) t" "failTask dp tid tok err now w = Inr (r, w')"
  shows "\<exists>t' \<in> set (tasks (fst w')). t_id t' = tid \<and> t_status t' \<noteq> T_RUNNING"
proof -
  have t: "t \<in> set (tasks (fst w))" "t_id t = tid" "t_status t = T_RUNNING" using assms(2) by (auto simp: current_def)
  obtain cr where cr: "view (t_executionId t) (fst w) = Some cr" "crun_inv cr" "ctask_of t \<in> set (cr_tasks cr)"
    using db_inv_view[OF assms(1) t(1)] by metis
  then obtain e where e: "find_execution (t_executionId t) (fst w) = Some e" by (auto simp: view_Some)
  obtain db' q where w': "w' = (db', q)"
    and tx: "run_txn (t_executionId t) (if fail_outcome err t e = T_RETRYING then c_move (t_key t) T_RETRYING
         else c_fail (fail_outcome err t e) (t_key t)) (fst w) db'"
    using failTask_current[OF assms(1,2) e, of dp err now] assms(3) by auto
  obtain cr' where cr': "view (t_executionId t) (fst w') = Some cr'" "run_tasks (spec_run cr') (t_key t) = Some (fail_outcome err t e)"
    using failTask_run[OF assms(1,2) e assms(3) cr(1)] by (auto simp: spec_fail_def Let_def cancel_where_def fail_outcome_def split: if_splits)
  have "\<exists>t' \<in> set (tasks db'). t_id t' = t_id t \<and> t_status t' = fail_outcome err t e"
    by (rule run_txn_task[OF assms(1) t(1) tx cr(1)]) (use cr' w' run_txn_status[OF tx cr(1)] in simp)
  moreover have "fail_outcome err t e \<noteq> T_RUNNING" by (simp add: fail_outcome_def)
  ultimately show ?thesis using w' t(2) by auto
qed

lemma suspend_leaves:
  assumes "db_inv db" "current tid tok db t" "suspendForApproval dp tid tok rq now db = Inr (b, db')"
  shows "\<exists>t' \<in> set (tasks db'). t_id t' = tid \<and> t_status t' \<noteq> T_RUNNING"
proof -
  have t: "t \<in> set (tasks db)" "t_id t = tid" "t_status t = T_RUNNING" "t_leaseToken t = tok" using assms(2) by (auto simp: current_def)
  have "b"
  proof (rule ccontr)
    assume "\<not> b"
    have ok: "db_ok db" using assms(1) by (simp add: db_inv_def)
    let ?upd = "\<lambda>t. t\<lparr>t_leaseOwner := None, t_leaseExpiresAt := None\<rparr>"
    have tr: "transitionTask tid T_RUNNING T_WAITING_FOR_APPROVAL (\<lambda>t. t_leaseToken t = tok) ?upd db
        = Inr (True, moved t ((?upd t)\<lparr>t_status := T_WAITING_FOR_APPROVAL\<rparr>) db)"
      using transitionTask_won[of T_WAITING_FOR_APPROVAL t db "\<lambda>t. t_leaseToken t = tok" ?upd] t ok by simp
    show False using assms(3) \<open>\<not> b\<close> unfolding suspendForApproval_def tr
      by (auto simp: Let_def split: if_splits option.splits)
  qed
  then obtain t2 where t2: "current tid tok db t2" "run_txn (t_executionId t2) (c_move (t_key t2) T_WAITING_FOR_APPROVAL) db db'"
    using suspend_cases[OF assms(1,3)] by blast
  then have eq: "t2 = t" using t(1,2) distinct_map_eqD[OF db_okD(2)] assms(1) by (auto simp: current_def db_inv_def)
  obtain cr where cr: "view (t_executionId t) db = Some cr" "crun_inv cr" "ctask_of t \<in> set (cr_tasks cr)"
    using db_inv_view[OF assms(1) t(1)] by metis
  have "run_tasks (spec_run (c_move (t_key t) T_WAITING_FOR_APPROVAL cr)) (t_key t) = Some T_WAITING_FOR_APPROVAL"
    using crun_move(1)[OF cr(2,3), of T_WAITING_FOR_APPROVAL] t(3) by (simp add: quiet_move_def)
  from run_txn_task[OF assms(1) t(1) t2(2)[unfolded eq] cr(1) this] show ?thesis using t(2) by auto
qed

lemma report_steps:
  assumes "redis_engine dp" "report dp task s now w = Inr w'"
  shows "(engine_step redis_engine)\<^sup>*\<^sup>* w w'"
  using assms
  by (auto simp: report_def elim!: bind_result_InrE split: settlement.splits option.splits handler_output.splits
      intro: failTask_steps[of redis_engine] completeTask_steps[of redis_engine]
        r_into_rtranclp es_suspend[of redis_engine _ _ _ _ _ "fst w" _ _ "snd w", simplified])

lemma report_leaves:
  assumes "db_inv (fst w)" "current (t_id task) (t_leaseToken task) (fst w) t" "report dp task s now w = Inr w'"
  shows "\<exists>t' \<in> set (tasks (fst w')). t_id t' = t_id task \<and> t_status t' \<noteq> T_RUNNING"
proof -
  have c: "\<exists>t' \<in> set (tasks (fst w')). t_id t' = t_id task \<and> t_status t' \<noteq> T_RUNNING"
    if "completeTask dp (t_id task) (t_leaseToken task) v now w = Inr (b, w')" for v b
    using completeTask_current[OF assms(1,2), of dp v now] that by fastforce
  show ?thesis
    using assms(3) c failTask_leaves[OF assms(1,2)] suspend_leaves[OF assms(1,2)]
    by (auto simp: report_def elim!: bind_result_InrE split: settlement.splits option.splits handler_output.splits) blast+
qed

lemma report_settles:
  assumes "db_inv (fst w)" "redis_engine dp" "report dp task s now w = Inr w'"
    "t \<in> set (tasks (fst w))" "t_id t = t_id task" "t_leaseToken task \<le> t_leaseToken t"
  shows "settled (t_id task) (t_leaseToken task) (fst w')"
proof -
  have st: "(engine_step redis_engine)\<^sup>*\<^sup>* w w'" by (rule report_steps[OF assms(2,3)])
  have inv': "db_inv (fst w')" using st
    by (induction rule: rtranclp_induct) (use assms(1) engine_step_inv in auto)
  obtain t1 where t1: "t1 \<in> set (tasks (fst w'))" "task_rel t t1" using evolve_task[OF engine_steps_evolve[OF st] assms(4)] by blast
  show ?thesis
  proof (cases "\<exists>t. current (t_id task) (t_leaseToken task) (fst w) t")
    case True
    then obtain t2 where t2: "t2 \<in> set (tasks (fst w'))" "t_id t2 = t_id task" "t_status t2 \<noteq> T_RUNNING"
      using report_leaves[OF assms(1) _ assms(3)] by blast
    then have "t2 = t1"
      using distinct_map_eqD[OF db_okD(2) t2(1) t1(1)] inv' t1(2) assms(5) by (simp add: db_inv_def task_rel_def)
    then have "t_leaseToken task \<le> t_leaseToken t2" using t1(2) assms(6) by (auto simp: task_rel_def)
    then show ?thesis using t2 unfolding settled_def by force
  next
    case False
    then have "settled (t_id task) (t_leaseToken task) (fst w)" by (rule not_current_settled[OF assms(4-6)])
    then show ?thesis by (rule settled_evolve[OF _ engine_steps_evolve[OF st]])
  qed
qed

section \<open>The invariant of the loops\<close>

text \<open>A loop with a claim carries the id it popped and a token the database has reached; a loop that
  is about to acknowledge after a report has a settled claim.\<close>

definition claimed_in :: "oid \<Rightarrow> claimed \<Rightarrow> db \<Rightarrow> bool" where
  "claimed_in i c db \<longleftrightarrow> t_id (fst c) = i \<and> (\<exists>t \<in> set (tasks db). t_id t = i \<and> t_leaseToken (fst c) \<le> t_leaseToken t)"

fun loop_inv :: "db \<Rightarrow> loop_state \<Rightarrow> bool" where
  "loop_inv db (Claimed i c) = claimed_in i c db"
| "loop_inv db (Running i c) = claimed_in i c db"
| "loop_inv db (Finished i c s) = claimed_in i c db"
| "loop_inv db (Acking i (Some c)) = settled i (t_leaseToken (fst c)) db"
| "loop_inv db _ = True"

lemma loop_inv_evolve:
  assumes "loop_inv db l" "tasks_evolve (tasks db) (tasks db')"
  shows "loop_inv db' l"
proof -
  have "claimed_in i c db'" if "claimed_in i c db" for i c
    using that evolve_task[OF assms(2)] unfolding claimed_in_def task_rel_def by (metis le_less_trans less_imp_le)
  then show ?thesis using assms settled_evolve by (cases "(db, l)" rule: loop_inv.cases) auto
qed

lemma startTask_claims:
  assumes "db_inv (fst w)" "startTask dp i wid mnow now w = (Inr (Some c), w')"
  shows "claimed_in i c (fst w')"
proof -
  obtain t db where cl: "claimTask i wid (dep_leaseMs dp) mnow (fst w) = Inr (Some t, db)"
    and r: "fst c = t" "tasks (fst w') = tasks db"
    using assms(2) by (auto simp: startTask_def Let_def create_attempt_def abandon_attempts_def
        split: sum.splits option.splits if_splits)
  obtain t0 where t0: "t0 \<in> set (tasks (fst w))" "t_id t0 = i" "t = claim_update wid (dep_leaseMs dp) mnow t0" "db = moved t0 t (fst w)"
    using claimTask_cases[OF assms(1) cl] by auto
  have "t \<in> set (tasks db)" using t0(1,4) by (force simp: moved_def set_update_where)
  moreover have "t_id t = i" using t0(2,3) by (simp add: claim_update_def)
  ultimately show ?thesis unfolding claimed_in_def r by auto
qed

lemma loop_step_inv:
  assumes "db_inv (fst w)" "loop_inv (fst w) l" "loop_step (l, w) (l', w')"
  shows "loop_inv (fst w') l'"
proof -
  have ev: "tasks_evolve (tasks (fst w)) (tasks (fst w'))"
    using loop_step_effect[OF assms(3)] engine_steps_evolve by blast
  show ?thesis
    using assms(3)
  proof cases
    case (loop_pop ms rnow)
    then show ?thesis by (auto simp: loop_claim_def split: prod.splits option.splits)
  next
    case (loop_start dp i wid mnow now)
    then show ?thesis using startTask_claims[OF assms(1), of dp i wid mnow now]
      by (auto simp: process_start_def split: prod.splits sum.splits option.splits)
  next
    case (loop_report dp i c s now)
    then obtain t where t: "t \<in> set (tasks (fst w))" "t_id t = i" "t_leaseToken (fst c) \<le> t_leaseToken t" "t_id (fst c) = i"
      using assms(2) by (auto simp: claimed_in_def)
    then show ?thesis using loop_report report_settles[OF assms(1) loop_report(3), of "fst c" s now]
      by (auto simp: process_report_def split: sum.splits)
  qed (use assms(2) ev loop_inv_evolve[of "fst w" l "fst w'"] in \<open>auto simp: process_extend_def process_ack_def\<close>)
qed

lemma system_inv:
  assumes "reach system_init system_step s"
  shows "loop_inv (fst (snd s)) (fst s n)"
  using assms
proof (induction rule: reach.induct)
  case (reach_init s)
  then show ?case by (simp add: system_init_def)
next
  case (reach_step s s')
  have inv: "db_inv (fst (snd s))" using system_reach[OF reach_step.hyps(1)] engine.reach_inv by blast
  have ev: "tasks_evolve (tasks (fst (snd s))) (tasks (fst (snd s')))"
    using system_step_effect[OF reach_step.hyps(2)] engine_steps_evolve by blast
  have "fst s' n = fst s n \<or> loop_step (fst s n, snd s) (fst s' n, snd s')"
    using reach_step.hyps(2) by cases auto
  then show ?case using loop_inv_evolve[OF reach_step.IH ev] loop_step_inv[OF inv reach_step.IH, of _ "snd s'"] by auto
qed

section \<open>A concrete system\<close>

text \<open>A run of two tasks is started; one loop takes the first task, runs it and reports.\<close>

definition demo_redis :: "queue deps" where
  "demo_redis = redis_deps (\<lambda>_. True) 100 15000 (\<lambda>a b. b)"

definition demo_handlers :: handlers where
  "demo_handlers ty = Some (\<lambda>a. Some (Fulfilled (Value (JNum 7)), 5))"

definition demo_started :: "queue world" where
  "demo_started = snd (projr (startExecution demo_redis demo_workflow demo_params 0 (empty_db, empty_queue)))"

definition demo_popped :: "loop_state \<times> queue world" where
  "demo_popped = loop_claim 30000 100 demo_started"

definition demo_claimed :: "loop_state \<times> queue world" where
  "demo_claimed = process_start demo_redis ''w1'' 100 100 1 (snd demo_popped)"

definition claim_of :: "loop_state \<Rightarrow> claimed" where
  "claim_of l = (case l of Claimed i c \<Rightarrow> c | _ \<Rightarrow> undefined)"

definition demo_reported :: "loop_state \<times> queue world" where
  "demo_reported = (let c = claim_of (fst demo_claimed) in
     process_report demo_redis 200 1 c (run_handler demo_handlers c) (snd (process_extend 15000 100 1 c (snd demo_claimed))))"

lemma demo_loop_states:
  "fst demo_popped = Popped 1"
  "case fst demo_claimed of Claimed i c \<Rightarrow> i = 1 | _ \<Rightarrow> False"
  "case fst demo_reported of Acking i (Some c) \<Rightarrow> i = 1 \<and> t_leaseToken (fst c) = 1 | _ \<Rightarrow> False"
  "\<not> isl (startExecution demo_redis demo_workflow demo_params 0 (empty_db, empty_queue))"
  by code_simp+

lemma loop_reach:
  assumes "reach system_init system_step (ls, w)" "loop_step (ls n, w) lw"
  shows "reach system_init system_step (ls(n := fst lw), snd lw)"
  using reach_step[where step = system_step, OF assms(1) sys_loop[of ls n w "fst lw" "snd lw"]] assms(2) by simp

lemma demo_redis_engine: "redis_engine demo_redis"
  by (auto simp: redis_engine_def demo_redis_def)

lemma demo_system_reach:
  "reach system_init system_step ((\<lambda>_. Idle)(0 := fst demo_popped), snd demo_popped)"
  "reach system_init system_step ((\<lambda>_. Idle)(0 := fst demo_reported), snd demo_reported)"
proof -
  have r0: "reach system_init system_step ((\<lambda>_. Idle), empty_db, empty_queue)"
    by (rule reach_init) (simp add: system_init_def)
  obtain e where "startExecution demo_redis demo_workflow demo_params 0 (empty_db, empty_queue) = Inr (e, demo_started)"
    using demo_loop_states(4)
    by (cases "startExecution demo_redis demo_workflow demo_params 0 (empty_db, empty_queue)") (auto simp: demo_started_def)
  then have "engine_call redis_engine (empty_db, empty_queue) demo_started"
    by (rule call_start[where D = redis_engine, OF demo_redis_engine, rotated]) (simp add: demo_workflow_def)
  then have r1: "reach system_init system_step ((\<lambda>_. Idle), demo_started)"
    by (rule reach_step[where step = system_step, OF r0 sys_call])
  show r2: "reach system_init system_step ((\<lambda>_. Idle)(0 := fst demo_popped), snd demo_popped)"
    unfolding demo_popped_def by (rule loop_reach[OF r1]) (rule loop_pop)
  obtain c where c: "fst demo_claimed = Claimed 1 c"
    using demo_loop_states(2) by (cases "fst demo_claimed") auto
  have "reach system_init system_step (((\<lambda>_. Idle)(0 := fst demo_popped))(0 := fst demo_claimed), snd demo_claimed)"
    unfolding demo_claimed_def
    by (rule loop_reach[OF r2]) (simp add: demo_loop_states loop_start[OF demo_redis_engine])
  then have r3: "reach system_init system_step ((\<lambda>_. Idle)(0 := Claimed 1 c), snd demo_claimed)" using c by simp
  let ?w = "snd (process_extend 15000 100 1 c (snd demo_claimed))"
  have "reach system_init system_step (((\<lambda>_. Idle)(0 := Claimed 1 c))(0 := Running 1 c), ?w)"
    using loop_reach[OF r3, of 0 "process_extend 15000 100 1 c (snd demo_claimed)"] loop_extend
    by (simp add: process_extend_def)
  from loop_reach[OF this, of 0 "(Finished 1 c (run_handler demo_handlers c), ?w)"]
  have r5: "reach system_init system_step ((\<lambda>_. Idle)(0 := Finished 1 c (run_handler demo_handlers c)), ?w)"
    using loop_finish[of 1 c ?w demo_handlers] by simp
  from loop_reach[OF this, of 0 "process_report demo_redis 200 1 c (run_handler demo_handlers c) ?w"]
  show "reach system_init system_step ((\<lambda>_. Idle)(0 := fst demo_reported), snd demo_reported)"
    using loop_report[OF demo_redis_engine, of 1 c] c by (simp add: demo_reported_def claim_of_def Let_def)
qed

section \<open>Properties of the workers\<close>

text \<open>C16: the whole system keeps what its parts promise. In every state that any number of worker
  loops, engine calls and queue maintenance can reach, with workers dying and commands to Redis
  failing at any await, the database is a reachable database of the engine and the queue a reachable
  queue, so every property of either holds; and the acknowledgement comes last: a loop that is about to
  acknowledge a task it claimed finds the claim settled, so that no report under the claim's token,
  late or repeated, can change anything any more.\<close>

theorem ack_only_after_result:
  assumes "reach system_init system_step (ls, db, q)"
  shows "reachable redis_engine (db, q) \<and> reach (\<lambda>q. q = empty_queue) queue_step q
     \<and> (ls n = Acking i (Some c) \<longrightarrow> settled i (t_leaseToken (fst c)) db
          \<and> (\<forall>dp out now. completeTask dp i (t_leaseToken (fst c)) out now (db, q) = Inr (False, db, q)))"
proof -
  note r = system_reach[OF assms]
  have inv: "db_inv db" using r engine.reach_inv[of redis_engine "(db, q)"] by simp
  have "settled i (t_leaseToken (fst c)) db" if "ls n = Acking i (Some c)"
    using system_inv[OF assms, of n] that by simp
  then show ?thesis using r completeTask_stale[of i "t_leaseToken (fst c)" "(db, q)"] settled_stale[OF inv] by auto
qed

theorem ack_only_after_result_witness:
  "\<exists>c. fst demo_reported = Acking 1 (Some c) \<and> settled 1 (t_leaseToken (fst c)) (fst (snd demo_reported))"
proof -
  obtain c where c: "fst demo_reported = Acking 1 (Some c)"
    using demo_loop_states(3) by (auto split: loop_state.splits option.splits)
  have "reach system_init system_step ((\<lambda>_. Idle)(0 := fst demo_reported), fst (snd demo_reported), snd (snd demo_reported))"
    using demo_system_reach(2) by simp
  from ack_only_after_result[OF this, of 0 1 c] c show ?thesis by simp
qed

text \<open>A task that fails with a falsy value is completed. \<open>runTask\<close> remembers the failure in a
  variable and tests it for truth: when the promise of a handler is rejected with \<open>undefined\<close> before
  the timeout, the task ends up completed, as if the handler had returned nothing.\<close>

theorem falsy_failure_completes:
  assumes "reachable D w" "current (t_id task) (t_leaseToken task) (fst w) t" "handlers (t_type task) = Some h"
    "h (handler_args_of (task, input, parents)) = Some (Rejected None, ms)" "ms < timer_delay (t_timeoutMs task)"
  shows "\<exists>w'. runTask dp handlers (task, input, parents) now w = Inr w'
     \<and> (\<exists>t' \<in> set (tasks (fst w')). t_id t' = t_id task \<and> t_status t' = T_COMPLETED)"
proof -
  have "run_handler handlers (task, input, parents) = Rejected None"
    using assms(3-5) by (simp add: run_handler_def withTimeout_def)
  then show ?thesis
    using completeTask_current[OF engine.reach_inv[OF assms(1)] assms(2), of dp JNull now]
    by (auto simp: runTask_def report_def)
qed

theorem falsy_failure_completes_witness:
  "\<exists>w'. runTask demo_deps (\<lambda>_. Some (\<lambda>_. Some (Rejected None, 1))) (hd (tasks (fst demo2)), JNull, []) 20 demo2 = Inr w'
     \<and> (\<exists>t' \<in> set (tasks (fst w')). t_id t' = 1 \<and> t_status t' = T_COMPLETED)"
proof -
  let ?t = "hd (tasks (fst demo2))"
  have c: "current (t_id ?t) (t_leaseToken ?t) (fst demo2) ?t" unfolding current_def by code_simp
  have v: "t_id ?t = 1" "1 < timer_delay (t_timeoutMs ?t)" by code_simp+
  from falsy_failure_completes[OF demo_reachable(2) c _ _ v(2), of "\<lambda>_. Some (\<lambda>_. Some (Rejected None, 1))" _ JNull "[]"]
  show ?thesis unfolding v(1) by simp
qed

end
