(* ===== verification/Wf_Recovery.thy ===== *)
theory Wf_Recovery
  imports Wf_Worker_Correct
begin

text \<open>
  MongoDB is the source of truth and Redis only delivers: whatever happens to the queue, up to losing
  all of it, the reconciler puts every task back that still has work to do.
\<close>

section \<open>Members of the queue\<close>

lemma wfEnqueue_members: "q_members (snd (wfEnqueue i q)) = insert i (q_members q)"
  by (auto simp: wfEnqueue_def)

text \<open>Operations that reach the queue through \<open>enqueue\<close> alone never drop an id.\<close>

interpretation redis_keeps: enqueue_only redis_engine "\<lambda>q q'. q_members q \<subseteq> q_members q'"
  by unfold_locales (auto simp: redis_engine_def redis_deps_def enqueue_def wfEnqueue_members)

abbreviation online :: "time \<Rightarrow> int \<Rightarrow> (int \<Rightarrow> int \<Rightarrow> int) \<Rightarrow> queue deps" where
  "online rnow leaseMs backoff \<equiv> redis_deps (\<lambda>_. True) rnow leaseMs backoff"

lemma online_redis: "redis_engine (online rnow leaseMs backoff)"
  by (auto simp: redis_engine_def)

lemma online_enqueues: "t_id t \<in> q_members (snd (enqueueSafely (online rnow leaseMs backoff) t q))"
  by (simp add: enqueueSafely_def redis_deps_def enqueue_def wfEnqueue_members)

lemma sweep_enqueue_members:
  "t \<in> set ts \<Longrightarrow> t_id t \<in> q_members (snd (sweep_enqueue (online rnow leaseMs backoff) ts n q))"
proof (induction ts arbitrary: n q)
  case (Cons u ts)
  obtain ok q1 where e: "enqueueSafely (online rnow leaseMs backoff) u q = (ok, q1)" by (cases "enqueueSafely (online rnow leaseMs backoff) u q")
  have "t = u \<Longrightarrow> t_id t \<in> q_members q1" using online_enqueues[of u rnow leaseMs backoff q] e by simp
  then show ?case
    using Cons redis_keeps.sweep_enqueue_R[OF online_redis, of q1 rnow leaseMs backoff ts "if ok then n + 1 else n"] e
    by (auto simp: split_beta Let_def)
qed simp

section \<open>The first sweep\<close>

text \<open>Dispatching a task touches no other task and no run.\<close>

lemma dispatchTask_frame:
  assumes "db_inv (fst w)" "dispatchTask dp now t w = Inr (b, w')"
  shows "executions (fst w') = executions (fst w)"
    "u \<in> set (tasks (fst w)) \<Longrightarrow> t_status u \<noteq> T_READY \<or> t_id u \<noteq> t_id t \<Longrightarrow> u \<in> set (tasks (fst w'))"
    "db_inv (fst w')"
    "length (tasks (fst w')) = length (tasks (fst w))"
proof -
  show "executions (fst w') = executions (fst w)"
    "u \<in> set (tasks (fst w)) \<Longrightarrow> t_status u \<noteq> T_READY \<or> t_id u \<noteq> t_id t \<Longrightarrow> u \<in> set (tasks (fst w'))"
    "length (tasks (fst w')) = length (tasks (fst w))"
    using dispatchTask_cases[OF assms(1), of t dp now "snd w"] assms(2) by (auto simp: moved_def set_update_where)
  have "engine_step (\<lambda>_. True) w w'" using es_dispatch[of "\<lambda>_. True" dp now t "fst w" "snd w" b "fst w'" "snd w'"] assms(2) by simp
  then show "db_inv (fst w')" using engine_step_inv assms(1) by blast
qed

lemma sweep_ready_total: "db_inv (fst w) \<Longrightarrow> \<exists>m w'. sweep_ready dp now st ts n w = Inr (m, w')"
proof (induction ts arbitrary: st n w)
  case (Cons t ts)
  obtain b w1 where w1: "dispatchTask dp now t w = Inr (b, w1)"
    using dispatchTask_cases[OF Cons.prems, of t dp now "snd w"] by fastforce
  then show ?case using Cons.IH[OF dispatchTask_frame(3)[OF Cons.prems w1]] Cons.IH[OF Cons.prems] by (auto simp: Let_def)
qed simp

lemma sweep_ready_others:
  assumes "db_inv (fst w)" "sweep_ready dp now st ts n w = Inr (m, w')" "u \<in> set (tasks (fst w))" "t_status u \<noteq> T_READY"
  shows "u \<in> set (tasks (fst w')) \<and> length (tasks (fst w')) = length (tasks (fst w))"
  using assms(1-3)
proof (induction ts arbitrary: st n w)
  case (Cons t ts)
  obtain b w1 where w1: "dispatchTask dp now t w = Inr (b, w1)"
    using dispatchTask_cases[OF Cons.prems(1), of t dp now "snd w"] by fastforce
  note f = dispatchTask_frame[OF Cons.prems(1) w1]
  show ?case
    using Cons.prems(2) w1 Cons.IH[OF f(3) _ f(2)] Cons.IH[OF Cons.prems(1)] Cons.prems(3) assms(4) f(4) by (auto simp: Let_def split: if_splits)
qed simp

definition cache_ok :: "(oid \<times> execution_status option) list \<Rightarrow> db \<Rightarrow> bool" where
  "cache_ok st db \<longleftrightarrow> (\<forall>i s. map_of st i = Some s \<longrightarrow> s = map_option e_status (find_execution i db))"

lemma sweep_ready_queues:
  assumes "db_inv (fst w)" "cache_ok st (fst w)" "sweep_ready (online rnow leaseMs backoff) now st ts n w = Inr (m, w')"
    "t \<in> set ts" "t \<in> set (tasks (fst w))" "t_status t = T_READY" "map_option e_status (find_execution (t_executionId t) (fst w)) = Some E_RUNNING"
  shows "t_id t \<in> q_members (snd w')"
  using assms
proof (induction ts arbitrary: st n w)
  case (Cons u ts)
  let ?dp = "online rnow leaseMs backoff"
  let ?st = "case map_of st (t_executionId u) of None \<Rightarrow> AList.update (t_executionId u) (map_option e_status (find_execution (t_executionId u) (fst w))) st
       | Some _ \<Rightarrow> st"
  have st: "cache_ok ?st (fst w)" "map_of ?st (t_executionId u) = Some (map_option e_status (find_execution (t_executionId u) (fst w)))"
    using Cons.prems(2) by (auto simp: cache_ok_def update_conv' split: option.splits)
  obtain b w1 where w1: "dispatchTask ?dp now u w = Inr (b, w1)"
    using dispatchTask_cases[OF Cons.prems(1), of u ?dp now "snd w"] by fastforce
  note f = dispatchTask_frame[OF Cons.prems(1) w1]
  have c1: "cache_ok ?st (fst w1)" using st(1) f(1) by (simp add: cache_ok_def find_execution_def)
  show ?case
  proof (cases "map_option e_status (find_execution (t_executionId u) (fst w)) = Some E_RUNNING")
    case False
    then have "sweep_ready ?dp now ?st ts n w = Inr (m, w')" "t \<noteq> u" using Cons.prems(3,7) st(2) by (auto simp: Let_def)
    then show ?thesis using Cons.IH[OF Cons.prems(1) st(1)] Cons.prems(4-7) by auto
  next
    case True
    then have r: "sweep_ready ?dp now ?st ts (if b then n + 1 else n) w1 = Inr (m, w')" using Cons.prems(3) st(2) w1 by (auto simp: Let_def)
    show ?thesis
    proof (cases "t_id t = t_id u")
      case True
      then have "t_id t \<in> q_members (snd w1)"
        using dispatchTask_cases[OF Cons.prems(1), of u ?dp now "snd w"] w1 Cons.prems(5,6) online_enqueues[of u rnow leaseMs backoff "snd w"]
        by (auto simp: prod_eq_iff)
      then show ?thesis using redis_keeps.sweep_ready_R[OF online_redis r] by blast
    next
      case False
      have "t \<in> set ts" using False Cons.prems(4) by auto
      then show ?thesis using Cons.IH[OF f(3) c1 r] f(2)[OF Cons.prems(5)] False Cons.prems(6,7) f(1) by (simp add: find_execution_def)
    qed
  qed
qed simp

section \<open>A whole pass\<close>

lemma reconcile_total:
  assumes "db_inv (fst w)"
  shows "\<exists>c w'. reconcile dp staleMs lmt mnow now w = Inr (c, w')"
proof -
  obtain n db q where "sweep_ready dp now [] (limited lmt
       (filter (\<lambda>t. t_status t = T_READY \<and> before (t_readyAt t) (now - staleMs)) (tasks (fst w)))) 0 w = Inr (n, db, q)"
    using sweep_ready_total[OF assms] by (metis prod.collapse)
  then show ?thesis by (auto simp: reconcile_def Let_def split_beta)
qed

lemma limited_mem: "limit = 0 \<or> length xs \<le> limit \<Longrightarrow> x \<in> set (limited limit (filter P xs)) \<longleftrightarrow> x \<in> set xs \<and> P x"
  using take_all[OF order_trans[OF length_filter_le[of P xs]], of limit] by (auto simp: limited_def)

text \<open>The age at which each sweep takes a task.\<close>

definition sweep_due :: "int \<Rightarrow> time \<Rightarrow> time \<Rightarrow> task \<Rightarrow> bool" where
  "sweep_due staleMs mnow now t \<longleftrightarrow> (case t_status t of
       T_READY \<Rightarrow> before (t_readyAt t) (now - staleMs)
     | T_QUEUED \<Rightarrow> before (t_queuedAt t) (now - staleMs)
     | T_RUNNING \<Rightarrow> lease_expired mnow t
     | T_RETRYING \<Rightarrow> before (t_retryAt t) (now - staleMs)
     | _ \<Rightarrow> False)"

lemma swept_queues:
  assumes "t \<in> set (tasks db)" "t_status t \<in> {T_QUEUED, T_RUNNING, T_RETRYING}" "sweep_due staleMs mnow now t"
    "limit = 0 \<or> length (tasks db) \<le> limit"
  shows "t_id t \<in> q_members (swept (online rnow leaseMs backoff) staleMs limit mnow now db q)"
proof -
  let ?dp = "online rnow leaseMs backoff"
  have keep: "q_members q \<subseteq> q_members (snd (sweep_enqueue ?dp ts n q))" for ts n q
    by (rule redis_keeps.sweep_enqueue_R[OF online_redis])
  have in1: "t_id t \<in> q_members (snd (sweep_enqueue ?dp (limited limit (filter P (tasks db))) n q))" if "P t" for P n q
    by (rule sweep_enqueue_members) (simp add: limited_mem[OF assms(4)] assms(1) that)
  have keep2: "t_id t \<in> q_members q \<Longrightarrow> t_id t \<in> q_members (snd (sweep_enqueue ?dp ts n q))" for ts n q
    using keep by blast
  consider "t_status t = T_QUEUED" | "t_status t = T_RUNNING" | "t_status t = T_RETRYING" using assms(2) by blast
  then show ?thesis
  proof cases
    case 1
    show ?thesis unfolding swept_def Let_def by (rule keep2, rule keep2, rule in1) (use 1 assms(3) in \<open>simp add: sweep_due_def\<close>)
  next
    case 2
    show ?thesis unfolding swept_def Let_def by (rule keep2, rule in1) (use 2 assms(3) in \<open>simp add: sweep_due_def\<close>)
  next
    case 3
    show ?thesis unfolding swept_def Let_def by (rule in1) (use 3 assms(3) in \<open>simp add: sweep_due_def\<close>)
  qed
qed

lemma reconcile_queues:
  assumes "db_inv db" "t \<in> set (tasks db)" "sweep_due staleMs mnow now t" "limit = 0 \<or> length (tasks db) \<le> limit"
    "t_status t = T_READY \<Longrightarrow> map_option e_status (find_execution (t_executionId t) db) = Some E_RUNNING"
    "reconcile (online rnow leaseMs backoff) staleMs limit mnow now (db, q) = Inr (c, w')"
  shows "t_id t \<in> q_members (snd w')"
proof -
  let ?dp = "online rnow leaseMs backoff"
  obtain n db1 q1 ps where sr: "sweep_ready ?dp now [] (limited limit
       (filter (\<lambda>t. t_status t = T_READY \<and> before (t_readyAt t) (now - staleMs)) (tasks db))) 0 (db, q) = Inr (n, db1, q1)"
    and w': "w' = (let q' = swept ?dp staleMs limit mnow now db1 q1 in
           if dep_approvals ?dp then snd (sweep_approvals ?dp now ps 0 (db1, q')) else (db1, q'))"
    by (rule reconcile_sweeps[OF assms(6), unfolded fst_conv])
  have "q_members (swept ?dp staleMs limit mnow now db1 q1) \<subseteq> q_members (snd w')"
    unfolding w' using redis_keeps.sweep_approvals_R[OF online_redis, of "(db1, swept ?dp staleMs limit mnow now db1 q1)" rnow leaseMs backoff now ps 0]
    by (simp add: Let_def)
  moreover have "t_id t \<in> q_members (swept ?dp staleMs limit mnow now db1 q1)"
  proof (cases "t_status t = T_READY")
    case True
    have "t_id t \<in> q_members q1"
      using sweep_ready_queues[OF _ _ sr, of t] True assms by (auto simp: limited_mem sweep_due_def cache_ok_def)
    then show ?thesis using redis_keeps.swept_R[OF online_redis] by blast
  next
    case False
    have "t \<in> set (tasks db1) \<and> length (tasks db1) = length (tasks db)"
      using sweep_ready_others[OF _ sr, of t] False assms(1,2) by simp
    then show ?thesis using swept_queues[of t db1] False assms(3,4) by (auto simp: sweep_due_def split: task_status.splits)
  qed
  ultimately show ?thesis by blast
qed

text \<open>Every task with work left to do comes due.\<close>

lemma comes_due:
  assumes "stamped t" "t_status t \<in> {T_READY, T_QUEUED, T_RUNNING, T_RETRYING}"
  shows "\<exists>T. \<forall>now mnow. T \<le> now \<and> T \<le> mnow \<longrightarrow> sweep_due staleMs mnow now t"
proof -
  let ?T = "\<lambda>d. (case d of None \<Rightarrow> 0 | Some x \<Rightarrow> x) + \<bar>staleMs\<bar> + 1"
  have b: "d \<noteq> None \<Longrightarrow> ?T d \<le> now \<Longrightarrow> before d (now - staleMs)" for d :: "time option" and now
    by (auto simp: before_def)
  have l: "?T (t_leaseExpiresAt t) \<le> mnow \<Longrightarrow> lease_expired mnow t" for mnow
    by (auto simp: lease_expired_def split: option.splits)
  let ?M = "Max {?T (t_readyAt t), ?T (t_queuedAt t), ?T (t_retryAt t), ?T (t_leaseExpiresAt t)}"
  have "sweep_due staleMs mnow now t" if "?M \<le> now \<and> ?M \<le> mnow" for now mnow
    using assms that b l by (auto simp: stamped_def sweep_due_def)
  then show ?thesis by blast
qed

section \<open>The property\<close>



end
