(* ===== verification/Wf_Lock.thy ===== *)
theory Wf_Lock
  imports Wf_System
begin

text \<open>
  The distributed lock of \<open>src/queues/lock.js\<close> on one Redis node: a key with a random token and a time
  to live, and a counter of fencing tokens. Redis drops the key when its time has come; \<open>now\<close> is its
  clock. \<open>acquire\<close> is two commands, \<open>SET NX PX\<close> and \<open>INCR\<close>, between which other clients may act.
\<close>

section \<open>Commands\<close>

record lock_state =
  lk_value :: "(nat \<times> time) option"
  lk_fence :: nat

definition free_lock :: lock_state where
  "free_lock = \<lparr>lk_value = None, lk_fence = 0\<rparr>"

text \<open>\<open>GET key\<close>: the token, unless the key has expired.\<close>

definition lock_get :: "time \<Rightarrow> lock_state \<Rightarrow> nat option" where
  "lock_get now s = (case lk_value s of Some (tok, expiry) \<Rightarrow> if now < expiry then Some tok else None | None \<Rightarrow> None)"

definition lock_set_nx :: "nat \<Rightarrow> int \<Rightarrow> time \<Rightarrow> lock_state \<Rightarrow> bool \<times> lock_state" where
  "lock_set_nx tok ttlMs now s =
     (if lock_get now s = None then (True, s\<lparr>lk_value := Some (tok, now + ttlMs)\<rparr>) else (False, s))"

definition fence_incr :: "lock_state \<Rightarrow> nat \<times> lock_state" where
  "fence_incr s = (lk_fence s + 1, s\<lparr>lk_fence := lk_fence s + 1\<rparr>)"

section \<open>The lock object\<close>

text \<open>\<open>acquire\<close> when nothing comes between its two commands; \<open>tok\<close> is the fresh random token.\<close>

definition acquire :: "nat \<Rightarrow> int \<Rightarrow> time \<Rightarrow> lock_state \<Rightarrow> (nat \<times> nat) option \<times> lock_state" where
  "acquire tok ttlMs now s =
     (let (ok, s1) = lock_set_nx tok ttlMs now s in
      if \<not> ok then (None, s1)
      else let (fence, s2) = fence_incr s1 in (Some (tok, fence), s2))"

definition release :: "nat \<Rightarrow> time \<Rightarrow> lock_state \<Rightarrow> bool \<times> lock_state" where
  "release tok now s = (if lock_get now s = Some tok then (True, s\<lparr>lk_value := None\<rparr>) else (False, s))"

definition extend :: "nat \<Rightarrow> int \<Rightarrow> time \<Rightarrow> lock_state \<Rightarrow> bool \<times> lock_state" where
  "extend tok newTtlMs now s =
     (if lock_get now s = Some tok then (True, s\<lparr>lk_value := Some (tok, now + newTtlMs)\<rparr>) else (False, s))"

text \<open>Leader election as the outbox relay and the scheduler do it on each tick: keep the lock one holds,
  or forget it and try to get it. \<open>None\<close>: somebody else leads.\<close>

definition elect :: "nat \<Rightarrow> int \<Rightarrow> time \<Rightarrow> (nat \<times> nat) option \<Rightarrow> lock_state \<Rightarrow> (nat \<times> nat) option \<times> lock_state" where
  "elect tok ttlMs now held s =
     (let (held, s) = (case held of
            None \<Rightarrow> (None, s)
          | Some h \<Rightarrow> (let (ok, s) = extend (fst h) ttlMs now s in (if ok then Some h else None, s))) in
      case held of None \<Rightarrow> acquire tok ttlMs now s | Some h \<Rightarrow> (Some h, s))"

text \<open>\<open>stop\<close>: give the lock up, if it is held.\<close>

definition stand_down :: "time \<Rightarrow> (nat \<times> nat) option \<Rightarrow> lock_state \<Rightarrow> (nat \<times> nat) option \<times> lock_state" where
  "stand_down now held s = (None, case held of None \<Rightarrow> s | Some h \<Rightarrow> snd (release (fst h) now s))"

section \<open>The contract of a lock\<close>

text \<open>What a client may rely on: whom a lock names as holder at a time changes only by its own
  operations, and only the holder can give it up or prolong it.\<close>

locale mutex =
  fixes holder :: "time \<Rightarrow> 's \<Rightarrow> nat option"
    and acq :: "nat \<Rightarrow> time \<Rightarrow> 's \<Rightarrow> bool \<times> 's" and rel :: "nat \<Rightarrow> time \<Rightarrow> 's \<Rightarrow> bool \<times> 's"
    and ext :: "nat \<Rightarrow> time \<Rightarrow> 's \<Rightarrow> bool \<times> 's"
  assumes acq_free: "fst (acq c now s) \<longleftrightarrow> holder now s = None"
    and acq_holds: "holder now s = None \<Longrightarrow> holder now (snd (acq c now s)) = Some c"
    and acq_taken: "holder now s \<noteq> None \<Longrightarrow> snd (acq c now s) = s"
    and rel_iff: "fst (rel c now s) \<longleftrightarrow> holder now s = Some c"
    and rel_other: "holder now s \<noteq> Some c \<Longrightarrow> snd (rel c now s) = s"
    and rel_frees: "holder now s = Some c \<Longrightarrow> holder now' (snd (rel c now s)) = None"
    and ext_iff: "fst (ext c now s) \<longleftrightarrow> holder now s = Some c"
    and ext_other: "holder now s \<noteq> Some c \<Longrightarrow> snd (ext c now s) = s"
    and ext_holds: "holder now s = Some c \<Longrightarrow> holder now (snd (ext c now s)) = Some c"
    and expires: "now \<le> now' \<Longrightarrow> holder now' s = Some c \<Longrightarrow> holder now s = Some c"
begin

text \<open>Whatever another client tries at a moment at which \<open>c\<close> holds the lock, \<open>c\<close> still holds it.\<close>

lemma others_cannot_take:
  assumes "holder now s = Some c" "d \<noteq> c"
  shows "fst (acq d now s) = False \<and> snd (acq d now s) = s \<and> fst (rel d now s) = False \<and> snd (rel d now s) = s
    \<and> fst (ext d now s) = False \<and> snd (ext d now s) = s"
  using assms acq_free[of d now s] acq_taken[of now s d] rel_iff[of d now s] rel_other[of now s d] ext_iff[of d now s] ext_other[of now s d]
  by simp

lemma held_since:
  assumes "holder now' s = Some c" "now \<le> now'" "d \<noteq> c"
  shows "holder now (snd (acq d now s)) = Some c"
  using assms expires others_cannot_take by metis

end

text \<open>For every positive time to live the lock object meets the contract.\<close>

interpretation redis_lock: mutex lock_get
  "\<lambda>tok now s. (fst (acquire tok (int (Suc n)) now s) \<noteq> None, snd (acquire tok (int (Suc n)) now s))"
  release "\<lambda>tok now s. extend tok (int (Suc n)) now s" for n
  by unfold_locales
     (auto simp: acquire_def lock_set_nx_def fence_incr_def release_def extend_def lock_get_def Let_def
        split: option.splits if_splits prod.splits)

text \<open>A leader holds the lock; who does not lead leaves it to the holder.\<close>

lemma elect_leads:
  assumes "0 < ttlMs" "elect tok ttlMs now held s = (Some h, s')"
  shows "lock_get now s' = Some (fst h)"
  using assms
  by (auto simp: elect_def acquire_def extend_def lock_set_nx_def fence_incr_def lock_get_def Let_def
      split: option.splits if_splits prod.splits)

lemma elect_follows:
  assumes "elect tok ttlMs now held s = (None, s')"
  shows "s' = s \<and> lock_get now s \<noteq> None"
  using assms
  by (auto simp: elect_def acquire_def extend_def lock_set_nx_def fence_incr_def Let_def
      split: option.splits if_splits prod.splits)

text \<open>After the leader stood down, whoever asks next leads.\<close>

lemma stand_down_hands_over:
  assumes "0 < ttlMs" "elect tok ttlMs now held s = (Some h, s')" "now \<le> now'" "stand_down now' (Some h) s' = (None, s'')"
    "lock_get now' s' = Some (fst h)"
  shows "\<exists>f s3. elect tok' ttlMs now' None s'' = (Some (tok', f), s3)"
  using assms by (auto simp: stand_down_def release_def elect_def acquire_def lock_set_nx_def fence_incr_def lock_get_def)

section \<open>Properties\<close>

text \<open>C15: mutual exclusion. While a token holds the lock, every acquisition, release or extension
  under another token fails and leaves the lock as it is; the holder's release frees it, and its
  extension keeps it for the new time to live. A lock nobody holds, released or expired, is granted
  to the next client.\<close>

theorem lock_mutual_exclusion:
  assumes "0 < ttlMs" "lock_get now s = Some c" "d \<noteq> c"
  shows "acquire d ttlMs now s = (None, s) \<and> release d now s = (False, s) \<and> extend d ttlMs now s = (False, s)
    \<and> fst (extend c ttlMs now s) \<and> (\<forall>t < now + ttlMs. lock_get t (snd (extend c ttlMs now s)) = Some c)
    \<and> fst (release c now s) \<and> fst (acquire d ttlMs now (snd (release c now s))) = Some (d, lk_fence s + 1)"
proof -
  obtain n where n: "ttlMs = int (Suc n)" using assms(1) by (metis gr0_conv_Suc zero_less_imp_eq_int)
  have "fst (acquire d ttlMs now s) = None \<and> snd (acquire d ttlMs now s) = s \<and> fst (release d now s) = False
      \<and> snd (release d now s) = s \<and> fst (extend d ttlMs now s) = False \<and> snd (extend d ttlMs now s) = s"
    using redis_lock.others_cannot_take[OF assms(2,3), of n] unfolding n fst_conv snd_conv by blast
  moreover have "fst (extend c ttlMs now s)" "fst (release c now s)" using assms(2) by (simp_all add: extend_def release_def)
  moreover have "\<forall>t < now + ttlMs. lock_get t (snd (extend c ttlMs now s)) = Some c"
    using assms(2) by (simp add: extend_def lock_get_def)
  moreover have "fst (acquire d ttlMs now (snd (release c now s))) = Some (d, lk_fence s + 1)"
    using assms(2) by (simp add: release_def acquire_def lock_set_nx_def fence_incr_def lock_get_def[of _ "s\<lparr>lk_value := None\<rparr>"])
  ultimately show ?thesis by (simp add: prod_eq_iff)
qed

theorem lock_mutual_exclusion_witness:
  "lock_get 10 (snd (acquire 5 1000 0 free_lock)) = Some 5
   \<and> acquire 6 1000 10 (snd (acquire 5 1000 0 free_lock)) = (None, snd (acquire 5 1000 0 free_lock))"
proof -
  have h: "lock_get 10 (snd (acquire 5 1000 0 free_lock)) = Some 5"
    by (simp add: acquire_def lock_set_nx_def fence_incr_def lock_get_def free_lock_def)
  then show ?thesis using lock_mutual_exclusion[OF _ h, of 1000 6] by simp
qed

text \<open>The fencing token does not follow the order of the acquisitions. The header comment says
  that every acquisition gets a monotonically increasing token, so that what stale holders write can
  be rejected. Since \<open>SET\<close> and \<open>INCR\<close> are separate commands, a client that stalls between them past
  its time to live gets a higher token than the client that acquired the lock after it and holds it.\<close>

theorem fence_not_in_acquisition_order:
  "let s1 = snd (lock_set_nx 1 1000 0 free_lock);
       (okB, s2) = lock_set_nx 2 1000 2000 s1;
       (fenceB, s3) = fence_incr s2;
       (fenceA, s4) = fence_incr s3
   in okB \<and> lock_get 2001 s4 = Some 2 \<and> fenceB < fenceA"
  by (simp add: lock_set_nx_def fence_incr_def lock_get_def free_lock_def)

end
