(* ===== verification/Wf_Outbox.thy ===== *)
theory Wf_Outbox
  imports Wf_Engine Wf_Lock
begin

text \<open>
  The outbox: \<open>src/events/relay.js\<close> publishes committed events to Kafka, at least once, and
  \<open>src/events/analyticsProcessor.js\<close> counts them, each once. Kafka is a log of messages; what
  \<open>publish\<close> does to it is a parameter. A message carries the fields the relay serialises.
\<close>

section \<open>The relay\<close>

record message =
  m_key :: oid
  m_eventId :: nat
  m_type :: string
  m_aggregateId :: oid
  m_occurredAt :: "time option"
  m_payload :: "(string \<times> json) list"

definition message_of :: "outbox_event \<Rightarrow> message" where
  "message_of e =
     \<lparr>m_key = o_aggregateId e, m_eventId = o_eventId e, m_type = o_type e, m_aggregateId = o_aggregateId e,
      m_occurredAt = Some (o_occurredAt e), m_payload = o_payload e\<rparr>"

text \<open>\<open>find({ publishedAt: null }).sort({ _id: 1 }).limit(batchSize)\<close>\<close>

definition unpublished :: "outbox_event list \<Rightarrow> outbox_event list" where
  "unpublished evs = sort_key o_id (filter (\<lambda>e. o_publishedAt e = None) evs)"

definition read_batch :: "nat \<Rightarrow> outbox_event list \<Rightarrow> outbox_event list" where
  "read_batch batchSize evs = limited batchSize (unpublished evs)"

definition mark_published :: "outbox_event list \<Rightarrow> time \<Rightarrow> outbox_event list \<Rightarrow> outbox_event list" where
  "mark_published batch now evs =
     update_where (\<lambda>e. o_id e \<in> set (map o_id batch)) (\<lambda>e. e\<lparr>o_publishedAt := Some now\<rparr>) evs"

text \<open>\<open>relayOnce\<close>: \<open>None\<close> when \<open>publish\<close> threw, whatever it had written by then.\<close>

definition relayOnce :: "(message list \<Rightarrow> 'k \<Rightarrow> bool \<times> 'k) \<Rightarrow> nat \<Rightarrow> time \<Rightarrow> outbox_event list \<times> 'k
    \<Rightarrow> nat option \<times> outbox_event list \<times> 'k" where
  "relayOnce publish batchSize now st =
     (let batch = read_batch batchSize (fst st) in
      if batch = [] then (Some 0, st)
      else let (ok, k) = publish (map message_of batch) (snd st) in
           if \<not> ok then (None, fst st, k)
           else (Some (length batch), mark_published batch now (fst st), k))"

text \<open>The loop of \<open>tick\<close>, with the number of rounds left; an exception ends it.\<close>

fun drain :: "(message list \<Rightarrow> 'k \<Rightarrow> bool \<times> 'k) \<Rightarrow> nat \<Rightarrow> time \<Rightarrow> nat \<Rightarrow> outbox_event list \<times> 'k \<Rightarrow> outbox_event list \<times> 'k" where
  "drain publish batchSize now 0 st = st"
| "drain publish batchSize now (Suc i) st =
     (case relayOnce publish batchSize now st of
        (None, st') \<Rightarrow> st'
      | (Some n, st') \<Rightarrow> if n = 0 then st' else drain publish batchSize now i st')"

record runner =
  rr_held :: "(nat \<times> nat) option"
  rr_busy :: bool

definition relay_tick :: "(message list \<Rightarrow> 'k \<Rightarrow> bool \<times> 'k) \<Rightarrow> nat \<Rightarrow> nat \<Rightarrow> int \<Rightarrow> time \<Rightarrow> time
    \<Rightarrow> runner \<times> lock_state \<times> outbox_event list \<times> 'k \<Rightarrow> runner \<times> lock_state \<times> outbox_event list \<times> 'k" where
  "relay_tick publish batchSize tok ttlMs rnow now s =
     (case s of (r, lock, st) \<Rightarrow>
        if rr_busy r then (r, lock, st)
        else let (held, lock) = elect tok ttlMs rnow (rr_held r) lock in
             (r\<lparr>rr_held := held\<rparr>, lock, if held = None then st else drain publish batchSize now 20 st))"

section \<open>The consumer\<close>

text \<open>Processed events with the time of processing, and the counts per day and type. A day is the
  number of its UTC midnight; the index on \<open>processedAt\<close> drops records after 30 days.\<close>

record consumer_state =
  cs_processed :: "((string \<times> nat) \<times> time) list"
  cs_stats :: "((int \<times> string) \<times> nat) list"

definition empty_consumer :: consumer_state where
  "empty_consumer = \<lparr>cs_processed = [], cs_stats = []\<rparr>"

definition event_day :: "time \<Rightarrow> message \<Rightarrow> int" where
  "event_day now m = (case m_occurredAt m of Some t \<Rightarrow> t | None \<Rightarrow> now) div 86400000"

definition process_txn :: "string \<Rightarrow> time \<Rightarrow> message \<Rightarrow> consumer_state \<Rightarrow> consumer_state result" where
  "process_txn consumer now m cs =
     (if map_of (cs_processed cs) (consumer, m_eventId m) \<noteq> None then Inl (DuplicateKey IxProcessedEvent)
      else Inr (cs\<lparr>cs_processed := cs_processed cs @ [((consumer, m_eventId m), now)],
                   cs_stats := AList.map_default (event_day now m, m_type m) 1 Suc (cs_stats cs)\<rparr>))"

datatype outcome = Applied | Duplicate

definition process :: "string \<Rightarrow> time \<Rightarrow> message \<Rightarrow> consumer_state \<Rightarrow> (outcome \<times> consumer_state) result" where
  "process consumer now m cs =
     (case process_txn consumer now m cs of
        Inr cs' \<Rightarrow> Inr (Applied, cs')
      | Inl (DuplicateKey IxProcessedEvent) \<Rightarrow> Inr (Duplicate, cs)
      | Inl err \<Rightarrow> Inl err)"

definition retention :: int where
  "retention = 30 * 24 * 3600 * 1000"

definition ttl_sweep :: "time \<Rightarrow> consumer_state \<Rightarrow> consumer_state" where
  "ttl_sweep now cs = cs\<lparr>cs_processed := filter (\<lambda>(k, t). now < t + retention) (cs_processed cs)\<rparr>"

definition stat :: "consumer_state \<Rightarrow> int \<Rightarrow> string \<Rightarrow> nat" where
  "stat cs day ty = (case map_of (cs_stats cs) (day, ty) of None \<Rightarrow> 0 | Some n \<Rightarrow> n)"

section \<open>Several relays at once\<close>

text \<open>A relay between its awaits: idle, with a batch read, with a batch published. The lock makes
  overlapping relays rare, not impossible, so any number may run.\<close>

datatype relay_state = R_Idle | R_Read "outbox_event list" | R_Sent "outbox_event list"

type_synonym bus = "(nat \<Rightarrow> relay_state) \<times> outbox_event list \<times> message list"

inductive bus_step :: "bus \<Rightarrow> bus \<Rightarrow> bool" where
  bus_emit: "o_eventId e \<notin> set (map o_eventId evs) \<Longrightarrow> o_id e \<notin> set (map o_id evs) \<Longrightarrow> o_publishedAt e = None \<Longrightarrow>
    bus_step (rs, evs, l) (rs, evs @ [e], l)"
| bus_read: "rs n = R_Idle \<Longrightarrow> bus_step (rs, evs, l) (rs(n := R_Read (read_batch b evs)), evs, l)"
| bus_publish: "rs n = R_Read batch \<Longrightarrow> bus_step (rs, evs, l) (rs(n := R_Sent batch), evs, l @ map message_of batch)"
| bus_publish_fails: "rs n = R_Read batch \<Longrightarrow> set ms \<subseteq> set (map message_of batch) \<Longrightarrow>
    bus_step (rs, evs, l) (rs(n := R_Idle), evs, l @ ms)"
| bus_mark: "rs n = R_Sent batch \<Longrightarrow> bus_step (rs, evs, l) (rs(n := R_Idle), mark_published batch now evs, l)"
| bus_crash: "bus_step (rs, evs, l) (rs(n := R_Idle), evs, l)"

definition bus_init :: "bus \<Rightarrow> bool" where
  "bus_init s \<longleftrightarrow> s = ((\<lambda>_. R_Idle), [], [])"

text \<open>Marked events are in the log, the log holds nothing but events, and what a relay holds are
  events, in the log once it is sent.\<close>

definition sent_ok :: "outbox_event list \<Rightarrow> message list \<Rightarrow> relay_state \<Rightarrow> bool" where
  "sent_ok evs l r =
     (case r of
        R_Idle \<Rightarrow> True
      | R_Read batch \<Rightarrow> \<forall>b \<in> set batch. \<exists>e \<in> set evs. o_id e = o_id b \<and> message_of e = message_of b
      | R_Sent batch \<Rightarrow> \<forall>b \<in> set batch. (\<exists>e \<in> set evs. o_id e = o_id b \<and> message_of e = message_of b) \<and> message_of b \<in> set l)"

definition bus_inv :: "bus \<Rightarrow> bool" where
  "bus_inv s = (case s of (rs, evs, l) \<Rightarrow>
     distinct (map o_eventId evs) \<and> distinct (map o_id evs)
     \<and> (\<forall>e \<in> set evs. o_publishedAt e \<noteq> None \<longrightarrow> message_of e \<in> set l)
     \<and> set l \<subseteq> message_of ` set evs \<and> (\<forall>n. sent_ok evs l (rs n)))"

lemma read_batch_sub: "set (read_batch b evs) \<subseteq> set evs"
proof -
  have "set (limited b xs) \<subseteq> set xs" for xs :: "'a list" by (auto simp: limited_def dest: in_set_takeD)
  from this[of "unpublished evs"] show ?thesis by (auto simp: read_batch_def unpublished_def)
qed

lemma mark_simps [simp]:
  "map o_eventId (mark_published batch now evs) = map o_eventId evs"
  "map o_id (mark_published batch now evs) = map o_id evs"
  "map message_of (mark_published batch now evs) = map message_of evs"
  by (simp_all add: mark_published_def map_update_where message_of_def)

lemma sent_ok_simps [simp]:
  "sent_ok evs l R_Idle"
  "sent_ok evs l (R_Read batch) \<longleftrightarrow> (\<forall>b \<in> set batch. \<exists>e \<in> set evs. o_id e = o_id b \<and> message_of e = message_of b)"
  "sent_ok evs l (R_Sent batch) \<longleftrightarrow>
     (\<forall>b \<in> set batch. (\<exists>e \<in> set evs. o_id e = o_id b \<and> message_of e = message_of b) \<and> message_of b \<in> set l)"
  by (simp_all add: sent_ok_def)

definition mark_one :: "outbox_event list \<Rightarrow> time \<Rightarrow> outbox_event \<Rightarrow> outbox_event" where
  "mark_one batch now e = (if o_id e \<in> set (map o_id batch) then e\<lparr>o_publishedAt := Some now\<rparr> else e)"

lemma mark_map: "mark_published batch now evs = map (mark_one batch now) evs"
  by (simp add: mark_published_def update_where_def mark_one_def)

lemma mark_one_simps [simp]:
  "o_id (mark_one batch now e) = o_id e" "o_eventId (mark_one batch now e) = o_eventId e"
  "message_of (mark_one batch now e) = message_of e"
  by (simp_all add: mark_one_def message_of_def)

lemma mark_mem:
  "e' \<in> set (mark_published batch now evs) \<Longrightarrow> \<exists>e \<in> set evs. o_id e' = o_id e \<and> message_of e' = message_of e
     \<and> (o_publishedAt e' = o_publishedAt e \<or> o_id e \<in> set (map o_id batch))"
proof -
  assume "e' \<in> set (mark_published batch now evs)"
  then obtain e where "e \<in> set evs" "e' = mark_one batch now e" by (auto simp: mark_map)
  then show ?thesis by (intro bexI[of _ e]) (auto simp: mark_one_def message_of_def)
qed

lemma mark_mem_conv: "e \<in> set evs \<Longrightarrow> \<exists>e' \<in> set (mark_published batch now evs). o_id e' = o_id e \<and> message_of e' = message_of e"
  by (rule bexI[of _ "mark_one batch now e"]) (simp_all add: mark_map)

lemma sent_ok_more: "sent_ok evs l r \<Longrightarrow> sent_ok (evs @ xs) (l @ ms) r"
  by (fastforce simp: sent_ok_def split: relay_state.splits)

lemma sent_ok_mark: "sent_ok evs l r \<Longrightarrow> sent_ok (mark_published batch now evs) l r"
proof -
  have "\<exists>e \<in> set (mark_published batch now evs). o_id e = o_id b \<and> message_of e = message_of b"
    if "\<exists>e \<in> set evs. o_id e = o_id b \<and> message_of e = message_of b" for b
    using that mark_mem_conv by metis
  then show "sent_ok evs l r \<Longrightarrow> sent_ok (mark_published batch now evs) l r"
    by (auto simp: sent_ok_def split: relay_state.splits)
qed

lemma bus_mark_inv:
  assumes "bus_inv (rs, evs, l)" "rs n = R_Sent batch"
  shows "bus_inv (rs(n := R_Idle), mark_published batch now evs, l)"
proof -
  have inv: "distinct (map o_id evs)" "\<forall>e \<in> set evs. o_publishedAt e \<noteq> None \<longrightarrow> message_of e \<in> set l"
    "set l \<subseteq> message_of ` set evs" "\<forall>n. sent_ok evs l (rs n)" "distinct (map o_eventId evs)" using assms(1) by (auto simp: bus_inv_def)
  have sent: "message_of e \<in> set l" if e: "e \<in> set evs" "o_id e \<in> set (map o_id batch)" for e
  proof -
    obtain b where b: "b \<in> set batch" "o_id b = o_id e" using e(2) by auto
    have "sent_ok evs l (R_Sent batch)" using inv(4) assms(2) by metis
    then obtain e' where "e' \<in> set evs" "o_id e' = o_id e" "message_of e' = message_of b" "message_of b \<in> set l"
      using b by auto
    then show ?thesis using distinct_map_eqD[OF inv(1)] e(1) by metis
  qed
  have "\<forall>e \<in> set (mark_published batch now evs). o_publishedAt e \<noteq> None \<longrightarrow> message_of e \<in> set l"
  proof (intro ballI impI)
    fix e' assume e': "e' \<in> set (mark_published batch now evs)" "o_publishedAt e' \<noteq> None"
    obtain e where "e \<in> set evs" "message_of e' = message_of e" "o_publishedAt e' = o_publishedAt e \<or> o_id e \<in> set (map o_id batch)"
      using mark_mem[OF e'(1)] by blast
    then show "message_of e' \<in> set l" using inv(2) sent e'(2) by metis
  qed
  moreover have "set l \<subseteq> message_of ` set (mark_published batch now evs)"
    using inv(3) mark_simps(3)[of batch now evs] by (metis list.set_map)
  ultimately show ?thesis using inv sent_ok_mark by (simp add: bus_inv_def)
qed

lemma bus_step_inv:
  assumes "bus_inv s" "bus_step s s'"
  shows "bus_inv s'"
  using assms(2)
proof cases
  case (bus_read rs n evs l b)
  have "sent_ok evs l (R_Read (read_batch b evs))" using read_batch_sub[of b evs] by auto
  then show ?thesis using assms(1) bus_read by (simp add: bus_inv_def)
next
  case (bus_publish rs n batch evs l)
  have "\<forall>n. sent_ok evs l (rs n)" using assms(1) bus_publish(1) by (simp add: bus_inv_def)
  then have "sent_ok evs l (R_Read batch)" using bus_publish(3) by metis
  then have "sent_ok evs (l @ map message_of batch) (R_Sent batch)" "set (map message_of batch) \<subseteq> message_of ` set evs"
    by (auto simp: image_iff) metis
  then show ?thesis using assms(1) bus_publish sent_ok_more[of evs l _ "[]" "map message_of batch"] by (auto simp: bus_inv_def)
next
  case (bus_publish_fails rs n batch ms evs l)
  have "\<forall>n. sent_ok evs l (rs n)" using assms(1) bus_publish_fails(1) by (simp add: bus_inv_def)
  then have "sent_ok evs l (R_Read batch)" using bus_publish_fails(3) by metis
  then have "set (map message_of batch) \<subseteq> message_of ` set evs" by (auto simp: image_iff) metis
  then show ?thesis using assms(1) bus_publish_fails sent_ok_more[of evs l _ "[]" ms] by (auto simp: bus_inv_def)
next
  case (bus_mark rs n batch evs l now)
  then show ?thesis using assms(1) bus_mark_inv by simp
next
  case (bus_emit e evs rs l)
  then show ?thesis using assms(1) sent_ok_more[of evs l _ "[e]" "[]"] by (auto simp: bus_inv_def)
next
  case (bus_crash rs evs l n)
  then show ?thesis using assms(1) by (simp add: bus_inv_def)
qed

interpretation relays: invariant_system bus_init bus_step bus_inv
proof
  show "bus_inv s" if "bus_init s" for s using that by (simp add: bus_init_def bus_inv_def)
qed (rule bus_step_inv)

section \<open>Draining the outbox\<close>

lemma filter_marked:
  "filter (\<lambda>e. o_publishedAt e = None) (mark_published batch now evs)
     = filter (\<lambda>e. o_id e \<notin> set (map o_id batch)) (filter (\<lambda>e. o_publishedAt e = None) evs)"
  by (induction evs) (simp_all add: mark_map mark_one_def)

lemma unpublished_marked:
  assumes "distinct (map o_id evs)"
  shows "unpublished (mark_published (take b (unpublished evs)) now evs) = drop b (unpublished evs)"
proof -
  let ?u = "unpublished evs"
  let ?P = "\<lambda>e. o_id e \<notin> set (map o_id (take b ?u))"
  have d: "distinct (map o_id ?u)"
    using assms by (simp add: unpublished_def distinct_map distinct_sort inj_on_def)
  have "filter (\<lambda>e. o_publishedAt e = None) (mark_published (take b ?u) now evs) = filter ?P (filter (\<lambda>e. o_publishedAt e = None) evs)"
    by (rule filter_marked)
  then have "unpublished (mark_published (take b ?u) now evs) = filter ?P ?u"
    unfolding unpublished_def[of "mark_published _ _ _"] by (simp add: unpublished_def filter_sort[symmetric] del: filter_filter)
  also have "\<dots> = filter ?P (take b ?u) @ filter ?P (drop b ?u)" by (metis append_take_drop_id filter_append)
  also have "filter ?P (take b ?u) = []" by (simp add: filter_empty_conv)
  also have "filter ?P (drop b ?u) = drop b ?u"
  proof (rule filter_True, rule ballI)
    fix e assume "e \<in> set (drop b ?u)"
    moreover have "set (map o_id (take b ?u)) \<inter> set (map o_id (drop b ?u)) = {}"
      using d by (metis append_take_drop_id distinct_append map_append)
    ultimately show "?P e" by auto
  qed
  finally show ?thesis by simp
qed

text \<open>What the code relies on when Kafka is up: every message sent is appended to the log.\<close>

definition reliable :: "(message list \<Rightarrow> message list \<Rightarrow> bool \<times> message list) \<Rightarrow> bool" where
  "reliable publish \<longleftrightarrow> (\<forall>ms l. publish ms l = (True, l @ ms))"

lemma drain_publishes:
  assumes "reliable publish" "0 < b" "distinct (map o_id evs)"
  shows "\<exists>evs'. drain publish b now i (evs, l) = (evs', l @ map message_of (take (i * b) (unpublished evs)))
     \<and> unpublished evs' = drop (i * b) (unpublished evs) \<and> map o_id evs' = map o_id evs"
  using assms(3)
proof (induction i arbitrary: evs l)
  case (Suc i)
  let ?u = "unpublished evs" and ?evs = "mark_published (take b (unpublished evs)) now evs"
  have rb: "read_batch b evs = take b ?u" using assms(2) by (simp add: read_batch_def limited_def)
  show ?case
  proof (cases "?u = []")
    case True
    then show ?thesis using rb by (simp add: relayOnce_def)
  next
    case False
    then have "relayOnce publish b now (evs, l) = (Some (length (take b ?u)), ?evs, l @ map message_of (take b ?u))"
      using assms(1,2) rb by (simp add: relayOnce_def reliable_def Let_def)
    then have eq: "drain publish b now (Suc i) (evs, l) = drain publish b now i (?evs, l @ map message_of (take b ?u))"
      using False assms(2) by (simp add: min_def)
    have "distinct (map o_id ?evs)" using Suc.prems by simp
    from Suc.IH[OF this, of "l @ map message_of (take b ?u)"] obtain evs' where
      "drain publish b now i (?evs, l @ map message_of (take b ?u))
         = (evs', (l @ map message_of (take b ?u)) @ map message_of (take (i * b) (unpublished ?evs)))"
      "unpublished evs' = drop (i * b) (unpublished ?evs)" "map o_id evs' = map o_id ?evs" by blast
    moreover have "take (Suc i * b) ?u = take b ?u @ take (i * b) (drop b ?u)" by (simp add: take_add)
    ultimately show ?thesis unfolding eq unpublished_marked[OF Suc.prems]
      by (intro exI[of _ evs']) (simp add: add.commute)
  qed
qed simp

section \<open>Counting each event once\<close>

datatype consume_action = Deliver time message | Sweep time

fun action_time :: "consume_action \<Rightarrow> time" where
  "action_time (Deliver now m) = now"
| "action_time (Sweep now) = now"

fun consume :: "string \<Rightarrow> consume_action \<Rightarrow> consumer_state \<Rightarrow> consumer_state" where
  "consume c (Deliver now m) cs = (case process c now m cs of Inr (_, cs') \<Rightarrow> cs' | Inl _ \<Rightarrow> cs)"
| "consume c (Sweep now) cs = ttl_sweep now cs"

definition delivered :: "consume_action list \<Rightarrow> message set" where
  "delivered acts = {m. \<exists>t. Deliver t m \<in> set acts}"

text \<open>The type and day under which a message with a time stamp is counted.\<close>

definition counted :: "int \<Rightarrow> string \<Rightarrow> message \<Rightarrow> bool" where
  "counted day ty m \<longleftrightarrow> m_type m = ty \<and> event_day 0 m = day"

lemma delivered_snoc:
  "delivered (acts @ [Deliver t m]) = insert m (delivered acts)" "delivered (acts @ [Sweep t]) = delivered acts"
  by (auto simp: delivered_def)

lemma finite_delivered: "finite (delivered acts)"
proof (induction acts rule: rev_induct)
  case (snoc a acts)
  then show ?case by (cases a) (simp_all add: delivered_snoc)
qed (simp add: delivered_def)

lemma consume_deliver:
  "consume c (Deliver now m) cs =
     (if map_of (cs_processed cs) (c, m_eventId m) \<noteq> None then cs
      else cs\<lparr>cs_processed := cs_processed cs @ [((c, m_eventId m), now)],
              cs_stats := AList.map_default (event_day now m, m_type m) 1 Suc (cs_stats cs)\<rparr>)"
  by (simp add: process_def process_txn_def)

lemma stat_map_default:
  "stat (cs\<lparr>cs_processed := ps, cs_stats := AList.map_default (d, ty) 1 Suc (cs_stats cs)\<rparr>) d' ty'
     = stat cs d' ty' + (if d' = d \<and> ty' = ty then 1 else 0)"
  by (simp add: stat_def map_of_map_default split: option.split)

lemma consume_counts:
  assumes "\<forall>a \<in> set acts. t0 \<le> action_time a \<and> action_time a < t0 + retention"
    "\<forall>m \<in> delivered acts. m_occurredAt m \<noteq> None" "inj_on m_eventId (delivered acts)"
  shows "(\<forall>i. map_of (cs_processed (fold (consume c) acts empty_consumer)) (c, i) \<noteq> None \<longleftrightarrow> i \<in> m_eventId ` delivered acts)
     \<and> (\<forall>p \<in> set (cs_processed (fold (consume c) acts empty_consumer)). t0 \<le> snd p)
     \<and> (\<forall>d ty. stat (fold (consume c) acts empty_consumer) d ty = card {m \<in> delivered acts. counted d ty m})"
  using assms
proof (induction acts rule: rev_induct)
  case Nil
  then show ?case by (simp add: delivered_def empty_consumer_def stat_def)
next
  case (snoc a acts)
  let ?cs = "fold (consume c) acts empty_consumer"
  have sub: "delivered acts \<subseteq> delivered (acts @ [a])" by (auto simp: delivered_def)
  note IH = snoc.IH[OF _ _ inj_on_subset[OF snoc.prems(3) sub]]
  have ih: "\<forall>i. map_of (cs_processed ?cs) (c, i) \<noteq> None \<longleftrightarrow> i \<in> m_eventId ` delivered acts"
    "\<forall>p \<in> set (cs_processed ?cs). t0 \<le> snd p"
    "\<forall>d ty. stat ?cs d ty = card {m \<in> delivered acts. counted d ty m}"
    using IH snoc.prems(1,2) sub by (simp_all add: subset_iff del: not_None_eq)
  show ?case
  proof (cases a)
    case (Sweep now)
    have "filter (\<lambda>(k, t). now < t + retention) (cs_processed ?cs) = cs_processed ?cs"
      using ih(2) snoc.prems(1) Sweep by (intro filter_True) fastforce
    then have "consume c a ?cs = ?cs" using Sweep by (simp add: ttl_sweep_def)
    then show ?thesis using ih Sweep by (simp add: delivered_snoc)
  next
    case (Deliver now m)
    have dl: "delivered (acts @ [a]) = insert m (delivered acts)" using Deliver by (simp add: delivered_snoc)
    show ?thesis
    proof (cases "m_eventId m \<in> m_eventId ` delivered acts")
      case True
      then have "m \<in> delivered acts" using snoc.prems(3) dl by (auto simp: inj_on_def)
      moreover have "consume c a ?cs = ?cs" using True ih(1) Deliver by (simp add: consume_deliver del: not_None_eq consume.simps)
      ultimately show ?thesis using ih dl by (simp add: insert_absorb)
    next
      case False
      then have new: "m \<notin> delivered acts" "map_of (cs_processed ?cs) (c, m_eventId m) = None" using ih(1) by auto
      have day: "event_day now m = event_day 0 m" using snoc.prems(2) dl by (auto simp: event_day_def)
      have cs: "fold (consume c) (acts @ [a]) empty_consumer =
         ?cs\<lparr>cs_processed := cs_processed ?cs @ [((c, m_eventId m), now)],
             cs_stats := AList.map_default (event_day 0 m, m_type m) 1 Suc (cs_stats ?cs)\<rparr>"
        using new(2) Deliver day by (simp add: consume_deliver del: consume.simps)
      have "{x \<in> insert m (delivered acts). counted d ty x}
          = (if counted d ty m then insert m {x \<in> delivered acts. counted d ty x} else {x \<in> delivered acts. counted d ty x})" for d ty
        by auto
      then have "card {x \<in> insert m (delivered acts). counted d ty x}
          = card {x \<in> delivered acts. counted d ty x} + (if counted d ty m then 1 else 0)" for d ty
        using new(1) finite_delivered[of acts] by simp
      then have st: "\<forall>d ty. stat (fold (consume c) (acts @ [a]) empty_consumer) d ty = card {m \<in> delivered (acts @ [a]). counted d ty m}"
        unfolding cs dl stat_map_default using ih(3) by (auto simp: counted_def)
      have "map_of (cs_processed ?cs @ [((c, m_eventId m), now)]) (c, i) \<noteq> None \<longleftrightarrow> i = m_eventId m \<or> i \<in> m_eventId ` delivered acts" for i
        using ih(1)[rule_format, of i] new(2) by (auto simp: map_add_def split: option.split)
      moreover have "t0 \<le> now" using snoc.prems(1) Deliver by simp
      ultimately show ?thesis using st ih(2) unfolding cs dl by (auto simp del: not_None_eq)
    qed
  qed
qed

section \<open>Properties\<close>


definition demo_event :: outbox_event where
  "demo_event = \<lparr>o_id = 1, o_eventId = 2, o_type = ''task.started'', o_aggregateId = 0, o_payload = [],
     o_occurredAt = 0, o_publishedAt = None\<rparr>"

lemma demo_bus_reach:
  "reach bus_init bus_step ((\<lambda>_. R_Idle), [demo_event\<lparr>o_publishedAt := Some 5\<rparr>], [message_of demo_event])"
proof -
  have r0: "reach bus_init bus_step ((\<lambda>_. R_Idle), [], [])" by (rule reach_init) (simp add: bus_init_def)
  have r1: "reach bus_init bus_step ((\<lambda>_. R_Idle), [demo_event], [])"
    using reach_step[where step = bus_step, OF r0 bus_emit[of demo_event "[]"]] by (simp add: demo_event_def)
  have "read_batch 1 [demo_event] = [demo_event]" by (simp add: read_batch_def limited_def unpublished_def demo_event_def)
  then have r2: "reach bus_init bus_step ((\<lambda>_. R_Idle)(0 := R_Read [demo_event]), [demo_event], [])"
    using reach_step[where step = bus_step, OF r1 bus_read[of "\<lambda>_. R_Idle" 0 _ _ 1]] by simp
  have r3: "reach bus_init bus_step ((\<lambda>_. R_Idle)(0 := R_Sent [demo_event]), [demo_event], [message_of demo_event])"
    using reach_step[where step = bus_step, OF r2 bus_publish[of _ 0 "[demo_event]"]] by simp
  have "(\<lambda>_::nat. R_Idle)(0 := R_Idle) = (\<lambda>_. R_Idle)" by (rule ext) simp
  then show ?thesis
    using reach_step[where step = bus_step, OF r3 bus_mark[of _ 0 "[demo_event]" _ _ 5]]
    by (simp add: mark_published_def)
qed


text \<open>A tick of the leader drains the outbox in order. When the relay leads and Kafka is up, one
  tick appends the unpublished events to the log in the order of their ids, up to twenty batches, marks
  exactly these, and leaves nothing when there were no more; while another process holds the lock a
  tick publishes nothing.\<close>

theorem relay_tick_drains:
  assumes "reliable publish" "0 < b" "0 < ttlMs" "distinct (map o_id evs)" "\<not> rr_busy r"
    "elect tok ttlMs rnow (rr_held r) lock = (held, lock')"
  shows "(held = None \<longrightarrow> relay_tick publish b tok ttlMs rnow now (r, lock, evs, l) = (r\<lparr>rr_held := None\<rparr>, lock, evs, l))
     \<and> (\<forall>h. held = Some h \<longrightarrow> lock_get rnow lock' = Some (fst h)
          \<and> (\<exists>evs'. relay_tick publish b tok ttlMs rnow now (r, lock, evs, l)
                = (r\<lparr>rr_held := held\<rparr>, lock', evs', l @ map message_of (take (20 * b) (unpublished evs)))
              \<and> unpublished evs' = drop (20 * b) (unpublished evs)))
     \<and> sorted (map o_id (unpublished evs))"
proof -
  obtain evs' where "drain publish b now 20 (evs, l) = (evs', l @ map message_of (take (20 * b) (unpublished evs)))"
     "unpublished evs' = drop (20 * b) (unpublished evs)"
    using drain_publishes[OF assms(1,2,4), of now 20 l] by blast
  moreover have "sorted (map o_id (unpublished evs))" by (simp add: unpublished_def)
  ultimately show ?thesis
    using assms(3,5,6) elect_leads[OF assms(3)] elect_follows[of tok ttlMs rnow "rr_held r" lock]
    by (auto simp: relay_tick_def Let_def simp del: drain.simps)
qed

theorem relay_tick_drains_witness:
  "\<exists>evs'. relay_tick (\<lambda>ms l. (True, l @ ms)) 100 7 3000 0 5 (\<lparr>rr_held = None, rr_busy = False\<rparr>, free_lock, [demo_event], [])
     = (\<lparr>rr_held = Some (7, 1), rr_busy = False\<rparr>, snd (acquire 7 3000 0 free_lock), evs', [message_of demo_event])
     \<and> unpublished evs' = []"
proof -
  let ?r = "\<lparr>rr_held = None, rr_busy = False\<rparr>"
  have "reliable (\<lambda>ms l. (True, l @ ms))" "distinct (map o_id [demo_event])" "\<not> rr_busy ?r" by (simp_all add: reliable_def)
  moreover have "elect 7 3000 0 (rr_held ?r) free_lock = (Some (7, 1), snd (acquire 7 3000 0 free_lock))"
    by (simp add: elect_def acquire_def lock_set_nx_def fence_incr_def lock_get_def free_lock_def)
  moreover have "unpublished [demo_event] = [demo_event]" by (simp add: unpublished_def demo_event_def)
  ultimately show ?thesis
    using relay_tick_drains[of "\<lambda>ms l. (True, l @ ms)" 100 3000 "[demo_event]" ?r 7 0 free_lock
        "Some (7, 1)" "snd (acquire 7 3000 0 free_lock)" 5 "[]"] by simp
qed

text \<open>C22: every event is counted exactly once. If all events of the outbox are published, by any number
  of relays with any duplicates, and the consumer group delivers every message of the log at least
  once, in any order and as often as it likes, within the 30 days for which processed events are
  remembered, then for every day and type the statistics show the number of events of the outbox.\<close>

theorem outbox_exactly_once:
  assumes "reach bus_init bus_step (rs, evs, l)" "\<forall>e \<in> set evs. o_publishedAt e \<noteq> None" "delivered acts = set l"
    "\<forall>a \<in> set acts. t0 \<le> action_time a \<and> action_time a < t0 + retention"
  shows "stat (fold (consume c) acts empty_consumer) day ty
     = count_where (\<lambda>e. o_type e = ty \<and> o_occurredAt e div 86400000 = day) evs"
proof -
  have inv: "bus_inv (rs, evs, l)" by (rule relays.reach_inv[OF assms(1)])
  then have l: "delivered acts = message_of ` set evs" and d: "distinct (map o_eventId evs)"
    using assms(2,3) by (auto simp: bus_inv_def)
  have inj: "inj_on message_of (set evs)"
  proof (rule inj_onI)
    fix x y assume "x \<in> set evs" "y \<in> set evs" "message_of x = message_of y"
    then show "x = y" using distinct_map_eqD[OF d] by (metis message.select_convs(2) message_of_def)
  qed
  have "inj_on m_eventId (delivered acts)"
  proof (rule inj_onI)
    fix m m' assume "m \<in> delivered acts" "m' \<in> delivered acts" "m_eventId m = m_eventId m'"
    then obtain e e' where "e \<in> set evs" "e' \<in> set evs" "m = message_of e" "m' = message_of e'" "o_eventId e = o_eventId e'"
      by (auto simp: l message_of_def)
    then show "m = m'" using distinct_map_eqD[OF d] by metis
  qed
  then have "stat (fold (consume c) acts empty_consumer) day ty = card {m \<in> delivered acts. counted day ty m}"
    using consume_counts[OF assms(4), of c] l by (auto simp: message_of_def)
  also have "{m \<in> delivered acts. counted day ty m}
      = message_of ` {e \<in> set evs. o_type e = ty \<and> o_occurredAt e div 86400000 = day}"
    unfolding l by (auto simp: counted_def event_day_def message_of_def)
  also have "card \<dots> = card {e \<in> set evs. o_type e = ty \<and> o_occurredAt e div 86400000 = day}"
    by (rule card_image) (rule inj_on_subset[OF inj], auto)
  also have "\<dots> = count_where (\<lambda>e. o_type e = ty \<and> o_occurredAt e div 86400000 = day) evs"
    using d by (simp add: count_where_card distinct_map)
  finally show ?thesis .
qed

theorem outbox_exactly_once_witness:
  "stat (fold (consume ''analytics'') [Deliver 0 (message_of demo_event), Deliver 9 (message_of demo_event)] empty_consumer)
     0 ''task.started'' = 1"
proof -
  let ?acts = "[Deliver 0 (message_of demo_event), Deliver 9 (message_of demo_event)]"
  have "delivered ?acts = set [message_of demo_event]" by (auto simp: delivered_def)
  moreover have "\<forall>a \<in> set ?acts. 0 \<le> action_time a \<and> action_time a < 0 + retention" by (simp add: retention_def)
  ultimately show ?thesis
    using outbox_exactly_once[OF demo_bus_reach, of ?acts 0 "''analytics''" 0 "''task.started''"]
    by (simp add: demo_event_def del: fold.simps)
qed

end
