(* ===== verification/Wf_Engine_Keys.thy ===== *)
theory Wf_Engine_Keys
  imports Wf_Engine_Tasks
begin

text \<open>
  What stays fixed of a run after it was started: who triggered it, its idempotency key and the hash
  of the request. The unique index makes the pair of the first two a key of the collection, in every
  reachable database.
\<close>

definition start_key :: "execution \<Rightarrow> oid \<times> oid option \<times> string option \<times> string option" where
  "start_key e = (e_id e, e_triggeredBy e, e_idempotencyKey e, e_requestHash e)"

definition start_keys :: "db \<Rightarrow> (oid \<times> oid option \<times> string option \<times> string option) list" where
  "start_keys db = map start_key (executions db)"

definition keys_unique :: "db \<Rightarrow> bool" where
  "keys_unique db \<longleftrightarrow>
     distinct (map (\<lambda>(i, u, k, h). (u, k)) (filter (\<lambda>(i, u, k, h). k \<noteq> None) (start_keys db)))"

lemma start_keys_simps [simp]:
  "start_keys (emit dp ty i pl now db) = start_keys db" "start_keys (inc_pending n i db) = start_keys db"
  "start_keys (release_dependents task db) = start_keys db" "start_keys (promote_dependents task now db) = start_keys db"
  "start_keys (promote_ready i now db) = start_keys db" "start_keys (snd (cancel_tasks S i upd db)) = start_keys db"
  "start_keys (abandon_attempts task now db) = start_keys db" "start_keys (close_attempt i k f db) = start_keys db"
  "start_keys (db\<lparr>approvals := ps\<rparr>) = start_keys db" "start_keys (db\<lparr>tasks := ts\<rparr>) = start_keys db"
  "start_keys (db\<lparr>next_id := m\<rparr>) = start_keys db" "start_keys (db\<lparr>attempts := as\<rparr>) = start_keys db"
  by (simp_all add: start_keys_def emit_def inc_pending_def release_dependents_def promote_dependents_def promote_ready_def
      cancel_tasks_def abandon_attempts_def close_attempt_def Let_def map_update_where start_key_def)

lemma start_keys_status:
  "(\<And>e. start_key (f e) = start_key e) \<Longrightarrow> start_keys (set_execution_status i s f db) = start_keys db"
  by (simp add: start_keys_def set_execution_status_def map_update_where)

lemma start_keys_status_simps [simp]:
  "start_keys (set_execution_status i s (\<lambda>e. e\<lparr>e_status := s'\<rparr>) db) = start_keys db"
  "start_keys (set_execution_status i s (\<lambda>e. e\<lparr>e_status := s', e_completedAt := c\<rparr>) db) = start_keys db"
  "start_keys (set_execution_status i s (\<lambda>e. e\<lparr>e_status := s', e_error := err, e_completedAt := c,
      e_pendingTasks := e_pendingTasks e - n\<rparr>) db) = start_keys db"
  "start_keys (set_execution_status i s (\<lambda>e. e\<lparr>e_status := s', e_completedAt := c, e_error := err,
      e_pendingTasks := e_pendingTasks e - n\<rparr>) db) = start_keys db"
  by (rule start_keys_status, simp add: start_key_def)+

lemma start_keys_transition:
  "transitionTask i s s' wher upd db = Inr (b, db') \<Longrightarrow> start_keys db' = start_keys db"
  by (auto simp: transitionTask_def Let_def elim!: bind_result_InrE)

lemma start_keys_after:
  "afterTaskSucceeded dp task now db = Inr db' \<Longrightarrow> start_keys db' = start_keys db"
  "afterTaskFailedForGood dp task oc msg rt now db = Inr db' \<Longrightarrow> start_keys db' = start_keys db"
  by (auto simp: afterTaskSucceeded_def afterTaskFailedForGood_def Let_def split_beta elim!: bind_result_InrE
      split: option.splits if_splits)

lemma start_keys_fail:
  "fail_retry dp task msg now db = Inr (r, db') \<Longrightarrow> start_keys db' = start_keys db"
  "fail_terminal dp task oc msg rt now db = Inr (r, db') \<Longrightarrow> start_keys db' = start_keys db"
  by (auto simp: fail_retry_def fail_terminal_def Let_def elim!: bind_result_InrE
      dest!: start_keys_transition start_keys_after split: if_splits)

lemma start_keys_txn:
  "complete_txn dp i tok out now db = Inr (r1, db') \<Longrightarrow> start_keys db' = start_keys db"
  "fail_txn dp i tok err now db = Inr (r2, db') \<Longrightarrow> start_keys db' = start_keys db"
  "suspendForApproval dp i tok rq now db = Inr (b, db') \<Longrightarrow> start_keys db' = start_keys db"
  "resolve_txn dp aid dec by cm scope now db = Inr (r3, db') \<Longrightarrow> start_keys db' = start_keys db"
  by (auto simp: complete_txn_def fail_txn_def suspendForApproval_def resolve_txn_def Let_def
      elim!: bind_result_InrE dest!: start_keys_transition start_keys_after start_keys_fail
      split: option.splits if_splits)

lemma start_keys_run:
  "claimTask tid wid ms mnow db = Inr (cl, db') \<Longrightarrow> start_keys db' = start_keys db"
  "pauseExecution dp i now db = Inr (b, db') \<Longrightarrow> start_keys db' = start_keys db"
  "resume_txn dp i now db = Inr (b, db') \<Longrightarrow> start_keys db' = start_keys db"
  "cancelExecution dp i now db = Inr (b, db') \<Longrightarrow> start_keys db' = start_keys db"
  "dispatchTask dp now t w = Inr (b, w') \<Longrightarrow> start_keys (fst w') = start_keys (fst w)"
  "create_attempt t wid db = Inr db' \<Longrightarrow> start_keys db' = start_keys db"
  by (auto simp: claimTask_eq pauseExecution_def resume_txn_def cancelExecution_def dispatchTask_def create_attempt_def
      Let_def split_beta elim!: bind_result_InrE dest!: start_keys_transition split: option.splits if_splits)

text \<open>Starting a run adds its key at the end, unless the pair is taken.\<close>

lemma start_keys_start:
  assumes "start_run dp wfl sp now db = Inr (e, db')"
  shows "start_keys db' = start_keys db @ [start_key e] \<and> \<not> idempotency_taken sp db
    \<and> e_triggeredBy e = sp_triggeredBy sp \<and> e_idempotencyKey e = sp_idempotencyKey sp \<and> e_requestHash e = sp_requestHash sp"
proof -
  obtain ch where tx: "start_txn dp wfl ch sp now db = Inr (e, db')"
    using assms by (auto simp: start_run_def elim!: bind_result_InrE split: if_splits)
  then have e: "e = new_execution wfl sp now (next_id db)" by (auto simp: start_txn_def Let_def split: if_splits)
  show ?thesis using tx
    by (auto simp: start_txn_def Let_def e start_keys_def emit_def new_execution_def start_key_def split: if_splits)
qed

lemma engine_step_keys:
  assumes "engine_step D w w'"
  shows "start_keys (fst w') = start_keys (fst w)
    \<or> (\<exists>e. start_keys (fst w') = start_keys (fst w) @ [start_key e]
         \<and> (e_idempotencyKey e \<noteq> None \<longrightarrow>
              (e_triggeredBy e, e_idempotencyKey e) \<notin> (\<lambda>(i, u, k, h). (u, k)) ` set (start_keys (fst w))))"
  using assms
proof cases
  case (es_start dp wfl sp now db e db' q)
  note k = start_keys_start[OF es_start(5)]
  show ?thesis using es_start k
    by (auto simp: idempotency_taken_def start_keys_def start_key_def intro!: exI[of _ e])
next
  case (es_renew dp tid tok mnow db b db' q)
  then have "db' = snd (renewTaskLease tid tok (dep_leaseMs dp) mnow db)" by (simp add: renewLease_def)
  then show ?thesis using es_renew by (simp add: renewTaskLease_def Let_def)
qed (auto dest: start_keys_txn start_keys_run)

lemma keys_unique_step: "keys_unique (fst w) \<Longrightarrow> engine_step D w w' \<Longrightarrow> keys_unique (fst w')"
  using engine_step_keys[of D w w'] unfolding keys_unique_def by (auto simp: start_key_def image_iff)

interpretation run_keys: invariant_system "\<lambda>w. fst w = empty_db" "engine_step D" "\<lambda>w. keys_unique (fst w)" for D
proof
  show "keys_unique (fst w)" if "fst w = empty_db" for w
    using that by (simp add: empty_db_def keys_unique_def start_keys_def)
qed (rule keys_unique_step)

text \<open>The key of a started run never changes and never goes away.\<close>

lemma start_keys_persist: "(engine_step D)\<^sup>*\<^sup>* w w' \<Longrightarrow> k \<in> set (start_keys (fst w)) \<Longrightarrow> k \<in> set (start_keys (fst w'))"
  by (induction rule: rtranclp_induct) (auto dest!: engine_step_keys)

lemma keys_unique_eq:
  assumes "keys_unique db" "db_ok db" "e \<in> set (executions db)" "e' \<in> set (executions db)"
    "e_idempotencyKey e \<noteq> None" "e_idempotencyKey e' = e_idempotencyKey e" "e_triggeredBy e' = e_triggeredBy e"
  shows "e' = e"
proof -
  let ?g = "\<lambda>(i, u, k, h). (u, k)"
  let ?K = "filter (\<lambda>(i, u, k, h). k \<noteq> None) (start_keys db)"
  have d: "distinct (map ?g ?K)" using assms(1) by (simp add: keys_unique_def)
  have m: "start_key e \<in> set ?K" "start_key e' \<in> set ?K"
    using assms(3-6) by (auto simp: start_keys_def start_key_def)
  have "?g (start_key e') = ?g (start_key e)" using assms(6,7) by (simp add: start_key_def)
  then have "start_key e' = start_key e" by (rule distinct_map_eqD[OF d m(2,1)])
  then have "e_id e' = e_id e" by (simp add: start_key_def)
  then show ?thesis using distinct_map_eqD[OF db_okD(1)[OF assms(2)] assms(4,3)] by simp
qed

lemma startExecution_key:
  assumes "D dp" "startExecution dp wfl sp now w = Inr (e, w')"
  shows "start_key e \<in> set (start_keys (fst w'))" "e_triggeredBy e = sp_triggeredBy sp"
    "e_idempotencyKey e = sp_idempotencyKey sp" "e_requestHash e = sp_requestHash sp"
proof -
  obtain db where db: "start_run dp wfl sp now (fst w) = Inr (e, db)" "dispatchReady dp (e_id e) now (db, snd w) = Inr w'"
    using assms(2) by (auto simp: startExecution_def elim!: bind_result_InrE)
  have "start_key e \<in> set (start_keys (fst (db, snd w)))" using start_keys_start[OF db(1)] by simp
  then show "start_key e \<in> set (start_keys (fst w'))"
    by (rule start_keys_persist[OF dispatchReady_steps[where D = D and dp = dp, OF assms(1) db(2)]])
  show "e_triggeredBy e = sp_triggeredBy sp" "e_idempotencyKey e = sp_idempotencyKey sp" "e_requestHash e = sp_requestHash sp"
    using start_keys_start[OF db(1)] by simp_all
qed

end
