(* ===== verification/Wf_Text.thy ===== *)
theory Wf_Text
  imports Wf_Prelude
begin

text \<open>
  The string functions of JavaScript the components use, on 8-bit characters (the code points up to
  255), and decimal notation.
\<close>

section \<open>White space and case\<close>

text \<open>\<open>\s\<close> of a regular expression, which is also what \<open>trim\<close> removes.\<close>

definition is_space :: "char \<Rightarrow> bool" where
  "is_space c \<longleftrightarrow> of_char c \<in> {9, 10, 11, 12, 13, 32, 160 :: nat}"

text \<open>\<open>trim().split(/\s+/)\<close>, but no word for a blank text; \<open>acc\<close> is the word being read, reversed.\<close>

fun words_of :: "string \<Rightarrow> string \<Rightarrow> string list" where
  "words_of acc [] = (if acc = [] then [] else [rev acc])"
| "words_of acc (c # cs) =
     (if is_space c then (if acc = [] then words_of [] cs else rev acc # words_of [] cs)
      else words_of (c # acc) cs)"

definition trim :: "string \<Rightarrow> string" where
  "trim s = rev (dropWhile is_space (rev (dropWhile is_space s)))"

definition to_lower_char :: "char \<Rightarrow> char" where
  "to_lower_char c = (let n = of_char c :: nat in
     if n \<in> {65 .. 90} \<or> n \<in> {192 .. 222} \<and> n \<noteq> 215 then char_of (n + 32) else c)"

definition toLowerCase :: "string \<Rightarrow> string" where
  "toLowerCase s = map to_lower_char s"

section \<open>Searching\<close>

fun starts_with :: "string \<Rightarrow> string \<Rightarrow> bool" where
  "starts_with [] s = True"
| "starts_with (c # cs) [] = False"
| "starts_with (c # cs) (d # ds) = (c = d \<and> starts_with cs ds)"

lemma starts_with_append: "starts_with p s \<longleftrightarrow> (\<exists>r. s = p @ r)"
  by (induction p s rule: starts_with.induct) auto

text \<open>\<open>s.includes(p)\<close>\<close>

fun includes_str :: "string \<Rightarrow> string \<Rightarrow> bool" where
  "includes_str p [] = (p = [])"
| "includes_str p (c # cs) = (starts_with p (c # cs) \<or> includes_str p cs)"

lemma includes_iff: "includes_str p s \<longleftrightarrow> (\<exists>l r. s = l @ p @ r)"
proof (induction s)
  case (Cons c cs)
  have "(\<exists>l r. c # cs = l @ p @ r) \<longleftrightarrow> (\<exists>r. c # cs = p @ r) \<or> (\<exists>l r. cs = l @ p @ r)"
    by (metis append_Cons append_Nil list.exhaust list.inject)
  then show ?case using Cons by (simp add: starts_with_append)
qed simp

section \<open>Decimal notation\<close>

text \<open>Numbers are read back from their decimal notation, so different numbers have different notations.\<close>

definition read_nat :: "string \<Rightarrow> nat" where
  "read_nat = foldl (\<lambda>n c. 10 * n + (of_char c - 48)) 0"

lemma read_show_nat: "read_nat (show_nat n) = n"
proof (induction n rule: show_nat.induct)
  case (1 n)
  show ?case
  proof (cases "n < 10")
    case True
    then show ?thesis by (simp add: show_nat.simps[of n] read_nat_def)
  next
    case False
    moreover have "of_char (char_of (48 + n mod 10) :: char) = 48 + n mod 10" by simp
    ultimately show ?thesis using 1 by (simp add: show_nat.simps[of n] read_nat_def)
  qed
qed

lemma show_nat_digits: "c \<in> set (show_nat n) \<Longrightarrow> of_char c \<in> {48 .. 57 :: nat}"
proof (induction n rule: show_nat.induct)
  case (1 n)
  have d: "of_char (char_of (48 + k) :: char) \<in> {48 .. 57 :: nat}" if "k < 10" for k :: nat using that by simp
  show ?case
  proof (cases "n < 10")
    case True
    then show ?thesis using 1(2) d[of n] by (simp add: show_nat.simps[of n])
  next
    case False
    then show ?thesis using 1 d[of "n mod 10"] by (auto simp: show_nat.simps[of n])
  qed
qed

lemma show_nat_eq_iff [simp]: "show_nat m = show_nat n \<longleftrightarrow> m = n"
  by (metis read_show_nat)

text \<open>A number followed by a character that is not a digit can be read off.\<close>

lemma show_nat_delimited:
  assumes "of_char c \<notin> {48 .. 57 :: nat}"
  shows "show_nat i @ c # r = show_nat j @ c # r' \<longleftrightarrow> i = j \<and> r = r'"
proof
  assume eq: "show_nat i @ c # r = show_nat j @ c # r'"
  have nc: "c \<notin> set (show_nat n)" for n using show_nat_digits[of c n] assms by auto
  have tw: "takeWhile (\<lambda>x. x \<noteq> c) (show_nat n @ c # xs) = show_nat n" for n xs
    using nc[of n] by (subst takeWhile_append2) auto
  have sh: "show_nat i = show_nat j" using arg_cong[OF eq, of "takeWhile (\<lambda>x. x \<noteq> c)"] unfolding tw .
  then show "i = j \<and> r = r'" using eq by (metis append_same_eq list.inject read_show_nat same_append_eq)
qed simp

end
