(* ===== verification/Wf_Scheduler.thy ===== *)
theory Wf_Scheduler
  imports Wf_Engine_Keys Wf_Lock Wf_Text
begin

text \<open>
  The cron scheduler, \<open>src/scheduler/scheduler.js\<close>, and the check of cron expressions,
  \<open>src/scheduler/cron.js\<close>. The cron library is a parameter: \<open>next_run cron after tz\<close> is the first slot
  after a time, \<open>None\<close> when the library throws. \<open>isoStr\<close> is \<open>toISOString\<close>, \<open>err_text\<close> gives the message
  of an exception.
\<close>

section \<open>Cron expressions\<close>

text \<open>The words between white space, and one empty word for a blank text.\<close>

definition cron_fields :: "string \<Rightarrow> string list" where
  "cron_fields expr = (if words_of [] expr = [] then [[]] else words_of [] expr)"

definition assertValidCron :: "(string \<Rightarrow> bool) \<Rightarrow> (string \<Rightarrow> string \<Rightarrow> bool) \<Rightarrow> string \<Rightarrow> string \<Rightarrow> unit result" where
  "assertValidCron known_zone parses expr timezone =
     (if length (cron_fields expr) \<noteq> 5 then Inl (ValidationError ''INVALID_CRON'')
      else if \<not> known_zone timezone then Inl (ValidationError ''INVALID_CRON'')
      else if \<not> parses expr timezone then Inl (ValidationError ''INVALID_CRON'')
      else Inr ())"

section \<open>One tick\<close>

type_synonym cron_next = "string \<Rightarrow> time \<Rightarrow> string \<Rightarrow> time option"

definition slot_key :: "(time \<Rightarrow> string) \<Rightarrow> oid \<Rightarrow> time \<Rightarrow> string" where
  "slot_key isoStr i slot = ''schedule:'' @ show_nat i @ '':'' @ isoStr slot"

definition slot_params :: "(time \<Rightarrow> string) \<Rightarrow> workflow \<Rightarrow> schedule \<Rightarrow> start_params" where
  "slot_params isoStr wfl sch =
     \<lparr>sp_input = (if s_input sch = JNull then JObj [] else s_input sch), sp_triggeredBy = Some (w_ownerId wfl),
      sp_trigger = Schedule, sp_idempotencyKey = Some (slot_key isoStr (w_id wfl) (s_nextRunAt sch)),
      sp_requestHash = None\<rparr>"

text \<open>The query of \<open>runDue\<close>.\<close>

definition due_workflows :: "nat \<Rightarrow> time \<Rightarrow> workflow list \<Rightarrow> workflow list" where
  "due_workflows batchSize cur ws =
     limited batchSize (sort_key (\<lambda>w. case w_schedule w of None \<Rightarrow> 0 | Some s \<Rightarrow> s_nextRunAt s)
       (filter (\<lambda>w. case w_schedule w of None \<Rightarrow> False | Some s \<Rightarrow> s_enabled s \<and> s_nextRunAt s \<le> cur) ws))"

text \<open>The attempt to start the run of a slot: whether it started, the error to record, the new state.\<close>

definition start_slot :: "(error \<Rightarrow> string) \<Rightarrow> (time \<Rightarrow> string) \<Rightarrow> 'q deps \<Rightarrow> time \<Rightarrow> workflow \<Rightarrow> schedule \<Rightarrow> 'q world
    \<Rightarrow> bool \<times> string option \<times> 'q world" where
  "start_slot err_text isoStr dp now wfl sch w =
     (case startExecution dp wfl (slot_params isoStr wfl sch) now w of
        Inr (e, w') \<Rightarrow> (True, None, w')
      | Inl (DuplicateKey IxIdempotency) \<Rightarrow> (False, None, w)
      | Inl err \<Rightarrow> (False, Some (err_text err), w))"

text \<open>The compare-and-set that moves \<open>nextRunAt\<close>.\<close>

definition advance :: "oid \<Rightarrow> time \<Rightarrow> time \<Rightarrow> time \<Rightarrow> string option \<Rightarrow> workflow list \<Rightarrow> workflow list" where
  "advance i slot nxt cur lastError ws =
     update_where (\<lambda>w. w_id w = i \<and> map_option s_nextRunAt (w_schedule w) = Some slot)
       (\<lambda>w. w\<lparr>w_schedule := map_option (\<lambda>s. s\<lparr>s_nextRunAt := nxt, s_lastRunAt := Some cur, s_lastError := lastError\<rparr>)
                (w_schedule w)\<rparr>) ws"

text \<open>The loop of \<open>runDue\<close>; \<open>None\<close> when it throws.\<close>

fun run_due_loop :: "cron_next \<Rightarrow> (error \<Rightarrow> string) \<Rightarrow> (time \<Rightarrow> string) \<Rightarrow> 'q deps \<Rightarrow> time \<Rightarrow> time \<Rightarrow> workflow list \<Rightarrow> nat
    \<Rightarrow> workflow list \<times> 'q world \<Rightarrow> nat option \<times> workflow list \<times> 'q world" where
  "run_due_loop next_run err_text isoStr dp cur now [] n st = (Some n, st)"
| "run_due_loop next_run err_text isoStr dp cur now (wfl # wfls) n st =
     (case w_schedule wfl of
        None \<Rightarrow> (None, st)
      | Some sch \<Rightarrow>
          let (started, lastError, w) = start_slot err_text isoStr dp now wfl sch (snd st);
              slot = s_nextRunAt sch;
              base = (if slot > cur then slot else cur) in
          case next_run (s_cron sch) base (s_timezone sch) of
            None \<Rightarrow> (None, fst st, w)
          | Some nxt \<Rightarrow>
              run_due_loop next_run err_text isoStr dp cur now wfls (if started then n + 1 else n)
                (advance (w_id wfl) slot nxt cur lastError (fst st), w))"

definition runDue :: "cron_next \<Rightarrow> (error \<Rightarrow> string) \<Rightarrow> (time \<Rightarrow> string) \<Rightarrow> 'q deps \<Rightarrow> nat \<Rightarrow> time \<Rightarrow> time
    \<Rightarrow> workflow list \<times> 'q world \<Rightarrow> nat option \<times> workflow list \<times> 'q world" where
  "runDue next_run err_text isoStr dp batchSize cur now st =
     run_due_loop next_run err_text isoStr dp cur now (due_workflows batchSize cur (fst st)) 0 st"

text \<open>\<open>tick\<close>: leader election, then \<open>runDue\<close>; an exception is logged.\<close>

definition scheduler_tick :: "cron_next \<Rightarrow> (error \<Rightarrow> string) \<Rightarrow> (time \<Rightarrow> string) \<Rightarrow> 'q deps \<Rightarrow> nat \<Rightarrow> nat \<Rightarrow> int \<Rightarrow> time \<Rightarrow> time \<Rightarrow> time
    \<Rightarrow> ((nat \<times> nat) option \<times> bool) \<times> lock_state \<times> workflow list \<times> 'q world
    \<Rightarrow> nat \<times> ((nat \<times> nat) option \<times> bool) \<times> lock_state \<times> workflow list \<times> 'q world" where
  "scheduler_tick next_run err_text isoStr dp batchSize tok ttlMs rnow cur now s =
     (case s of ((held, busy), lock, st) \<Rightarrow>
        if busy then (0, (held, busy), lock, st)
        else let (held, lock) = elect tok ttlMs rnow held lock in
             if held = None then (0, (held, busy), lock, st)
             else let (r, st) = runDue next_run err_text isoStr dp batchSize cur now st in
                  ((case r of None \<Rightarrow> 0 | Some n \<Rightarrow> n), (held, busy), lock, st))"

section \<open>Slot keys\<close>

text \<open>Different slots have different keys.\<close>

lemma slot_key_inj:
  assumes "inj isoStr" "slot_key isoStr i s = slot_key isoStr j t"
  shows "i = j \<and> s = t"
proof -
  have "show_nat i @ CHR '':'' # isoStr s = show_nat j @ CHR '':'' # isoStr t" using assms(2) by (simp add: slot_key_def)
  then have "i = j" "isoStr s = isoStr t" using show_nat_delimited[of "CHR '':''" i "isoStr s" j "isoStr t"] by auto
  then show ?thesis using assms(1) by (simp add: inj_eq)
qed

section \<open>Handling the due slots\<close>

text \<open>The run of a slot exists.\<close>

definition slot_started :: "(time \<Rightarrow> string) \<Rightarrow> workflow \<Rightarrow> time \<Rightarrow> db \<Rightarrow> bool" where
  "slot_started isoStr wfl slot db \<longleftrightarrow>
     (\<exists>i h. (i, Some (w_ownerId wfl), Some (slot_key isoStr (w_id wfl) slot), h) \<in> set (start_keys db))"

lemma slot_started_steps: "(engine_step D)\<^sup>*\<^sup>* w w' \<Longrightarrow> slot_started isoStr wfl slot (fst w) \<Longrightarrow> slot_started isoStr wfl slot (fst w')"
  unfolding slot_started_def using start_keys_persist by blast

lemma startExecution_duplicate:
  assumes "reachable D w" "w_tasks wfl \<noteq> []" "startExecution dp wfl sp now w = Inl (DuplicateKey IxIdempotency)"
  shows "idempotency_taken sp (fst w)"
proof (rule ccontr)
  assume n: "\<not> idempotency_taken sp (fst w)"
  note p = startExecution_behaviour_parts[where dp = dp and sp = sp and now = now, OF assms(1,2)]
  show False using p(1,2,4) n assms(3) by (cases "is_dag (w_tasks wfl)"; cases "\<exists>t \<in> set (w_tasks wfl). d_dependsOn t = None") auto
qed

lemma start_slot_effect:
  assumes "reachable D w" "D dp" "w_tasks wfl \<noteq> []" "start_slot err_text isoStr dp now wfl sch w = (b, lastError, w')"
  shows "(engine_step D)\<^sup>*\<^sup>* w w'" "lastError = None \<Longrightarrow> slot_started isoStr wfl (s_nextRunAt sch) (fst w')"
proof -
  let ?sp = "slot_params isoStr wfl sch"
  show "(engine_step D)\<^sup>*\<^sup>* w w'"
    using assms(4) startExecution_steps[where D = D and dp = dp, OF assms(2,3)]
    by (auto simp: start_slot_def split: sum.splits prod.splits error.splits index_name.splits)
  assume le: "lastError = None"
  show "slot_started isoStr wfl (s_nextRunAt sch) (fst w')"
  proof (cases "startExecution dp wfl ?sp now w")
    case (Inr r)
    obtain e w1 where r: "r = (e, w1)" by (cases r)
    then have w1: "w' = w1" using assms(4) Inr by (simp add: start_slot_def)
    have "startExecution dp wfl ?sp now w = Inr (e, w')" using Inr r w1 by simp
    note k = startExecution_key[where D = D and dp = dp, OF assms(2) this]
    then show ?thesis unfolding slot_started_def start_key_def slot_params_def by auto
  next
    case (Inl err)
    then have "err = DuplicateKey IxIdempotency" "w' = w"
      using assms(4) le by (auto simp: start_slot_def split: error.splits index_name.splits)
    then have "idempotency_taken ?sp (fst w')" using startExecution_duplicate[OF assms(1,3)] Inl by simp
    then show ?thesis unfolding slot_started_def idempotency_taken_def slot_params_def start_keys_def start_key_def by force
  qed
qed

text \<open>A slot is handled: the schedule moved past the present, and the run exists unless an error is
  recorded.\<close>

definition handled :: "(time \<Rightarrow> string) \<Rightarrow> time \<Rightarrow> workflow \<Rightarrow> schedule \<Rightarrow> workflow list \<Rightarrow> db \<Rightarrow> bool" where
  "handled isoStr cur wfl sch ws db \<longleftrightarrow>
     (\<exists>wfl' \<in> set ws. \<exists>sch'. w_id wfl' = w_id wfl \<and> w_schedule wfl' = Some sch' \<and> cur < s_nextRunAt sch'
        \<and> s_lastRunAt sch' = Some cur \<and> (s_lastError sch' = None \<longrightarrow> slot_started isoStr wfl (s_nextRunAt sch) db))"

text \<open>What the code relies on of the cron library: there is a next slot, strictly later.\<close>

definition next_later :: "cron_next \<Rightarrow> bool" where
  "next_later next_run \<longleftrightarrow> (\<forall>c t z. \<exists>t'. next_run c t z = Some t' \<and> t < t')"

lemma advance_ids [simp]: "map w_id (advance i slot nxt cur le ws) = map w_id ws"
  by (simp add: advance_def map_update_where)

lemma advance_other: "wfl \<in> set ws \<Longrightarrow> w_id wfl \<noteq> i \<Longrightarrow> wfl \<in> set (advance i slot nxt cur le ws)"
  by (force simp: advance_def set_update_where)

lemma advance_this:
  assumes "wfl \<in> set ws" "w_schedule wfl = Some sch" "cur < nxt"
    "le = None \<Longrightarrow> slot_started isoStr wfl (s_nextRunAt sch) db"
  shows "handled isoStr cur wfl sch (advance (w_id wfl) (s_nextRunAt sch) nxt cur le ws) db"
proof -
  let ?w = "wfl\<lparr>w_schedule := Some (sch\<lparr>s_nextRunAt := nxt, s_lastRunAt := Some cur, s_lastError := le\<rparr>)\<rparr>"
  have "?w \<in> set (advance (w_id wfl) (s_nextRunAt sch) nxt cur le ws)"
    unfolding advance_def set_update_where using assms(1,2) by (intro image_eqI[of _ _ wfl]) auto
  then show ?thesis unfolding handled_def using assms(3,4) by (intro bexI[of _ ?w]) auto
qed

lemma run_due_loop_ok:
  assumes "next_later next_run" "D dp" "reachable D w" "distinct (map w_id wfls)" "distinct (map w_id ws)"
    "set wfls \<subseteq> set ws" "\<forall>wfl \<in> set wfls. w_schedule wfl \<noteq> None \<and> w_tasks wfl \<noteq> []"
  shows "\<exists>n' ws' w'. run_due_loop next_run err_text isoStr dp cur now wfls n (ws, w) = (Some n', ws', w')
     \<and> (engine_step D)\<^sup>*\<^sup>* w w' \<and> map w_id ws' = map w_id ws \<and> (\<forall>wfl \<in> set ws - set wfls. wfl \<in> set ws')
     \<and> (\<forall>wfl \<in> set wfls. \<forall>sch. w_schedule wfl = Some sch \<longrightarrow> handled isoStr cur wfl sch ws' (fst w'))"
  using assms(3-7)
proof (induction wfls arbitrary: n ws w)
  case (Cons wfl wfls)
  obtain sch where sch: "w_schedule wfl = Some sch" using Cons.prems(5) by auto
  obtain b le w1 where ss: "start_slot err_text isoStr dp now wfl sch w = (b, le, w1)" by (metis prod_cases3)
  let ?base = "if s_nextRunAt sch > cur then s_nextRunAt sch else cur"
  obtain nxt where nx: "next_run (s_cron sch) ?base (s_timezone sch) = Some nxt" "?base < nxt"
    using assms(1) unfolding next_later_def by blast
  then have later: "cur < nxt" by (auto split: if_splits)
  let ?ws = "advance (w_id wfl) (s_nextRunAt sch) nxt cur le ws"
  have st: "(engine_step D)\<^sup>*\<^sup>* w w1" "le = None \<Longrightarrow> slot_started isoStr wfl (s_nextRunAt sch) (fst w1)"
    using start_slot_effect[OF Cons.prems(1) assms(2) _ ss] Cons.prems(5) by auto
  have ids: "w_id v \<noteq> w_id wfl" if "v \<in> set wfls" for v
    using Cons.prems(2) imageI[OF that, of w_id] by auto
  have sub: "set wfls \<subseteq> set ?ws" using Cons.prems(4) ids advance_other by auto
  obtain n' ws' w' where r: "run_due_loop next_run err_text isoStr dp cur now wfls (if b then n + 1 else n) (?ws, w1) = (Some n', ws', w')"
    "(engine_step D)\<^sup>*\<^sup>* w1 w'" "map w_id ws' = map w_id ?ws" "\<forall>v \<in> set ?ws - set wfls. v \<in> set ws'"
    "\<forall>v \<in> set wfls. \<forall>sch. w_schedule v = Some sch \<longrightarrow> handled isoStr cur v sch ws' (fst w')"
  proof -
    have "distinct (map w_id wfls)" "distinct (map w_id ?ws)" "\<forall>v \<in> set wfls. w_schedule v \<noteq> None \<and> w_tasks v \<noteq> []"
      using Cons.prems(2,3,5) by simp_all
    from Cons.IH[OF reach_rtranclp[OF Cons.prems(1) st(1)] this(1,2) sub this(3)] show ?thesis using that by blast
  qed
  have eq: "run_due_loop next_run err_text isoStr dp cur now (wfl # wfls) n (ws, w) = (Some n', ws', w')"
    using sch ss nx(1) r(1) by (simp add: Let_def)
  have "handled isoStr cur wfl sch ?ws (fst w1)"
    using advance_this[where nxt = nxt and cur = cur and le = le and db = "fst w1", OF _ sch later] st(2) Cons.prems(4) by simp
  then obtain v s where v: "v \<in> set ?ws" "w_id v = w_id wfl" "w_schedule v = Some s" "cur < s_nextRunAt s" "s_lastRunAt s = Some cur"
    "s_lastError s = None \<longrightarrow> slot_started isoStr wfl (s_nextRunAt sch) (fst w1)"
    unfolding handled_def by auto
  then have "v \<in> set ws'" using r(4) ids by auto
  then have "handled isoStr cur wfl sch ws' (fst w')"
    unfolding handled_def using v slot_started_steps[OF r(2)] by (intro bexI[of _ v] exI[of _ s]) auto
  moreover have "u \<in> set ws'" if u: "u \<in> set ws - set (wfl # wfls)" for u
  proof -
    have "w_id u \<noteq> w_id wfl" using u Cons.prems(3,4) distinct_map_eqD[of w_id ws u wfl] by auto
    then show ?thesis using u r(4) advance_other[of u ws "w_id wfl"] by auto
  qed
  ultimately show ?case using eq r(2,3,5) st(1) sch by (intro exI[of _ n'] exI[of _ ws'] exI[of _ w']) auto
qed simp

section \<open>Properties\<close>


text \<open>A tick handles every due slot. With a cron library that always finds a later slot, \<open>runDue\<close>
  does not throw; each workflow it selected has its schedule moved past the present, so that missed slots
  are not repeated and the same slot is not due again, and has the run of its slot, unless an error is
  recorded; workflows it did not select stay as they are; and the database stays a reachable one.\<close>

theorem runDue_handles_due:
  assumes "reachable D w" "D dp" "next_later next_run" "distinct (map w_id ws)" "\<forall>wfl \<in> set ws. w_tasks wfl \<noteq> []"
  shows "\<exists>n ws' w'. runDue next_run err_text isoStr dp b cur now (ws, w) = (Some n, ws', w') \<and> reachable D w'
     \<and> map w_id ws' = map w_id ws \<and> (\<forall>wfl \<in> set ws - set (due_workflows b cur ws). wfl \<in> set ws')
     \<and> (\<forall>wfl \<in> set (due_workflows b cur ws). \<forall>sch. w_schedule wfl = Some sch \<longrightarrow> handled isoStr cur wfl sch ws' (fst w'))"
proof -
  let ?f = "filter (\<lambda>w. case w_schedule w of None \<Rightarrow> False | Some s \<Rightarrow> s_enabled s \<and> s_nextRunAt s \<le> cur) ws"
  have sub: "set (due_workflows b cur ws) \<subseteq> set ?f"
    by (auto simp: due_workflows_def limited_def dest: in_set_takeD)
  have "distinct (map w_id ?f)" using assms(4) by (rule distinct_map_filter)
  then have "distinct (map w_id (sort_key k ?f))" for k :: "workflow \<Rightarrow> time" by (simp only: distinct_map distinct_sort set_sort)
  then have d: "distinct (map w_id (due_workflows b cur ws))"
    unfolding due_workflows_def limited_def by (simp add: take_map[symmetric] distinct_take)
  have n: "\<forall>wfl \<in> set (due_workflows b cur ws). w_schedule wfl \<noteq> None \<and> w_tasks wfl \<noteq> []"
    using sub assms(5) by (auto split: option.splits)
  have "set (due_workflows b cur ws) \<subseteq> set ws" using sub by auto
  from run_due_loop_ok[where D = D and dp = dp and n = 0 and err_text = err_text and isoStr = isoStr and cur = cur and now = now,
      OF assms(3,2,1) d assms(4) this n]
  obtain n' ws' w' where r: "runDue next_run err_text isoStr dp b cur now (ws, w) = (Some n', ws', w')" "(engine_step D)\<^sup>*\<^sup>* w w'"
    "map w_id ws' = map w_id ws" "\<forall>wfl \<in> set ws - set (due_workflows b cur ws). wfl \<in> set ws'"
    "\<forall>wfl \<in> set (due_workflows b cur ws). \<forall>sch. w_schedule wfl = Some sch \<longrightarrow> handled isoStr cur wfl sch ws' (fst w')"
    unfolding runDue_def fst_conv by blast
  show ?thesis using r(1,3-5) reach_rtranclp[OF assms(1) r(2)] by blast
qed

definition demo_scheduled :: workflow where
  "demo_scheduled = demo_workflow\<lparr>w_schedule := Some \<lparr>s_cron = ''0 * * * *'', s_timezone = ''UTC'', s_enabled = True,
     s_input = JNull, s_nextRunAt = 3600000, s_lastRunAt = None, s_lastError = None\<rparr>\<rparr>"

definition hourly :: cron_next where
  "hourly c t z = Some ((t div 3600000 + 1) * 3600000)"

lemma demo_schedule_facts:
  "next_later hourly" "distinct (map w_id [demo_scheduled])" "\<forall>wfl \<in> set [demo_scheduled]. w_tasks wfl \<noteq> []"
  "due_workflows 50 4000000 [demo_scheduled] = [demo_scheduled]" "inj show_int"
proof -
  have "t < (t div 3600000 + 1) * 3600000" for t :: int
    using div_mult_mod_eq[of t 3600000] pos_mod_bound[of 3600000 t] by (simp add: algebra_simps)
  then show "next_later hourly" by (simp add: next_later_def hourly_def)
  show "distinct (map w_id [demo_scheduled])" "\<forall>wfl \<in> set [demo_scheduled]. w_tasks wfl \<noteq> []"
    "due_workflows 50 4000000 [demo_scheduled] = [demo_scheduled]"
    by (simp_all add: demo_scheduled_def demo_workflow_def due_workflows_def limited_def)
  show "inj show_int"
  proof (rule injI)
    fix x y assume e: "show_int x = show_int y"
    have nd: "CHR ''-'' \<notin> set (show_nat n)" for n using show_nat_digits[of "CHR ''-''" n] by auto
    have "show_nat n \<noteq> CHR ''-'' # xs" for n xs using nd[of n] by (metis list.set_intros(1))
    then have "(x < 0) = (y < 0) \<and> show_nat (nat \<bar>x\<bar>) = show_nat (nat \<bar>y\<bar>)"
      using e unfolding show_int_def by (cases "x < 0"; cases "y < 0") (auto dest: sym)
    then have "(x < 0) = (y < 0)" "nat \<bar>x\<bar> = nat \<bar>y\<bar>" by (simp, metis read_show_nat)
    then show "x = y" by (cases "x < 0") auto
  qed
qed

definition demo_slot_params :: start_params where
  "demo_slot_params = slot_params show_int demo_scheduled (the (w_schedule demo_scheduled))"

text \<open>The slot of the demonstration workflow, started on an empty database.\<close>

lemma demo_slot:
  "\<exists>e w. startExecution demo_deps demo_scheduled demo_slot_params 0 (empty_db, ()) = Inr (e, w) \<and> reachable (\<lambda>_. True) w
     \<and> start_key e \<in> set (start_keys (fst w)) \<and> e_idempotencyKey e = Some (slot_key show_int 100 3600000)"
proof -
  have init: "reachable (\<lambda>_. True) (empty_db, ())" by (rule reach_init) simp
  have ne: "w_tasks demo_workflow \<noteq> []" "w_tasks demo_scheduled \<noteq> []" by (simp_all add: demo_scheduled_def demo_workflow_def)
  have "is_dag (w_tasks demo_workflow)"
    using startExecution_behaviour_parts(1)[where dp = demo_deps and sp = demo_params and now = 0, OF init ne(1)] demo_ok(1)
    by (metis sum.disc(1))
  then have dag: "is_dag (w_tasks demo_scheduled)" "\<forall>t \<in> set (w_tasks demo_scheduled). d_dependsOn t \<noteq> None"
    by (simp_all add: demo_scheduled_def demo_workflow_def demo_def_def)
  have "\<not> idempotency_taken demo_slot_params (fst (empty_db, ()))" by (simp add: idempotency_taken_def empty_db_def)
  then obtain e db w where e: "start_run demo_deps demo_scheduled demo_slot_params 0 (fst (empty_db, ())) = Inr (e, db)"
    "startExecution demo_deps demo_scheduled demo_slot_params 0 (empty_db, ()) = Inr (e, w)"
    using startExecution_behaviour_parts(4)[where dp = demo_deps and sp = demo_slot_params and now = 0, OF init ne(2) dag] by blast
  have "dispatchReady demo_deps (e_id e) 0 (db, ()) = Inr w" using e by (auto simp: startExecution_def elim!: bind_result_InrE)
  then have "start_key e \<in> set (start_keys (fst w))"
    using start_keys_start[OF e(1)] start_keys_persist[OF dispatchReady_steps[of "\<lambda>_. True"]] by fastforce
  moreover have "e_idempotencyKey e = Some (slot_key show_int 100 3600000)"
    using start_keys_start[OF e(1)] by (simp add: demo_slot_params_def slot_params_def demo_scheduled_def demo_workflow_def)
  moreover have "reachable (\<lambda>_. True) w"
    using reach_rtranclp[OF init startExecution_steps[of "\<lambda>_. True", OF _ ne(2) e(2)]] by simp
  ultimately show ?thesis using e(2) by blast
qed

theorem runDue_handles_due_witness:
  "\<exists>n ws' w'. runDue hourly (\<lambda>_. []) show_int demo_deps 50 4000000 4000000 ([demo_scheduled], empty_db, ()) = (Some n, ws', w')
     \<and> handled show_int 4000000 demo_scheduled (the (w_schedule demo_scheduled)) ws' (fst w')"
proof -
  have r: "reachable (\<lambda>_. True) (empty_db, ())" by (rule reach_init) simp
  have "w_schedule demo_scheduled = Some (the (w_schedule demo_scheduled))" by (simp add: demo_scheduled_def)
  then show ?thesis
    using runDue_handles_due[where dp = demo_deps and err_text = "\<lambda>_. []" and isoStr = show_int and b = 50 and cur = 4000000
        and now = 4000000, OF r _ demo_schedule_facts(1-3)] demo_schedule_facts(4) by fastforce
qed


end
