(* ===== verification/Wf_Access.thy ===== *)
theory Wf_Access
  imports Wf_Prelude
begin

text \<open>
  Who may do what: the role table of \<open>src/auth/permissions.js\<close>, the guard of
  \<open>src/middleware/authorize.js\<close> and the ownership filter of \<open>src/auth/ownership.js\<close>. Roles and
  permissions are strings, as in a token.
\<close>

record user =
  u_id :: oid
  u_role :: string

abbreviation ADMIN :: string where "ADMIN \<equiv> ''admin''"
abbreviation OPERATOR :: string where "OPERATOR \<equiv> ''operator''"
abbreviation VIEWER :: string where "VIEWER \<equiv> ''viewer''"

abbreviation WORKFLOW_CREATE :: string where "WORKFLOW_CREATE \<equiv> ''workflow:create''"
abbreviation WORKFLOW_READ :: string where "WORKFLOW_READ \<equiv> ''workflow:read''"
abbreviation WORKFLOW_RUN :: string where "WORKFLOW_RUN \<equiv> ''workflow:run''"
abbreviation APPROVAL_DECIDE :: string where "APPROVAL_DECIDE \<equiv> ''approval:decide''"
abbreviation ANALYTICS_READ :: string where "ANALYTICS_READ \<equiv> ''analytics:read''"
abbreviation USER_MANAGE :: string where "USER_MANAGE \<equiv> ''user:manage''"

definition PERMISSIONS :: "string list" where
  "PERMISSIONS = [WORKFLOW_CREATE, WORKFLOW_READ, WORKFLOW_RUN, APPROVAL_DECIDE, ANALYTICS_READ, USER_MANAGE]"

definition ROLE_PERMISSIONS :: "(string \<times> string list) list" where
  "ROLE_PERMISSIONS =
     [(ADMIN, PERMISSIONS),
      (OPERATOR, [WORKFLOW_CREATE, WORKFLOW_READ, WORKFLOW_RUN, APPROVAL_DECIDE, ANALYTICS_READ]),
      (VIEWER, [WORKFLOW_READ, ANALYTICS_READ])]"

text \<open>The names an object literal inherits: looking one up yields something that is not a set, and
  calling its \<open>has\<close> is a \<open>TypeError\<close>.\<close>

definition inherited :: "string list" where
  "inherited = [''constructor'', ''__proto__'', ''hasOwnProperty'', ''isPrototypeOf'', ''propertyIsEnumerable'',
     ''toLocaleString'', ''toString'', ''valueOf'', ''__defineGetter__'', ''__defineSetter__'',
     ''__lookupGetter__'', ''__lookupSetter__'']"

definition hasPermission :: "string \<Rightarrow> string \<Rightarrow> bool result" where
  "hasPermission role permission =
     (case map_of ROLE_PERMISSIONS role of
        Some ps \<Rightarrow> Inr (permission \<in> set ps)
      | None \<Rightarrow> if role \<in> set inherited then Inl NullDereference else Inr False)"

text \<open>\<open>requirePermission\<close>: \<open>Inr\<close> lets the request through.\<close>

definition requirePermission :: "string \<Rightarrow> user option \<Rightarrow> unit result" where
  "requirePermission permission u =
     (case u of
        None \<Rightarrow> Inl (UnauthorizedError ''UNAUTHENTICATED'')
      | Some x \<Rightarrow> bind_result (hasPermission (u_role x) permission) (\<lambda>ok.
          if ok then Inr () else Inl (ForbiddenError ''FORBIDDEN'')))"

text \<open>The filter merged into every query for an owned resource, as a test of the owner.\<close>

definition ownerScope :: "user \<Rightarrow> oid \<Rightarrow> bool" where
  "ownerScope u ownerId \<longleftrightarrow> u_role u = ADMIN \<or> ownerId = u_id u"

section \<open>Properties\<close>

text \<open>Access is denied by default and roles are ordered. A request passes the guard exactly if it
  is authenticated with a role of the table that lists the permission; every permission of a viewer is
  one of an operator, and every one of an operator one of an admin; only an admin manages users, and a
  viewer can only read; any other role passes no guard.\<close>

theorem access_denied_by_default:
  "(requirePermission p u = Inr () \<longleftrightarrow> (\<exists>x ps. u = Some x \<and> (u_role x, ps) \<in> set ROLE_PERMISSIONS \<and> p \<in> set ps))
   \<and> (hasPermission VIEWER p = Inr True \<longrightarrow> hasPermission OPERATOR p = Inr True)
   \<and> (hasPermission OPERATOR p = Inr True \<longrightarrow> hasPermission ADMIN p = Inr True)
   \<and> (hasPermission r USER_MANAGE = Inr True \<longleftrightarrow> r = ADMIN)
   \<and> (hasPermission r p = Inr True \<longrightarrow> p \<in> set PERMISSIONS)"
proof -
  have d: "distinct (map fst ROLE_PERMISSIONS)" by (simp add: ROLE_PERMISSIONS_def)
  have h: "hasPermission r p = Inr True \<longleftrightarrow> (\<exists>ps. (r, ps) \<in> set ROLE_PERMISSIONS \<and> p \<in> set ps)" for r p
    by (cases "map_of ROLE_PERMISSIONS r") (auto simp: hasPermission_def map_of_eq_Some_iff[OF d, symmetric])
  have "requirePermission p u = Inr () \<longleftrightarrow> (\<exists>x. u = Some x \<and> hasPermission (u_role x) p = Inr True)"
    by (auto simp: requirePermission_def bind_result_eq_Inr split: option.split)
  then have guard: "requirePermission p u = Inr () \<longleftrightarrow> (\<exists>x ps. u = Some x \<and> (u_role x, ps) \<in> set ROLE_PERMISSIONS \<and> p \<in> set ps)"
    unfolding h by blast
  define op where "op = [WORKFLOW_CREATE, WORKFLOW_READ, WORKFLOW_RUN, APPROVAL_DECIDE, ANALYTICS_READ]"
  define vi where "vi = [WORKFLOW_READ, ANALYTICS_READ]"
  have t: "hasPermission r p = Inr True \<longleftrightarrow> r = ADMIN \<and> p \<in> set PERMISSIONS \<or> r = OPERATOR \<and> p \<in> set op \<or> r = VIEWER \<and> p \<in> set vi" for r p
    unfolding hasPermission_def ROLE_PERMISSIONS_def op_def[symmetric] vi_def[symmetric]
    by (cases "r = ADMIN"; cases "r = OPERATOR"; cases "r = VIEWER") simp_all
  have s: "set vi \<subseteq> set op" "set op \<subseteq> set PERMISSIONS" by (simp_all add: PERMISSIONS_def op_def vi_def)
  have m: "USER_MANAGE \<in> set PERMISSIONS" "USER_MANAGE \<notin> set op" "USER_MANAGE \<notin> set vi" by (simp_all add: PERMISSIONS_def op_def vi_def)
  have "hasPermission VIEWER p = Inr True \<longleftrightarrow> p \<in> set vi" "hasPermission OPERATOR p = Inr True \<longleftrightarrow> p \<in> set op"
    "hasPermission ADMIN p = Inr True \<longleftrightarrow> p \<in> set PERMISSIONS" by (simp_all add: t)
  moreover have "hasPermission r USER_MANAGE = Inr True \<longleftrightarrow> r = ADMIN" using m by (simp add: t)
  moreover have "hasPermission r p = Inr True \<longrightarrow> p \<in> set PERMISSIONS" using s by (auto simp: t)
  ultimately show ?thesis using guard s by simp blast
qed

theorem access_denied_by_default_witness:
  "requirePermission WORKFLOW_RUN (Some \<lparr>u_id = 1, u_role = OPERATOR\<rparr>) = Inr ()
   \<and> hasPermission ADMIN WORKFLOW_RUN = Inr True"
  using access_denied_by_default[of WORKFLOW_RUN "Some \<lparr>u_id = 1, u_role = OPERATOR\<rparr>"]
  by (auto simp: ROLE_PERMISSIONS_def PERMISSIONS_def hasPermission_def)

end
