(* ===== verification/Wf_Services.thy ===== *)
theory Wf_Services
  imports Wf_Scheduler Wf_Access "HOL-Library.List_Lexorder" "HOL-Library.Char_ord"
begin

text \<open>
  The services behind the HTTP routes: \<open>src/services/execution.service.js\<close>,
  \<open>src/services/workflow.service.js\<close> and the decision handler of \<open>src/routes/approval.routes.js\<close>. The
  collection of workflow definitions is a list of documents beside the engine's database. SHA-256 is the
  parameter \<open>sha\<close>, \<open>JSON.stringify\<close> of a scalar or a key the parameter \<open>scalar\<close>. A request body
  holds no dates and no object ids; a date has no own keys. The list of workflows is in the order of
  creation.
\<close>

section \<open>Request hashes\<close>

fun join :: "string \<Rightarrow> string list \<Rightarrow> string" where
  "join sep [] = []"
| "join sep [x] = x"
| "join sep (x # xs) = x @ sep @ join sep xs"

function canonical :: "(json \<Rightarrow> string) \<Rightarrow> json \<Rightarrow> string" where
  "canonical scalar (JArr xs) = ''['' @ join '','' (map (canonical scalar) xs) @ '']''"
| "canonical scalar (JObj kvs) =
     ''{'' @ join '','' (map (\<lambda>kv. scalar (JStr (fst kv)) @ '':'' @ canonical scalar (snd kv)) (sort_key fst kvs)) @ ''}''"
| "canonical scalar JNull = scalar JNull"
| "canonical scalar (JBool b) = scalar (JBool b)"
| "canonical scalar (JNum n) = scalar (JNum n)"
| "canonical scalar (JStr s) = scalar (JStr s)"
| "canonical scalar (JId i) = scalar (JId i)"
| "canonical scalar (JDate t) = ''{}''"
  by pat_completeness auto

lemma size_member: "kv \<in> set kvs \<Longrightarrow> size (snd kv) < size (JObj kvs)"
  by (induction kvs) (auto simp: less_Suc_eq)

lemma size_element: "x \<in> set xs \<Longrightarrow> size x < size (JArr xs)"
  by (induction xs) (auto simp: less_Suc_eq)

termination canonical
  by (relation "measure (\<lambda>(scalar, j). size j)") (auto intro: size_member size_element simp del: json.size)

definition request_hash :: "(string \<Rightarrow> string) \<Rightarrow> (json \<Rightarrow> string) \<Rightarrow> oid \<Rightarrow> json \<Rightarrow> string" where
  "request_hash sha scalar workflowId input =
     sha (canonical scalar (JObj [(''workflowId'', JStr (show_nat workflowId)), (''input'', input)]))"

section \<open>Executions\<close>

definition find_workflow :: "user \<Rightarrow> oid \<Rightarrow> workflow list \<Rightarrow> workflow option" where
  "find_workflow u i ws = List.find (\<lambda>w. w_id w = i \<and> ownerScope u (w_ownerId w)) ws"

text \<open>An absent or empty key is falsy.\<close>

definition truthy :: "string option \<Rightarrow> bool" where
  "truthy k \<longleftrightarrow> (case k of None \<Rightarrow> False | Some s \<Rightarrow> s \<noteq> [])"

definition run :: "(string \<Rightarrow> string) \<Rightarrow> (json \<Rightarrow> string) \<Rightarrow> 'q deps \<Rightarrow> user \<Rightarrow> oid \<Rightarrow> json \<Rightarrow> string option \<Rightarrow> time
    \<Rightarrow> workflow list \<Rightarrow> 'q world \<Rightarrow> ((execution \<times> bool) \<times> 'q world) result" where
  "run sha scalar dp u workflowId input idempotencyKey now ws w =
     (case find_workflow u workflowId ws of
        None \<Rightarrow> Inl (NotFoundError ''NOT_FOUND'')
      | Some wfl \<Rightarrow>
          let requestHash = (if truthy idempotencyKey then Some (request_hash sha scalar workflowId input) else None) in
          case startExecution dp wfl \<lparr>sp_input = input, sp_triggeredBy = Some (u_id u), sp_trigger = Manual,
                 sp_idempotencyKey = idempotencyKey, sp_requestHash = requestHash\<rparr> now w of
            Inr (e, w') \<Rightarrow> Inr ((e, False), w')
          | Inl err \<Rightarrow>
              if \<not> (truthy idempotencyKey \<and> err = DuplicateKey IxIdempotency) then Inl err
              else case List.find (\<lambda>e. e_triggeredBy e = Some (u_id u) \<and> e_idempotencyKey e = idempotencyKey) (executions (fst w)) of
                     None \<Rightarrow> Inl NullDereference
                   | Some existing \<Rightarrow>
                       if e_requestHash existing \<noteq> requestHash then Inl (AppError 422 ''IDEMPOTENCY_KEY_REUSED'')
                       else Inr ((existing, True), w))"

datatype action = Pause | Resume | Cancel

definition visible_execution :: "user \<Rightarrow> oid \<Rightarrow> db \<Rightarrow> execution option" where
  "visible_execution u i db = List.find (\<lambda>e. e_id e = i \<and> ownerScope u (e_ownerId e)) (executions db)"

definition control :: "'q deps \<Rightarrow> user \<Rightarrow> oid \<Rightarrow> action \<Rightarrow> time \<Rightarrow> 'q world \<Rightarrow> (execution option \<times> 'q world) result" where
  "control dp u executionId act now w =
     (case visible_execution u executionId (fst w) of
        None \<Rightarrow> Inl (NotFoundError ''NOT_FOUND'')
      | Some e \<Rightarrow>
          bind_result
            (case act of
               Pause \<Rightarrow> bind_result (pauseExecution dp (e_id e) now (fst w)) (\<lambda>(b, db). Inr (b, db, snd w))
             | Resume \<Rightarrow> resumeExecution dp (e_id e) now w
             | Cancel \<Rightarrow> bind_result (cancelExecution dp (e_id e) now (fst w)) (\<lambda>(b, db). Inr (b, db, snd w))) (\<lambda>(changed, w').
          if \<not> changed then Inl (AppError 409 ''INVALID_STATE'')
          else Inr (find_execution (e_id e) (fst w'), w')))"

definition get_execution :: "user \<Rightarrow> oid \<Rightarrow> db \<Rightarrow> (execution \<times> task list) result" where
  "get_execution u executionId db =
     (case visible_execution u executionId db of
        None \<Rightarrow> Inl (NotFoundError ''NOT_FOUND'')
      | Some e \<Rightarrow> Inr (e, sort_key t_id (filter (\<lambda>t. t_executionId t = e_id e) (tasks db))))"

section \<open>Workflow definitions\<close>

definition assertValidGraph :: "task_def list \<Rightarrow> unit result" where
  "assertValidGraph ts = bind_result (validateDag ts) (\<lambda>r.
     if valid r then Inr () else Inl (ValidationError ''INVALID_WORKFLOW_GRAPH''))"

definition create :: "user \<Rightarrow> oid \<Rightarrow> string \<Rightarrow> string \<Rightarrow> task_def list \<Rightarrow> workflow list \<Rightarrow> (workflow \<times> workflow list) result" where
  "create u new_id name description ts ws =
     bind_result (assertValidGraph ts) (\<lambda>_.
       let wfl = \<lparr>w_id = new_id, w_ownerId = u_id u, w_name = name, w_description = description, w_tasks = ts,
                  w_version = 1, w_schedule = None\<rparr>
       in Inr (wfl, ws @ [wfl]))"

text \<open>The dry run.\<close>

definition analyse :: "task_def list \<Rightarrow> dag_result result" where
  "analyse ts = validateDag ts"

definition list_workflows :: "user \<Rightarrow> nat \<Rightarrow> nat \<Rightarrow> workflow list \<Rightarrow> workflow list \<times> nat" where
  "list_workflows u limit page ws =
     (let visible = filter (\<lambda>w. ownerScope u (w_ownerId w)) ws in
      (limited limit (drop ((page - 1) * limit) (rev visible)), length visible))"

definition get_workflow :: "user \<Rightarrow> oid \<Rightarrow> workflow list \<Rightarrow> workflow result" where
  "get_workflow u i ws =
     (case find_workflow u i ws of None \<Rightarrow> Inl (NotFoundError ''NOT_FOUND'') | Some w \<Rightarrow> Inr w)"

text \<open>\<open>findOneAndUpdate\<close> on an owned workflow, returning the new document.\<close>

definition update_owned :: "user \<Rightarrow> oid \<Rightarrow> (workflow \<Rightarrow> bool) \<Rightarrow> (workflow \<Rightarrow> workflow) \<Rightarrow> workflow list \<Rightarrow> workflow option \<times> workflow list" where
  "update_owned u i P f ws =
     (let Q = (\<lambda>w. w_id w = i \<and> ownerScope u (w_ownerId w) \<and> P w) in
      (map_option f (List.find Q ws), update_where Q f ws))"

definition setSchedule :: "(string \<Rightarrow> bool) \<Rightarrow> (string \<Rightarrow> string \<Rightarrow> bool) \<Rightarrow> cron_next \<Rightarrow> user \<Rightarrow> oid \<Rightarrow> string \<Rightarrow> string \<Rightarrow> bool \<Rightarrow> json \<Rightarrow> time
    \<Rightarrow> workflow list \<Rightarrow> (workflow \<times> workflow list) result" where
  "setSchedule known_zone parses next_run u i cron timezone enabled input now ws =
     bind_result (assertValidCron known_zone parses cron timezone) (\<lambda>_.
       case next_run cron now timezone of
         None \<Rightarrow> Inl (PlainError ''cron'')
       | Some nxt \<Rightarrow>
           let sch = \<lparr>s_cron = cron, s_timezone = timezone, s_enabled = enabled, s_input = input, s_nextRunAt = nxt,
                      s_lastRunAt = None, s_lastError = None\<rparr> in
           case update_owned u i (\<lambda>_. True) (\<lambda>w. w\<lparr>w_schedule := Some sch\<rparr>) ws of
             (None, ws') \<Rightarrow> Inl (NotFoundError ''NOT_FOUND'')
           | (Some w, ws') \<Rightarrow> Inr (w, ws'))"

definition clearSchedule :: "user \<Rightarrow> oid \<Rightarrow> workflow list \<Rightarrow> (workflow \<times> workflow list) result" where
  "clearSchedule u i ws =
     (case update_owned u i (\<lambda>_. True) (\<lambda>w. w\<lparr>w_schedule := None\<rparr>) ws of
        (None, ws') \<Rightarrow> Inl (NotFoundError ''NOT_FOUND'')
      | (Some w, ws') \<Rightarrow> Inr (w, ws'))"

definition update :: "user \<Rightarrow> oid \<Rightarrow> int \<Rightarrow> string \<Rightarrow> string \<Rightarrow> task_def list \<Rightarrow> workflow list \<Rightarrow> (workflow \<times> workflow list) result" where
  "update u i version name description ts ws =
     bind_result (assertValidGraph ts) (\<lambda>_.
       case update_owned u i (\<lambda>w. w_version w = version)
              (\<lambda>w. w\<lparr>w_name := name, w_description := description, w_tasks := ts, w_version := w_version w + 1\<rparr>) ws of
         (Some w, ws') \<Rightarrow> Inr (w, ws')
       | (None, ws') \<Rightarrow>
           (case find_workflow u i ws' of
              None \<Rightarrow> Inl (NotFoundError ''NOT_FOUND'')
            | Some w \<Rightarrow> Inl (ConflictError ''VERSION_CONFLICT'')))"

section \<open>Approvals\<close>

text \<open>\<open>GET /approvals\<close>, newest first, and \<open>GET /approvals/:id\<close>.\<close>

definition list_approvals :: "user option \<Rightarrow> approval_status option \<Rightarrow> db \<Rightarrow> approval list result" where
  "list_approvals usr status db =
     bind_result (requirePermission WORKFLOW_READ usr) (\<lambda>_.
       Inr (take 100 (rev (filter (\<lambda>p. (case usr of None \<Rightarrow> False | Some u \<Rightarrow> ownerScope u (p_ownerId p))
              \<and> (case status of None \<Rightarrow> True | Some s \<Rightarrow> p_status p = s)) (approvals db)))))"

definition get_approval :: "user option \<Rightarrow> oid \<Rightarrow> db \<Rightarrow> approval result" where
  "get_approval usr i db =
     bind_result (requirePermission WORKFLOW_READ usr) (\<lambda>_.
       case List.find (\<lambda>p. p_id p = i \<and> (case usr of None \<Rightarrow> False | Some u \<Rightarrow> ownerScope u (p_ownerId p))) (approvals db) of
         None \<Rightarrow> Inl (NotFoundError ''NOT_FOUND'')
       | Some p \<Rightarrow> Inr p)"

text \<open>\<open>POST /approvals/:id/approve\<close> and \<open>/reject\<close>.\<close>

definition decide :: "'q deps \<Rightarrow> user \<Rightarrow> oid \<Rightarrow> bool \<Rightarrow> string option \<Rightarrow> time \<Rightarrow> 'q world \<Rightarrow> (approval option \<times> 'q world) result" where
  "decide dp u i approve comment now w =
     bind_result (requirePermission APPROVAL_DECIDE (Some u)) (\<lambda>_.
       let scope = (\<lambda>p. ownerScope u (p_ownerId p)) in
       case List.find (\<lambda>p. p_id p = i \<and> scope p) (approvals (fst w)) of
         None \<Rightarrow> Inl (NotFoundError ''NOT_FOUND'')
       | Some p \<Rightarrow>
           if p_status p \<noteq> P_PENDING then Inl (ConflictError ''ALREADY_DECIDED'')
           else bind_result (resolveApproval dp (p_id p) (if approve then P_APPROVED else P_REJECTED) (Some (u_id u)) comment scope now w)
                  (\<lambda>(outcome, w'). if outcome = None then Inl (ConflictError ''ALREADY_DECIDED'')
                                  else Inr (List.find (\<lambda>p. p_id p = i) (approvals (fst w')), w')))"

end
