(* ===== verification/Wf_Services_Correct.thy ===== *)
theory Wf_Services_Correct
  imports Wf_Services "HOL-Library.Multiset"
begin

text \<open>
  Properties of the services: a request hash that ignores the order of keys, runs started at most once
  per idempotency key, workflows isolated per owner, only valid graphs stored, and edits that never
  overwrite one another.
\<close>

section \<open>Canonical form\<close>

text \<open>Two JSON values are the same request body if they differ only in the order of object keys, at any
  depth.\<close>

inductive same_json :: "json \<Rightarrow> json \<Rightarrow> bool" where
  same_refl: "same_json j j"
| same_elements: "list_all2 same_json xs ys \<Longrightarrow> same_json (JArr xs) (JArr ys)"
| same_members: "list_all2 (\<lambda>a b. fst a = fst b \<and> same_json (snd a) (snd b)) kvs kvs' \<Longrightarrow> same_json (JObj kvs) (JObj kvs')"
| same_order: "distinct (map fst kvs) \<Longrightarrow> mset kvs' = mset kvs \<Longrightarrow> same_json (JObj kvs) (JObj kvs')"
| same_trans: "same_json i j \<Longrightarrow> same_json j k \<Longrightarrow> same_json i k"

lemma sort_key_rel:
  assumes "list_all2 Q xs ys" "\<And>a b. Q a b \<Longrightarrow> fst a = fst b"
  shows "list_all2 Q (sort_key fst xs) (sort_key fst ys)"
proof -
  have ins: "list_all2 Q (insort_key fst x xs) (insort_key fst y ys)" if "list_all2 Q xs ys" "Q x y" for x y xs ys
    using that(1) by (induction rule: list_all2_induct) (use that(2) assms(2) in auto)
  show ?thesis using assms(1) by (induction rule: list_all2_induct) (auto simp: ins)
qed

lemma sort_key_unique:
  assumes "distinct (map fst xs)" "mset ys = mset xs"
  shows "sort_key fst xs = sort_key fst ys"
proof (rule map_sorted_distinct_set_unique[of fst])
  have "set ys = set xs" using assms(2) by (metis set_mset_mset)
  then show "set (sort_key fst xs) = set (sort_key fst ys)" "inj_on fst (set (sort_key fst xs) \<union> set (sort_key fst ys))"
    using assms(1) by (simp_all add: distinct_map)
  show "distinct (map fst (sort_key fst xs))" using assms(1) by (simp add: distinct_map)
  show "distinct (map fst (sort_key fst ys))"
    using assms by (metis distinct_map distinct_sort mset_eq_imp_distinct_iff set_mset_mset set_sort)
qed simp_all

lemma canonical_same: "same_json j j' \<Longrightarrow> canonical scalar j = canonical scalar j'"
proof (induction rule: same_json.induct)
  case (same_elements xs ys)
  then have "map (canonical scalar) xs = map (canonical scalar) ys"
    by (auto simp: list_all2_conv_all_nth intro: nth_equalityI)
  then show ?case by simp
next
  case (same_members kvs kvs')
  let ?Q = "\<lambda>a b. fst a = fst b \<and> canonical scalar (snd a) = canonical scalar (snd b)"
  have "list_all2 ?Q kvs kvs'" using same_members by (rule list_all2_mono) simp
  then have "list_all2 ?Q (sort_key fst kvs) (sort_key fst kvs')" by (rule sort_key_rel) simp
  then have "map (\<lambda>kv. scalar (JStr (fst kv)) @ '':'' @ canonical scalar (snd kv)) (sort_key fst kvs)
      = map (\<lambda>kv. scalar (JStr (fst kv)) @ '':'' @ canonical scalar (snd kv)) (sort_key fst kvs')"
    by (auto simp: list_all2_conv_all_nth intro: nth_equalityI)
  then show ?case by simp
next
  case (same_order kvs kvs')
  then show ?case using sort_key_unique[of kvs kvs'] by simp
qed simp_all

text \<open>The hash of a request ignores the order of object keys, at every depth: two bodies that
  differ only in it are the same request.\<close>

theorem request_hash_ignores_key_order:
  "same_json input input' \<Longrightarrow> request_hash sha scalar i input = request_hash sha scalar i input'"
proof -
  assume "same_json input input'"
  then have "same_json (JObj [(''workflowId'', JStr (show_nat i)), (''input'', input)])
      (JObj [(''workflowId'', JStr (show_nat i)), (''input'', input')])"
    by (intro same_members) (simp add: same_refl)
  then show ?thesis unfolding request_hash_def by (simp only: canonical_same)
qed

theorem request_hash_ignores_key_order_witness:
  "request_hash (\<lambda>s. s) (\<lambda>_. ''x'') 1 (JArr [JObj [(''a'', JNull), (''b'', JBool True)]])
   = request_hash (\<lambda>s. s) (\<lambda>_. ''x'') 1 (JArr [JObj [(''b'', JBool True), (''a'', JNull)]])"
  by (rule request_hash_ignores_key_order) (simp add: same_elements same_order add_mset_commute)

section \<open>Idempotent requests\<close>

lemma startExecution_taken:
  assumes "reachable D w" "w_tasks wfl \<noteq> []" "is_dag (w_tasks wfl)" "\<forall>t \<in> set (w_tasks wfl). d_dependsOn t \<noteq> None"
    "e \<in> set (executions (fst w))" "e_triggeredBy e = sp_triggeredBy sp" "e_idempotencyKey e = sp_idempotencyKey sp"
    "sp_idempotencyKey sp \<noteq> None"
  shows "startExecution dp wfl sp now w = Inl (DuplicateKey IxIdempotency)"
proof -
  have "idempotency_taken sp (fst w)" using assms(5-8) by (auto simp: idempotency_taken_def)
  then show ?thesis by (rule startExecution_behaviour_parts(3)[OF assms(1-4)])
qed

lemma find_by_key:
  assumes "reachable D w" "e \<in> set (executions (fst w))" "e_triggeredBy e = u" "e_idempotencyKey e = Some k"
  shows "List.find (\<lambda>e. e_triggeredBy e = u \<and> e_idempotencyKey e = Some k) (executions (fst w)) = Some e" (is "?f = _")
proof -
  have inv: "keys_unique (fst w)" "db_ok (fst w)"
    using run_keys.reach_inv[OF assms(1)] engine.reach_inv[OF assms(1)] by (auto simp: db_inv_def)
  have "?f \<noteq> None" using assms(2-4) unfolding find_None_iff_all by auto
  then obtain e' where e': "?f = Some e'" by auto
  then have "e' \<in> set (executions (fst w))" "e_triggeredBy e' = u" "e_idempotencyKey e' = Some k"
    by (auto simp: find_Some_iff)
  then have "e' = e" using keys_unique_eq[OF inv assms(2), of e'] assms(3,4) by simp
  then show ?thesis using e' by simp
qed

lemma run_taken:
  assumes "reachable D w" "find_workflow u i ws = Some wfl" "w_tasks wfl \<noteq> []" "is_dag (w_tasks wfl)"
    "\<forall>t \<in> set (w_tasks wfl). d_dependsOn t \<noteq> None"
    "e \<in> set (executions (fst w))" "e_triggeredBy e = Some (u_id u)" "e_idempotencyKey e = Some k" "k \<noteq> []"
  shows "run sha scalar dp u i input (Some k) now ws w =
    (if e_requestHash e = Some (request_hash sha scalar i input) then Inr ((e, True), w)
     else Inl (AppError 422 ''IDEMPOTENCY_KEY_REUSED''))"
proof -
  let ?sp = "\<lparr>sp_input = input, sp_triggeredBy = Some (u_id u), sp_trigger = Manual, sp_idempotencyKey = Some k,
     sp_requestHash = Some (request_hash sha scalar i input)\<rparr>"
  have "startExecution dp wfl ?sp now w = Inl (DuplicateKey IxIdempotency)"
    by (rule startExecution_taken[OF assms(1,3,4,5,6)]) (simp_all add: assms(7,8))
  then show ?thesis using assms(2,9) find_by_key[OF assms(1,6,7,8)]
    by (simp add: run_def truthy_def)
qed

lemma run_first:
  assumes "D dp" "find_workflow u i ws = Some wfl" "w_tasks wfl \<noteq> []" "k \<noteq> []"
    "run sha scalar dp u i input (Some k) now ws w = Inr ((e, False), w')"
  shows "(engine_step D)\<^sup>*\<^sup>* w w' \<and>
    (e_id e, Some (u_id u), Some k, Some (request_hash sha scalar i input)) \<in> set (start_keys (fst w'))"
proof -
  let ?sp = "\<lparr>sp_input = input, sp_triggeredBy = Some (u_id u), sp_trigger = Manual, sp_idempotencyKey = Some k,
     sp_requestHash = Some (request_hash sha scalar i input)\<rparr>"
  have st: "startExecution dp wfl ?sp now w = Inr (e, w')"
    using assms(2,4,5) by (auto simp: run_def truthy_def Let_def split: sum.splits if_splits option.splits)
  note startExecution_steps[where D = D and dp = dp, OF assms(1,3) st]
  moreover note startExecution_key[where D = D and dp = dp, OF assms(1) st]
  ultimately show ?thesis by (simp add: start_key_def)
qed

text \<open>C23: idempotent requests. After a request with an idempotency key started a run, and whatever the
  engine did since, a request of the same user with that key never starts another run: if it is the same
  request it gets the run of the first one, as it is now, with the mark that it was replayed; if it is a
  different request it is refused with 422; the database is not changed in either case.\<close>

theorem run_idempotent:
  assumes "reachable D w" "D dp" "find_workflow u i ws = Some wfl" "w_tasks wfl \<noteq> []" "k \<noteq> []"
    "run sha scalar dp u i input (Some k) now ws w = Inr ((e, False), w1)" "(engine_step D)\<^sup>*\<^sup>* w1 w2"
    "find_workflow u i2 ws2 = Some wfl2" "w_tasks wfl2 \<noteq> []" "is_dag (w_tasks wfl2)"
    "\<forall>t \<in> set (w_tasks wfl2). d_dependsOn t \<noteq> None"
  shows "\<exists>e2. e2 \<in> set (executions (fst w2)) \<and> e_id e2 = e_id e
     \<and> run sha scalar dp2 u i2 input2 (Some k) now2 ws2 w2 =
        (if request_hash sha scalar i input = request_hash sha scalar i2 input2 then Inr ((e2, True), w2)
         else Inl (AppError 422 ''IDEMPOTENCY_KEY_REUSED''))"
proof -
  note first = run_first[where D = D and dp = dp, OF assms(2-6)]
  have r: "reachable D w2"
    using reach_rtranclp[OF assms(1)] first assms(7) by (meson rtranclp_trans)
  have "(e_id e, Some (u_id u), Some k, Some (request_hash sha scalar i input)) \<in> set (start_keys (fst w2))"
    using start_keys_persist[OF assms(7)] first by blast
  then obtain e2 where e2: "e2 \<in> set (executions (fst w2))" "e_id e2 = e_id e" "e_triggeredBy e2 = Some (u_id u)"
      "e_idempotencyKey e2 = Some k" "e_requestHash e2 = Some (request_hash sha scalar i input)"
    by (auto simp: start_keys_def start_key_def)
  show ?thesis
    using run_taken[where dp = dp2 and sha = sha and scalar = scalar and input = input2 and now = now2,
        OF r assms(8-11) e2(1,3,4) assms(5)] e2 by (intro exI[of _ e2]) simp
qed

section \<open>Workflow definitions\<close>

lemma assertValidGraph_iff:
  "assertValidGraph ts = (if is_dag ts then Inr () else Inl (ValidationError ''INVALID_WORKFLOW_GRAPH''))"
proof (cases rule: validateDag_cases[of ts])
  case (acyclic ord lvls m)
  then have "is_dag ts" using topological_no_cycle[of ts ord] by (auto simp: is_dag_def kahn_inv_def)
  then show ?thesis using acyclic by (simp add: assertValidGraph_def)
qed (auto simp: assertValidGraph_def is_dag_def)

text \<open>What a user sees of the collection, and what is hidden from them.\<close>

definition own :: "user \<Rightarrow> workflow list \<Rightarrow> workflow list" where
  "own u ws = filter (\<lambda>w. ownerScope u (w_ownerId w)) ws"

definition hidden :: "user \<Rightarrow> workflow list \<Rightarrow> workflow list" where
  "hidden u ws = filter (\<lambda>w. \<not> ownerScope u (w_ownerId w)) ws"

lemma find_filter_same: "(\<And>x. P x \<Longrightarrow> Q x) \<Longrightarrow> List.find P (filter Q xs) = List.find P xs"
  by (induction xs) auto

lemma find_workflow_own: "find_workflow u i (own u ws) = find_workflow u i ws"
  unfolding find_workflow_def own_def by (rule find_filter_same) simp

lemma update_owned_own:
  assumes "\<And>w. w_ownerId (f w) = w_ownerId w"
  shows "update_owned u i P f (own u ws) = apsnd (own u) (update_owned u i P f ws)"
    "hidden u (snd (update_owned u i P f ws)) = hidden u ws"
    "set (snd (update_owned u i P f ws)) \<subseteq> set ws \<union> f ` {w \<in> set ws. P w}"
proof -
  have "List.find (\<lambda>w. w_id w = i \<and> ownerScope u (w_ownerId w) \<and> P w) (own u ws)
      = List.find (\<lambda>w. w_id w = i \<and> ownerScope u (w_ownerId w) \<and> P w) ws"
    unfolding own_def by (rule find_filter_same) simp
  then show "update_owned u i P f (own u ws) = apsnd (own u) (update_owned u i P f ws)"
    by (simp add: update_owned_def Let_def own_def filter_update_where assms)
  show "hidden u (snd (update_owned u i P f ws)) = hidden u ws"
    unfolding update_owned_def Let_def hidden_def snd_conv
    by (subst filter_update_where) (auto simp: assms intro!: update_where_False)
  show "set (snd (update_owned u i P f ws)) \<subseteq> set ws \<union> f ` {w \<in> set ws. P w}"
    by (auto simp: update_owned_def Let_def set_update_where)
qed

text \<open>The result of an operation with the collection cut down to what the user sees.\<close>

definition seen :: "user \<Rightarrow> ('a \<times> workflow list) result \<Rightarrow> ('a \<times> workflow list) result" where
  "seen u r = map_sum id (apsnd (own u)) r"

lemma seen_simps [simp]: "seen u (Inl e) = Inl e" "seen u (Inr (x, ws)) = Inr (x, own u ws)"
  by (simp_all add: seen_def)

lemma seen_bind: "seen u (bind_result r g) = bind_result r (\<lambda>x. seen u (g x))"
  by (cases r) (simp_all)

text \<open>The writes of the workflow service, by a user, with a fresh identifier for a new document.\<close>

inductive workflow_edit :: "user \<Rightarrow> workflow list \<Rightarrow> workflow list \<Rightarrow> bool" where
  edit_create: "create u new_id nm ds ts ws = Inr (w, ws') \<Longrightarrow> new_id \<notin> w_id ` set ws \<Longrightarrow> workflow_edit u ws ws'"
| edit_update: "update u i v nm ds ts ws = Inr (w, ws') \<Longrightarrow> workflow_edit u ws ws'"
| edit_schedule: "setSchedule known_zone parses next_run u i cron tz en inp now ws = Inr (w, ws') \<Longrightarrow> workflow_edit u ws ws'"
| edit_clear: "clearSchedule u i ws = Inr (w, ws') \<Longrightarrow> workflow_edit u ws ws'"

text \<open>Every write is an insertion of a valid workflow of the user or a rewrite of one that keeps the
  owner and the identifier, stores a valid graph and never lowers the version.\<close>

definition keeps_valid :: "workflow \<Rightarrow> workflow \<Rightarrow> bool" where
  "keeps_valid w w' \<longleftrightarrow> w_id w' = w_id w \<and> w_ownerId w' = w_ownerId w \<and> w_version w \<le> w_version w'
     \<and> (is_dag (w_tasks w) \<longrightarrow> is_dag (w_tasks w')) \<and> (w_tasks w' \<noteq> w_tasks w \<longrightarrow> w_version w < w_version w')"

lemma workflow_edit_cases:
  assumes "workflow_edit u ws ws'"
  obtains (new) w where "ws' = ws @ [w]" "w_ownerId w = u_id u" "is_dag (w_tasks w)" "w_id w \<notin> w_id ` set ws" "w_version w = 1"
  | (changed) i P f where "ws' = snd (update_owned u i P f ws)" "\<And>w. keeps_valid w (f w)"
  using assms
proof cases
  case (edit_create n nm ds ts w)
  then show ?thesis by (intro new[of w])
      (auto simp: create_def assertValidGraph_iff Let_def elim!: bind_result_InrE split: if_splits)
next
  case (edit_update i v nm ds ts w)
  then have "is_dag ts" "ws' = snd (update_owned u i (\<lambda>w. w_version w = v)
      (\<lambda>w. w\<lparr>w_name := nm, w_description := ds, w_tasks := ts, w_version := w_version w + 1\<rparr>) ws)"
    by (auto simp: update_def assertValidGraph_iff elim!: bind_result_InrE split: if_splits prod.splits option.splits)
  then show ?thesis by (intro changed) (auto simp: keeps_valid_def)
next
  case (edit_schedule kz ps nr i cron tz en inp now w)
  then have "\<exists>sch. ws' = snd (update_owned u i (\<lambda>_. True) (\<lambda>w. w\<lparr>w_schedule := Some sch\<rparr>) ws)"
    by (auto simp: setSchedule_def Let_def elim!: bind_result_InrE split: prod.splits option.splits intro: sndI[symmetric])
  then obtain sch where "ws' = snd (update_owned u i (\<lambda>_. True) (\<lambda>w. w\<lparr>w_schedule := Some sch\<rparr>) ws)" by blast
  then show ?thesis by (rule changed) (auto simp: keeps_valid_def)
next
  case (edit_clear i w)
  then have "ws' = snd (update_owned u i (\<lambda>_. True) (\<lambda>w. w\<lparr>w_schedule := None\<rparr>) ws)"
    by (auto simp: clearSchedule_def split: prod.splits option.splits)
  then show ?thesis by (rule changed) (auto simp: keeps_valid_def)
qed

lemma workflow_edit_hidden: "workflow_edit u ws ws' \<Longrightarrow> hidden u ws' = hidden u ws"
proof (erule workflow_edit_cases)
  show "hidden u ws' = hidden u ws" if "ws' = ws @ [w]" "w_ownerId w = u_id u" for w
    using that by (simp add: hidden_def ownerScope_def)
  show "hidden u ws' = hidden u ws" if "ws' = snd (update_owned u i P f ws)" "\<And>w. keeps_valid w (f w)" for i P f
    using that by (simp add: keeps_valid_def update_owned_own(2))
qed

lemma seen_option:
  "seen u (case p of (None, ws) \<Rightarrow> Inl e | (Some w, ws) \<Rightarrow> Inr (w, ws)) =
   (case apsnd (own u) p of (None, ws) \<Rightarrow> Inl e | (Some w, ws) \<Rightarrow> Inr (w, ws))"
  by (auto split: prod.splits option.splits)

text \<open>C24: owners are isolated. Everything a user gets from the workflow service, results and errors
  alike, is a function of the workflows they may see: an operation on the whole collection answers as on
  the part that is theirs and has the same effect on it. No write changes a workflow hidden from
  the user, and a run or an approval of someone else is answered as one that does not exist.\<close>

theorem workflows_isolated:
  "get_workflow u i ws = get_workflow u i (own u ws)
   \<and> list_workflows u limit page ws = list_workflows u limit page (own u ws)
   \<and> seen u (create u new_id nm ds ts ws) = create u new_id nm ds ts (own u ws)
   \<and> seen u (update u i v nm ds ts ws) = update u i v nm ds ts (own u ws)
   \<and> seen u (setSchedule known_zone parses next_run u i cron tz en inp now ws) =
       setSchedule known_zone parses next_run u i cron tz en inp now (own u ws)
   \<and> seen u (clearSchedule u i ws) = clearSchedule u i (own u ws)
   \<and> (workflow_edit u ws ws' \<longrightarrow> hidden u ws' = hidden u ws)
   \<and> ((\<forall>e \<in> set (executions (fst w)). e_id e = i \<longrightarrow> \<not> ownerScope u (e_ownerId e)) \<longrightarrow>
        get_execution u i (fst w) = Inl (NotFoundError ''NOT_FOUND'') \<and> control dp u i act now w = Inl (NotFoundError ''NOT_FOUND''))
   \<and> (requirePermission APPROVAL_DECIDE (Some u) = Inr () \<longrightarrow>
        (\<forall>p \<in> set (approvals (fst w)). p_id p = i \<longrightarrow> \<not> ownerScope u (p_ownerId p)) \<longrightarrow>
        decide dp u i b cm now w = Inl (NotFoundError ''NOT_FOUND''))"
proof (intro conjI)
  show "get_workflow u i ws = get_workflow u i (own u ws)" by (simp add: get_workflow_def find_workflow_own)
  show "list_workflows u limit page ws = list_workflows u limit page (own u ws)"
    by (simp add: list_workflows_def own_def)
  show "seen u (create u new_id nm ds ts ws) = create u new_id nm ds ts (own u ws)"
    by (simp add: create_def assertValidGraph_iff Let_def own_def ownerScope_def)
  show "seen u (update u i v nm ds ts ws) = update u i v nm ds ts (own u ws)"
    by (auto simp: update_def assertValidGraph_iff update_owned_own find_workflow_own split: prod.splits option.splits)
  show "seen u (setSchedule known_zone parses next_run u i cron tz en inp now ws) =
       setSchedule known_zone parses next_run u i cron tz en inp now (own u ws)"
    by (auto simp: setSchedule_def seen_bind seen_option update_owned_own Let_def intro!: arg_cong[of _ _ "bind_result _"] split: option.splits)
  show "seen u (clearSchedule u i ws) = clearSchedule u i (own u ws)"
    by (simp add: clearSchedule_def seen_option update_owned_own)
  show "workflow_edit u ws ws' \<longrightarrow> hidden u ws' = hidden u ws" by (simp add: workflow_edit_hidden)
  show "(\<forall>e \<in> set (executions (fst w)). e_id e = i \<longrightarrow> \<not> ownerScope u (e_ownerId e)) \<longrightarrow>
      get_execution u i (fst w) = Inl (NotFoundError ''NOT_FOUND'') \<and> control dp u i act now w = Inl (NotFoundError ''NOT_FOUND'')"
  proof
    assume "\<forall>e \<in> set (executions (fst w)). e_id e = i \<longrightarrow> \<not> ownerScope u (e_ownerId e)"
    then have "visible_execution u i (fst w) = None" by (auto simp: visible_execution_def find_None_iff_all)
    then show "get_execution u i (fst w) = Inl (NotFoundError ''NOT_FOUND'') \<and> control dp u i act now w = Inl (NotFoundError ''NOT_FOUND'')"
      by (simp add: get_execution_def control_def)
  qed
  show "requirePermission APPROVAL_DECIDE (Some u) = Inr () \<longrightarrow>
        (\<forall>p \<in> set (approvals (fst w)). p_id p = i \<longrightarrow> \<not> ownerScope u (p_ownerId p)) \<longrightarrow>
        decide dp u i b cm now w = Inl (NotFoundError ''NOT_FOUND'')"
  proof (intro impI)
    assume p: "requirePermission APPROVAL_DECIDE (Some u) = Inr ()"
      and "\<forall>p \<in> set (approvals (fst w)). p_id p = i \<longrightarrow> \<not> ownerScope u (p_ownerId p)"
    then have "List.find (\<lambda>p. p_id p = i \<and> ownerScope u (p_ownerId p)) (approvals (fst w)) = None"
      by (auto simp: find_None_iff_all)
    then show "decide dp u i b cm now w = Inl (NotFoundError ''NOT_FOUND'')" using p by (simp add: decide_def)
  qed
qed

section \<open>The collection of definitions over time\<close>

text \<open>What happens to the collection: writes of users, and the scheduler moving a schedule on.\<close>

inductive library_step :: "workflow list \<Rightarrow> workflow list \<Rightarrow> bool" where
  lib_edit: "workflow_edit u ws ws' \<Longrightarrow> library_step ws ws'"
| lib_advance: "library_step ws (advance i slot nxt cur le ws)"

definition definitions_ok :: "workflow list \<Rightarrow> bool" where
  "definitions_ok ws \<longleftrightarrow> distinct (map w_id ws) \<and> (\<forall>w \<in> set ws. is_dag (w_tasks w) \<and> 1 \<le> w_version w)"

lemma library_step_cases:
  assumes "library_step ws ws'"
  obtains (new) w where "ws' = ws @ [w]" "is_dag (w_tasks w)" "w_id w \<notin> w_id ` set ws" "w_version w = 1"
  | (changed) f where "ws' = map f ws" "\<And>w. keeps_valid w (f w)"
  using assms
proof cases
  case (lib_edit u)
  then show ?thesis
  proof (cases rule: workflow_edit_cases)
    case (changed i P f)
    let ?Q = "\<lambda>w. w_id w = i \<and> ownerScope u (w_ownerId w) \<and> P w"
    have "ws' = map (\<lambda>w. if ?Q w then f w else w) ws" using changed(1) by (simp add: update_owned_def Let_def update_where_def)
    then show ?thesis by (rule that(2)) (use changed(2) in \<open>auto simp: keeps_valid_def\<close>)
  qed (use new in auto)
next
  case (lib_advance i slot nxt cur le)
  show ?thesis by (rule changed[OF lib_advance[unfolded advance_def update_where_def]])
      (auto simp: keeps_valid_def split: option.splits)
qed

lemma definitions_ok_step: "definitions_ok ws \<Longrightarrow> library_step ws ws' \<Longrightarrow> definitions_ok ws'"
proof (erule library_step_cases)
  show "definitions_ok ws'" if "definitions_ok ws" "ws' = map f ws" "\<And>w. keeps_valid w (f w)" for f
  proof -
    have "map w_id ws' = map w_id ws" using that(2,3) by (simp add: keeps_valid_def)
    then have "distinct (map w_id ws')" using that(1) by (simp add: definitions_ok_def)
    moreover have "is_dag (w_tasks (f w)) \<and> 1 \<le> w_version (f w)" if "w \<in> set ws" for w
      using \<open>definitions_ok ws\<close> \<open>keeps_valid w (f w)\<close> that unfolding definitions_ok_def keeps_valid_def by fastforce
    ultimately show ?thesis unfolding definitions_ok_def by (simp add: that(2))
  qed
qed (auto simp: definitions_ok_def)

interpretation library: invariant_system "\<lambda>ws. ws = []" library_step definitions_ok
  by unfold_locales (simp add: definitions_ok_def, rule definitions_ok_step)

text \<open>Documents stay, and their versions only grow.\<close>

lemma library_versions_step: "library_step ws ws' \<Longrightarrow> w \<in> set ws \<Longrightarrow> \<exists>w' \<in> set ws'. w_id w' = w_id w \<and> w_version w \<le> w_version w'"
  by (erule library_step_cases) (auto simp: keeps_valid_def)

lemma library_versions:
  "library_step\<^sup>*\<^sup>* ws ws' \<Longrightarrow> w \<in> set ws \<Longrightarrow> \<exists>w' \<in> set ws'. w_id w' = w_id w \<and> w_version w \<le> w_version w'"
proof (induction rule: rtranclp_induct)
  case (step ws1 ws2)
  then show ?case using library_versions_step[OF step(2)] by (metis order_trans)
qed auto

lemma update_stale:
  assumes "definitions_ok ws" "w \<in> set ws" "w_id w = i" "w_version w \<noteq> v"
  shows "update u i v nm ds ts ws =
    (if \<not> is_dag ts then Inl (ValidationError ''INVALID_WORKFLOW_GRAPH'')
     else if ownerScope u (w_ownerId w) then Inl (ConflictError ''VERSION_CONFLICT'') else Inl (NotFoundError ''NOT_FOUND''))"
proof -
  have only: "x = w" if "x \<in> set ws" "w_id x = i" for x
    using distinct_map_eqD[of w_id ws x w] assms(1-3) that by (auto simp: definitions_ok_def)
  let ?Q = "\<lambda>w. w_id w = i \<and> ownerScope u (w_ownerId w) \<and> w_version w = v"
  have "List.find ?Q ws = None" using only assms(4) by (auto simp: find_None_iff_all)
  moreover have "update_where ?Q f ws = ws" for f using only assms(4) by (auto intro: update_where_False)
  moreover have "find_workflow u i ws = (if ownerScope u (w_ownerId w) then Some w else None)"
  proof (cases "find_workflow u i ws")
    case None
    then show ?thesis using assms(2,3) by (auto simp: find_workflow_def find_None_iff_all)
  next
    case (Some x)
    then show ?thesis using only[of x] by (auto simp: find_workflow_def find_Some_iff)
  qed
  ultimately show ?thesis by (simp add: update_def assertValidGraph_iff update_owned_def)
qed

lemma update_fresh:
  assumes "definitions_ok ws" "update u i v nm ds ts ws = Inr (w', ws')"
  obtains w where "w \<in> set ws" "w_id w = i" "ownerScope u (w_ownerId w)" "w_version w = v" "is_dag ts"
    "w' = w\<lparr>w_name := nm, w_description := ds, w_tasks := ts, w_version := v + 1\<rparr>"
    "ws' = map (\<lambda>x. if w_id x = i then w' else x) ws"
proof -
  let ?Q = "\<lambda>w. w_id w = i \<and> ownerScope u (w_ownerId w) \<and> w_version w = v"
  let ?f = "\<lambda>w. w\<lparr>w_name := nm, w_description := ds, w_tasks := ts, w_version := w_version w + 1\<rparr>"
  have u: "is_dag ts" "map_option ?f (List.find ?Q ws) = Some w'" "ws' = update_where ?Q ?f ws"
    using assms(2) by (auto simp: update_def assertValidGraph_iff update_owned_def Let_def split: if_splits option.splits)
  then obtain w where w: "List.find ?Q ws = Some w" "w' = ?f w" by auto
  then have m: "w \<in> set ws" "?Q w" by (auto simp: find_Some_iff)
  have only: "x = w" if "x \<in> set ws" "w_id x = i" for x
    using distinct_map_eqD[of w_id ws x w] assms(1) m that by (auto simp: definitions_ok_def)
  have "ws' = map (\<lambda>x. if w_id x = i then w' else x) ws"
    unfolding u(3) update_where_def w(2) using only m by (auto intro!: map_cong)
  then show ?thesis using that[of w] m u(1) w(2) by auto
qed

text \<open>C25: no edit is lost and no invalid graph is stored. Starting from an empty collection, whatever
  users and the scheduler do, every stored workflow has an acyclic task graph and identifiers are
  unique. An update succeeds only on the version it names: it then replaces that one document and raises
  its version by one, and from then on, whatever happens to the collection, every update that names the
  old version is refused, with \<open>VERSION_CONFLICT\<close> for a user who may see the workflow.\<close>

theorem updates_never_lost:
  assumes "reach (\<lambda>ws. ws = []) library_step ws"
  shows "definitions_ok ws
    \<and> (update u i v nm ds ts ws = Inr (w', ws') \<longrightarrow>
        (\<exists>w \<in> set ws. w_id w = i \<and> ownerScope u (w_ownerId w) \<and> w_version w = v \<and> is_dag ts
           \<and> w' = w\<lparr>w_name := nm, w_description := ds, w_tasks := ts, w_version := v + 1\<rparr>
           \<and> ws' = map (\<lambda>x. if w_id x = i then w' else x) ws)
        \<and> (library_step\<^sup>*\<^sup>* ws' ws'' \<longrightarrow>
            (\<exists>w'' \<in> set ws''. w_id w'' = i \<and> update u2 i v nm2 ds2 ts2 ws'' =
               (if \<not> is_dag ts2 then Inl (ValidationError ''INVALID_WORKFLOW_GRAPH'')
                else if ownerScope u2 (w_ownerId w'') then Inl (ConflictError ''VERSION_CONFLICT'')
                else Inl (NotFoundError ''NOT_FOUND'')))))"
proof -
  have ok: "definitions_ok ws" by (rule library.reach_inv[OF assms])
  moreover have "\<exists>w \<in> set ws. w_id w = i \<and> ownerScope u (w_ownerId w) \<and> w_version w = v \<and> is_dag ts
           \<and> w' = w\<lparr>w_name := nm, w_description := ds, w_tasks := ts, w_version := v + 1\<rparr>
           \<and> ws' = map (\<lambda>x. if w_id x = i then w' else x) ws"
    if "update u i v nm ds ts ws = Inr (w', ws')"
    by (rule update_fresh[OF ok that]) blast
  moreover have "\<exists>w'' \<in> set ws''. w_id w'' = i \<and> update u2 i v nm2 ds2 ts2 ws'' =
               (if \<not> is_dag ts2 then Inl (ValidationError ''INVALID_WORKFLOW_GRAPH'')
                else if ownerScope u2 (w_ownerId w'') then Inl (ConflictError ''VERSION_CONFLICT'')
                else Inl (NotFoundError ''NOT_FOUND''))"
    if up: "update u i v nm ds ts ws = Inr (w', ws')" and st: "library_step\<^sup>*\<^sup>* ws' ws''"
  proof -
    obtain w where w: "w \<in> set ws" "w_id w = i" "w' = w\<lparr>w_name := nm, w_description := ds, w_tasks := ts, w_version := v + 1\<rparr>"
        "ws' = map (\<lambda>x. if w_id x = i then w' else x) ws"
      by (rule update_fresh[OF ok up]) blast
    then have "w' \<in> set ws'" "w_id w' = i" "w_version w' = v + 1" by (auto intro!: image_eqI[of _ _ w])
    then obtain w'' where w'': "w'' \<in> set ws''" "w_id w'' = i" "v + 1 \<le> w_version w''"
      using library_versions[OF st] by metis
    have "definitions_ok ws''"
      using library.steps_inv[OF ok] st lib_edit[OF edit_update[OF up]] by (meson converse_rtranclp_into_rtranclp)
    then show ?thesis using update_stale[OF _ w''(1,2), of v] w'' by auto
  qed
  ultimately show ?thesis by blast
qed

text \<open>A collection with one workflow, and an edit of it.\<close>

definition demo_user :: user where
  "demo_user = \<lparr>u_id = 101, u_role = OPERATOR\<rparr>"

definition demo_library :: "workflow list" where
  "demo_library = [\<lparr>w_id = 100, w_ownerId = 101, w_name = ''demo'', w_description = [], w_tasks = w_tasks demo_workflow,
     w_version = 1, w_schedule = None\<rparr>]"

lemma demo_workflow_dag: "is_dag (w_tasks demo_workflow)"
proof -
  have "\<not> isl (assertValidGraph (w_tasks demo_workflow))" by code_simp
  then show ?thesis by (simp add: assertValidGraph_iff split: if_splits)
qed

lemma demo_library_reach: "reach (\<lambda>ws. ws = []) library_step demo_library"
proof (rule reach_step)
  show "reach (\<lambda>ws. ws = []) library_step []" by (rule reach_init) simp
  have "create demo_user 100 ''demo'' [] (w_tasks demo_workflow) [] = Inr (hd demo_library, demo_library)"
    by (simp add: create_def assertValidGraph_iff demo_workflow_dag demo_library_def demo_user_def Let_def)
  then show "library_step [] demo_library" by (auto intro!: lib_edit edit_create)
qed

lemma demo_update: "update demo_user 100 1 ''new'' [] (w_tasks demo_workflow) demo_library =
    Inr ((hd demo_library)\<lparr>w_name := ''new'', w_version := 2\<rparr>, [(hd demo_library)\<lparr>w_name := ''new'', w_version := 2\<rparr>])"
  by (simp add: update_def assertValidGraph_iff demo_workflow_dag update_owned_def demo_library_def demo_user_def ownerScope_def)

theorem updates_never_lost_witness:
  "definitions_ok demo_library \<and> (\<exists>w'' \<in> set [(hd demo_library)\<lparr>w_name := ''new'', w_version := 2\<rparr>].
      w_id w'' = 100 \<and> update demo_user 100 1 ''other'' [] (w_tasks demo_workflow) [(hd demo_library)\<lparr>w_name := ''new'', w_version := 2\<rparr>]
        = Inl (ConflictError ''VERSION_CONFLICT''))"
proof -
  let ?ws = "[(hd demo_library)\<lparr>w_name := ''new'', w_version := 2\<rparr>]"
  have "library_step\<^sup>*\<^sup>* ?ws ?ws" by simp
  then show ?thesis
    using updates_never_lost[where u = demo_user and i = 100 and v = 1 and nm = "''new''" and ds = "[]" and ts = "w_tasks demo_workflow"
        and w' = "hd ?ws" and ws' = ?ws and ws'' = ?ws and ?u2.0 = demo_user and ?nm2.0 = "''other''" and ?ds2.0 = "[]"
        and ?ts2.0 = "w_tasks demo_workflow", OF demo_library_reach]
      demo_update demo_workflow_dag by (auto simp: demo_library_def demo_user_def ownerScope_def)
qed

theorem workflows_isolated_witness:
  "hidden (demo_user\<lparr>u_id := 7\<rparr>) demo_library = demo_library
   \<and> get_workflow (demo_user\<lparr>u_id := 7\<rparr>) 100 demo_library = Inl (NotFoundError ''NOT_FOUND'')
   \<and> get_execution (demo_user\<lparr>u_id := 7\<rparr>) 0 (fst demo1) = Inl (NotFoundError ''NOT_FOUND'')"
proof -
  have "\<forall>e \<in> set (executions (fst demo1)). e_id e = 0 \<longrightarrow> \<not> ownerScope (demo_user\<lparr>u_id := 7\<rparr>) (e_ownerId e)"
    by code_simp
  then show ?thesis
    using workflows_isolated[where u = "demo_user\<lparr>u_id := 7\<rparr>" and i = 100 and ws = demo_library]
      workflows_isolated[where u = "demo_user\<lparr>u_id := 7\<rparr>" and i = 0 and w = demo1 and ws = "[]"]
    by (simp add: hidden_def own_def demo_library_def demo_user_def ownerScope_def get_workflow_def find_workflow_def)
qed

theorem run_idempotent_witness:
  "\<exists>e w. run (\<lambda>s. s) (\<lambda>_. ''x'') demo_deps demo_user 100 (JObj []) (Some ''k'') 0 demo_library (empty_db, ()) = Inr ((e, False), w)
     \<and> (\<exists>e2. e_id e2 = e_id e
          \<and> run (\<lambda>s. s) (\<lambda>_. ''x'') demo_deps demo_user 100 (JObj []) (Some ''k'') 9 demo_library w = Inr ((e2, True), w))"
proof -
  let ?wfl = "hd demo_library"
  have f: "find_workflow demo_user 100 demo_library = Some ?wfl" "w_tasks ?wfl \<noteq> []" "is_dag (w_tasks ?wfl)"
      "\<forall>t \<in> set (w_tasks ?wfl). d_dependsOn t \<noteq> None"
    using demo_workflow_dag
    by (simp_all add: find_workflow_def demo_library_def demo_user_def ownerScope_def demo_workflow_def demo_def_def)
  have r: "reachable (\<lambda>_. True) (empty_db, ())" by (rule reach_init) simp
  let ?sp = "\<lparr>sp_input = JObj [], sp_triggeredBy = Some (u_id demo_user), sp_trigger = Manual, sp_idempotencyKey = Some ''k'',
     sp_requestHash = Some (request_hash (\<lambda>s. s) (\<lambda>_. ''x'') 100 (JObj []))\<rparr>"
  obtain e w where "startExecution demo_deps ?wfl ?sp 0 (empty_db, ()) = Inr (e, w)"
    using startExecution_behaviour_parts(4)[where dp = demo_deps and sp = ?sp and now = 0, OF r f(2-4)]
    by (auto simp: idempotency_taken_def empty_db_def)
  then have run: "run (\<lambda>s. s) (\<lambda>_. ''x'') demo_deps demo_user 100 (JObj []) (Some ''k'') 0 demo_library (empty_db, ()) = Inr ((e, False), w)"
    using f(1) by (simp add: run_def truthy_def Let_def)
  have d: "True" "''k'' \<noteq> []" by simp_all
  from run_idempotent[where D = "\<lambda>_. True" and dp = demo_deps and ?dp2.0 = demo_deps and ?now2.0 = 9 and ?input2.0 = "JObj []",
      OF r d(1) f(1,2) d(2) run rtranclp.rtrancl_refl f]
  show ?thesis using run by auto
qed

end
