(* ===== verification/Wf_Auth.thy ===== *)
theory Wf_Auth
  imports Wf_Access Wf_Text Wf_System "HOL-Library.Countable"
begin

text \<open>
  Accounts and tokens: \<open>src/auth/tokens.js\<close>, \<open>src/services/auth.service.js\<close>,
  \<open>src/middleware/authenticate.js\<close>, the routes that change accounts, and \<open>scripts/create-admin.js\<close>. The
  libraries are parameters: JSON web tokens as \<open>jwt\<close>, bcrypt as \<open>hash\<close> and \<open>compare\<close>. Time is in
  milliseconds; a token is a string that carries its claims and the time it expires.
\<close>

section \<open>Tokens\<close>

record claims =
  cl_sub :: oid
  cl_role :: "string option"
  cl_tv :: "int option"
  cl_type :: string

datatype jwt_result = JwtOk claims | JwtExpired | JwtInvalid

record jwt =
  j_sign :: "claims \<Rightarrow> string \<Rightarrow> time \<Rightarrow> string"
  j_verify :: "string \<Rightarrow> string \<Rightarrow> time \<Rightarrow> jwt_result"

record token_config =
  tc_accessSecret :: string
  tc_refreshSecret :: string
  tc_accessTtl :: int
  tc_refreshTtl :: int

record account =
  ac_id :: oid
  ac_email :: string
  ac_passwordHash :: string
  ac_role :: string
  ac_tokenVersion :: int

definition signAccessToken :: "jwt \<Rightarrow> token_config \<Rightarrow> time \<Rightarrow> account \<Rightarrow> string" where
  "signAccessToken j cfg now u =
     j_sign j \<lparr>cl_sub = ac_id u, cl_role = Some (ac_role u), cl_tv = None, cl_type = ''access''\<rparr> (tc_accessSecret cfg)
       (now + tc_accessTtl cfg)"

definition signRefreshToken :: "jwt \<Rightarrow> token_config \<Rightarrow> time \<Rightarrow> account \<Rightarrow> string" where
  "signRefreshToken j cfg now u =
     j_sign j \<lparr>cl_sub = ac_id u, cl_role = None, cl_tv = Some (ac_tokenVersion u), cl_type = ''refresh''\<rparr> (tc_refreshSecret cfg)
       (now + tc_refreshTtl cfg)"

definition verify :: "jwt \<Rightarrow> time \<Rightarrow> string \<Rightarrow> string \<Rightarrow> string \<Rightarrow> claims result" where
  "verify j now token secret expectedType =
     (case j_verify j token secret now of
        JwtExpired \<Rightarrow> Inl (UnauthorizedError ''TOKEN_EXPIRED'')
      | JwtInvalid \<Rightarrow> Inl (UnauthorizedError ''INVALID_TOKEN'')
      | JwtOk c \<Rightarrow> if cl_type c \<noteq> expectedType then Inl (UnauthorizedError ''INVALID_TOKEN'') else Inr c)"

definition verifyAccessToken :: "jwt \<Rightarrow> token_config \<Rightarrow> time \<Rightarrow> string \<Rightarrow> claims result" where
  "verifyAccessToken j cfg now token = verify j now token (tc_accessSecret cfg) ''access''"

definition verifyRefreshToken :: "jwt \<Rightarrow> token_config \<Rightarrow> time \<Rightarrow> string \<Rightarrow> claims result" where
  "verifyRefreshToken j cfg now token = verify j now token (tc_refreshSecret cfg) ''refresh''"

text \<open>\<open>authenticate\<close>: the user of a request, from its \<open>Authorization\<close> header. A missing role is
  \<open>undefined\<close>, which no table of permissions lists.\<close>

definition split_space :: "string \<Rightarrow> string list" where
  "split_space s = (let (p, r) = (takeWhile (\<lambda>c. c \<noteq> CHR '' '') s, dropWhile (\<lambda>c. c \<noteq> CHR '' '') s) in
     case r of [] \<Rightarrow> [p] | _ # r \<Rightarrow> [p, takeWhile (\<lambda>c. c \<noteq> CHR '' '') r])"

definition authenticate :: "jwt \<Rightarrow> token_config \<Rightarrow> time \<Rightarrow> string option \<Rightarrow> user result" where
  "authenticate j cfg now header =
     (case split_space (case header of None \<Rightarrow> [] | Some h \<Rightarrow> h) of
        [scheme, token] \<Rightarrow>
          if scheme \<noteq> ''Bearer'' \<or> token = [] then Inl (UnauthorizedError ''UNAUTHENTICATED'')
          else bind_result (verifyAccessToken j cfg now token) (\<lambda>c.
                 Inr \<lparr>u_id = cl_sub c, u_role = (case cl_role c of None \<Rightarrow> ''undefined'' | Some r \<Rightarrow> r)\<rparr>)
      | _ \<Rightarrow> Inl (UnauthorizedError ''UNAUTHENTICATED''))"

section \<open>Accounts\<close>

definition find_account :: "oid \<Rightarrow> account list \<Rightarrow> account option" where
  "find_account i us = List.find (\<lambda>u. ac_id u = i) us"

record tokens =
  tk_access :: string
  tk_refresh :: string

definition issueTokens :: "jwt \<Rightarrow> token_config \<Rightarrow> time \<Rightarrow> account \<Rightarrow> tokens" where
  "issueTokens j cfg now u = \<lparr>tk_access = signAccessToken j cfg now u, tk_refresh = signRefreshToken j cfg now u\<rparr>"

text \<open>\<open>User.create\<close>, with the defaults and the unique index of the schema.\<close>

definition create_account :: "oid \<Rightarrow> string \<Rightarrow> string \<Rightarrow> string \<Rightarrow> account list \<Rightarrow> (account \<times> account list) result" where
  "create_account new_id email passwordHash role us =
     (let e = toLowerCase (trim email) in
      if \<exists>u \<in> set us. ac_email u = e then Inl (DuplicateKey IxEmail)
      else let u = \<lparr>ac_id = new_id, ac_email = e, ac_passwordHash = passwordHash, ac_role = role, ac_tokenVersion = 0\<rparr>
           in Inr (u, us @ [u]))"

definition register :: "(string \<Rightarrow> string) \<Rightarrow> oid \<Rightarrow> string \<Rightarrow> string \<Rightarrow> account list \<Rightarrow> (account \<times> account list) result" where
  "register hash new_id email password us =
     (case create_account new_id email (hash password) VIEWER us of
        Inr r \<Rightarrow> Inr r
      | Inl err \<Rightarrow> if err = DuplicateKey IxEmail then Inl (ConflictError ''EMAIL_TAKEN'') else Inl err)"

definition login :: "jwt \<Rightarrow> token_config \<Rightarrow> (string \<Rightarrow> string \<Rightarrow> bool) \<Rightarrow> string \<Rightarrow> time \<Rightarrow> string \<Rightarrow> string \<Rightarrow> account list
    \<Rightarrow> (account \<times> tokens) result" where
  "login j cfg compare dummyHash now email password us =
     (let usr = List.find (\<lambda>u. ac_email u = email) us;
          ok = compare password (case usr of Some u \<Rightarrow> ac_passwordHash u | None \<Rightarrow> dummyHash) in
      case usr of
        None \<Rightarrow> Inl (UnauthorizedError ''INVALID_CREDENTIALS'')
      | Some u \<Rightarrow> if \<not> ok then Inl (UnauthorizedError ''INVALID_CREDENTIALS'') else Inr (u, issueTokens j cfg now u))"

definition refresh :: "jwt \<Rightarrow> token_config \<Rightarrow> time \<Rightarrow> string \<Rightarrow> account list \<Rightarrow> tokens result" where
  "refresh j cfg now refreshToken us =
     bind_result (verifyRefreshToken j cfg now refreshToken) (\<lambda>c.
       case find_account (cl_sub c) us of
         None \<Rightarrow> Inl (UnauthorizedError ''TOKEN_REVOKED'')
       | Some u \<Rightarrow> if Some (ac_tokenVersion u) \<noteq> cl_tv c then Inl (UnauthorizedError ''TOKEN_REVOKED'')
                   else Inr (issueTokens j cfg now u))"

definition logoutAll :: "oid \<Rightarrow> account list \<Rightarrow> account list" where
  "logoutAll i us = update_where (\<lambda>u. ac_id u = i) (\<lambda>u. u\<lparr>ac_tokenVersion := ac_tokenVersion u + 1\<rparr>) us"

definition getUser :: "oid \<Rightarrow> account list \<Rightarrow> account result" where
  "getUser i us = (case find_account i us of None \<Rightarrow> Inl (NotFoundError ''NOT_FOUND'') | Some u \<Rightarrow> Inr u)"

definition changeRole :: "oid \<Rightarrow> oid \<Rightarrow> string \<Rightarrow> account list \<Rightarrow> (account \<times> account list) result" where
  "changeRole actorId targetId role us =
     (if actorId = targetId then Inl (ForbiddenError ''SELF_ROLE_CHANGE'')
      else if role \<notin> {ADMIN, OPERATOR, VIEWER} then Inl (PlainError ''ValidationError'')
      else let f = (\<lambda>u. u\<lparr>ac_role := role, ac_tokenVersion := ac_tokenVersion u + 1\<rparr>) in
           case find_account targetId us of
             None \<Rightarrow> Inl (NotFoundError ''NOT_FOUND'')
           | Some u \<Rightarrow> Inr (f u, update_where (\<lambda>u. ac_id u = targetId) f us))"

text \<open>\<open>scripts/create-admin.js\<close>, with the credentials it read.\<close>

definition create_admin :: "(string \<Rightarrow> string) \<Rightarrow> oid \<Rightarrow> string \<Rightarrow> string \<Rightarrow> account list \<Rightarrow> account list result" where
  "create_admin hash new_id email password us =
     (case List.find (\<lambda>u. ac_email u = email) us of
        Some u \<Rightarrow> Inr (update_where (\<lambda>v. ac_id v = ac_id u) (\<lambda>v. v\<lparr>ac_role := ADMIN, ac_tokenVersion := ac_tokenVersion v + 1\<rparr>) us)
      | None \<Rightarrow> bind_result (create_account new_id email (hash password) ADMIN us) (\<lambda>(u, us). Inr us))"

section \<open>Routes that change accounts\<close>

definition post_logout :: "jwt \<Rightarrow> token_config \<Rightarrow> time \<Rightarrow> string option \<Rightarrow> account list \<Rightarrow> account list result" where
  "post_logout j cfg now header us = bind_result (authenticate j cfg now header) (\<lambda>u. Inr (logoutAll (u_id u) us))"

definition patch_role :: "jwt \<Rightarrow> token_config \<Rightarrow> time \<Rightarrow> string option \<Rightarrow> oid \<Rightarrow> string \<Rightarrow> account list \<Rightarrow> (account \<times> account list) result" where
  "patch_role j cfg now header targetId role us =
     bind_result (authenticate j cfg now header) (\<lambda>u.
     bind_result (requirePermission USER_MANAGE (Some u)) (\<lambda>_.
       changeRole (u_id u) targetId role us))"

section \<open>The system\<close>

text \<open>What the code relies on of the token library: under a secret it accepts exactly the tokens signed
  with that secret, with their claims, until they expire; a token has no space.\<close>

definition jwt_ok :: "jwt \<Rightarrow> bool" where
  "jwt_ok j \<longleftrightarrow> (\<forall>t s now c. j_verify j t s now = JwtOk c \<longleftrightarrow> (\<exists>exp. t = j_sign j c s exp \<and> now < exp))
     \<and> (\<forall>c s e c' s' e'. j_sign j c s e = j_sign j c' s' e' \<longrightarrow> s = s')
     \<and> (\<forall>c s e. j_sign j c s e \<noteq> [] \<and> CHR '' '' \<notin> set (j_sign j c s e))"

text \<open>States are the accounts and the tokens handed out. A client presents what it was given, or anything
  that is not a token under the two secrets.\<close>

type_synonym auth_state = "account list \<times> string set"

definition presentable :: "jwt \<Rightarrow> token_config \<Rightarrow> string set \<Rightarrow> string \<Rightarrow> bool" where
  "presentable j cfg given t \<longleftrightarrow> t \<in> given
     \<or> (\<forall>c exp. t \<noteq> j_sign j c (tc_accessSecret cfg) exp \<and> t \<noteq> j_sign j c (tc_refreshSecret cfg) exp)"

definition header_ok :: "jwt \<Rightarrow> token_config \<Rightarrow> string set \<Rightarrow> string option \<Rightarrow> bool" where
  "header_ok j cfg given h \<longleftrightarrow> (case h of None \<Rightarrow> True | Some h \<Rightarrow> \<forall>t \<in> set (split_space h). presentable j cfg given t)"

inductive auth_step :: "jwt \<Rightarrow> token_config \<Rightarrow> bool \<Rightarrow> auth_state \<Rightarrow> auth_state \<Rightarrow> bool" for j cfg with_script where
  as_register: "register hash new_id email password us = Inr (u, us') \<Longrightarrow> new_id \<notin> ac_id ` set us \<Longrightarrow>
     auth_step j cfg with_script (us, given) (us', given)"
| as_login: "login j cfg compare dummy now email password us = Inr (u, tk) \<Longrightarrow>
     auth_step j cfg with_script (us, given) (us, given \<union> {tk_access tk, tk_refresh tk})"
| as_refresh: "presentable j cfg given t \<Longrightarrow> refresh j cfg now t us = Inr tk \<Longrightarrow>
     auth_step j cfg with_script (us, given) (us, given \<union> {tk_access tk, tk_refresh tk})"
| as_logout: "header_ok j cfg given h \<Longrightarrow> post_logout j cfg now h us = Inr us' \<Longrightarrow> auth_step j cfg with_script (us, given) (us', given)"
| as_role: "header_ok j cfg given h \<Longrightarrow> patch_role j cfg now h i role us = Inr (u, us') \<Longrightarrow> auth_step j cfg with_script (us, given) (us', given)"
| as_script: "with_script \<Longrightarrow> create_admin hash new_id email password us = Inr us' \<Longrightarrow> new_id \<notin> ac_id ` set us \<Longrightarrow>
     auth_step j cfg with_script (us, given) (us', given)"

lemma jwt_okD:
  assumes "jwt_ok j"
  shows "j_verify j t s now = JwtOk c \<longleftrightarrow> (\<exists>exp. t = j_sign j c s exp \<and> now < exp)"
    "j_sign j c s e = j_sign j c' s' e' \<Longrightarrow> s = s' \<and> c = c'" "j_sign j c s e \<noteq> []" "CHR '' '' \<notin> set (j_sign j c s e)"
proof -
  show v: "j_verify j t s now = JwtOk c \<longleftrightarrow> (\<exists>exp. t = j_sign j c s exp \<and> now < exp)" for t s now c
    using assms by (simp add: jwt_ok_def)
  show "j_sign j c s e \<noteq> []" "CHR '' '' \<notin> set (j_sign j c s e)" using assms by (simp_all add: jwt_ok_def)
  assume eq: "j_sign j c s e = j_sign j c' s' e'"
  then have s: "s = s'" using assms unfolding jwt_ok_def by blast
  have "j_verify j (j_sign j c s e) s (min e e' - 1) = JwtOk c" "j_verify j (j_sign j c s e) s (min e e' - 1) = JwtOk c'"
    unfolding v using eq s by (intro exI[of _ e] exI[of _ e'], simp)+
  then show "s = s' \<and> c = c'" using s by simp
qed

lemma verify_Inr: "verify j now t s ty = Inr c \<longleftrightarrow> j_verify j t s now = JwtOk c \<and> cl_type c = ty"
  by (auto simp: verify_def split: jwt_result.splits)

lemma authenticate_Inr:
  assumes "authenticate j cfg now h = Inr u"
  obtains h' t c where "h = Some h'" "t \<in> set (split_space h')" "verifyAccessToken j cfg now t = Inr c"
    "u = \<lparr>u_id = cl_sub c, u_role = (case cl_role c of None \<Rightarrow> ''undefined'' | Some r \<Rightarrow> r)\<rparr>"
proof -
  have none: "split_space [] = [[]]" by (simp add: split_space_def)
  obtain scheme t where sp: "split_space (case h of None \<Rightarrow> [] | Some h \<Rightarrow> h) = [scheme, t]"
    and v: "bind_result (verifyAccessToken j cfg now t) (\<lambda>c. Inr \<lparr>u_id = cl_sub c, u_role = (case cl_role c of None \<Rightarrow> ''undefined'' | Some r \<Rightarrow> r)\<rparr>) = Inr u"
    using assms by (auto simp: authenticate_def split: list.splits if_splits)
  obtain h' where h: "h = Some h'" using sp none by (cases h) auto
  show ?thesis using that[OF h, of t] sp v by (auto simp: h bind_result_eq_Inr)
qed

text \<open>A client authenticates only with an access token it was given.\<close>

lemma authenticate_given:
  assumes "jwt_ok j" "header_ok j cfg given h" "authenticate j cfg now h = Inr u"
  obtains c exp where "j_sign j c (tc_accessSecret cfg) exp \<in> given" "cl_type c = ''access''"
    "u = \<lparr>u_id = cl_sub c, u_role = (case cl_role c of None \<Rightarrow> ''undefined'' | Some r \<Rightarrow> r)\<rparr>"
proof -
  obtain h' t c where h: "h = Some h'" "t \<in> set (split_space h')" "verifyAccessToken j cfg now t = Inr c"
    "u = \<lparr>u_id = cl_sub c, u_role = (case cl_role c of None \<Rightarrow> ''undefined'' | Some r \<Rightarrow> r)\<rparr>" by (rule authenticate_Inr[OF assms(3)])
  then obtain exp where t: "t = j_sign j c (tc_accessSecret cfg) exp" "cl_type c = ''access''"
    by (auto simp: verifyAccessToken_def verify_Inr jwt_okD(1)[OF assms(1)])
  have "presentable j cfg given t" using assms(2) h by (simp add: header_ok_def)
  then have "t \<in> given" using t by (auto simp: presentable_def)
  then show ?thesis using that[of c exp] t h(4) by blast
qed

section \<open>No way up without an administrator\<close>

definition viewers_only :: "jwt \<Rightarrow> token_config \<Rightarrow> auth_state \<Rightarrow> bool" where
  "viewers_only j cfg s = (case s of (us, given) \<Rightarrow> (\<forall>u \<in> set us. ac_role u = VIEWER)
     \<and> (\<forall>c exp. j_sign j c (tc_accessSecret cfg) exp \<in> given \<longrightarrow> cl_type c = ''access'' \<longrightarrow> cl_role c = Some VIEWER))"

lemma viewers_only_issue:
  assumes "jwt_ok j" "viewers_only j cfg (us, given)" "u \<in> set us"
  shows "viewers_only j cfg (us, given \<union> {tk_access (issueTokens j cfg now u), tk_refresh (issueTokens j cfg now u)})"
  using assms jwt_okD(2)[OF assms(1)]
  by (fastforce simp: viewers_only_def issueTokens_def signAccessToken_def signRefreshToken_def)

lemma find_account_in: "find_account i us = Some u \<Longrightarrow> u \<in> set us \<and> ac_id u = i"
  by (auto simp: find_account_def find_Some_iff)

lemma create_account_Inr:
  "create_account n e h r us = Inr (u, us') \<Longrightarrow> us' = us @ [u] \<and> ac_id u = n \<and> ac_role u = r \<and> ac_tokenVersion u = 0"
  by (auto simp: create_account_def Let_def split: if_splits)

lemma register_Inr: "register hash n e p us = Inr (u, us') \<Longrightarrow> us' = us @ [u] \<and> ac_id u = n \<and> ac_role u = VIEWER \<and> ac_tokenVersion u = 0"
  by (auto simp: register_def dest: create_account_Inr split: sum.splits if_splits)

lemma viewers_only_step:
  assumes "jwt_ok j" "viewers_only j cfg s" "auth_step j cfg False s s'"
  shows "viewers_only j cfg s'"
  using assms(3)
proof cases
  case (as_register hash n e p us u us' given)
  then show ?thesis using assms(2) register_Inr[of hash n e p us u us'] by (auto simp: viewers_only_def)
next
  case (as_login cmp dummy now e p us u tk given)
  then have "u \<in> set us" "tk = issueTokens j cfg now u"
    by (auto simp: login_def Let_def find_Some_iff split: option.splits if_splits)
  then show ?thesis using viewers_only_issue[OF assms(1)] assms(2) as_login by blast
next
  case (as_refresh given t now us tk)
  then obtain u where "u \<in> set us" "tk = issueTokens j cfg now u"
    by (auto simp: refresh_def dest!: find_account_in elim!: bind_result_InrE split: option.splits if_splits)
  then show ?thesis using viewers_only_issue[OF assms(1)] assms(2) as_refresh by blast
next
  case (as_logout given h now us us')
  then show ?thesis using assms(2)
    by (auto simp: viewers_only_def post_logout_def logoutAll_def set_update_where elim!: bind_result_InrE)
next
  case (as_role given h now i role us u us')
  then obtain a where a: "authenticate j cfg now h = Inr a" "requirePermission USER_MANAGE (Some a) = Inr ()"
    by (auto simp: patch_role_def elim!: bind_result_InrE)
  obtain c exp where "j_sign j c (tc_accessSecret cfg) exp \<in> given" "cl_type c = ''access''"
    "a = \<lparr>u_id = cl_sub c, u_role = (case cl_role c of None \<Rightarrow> ''undefined'' | Some r \<Rightarrow> r)\<rparr>"
    by (rule authenticate_given[OF assms(1) as_role(3) a(1)])
  then have "u_role a = VIEWER" using assms(2) as_role(1) by (auto simp: viewers_only_def)
  then show ?thesis using a(2) by (simp add: requirePermission_def hasPermission_def ROLE_PERMISSIONS_def)
qed simp

interpretation viewers: invariant_system "\<lambda>s. s = ([], {})" "\<lambda>s s'. jwt_ok j \<and> auth_step j cfg False s s'" "viewers_only j cfg" for j cfg
  by unfold_locales (auto simp: viewers_only_def[of _ _ "([], {})"] intro: viewers_only_step)

section \<open>Revocation\<close>

text \<open>Accounts stay, and their token versions only grow.\<close>

definition versions_grow :: "account list \<Rightarrow> account list \<Rightarrow> bool" where
  "versions_grow us us' \<longleftrightarrow> (\<forall>u \<in> set us. \<exists>u' \<in> set us'. ac_id u' = ac_id u \<and> ac_tokenVersion u \<le> ac_tokenVersion u')"

definition ids_distinct :: "account list \<Rightarrow> bool" where
  "ids_distinct us \<longleftrightarrow> distinct (map ac_id us)"

lemma versions_grow_refl [simp]: "versions_grow us us"
  by (auto simp: versions_grow_def)

lemma versions_grow_trans: "versions_grow us us' \<Longrightarrow> versions_grow us' us'' \<Longrightarrow> versions_grow us us''"
  unfolding versions_grow_def by (metis order_trans)

text \<open>The two ways in which the collection changes.\<close>

lemma accounts_add: "us' = us @ [u] \<and> ac_id u = n \<and> Q \<Longrightarrow> n \<notin> ac_id ` set us \<Longrightarrow>
    (ids_distinct us \<longrightarrow> ids_distinct us') \<and> versions_grow us us'"
  by (auto simp: ids_distinct_def versions_grow_def)

lemma accounts_bump:
  assumes "us' = update_where P f us" "\<And>u. ac_id (f u) = ac_id u" "\<And>u. ac_tokenVersion u \<le> ac_tokenVersion (f u)"
  shows "(ids_distinct us \<longrightarrow> ids_distinct us') \<and> versions_grow us us'"
proof -
  have "(if P u then f u else u) \<in> set us' \<and> ac_id (if P u then f u else u) = ac_id u
      \<and> ac_tokenVersion u \<le> ac_tokenVersion (if P u then f u else u)" if "u \<in> set us" for u
    using that assms(2,3) unfolding assms(1) set_update_where by auto
  then have "versions_grow us us'" unfolding versions_grow_def by blast
  then show ?thesis using assms(2) unfolding assms(1) by (simp add: ids_distinct_def map_update_where)
qed

lemma auth_step_accounts:
  assumes "auth_step j cfg b s s'"
  shows "(ids_distinct (fst s) \<longrightarrow> ids_distinct (fst s')) \<and> versions_grow (fst s) (fst s')"
  using assms
proof cases
  case (as_register hash n e p us u us' given)
  then show ?thesis using accounts_add[OF register_Inr[of hash n e p us u us']] by simp
next
  case (as_logout given h now us us')
  then have "\<exists>i. us' = logoutAll i us" by (auto simp: post_logout_def elim!: bind_result_InrE)
  then obtain i where "us' = logoutAll i us" by blast
  then show ?thesis using as_logout accounts_bump[of us' _ _ us] by (simp add: logoutAll_def)
next
  case (as_role given h now i role us u us')
  then have "us' = update_where (\<lambda>u. ac_id u = i) (\<lambda>u. u\<lparr>ac_role := role, ac_tokenVersion := ac_tokenVersion u + 1\<rparr>) us"
    by (auto simp: patch_role_def changeRole_def Let_def elim!: bind_result_InrE split: if_splits option.splits)
  then show ?thesis using as_role accounts_bump[of us' _ _ us] by simp
next
  case (as_script hash n e p us us' given)
  show ?thesis
  proof (cases "List.find (\<lambda>u. ac_email u = e) us")
    case None
    then obtain u where "create_account n e (hash p) ADMIN us = Inr (u, us')"
      using as_script by (auto simp: create_admin_def elim!: bind_result_InrE)
    then show ?thesis using accounts_add[OF create_account_Inr] as_script by simp
  next
    case (Some u)
    then show ?thesis using as_script accounts_bump[of us' _ _ us] by (auto simp: create_admin_def)
  qed
qed simp_all

interpretation accounts: invariant_system "\<lambda>s. s = ([], {})" "auth_step j cfg b" "\<lambda>s. ids_distinct (fst s)" for j cfg b
  by unfold_locales (auto simp: ids_distinct_def dest: auth_step_accounts[unfolded ids_distinct_def])

lemma auth_steps_grow: "(auth_step j cfg b)\<^sup>*\<^sup>* s s' \<Longrightarrow> versions_grow (fst s) (fst s')"
  by (induction rule: rtranclp_induct) (auto intro: versions_grow_trans dest: auth_step_accounts)

lemma find_account_unique: "ids_distinct us \<Longrightarrow> u \<in> set us \<Longrightarrow> find_account (ac_id u) us = Some u"
proof -
  assume d: "ids_distinct us" and u: "u \<in> set us"
  then have "find_account (ac_id u) us \<noteq> None" by (auto simp: find_account_def find_None_iff_all)
  then obtain v where v: "find_account (ac_id u) us = Some v" by blast
  then show ?thesis using distinct_map_eqD[of ac_id us v u] d u find_account_in[OF v] by (simp add: ids_distinct_def)
qed

lemma authenticate_issued:
  assumes "jwt_ok j" "now' < now + tc_accessTtl cfg"
  shows "authenticate j cfg now' (Some (''Bearer '' @ tk_access (issueTokens j cfg now u))) = Inr \<lparr>u_id = ac_id u, u_role = ac_role u\<rparr>"
proof -
  note jw = jwt_okD[OF assms(1)]
  let ?c = "\<lparr>cl_sub = ac_id u, cl_role = Some (ac_role u), cl_tv = None, cl_type = ''access''\<rparr>"
  let ?t = "j_sign j ?c (tc_accessSecret cfg) (now + tc_accessTtl cfg)"
  have "takeWhile (\<lambda>c. c \<noteq> CHR '' '') ?t = ?t" using jw(4)[of ?c] by (auto simp: takeWhile_eq_all_conv)
  then have "split_space (''Bearer '' @ ?t) = [''Bearer'', ?t]" by (simp add: split_space_def)
  moreover have "j_verify j ?t (tc_accessSecret cfg) now' = JwtOk ?c" using assms(2) jw(1) by blast
  ultimately show ?thesis using jw(3)[of ?c]
    by (simp add: authenticate_def issueTokens_def signAccessToken_def verifyAccessToken_def verify_def)
qed

section \<open>Properties\<close>


text \<open>A token library that meets the hypothesis: a token is the number of what it says.\<close>

definition demo_jwt :: jwt where
  "demo_jwt =
     \<lparr>j_sign = (\<lambda>c s e. show_nat (to_nat (cl_sub c, cl_role c, cl_tv c, cl_type c, s, e))),
      j_verify = (\<lambda>t s now. case from_nat (read_nat t) of (sub, role, tv, ty, s', e) \<Rightarrow>
        if t = show_nat (to_nat (sub, role, tv, ty, s', e)) \<and> s' = s
        then if now < e then JwtOk \<lparr>cl_sub = sub, cl_role = role, cl_tv = tv, cl_type = ty\<rparr> else JwtExpired
        else JwtInvalid)\<rparr>"

lemma demo_jwt_ok: "jwt_ok demo_jwt"
proof -
  have v: "j_verify demo_jwt t s now = JwtOk c \<longleftrightarrow> (\<exists>exp. t = j_sign demo_jwt c s exp \<and> now < exp)" for t s now c
    by (cases c) (auto simp: demo_jwt_def read_show_nat split: prod.splits if_splits)
  have i: "j_sign demo_jwt c s e = j_sign demo_jwt c' s' e' \<Longrightarrow> s = s'" for c s e c' s' e'
    by (simp add: demo_jwt_def)
  have d: "CHR '' '' \<notin> set (show_nat n)" "show_nat n \<noteq> []" for n
    using show_nat_digits[of "CHR '' ''" n] by (auto, subst (asm) show_nat.simps, simp split: if_splits)
  have s: "j_sign demo_jwt c s e \<noteq> [] \<and> CHR '' '' \<notin> set (j_sign demo_jwt c s e)" for c s e by (simp add: demo_jwt_def d)
  show ?thesis unfolding jwt_ok_def by (intro conjI allI impI) (rule v, erule i, use s in simp_all)
qed

definition demo_tokens :: token_config where
  "demo_tokens = \<lparr>tc_accessSecret = ''a'', tc_refreshSecret = ''r'', tc_accessTtl = 900000, tc_refreshTtl = 604800000\<rparr>"

definition demo_account :: account where
  "demo_account = \<lparr>ac_id = 1, ac_email = ''v@x'', ac_passwordHash = ''pw'', ac_role = VIEWER, ac_tokenVersion = 0\<rparr>"

lemma demo_registered: "reach (\<lambda>s. s = ([], {})) (auth_step demo_jwt demo_tokens False) ([demo_account], {})"
proof (rule reach_step)
  show "reach (\<lambda>s. s = ([], {})) (auth_step demo_jwt demo_tokens False) ([], {})" by (rule reach_init) simp
  have "register id 1 ''v@x'' ''pw'' [] = Inr (demo_account, [demo_account])"
    by (simp add: register_def create_account_def demo_account_def toLowerCase_def trim_def is_space_def to_lower_char_def Let_def)
  then show "auth_step demo_jwt demo_tokens False ([], {}) ([demo_account], {})" by (rule as_register) simp
qed


text \<open>C30: sessions last until they are revoked. Fresh tokens authenticate their user with the role of the
  account until the access token expires and can be refreshed until the refresh token expires; after
  logging out, or after a change of the role, no refresh token issued before is ever accepted again,
  whatever happens to the accounts.\<close>

theorem sessions_until_revoked:
  assumes "jwt_ok j" "reach (\<lambda>s. s = ([], {})) (auth_step j cfg b) (us, given)" "u \<in> set us"
  shows "(now' < now + tc_accessTtl cfg \<longrightarrow>
        authenticate j cfg now' (Some (''Bearer '' @ tk_access (issueTokens j cfg now u))) = Inr \<lparr>u_id = ac_id u, u_role = ac_role u\<rparr>)
    \<and> (now' < now + tc_refreshTtl cfg \<longrightarrow> refresh j cfg now' (tk_refresh (issueTokens j cfg now u)) us = Inr (issueTokens j cfg now' u))
    \<and> (us1 = logoutAll (ac_id u) us \<or> (\<exists>actor role v. changeRole actor (ac_id u) role us = Inr (v, us1)) \<longrightarrow>
        (auth_step j cfg b)\<^sup>*\<^sup>* (us1, given) (us2, given2) \<longrightarrow>
        verifyRefreshToken j cfg now' t = Inr c \<longrightarrow> cl_sub c = ac_id u \<longrightarrow> cl_tv c = Some v' \<longrightarrow> v' \<le> ac_tokenVersion u \<longrightarrow>
        refresh j cfg now' t us2 = Inl (UnauthorizedError ''TOKEN_REVOKED''))"
proof (intro conjI impI)
  note jw = jwt_okD[OF assms(1)]
  have d: "ids_distinct us" using accounts.reach_inv[OF assms(2)] by simp
  show "authenticate j cfg now' (Some (''Bearer '' @ tk_access (issueTokens j cfg now u))) = Inr \<lparr>u_id = ac_id u, u_role = ac_role u\<rparr>"
    if "now' < now + tc_accessTtl cfg" by (rule authenticate_issued[OF assms(1) that])
  show "refresh j cfg now' (tk_refresh (issueTokens j cfg now u)) us = Inr (issueTokens j cfg now' u)" if "now' < now + tc_refreshTtl cfg"
  proof -
    let ?c = "\<lparr>cl_sub = ac_id u, cl_role = None, cl_tv = Some (ac_tokenVersion u), cl_type = ''refresh''\<rparr>"
    have "j_verify j (j_sign j ?c (tc_refreshSecret cfg) (now + tc_refreshTtl cfg)) (tc_refreshSecret cfg) now' = JwtOk ?c"
      using that jw(1) by blast
    then show ?thesis using find_account_unique[OF d assms(3)]
      by (simp add: refresh_def issueTokens_def signRefreshToken_def verifyRefreshToken_def verify_def)
  qed
  assume r: "us1 = logoutAll (ac_id u) us \<or> (\<exists>actor role v. changeRole actor (ac_id u) role us = Inr (v, us1))"
    and st: "(auth_step j cfg b)\<^sup>*\<^sup>* (us1, given) (us2, given2)"
    and c: "verifyRefreshToken j cfg now' t = Inr c" "cl_sub c = ac_id u" "cl_tv c = Some v'" "v' \<le> ac_tokenVersion u"
  obtain f where f: "us1 = update_where (\<lambda>x. ac_id x = ac_id u) f us" "\<And>x. ac_id (f x) = ac_id x" "\<And>x. ac_tokenVersion (f x) = ac_tokenVersion x + 1"
    using r by (fastforce simp: logoutAll_def changeRole_def Let_def split: if_splits option.splits)
  have d1: "ids_distinct us1" using accounts_bump[OF f(1,2)] f(3) d by simp
  have "f u \<in> set us1" using assms(3) by (force simp: f(1) set_update_where)
  then obtain w where w: "w \<in> set us2" "ac_id w = ac_id u" "ac_tokenVersion u < ac_tokenVersion w"
    using auth_steps_grow[OF st] f(2,3) unfolding versions_grow_def by (metis fst_conv zless_add1_eq order_less_le_trans)
  have "ids_distinct us2" using accounts.steps_inv[OF _ st] d1 by simp
  then have "find_account (ac_id u) us2 = Some w" using find_account_unique[OF _ w(1)] w(2) by simp
  then show "refresh j cfg now' t us2 = Inl (UnauthorizedError ''TOKEN_REVOKED'')" using c w(3) by (simp add: refresh_def)
qed

theorem sessions_until_revoked_witness:
  "let tk = issueTokens demo_jwt demo_tokens 0 demo_account in
   refresh demo_jwt demo_tokens 5 (tk_refresh tk) [demo_account] = Inr (issueTokens demo_jwt demo_tokens 5 demo_account)
   \<and> authenticate demo_jwt demo_tokens 5 (Some (''Bearer '' @ tk_access tk)) = Inr \<lparr>u_id = 1, u_role = VIEWER\<rparr>"
  using sessions_until_revoked[OF demo_jwt_ok demo_registered, of demo_account 5 0]
  by (simp add: demo_tokens_def demo_account_def Let_def)

text \<open>The rule that nobody changes their own role is there so that an administrator stays. It does not
  ensure it: an access token keeps the role it was issued with, so an administrator who was demoted
  can demote the one who did it, and then nobody is left.\<close>

theorem last_admin_can_vanish:
  assumes "jwt_ok j" "now' < now + tc_accessTtl cfg" "ac_role a = ADMIN" "ac_role b = ADMIN" "ac_id a \<noteq> ac_id b"
  shows "\<exists>b' us1 a' us2. patch_role j cfg now' (Some (''Bearer '' @ tk_access (issueTokens j cfg now a))) (ac_id b) VIEWER [a, b] = Inr (b', us1)
    \<and> patch_role j cfg now' (Some (''Bearer '' @ tk_access (issueTokens j cfg now b))) (ac_id a) VIEWER us1 = Inr (a', us2)
    \<and> (\<forall>u \<in> set us2. ac_role u \<noteq> ADMIN)"
proof -
  have adm: "requirePermission USER_MANAGE (Some \<lparr>u_id = x, u_role = ADMIN\<rparr>) = Inr ()" for x
    by (simp add: requirePermission_def hasPermission_def ROLE_PERMISSIONS_def PERMISSIONS_def)
  have p: "patch_role j cfg now' (Some (''Bearer '' @ tk_access (issueTokens j cfg now u))) i r us = changeRole (ac_id u) i r us"
    if "ac_role u = ADMIN" for u i r us
    unfolding patch_role_def authenticate_issued[OF assms(1,2)] that by (simp add: adm)
  show ?thesis unfolding p[OF assms(3)] p[OF assms(4)] using assms(5) by (simp add: changeRole_def find_account_def Let_def)
qed

end
