(* ===== verification/Wf_Schema.thy ===== *)
theory Wf_Schema
  imports Wf_Text
begin

text \<open>
  The schema combinators the request and model-output schemas are written with, as parsers from JSON:
  \<open>None\<close> is a failed validation. An object keeps only the fields its schema names, and a field
  that is absent takes its default.
\<close>

section \<open>Parsers\<close>

definition char_in :: "(nat \<times> nat) list \<Rightarrow> string \<Rightarrow> char \<Rightarrow> bool" where
  "char_in ranges extra c \<longleftrightarrow> (\<exists>r \<in> set ranges. fst r \<le> of_char c \<and> of_char c \<le> snd r) \<or> c \<in> set extra"

definition field :: "string \<Rightarrow> json \<Rightarrow> json option" where
  "field k j = (case j of JObj kvs \<Rightarrow> map_of kvs k | _ \<Rightarrow> None)"

definition parse_string :: "(string \<Rightarrow> bool) \<Rightarrow> json \<Rightarrow> string option" where
  "parse_string P j = (case j of JStr s \<Rightarrow> if P s then Some s else None | _ \<Rightarrow> None)"

definition parse_trimmed :: "(string \<Rightarrow> bool) \<Rightarrow> json \<Rightarrow> string option" where
  "parse_trimmed P j = (case j of JStr s \<Rightarrow> if P (trim s) then Some (trim s) else None | _ \<Rightarrow> None)"

definition parse_int :: "int \<Rightarrow> int \<Rightarrow> json \<Rightarrow> int option" where
  "parse_int lo hi j = (case j of JNum r \<Rightarrow> if of_int \<lfloor>r\<rfloor> = r \<and> lo \<le> \<lfloor>r\<rfloor> \<and> \<lfloor>r\<rfloor> \<le> hi then Some \<lfloor>r\<rfloor> else None | _ \<Rightarrow> None)"

definition parse_object :: "json \<Rightarrow> json option" where
  "parse_object j = (case j of JObj kvs \<Rightarrow> Some j | _ \<Rightarrow> None)"

fun parse_all :: "(json \<Rightarrow> 'a option) \<Rightarrow> json list \<Rightarrow> 'a list option" where
  "parse_all p [] = Some []"
| "parse_all p (j # js) = Option.bind (p j) (\<lambda>x. map_option ((#) x) (parse_all p js))"

definition parse_array :: "nat \<Rightarrow> nat \<Rightarrow> (json \<Rightarrow> 'a option) \<Rightarrow> json \<Rightarrow> 'a list option" where
  "parse_array lo hi p j = (case j of JArr js \<Rightarrow> if lo \<le> length js \<and> length js \<le> hi then parse_all p js else None | _ \<Rightarrow> None)"

definition with_default :: "'a \<Rightarrow> (json \<Rightarrow> 'a option) \<Rightarrow> json option \<Rightarrow> 'a option" where
  "with_default d p j = (case j of None \<Rightarrow> Some d | Some j \<Rightarrow> p j)"

definition required :: "(json \<Rightarrow> 'a option) \<Rightarrow> json option \<Rightarrow> 'a option" where
  "required p j = Option.bind j p"

definition parse_bool :: "json \<Rightarrow> bool option" where
  "parse_bool j = (case j of JBool b \<Rightarrow> Some b | _ \<Rightarrow> None)"

definition parse_enum :: "string list \<Rightarrow> json \<Rightarrow> string option" where
  "parse_enum names = parse_string (\<lambda>s. s \<in> set names)"

section \<open>What a parsed value satisfies\<close>

lemma parse_all_Some: "parse_all p js = Some xs \<Longrightarrow> length xs = length js \<and> list_all (\<lambda>x. \<exists>j. p j = Some x) xs"
  by (induction js arbitrary: xs) (auto simp: bind_eq_Some_conv)

lemma parse_array_Some:
  assumes "parse_array lo hi p j = Some xs" "\<And>j x. p j = Some x \<Longrightarrow> Q x"
  shows "lo \<le> length xs \<and> length xs \<le> hi \<and> list_all Q xs"
proof -
  obtain js where "parse_all p js = Some xs" "lo \<le> length js" "length js \<le> hi"
    using assms(1) by (auto simp: parse_array_def split: json.splits if_splits)
  then show ?thesis using parse_all_Some[of p js xs] assms(2) by (auto simp: list_all_iff)
qed

lemma parse_string_Some: "parse_string P j = Some s \<Longrightarrow> P s"
  by (auto simp: parse_string_def split: json.splits if_splits)

lemma parse_int_Some: "parse_int lo hi j = Some n \<Longrightarrow> lo \<le> n \<and> n \<le> hi"
  by (auto simp: parse_int_def split: json.splits if_splits)

lemma with_default_Some: "with_default d p j = Some x \<Longrightarrow> Q d \<Longrightarrow> (\<And>j x. p j = Some x \<Longrightarrow> Q x) \<Longrightarrow> Q x"
  by (auto simp: with_default_def split: option.splits)

lemma required_Some: "required p j = Some x \<Longrightarrow> \<exists>v. p v = Some x"
  by (auto simp: required_def bind_eq_Some_conv)

end
