(* ===== verification/Wf_Routes.thy ===== *)
theory Wf_Routes
  imports Wf_Services_Correct Wf_Auth Wf_Schema
begin

text \<open>
  The HTTP routes of workflows and runs: \<open>src/workflow/workflow.schemas.js\<close>,
  \<open>src/middleware/validate.js\<close>, \<open>src/routes/workflow.routes.js\<close>, \<open>src/routes/execution.routes.js\<close> and their
  controllers, as the chain authentication, permission, validation, service. A schema is a parser from
  the JSON body; a field that is absent takes its default. Status codes, headers and the texts of messages
  are left out, and the rate limiter in front of a run is in \<open>Wf_Rate_Limit\<close>.
\<close>

section \<open>Schemas\<close>

definition MAX_TASKS :: nat where "MAX_TASKS = 100"
definition MAX_DEPENDENCIES :: nat where "MAX_DEPENDENCIES = 50"
definition MAX_ATTEMPTS :: int where "MAX_ATTEMPTS = 10"
definition MIN_TIMEOUT_MS :: int where "MIN_TIMEOUT_MS = 100"
definition MAX_TIMEOUT_MS :: int where "MAX_TIMEOUT_MS = 60 * 60 * 1000"

text \<open>\<open>/^[A-Za-z0-9_-]{1,64}$/\<close> and \<open>/^[a-z][a-z0-9._-]{0,63}$/\<close>\<close>

definition taskKey :: "string \<Rightarrow> bool" where
  "taskKey s \<longleftrightarrow> 1 \<le> length s \<and> length s \<le> 64 \<and> list_all (char_in [(65, 90), (97, 122), (48, 57)] ''_-'') s"

definition taskType :: "string \<Rightarrow> bool" where
  "taskType s \<longleftrightarrow> (case s of [] \<Rightarrow> False
     | c # cs \<Rightarrow> char_in [(97, 122)] [] c \<and> length cs \<le> 63 \<and> list_all (char_in [(97, 122), (48, 57)] ''._-'') cs)"

definition retryPolicy :: "json \<Rightarrow> (int \<times> int) option" where
  "retryPolicy j =
     Option.bind (parse_object j) (\<lambda>j.
     Option.bind (with_default 3 (parse_int 1 MAX_ATTEMPTS) (field ''maxAttempts'' j)) (\<lambda>a.
     Option.bind (with_default 1000 (parse_int 0 60000) (field ''baseDelayMs'' j)) (\<lambda>b. Some (a, b))))"

definition taskDefinition :: "json \<Rightarrow> task_def option" where
  "taskDefinition j =
     Option.bind (parse_object j) (\<lambda>j.
     Option.bind (required (parse_string taskKey) (field ''key'' j)) (\<lambda>key.
     Option.bind (with_default None (map_option Some \<circ> parse_trimmed (\<lambda>s. length s \<le> 100)) (field ''name'' j)) (\<lambda>_.
     Option.bind (required (parse_string taskType) (field ''type'' j)) (\<lambda>ty.
     Option.bind (with_default [] (parse_array 0 MAX_DEPENDENCIES (parse_string taskKey)) (field ''dependsOn'' j)) (\<lambda>dependsOn.
     Option.bind (with_default (JObj []) parse_object (field ''config'' j)) (\<lambda>config.
     Option.bind (with_default (3, 1000) retryPolicy (field ''retryPolicy'' j)) (\<lambda>retry.
     Option.bind (with_default 30000 (parse_int MIN_TIMEOUT_MS MAX_TIMEOUT_MS) (field ''timeoutMs'' j)) (\<lambda>timeout.
       Some \<lparr>d_key = key, d_dependsOn = Some dependsOn, def_type = ty, def_config = config,
             def_maxAttempts = Some (fst retry), def_baseDelayMs = Some (snd retry), def_timeoutMs = Some timeout\<rparr>))))))))"

record workflow_body =
  wb_name :: string
  wb_description :: string
  wb_tasks :: "task_def list"

definition workflowBody :: "json \<Rightarrow> workflow_body option" where
  "workflowBody j =
     Option.bind (parse_object j) (\<lambda>j.
     Option.bind (required (parse_trimmed (\<lambda>s. 1 \<le> length s \<and> length s \<le> 100)) (field ''name'' j)) (\<lambda>name.
     Option.bind (with_default [] (parse_trimmed (\<lambda>s. length s \<le> 1000)) (field ''description'' j)) (\<lambda>description.
     Option.bind (required (parse_array 1 MAX_TASKS taskDefinition) (field ''tasks'' j)) (\<lambda>tasks.
       Some \<lparr>wb_name = name, wb_description = description, wb_tasks = tasks\<rparr>))))"

text \<open>\<open>updateWorkflowSchema\<close> also asks for the version; a number has no upper limit.\<close>

definition updateBody :: "json \<Rightarrow> (workflow_body \<times> int) option" where
  "updateBody j =
     Option.bind (workflowBody j) (\<lambda>b.
     Option.bind (required (\<lambda>v. case v of JNum r \<Rightarrow> if of_int \<lfloor>r\<rfloor> = r \<and> 1 \<le> \<lfloor>r\<rfloor> then Some \<lfloor>r\<rfloor> else None | _ \<Rightarrow> None)
       (field ''version'' j)) (\<lambda>v. Some (b, v)))"

record schedule_body =
  sb_cron :: string
  sb_timezone :: string
  sb_enabled :: bool
  sb_input :: json

definition scheduleBody :: "json \<Rightarrow> schedule_body option" where
  "scheduleBody j =
     Option.bind (parse_object j) (\<lambda>j.
     Option.bind (required (parse_trimmed (\<lambda>s. 9 \<le> length s \<and> length s \<le> 100)) (field ''cron'' j)) (\<lambda>cron.
     Option.bind (with_default ''UTC'' (parse_string (\<lambda>s. length s \<le> 64)) (field ''timezone'' j)) (\<lambda>tz.
     Option.bind (with_default True (\<lambda>v. case v of JBool b \<Rightarrow> Some b | _ \<Rightarrow> None) (field ''enabled'' j)) (\<lambda>enabled.
     Option.bind (with_default (JObj []) parse_object (field ''input'' j)) (\<lambda>input.
       Some \<lparr>sb_cron = cron, sb_timezone = tz, sb_enabled = enabled, sb_input = input\<rparr>)))))"

definition runBody :: "json \<Rightarrow> json option" where
  "runBody j = Option.bind (parse_object j) (\<lambda>j. with_default (JObj []) parse_object (field ''input'' j))"

text \<open>\<open>/^[A-Za-z0-9_-]{8,128}$/\<close>\<close>

definition idempotencyKeySchema :: "string \<Rightarrow> bool" where
  "idempotencyKeySchema s \<longleftrightarrow> 8 \<le> length s \<and> length s \<le> 128 \<and> list_all (char_in [(65, 90), (97, 122), (48, 57)] ''_-'') s"

section \<open>Routes\<close>

definition validate :: "'a option \<Rightarrow> 'a result" where
  "validate parsed = (case parsed of None \<Rightarrow> Inl (ValidationError ''VALIDATION_ERROR'') | Some x \<Rightarrow> Inr x)"

text \<open>Authentication, then permission.\<close>

definition guarded :: "jwt \<Rightarrow> token_config \<Rightarrow> time \<Rightarrow> string option \<Rightarrow> string \<Rightarrow> (user \<Rightarrow> 'a result) \<Rightarrow> 'a result" where
  "guarded j cfg now header permission h =
     bind_result (authenticate j cfg now header) (\<lambda>u. bind_result (requirePermission permission (Some u)) (\<lambda>_. h u))"

definition post_workflow :: "jwt \<Rightarrow> token_config \<Rightarrow> time \<Rightarrow> string option \<Rightarrow> oid \<Rightarrow> json \<Rightarrow> workflow list \<Rightarrow> (workflow \<times> workflow list) result" where
  "post_workflow j cfg now header new_id body ws =
     guarded j cfg now header WORKFLOW_CREATE (\<lambda>u.
       bind_result (validate (workflowBody body)) (\<lambda>b.
         create u new_id (wb_name b) (wb_description b) (wb_tasks b) ws))"

definition put_workflow :: "jwt \<Rightarrow> token_config \<Rightarrow> time \<Rightarrow> string option \<Rightarrow> oid \<Rightarrow> json \<Rightarrow> workflow list \<Rightarrow> (workflow \<times> workflow list) result" where
  "put_workflow j cfg now header i body ws =
     guarded j cfg now header WORKFLOW_CREATE (\<lambda>u.
       bind_result (validate (updateBody body)) (\<lambda>(b, version).
         update u i version (wb_name b) (wb_description b) (wb_tasks b) ws))"

definition put_schedule :: "(string \<Rightarrow> bool) \<Rightarrow> (string \<Rightarrow> string \<Rightarrow> bool) \<Rightarrow> cron_next \<Rightarrow> jwt \<Rightarrow> token_config \<Rightarrow> time \<Rightarrow> string option
    \<Rightarrow> oid \<Rightarrow> json \<Rightarrow> workflow list \<Rightarrow> (workflow \<times> workflow list) result" where
  "put_schedule known_zone parses next_run j cfg now header i body ws =
     guarded j cfg now header WORKFLOW_CREATE (\<lambda>u.
       bind_result (validate (scheduleBody body)) (\<lambda>b.
         setSchedule known_zone parses next_run u i (sb_cron b) (sb_timezone b) (sb_enabled b) (sb_input b) now ws))"

definition delete_schedule :: "jwt \<Rightarrow> token_config \<Rightarrow> time \<Rightarrow> string option \<Rightarrow> oid \<Rightarrow> workflow list \<Rightarrow> (workflow \<times> workflow list) result" where
  "delete_schedule j cfg now header i ws = guarded j cfg now header WORKFLOW_CREATE (\<lambda>u. clearSchedule u i ws)"

definition get_workflow_route :: "jwt \<Rightarrow> token_config \<Rightarrow> time \<Rightarrow> string option \<Rightarrow> oid \<Rightarrow> workflow list \<Rightarrow> workflow result" where
  "get_workflow_route j cfg now header i ws = guarded j cfg now header WORKFLOW_READ (\<lambda>u. get_workflow u i ws)"

definition post_validate :: "jwt \<Rightarrow> token_config \<Rightarrow> time \<Rightarrow> string option \<Rightarrow> json \<Rightarrow> dag_result result" where
  "post_validate j cfg now header body =
     guarded j cfg now header WORKFLOW_CREATE (\<lambda>u. bind_result (validate (workflowBody body)) (\<lambda>b. analyse (wb_tasks b)))"

definition post_run :: "(string \<Rightarrow> string) \<Rightarrow> (json \<Rightarrow> string) \<Rightarrow> 'q deps \<Rightarrow> jwt \<Rightarrow> token_config \<Rightarrow> time \<Rightarrow> string option \<Rightarrow> oid \<Rightarrow> string option
    \<Rightarrow> json \<Rightarrow> workflow list \<Rightarrow> 'q world \<Rightarrow> ((execution \<times> bool) \<times> 'q world) result" where
  "post_run sha scalar dp j cfg now header i rawKey body ws w =
     guarded j cfg now header WORKFLOW_RUN (\<lambda>u.
       bind_result (validate (runBody body)) (\<lambda>input.
         bind_result (case rawKey of None \<Rightarrow> Inr None
             | Some k \<Rightarrow> if idempotencyKeySchema k then Inr (Some k) else Inl (ValidationError ''VALIDATION_ERROR'')) (\<lambda>key.
           run sha scalar dp u i input key now ws w)))"

definition post_control :: "'q deps \<Rightarrow> jwt \<Rightarrow> token_config \<Rightarrow> time \<Rightarrow> string option \<Rightarrow> oid \<Rightarrow> action \<Rightarrow> 'q world \<Rightarrow> (execution option \<times> 'q world) result" where
  "post_control dp j cfg now header i act w = guarded j cfg now header WORKFLOW_RUN (\<lambda>u. control dp u i act now w)"

definition get_execution_route :: "jwt \<Rightarrow> token_config \<Rightarrow> time \<Rightarrow> string option \<Rightarrow> oid \<Rightarrow> db \<Rightarrow> (execution \<times> task list) result" where
  "get_execution_route j cfg now header i db = guarded j cfg now header WORKFLOW_READ (\<lambda>u. get_execution u i db)"

section \<open>What a validated definition looks like\<close>

definition task_shape :: "task_def \<Rightarrow> bool" where
  "task_shape d \<longleftrightarrow> taskKey (d_key d) \<and> taskType (def_type d)
     \<and> (\<exists>ds. d_dependsOn d = Some ds \<and> length ds \<le> MAX_DEPENDENCIES \<and> list_all taskKey ds)
     \<and> (\<exists>a. def_maxAttempts d = Some a \<and> 1 \<le> a \<and> a \<le> MAX_ATTEMPTS)
     \<and> (\<exists>b. def_baseDelayMs d = Some b \<and> 0 \<le> b \<and> b \<le> 60000)
     \<and> (\<exists>m. def_timeoutMs d = Some m \<and> MIN_TIMEOUT_MS \<le> m \<and> m \<le> MAX_TIMEOUT_MS)"

definition tasks_shape :: "task_def list \<Rightarrow> bool" where
  "tasks_shape ts \<longleftrightarrow> ts \<noteq> [] \<and> length ts \<le> MAX_TASKS \<and> list_all task_shape ts"

lemma retryPolicy_Some: "retryPolicy j = Some r \<Longrightarrow> 1 \<le> fst r \<and> fst r \<le> MAX_ATTEMPTS \<and> 0 \<le> snd r \<and> snd r \<le> 60000"
proof -
  assume "retryPolicy j = Some r"
  then obtain o' a b where r: "r = (a, b)" "with_default 3 (parse_int 1 MAX_ATTEMPTS) (field ''maxAttempts'' o') = Some a"
      "with_default 1000 (parse_int 0 60000) (field ''baseDelayMs'' o') = Some b"
    by (auto simp: retryPolicy_def bind_eq_Some_conv)
  have "1 \<le> a \<and> a \<le> MAX_ATTEMPTS" using r(2) by (rule with_default_Some) (auto simp: MAX_ATTEMPTS_def dest: parse_int_Some)
  moreover have "0 \<le> b \<and> b \<le> 60000" using r(3) by (rule with_default_Some) (auto dest: parse_int_Some)
  ultimately show ?thesis by (simp add: r(1))
qed

lemma taskDefinition_shape: "taskDefinition j = Some d \<Longrightarrow> task_shape d"
proof -
  assume "taskDefinition j = Some d"
  then obtain o' key ty ds cf rt tm where d: "d = \<lparr>d_key = key, d_dependsOn = Some ds, def_type = ty, def_config = cf,
       def_maxAttempts = Some (fst rt), def_baseDelayMs = Some (snd rt), def_timeoutMs = Some tm\<rparr>"
    and p: "required (parse_string taskKey) (field ''key'' o') = Some key" "required (parse_string taskType) (field ''type'' o') = Some ty"
      "with_default [] (parse_array 0 MAX_DEPENDENCIES (parse_string taskKey)) (field ''dependsOn'' o') = Some ds"
      "with_default (3, 1000) retryPolicy (field ''retryPolicy'' o') = Some rt"
      "with_default 30000 (parse_int MIN_TIMEOUT_MS MAX_TIMEOUT_MS) (field ''timeoutMs'' o') = Some tm"
    by (auto simp: taskDefinition_def bind_eq_Some_conv)
  have "taskKey key" "taskType ty" using p(1,2) by (auto simp: required_def bind_eq_Some_conv dest: parse_string_Some)
  moreover have "length ds \<le> MAX_DEPENDENCIES \<and> list_all taskKey ds"
    using p(3) by (rule with_default_Some) (auto dest!: parse_array_Some[where Q = taskKey] dest: parse_string_Some)
  moreover have "1 \<le> fst rt \<and> fst rt \<le> MAX_ATTEMPTS \<and> 0 \<le> snd rt \<and> snd rt \<le> 60000"
    using p(4) by (rule with_default_Some) (auto simp: MAX_ATTEMPTS_def dest: retryPolicy_Some)
  moreover have "MIN_TIMEOUT_MS \<le> tm \<and> tm \<le> MAX_TIMEOUT_MS"
    using p(5) by (rule with_default_Some) (auto simp: MIN_TIMEOUT_MS_def MAX_TIMEOUT_MS_def dest: parse_int_Some)
  ultimately show ?thesis by (simp add: d task_shape_def)
qed

lemma workflowBody_shape: "workflowBody j = Some b \<Longrightarrow> tasks_shape (wb_tasks b)"
proof -
  assume "workflowBody j = Some b"
  then obtain a where "parse_array 1 MAX_TASKS taskDefinition a = Some (wb_tasks b)"
    by (auto simp: workflowBody_def required_def bind_eq_Some_conv)
  from parse_array_Some[OF this taskDefinition_shape] show ?thesis by (auto simp: tasks_shape_def)
qed

lemma updateBody_shape: "updateBody j = Some (b, v) \<Longrightarrow> tasks_shape (wb_tasks b)"
  by (auto simp: updateBody_def bind_eq_Some_conv dest: workflowBody_shape)

section \<open>The collection under the routes\<close>

inductive api_step :: "workflow list \<Rightarrow> workflow list \<Rightarrow> bool" where
  api_post: "post_workflow j cfg now h new_id body ws = Inr (w, ws') \<Longrightarrow> new_id \<notin> w_id ` set ws \<Longrightarrow> api_step ws ws'"
| api_put: "put_workflow j cfg now h i body ws = Inr (w, ws') \<Longrightarrow> api_step ws ws'"
| api_schedule: "put_schedule known_zone parses next_run j cfg now h i body ws = Inr (w, ws') \<Longrightarrow> api_step ws ws'"
| api_unschedule: "delete_schedule j cfg now h i ws = Inr (w, ws') \<Longrightarrow> api_step ws ws'"
| api_advance: "api_step ws (advance i slot nxt cur le ws)"

definition shapes_ok :: "workflow list \<Rightarrow> bool" where
  "shapes_ok ws \<longleftrightarrow> (\<forall>w \<in> set ws. tasks_shape (w_tasks w))"

lemma shapes_update: "shapes_ok ws \<Longrightarrow> (\<And>w. tasks_shape (w_tasks w) \<Longrightarrow> tasks_shape (w_tasks (f w))) \<Longrightarrow> shapes_ok (update_where P f ws)"
  by (auto simp: shapes_ok_def set_update_where)

lemma update_owned_snd: "snd (update_owned u i P f ws) = update_where (\<lambda>w. w_id w = i \<and> ownerScope u (w_ownerId w) \<and> P w) f ws"
  by (simp add: update_owned_def Let_def)

lemma validate_Inr: "validate p = Inr x \<longleftrightarrow> p = Some x"
  by (auto simp: validate_def split: option.splits)

lemma guarded_Inr: "guarded j cfg now h p f = Inr x \<Longrightarrow> \<exists>u. f u = Inr x"
  by (auto simp: guarded_def bind_result_eq_Inr)

text \<open>Every step is one of the library, and writes validated task lists only.\<close>

lemma api_step_ok:
  assumes "api_step ws ws'"
  shows "library_step ws ws' \<and> (shapes_ok ws \<longrightarrow> shapes_ok ws')"
  using assms
proof cases
  case (api_post j cfg now h n body w)
  then obtain u b where b: "workflowBody body = Some b" "create u n (wb_name b) (wb_description b) (wb_tasks b) ws = Inr (w, ws')"
    unfolding post_workflow_def by (auto dest!: guarded_Inr elim!: bind_result_InrE simp: validate_Inr)
  have "library_step ws ws'" using b(2) api_post(2) by (blast intro: lib_edit edit_create)
  moreover have "w_tasks w = wb_tasks b" "ws' = ws @ [w]"
    using b(2) by (auto simp: create_def Let_def elim!: bind_result_InrE)
  ultimately show ?thesis using workflowBody_shape[OF b(1)] by (auto simp: shapes_ok_def)
next
  case (api_put j cfg now h i body w)
  then obtain u b v where b: "updateBody body = Some (b, v)" "update u i v (wb_name b) (wb_description b) (wb_tasks b) ws = Inr (w, ws')"
    unfolding put_workflow_def by (auto dest!: guarded_Inr elim!: bind_result_InrE simp: validate_Inr)
  have "ws' = snd (update_owned u i (\<lambda>w. w_version w = v)
      (\<lambda>w. w\<lparr>w_name := wb_name b, w_description := wb_description b, w_tasks := wb_tasks b, w_version := w_version w + 1\<rparr>) ws)"
    using b(2) by (auto simp: update_def elim!: bind_result_InrE split: prod.splits option.splits)
  then show ?thesis using b(2) updateBody_shape[OF b(1)] by (auto simp: update_owned_snd intro: lib_edit edit_update shapes_update)
next
  case (api_schedule kz ps nr j cfg now h i body w)
  then obtain u where "bind_result (validate (scheduleBody body)) (\<lambda>b.
      setSchedule kz ps nr u i (sb_cron b) (sb_timezone b) (sb_enabled b) (sb_input b) now ws) = Inr (w, ws')"
    using guarded_Inr[OF api_schedule[unfolded put_schedule_def]] by auto
  then obtain b :: schedule_body where b: "setSchedule kz ps nr u i (sb_cron b) (sb_timezone b) (sb_enabled b) (sb_input b) now ws = Inr (w, ws')"
    by (rule bind_result_InrE)
  then have "\<exists>sch. ws' = snd (update_owned u i (\<lambda>_. True) (\<lambda>w. w\<lparr>w_schedule := Some sch\<rparr>) ws)"
    by (auto simp: setSchedule_def Let_def elim!: bind_result_InrE split: prod.splits option.splits intro: sndI[symmetric])
  then show ?thesis using b by (auto simp: update_owned_snd intro: lib_edit edit_schedule shapes_update)
next
  case (api_unschedule j cfg now h i w)
  then obtain u where b: "clearSchedule u i ws = Inr (w, ws')" unfolding delete_schedule_def by (auto dest!: guarded_Inr)
  then have "ws' = snd (update_owned u i (\<lambda>_. True) (\<lambda>w. w\<lparr>w_schedule := None\<rparr>) ws)"
    by (auto simp: clearSchedule_def split: prod.splits option.splits)
  then show ?thesis using b by (auto simp: update_owned_snd intro: lib_edit edit_clear shapes_update)
next
  case (api_advance i slot nxt cur le)
  moreover have "shapes_ok ws \<Longrightarrow> shapes_ok (advance i slot nxt cur le ws)" unfolding advance_def by (rule shapes_update) auto
  ultimately show ?thesis by (simp add: lib_advance)
qed

interpretation api: invariant_system "\<lambda>ws. ws = []" api_step "\<lambda>ws. definitions_ok ws \<and> shapes_ok ws"
proof
  show "definitions_ok ws \<and> shapes_ok ws" if "ws = []" for ws using that by (simp add: definitions_ok_def shapes_ok_def)
  show "definitions_ok ws' \<and> shapes_ok ws'" if "definitions_ok ws \<and> shapes_ok ws" "api_step ws ws'" for ws ws'
    using that api_step_ok definitions_ok_step by blast
qed

section \<open>Properties\<close>

text \<open>C19: what the API accepts can run. Starting from an empty collection, whatever requests come in,
  every stored workflow has between one and a hundred tasks, with keys, types, dependency lists,
  attempts, delays and timeouts within the limits of the schema, and an acyclic graph; and whenever
  someone who may see it asks for a run, the run starts.\<close>

theorem accepted_workflows_start:
  assumes "reach (\<lambda>ws. ws = []) api_step ws" "wfl \<in> set ws" "reachable D w" "D dp" "ownerScope u (w_ownerId wfl)"
  shows "tasks_shape (w_tasks wfl) \<and> is_dag (w_tasks wfl)
    \<and> (\<exists>e w'. run sha scalar dp u (w_id wfl) input None now ws w = Inr ((e, False), w')
        \<and> (engine_step D)\<^sup>*\<^sup>* w w' \<and> start_key e \<in> set (start_keys (fst w')))"
proof -
  have ok: "definitions_ok ws" "shapes_ok ws" using api.reach_inv[OF assms(1)] by auto
  have sh: "tasks_shape (w_tasks wfl)" "is_dag (w_tasks wfl)"
    using ok assms(2) by (auto simp: shapes_ok_def definitions_ok_def)
  have ne: "w_tasks wfl \<noteq> []" "\<forall>t \<in> set (w_tasks wfl). d_dependsOn t \<noteq> None"
    using sh(1) by (auto simp: tasks_shape_def task_shape_def list_all_iff)
  have f: "find_workflow u (w_id wfl) ws = Some wfl"
  proof (cases "find_workflow u (w_id wfl) ws")
    case None
    then show ?thesis using assms(2,5) by (auto simp: find_workflow_def find_None_iff_all)
  next
    case (Some x)
    then have "x \<in> set ws" "w_id x = w_id wfl" by (auto simp: find_workflow_def find_Some_iff)
    then have "x = wfl" using distinct_map_eqD[of w_id ws x wfl] ok(1) assms(2) by (simp add: definitions_ok_def)
    then show ?thesis using Some by simp
  qed
  let ?sp = "\<lparr>sp_input = input, sp_triggeredBy = Some (u_id u), sp_trigger = Manual, sp_idempotencyKey = None, sp_requestHash = None\<rparr>"
  obtain e w' where st: "startExecution dp wfl ?sp now w = Inr (e, w')"
    using startExecution_behaviour_parts(4)[where dp = dp and sp = ?sp and now = now, OF assms(3) ne(1) sh(2) ne(2)]
    by (auto simp: idempotency_taken_def)
  have "run sha scalar dp u (w_id wfl) input None now ws w = Inr ((e, False), w')"
    using f st by (simp add: run_def truthy_def)
  moreover note startExecution_steps[where D = D and dp = dp, OF assms(4) ne(1) st]
  moreover note startExecution_key(1)[where D = D and dp = dp, OF assms(4) st]
  ultimately show ?thesis using sh by blast
qed

definition demo_operator :: account where
  "demo_operator = \<lparr>ac_id = 101, ac_email = ''o@x'', ac_passwordHash = ''pw'', ac_role = OPERATOR, ac_tokenVersion = 0\<rparr>"

definition demo_body :: json where
  "demo_body = JObj [(''name'', JStr ''demo''), (''tasks'', JArr [JObj [(''key'', JStr ''a''), (''type'', JStr ''noop'')],
     JObj [(''key'', JStr ''b''), (''type'', JStr ''noop''), (''dependsOn'', JArr [JStr ''a'']), (''timeoutMs'', JNum 5000)]])]"

definition demo_parsed :: workflow_body where
  "demo_parsed = \<lparr>wb_name = ''demo'', wb_description = [], wb_tasks =
     [\<lparr>d_key = ''a'', d_dependsOn = Some [], def_type = ''noop'', def_config = JObj [], def_maxAttempts = Some 3, def_baseDelayMs = Some 1000, def_timeoutMs = Some 30000\<rparr>,
      \<lparr>d_key = ''b'', d_dependsOn = Some [''a''], def_type = ''noop'', def_config = JObj [], def_maxAttempts = Some 3, def_baseDelayMs = Some 1000, def_timeoutMs = Some 5000\<rparr>]\<rparr>"

lemma demo_body_parsed: "workflowBody demo_body = Some demo_parsed"
  by code_simp

definition demo_posted :: workflow where
  "demo_posted = \<lparr>w_id = 1, w_ownerId = 101, w_name = ''demo'', w_description = [], w_tasks = wb_tasks demo_parsed, w_version = 1, w_schedule = None\<rparr>"

lemma demo_posted_reach: "reach (\<lambda>ws. ws = []) api_step [demo_posted]"
proof (rule reach_step)
  show "reach (\<lambda>ws. ws = []) api_step []" by (rule reach_init) simp
  let ?h = "Some (''Bearer '' @ tk_access (issueTokens demo_jwt demo_tokens 0 demo_operator))"
  have a: "authenticate demo_jwt demo_tokens 5 ?h = Inr \<lparr>u_id = ac_id demo_operator, u_role = ac_role demo_operator\<rparr>"
    by (rule authenticate_issued[OF demo_jwt_ok]) (simp add: demo_tokens_def)
  have p: "requirePermission WORKFLOW_CREATE (Some \<lparr>u_id = ac_id demo_operator, u_role = ac_role demo_operator\<rparr>) = Inr ()"
    by (simp add: demo_operator_def requirePermission_def hasPermission_def ROLE_PERMISSIONS_def PERMISSIONS_def)
  have g: "assertValidGraph (wb_tasks demo_parsed) = Inr ()" by code_simp
  have n: "wb_name demo_parsed = ''demo''" "wb_description demo_parsed = []" by (simp_all add: demo_parsed_def)
  have "post_workflow demo_jwt demo_tokens 5 ?h 1 demo_body [] = Inr (demo_posted, [demo_posted])"
    unfolding post_workflow_def guarded_def a bind_result_simps p demo_body_parsed
    using g by (simp add: validate_def create_def Let_def demo_operator_def demo_posted_def n)
  then show "api_step [] [demo_posted]" by (rule api_post) simp
qed

theorem accepted_workflows_start_witness:
  "tasks_shape (w_tasks demo_posted)
   \<and> (\<exists>e w'. run (\<lambda>s. s) (\<lambda>_. ''x'') demo_deps demo_user 1 (JObj []) None 0 [demo_posted] (empty_db, ()) = Inr ((e, False), w'))"
proof -
  have r: "reachable (\<lambda>_. True) (empty_db, ())" by (rule reach_init) simp
  have o: "ownerScope demo_user (w_ownerId demo_posted)" by (simp add: ownerScope_def demo_user_def demo_posted_def)
  have i: "w_id demo_posted = 1" by (simp add: demo_posted_def)
  show ?thesis
    using accepted_workflows_start[where D = "\<lambda>_. True" and dp = demo_deps and sha = "\<lambda>s. s" and scalar = "\<lambda>_. ''x''" and input = "JObj []" and now = 0,
        OF demo_posted_reach _ r _ o] i by auto
qed

end
