(* ===== verification/Wf_Rate_Limit.thy ===== *)
theory Wf_Rate_Limit
  imports Wf_Text Wf_System
begin

text \<open>
  The sliding-window rate limiter of \<open>src/middleware/rateLimit.js\<close>: the Lua script on one sorted set,
  the middleware around it and the limits of the project. A sorted set is an association list from
  members to scores; \<open>now\<close> is the clock of Redis, in milliseconds.
\<close>

section \<open>The script\<close>

record window_key =
  rk_entries :: "(string \<times> time) list"
  rk_expiry :: "time option"

definition no_key :: window_key where
  "no_key = \<lparr>rk_entries = [], rk_expiry = None\<rparr>"

text \<open>What is left of the key when its time to live is over.\<close>

definition live_entries :: "time \<Rightarrow> window_key \<Rightarrow> (string \<times> time) list" where
  "live_entries now k = (case rk_expiry k of
     None \<Rightarrow> rk_entries k | Some e \<Rightarrow> if e \<le> now then [] else rk_entries k)"

definition window_member :: "time \<Rightarrow> string \<Rightarrow> string" where
  "window_member now tag = show_int now @ ''-'' @ tag"

text \<open>The reply: allowed, remaining, milliseconds to wait. \<open>None\<close>: the script fails on an empty set
  when the limit is not positive.\<close>

definition SLIDING_WINDOW :: "int \<Rightarrow> int \<Rightarrow> string \<Rightarrow> time \<Rightarrow> window_key \<Rightarrow> (bool \<times> int \<times> int) option \<times> window_key" where
  "SLIDING_WINDOW window limit tag now k =
     (let es = filter (\<lambda>e. now - window < snd e) (live_entries now k);
          count = int (length es) in
      if count < limit
      then (Some (True, limit - count - 1, 0),
            \<lparr>rk_entries = AList.update (window_member now tag) now es, rk_expiry = Some (now + window)\<rparr>)
      else if es = [] then (None, no_key)
      else (Some (False, 0, Min (snd ` set es) + window - now), k\<lparr>rk_entries := es\<rparr>))"

section \<open>The middleware\<close>

record request =
  r_ip :: "string option"
  r_email :: "string option"
  r_user :: "string option"

record limiter =
  l_name :: string
  l_limit :: int
  l_windowMs :: int
  l_key :: "request \<Rightarrow> string option"
  l_failClosed :: bool

text \<open>\<open>redis_up\<close>: whether the script can be evaluated. The result is what \<open>next\<close> is called with, and
  the response headers that are set.\<close>

definition rateLimitMiddleware :: "string \<Rightarrow> limiter \<Rightarrow> bool \<Rightarrow> string \<Rightarrow> time \<Rightarrow> request \<Rightarrow> (string \<Rightarrow> window_key)
    \<Rightarrow> (unit result \<times> (string \<times> int) list) \<times> (string \<Rightarrow> window_key)" where
  "rateLimitMiddleware prefix l redis_up tag now req redis =
     (case l_key l req of
        None \<Rightarrow> ((Inr (), []), redis)
      | Some who \<Rightarrow>
          if who = [] then ((Inr (), []), redis)
          else let key = prefix @ '':'' @ l_name l @ '':'' @ who;
                   (reply, k) = (if redis_up then SLIDING_WINDOW (l_windowMs l) (l_limit l) tag now (redis key)
                                 else (None, redis key));
                   redis = redis(key := k) in
               case reply of
                 None \<Rightarrow> ((if l_failClosed l then Inl (AppError 503 ''RATE_LIMITER_UNAVAILABLE'') else Inr (), []), redis)
               | Some (allowed, remaining, retryAfterMs) \<Rightarrow>
                   let headers = [(''RateLimit-Limit'', l_limit l), (''RateLimit-Remaining'', remaining)] in
                   if \<not> allowed
                   then let seconds = max 1 \<lceil>of_int retryAfterMs / 1000 :: rat\<rceil> in
                        ((Inl (AppError 429 ''RATE_LIMITED''), headers @ [(''Retry-After'', seconds)]), redis)
                   else ((Inr (), headers), redis))"

section \<open>The limits of the project\<close>

definition req_ip :: "request \<Rightarrow> string" where
  "req_ip r = (case r_ip r of None \<Rightarrow> ''unknown'' | Some a \<Rightarrow> a)"

definition req_email :: "request \<Rightarrow> string" where
  "req_email r = take 254 (toLowerCase (trim (case r_email r of None \<Rightarrow> [] | Some e \<Rightarrow> e)))"

text \<open>\<open>Math.round\<close> rounds half up.\<close>

definition scaled :: "rat \<Rightarrow> int \<Rightarrow> int" where
  "scaled scale x = max 1 \<lfloor>of_int x * scale + 1 / 2\<rfloor>"

record rate_limiters =
  loginPerAccount :: limiter
  loginPerIp :: limiter
  register_limiter :: limiter
  api_limiter :: limiter
  run_limiter :: limiter
  upload_limiter :: limiter

definition createRateLimiters :: "rat \<Rightarrow> rate_limiters" where
  "createRateLimiters scale =
     \<lparr>loginPerAccount = \<lparr>l_name = ''login-acct'', l_limit = scaled scale 5, l_windowMs = 15 * 60000,
        l_key = (\<lambda>r. Some (req_ip r @ '':'' @ req_email r)), l_failClosed = True\<rparr>,
      loginPerIp = \<lparr>l_name = ''login-ip'', l_limit = scaled scale 20, l_windowMs = 15 * 60000,
        l_key = (\<lambda>r. Some (req_ip r)), l_failClosed = True\<rparr>,
      register_limiter = \<lparr>l_name = ''register'', l_limit = scaled scale 5, l_windowMs = 60 * 60000,
        l_key = (\<lambda>r. Some (req_ip r)), l_failClosed = True\<rparr>,
      api_limiter = \<lparr>l_name = ''api'', l_limit = scaled scale 300, l_windowMs = 60000, l_key = r_user, l_failClosed = False\<rparr>,
      run_limiter = \<lparr>l_name = ''run'', l_limit = scaled scale 60, l_windowMs = 60000, l_key = r_user, l_failClosed = False\<rparr>,
      upload_limiter = \<lparr>l_name = ''upload'', l_limit = scaled scale 20, l_windowMs = 60 * 60000, l_key = r_user, l_failClosed = False\<rparr>\<rparr>"

section \<open>The log of admitted requests\<close>

lemma window_member_inj: "window_member n g = window_member m h \<longleftrightarrow> n = m \<and> g = h"
proof -
  have d: "of_char (CHR ''-'') \<notin> {48 .. 57 :: nat}" by simp
  have s: "hd (show_nat k @ r) \<noteq> CHR ''-''" for k r
  proof -
    have "show_nat k \<noteq> []" by (subst show_nat.simps) simp
    then have "hd (show_nat k @ r) \<in> set (show_nat k)" by (cases "show_nat k") simp_all
    then show ?thesis using show_nat_digits[of "hd (show_nat k @ r)" k] d by auto
  qed
  show ?thesis
  proof (cases "n < 0 \<longleftrightarrow> m < 0")
    case True
    then show ?thesis using show_nat_delimited[OF d, of "nat (- n)" g "nat (- m)" h] show_nat_delimited[OF d, of "nat n" g "nat m" h]
      by (auto simp: window_member_def show_int_def)
  next
    case False
    then show ?thesis using s[of "nat m" "CHR ''-'' # h"] s[of "nat n" "CHR ''-'' # g"]
      by (auto simp: window_member_def show_int_def) (metis list.sel(1))+
  qed
qed

text \<open>A limiter at work on one key: the time of the last request, the requests let through so far, and
  the key.\<close>

type_synonym log_entry = "time \<times> string"

inductive limiter_step :: "int \<Rightarrow> int \<Rightarrow> time \<times> log_entry list \<times> window_key \<Rightarrow> time \<times> log_entry list \<times> window_key \<Rightarrow> bool"
  for window limit where
  ls_request: "T \<le> now \<Longrightarrow> (now, tag) \<notin> set L \<Longrightarrow> SLIDING_WINDOW window limit tag now k = (Some (ok, remaining, retry), k') \<Longrightarrow>
     limiter_step window limit (T, L, k) (now, if ok then L @ [(now, tag)] else L, k')"

definition in_window :: "int \<Rightarrow> time \<Rightarrow> log_entry list \<Rightarrow> log_entry list" where
  "in_window window t L = filter (\<lambda>r. t - window < fst r \<and> fst r \<le> t) L"

definition entry_of :: "log_entry \<Rightarrow> string \<times> time" where
  "entry_of r = (window_member (fst r) (snd r), fst r)"

definition limiter_inv :: "int \<Rightarrow> int \<Rightarrow> time \<times> log_entry list \<times> window_key \<Rightarrow> bool" where
  "limiter_inv window limit s = (case s of (T, L, k) \<Rightarrow>
     (\<forall>r \<in> set L. fst r \<le> T)
     \<and> (\<forall>t \<ge> T. filter (\<lambda>e. t - window < snd e) (live_entries t k) = map entry_of (filter (\<lambda>r. t - window < fst r) L))
     \<and> (\<forall>t. int (length (in_window window t L)) \<le> max 0 limit))"

text \<open>In the states that can arise, the script counts the admitted requests of the last window.\<close>

definition recent :: "int \<Rightarrow> time \<Rightarrow> log_entry list \<Rightarrow> log_entry list" where
  "recent window t L = filter (\<lambda>r. t - window < fst r) L"

lemma recent_in_window: "\<forall>r \<in> set L. fst r \<le> T \<Longrightarrow> T \<le> t \<Longrightarrow> in_window window t L = recent window t L"
  unfolding in_window_def recent_def by (rule filter_cong) auto

lemma script_counts:
  assumes "limiter_inv window limit (T, L, k)" "T \<le> now"
  shows "SLIDING_WINDOW window lim' tag now k =
    (let es = map entry_of (recent window now L) in
     if int (length (recent window now L)) < lim'
     then (Some (True, lim' - int (length (recent window now L)) - 1, 0),
           \<lparr>rk_entries = AList.update (window_member now tag) now es, rk_expiry = Some (now + window)\<rparr>)
     else if recent window now L = [] then (None, no_key)
     else (Some (False, 0, Min (fst ` set (recent window now L)) + window - now), k\<lparr>rk_entries := es\<rparr>))"
proof -
  have "filter (\<lambda>e. now - window < snd e) (live_entries now k) = map entry_of (recent window now L)"
    using assms by (simp add: limiter_inv_def recent_def)
  moreover have "snd ` set (map entry_of xs) = fst ` set xs" for xs by (force simp: entry_of_def)
  ultimately show ?thesis by (simp add: SLIDING_WINDOW_def Let_def)
qed

lemma update_fresh_entry:
  "(now, tag) \<notin> set R \<Longrightarrow> AList.update (window_member now tag) now (map entry_of R) = map entry_of (R @ [(now, tag)])"
  by (induction R) (auto simp: entry_of_def window_member_inj)

lemma filter_entries: "filter (\<lambda>e. P (snd e)) (map entry_of R) = map entry_of (filter (\<lambda>r. P (fst r)) R)"
  by (simp add: filter_map comp_def entry_of_def)

lemma recent_recent: "now \<le> t \<Longrightarrow> filter (\<lambda>r. t - window < fst r) (recent window now L) = recent window t L"
  unfolding recent_def filter_filter by (rule filter_cong) auto

lemma limiter_inv_admit:
  assumes inv: "limiter_inv window limit (T, L, k)" and now: "T \<le> now" "(now, tag) \<notin> set L"
    and less: "int (length (recent window now L)) < limit"
  shows "limiter_inv window limit (now, L @ [(now, tag)],
     \<lparr>rk_entries = AList.update (window_member now tag) now (map entry_of (recent window now L)), rk_expiry = Some (now + window)\<rparr>)"
    (is "limiter_inv _ _ (_, _, ?k)")
proof -
  have old: "\<forall>r \<in> set L. fst r \<le> now" using inv now(1) by (auto simp: limiter_inv_def)
  have es: "rk_entries ?k = map entry_of (recent window now L @ [(now, tag)])"
    using now(2) by (simp add: update_fresh_entry recent_def)
  have live: "filter (\<lambda>e. t - window < snd e) (live_entries t ?k) = map entry_of (recent window t (L @ [(now, tag)]))" if "now \<le> t" for t
  proof (cases "now + window \<le> t")
    case True
    then have "recent window t (L @ [(now, tag)]) = []" using old by (auto simp: recent_def filter_empty_conv)
    then show ?thesis using True by (simp add: live_entries_def)
  next
    case False
    then have "live_entries t ?k = rk_entries ?k" by (simp add: live_entries_def)
    moreover have "filter (\<lambda>e. t - window < snd e) (map entry_of (recent window now L)) = map entry_of (recent window t L)"
      using filter_entries[of "\<lambda>n. t - window < n"] recent_recent[OF that, of window L] by simp
    moreover have "recent window t (L @ [(now, tag)]) = recent window t L @ [(now, tag)]" using False by (simp add: recent_def)
    ultimately show ?thesis unfolding es using False by (simp add: entry_of_def[of "(now, tag)"])
  qed
  have bound: "int (length (in_window window t (L @ [(now, tag)]))) \<le> max 0 limit" for t
  proof (cases "now \<le> t")
    case True
    have "length (recent window t L) \<le> length (recent window now L)"
      using recent_recent[OF True, of window L] by (metis length_filter_le)
    then show ?thesis using less recent_in_window[OF _ True, of "L @ [(now, tag)]" window] old by (auto simp: recent_def)
  next
    case False
    then show ?thesis using inv by (simp add: limiter_inv_def in_window_def)
  qed
  show ?thesis unfolding limiter_inv_def using old live bound by (auto simp: recent_def)
qed

lemma limiter_inv_refuse:
  assumes inv: "limiter_inv window limit (T, L, k)" and now: "T \<le> now"
  shows "limiter_inv window limit (now, L, k\<lparr>rk_entries := map entry_of (recent window now L)\<rparr>)"
proof -
  have "filter (\<lambda>e. t - window < snd e) (live_entries t (k\<lparr>rk_entries := map entry_of (recent window now L)\<rparr>))
      = map entry_of (recent window t L)" if "now \<le> t" for t
  proof -
    have i: "filter (\<lambda>e. t - window < snd e) (live_entries t k) = map entry_of (recent window t L)"
      using inv now that by (simp add: limiter_inv_def recent_def)
    then show ?thesis using recent_recent[OF that, of window L]
      by (auto simp: live_entries_def filter_entries split: option.splits if_splits)
  qed
  then show ?thesis using inv now by (auto simp: limiter_inv_def recent_def)
qed

lemma limiter_inv_step: "limiter_inv window limit s \<Longrightarrow> limiter_step window limit s s' \<Longrightarrow> limiter_inv window limit s'"
proof (erule limiter_step.cases)
  fix T now tag L k ok rem ra k'
  assume s: "limiter_inv window limit s" "s = (T, L, k)" "s' = (now, if ok then L @ [(now, tag)] else L, k')"
    and now: "T \<le> now" "(now, tag) \<notin> set L" and sc: "SLIDING_WINDOW window limit tag now k = (Some (ok, rem, ra), k')"
  have inv: "limiter_inv window limit (T, L, k)" using s by simp
  show "limiter_inv window limit s'"
    using sc limiter_inv_admit[OF inv now] limiter_inv_refuse[OF inv now(1)] unfolding s(3) script_counts[OF inv now(1)]
    by (auto simp: Let_def split: if_splits)
qed

interpretation limiter: invariant_system "\<lambda>s. s = (T0, [], no_key)" "limiter_step window limit" "limiter_inv window limit" for T0 window limit
proof
  show "limiter_inv window limit s" if "s = (T0, [], no_key)" for s
    using that by (simp add: limiter_inv_def no_key_def live_entries_def in_window_def)
qed (rule limiter_inv_step)

text \<open>After a refusal the set is as full as it may be, and the oldest entry says when the next one fits.\<close>

lemma refusal_until:
  assumes inv: "limiter_inv window limit (T, L, k)" and "T \<le> now" "0 < limit"
    and full: "limit \<le> int (length (recent window now L))" and "now \<le> t"
  shows "int (length (recent window t L)) < limit \<longleftrightarrow> Min (fst ` set (recent window now L)) + window \<le> t"
proof -
  let ?R = "recent window now L" and ?P = "\<lambda>r. t - window < fst r"
  have "in_window window now L = ?R" using inv assms(2) by (auto simp: limiter_inv_def intro: recent_in_window)
  moreover have "int (length (in_window window now L)) \<le> max 0 limit" using inv by (simp add: limiter_inv_def)
  ultimately have len: "int (length ?R) = limit" using assms(3) full by simp
  have t: "recent window t L = filter ?P ?R" by (rule recent_recent[OF assms(5), symmetric])
  have "length (filter ?P ?R) < length ?R \<longleftrightarrow> (\<exists>r \<in> set ?R. fst r \<le> t - window)"
  proof
    assume "length (filter ?P ?R) < length ?R"
    then show "\<exists>r \<in> set ?R. fst r \<le> t - window" by (metis filter_id_conv less_irrefl not_less)
  qed (auto intro: length_filter_less)
  moreover have "fst ` set ?R \<noteq> {}" using len assms(3) by auto
  then have "(\<exists>r \<in> set ?R. fst r \<le> t - window) \<longleftrightarrow> Min (fst ` set ?R) \<le> t - window" by (simp add: Min_le_iff)
  ultimately show ?thesis using len t by auto
qed

section \<open>Properties\<close>

text \<open>C31: a sliding window. However requests on a key come in, no period of the length of the window
  ever holds more admitted requests than the limit. A request is admitted exactly if the last window
  holds fewer, and the reply says how many are left; a refused one learns a waiting time, positive and at
  most the window, before whose end every further request is refused and after which the next one
  passes. Requests of one millisecond need different tags.\<close>

theorem rate_limit_sliding_window:
  assumes "reach (\<lambda>s. s = (T0, [], no_key)) (limiter_step window limit) (T, L, k)" "0 < limit" "T \<le> now"
  shows "(\<forall>t. int (length (in_window window t L)) \<le> limit)
    \<and> (\<exists>ok remaining retry k'. SLIDING_WINDOW window limit tag now k = (Some (ok, remaining, retry), k')
        \<and> (ok \<longleftrightarrow> int (length (in_window window now L)) < limit)
        \<and> (ok \<longrightarrow> remaining = limit - int (length (in_window window now L)) - 1)
        \<and> (\<not> ok \<longrightarrow> 0 < retry \<and> retry \<le> window
             \<and> (\<forall>t tag'. now \<le> t \<longrightarrow> ((\<exists>rem' k''. SLIDING_WINDOW window limit tag' t k' = (Some (True, rem', 0), k'')) \<longleftrightarrow> now + retry \<le> t))))"
proof -
  have inv: "limiter_inv window limit (T, L, k)" by (rule limiter.reach_inv[OF assms(1)])
  then have "\<forall>r \<in> set L. fst r \<le> T" by (simp add: limiter_inv_def)
  then have iw: "in_window window now L = recent window now L" "\<forall>r \<in> set (recent window now L). fst r \<le> now"
    using recent_in_window[of L T now] assms(3) by (auto simp: recent_def)
  have bound: "\<forall>t. int (length (in_window window t L)) \<le> limit" using inv assms(2) by (auto simp: limiter_inv_def)
  show ?thesis
  proof (cases "int (length (recent window now L)) < limit")
    case True
    then show ?thesis using bound by (auto simp: script_counts[OF inv assms(3)] iw(1))
  next
    case False
    let ?m = "Min (fst ` set (recent window now L))"
    let ?k = "k\<lparr>rk_entries := map entry_of (recent window now L)\<rparr>"
    have ne: "recent window now L \<noteq> []" using False assms(2) by auto
    then have "?m \<in> fst ` set (recent window now L)" by (intro Min_in) auto
    then have m: "now - window < ?m" "?m \<le> now" using iw(2) by (auto simp: recent_def)
    have inv': "limiter_inv window limit (now, L, ?k)" by (rule limiter_inv_refuse[OF inv assms(3)])
    have "(\<exists>rem' k''. SLIDING_WINDOW window limit tag' t ?k = (Some (True, rem', 0), k'')) \<longleftrightarrow> now + (?m + window - now) \<le> t"
      if "now \<le> t" for t tag'
      using refusal_until[OF inv assms(3,2) _ that] False by (simp add: script_counts[OF inv' that] Let_def)
    moreover have "SLIDING_WINDOW window limit tag now k = (Some (False, 0, ?m + window - now), ?k)"
      using False ne by (simp add: script_counts[OF inv assms(3)] Let_def)
    ultimately show ?thesis using bound False m unfolding iw(1)
      by (intro conjI exI[of _ False] exI[of _ 0] exI[of _ "?m + window - now"] exI[of _ ?k]) auto
  qed
qed

definition demo_window :: window_key where
  "demo_window = snd (SLIDING_WINDOW 1000 1 ''a'' 50 no_key)"

theorem rate_limit_sliding_window_witness:
  "limiter_step 1000 1 (0, [], no_key) (50, [(50, ''a'')], demo_window)
   \<and> length (in_window 1000 900 [(50, ''a'')]) = 1
   \<and> (\<exists>remaining retry k'. SLIDING_WINDOW 1000 1 ''b'' 900 demo_window = (Some (False, remaining, retry), k') \<and> 0 < retry)"
proof -
  have "limiter_step 1000 1 (0, [], no_key) (50, if True then [] @ [(50, ''a'')] else [], demo_window)"
    by (rule ls_request) (simp_all add: demo_window_def SLIDING_WINDOW_def no_key_def live_entries_def)
  then have st: "limiter_step 1000 1 (0, [], no_key) (50, [(50, ''a'')], demo_window)" by simp
  have "reach (\<lambda>s. s = (0, [], no_key)) (limiter_step 1000 1) (50, [(50, ''a'')], demo_window)"
    by (rule reach_step[where s = "(0, [], no_key)"]) (auto intro: reach_init st)
  from rate_limit_sliding_window[OF this, of 900 "''b''"] have
    "\<exists>ok remaining retry k'. SLIDING_WINDOW 1000 1 ''b'' 900 demo_window = (Some (ok, remaining, retry), k')
        \<and> (ok \<longleftrightarrow> int (length (in_window 1000 900 [(50, ''a'')])) < 1) \<and> (\<not> ok \<longrightarrow> 0 < retry)"
    by auto
  then show ?thesis using st by (auto simp: in_window_def)
qed

text \<open>When the middleware refuses. With Redis down, the limiters of login and registration refuse
  with 503 and the others let the request pass; with Redis up every limiter of the project answers, for
  a known subject, by letting the request pass or with 429 and a \<open>Retry-After\<close> of at least one second
  that covers the waiting time of the script. A request without a subject passes and costs nothing.\<close>

theorem rate_limiters_refuse:
  assumes "l \<in> {loginPerAccount R, loginPerIp R, register_limiter R, api_limiter R, run_limiter R, upload_limiter R}"
    "R = createRateLimiters scale"
  shows "l_failClosed (loginPerAccount R) \<and> l_failClosed (loginPerIp R) \<and> l_failClosed (register_limiter R)
    \<and> \<not> l_failClosed (api_limiter R) \<and> \<not> l_failClosed (run_limiter R) \<and> \<not> l_failClosed (upload_limiter R)
    \<and> (l_key l req = None \<longrightarrow> rateLimitMiddleware prefix l up tag now req redis = ((Inr (), []), redis))
    \<and> (\<forall>who. l_key l req = Some who \<longrightarrow> who \<noteq> [] \<longrightarrow>
         rateLimitMiddleware prefix l False tag now req redis =
           ((if l_failClosed l then Inl (AppError 503 ''RATE_LIMITER_UNAVAILABLE'') else Inr (), []), redis)
         \<and> (\<exists>ok remaining retry k headers. SLIDING_WINDOW (l_windowMs l) (l_limit l) tag now (redis (prefix @ '':'' @ l_name l @ '':'' @ who))
                = (Some (ok, remaining, retry), k)
              \<and> rateLimitMiddleware prefix l True tag now req redis =
                  ((if ok then Inr () else Inl (AppError 429 ''RATE_LIMITED''), headers), redis(prefix @ '':'' @ l_name l @ '':'' @ who := k))
              \<and> (\<not> ok \<longrightarrow> (\<exists>secs. (''Retry-After'', secs) \<in> set headers \<and> 1 \<le> secs \<and> retry \<le> 1000 * secs))))"
proof -
  have lim: "1 \<le> l_limit l" using assms(1) unfolding assms(2) by (auto simp: createRateLimiters_def scaled_def)
  have fc: "l_failClosed (loginPerAccount R)" "l_failClosed (loginPerIp R)" "l_failClosed (register_limiter R)"
      "\<not> l_failClosed (api_limiter R)" "\<not> l_failClosed (run_limiter R)" "\<not> l_failClosed (upload_limiter R)"
    unfolding assms(2) by (simp_all add: createRateLimiters_def)
  have script: "\<exists>ok remaining retry k. SLIDING_WINDOW (l_windowMs l) (l_limit l) tag now k0 = (Some (ok, remaining, retry), k)" for k0
    using lim by (auto simp: SLIDING_WINDOW_def Let_def)
  have secs: "1 \<le> max 1 \<lceil>of_int r / 1000 :: rat\<rceil> \<and> r \<le> 1000 * max 1 \<lceil>of_int r / 1000 :: rat\<rceil>" for r :: int
  proof -
    have "of_int r \<le> (of_int (1000 * \<lceil>of_int r / 1000 :: rat\<rceil>) :: rat)"
      using le_of_int_ceiling[of "of_int r / 1000 :: rat"] unfolding of_int_mult of_int_numeral by linarith
    then show ?thesis by (simp only: of_int_le_iff) linarith
  qed
  have main: "\<exists>ok remaining retry k headers. SLIDING_WINDOW (l_windowMs l) (l_limit l) tag now (redis (prefix @ '':'' @ l_name l @ '':'' @ who))
          = (Some (ok, remaining, retry), k)
        \<and> rateLimitMiddleware prefix l True tag now req redis =
            ((if ok then Inr () else Inl (AppError 429 ''RATE_LIMITED''), headers), redis(prefix @ '':'' @ l_name l @ '':'' @ who := k))
        \<and> (\<not> ok \<longrightarrow> (\<exists>secs. (''Retry-After'', secs) \<in> set headers \<and> 1 \<le> secs \<and> retry \<le> 1000 * secs))"
    if "l_key l req = Some who" "who \<noteq> []" for who
  proof -
    obtain ok remaining retry k where s: "SLIDING_WINDOW (l_windowMs l) (l_limit l) tag now (redis (prefix @ '':'' @ l_name l @ '':'' @ who))
        = (Some (ok, remaining, retry), k)" using script by blast
    then show ?thesis using that secs[of retry] by (auto simp: rateLimitMiddleware_def Let_def)
  qed
  have down: "rateLimitMiddleware prefix l False tag now req redis =
      ((if l_failClosed l then Inl (AppError 503 ''RATE_LIMITER_UNAVAILABLE'') else Inr (), []), redis)"
    if "l_key l req = Some who" "who \<noteq> []" for who
    using that by (simp add: rateLimitMiddleware_def Let_def)
  have none: "l_key l req = None \<Longrightarrow> rateLimitMiddleware prefix l up tag now req redis = ((Inr (), []), redis)"
    by (simp add: rateLimitMiddleware_def)
  show ?thesis using fc none down main by blast
qed

theorem rate_limiters_refuse_witness:
  "rateLimitMiddleware ''wf:rl'' (loginPerIp (createRateLimiters 1)) False ''1-1'' 0 \<lparr>r_ip = Some ''::1'', r_email = None, r_user = None\<rparr> (\<lambda>_. no_key)
   = ((Inl (AppError 503 ''RATE_LIMITER_UNAVAILABLE''), []), \<lambda>_. no_key)"
  using rate_limiters_refuse[where l = "loginPerIp (createRateLimiters 1)" and R = "createRateLimiters 1" and scale = 1
      and req = "\<lparr>r_ip = Some ''::1'', r_email = None, r_user = None\<rparr>" and prefix = "''wf:rl''" and tag = "''1-1''" and now = 0
      and redis = "\<lambda>_. no_key"]
  by (auto simp: createRateLimiters_def req_ip_def)

end
