(* ===== verification/Wf_Providers.thy ===== *)
theory Wf_Providers
  imports Wf_System
begin

text \<open>
  Calls to language models: the circuit breaker of \<open>src/ai/providers/circuitBreaker.js\<close>, the fallback
  chain of \<open>src/ai/providers/fallback.js\<close> and the errors of \<open>src/ai/providers/errors.js\<close>. A provider is
  a function from the request to a reply or an error; \<open>now\<close> is \<open>Date.now()\<close>.
\<close>

section \<open>Errors\<close>

record provider_error =
  pe_message :: string
  pe_provider :: string
  pe_retryable :: "bool option"

definition isRetryableStatus :: "int \<Rightarrow> bool" where
  "isRetryableStatus status \<longleftrightarrow> status = 408 \<or> status = 429 \<or> 500 \<le> status"

section \<open>The circuit breaker\<close>

datatype circuit = CLOSED | OPEN | HALF_OPEN

record breaker =
  b_state :: circuit
  b_failures :: nat
  b_openedAt :: time
  b_trialInFlight :: bool

record breaker_config =
  bc_failureThreshold :: nat
  bc_cooldownMs :: int

definition createCircuitBreaker :: breaker where
  "createCircuitBreaker = \<lparr>b_state = CLOSED, b_failures = 0, b_openedAt = 0, b_trialInFlight = False\<rparr>"

definition allow :: "breaker_config \<Rightarrow> time \<Rightarrow> breaker \<Rightarrow> bool \<times> breaker" where
  "allow c now b =
     (let b = (if b_state b = OPEN \<and> bc_cooldownMs c \<le> now - b_openedAt b
               then b\<lparr>b_state := HALF_OPEN, b_trialInFlight := False\<rparr> else b) in
      if b_state b = CLOSED then (True, b)
      else if b_state b = HALF_OPEN \<and> \<not> b_trialInFlight b then (True, b\<lparr>b_trialInFlight := True\<rparr>)
      else (False, b))"

definition success :: "breaker \<Rightarrow> breaker" where
  "success b = b\<lparr>b_state := CLOSED, b_failures := 0, b_trialInFlight := False\<rparr>"

definition failure :: "breaker_config \<Rightarrow> time \<Rightarrow> breaker \<Rightarrow> breaker" where
  "failure c now b =
     (let b = b\<lparr>b_failures := b_failures b + 1, b_trialInFlight := False\<rparr> in
      if b_state b = HALF_OPEN \<or> bc_failureThreshold c \<le> b_failures b
      then b\<lparr>b_state := OPEN, b_openedAt := now\<rparr> else b)"

definition circuit_state :: "breaker_config \<Rightarrow> time \<Rightarrow> breaker \<Rightarrow> circuit" where
  "circuit_state c now b =
     (if b_state b = OPEN \<and> bc_cooldownMs c \<le> now - b_openedAt b then HALF_OPEN else b_state b)"

section \<open>The fallback chain\<close>

text \<open>\<open>'r\<close> is the reply of a provider. A request is the name of the model and the rest.\<close>

record ('q, 'r) provider =
  pr_name :: string
  pr_mapModel :: "(string \<Rightarrow> string) option"
  pr_chat :: "string \<Rightarrow> 'q \<Rightarrow> provider_error + 'r"
  pr_embed :: "string \<Rightarrow> 'q \<Rightarrow> provider_error + 'r"

record 'r answer =
  an_reply :: 'r
  an_provider :: string
  an_fallbackUsed :: bool

definition circuit_open :: "string \<Rightarrow> provider_error" where
  "circuit_open nm = \<lparr>pe_message = nm @ '' circuit open'', pe_provider = nm, pe_retryable = Some True\<rparr>"

definition all_failed :: "provider_error option \<Rightarrow> provider_error" where
  "all_failed lastError =
     \<lparr>pe_message = ''All LLM providers failed: '' @ (case lastError of None \<Rightarrow> ''none available'' | Some e \<Rightarrow> pe_message e),
      pe_provider = ''fallback'', pe_retryable = Some True\<rparr>"

definition model_for :: "('q, 'r) provider \<Rightarrow> string \<Rightarrow> string" where
  "model_for p model = (case pr_mapModel p of None \<Rightarrow> model | Some f \<Rightarrow> f model)"

text \<open>The loop of \<open>chat\<close>, from the \<open>i\<close>-th entry on. \<open>clock i\<close> gives the times at which the circuit of
  the \<open>i\<close>-th entry is asked and at which its failure is recorded.\<close>

fun chat_loop :: "breaker_config \<Rightarrow> (nat \<Rightarrow> time \<times> time) \<Rightarrow> string \<Rightarrow> 'q \<Rightarrow> nat \<Rightarrow> provider_error option
    \<Rightarrow> (('q, 'r) provider \<times> breaker) list \<Rightarrow> (provider_error + 'r answer) \<times> (('q, 'r) provider \<times> breaker) list" where
  "chat_loop c clock model q i lastError [] = (Inl (all_failed lastError), [])"
| "chat_loop c clock model q i lastError ((p, b) # chain) =
     (let (ok, b) = allow c (fst (clock i)) b in
      if \<not> ok
      then let (r, chain) = chat_loop c clock model q (i + 1) (Some (circuit_open (pr_name p))) chain in (r, (p, b) # chain)
      else case pr_chat p (model_for p model) q of
             Inr res \<Rightarrow> (Inr \<lparr>an_reply = res, an_provider = pr_name p, an_fallbackUsed = i > 0\<rparr>, (p, success b) # chain)
           | Inl err \<Rightarrow>
               if pe_retryable err = Some False then (Inl err, (p, b) # chain)
               else let (r, chain) = chat_loop c clock model q (i + 1) (Some err) chain
                    in (r, (p, failure c (snd (clock i)) b) # chain))"

definition chat :: "breaker_config \<Rightarrow> (nat \<Rightarrow> time \<times> time) \<Rightarrow> string \<Rightarrow> 'q
    \<Rightarrow> (('q, 'r) provider \<times> breaker) list \<Rightarrow> (provider_error + 'r answer) \<times> (('q, 'r) provider \<times> breaker) list" where
  "chat c clock model q chain = chat_loop c clock model q 0 None chain"

text \<open>\<open>embed\<close> uses the first provider only; \<open>None\<close> when the chain is empty (a \<open>TypeError\<close>).\<close>

definition embed :: "breaker_config \<Rightarrow> time \<times> time \<Rightarrow> string \<Rightarrow> 'q
    \<Rightarrow> (('q, 'r) provider \<times> breaker) list \<Rightarrow> ((provider_error + 'r answer) \<times> (('q, 'r) provider \<times> breaker) list) option" where
  "embed c clock model q chain =
     (case chain of
        [] \<Rightarrow> None
      | (p, b) # rest \<Rightarrow>
          let (ok, b) = allow c (fst clock) b in
          Some (if \<not> ok then (Inl (circuit_open (pr_name p)), (p, b) # rest)
                else case pr_embed p model q of
                       Inr res \<Rightarrow> (Inr \<lparr>an_reply = res, an_provider = pr_name p, an_fallbackUsed = False\<rparr>, (p, success b) # rest)
                     | Inl err \<Rightarrow> (Inl err, (p, if pe_retryable err \<noteq> Some False then failure c (snd clock) b else b) # rest)))"

section \<open>The breaker over time\<close>

text \<open>Calls to a breaker by any number of requests in flight. The list holds what was observed since the
  last success, newest first.\<close>

datatype breaker_event = Allowed | Refused | Failed time

inductive breaker_step :: "breaker_config \<Rightarrow> breaker \<times> breaker_event list \<Rightarrow> breaker \<times> breaker_event list \<Rightarrow> bool" for c where
  bs_allow: "allow c now b = (ok, b') \<Longrightarrow> breaker_step c (b, es) (b', (if ok then Allowed else Refused) # es)"
| bs_success: "breaker_step c (b, es) (success b, [])"
| bs_failure: "breaker_step c (b, es) (failure c now b, Failed now # es)"

fun failed_count :: "breaker_event list \<Rightarrow> nat" where
  "failed_count [] = 0"
| "failed_count (Failed _ # es) = failed_count es + 1"
| "failed_count (_ # es) = failed_count es"

fun last_failure :: "breaker_event list \<Rightarrow> time" where
  "last_failure [] = 0"
| "last_failure (Failed now # _) = now"
| "last_failure (_ # es) = last_failure es"

text \<open>A call was let through after the last failure.\<close>

fun tried :: "breaker_event list \<Rightarrow> bool" where
  "tried [] = False"
| "tried (Failed _ # _) = False"
| "tried (Allowed # es) = True"
| "tried (Refused # es) = tried es"

text \<open>The specification: whether a call may go through, from what was observed alone.\<close>

definition may_call :: "breaker_config \<Rightarrow> time \<Rightarrow> breaker_event list \<Rightarrow> bool" where
  "may_call c now es \<longleftrightarrow> failed_count es < bc_failureThreshold c \<or> \<not> tried es \<and> bc_cooldownMs c \<le> now - last_failure es"

definition breaker_inv :: "breaker_config \<Rightarrow> breaker \<times> breaker_event list \<Rightarrow> bool" where
  "breaker_inv c s = (case s of (b, es) \<Rightarrow>
     b_failures b = failed_count es
     \<and> (b_state b = CLOSED \<longleftrightarrow> failed_count es < bc_failureThreshold c)
     \<and> (b_trialInFlight b \<longleftrightarrow> b_state b = HALF_OPEN)
     \<and> (b_state b \<noteq> CLOSED \<longrightarrow> b_openedAt b = last_failure es \<and> (b_state b = HALF_OPEN \<longleftrightarrow> tried es)))"

lemma breaker_inv_allow:
  assumes "breaker_inv c (b, es)" "allow c now b = (ok, b')"
  shows "(ok \<longleftrightarrow> may_call c now es) \<and> breaker_inv c (b', (if ok then Allowed else Refused) # es)"
  using assms by (cases "b_state b") (auto simp: allow_def breaker_inv_def may_call_def Let_def split: if_splits)

lemma breaker_inv_step: "0 < bc_failureThreshold c \<Longrightarrow> breaker_inv c s \<Longrightarrow> breaker_step c s s' \<Longrightarrow> breaker_inv c s'"
proof (erule breaker_step.cases)
  fix now b ok b' es
  assume "breaker_inv c s" "s = (b, es)" "s' = (b', (if ok then Allowed else Refused) # es)" "allow c now b = (ok, b')"
  then show "breaker_inv c s'" using breaker_inv_allow[of c b es now ok b'] by blast
next
  fix b es
  assume "0 < bc_failureThreshold c" "s' = (success b, [])"
  then show "breaker_inv c s'" by (simp add: breaker_inv_def success_def)
next
  fix b es now
  assume "0 < bc_failureThreshold c" "breaker_inv c s" "s = (b, es)" "s' = (failure c now b, Failed now # es)"
  then show "breaker_inv c s'" by (cases "b_state b") (auto simp: breaker_inv_def failure_def Let_def)
qed

interpretation circuit: invariant_system "\<lambda>s. s = (createCircuitBreaker, [])" "breaker_step \<lparr>bc_failureThreshold = Suc n, bc_cooldownMs = d\<rparr>"
  "breaker_inv \<lparr>bc_failureThreshold = Suc n, bc_cooldownMs = d\<rparr>" for n d
proof
  show "breaker_inv \<lparr>bc_failureThreshold = Suc n, bc_cooldownMs = d\<rparr> s" if "s = (createCircuitBreaker, [])" for s
    using that by (simp add: breaker_inv_def createCircuitBreaker_def)
qed (rule breaker_inv_step, simp_all)

section \<open>Properties\<close>



text \<open>An entry the chain moves on from: its circuit refuses, or it fails in a way worth a retry; and what
  becomes of its circuit.\<close>

definition passed_over :: "breaker_config \<Rightarrow> time \<times> time \<Rightarrow> string \<Rightarrow> 'q \<Rightarrow> ('q, 'r) provider \<times> breaker \<Rightarrow> bool" where
  "passed_over c clk model q x \<longleftrightarrow> \<not> fst (allow c (fst clk) (snd x))
     \<or> (\<exists>err. pr_chat (fst x) (model_for (fst x) model) q = Inl err \<and> pe_retryable err \<noteq> Some False)"

definition after_pass :: "breaker_config \<Rightarrow> time \<times> time \<Rightarrow> ('q, 'r) provider \<times> breaker \<Rightarrow> ('q, 'r) provider \<times> breaker" where
  "after_pass c clk x = (fst x, if fst (allow c (fst clk) (snd x)) then failure c (snd clk) (snd (allow c (fst clk) (snd x)))
     else snd (allow c (fst clk) (snd x)))"

fun after_passes :: "breaker_config \<Rightarrow> (nat \<Rightarrow> time \<times> time) \<Rightarrow> nat \<Rightarrow> (('q, 'r) provider \<times> breaker) list \<Rightarrow> (('q, 'r) provider \<times> breaker) list" where
  "after_passes c clock i [] = []"
| "after_passes c clock i (x # xs) = after_pass c (clock i) x # after_passes c clock (i + 1) xs"

text \<open>How a call ends at the first entry that is not passed over.\<close>

definition ends_at :: "breaker_config \<Rightarrow> time \<times> time \<Rightarrow> string \<Rightarrow> 'q \<Rightarrow> bool \<Rightarrow> ('q, 'r) provider \<times> breaker
    \<Rightarrow> provider_error + 'r answer \<Rightarrow> breaker \<Rightarrow> bool" where
  "ends_at c clk model q fb x r b' \<longleftrightarrow> fst (allow c (fst clk) (snd x)) \<and>
     (case pr_chat (fst x) (model_for (fst x) model) q of
        Inr res \<Rightarrow> r = Inr \<lparr>an_reply = res, an_provider = pr_name (fst x), an_fallbackUsed = fb\<rparr>
                   \<and> b' = success (snd (allow c (fst clk) (snd x)))
      | Inl err \<Rightarrow> pe_retryable err = Some False \<and> r = Inl err \<and> b' = snd (allow c (fst clk) (snd x)))"

lemma chat_loop_outcome:
  assumes "chat_loop c clock model q k le chain = (r, out)"
  shows "\<exists>pre rest. chain = pre @ rest \<and> (\<forall>j < length pre. passed_over c (clock (k + j)) model q (pre ! j)) \<and>
    (rest = [] \<and> (\<exists>e. r = Inl e \<and> pe_retryable e = Some True) \<and> out = after_passes c clock k pre
     \<or> (\<exists>x rest' b'. rest = x # rest' \<and> ends_at c (clock (k + length pre)) model q (0 < k + length pre) x r b'
          \<and> out = after_passes c clock k pre @ (fst x, b') # rest'))"
  using assms
proof (induction chain arbitrary: k le out)
  case (Cons x chain)
  obtain p b where x: "x = (p, b)" by (cases x)
  obtain ok b1 where al: "allow c (fst (clock k)) b = (ok, b1)" by (cases "allow c (fst (clock k)) b")
  show ?case
  proof (cases "passed_over c (clock k) model q x")
    case True
    then obtain le' out' where rec: "chat_loop c clock model q (k + 1) le' chain = (r, out')" "out = after_pass c (clock k) x # out'"
      using Cons.prems al by (auto simp: x passed_over_def after_pass_def split: if_splits prod.splits)
    from Cons.IH[OF rec(1)] obtain pre rest where h: "chain = pre @ rest"
        "\<forall>j < length pre. passed_over c (clock (k + 1 + j)) model q (pre ! j)"
        "rest = [] \<and> (\<exists>e. r = Inl e \<and> pe_retryable e = Some True) \<and> out' = after_passes c clock (k + 1) pre
         \<or> (\<exists>x rest' b'. rest = x # rest' \<and> ends_at c (clock (k + 1 + length pre)) model q (0 < k + 1 + length pre) x r b'
              \<and> out' = after_passes c clock (k + 1) pre @ (fst x, b') # rest')" by blast
    have "\<forall>j < length (x # pre). passed_over c (clock (k + j)) model q ((x # pre) ! j)"
      using h(2) True by (auto simp: nth_Cons' less_Suc_eq_0_disj)
    then show ?thesis using h(1,3) rec(2) by (intro exI[of _ "x # pre"] exI[of _ rest]) auto
  next
    case False
    then have "\<exists>b'. ends_at c (clock k) model q (0 < k) x r b' \<and> out = (p, b') # chain"
      using Cons.prems al by (auto simp: x passed_over_def ends_at_def split: if_splits sum.splits)
    then show ?thesis by (intro exI[of _ "[]"] exI[of _ "x # chain"]) (auto simp: x)
  qed
qed (auto simp: all_failed_def)

text \<open>The fallback chain. The answer of a call comes from the first provider whose circuit lets it
  through and that does not fail in a retryable way: its reply, marked as fallback unless it is the
  primary, or its non-retryable error, at once. If there is none, the call fails with an
  error the task engine retries. Providers after that one are not asked and their circuits stay; the
  circuits before it record a failure exactly if they let the call through.\<close>

theorem fallback_first_working:
  assumes "chat c clock model q chain = (r, out)"
  shows "\<exists>pre rest. chain = pre @ rest \<and> (\<forall>j < length pre. passed_over c (clock j) model q (pre ! j)) \<and>
    (rest = [] \<and> (\<exists>e. r = Inl e \<and> pe_retryable e = Some True) \<and> out = after_passes c clock 0 pre
     \<or> (\<exists>x rest' b'. rest = x # rest' \<and> ends_at c (clock (length pre)) model q (pre \<noteq> []) x r b'
          \<and> out = after_passes c clock 0 pre @ (fst x, b') # rest'))"
  using chat_loop_outcome[OF assms[unfolded chat_def]] by simp

definition demo_provider :: "string \<Rightarrow> (provider_error + nat) \<Rightarrow> (nat, nat) provider" where
  "demo_provider nm r = \<lparr>pr_name = nm, pr_mapModel = None, pr_chat = (\<lambda>_ _. r), pr_embed = (\<lambda>_ _. r)\<rparr>"

definition down :: provider_error where
  "down = \<lparr>pe_message = ''down'', pe_provider = ''a'', pe_retryable = Some True\<rparr>"

definition demo_config :: breaker_config where
  "demo_config = \<lparr>bc_failureThreshold = 3, bc_cooldownMs = 30000\<rparr>"

theorem fallback_first_working_witness:
  "\<exists>out. chat demo_config (\<lambda>_. (0, 1)) ''m'' 0 [(demo_provider ''a'' (Inl down), createCircuitBreaker), (demo_provider ''b'' (Inr 7), createCircuitBreaker)]
     = (Inr \<lparr>an_reply = 7, an_provider = ''b'', an_fallbackUsed = True\<rparr>, out)
   \<and> length out = 2 \<and> snd (hd out) = failure demo_config 1 createCircuitBreaker"
proof -
  let ?chain = "[(demo_provider ''a'' (Inl down), createCircuitBreaker), (demo_provider ''b'' (Inr 7), createCircuitBreaker)]"
  let ?r = "Inr \<lparr>an_reply = 7, an_provider = ''b'', an_fallbackUsed = True\<rparr>"
  let ?out = "[(demo_provider ''a'' (Inl down), failure demo_config 1 createCircuitBreaker), (demo_provider ''b'' (Inr 7), success createCircuitBreaker)]"
  have "chat demo_config (\<lambda>_. (0, 1)) ''m'' 0 ?chain = (?r, ?out)"
    by (simp add: chat_def allow_def createCircuitBreaker_def demo_provider_def down_def)
  from this fallback_first_working[OF this] show ?thesis by auto
qed

text \<open>A trial call that ends with a non-retryable error is reported neither as a success nor as a failure:
  the circuit stays half open with its trial in flight, and no call ever goes through again, whatever
  the time.\<close>

theorem half_open_wedges:
  assumes "chat c clock model q [(p, b)] = (Inl err, chain)" "pe_retryable err = Some False" "b_state b \<noteq> CLOSED"
  shows "chat c clock' model' q' chain = (Inl (all_failed (Some (circuit_open (pr_name p)))), chain)"
  using assms by (auto simp: chat_def allow_def all_failed_def Let_def split: if_splits prod.splits sum.splits)

end
