(* ===== verification/Wf_Rag.thy ===== *)
theory Wf_Rag
  imports Wf_Llm Wf_Schema Wf_Access
begin

text \<open>
  The knowledge base: \<open>src/ai/rag/text.js\<close>, \<open>src/ai/rag/pipeline.js\<close>, the collections of
  \<open>src/models/knowledge.model.js\<close> and what \<open>src/ai/rag/vectorStore.js\<close> asks of Qdrant. Parameters are the
  embedding model and the chat model (with one state), Unicode normalisation, SHA-256, the text splitter,
  the nearest-neighbour search, which gets the points its filter leaves, rounding of scores, and
  the faults of the stores: which call fails, and how much of its effect is there.
\<close>

section \<open>Cleaning\<close>

text \<open>Replacing every maximal run of \<open>P\<close> (\<open>[...]+\<close>) by one text.\<close>

fun replace_runs :: "(char \<Rightarrow> bool) \<Rightarrow> string \<Rightarrow> bool \<Rightarrow> string \<Rightarrow> string" where
  "replace_runs P r inside [] = []"
| "replace_runs P r inside (c # cs) =
     (if P c then (if inside then replace_runs P r True cs else r @ replace_runs P r True cs)
      else c # replace_runs P r False cs)"

definition control_char :: "char \<Rightarrow> bool" where
  "control_char c \<longleftrightarrow> (let n = of_char c :: nat in n \<le> 8 \<or> n = 11 \<or> n = 12 \<or> 14 \<le> n \<and> n \<le> 31 \<or> n = 127)"

text \<open>\<open>replace(/ *\n */g, "\n")\<close>: \<open>sp\<close> counts the spaces read but not yet written.\<close>

fun trim_lines :: "nat \<Rightarrow> bool \<Rightarrow> string \<Rightarrow> string" where
  "trim_lines sp after_nl [] = (if after_nl then [] else replicate sp CHR 0x20)"
| "trim_lines sp after_nl (c # cs) =
     (if c = CHR 0x20 then trim_lines (sp + 1) after_nl cs
      else if c = CHR 0x0A then c # trim_lines 0 True cs
      else (if after_nl then [] else replicate sp CHR 0x20) @ c # trim_lines 0 False cs)"

text \<open>\<open>replace(/\n{3,}/g, "\n\n")\<close>\<close>

fun cap_newlines :: "nat \<Rightarrow> string \<Rightarrow> string" where
  "cap_newlines n [] = []"
| "cap_newlines n (c # cs) =
     (if c = CHR 0x0A then (if n \<ge> 2 then cap_newlines (n + 1) cs else c # cap_newlines (n + 1) cs)
      else c # cap_newlines 0 cs)"

definition cleanText :: "(string \<Rightarrow> string) \<Rightarrow> string \<Rightarrow> string" where
  "cleanText nfkc raw =
     trim (cap_newlines 0 (trim_lines 0 False (filter (\<lambda>c. \<not> control_char c)
       (replace_runs (\<lambda>c. is_space c \<and> c \<noteq> CHR 0x0A) '' '' False (nfkc raw)))))"

section \<open>The collections\<close>

datatype document_status = PROCESSING | READY | FAILED

record document =
  kd_id :: oid
  kd_ownerId :: oid
  kd_title :: string
  kd_mimeType :: string
  kd_contentHash :: string
  kd_status :: document_status
  kd_chunkCount :: nat
  kd_embeddingModel :: string
  kd_vectorDims :: "nat option"
  kd_error :: "string option"

record chunk =
  kc_documentId :: oid
  kc_ownerId :: oid
  kc_index :: nat
  kc_text :: string
  kc_pointId :: string
  kc_embeddingModel :: string

record point =
  pt_collection :: string
  pt_id :: string
  pt_vector :: "rat list"
  pt_ownerId :: oid
  pt_documentId :: oid
  pt_chunkIndex :: nat
  pt_title :: string
  pt_text :: string

record kb =
  kb_documents :: "document list"
  kb_chunks :: "chunk list"
  kb_points :: "point list"

definition empty_kb :: kb where
  "empty_kb = \<lparr>kb_documents = [], kb_chunks = [], kb_points = []\<rparr>"

section \<open>The vector store\<close>

text \<open>\<open>model.replace(/[^a-zA-Z0-9]+/g, "_")\<close>; creating a missing collection changes nothing here.\<close>

definition collectionName :: "string \<Rightarrow> string \<Rightarrow> nat \<Rightarrow> string" where
  "collectionName prefix model dims =
     prefix @ ''_'' @ replace_runs (\<lambda>c. \<not> char_in [(97, 122), (65, 90), (48, 57)] [] c) ''_'' False model @ ''_'' @ show_nat dims"

text \<open>A point replaces the one with its id.\<close>

definition upsert :: "point list \<Rightarrow> point list \<Rightarrow> point list" where
  "upsert ps qs = filter (\<lambda>q. \<not> (\<exists>p \<in> set ps. pt_collection p = pt_collection q \<and> pt_id p = pt_id q)) qs @ ps"

definition deleteByDocument :: "string \<Rightarrow> oid \<Rightarrow> point list \<Rightarrow> point list" where
  "deleteByDocument coll documentId = filter (\<lambda>p. \<not> (pt_collection p = coll \<and> pt_documentId p = documentId))"

type_synonym qdrant = "rat list \<Rightarrow> nat \<Rightarrow> rat \<Rightarrow> point list \<Rightarrow> (point \<times> rat) list"

definition search :: "qdrant \<Rightarrow> string \<Rightarrow> string \<Rightarrow> rat list \<Rightarrow> oid \<Rightarrow> nat \<Rightarrow> rat \<Rightarrow> point list \<Rightarrow> (point \<times> rat) list" where
  "search query prefix model vector ownerId topK minScore ps =
     query vector topK minScore
       (filter (\<lambda>p. pt_collection p = collectionName prefix model (length vector) \<and> pt_ownerId p = ownerId) ps)"

section \<open>Embedding and retrieval\<close>

type_synonym 's embedder = "string \<Rightarrow> string list \<Rightarrow> 's \<Rightarrow> (js_error + rat list list) \<times> 's"

definition EMBED_BATCH :: nat where
  "EMBED_BATCH = 16"

function embedAll :: "'s embedder \<Rightarrow> string \<Rightarrow> string list \<Rightarrow> 's \<Rightarrow> (js_error + rat list list) \<times> 's" where
  "embedAll emb model texts s =
     (if texts = [] then (Inr [], s)
      else case emb model (take EMBED_BATCH texts) s of
             (Inl err, s') \<Rightarrow> (Inl err, s')
           | (Inr batch, s') \<Rightarrow>
               (case embedAll emb model (drop EMBED_BATCH texts) s' of
                  (Inl err, s'') \<Rightarrow> (Inl err, s'')
                | (Inr rest, s'') \<Rightarrow> (Inr (batch @ rest), s'')))"
  by pat_completeness auto
termination by (relation "measure (\<lambda>(emb, model, texts, s). length texts)") (auto simp: EMBED_BATCH_def)

declare embedAll.simps [simp del]

record rag_config =
  rc_prefix :: string
  rc_embedding :: string
  rc_topK :: nat
  rc_minScore :: rat
  rc_split :: "string \<Rightarrow> string list"
  rc_query :: qdrant
  rc_round4 :: "rat \<Rightarrow> rat"
  rc_nfkc :: "string \<Rightarrow> string"
  rc_sha :: "string \<Rightarrow> string"

record hit =
  hi_pointId :: string
  hi_score :: rat
  hi_documentId :: oid
  hi_title :: string
  hi_chunkIndex :: nat
  hi_text :: string

definition TypeError :: js_error where
  "TypeError = \<lparr>je_name = ''TypeError'', je_message = [], je_retryable = None, je_non_retryable = False\<rparr>"

definition hit_of :: "rag_config \<Rightarrow> point \<times> rat \<Rightarrow> hit" where
  "hit_of cfg h = (case h of (p, score) \<Rightarrow>
     \<lparr>hi_pointId = pt_id p, hi_score = rc_round4 cfg score, hi_documentId = pt_documentId p, hi_title = pt_title p,
      hi_chunkIndex = pt_chunkIndex p, hi_text = pt_text p\<rparr>)"

text \<open>No vector for the query: reading its \<open>length\<close> is a \<open>TypeError\<close>.\<close>

definition retrieve :: "rag_config \<Rightarrow> 's embedder \<Rightarrow> point list \<Rightarrow> oid \<Rightarrow> string \<Rightarrow> nat \<Rightarrow> 's \<Rightarrow> (js_error + hit list) \<times> 's" where
  "retrieve cfg emb ps ownerId query k s =
     (case emb (rc_embedding cfg) [query] s of
        (Inl err, s') \<Rightarrow> (Inl err, s')
      | (Inr [], s') \<Rightarrow> (Inl TypeError, s')
      | (Inr (vector # _), s') \<Rightarrow>
          (Inr (map (hit_of cfg) (search (rc_query cfg) (rc_prefix cfg) (rc_embedding cfg) vector ownerId k (rc_minScore cfg) ps)), s'))"

section \<open>Ingestion\<close>

datatype rag_failure = Refused error | Thrown js_error

text \<open>What goes wrong: \<open>insertMany\<close> after some chunks, the upsert without or with its effect
  (\<open>fa_refused\<close>: for a point without a vector), the final
  \<open>save\<close>; then the two clean-up calls, whose errors are swallowed, and the \<open>save\<close> of the failed document.\<close>

record faults =
  fa_insert :: "(nat \<times> js_error) option"
  fa_upsert :: "(bool \<times> js_error) option"
  fa_refused :: js_error
  fa_save :: "js_error option"
  fa_unchunk :: bool
  fa_unpoint :: bool
  fa_save_failed :: "js_error option"

definition no_faults :: faults where
  "no_faults = \<lparr>fa_insert = None, fa_upsert = None, fa_refused = TypeError, fa_save = None, fa_unchunk = False, fa_unpoint = False, fa_save_failed = None\<rparr>"

definition new_document :: "rag_config \<Rightarrow> oid \<Rightarrow> oid \<Rightarrow> string \<Rightarrow> string \<Rightarrow> string \<Rightarrow> document" where
  "new_document cfg i ownerId title mimeType contentHash =
     \<lparr>kd_id = i, kd_ownerId = ownerId, kd_title = title, kd_mimeType = mimeType, kd_contentHash = contentHash,
      kd_status = PROCESSING, kd_chunkCount = 0, kd_embeddingModel = rc_embedding cfg, kd_vectorDims = None, kd_error = None\<rparr>"

text \<open>\<open>KnowledgeDocument.create\<close>, with the unique index on owner and hash.\<close>

definition create_document :: "document \<Rightarrow> kb \<Rightarrow> kb result" where
  "create_document d k =
     (if \<exists>d' \<in> set (kb_documents k). kd_ownerId d' = kd_ownerId d \<and> kd_contentHash d' = kd_contentHash d
      then Inl (ConflictError ''DUPLICATE_DOCUMENT'') else Inr (k\<lparr>kb_documents := kb_documents k @ [d]\<rparr>))"

definition chunks_of :: "document \<Rightarrow> (nat \<Rightarrow> string) \<Rightarrow> string list \<Rightarrow> chunk list" where
  "chunks_of d uuid pieces =
     map (\<lambda>(i, piece). \<lparr>kc_documentId = kd_id d, kc_ownerId = kd_ownerId d, kc_index = i, kc_text = piece,
           kc_pointId = uuid i, kc_embeddingModel = kd_embeddingModel d\<rparr>) (enumerate 0 pieces)"

definition points_of :: "rag_config \<Rightarrow> document \<Rightarrow> nat \<Rightarrow> chunk list \<Rightarrow> rat list list \<Rightarrow> point list" where
  "points_of cfg d dims chunks vectors =
     map (\<lambda>(c, v). \<lparr>pt_collection = collectionName (rc_prefix cfg) (kd_embeddingModel d) dims, pt_id = kc_pointId c, pt_vector = v,
           pt_ownerId = kd_ownerId d, pt_documentId = kd_id d, pt_chunkIndex = kc_index c, pt_title = kd_title d,
           pt_text = kc_text c\<rparr>) (zip chunks vectors)"

definition set_document :: "document \<Rightarrow> kb \<Rightarrow> kb" where
  "set_document d k = k\<lparr>kb_documents := map (\<lambda>d'. if kd_id d' = kd_id d then d else d') (kb_documents k)\<rparr>"

text \<open>The \<open>try\<close> block, from the vectors on: the document to save, or the error and whether \<open>dims\<close> was set.
  A missing vector makes Qdrant refuse the upsert.\<close>

definition store_chunks :: "rag_config \<Rightarrow> faults \<Rightarrow> document \<Rightarrow> (nat \<Rightarrow> string) \<Rightarrow> string list \<Rightarrow> rat list list \<Rightarrow> kb
    \<Rightarrow> (js_error + document) \<times> kb" where
  "store_chunks cfg fa d uuid pieces vectors k =
     (let dims = length (hd vectors); chunks = chunks_of d uuid pieces; ps = points_of cfg d dims chunks vectors in
      case fa_insert fa of
        Some (n, err) \<Rightarrow> (Inl err, k\<lparr>kb_chunks := kb_chunks k @ take n chunks\<rparr>)
      | None \<Rightarrow>
          let k = k\<lparr>kb_chunks := kb_chunks k @ chunks\<rparr> in
          if length vectors < length chunks then (Inl (fa_refused fa), k)
          else case fa_upsert fa of
            Some (stored, err) \<Rightarrow> (Inl err, if stored then k\<lparr>kb_points := upsert ps (kb_points k)\<rparr> else k)
          | None \<Rightarrow>
              let k = k\<lparr>kb_points := upsert ps (kb_points k)\<rparr>;
                  d = d\<lparr>kd_status := READY, kd_chunkCount := length chunks, kd_vectorDims := Some dims\<rparr> in
              case fa_save fa of
                Some err \<Rightarrow> (Inl err, k)
              | None \<Rightarrow> (Inr d, set_document d k))"

text \<open>The \<open>catch\<close> block. After a failed \<open>save\<close> the document in memory keeps its count and dimension.\<close>

definition clean_up :: "rag_config \<Rightarrow> faults \<Rightarrow> document \<Rightarrow> nat option \<Rightarrow> js_error \<Rightarrow> kb \<Rightarrow> js_error \<times> kb" where
  "clean_up cfg fa d dims err k =
     (let k = (if fa_unchunk fa then k else k\<lparr>kb_chunks := filter (\<lambda>c. kc_documentId c \<noteq> kd_id d) (kb_chunks k)\<rparr>);
          k = (case dims of
                 None \<Rightarrow> k
               | Some n \<Rightarrow> if n = 0 \<or> fa_unpoint fa then k
                   else k\<lparr>kb_points := deleteByDocument (collectionName (rc_prefix cfg) (rc_embedding cfg) n) (kd_id d) (kb_points k)\<rparr>);
          d = d\<lparr>kd_status := FAILED, kd_error := Some (take 500 (je_message err))\<rparr> in
      case fa_save_failed fa of Some err' \<Rightarrow> (err', k) | None \<Rightarrow> (err, set_document d k))"

text \<open>The document object in memory when the \<open>catch\<close> block runs.\<close>

definition in_memory :: "faults \<Rightarrow> document \<Rightarrow> string list \<Rightarrow> rat list list \<Rightarrow> document" where
  "in_memory fa d pieces vectors =
     (if fa_insert fa = None \<and> length pieces \<le> length vectors \<and> fa_upsert fa = None
      then d\<lparr>kd_status := READY, kd_chunkCount := length pieces, kd_vectorDims := Some (length (hd vectors))\<rparr> else d)"

definition ingest :: "rag_config \<Rightarrow> 's embedder \<Rightarrow> faults \<Rightarrow> oid \<Rightarrow> (nat \<Rightarrow> string) \<Rightarrow> oid \<Rightarrow> string \<Rightarrow> string \<Rightarrow> string \<Rightarrow> 's \<times> kb
    \<Rightarrow> (rag_failure + document) \<times> 's \<times> kb" where
  "ingest cfg emb fa i uuid ownerId title content mimeType w =
     (case w of (s, k) \<Rightarrow>
      let text = cleanText (rc_nfkc cfg) content in
      if length text < 20 then (Inl (Refused (ValidationError ''VALIDATION_ERROR'')), s, k)
      else let d = new_document cfg i ownerId title mimeType (rc_sha cfg text) in
      case create_document d k of
        Inl err \<Rightarrow> (Inl (Refused err), s, k)
      | Inr k \<Rightarrow>
          let pieces = rc_split cfg text in
          (case embedAll emb (rc_embedding cfg) pieces s of
             (Inl err, s') \<Rightarrow> (case clean_up cfg fa d None err k of (err, k) \<Rightarrow> (Inl (Thrown err), s', k))
           | (Inr [], s') \<Rightarrow> (case clean_up cfg fa d None TypeError k of (err, k) \<Rightarrow> (Inl (Thrown err), s', k))
           | (Inr vectors, s') \<Rightarrow>
               (case store_chunks cfg fa d uuid pieces vectors k of
                  (Inr d, k) \<Rightarrow> (Inr d, s', k)
                | (Inl err, k) \<Rightarrow>
                    (case clean_up cfg fa (in_memory fa d pieces vectors) (Some (length (hd vectors))) err k of
                       (err, k) \<Rightarrow> (Inl (Thrown err), s', k)))))"

text \<open>\<open>stop\<close> is the error of one of the three calls: 0 the vectors, 1 the chunks, 2 the document.\<close>

definition deleteDocument :: "rag_config \<Rightarrow> (nat \<times> js_error) option \<Rightarrow> (oid \<Rightarrow> bool) \<Rightarrow> oid \<Rightarrow> kb \<Rightarrow> (rag_failure + unit) \<times> kb" where
  "deleteDocument cfg stop scope i k =
     (case List.find (\<lambda>d. kd_id d = i \<and> scope (kd_ownerId d)) (kb_documents k) of
        None \<Rightarrow> (Inl (Refused (NotFoundError ''NOT_FOUND'')), k)
      | Some d \<Rightarrow>
          let k1 = (case kd_vectorDims d of
                      None \<Rightarrow> k
                    | Some n \<Rightarrow> if n = 0 then k
                        else k\<lparr>kb_points := deleteByDocument (collectionName (rc_prefix cfg) (kd_embeddingModel d) n) (kd_id d) (kb_points k)\<rparr>);
              k2 = k1\<lparr>kb_chunks := filter (\<lambda>c. kc_documentId c \<noteq> kd_id d) (kb_chunks k1)\<rparr>;
              k3 = k2\<lparr>kb_documents := filter (\<lambda>d'. kd_id d' \<noteq> kd_id d) (kb_documents k2)\<rparr> in
          case stop of
            None \<Rightarrow> (Inr (), k3)
          | Some (n, err) \<Rightarrow> (Inl (Thrown err), if n = 0 then k else if n = 1 then k1 else k2))"

section \<open>Answering\<close>

definition NO_ANSWER :: string where
  "NO_ANSWER = ''I don'' @ [CHR 0x27] @ ''t have enough information in the knowledge base to answer that.''"

record rag_output =
  ro_answer :: string
  ro_citations :: "string list"
  ro_grounded :: bool

definition ragSchema :: "string list \<Rightarrow> json \<Rightarrow> rag_output option" where
  "ragSchema ids j =
     Option.bind (parse_object j) (\<lambda>j.
     Option.bind (required (parse_string (\<lambda>s. 1 \<le> length s \<and> length s \<le> 3000)) (field ''answer'' j)) (\<lambda>a.
     Option.bind (required (parse_array 0 (length ids) (parse_enum ids)) (field ''citations'' j)) (\<lambda>cs.
     Option.bind (required parse_bool (field ''grounded'' j)) (\<lambda>g.
       Some \<lparr>ro_answer = a, ro_citations = cs, ro_grounded = g\<rparr>))))"

record citation =
  ci_id :: string
  ci_documentId :: oid
  ci_title :: string
  ci_chunkIndex :: nat
  ci_score :: rat

record rag_answer =
  ra_answer :: string
  ra_citations :: "citation list"
  ra_grounded :: bool
  ra_retrieved :: nat
  ra_usage :: usage
  ra_model :: "string option"

definition source_ids :: "nat \<Rightarrow> string list" where
  "source_ids n = map (\<lambda>i. ''S'' @ show_nat (i + 1)) [0..<n]"

definition context_text :: "hit list \<Rightarrow> string" where
  "context_text hits = join_strings (NL @ NL)
     (map (\<lambda>(i, h). ''['' @ i @ ''] '' @ hi_title h @ '' (chunk '' @ show_nat (hi_chunkIndex h) @ '')'' @ NL @ hi_text h)
       (zip (source_ids (length hits)) hits))"

definition rag_system :: string where
  "rag_system = ''Answer the question using ONLY the numbered sources in <document>. ''
     @ ''When a source contains the answer: write the answer, set grounded to true, and list the source ids you used in citations (e.g. [\"S1\"]). ''
     @ ''Only if NO source contains the answer: set grounded to false, citations to [], and answer exactly: ''
     @ [CHR 0x22] @ NO_ANSWER @ [CHR 0x22]"

text \<open>\<open>[...new Set(xs)]\<close>\<close>

definition uniq :: "'a list \<Rightarrow> 'a list" where
  "uniq xs = rev (remdups (rev xs))"

definition cite :: "hit list \<Rightarrow> string \<Rightarrow> citation" where
  "cite hits i = (let h = the (map_of (zip (source_ids (length hits)) hits) i) in
     \<lparr>ci_id = i, ci_documentId = hi_documentId h, ci_title = hi_title h, ci_chunkIndex = hi_chunkIndex h, ci_score = hi_score h\<rparr>)"

text \<open>\<open>issues\<close> are the texts of a failed validation, \<open>schema_text\<close> the schema as JSON.\<close>

definition answer :: "rag_config \<Rightarrow> 's embedder \<Rightarrow> 's model \<Rightarrow> (string \<Rightarrow> string + json) \<Rightarrow> (json \<Rightarrow> string list) \<Rightarrow> (nat \<Rightarrow> string)
    \<Rightarrow> point list \<Rightarrow> oid \<Rightarrow> string \<Rightarrow> string \<Rightarrow> 's \<Rightarrow> (js_error + rag_answer) \<times> 's" where
  "answer cfg emb m json_parse issues schema_text ps ownerId question model s =
     (case retrieve cfg emb ps ownerId question (rc_topK cfg) s of
        (Inl err, s') \<Rightarrow> (Inl err, s')
      | (Inr hits, s') \<Rightarrow>
          if hits = [] then
            (Inr \<lparr>ra_answer = NO_ANSWER, ra_citations = [], ra_grounded = False, ra_retrieved = 0, ra_usage = no_usage, ra_model = None\<rparr>, s')
          else
            let ids = source_ids (length hits);
                schema = \<lparr>sc_parse = (\<lambda>j. case ragSchema ids j of Some x \<Rightarrow> Inr x | None \<Rightarrow> Inl (issues j)), sc_json = schema_text (length hits)\<rparr> in
            (case generateStructured m json_parse schema model rag_system
                    (wrapUntrusted ''document'' (context_text hits) @ NL @ NL @ ''Question:'' @ NL @ wrapUntrusted ''user_input'' question) 2 s' of
               (Inl err, s'') \<Rightarrow> (Inl err, s'')
             | (Inr r, s'') \<Rightarrow>
                 let cited = map (cite hits) (uniq (ro_citations (st_data r)));
                     grounded = (ro_grounded (st_data r) \<and> cited \<noteq> []) in
                 (Inr \<lparr>ra_answer = (if grounded then ro_answer (st_data r) else NO_ANSWER),
                       ra_citations = (if grounded then cited else []), ra_grounded = grounded, ra_retrieved = length hits,
                       ra_usage = st_usage r, ra_model = Some model\<rparr>, s'')))"

section \<open>Answers are grounded\<close>

text \<open>What the vector query promises: only points that passed its filter, at most as many as asked.\<close>

definition query_ok :: "qdrant \<Rightarrow> bool" where
  "query_ok query \<longleftrightarrow> (\<forall>v n m ps. fst ` set (query v n m ps) \<subseteq> set ps \<and> length (query v n m ps) \<le> n)"

lemma uniq_set [simp]: "set (uniq xs) = set xs" "distinct (uniq xs)"
  by (simp_all add: uniq_def)

lemma source_ids_nth [simp]: "n < k \<Longrightarrow> source_ids k ! n = ''S'' @ show_nat (n + 1)" "length (source_ids k) = k"
  by (simp_all add: source_ids_def)

lemma source_ids_distinct: "distinct (source_ids k)"
  by (auto simp: source_ids_def distinct_map inj_on_def show_nat_eq_iff)

lemma cite_nth: "n < length hits \<Longrightarrow> cite hits (''S'' @ show_nat (n + 1)) =
    \<lparr>ci_id = ''S'' @ show_nat (n + 1), ci_documentId = hi_documentId (hits ! n), ci_title = hi_title (hits ! n),
     ci_chunkIndex = hi_chunkIndex (hits ! n), ci_score = hi_score (hits ! n)\<rparr>"
  using map_of_zip_nth[of "source_ids (length hits)" hits n] source_ids_distinct by (simp add: cite_def Let_def)

lemma retrieve_owned:
  assumes "query_ok (rc_query cfg)" "retrieve cfg emb ps ownerId query k s = (Inr hits, s')" "h \<in> set hits"
  shows "length hits \<le> k \<and> (\<exists>p \<in> set ps. pt_ownerId p = ownerId \<and> pt_id p = hi_pointId h \<and> pt_documentId p = hi_documentId h
     \<and> pt_text p = hi_text h)"
proof -
  obtain v where h: "hits = map (hit_of cfg) (search (rc_query cfg) (rc_prefix cfg) (rc_embedding cfg) v ownerId k (rc_minScore cfg) ps)"
    using assms(2) by (auto simp: retrieve_def split: prod.splits sum.splits list.splits)
  then obtain p sc where p: "(p, sc) \<in> set (search (rc_query cfg) (rc_prefix cfg) (rc_embedding cfg) v ownerId k (rc_minScore cfg) ps)"
    "h = hit_of cfg (p, sc)" using assms(3) by auto
  have "fst ` set (rc_query cfg v k (rc_minScore cfg) qs) \<subseteq> set qs" for qs using assms(1) unfolding query_ok_def by blast
  then have "p \<in> set (filter (\<lambda>p. pt_collection p = collectionName (rc_prefix cfg) (rc_embedding cfg) (length v) \<and> pt_ownerId p = ownerId) ps)"
    using p(1) unfolding search_def by force
  then have "p \<in> set ps" "pt_ownerId p = ownerId" by simp_all
  then show ?thesis using p(2) h assms(1) by (auto simp: hit_of_def query_ok_def search_def)
qed

text \<open>Only the owner's points matter.\<close>

lemma retrieve_own:
  assumes "filter (\<lambda>p. pt_ownerId p = me) ps' = filter (\<lambda>p. pt_ownerId p = me) ps"
  shows "retrieve cfg emb ps' me q n s = retrieve cfg emb ps me q n s"
proof -
  have two: "filter (\<lambda>p. pt_collection p = c \<and> pt_ownerId p = me) ps = filter (\<lambda>p. pt_collection p = c) (filter (\<lambda>p. pt_ownerId p = me) ps)" for c ps
    by (induction ps) auto
  show ?thesis unfolding retrieve_def search_def two assms ..
qed

lemma ragSchema_citations: "ragSchema ids j = Some x \<Longrightarrow> set (ro_citations x) \<subseteq> set ids"
proof -
  assume "ragSchema ids j = Some x"
  then obtain v where "parse_array 0 (length ids) (parse_enum ids) v = Some (ro_citations x)"
    by (auto simp: ragSchema_def bind_eq_Some_conv required_def)
  from parse_array_Some[OF this, of "\<lambda>c. c \<in> set ids"] show ?thesis
    by (auto simp: parse_enum_def list_all_iff dest: parse_string_Some)
qed

text \<open>Answers from the knowledge base are grounded. Whatever the language model replies, an answer comes
  with citations exactly when it is marked as grounded, and otherwise it is the fixed refusal; every
  citation names, once, one of the passages that were retrieved for the question, with that passage's
  document, title and position, and the passage belongs to the asker; without a passage the model is not
  asked at all.\<close>

theorem rag_answers_grounded:
  assumes "query_ok (rc_query cfg)" "answer cfg emb m jp issues schema_text ps ownerId question model s = (Inr a, s')"
  shows "\<exists>hits s1. retrieve cfg emb ps ownerId question (rc_topK cfg) s = (Inr hits, s1) \<and> ra_retrieved a = length hits
     \<and> (hits = [] \<longrightarrow> s' = s1 \<and> ra_model a = None)
     \<and> (ra_grounded a \<longleftrightarrow> ra_citations a \<noteq> []) \<and> (\<not> ra_grounded a \<longrightarrow> ra_answer a = NO_ANSWER)
     \<and> distinct (map ci_id (ra_citations a))
     \<and> (\<forall>c \<in> set (ra_citations a). \<exists>n < length hits. ci_id c = ''S'' @ show_nat (n + 1)
          \<and> ci_documentId c = hi_documentId (hits ! n) \<and> ci_title c = hi_title (hits ! n) \<and> ci_chunkIndex c = hi_chunkIndex (hits ! n)
          \<and> (\<exists>p \<in> set ps. pt_ownerId p = ownerId \<and> pt_documentId p = ci_documentId c))"
proof -
  obtain hits s1 where r: "retrieve cfg emb ps ownerId question (rc_topK cfg) s = (Inr hits, s1)"
    using assms(2) by (auto simp: answer_def split: prod.splits sum.splits)
  show ?thesis
  proof (cases "hits = []")
    case True
    then show ?thesis using assms(2) r by (auto simp: answer_def)
  next
    case False
    let ?ids = "source_ids (length hits)"
    let ?sc = "\<lparr>sc_parse = (\<lambda>j. case ragSchema ?ids j of Some x \<Rightarrow> Inr x | None \<Rightarrow> Inl (issues j)), sc_json = schema_text (length hits)\<rparr>"
    obtain x where g: "generateStructured m jp ?sc model rag_system
        (wrapUntrusted ''document'' (context_text hits) @ NL @ NL @ ''Question:'' @ NL @ wrapUntrusted ''user_input'' question) 2 s1 = (Inr x, s')"
      and a: "a = (let cited = map (cite hits) (uniq (ro_citations (st_data x))); grounded = (ro_grounded (st_data x) \<and> cited \<noteq> []) in
         \<lparr>ra_answer = (if grounded then ro_answer (st_data x) else NO_ANSWER), ra_citations = (if grounded then cited else []),
          ra_grounded = grounded, ra_retrieved = length hits, ra_usage = st_usage x, ra_model = Some model\<rparr>)"
      using assms(2) r False by (simp add: answer_def Let_def split: prod.splits sum.splits)
    obtain j where "ragSchema ?ids j = Some (st_data x)" using structured_valid[OF g] by (auto split: option.splits)
    then have ids: "set (ro_citations (st_data x)) \<subseteq> set ?ids" by (rule ragSchema_citations)
    have ci: "ci_id (cite hits i) = i" for i by (simp add: cite_def Let_def)
    have cit: "\<exists>n < length hits. ci_id c = ''S'' @ show_nat (n + 1)
          \<and> ci_documentId c = hi_documentId (hits ! n) \<and> ci_title c = hi_title (hits ! n) \<and> ci_chunkIndex c = hi_chunkIndex (hits ! n)
          \<and> (\<exists>p \<in> set ps. pt_ownerId p = ownerId \<and> pt_documentId p = ci_documentId c)" if c: "c \<in> set (ra_citations a)" for c
    proof -
      obtain i where i: "i \<in> set ?ids" "c = cite hits i" using c a ids by (auto simp: Let_def split: if_splits)
      then obtain n where n: "n < length hits" "i = ''S'' @ show_nat (n + 1)" by (auto simp: in_set_conv_nth)
      then show ?thesis using i(2) cite_nth[OF n(1)] retrieve_owned[OF assms(1) r nth_mem[OF n(1)]] by auto
    qed
    have "distinct (map ci_id (ra_citations a))" using a by (simp add: Let_def o_def ci)
    moreover have "ra_retrieved a = length hits" "ra_grounded a \<longleftrightarrow> ra_citations a \<noteq> []" "\<not> ra_grounded a \<Longrightarrow> ra_answer a = NO_ANSWER"
      using a by (auto simp: Let_def)
    ultimately show ?thesis using r False cit by (intro exI[of _ hits] exI[of _ s1]) (simp only: simp_thms, blast)
  qed
qed

text \<open>A knowledge base of one passage, and a model that cites it.\<close>

definition demo_point :: point where
  "demo_point = \<lparr>pt_collection = ''kb_e_1'', pt_id = ''u0'', pt_vector = [1], pt_ownerId = 7, pt_documentId = 3, pt_chunkIndex = 0,
     pt_title = ''Handbook'', pt_text = ''Notice is two weeks.''\<rparr>"

definition demo_rag :: rag_config where
  "demo_rag = \<lparr>rc_prefix = ''kb'', rc_embedding = ''e'', rc_topK = 4, rc_minScore = 0, rc_split = (\<lambda>t. [t]),
     rc_query = (\<lambda>v n m ps. map (\<lambda>p. (p, 1)) (take n ps)), rc_round4 = (\<lambda>x. x), rc_nfkc = (\<lambda>x. x), rc_sha = (\<lambda>x. x)\<rparr>"

definition demo_embedder :: "'s embedder" where
  "demo_embedder model texts s = (Inr (map (\<lambda>_. [1]) texts), s)"

definition demo_model :: "unit model" where
  "demo_model model messages s = (Inr \<lparr>re_content = ''{}'', re_usage = no_usage\<rparr>, ())"

definition demo_output :: json where
  "demo_output = JObj [(''answer'', JStr ''Two weeks.''), (''citations'', JArr [JStr ''S1'']), (''grounded'', JBool True)]"

lemma demo_query_ok: "query_ok (rc_query demo_rag)"
  by (auto simp: query_ok_def demo_rag_def dest: in_set_takeD)

lemma show_one: "show_nat (Suc 0) = ''1''"
proof -
  have "char_of (49 :: nat) = CHR ''1''" by code_simp
  then show ?thesis by (simp add: show_nat.simps[of "Suc 0"])
qed

lemma demo_collection: "collectionName ''kb'' ''e'' (Suc 0) = ''kb_e_1''"
  by (simp add: collectionName_def char_in_def show_one)

lemma demo_ids: "source_ids (Suc 0) = [''S1'']"
  by (simp add: source_ids_def show_one)

lemma demo_retrieve: "retrieve demo_rag demo_embedder [demo_point] 7 q 4 s = (Inr [hit_of demo_rag (demo_point, 1)], s)"
  by (simp add: retrieve_def demo_embedder_def search_def demo_rag_def demo_collection demo_point_def)

lemma demo_schema: "ragSchema [''S1''] demo_output = Some \<lparr>ro_answer = ''Two weeks.'', ro_citations = [''S1''], ro_grounded = True\<rparr>"
  by (simp add: ragSchema_def demo_output_def parse_object_def required_def field_def parse_string_def parse_array_def parse_enum_def
      parse_bool_def)

lemma demo_extract: "extractJson (\<lambda>_. Inr j) ''{}'' = Inr j"
  by (simp add: extractJson_def fenced_def Let_def)

theorem rag_answers_grounded_witness:
  "\<exists>a hits. answer demo_rag demo_embedder demo_model (\<lambda>_. Inr demo_output) (\<lambda>_. []) (\<lambda>_. []) [demo_point] 7 ''q'' ''m'' () = (Inr a, ())
     \<and> retrieve demo_rag demo_embedder [demo_point] 7 ''q'' (rc_topK demo_rag) () = (Inr hits, ())
     \<and> ra_answer a = ''Two weeks.'' \<and> ra_citations a \<noteq> [] \<and> ra_retrieved a = length hits"
proof -
  have k: "rc_topK demo_rag = 4" by (simp add: demo_rag_def)
  obtain a where a: "answer demo_rag demo_embedder demo_model (\<lambda>_. Inr demo_output) (\<lambda>_. []) (\<lambda>_. []) [demo_point] 7 ''q'' ''m'' () = (Inr a, ())"
    "ra_answer a = ''Two weeks.''" "ra_grounded a"
    by (simp add: answer_def k demo_retrieve Let_def generateStructured_def numeral_3_eq_3 demo_model_def check_reply_def demo_extract demo_ids demo_schema uniq_def)
  from rag_answers_grounded[OF demo_query_ok a(1)] show ?thesis using a by auto
qed

end
