(* ===== verification/Wf_Rag_Correct.thy ===== *)
theory Wf_Rag_Correct
  imports Wf_Rag Wf_System
begin

text \<open>
  Correctness of the knowledge base: an ingestion stores a document in both stores or leaves nothing of
  it behind, and what one user uploads or deletes is invisible to the others.
\<close>

section \<open>The part of a document, and the rest\<close>

definition doc_chunks :: "oid \<Rightarrow> kb \<Rightarrow> chunk list" where
  "doc_chunks i k = filter (\<lambda>c. kc_documentId c = i) (kb_chunks k)"

definition doc_points :: "oid \<Rightarrow> kb \<Rightarrow> point list" where
  "doc_points i k = filter (\<lambda>p. pt_documentId p = i) (kb_points k)"

definition rest_of :: "oid \<Rightarrow> kb \<Rightarrow> document list \<times> chunk list \<times> point list" where
  "rest_of i k = (filter (\<lambda>d. kd_id d \<noteq> i) (kb_documents k), filter (\<lambda>c. kc_documentId c \<noteq> i) (kb_chunks k),
     filter (\<lambda>p. pt_documentId p \<noteq> i) (kb_points k))"

text \<open>Ids are fresh: a new document id, and the UUIDs of its points.\<close>

definition fresh_id :: "oid \<Rightarrow> kb \<Rightarrow> bool" where
  "fresh_id i k \<longleftrightarrow> i \<notin> kd_id ` set (kb_documents k) \<and> doc_chunks i k = [] \<and> doc_points i k = []"

definition fresh_uuids :: "(nat \<Rightarrow> string) \<Rightarrow> kb \<Rightarrow> bool" where
  "fresh_uuids uuid k \<longleftrightarrow> (\<forall>n. uuid n \<notin> pt_id ` set (kb_points k))"

lemma chunks_of_doc: "c \<in> set (chunks_of d uuid pieces) \<Longrightarrow> kc_documentId c = kd_id d \<and> (\<exists>n. kc_pointId c = uuid n)"
  by (auto simp: chunks_of_def)

lemma length_chunks_of [simp]: "length (chunks_of d uuid pieces) = length pieces"
  by (simp add: chunks_of_def)

lemma chunks_of_texts: "map kc_text (chunks_of d uuid pieces) = pieces"
  by (simp add: chunks_of_def split_beta comp_def)

lemma points_of_doc:
  "p \<in> set (points_of cfg d n (chunks_of d uuid pieces) vectors) \<Longrightarrow> pt_documentId p = kd_id d \<and> pt_ownerId p = kd_ownerId d
     \<and> pt_collection p = collectionName (rc_prefix cfg) (kd_embeddingModel d) n \<and> (\<exists>n. pt_id p = uuid n)"
  by (auto simp: points_of_def dest!: set_zip_leftD chunks_of_doc)

lemma upsert_fresh:
  assumes "\<And>p q. p \<in> set ps \<Longrightarrow> q \<in> set qs \<Longrightarrow> pt_id p \<noteq> pt_id q"
  shows "upsert ps qs = qs @ ps"
proof -
  have "filter (\<lambda>q. \<not> (\<exists>p \<in> set ps. pt_collection p = pt_collection q \<and> pt_id p = pt_id q)) qs = qs"
    using assms by (intro filter_True) blast
  then show ?thesis by (simp add: upsert_def)
qed

lemma points_stored:
  assumes "fresh_uuids uuid k"
  shows "upsert (points_of cfg d n (chunks_of d uuid pieces) vectors) (kb_points k) = kb_points k @ points_of cfg d n (chunks_of d uuid pieces) vectors"
proof (rule upsert_fresh)
  fix p q
  assume p: "p \<in> set (points_of cfg d n (chunks_of d uuid pieces) vectors)" and q: "q \<in> set (kb_points k)"
  obtain n where "pt_id p = uuid n" using points_of_doc[OF p] by blast
  then show "pt_id p \<noteq> pt_id q" using assms q by (metis fresh_uuids_def image_eqI)
qed

text \<open>The possible contents of the stores when the \<open>try\<close> block ends.\<close>

lemma store_chunks_cases:
  assumes "store_chunks cfg fa d uuid pieces vectors k = (r, k')" "fresh_uuids uuid k"
  obtains (stored) d' where "r = Inr d'" "d' = d\<lparr>kd_status := READY, kd_chunkCount := length pieces, kd_vectorDims := Some (length (hd vectors))\<rparr>"
      "k' = set_document d' (k\<lparr>kb_chunks := kb_chunks k @ chunks_of d uuid pieces,
         kb_points := kb_points k @ points_of cfg d (length (hd vectors)) (chunks_of d uuid pieces) vectors\<rparr>)" "length pieces \<le> length vectors"
    | (broken) err n ps where "r = Inl err" "ps = [] \<or> ps = points_of cfg d (length (hd vectors)) (chunks_of d uuid pieces) vectors"
      "k' = k\<lparr>kb_chunks := kb_chunks k @ take n (chunks_of d uuid pieces), kb_points := kb_points k @ ps\<rparr>"
proof -
  let ?cs = "chunks_of d uuid pieces"
  have up: "upsert (points_of cfg d (length (hd vectors)) ?cs vectors) (kb_points k)
      = kb_points k @ points_of cfg d (length (hd vectors)) ?cs vectors" by (rule points_stored[OF assms(2)])
  show ?thesis
  proof (cases "\<exists>d'. r = Inr d'")
    case True
    then show ?thesis using assms(1) up
      by (intro stored) (auto simp: store_chunks_def Let_def split: option.splits prod.splits if_splits)
  next
    case False
    then obtain err where r: "r = Inl err" by (cases r) auto
    have "k' = k\<lparr>kb_chunks := kb_chunks k @ take (fst (the (fa_insert fa))) ?cs, kb_points := kb_points k @ []\<rparr>
        \<or> k' = k\<lparr>kb_chunks := kb_chunks k @ take (length ?cs) ?cs, kb_points := kb_points k @ []\<rparr>
        \<or> k' = k\<lparr>kb_chunks := kb_chunks k @ take (length ?cs) ?cs,
             kb_points := kb_points k @ points_of cfg d (length (hd vectors)) ?cs vectors\<rparr>"
      using assms(1) up r by (auto simp: store_chunks_def Let_def split: option.splits prod.splits if_splits)
    then show ?thesis using broken[OF r] by blast
  qed
qed

lemma rest_of_simps [simp]:
  "\<forall>c \<in> set cs. kc_documentId c = i \<Longrightarrow> rest_of i (k\<lparr>kb_chunks := kb_chunks k @ cs, kb_points := ps'\<rparr>) = rest_of i (k\<lparr>kb_points := ps'\<rparr>)"
  "\<forall>p \<in> set ps. pt_documentId p = i \<Longrightarrow> rest_of i (k\<lparr>kb_points := kb_points k @ ps\<rparr>) = rest_of i k"
  "rest_of i (k\<lparr>kb_points := kb_points k\<rparr>) = rest_of i k"
  "kd_id d = i \<Longrightarrow> rest_of i (set_document d k) = rest_of i k"
  "kd_id d = i \<Longrightarrow> rest_of i (k\<lparr>kb_documents := kb_documents k @ [d]\<rparr>) = rest_of i k"
  by (auto simp: rest_of_def set_document_def filter_empty_conv filter_map o_def intro!: filter_cong map_idI)

text \<open>An embedding model returns vectors that have a dimension.\<close>

definition dims_ok :: "'s embedder \<Rightarrow> bool" where
  "dims_ok emb \<longleftrightarrow> (\<forall>model texts s vs s'. emb model texts s = (Inr vs, s') \<longrightarrow> [] \<notin> set vs)"

lemma embedAll_dims: "dims_ok emb \<Longrightarrow> embedAll emb model texts s = (Inr vs, s') \<Longrightarrow> [] \<notin> set vs"
proof (induction emb model texts s arbitrary: vs s' rule: embedAll.induct)
  case (1 emb model texts s)
  show ?case
  proof (cases "texts = []")
    case True
    then show ?thesis using 1(3) by (simp add: embedAll.simps)
  next
    case False
    obtain b s1 c s2 where e: "emb model (take EMBED_BATCH texts) s = (Inr b, s1)"
      "embedAll emb model (drop EMBED_BATCH texts) s1 = (Inr c, s2)" "vs = b @ c"
      using 1(3) False by (subst (asm) embedAll.simps) (auto split: prod.splits sum.splits)
    have "[] \<notin> set b" using 1(2) e(1) unfolding dims_ok_def by blast
    then show ?thesis using 1(1)[OF False e(1)[symmetric] refl 1(2) e(2)] e(3) by simp
  qed
qed

lemma clean_up_cases:
  assumes "clean_up cfg fa d dims err k = (err', k')"
  obtains k2 d' where "kb_documents k2 = kb_documents k"
    "kb_chunks k2 = (if fa_unchunk fa then kb_chunks k else filter (\<lambda>c. kc_documentId c \<noteq> kd_id d) (kb_chunks k))"
    "kb_points k2 = (case dims of None \<Rightarrow> kb_points k | Some n \<Rightarrow> if n = 0 \<or> fa_unpoint fa then kb_points k
       else deleteByDocument (collectionName (rc_prefix cfg) (rc_embedding cfg) n) (kd_id d) (kb_points k))"
    "k' = (if fa_save_failed fa = None then set_document d' k2 else k2)" "kd_id d' = kd_id d" "kd_status d' = FAILED"
    "kd_ownerId d' = kd_ownerId d"
proof -
  let ?k1 = "if fa_unchunk fa then k else k\<lparr>kb_chunks := filter (\<lambda>c. kc_documentId c \<noteq> kd_id d) (kb_chunks k)\<rparr>"
  define k2 where "k2 = (case dims of None \<Rightarrow> ?k1 | Some n \<Rightarrow> if n = 0 \<or> fa_unpoint fa then ?k1
      else ?k1\<lparr>kb_points := deleteByDocument (collectionName (rc_prefix cfg) (rc_embedding cfg) n) (kd_id d) (kb_points ?k1)\<rparr>)"
  have "clean_up cfg fa d dims err k = (case fa_save_failed fa of Some err' \<Rightarrow> (err', k2)
      | None \<Rightarrow> (err, set_document (d\<lparr>kd_status := FAILED, kd_error := Some (take 500 (je_message err))\<rparr>) k2))"
    by (simp only: clean_up_def Let_def k2_def)
  then have k': "k' = (if fa_save_failed fa = None then set_document (d\<lparr>kd_status := FAILED, kd_error := Some (take 500 (je_message err))\<rparr>) k2 else k2)"
    using assms by (cases "fa_save_failed fa") simp_all
  show ?thesis by (rule that[OF _ _ _ k']) (simp_all add: k2_def split: option.splits)
qed

section \<open>Ingestion\<close>

definition pieces_of :: "rag_config \<Rightarrow> string \<Rightarrow> string list" where
  "pieces_of cfg content = rc_split cfg (cleanText (rc_nfkc cfg) content)"

lemma points_match:
  "length pieces \<le> length vectors \<Longrightarrow>
     map (\<lambda>p. (pt_id p, pt_chunkIndex p, pt_text p)) (points_of cfg d n (chunks_of d uuid pieces) vectors)
     = map (\<lambda>c. (kc_pointId c, kc_index c, kc_text c)) (chunks_of d uuid pieces)"
  by (simp add: points_of_def comp_def split_beta map_fst_zip_take map_zip_map[symmetric])
     (intro nth_equalityI; simp)

text \<open>An ingestion is refused, stores everything, or fails and cleans up after itself.\<close>

lemma ingest_cases:
  assumes "ingest cfg emb fa i uuid ow title content mimeType (s, k) = (r, s', k')" "fresh_uuids uuid k"
  obtains (refused) e where "r = Inl (Refused e)" "k' = k"
    | (stored) d0 d ps where "r = Inr d" "kd_id d0 = i" "kd_ownerId d0 = ow" "kd_id d = i" "kd_ownerId d = ow" "kd_status d = READY"
      "kd_chunkCount d = length (pieces_of cfg content)"
      "k' = set_document d (k\<lparr>kb_documents := kb_documents k @ [d0], kb_chunks := kb_chunks k @ chunks_of d0 uuid (pieces_of cfg content),
         kb_points := kb_points k @ ps\<rparr>)"
      "map (\<lambda>p. (pt_id p, pt_chunkIndex p, pt_text p)) ps = map (\<lambda>c. (kc_pointId c, kc_index c, kc_text c)) (chunks_of d0 uuid (pieces_of cfg content))"
      "\<forall>p \<in> set ps. pt_documentId p = i \<and> pt_ownerId p = ow"
    | (failed) err err0 d0 d1 cs ps dims where "r = Inl (Thrown err)" "kd_id d0 = i" "kd_ownerId d0 = ow" "kd_id d1 = i" "kd_ownerId d1 = ow"
      "clean_up cfg fa d1 dims err0 (k\<lparr>kb_documents := kb_documents k @ [d0], kb_chunks := kb_chunks k @ cs, kb_points := kb_points k @ ps\<rparr>) = (err, k')"
      "\<forall>c \<in> set cs. kc_documentId c = i" "\<forall>p \<in> set ps. pt_documentId p = i \<and> pt_ownerId p = ow"
      "dims_ok emb \<Longrightarrow> ps = [] \<or> (\<exists>n > 0. dims = Some n \<and> (\<forall>p \<in> set ps. pt_collection p = collectionName (rc_prefix cfg) (rc_embedding cfg) n))"
proof -
  define tx where "tx = cleanText (rc_nfkc cfg) content"
  define d0 where "d0 = new_document cfg i ow title mimeType (rc_sha cfg tx)"
  define pieces where "pieces = rc_split cfg tx"
  have d0: "kd_id d0 = i" "kd_ownerId d0 = ow" "kd_embeddingModel d0 = rc_embedding cfg" by (simp_all add: d0_def new_document_def)
  have pc: "pieces_of cfg content = pieces" by (simp add: pieces_of_def pieces_def tx_def)
  let ?k0 = "k\<lparr>kb_documents := kb_documents k @ [d0]\<rparr>"
  consider (no) e where "r = Inl (Refused e)" "k' = k" | (created) "create_document d0 k = Inr ?k0" "\<not> length tx < 20"
    using assms(1) by (auto simp: ingest_def Let_def tx_def[symmetric] d0_def[symmetric] create_document_def split: if_splits)
  then show ?thesis
  proof cases
    case no
    then show ?thesis by (rule refused)
  next
    case created
    note ing = assms(1)[unfolded ingest_def prod.case Let_def, folded tx_def, folded d0_def pieces_def, unfolded created(1) sum.case if_not_P[OF created(2)]]
    have early: ?thesis if "clean_up cfg fa d0 None e ?k0 = (err, k')" "r = Inl (Thrown err)" for e err
      by (rule failed[of err d0 d0 None e "[]" "[]"]) (use that d0 in simp_all)
    show ?thesis
    proof (cases "\<exists>v vs s1. embedAll emb (rc_embedding cfg) pieces s = (Inr (v # vs), s1)")
      case False
      then show ?thesis using ing early by (auto split: prod.splits sum.splits list.splits)
    next
      case True
      then obtain v vs s1 where e: "embedAll emb (rc_embedding cfg) pieces s = (Inr (v # vs), s1)" by blast
      obtain r1 k1 where st: "store_chunks cfg fa d0 uuid pieces (v # vs) ?k0 = (r1, k1)" by fastforce
      have fr: "fresh_uuids uuid ?k0" using assms(2) by (simp add: fresh_uuids_def)
      let ?ps = "points_of cfg d0 (length v) (chunks_of d0 uuid pieces) (v # vs)"
      have ps: "\<forall>p \<in> set ?ps. pt_documentId p = i \<and> pt_ownerId p = ow \<and> pt_collection p = collectionName (rc_prefix cfg) (rc_embedding cfg) (length v)"
        using points_of_doc[of _ cfg d0 "length v" uuid pieces "v # vs"] d0 by auto
      show ?thesis
        using st fr
      proof (cases rule: store_chunks_cases)
        case (stored d')
        then have "r = Inr d'" "k' = k1" using ing e st by auto
        then show ?thesis using stored d0 ps points_match[OF stored(4), of cfg d0 "length v" uuid]
          by (intro that(2)[of d' d0 ?ps]) (simp_all add: pc)
      next
        case (broken err n qs)
        obtain err' where cu: "clean_up cfg fa (in_memory fa d0 pieces (v # vs)) (Some (length v)) err k1 = (err', k')" "r = Inl (Thrown err')"
          using ing e st broken(1) by (auto split: prod.splits)
        have "v \<noteq> []" if "dims_ok emb" using embedAll_dims[OF that e] by auto
        moreover have "set (take n (chunks_of d0 uuid pieces)) \<subseteq> set (chunks_of d0 uuid pieces)" by (rule set_take_subset)
        ultimately show ?thesis using cu broken(2,3) d0 ps chunks_of_doc[of _ d0 uuid pieces]
          by (intro failed[of err' d0 "in_memory fa d0 pieces (v # vs)" "Some (length v)" err qs "take n (chunks_of d0 uuid pieces)"])
             (auto simp: in_memory_def)
      qed
    qed
  qed
qed

lemma appended_parts:
  assumes "fresh_id i k" "\<forall>c \<in> set cs. kc_documentId c = i" "\<forall>p \<in> set ps. pt_documentId p = i" "kd_id d0 = i"
    "k0 = k\<lparr>kb_documents := kb_documents k @ [d0], kb_chunks := kb_chunks k @ cs, kb_points := kb_points k @ ps\<rparr>"
  shows "doc_chunks i k0 = cs" "doc_points i k0 = ps" "rest_of i k0 = rest_of i k"
proof -
  have "filter (\<lambda>c. kc_documentId c = i) cs = cs" "filter (\<lambda>p. pt_documentId p = i) ps = ps"
    "filter (\<lambda>c. kc_documentId c \<noteq> i) cs = []" "filter (\<lambda>p. pt_documentId p \<noteq> i) ps = []"
    using assms(2,3) by simp_all
  then show "doc_chunks i k0 = cs" "doc_points i k0 = ps" "rest_of i k0 = rest_of i k"
    using assms(1,4,5) by (simp_all add: doc_chunks_def doc_points_def rest_of_def fresh_id_def)
qed

lemma set_document_parts [simp]: "doc_chunks i (set_document d k) = doc_chunks i k" "doc_points i (set_document d k) = doc_points i k"
  by (simp_all add: doc_chunks_def doc_points_def set_document_def)

lemma deleteByDocument_parts:
  "filter (\<lambda>p. pt_documentId p \<noteq> i) (deleteByDocument coll i ps) = filter (\<lambda>p. pt_documentId p \<noteq> i) ps"
  "\<forall>p \<in> set ps. pt_documentId p = i \<longrightarrow> pt_collection p = coll \<Longrightarrow> filter (\<lambda>p. pt_documentId p = i) (deleteByDocument coll i ps) = []"
  by (auto simp: deleteByDocument_def filter_empty_conv intro!: filter_cong)

lemma clean_up_parts:
  assumes "clean_up cfg fa d dims err k = (err', k')" "kd_id d = i"
  shows "rest_of i k' = rest_of i k" "\<not> fa_unchunk fa \<longrightarrow> doc_chunks i k' = []"
    "fa_save_failed fa = None \<longrightarrow> (\<forall>d' \<in> set (kb_documents k'). kd_id d' = i \<longrightarrow> kd_status d' = FAILED)"
    "doc_points i k = [] \<or> (\<exists>n > 0. dims = Some n \<and> (\<forall>p \<in> set (doc_points i k). pt_collection p = collectionName (rc_prefix cfg) (rc_embedding cfg) n))
      \<Longrightarrow> \<not> fa_unpoint fa \<longrightarrow> doc_points i k' = []"
    "set (doc_points i k') \<subseteq> set (doc_points i k)"
proof -
  obtain k2 d' where k2: "kb_documents k2 = kb_documents k"
    "kb_chunks k2 = (if fa_unchunk fa then kb_chunks k else filter (\<lambda>c. kc_documentId c \<noteq> kd_id d) (kb_chunks k))"
    "kb_points k2 = (case dims of None \<Rightarrow> kb_points k | Some n \<Rightarrow> if n = 0 \<or> fa_unpoint fa then kb_points k
       else deleteByDocument (collectionName (rc_prefix cfg) (rc_embedding cfg) n) (kd_id d) (kb_points k))"
    and k': "k' = (if fa_save_failed fa = None then set_document d' k2 else k2)" and d': "kd_id d' = kd_id d" "kd_status d' = FAILED" "kd_ownerId d' = kd_ownerId d"
    by (rule clean_up_cases[OF assms(1)])
  have "rest_of i k2 = rest_of i k" unfolding rest_of_def k2 by (simp add: assms(2) deleteByDocument_parts split: option.split)
  then show "rest_of i k' = rest_of i k" by (simp add: k' d' assms(2))
  show "\<not> fa_unchunk fa \<longrightarrow> doc_chunks i k' = []" by (simp add: k' doc_chunks_def k2 assms(2) set_document_def)
  show "fa_save_failed fa = None \<longrightarrow> (\<forall>d' \<in> set (kb_documents k'). kd_id d' = i \<longrightarrow> kd_status d' = FAILED)"
    using d' assms(2) by (auto simp: k' set_document_def)
  have dp: "doc_points i k' = filter (\<lambda>p. pt_documentId p = i) (kb_points k2)" by (simp add: k' doc_points_def set_document_def)
  have "set (kb_points k2) \<subseteq> set (kb_points k)" by (auto simp: k2(3) deleteByDocument_def split: option.splits if_splits)
  then show sub: "set (doc_points i k') \<subseteq> set (doc_points i k)" unfolding dp by (auto simp: doc_points_def)
  show "\<not> fa_unpoint fa \<longrightarrow> doc_points i k' = []"
    if p: "doc_points i k = [] \<or> (\<exists>n > 0. dims = Some n
        \<and> (\<forall>p \<in> set (doc_points i k). pt_collection p = collectionName (rc_prefix cfg) (rc_embedding cfg) n))"
  proof (cases "doc_points i k = []")
    case True
    then show ?thesis using sub by simp
  next
    case False
    then obtain n where "n > 0" "dims = Some n" "\<forall>p \<in> set (kb_points k). pt_documentId p = i \<longrightarrow> pt_collection p = collectionName (rc_prefix cfg) (rc_embedding cfg) n"
      using p by (auto simp: doc_points_def)
    then show ?thesis unfolding dp k2(3) using deleteByDocument_parts(2) by (simp add: assms(2))
  qed
qed

text \<open>C39: ingestion is all or nothing. Whichever call to a store or to the embedding model fails, a document
  that is reported as ingested is ready and has all its pieces, in order, in both stores, under the same
  ids; an upload that is refused changes nothing; and after an upload that fails, no chunk and no vector
  of the document is left, as far as the two clean-up calls themselves went through, and the document is
  marked as failed. Other documents are never touched.\<close>

theorem ingest_all_or_nothing:
  assumes "dims_ok emb" "fresh_id i k" "fresh_uuids uuid k" "ingest cfg emb fa i uuid ow title content mimeType (s, k) = (r, s', k')"
  shows "rest_of i k' = rest_of i k
     \<and> (\<forall>d. r = Inr d \<longrightarrow> d \<in> set (kb_documents k') \<and> kd_id d = i \<and> kd_status d = READY \<and> kd_chunkCount d = length (pieces_of cfg content)
          \<and> map kc_text (doc_chunks i k') = pieces_of cfg content
          \<and> map (\<lambda>p. (pt_id p, pt_chunkIndex p, pt_text p)) (doc_points i k') = map (\<lambda>c. (kc_pointId c, kc_index c, kc_text c)) (doc_chunks i k'))
     \<and> (\<forall>e. r = Inl (Refused e) \<longrightarrow> k' = k)
     \<and> (\<forall>e. r = Inl (Thrown e) \<longrightarrow> (\<not> fa_unchunk fa \<longrightarrow> doc_chunks i k' = []) \<and> (\<not> fa_unpoint fa \<longrightarrow> doc_points i k' = [])
          \<and> (fa_save_failed fa = None \<longrightarrow> (\<forall>d \<in> set (kb_documents k'). kd_id d = i \<longrightarrow> kd_status d = FAILED)))"
  using assms(4,3)
proof (cases rule: ingest_cases)
  case (refused e)
  then show ?thesis by simp
next
  case (stored d0 d ps)
  let ?cs = "chunks_of d0 uuid (pieces_of cfg content)"
  let ?k0 = "k\<lparr>kb_documents := kb_documents k @ [d0], kb_chunks := kb_chunks k @ ?cs, kb_points := kb_points k @ ps\<rparr>"
  have a: "doc_chunks i ?k0 = ?cs" "doc_points i ?k0 = ps" "rest_of i ?k0 = rest_of i k"
    by (rule appended_parts[OF assms(2) _ _ stored(2) refl]; use stored(2,10) chunks_of_doc[of _ d0 uuid] in blast)+
  have "d \<in> set (kb_documents k')" using stored(2,4,8) by (simp add: set_document_def)
  then show ?thesis using stored a by (simp add: chunks_of_texts)
next
  case (failed err err0 d0 d1 cs ps dims)
  let ?k0 = "k\<lparr>kb_documents := kb_documents k @ [d0], kb_chunks := kb_chunks k @ cs, kb_points := kb_points k @ ps\<rparr>"
  have a: "doc_points i ?k0 = ps" "rest_of i ?k0 = rest_of i k"
    by (rule appended_parts[OF assms(2) failed(7) _ failed(2) refl]; use failed(8) in blast)+
  show ?thesis using clean_up_parts[OF failed(6,4)] failed(1,9) assms(1) a by (simp del: kb.simps)
qed

theorem ingest_all_or_nothing_witness:
  "\<exists>e k'. ingest demo_rag demo_embedder (no_faults\<lparr>fa_upsert := Some (True, TypeError)\<rparr>) 5 (\<lambda>_. ''u'') 7 ''T''
       ''Notice is two weeks long.'' ''text/plain'' ((), empty_kb) = (Inl (Thrown e), (), k')
     \<and> doc_chunks 5 k' = [] \<and> doc_points 5 k' = []"
proof -
  let ?fa = "no_faults\<lparr>fa_upsert := Some (True, TypeError)\<rparr>"
  let ?c = "''Notice is two weeks long.''"
  have c: "cleanText (\<lambda>x. x) ?c = ?c"
    by (simp add: cleanText_def is_space_def control_char_def trim_def Let_def)
  have "\<exists>e k'. ingest demo_rag demo_embedder ?fa 5 (\<lambda>_. ''u'') 7 ''T'' ?c ''text/plain'' ((), empty_kb) = (Inl (Thrown e), (), k')"
    by (simp add: ingest_def demo_rag_def c create_document_def empty_kb_def embedAll.simps demo_embedder_def EMBED_BATCH_def store_chunks_def
        no_faults_def Let_def split_beta)
  then obtain e k' where r: "ingest demo_rag demo_embedder ?fa 5 (\<lambda>_. ''u'') 7 ''T'' ?c ''text/plain'' ((), empty_kb) = (Inl (Thrown e), (), k')"
    by blast
  have "dims_ok (demo_embedder :: unit embedder)" "fresh_id 5 empty_kb" "fresh_uuids (\<lambda>_. ''u'') empty_kb"
    by (auto simp: dims_ok_def demo_embedder_def fresh_id_def fresh_uuids_def empty_kb_def doc_chunks_def doc_points_def)
  from ingest_all_or_nothing[OF this r] show ?thesis using r by (auto simp: no_faults_def)
qed

section \<open>Tenants are separated\<close>

inductive kb_step :: "rag_config \<Rightarrow> user \<Rightarrow> kb \<Rightarrow> kb \<Rightarrow> bool" for cfg where
  kb_ingest: "ingest cfg (emb :: nat embedder) fa i uuid (u_id u) title content mimeType (s, k) = (r, s', k') \<Longrightarrow> fresh_id i k
    \<Longrightarrow> fresh_uuids uuid k \<Longrightarrow> kb_step cfg u k k'"
| kb_delete: "deleteDocument cfg stop (ownerScope u) i k = (r, k') \<Longrightarrow> kb_step cfg u k k'"

definition kb_inv :: "kb \<Rightarrow> bool" where
  "kb_inv k \<longleftrightarrow> (\<forall>d \<in> set (kb_documents k).
     (\<forall>p \<in> set (kb_points k). pt_documentId p = kd_id d \<longrightarrow> pt_ownerId p = kd_ownerId d)
     \<and> (\<forall>d' \<in> set (kb_documents k). kd_id d' = kd_id d \<longrightarrow> kd_ownerId d' = kd_ownerId d))"

text \<open>What a user sees of the knowledge base.\<close>

definition kb_view :: "oid \<Rightarrow> kb \<Rightarrow> document list \<times> point list" where
  "kb_view me k = (filter (\<lambda>d. kd_ownerId d = me) (kb_documents k), filter (\<lambda>p. pt_ownerId p = me) (kb_points k))"

text \<open>An ingestion keeps what is not of its document; its own part belongs to the uploader.\<close>

lemma ingest_frame:
  assumes "ingest cfg emb fa i uuid ow title content mimeType (s, k) = (r, s', k')" "fresh_id i k" "fresh_uuids uuid k"
  shows "rest_of i k' = rest_of i k" "\<forall>d \<in> set (kb_documents k'). kd_id d = i \<longrightarrow> kd_ownerId d = ow" "\<forall>p \<in> set (doc_points i k'). pt_ownerId p = ow"
proof -
  have fresh: "\<forall>d \<in> set (kb_documents k). kd_id d \<noteq> i" using assms(2) by (auto simp: fresh_id_def)
  have "rest_of i k' = rest_of i k \<and> (\<forall>d \<in> set (kb_documents k'). kd_id d = i \<longrightarrow> kd_ownerId d = ow) \<and> (\<forall>p \<in> set (doc_points i k'). pt_ownerId p = ow)"
    using assms(1,3)
  proof (cases rule: ingest_cases)
    case (refused e)
    then show ?thesis using assms(2) by (auto simp: fresh_id_def)
  next
    case (stored d0 d ps)
    let ?cs = "chunks_of d0 uuid (pieces_of cfg content)"
    let ?k0 = "k\<lparr>kb_documents := kb_documents k @ [d0], kb_chunks := kb_chunks k @ ?cs, kb_points := kb_points k @ ps\<rparr>"
    have a: "doc_points i ?k0 = ps" "rest_of i ?k0 = rest_of i k"
      by (rule appended_parts[OF assms(2) _ _ stored(2) refl]; use stored(2,10) chunks_of_doc[of _ d0 uuid] in blast)+
    have "\<forall>d' \<in> set (kb_documents k'). kd_id d' = i \<longrightarrow> kd_ownerId d' = ow"
      using stored(2,3,4,5,8) assms(2) by (auto simp: set_document_def)
    then show ?thesis using stored a by simp
  next
    case (failed err err0 d0 d1 cs ps dims)
    let ?k0 = "k\<lparr>kb_documents := kb_documents k @ [d0], kb_chunks := kb_chunks k @ cs, kb_points := kb_points k @ ps\<rparr>"
    have a: "doc_points i ?k0 = ps" "rest_of i ?k0 = rest_of i k"
      by (rule appended_parts[OF assms(2) failed(7) _ failed(2) refl]; use failed(8) in blast)+
    note c = clean_up_parts[OF failed(6,4)]
    obtain k2 d' where k2: "kb_documents k2 = kb_documents ?k0" and k': "k' = (if fa_save_failed fa = None then set_document d' k2 else k2)"
      and d': "kd_ownerId d' = kd_ownerId d1" by (rule clean_up_cases[OF failed(6)])
    have "\<forall>d' \<in> set (kb_documents k'). kd_id d' = i \<longrightarrow> kd_ownerId d' = ow"
      using failed(2,3,5) fresh d' by (auto simp: k' k2 set_document_def)
    then show ?thesis using c(1,5) a failed(8) by auto
  qed
  then show "rest_of i k' = rest_of i k" "\<forall>d \<in> set (kb_documents k'). kd_id d = i \<longrightarrow> kd_ownerId d = ow" "\<forall>p \<in> set (doc_points i k'). pt_ownerId p = ow"
    by blast+
qed

lemma rest_of_mem:
  assumes "rest_of i k' = rest_of i k"
  shows "d \<in> set (kb_documents k') \<Longrightarrow> kd_id d \<noteq> i \<Longrightarrow> d \<in> set (kb_documents k)"
    "p \<in> set (kb_points k') \<Longrightarrow> pt_documentId p \<noteq> i \<Longrightarrow> p \<in> set (kb_points k)"
  using assms by (auto simp: rest_of_def dest!: arg_cong[where f = set])

lemma filter_rest: "(\<And>x. x \<in> set xs \<Longrightarrow> P x \<Longrightarrow> Q x) \<Longrightarrow> filter P xs = filter P (filter Q xs)"
  by (induction xs) auto

text \<open>A deletion removes a part of one document within the scope.\<close>

lemma deleteDocument_cases:
  assumes "deleteDocument cfg stop scope i k = (r, k')"
  obtains "k' = k" | d where "d \<in> set (kb_documents k)" "scope (kd_ownerId d)"
    "kb_documents k' = kb_documents k \<or> kb_documents k' = filter (\<lambda>d'. kd_id d' \<noteq> kd_id d) (kb_documents k)"
    "kb_points k' = kb_points k \<or> (\<exists>coll. kb_points k' = deleteByDocument coll (kd_id d) (kb_points k))"
proof (cases "List.find (\<lambda>d. kd_id d = i \<and> scope (kd_ownerId d)) (kb_documents k)")
  case None
  then show ?thesis using assms that(1) by (simp add: deleteDocument_def)
next
  case (Some d)
  then have "d \<in> set (kb_documents k)" "scope (kd_ownerId d)" by (auto simp: find_Some_iff)
  then show ?thesis using assms Some
    by (intro that(2)[of d]) (auto simp: deleteDocument_def Let_def split: option.splits if_splits prod.splits)
qed

lemma kb_step_inv:
  assumes "kb_inv k" "kb_step cfg u k k'"
  shows "kb_inv k'"
  using assms(2)
proof cases
  case (kb_ingest emb fa i uuid title content mimeType s r s')
  note f = ingest_frame[OF kb_ingest(1-3)]
  have "pt_ownerId p = u_id u" if "p \<in> set (kb_points k')" "pt_documentId p = i" for p using f(3) that by (simp add: doc_points_def)
  then show ?thesis using f(2) rest_of_mem[OF f(1)] assms(1) unfolding kb_inv_def by metis
next
  case (kb_delete stop i r)
  then show ?thesis
  proof (cases rule: deleteDocument_cases)
    case 2
    then have "set (kb_documents k') \<subseteq> set (kb_documents k)" "set (kb_points k') \<subseteq> set (kb_points k)"
      by (auto simp: deleteByDocument_def)
    then show ?thesis using assms(1) unfolding kb_inv_def by blast
  qed (use assms(1) in simp)
qed

text \<open>Who may influence what a user sees: the user, and the admins, who may delete anything.\<close>

definition kb_influence :: "user \<Rightarrow> oid \<Rightarrow> bool" where
  "kb_influence u me \<longleftrightarrow> u_id u = me \<or> u_role u = ADMIN"

lemma kb_step_respects:
  assumes "kb_inv k" "kb_step cfg u k k'" "\<not> kb_influence u me"
  shows "kb_view me k' = kb_view me k"
  using assms(2)
proof cases
  case (kb_ingest emb fa i uuid title content mimeType s r s')
  note f = ingest_frame[OF kb_ingest(1-3)]
  have ne: "u_id u \<noteq> me" using assms(3) by (simp add: kb_influence_def)
  have v: "kb_view me j = (filter (\<lambda>d. kd_ownerId d = me) (fst (rest_of i j)), filter (\<lambda>p. pt_ownerId p = me) (snd (snd (rest_of i j))))"
    if "\<forall>d \<in> set (kb_documents j). kd_id d = i \<longrightarrow> kd_ownerId d \<noteq> me" "\<forall>p \<in> set (doc_points i j). pt_ownerId p \<noteq> me" for j
    using that by (auto simp: kb_view_def rest_of_def doc_points_def intro!: filter_cong)
  have "kb_view me k' = (filter (\<lambda>d. kd_ownerId d = me) (fst (rest_of i k')), filter (\<lambda>p. pt_ownerId p = me) (snd (snd (rest_of i k'))))"
    by (rule v) (use f(2,3) ne in auto)
  also have "\<dots> = kb_view me k" unfolding f(1) by (rule v[symmetric]) (use kb_ingest(2) in \<open>auto simp: fresh_id_def\<close>)
  finally show ?thesis .
next
  case (kb_delete stop i r)
  then show ?thesis
  proof (cases rule: deleteDocument_cases)
    case (2 d)
    have d: "kd_ownerId d \<noteq> me" using 2(2) assms(3) by (auto simp: kb_influence_def ownerScope_def)
    have "kd_id d' \<noteq> kd_id d" if "d' \<in> set (kb_documents k)" "kd_ownerId d' = me" for d'
      using that d 2(1) assms(1) unfolding kb_inv_def by metis
    from filter_rest[of "kb_documents k" "\<lambda>d. kd_ownerId d = me" "\<lambda>d'. kd_id d' \<noteq> kd_id d", OF this]
    have docs: "filter (\<lambda>d. kd_ownerId d = me) (kb_documents k') = filter (\<lambda>d. kd_ownerId d = me) (kb_documents k)"
      using 2(3) by auto
    have "pt_documentId p \<noteq> kd_id d" if "p \<in> set (kb_points k)" "pt_ownerId p = me" for p
      using that d 2(1) assms(1) unfolding kb_inv_def by metis
    then have "filter (\<lambda>p. pt_ownerId p = me) (kb_points k) = filter (\<lambda>p. pt_ownerId p = me) (deleteByDocument coll (kd_id d) (kb_points k))" for coll
      unfolding deleteByDocument_def by (intro filter_rest) blast
    then have "filter (\<lambda>p. pt_ownerId p = me) (kb_points k') = filter (\<lambda>p. pt_ownerId p = me) (kb_points k)" using 2(4) by auto
    with docs show ?thesis by (simp add: kb_view_def)
  qed simp
qed

interpretation knowledge: separation "\<lambda>k. k = empty_kb" "kb_step cfg" kb_inv kb_influence kb_view for cfg
proof
  show "kb_inv k" if "k = empty_kb" for k using that by (simp add: kb_inv_def empty_kb_def)
qed (blast intro: kb_step_inv kb_step_respects)+

text \<open>C38: the knowledge base keeps tenants apart. From any reachable state, whatever the other users upload,
  however their uploads fail, and whatever they delete, a user finds the same passages for a question, gets
  the same answer from the same model, and lists the same documents; only the user and the admins can change
  any of this.\<close>

theorem knowledge_isolated:
  assumes "reach (\<lambda>k. k = empty_kb) (\<lambda>k k'. \<exists>u. kb_step cfg u k k') k"
    "(\<lambda>k k'. \<exists>u. \<not> kb_influence u me \<and> kb_step cfg u k k')\<^sup>*\<^sup>* k k'"
  shows "retrieve cfg emb (kb_points k') me question n s = retrieve cfg emb (kb_points k) me question n s
     \<and> answer cfg emb m jp issues schema_text (kb_points k') me question model s = answer cfg emb m jp issues schema_text (kb_points k) me question model s
     \<and> filter (\<lambda>d. kd_ownerId d = me) (kb_documents k') = filter (\<lambda>d. kd_ownerId d = me) (kb_documents k)"
proof -
  have v: "kb_view me k' = kb_view me k"
    using knowledge.others_invisible[OF assms(2) knowledge.reach_inv[OF assms(1)]] by simp
  have r: "retrieve cfg emb (kb_points k') me q n s = retrieve cfg emb (kb_points k) me q n s" for q n
    using v by (intro retrieve_own) (simp add: kb_view_def)
  show ?thesis using v by (simp add: r answer_def kb_view_def)
qed

text \<open>Another user's upload fails half-way; then the user with one document asks.\<close>

definition demo_kb :: kb where
  "demo_kb = snd (snd (ingest demo_rag (demo_embedder :: nat embedder) no_faults 3 (\<lambda>_. ''u0'') 7 ''Handbook'' ''Notice is two weeks long.'' ''text/plain'' (0, empty_kb)))"

definition demo_kb2 :: kb where
  "demo_kb2 = snd (snd (ingest demo_rag (demo_embedder :: nat embedder) (no_faults\<lparr>fa_upsert := Some (True, TypeError), fa_unpoint := True\<rparr>)
     4 (\<lambda>_. ''u1'') 8 ''Other'' ''Notice is ten weeks long.'' ''text/plain'' (0, demo_kb)))"

lemma demo_fresh: "fresh_id 3 empty_kb" "fresh_uuids (\<lambda>_. ''u0'') empty_kb" "fresh_id 4 demo_kb" "fresh_uuids (\<lambda>_. ''u1'') demo_kb"
proof -
  show f: "fresh_id 3 empty_kb" "fresh_uuids (\<lambda>_. ''u0'') empty_kb"
    by (simp_all add: fresh_id_def fresh_uuids_def empty_kb_def doc_chunks_def doc_points_def)
  have c: "cleanText (\<lambda>x. x) ''Notice is two weeks long.'' = ''Notice is two weeks long.''"
    by (simp add: cleanText_def is_space_def control_char_def trim_def Let_def)
  have "\<forall>d \<in> set (kb_documents demo_kb). kd_id d = 3" "\<forall>c \<in> set (kb_chunks demo_kb). kc_documentId c = 3"
    "\<forall>p \<in> set (kb_points demo_kb). pt_documentId p = 3 \<and> pt_id p = ''u0''"
    unfolding demo_kb_def
    by (simp_all add: ingest_def demo_rag_def c create_document_def empty_kb_def embedAll.simps demo_embedder_def EMBED_BATCH_def store_chunks_def
        no_faults_def Let_def new_document_def chunks_of_def points_of_def upsert_def set_document_def)
  then show "fresh_id 4 demo_kb" "fresh_uuids (\<lambda>_. ''u1'') demo_kb"
    by (auto simp: fresh_id_def fresh_uuids_def doc_chunks_def doc_points_def filter_empty_conv)
qed

theorem knowledge_isolated_witness:
  "retrieve demo_rag demo_embedder (kb_points demo_kb2) 7 ''How long is the notice?'' 4 () = retrieve demo_rag demo_embedder (kb_points demo_kb) 7 ''How long is the notice?'' 4 ()"
proof -
  let ?a = "\<lparr>u_id = 7, u_role = VIEWER\<rparr>" and ?b = "\<lparr>u_id = 8, u_role = VIEWER\<rparr>"
  have st: "kb_step demo_rag ?a empty_kb demo_kb"
    by (rule kb_ingest[OF _ demo_fresh(1,2)]) (auto simp: demo_kb_def prod_eq_iff)
  have "reach (\<lambda>k. k = empty_kb) (\<lambda>k k'. \<exists>u. kb_step demo_rag u k k') empty_kb" by (rule reach_init) (rule refl)
  then have r: "reach (\<lambda>k. k = empty_kb) (\<lambda>k k'. \<exists>u. kb_step demo_rag u k k') demo_kb" by (rule reach_step) (rule exI, rule st)
  have "kb_step demo_rag ?b demo_kb demo_kb2"
    by (rule kb_ingest[OF _ demo_fresh(3,4)]) (auto simp: demo_kb2_def prod_eq_iff)
  moreover have "\<not> kb_influence ?b 7" by (simp add: kb_influence_def)
  ultimately have "(\<lambda>k k'. \<exists>u. \<not> kb_influence u 7 \<and> kb_step demo_rag u k k')\<^sup>*\<^sup>* demo_kb demo_kb2" by (intro r_into_rtranclp) blast
  from knowledge_isolated[OF r this] show ?thesis by (rule conjunct1)
qed

end
