(* ===== verification/Wf_Handlers.thy ===== *)
theory Wf_Handlers
  imports Wf_Worker_Correct Wf_Access Wf_Schema
begin

text \<open>
  The built-in task handlers of \<open>src/handlers/index.js\<close>: what the promise of each handler does, and when. Parameters are the
  conversions \<open>String\<close> and \<open>Number\<close> of values that are not plain, the text of a number, and the abort of the signal
  a handler is given.
\<close>

section \<open>Values of a configuration\<close>

definition nullish :: "json option \<Rightarrow> bool" where
  "nullish v \<longleftrightarrow> v = None \<or> v = Some JNull"

text \<open>\<open>String(v ?? dflt)\<close>\<close>

definition string_or :: "(json \<Rightarrow> string) \<Rightarrow> string \<Rightarrow> json option \<Rightarrow> string" where
  "string_or to_key dflt v = (case v of None \<Rightarrow> dflt | Some JNull \<Rightarrow> dflt | Some (JStr s) \<Rightarrow> s | Some j \<Rightarrow> to_key j)"

text \<open>A number of JavaScript, and \<open>Math.min(Math.max(Number(v) || dflt, lo), hi)\<close>. \<open>coerce\<close> is \<open>Number\<close> of what is neither
  a number, a boolean nor \<open>null\<close>.\<close>

datatype jsnum = NaN | Fin rat | Infinity | Neg_Infinity

definition to_number :: "(json \<Rightarrow> jsnum) \<Rightarrow> json option \<Rightarrow> jsnum" where
  "to_number coerce v = (case v of None \<Rightarrow> NaN | Some JNull \<Rightarrow> Fin 0 | Some (JBool b) \<Rightarrow> Fin (if b then 1 else 0) | Some (JNum r) \<Rightarrow> Fin r
     | Some j \<Rightarrow> coerce j)"

definition clamped :: "(json \<Rightarrow> jsnum) \<Rightarrow> rat \<Rightarrow> rat \<Rightarrow> rat \<Rightarrow> json option \<Rightarrow> rat" where
  "clamped coerce dflt lo hi v =
     (case to_number coerce v of
        NaN \<Rightarrow> min (max dflt lo) hi
      | Fin r \<Rightarrow> min (max (if r = 0 then dflt else r) lo) hi
      | Infinity \<Rightarrow> hi
      | Neg_Infinity \<Rightarrow> min lo hi)"

section \<open>Handlers\<close>

definition MAX_DELAY_MS :: rat where
  "MAX_DELAY_MS = 60000"

definition DAY_MS :: rat where
  "DAY_MS = 24 * 3600 * 1000"

text \<open>\<open>setTimeout\<close> truncates its delay; the signal may have been aborted before, or abort while the timer runs.\<close>

definition sleep :: "rat \<Rightarrow> (js_error \<times> time) option \<Rightarrow> unit promise" where
  "sleep ms signal =
     (let t = timer_delay \<lfloor>ms\<rfloor> in
      case signal of
        None \<Rightarrow> Some (Fulfilled (), t)
      | Some (reason, at_time) \<Rightarrow>
          if at_time \<le> 0 then Some (Rejected (Some reason), 0)
          else if at_time < t then Some (Rejected (Some reason), at_time) else Some (Fulfilled (), t))"

record handler_env =
  he_string :: "json \<Rightarrow> string"
  he_number :: "json \<Rightarrow> jsnum"
  he_show :: "jsnum \<Rightarrow> string"
  he_signal :: "(js_error \<times> time) option"

definition resolved :: "handler_output \<Rightarrow> handler_output promise" where
  "resolved v = Some (Fulfilled v, 0)"

definition rejected :: "js_error \<Rightarrow> handler_output promise" where
  "rejected err = Some (Rejected (Some err), 0)"

definition noop :: "handler_env \<Rightarrow> handler_args \<Rightarrow> handler_output promise" where
  "noop env a = resolved (Value (JObj []))"

definition delay_ms :: "handler_env \<Rightarrow> handler_args \<Rightarrow> rat" where
  "delay_ms env a = clamped (he_number env) 100 0 MAX_DELAY_MS (field ''ms'' (h_config a))"

definition delay :: "handler_env \<Rightarrow> handler_args \<Rightarrow> handler_output promise" where
  "delay env a =
     (let ms = delay_ms env a in
      map_option (\<lambda>(r, t). (case r of Fulfilled _ \<Rightarrow> Fulfilled (Value (JObj [(''waitedMs'', JNum ms)])) | Rejected e \<Rightarrow> Rejected e, t))
        (sleep ms (he_signal env)))"

definition error_of :: "string \<Rightarrow> js_error" where
  "error_of msg = \<lparr>je_name = ''Error'', je_message = msg, je_retryable = None, je_non_retryable = False\<rparr>"

definition fail :: "handler_env \<Rightarrow> handler_args \<Rightarrow> handler_output promise" where
  "fail env a =
     (let message = string_or (he_string env) ''Task configured to fail'' (field ''message'' (h_config a)) in
      if field ''retryable'' (h_config a) = Some (JBool True) then rejected (error_of message) else rejected (NonRetryableError message))"

definition fail_times :: "handler_env \<Rightarrow> handler_args \<Rightarrow> jsnum" where
  "fail_times env a = (if nullish (field ''failTimes'' (h_config a)) then Fin 1 else to_number (he_number env) (field ''failTimes'' (h_config a)))"

text \<open>\<open>attempt <= failTimes\<close>; a comparison with \<open>NaN\<close> is false.\<close>

definition at_most :: "int \<Rightarrow> jsnum \<Rightarrow> bool" where
  "at_most i n = (case n of NaN \<Rightarrow> False | Fin r \<Rightarrow> of_int i \<le> r | Infinity \<Rightarrow> True | Neg_Infinity \<Rightarrow> False)"

definition flaky :: "handler_env \<Rightarrow> handler_args \<Rightarrow> handler_output promise" where
  "flaky env a =
     (if at_most (h_attempt a) (fail_times env a)
      then rejected (error_of (''flaky failure on attempt '' @ show_int (h_attempt a) @ ''/'' @ he_show env (fail_times env a)))
      else resolved (Value (JObj [(''succeededOnAttempt'', JNum (of_int (h_attempt a)))])))"

text \<open>The date the approval expires has whole milliseconds, so the part of the timeout below one is lost.\<close>

definition human_approval :: "handler_env \<Rightarrow> handler_args \<Rightarrow> handler_output promise" where
  "human_approval env a =
     resolved (AwaitApproval
       \<lparr>r_title = take 200 (string_or (he_string env) ''Approval required'' (field ''title'' (h_config a))),
        r_message = take 2000 (string_or (he_string env) [] (field ''message'' (h_config a))),
        r_context = JObj (h_parents a),
        r_timeoutMs = \<lfloor>clamped (he_number env) DAY_MS 1000 (7 * DAY_MS) (field ''timeoutMs'' (h_config a))\<rfloor>\<rparr>)"

definition echo :: "handler_env \<Rightarrow> handler_args \<Rightarrow> handler_output promise" where
  "echo env a = resolved (Value (JObj [(''config'', h_config a), (''input'', h_input a), (''parents'', JObj (h_parents a))]))"

definition builtin_handlers :: "handler_env \<Rightarrow> (string \<times> (handler_args \<Rightarrow> handler_output promise)) list" where
  "builtin_handlers env = [(''noop'', noop env), (''delay'', delay env), (''fail'', fail env), (''flaky'', flaky env),
     (''human.approval'', human_approval env), (''echo'', echo env)]"

text \<open>\<open>handlers[task.type]\<close>: the table inherits the properties of every object. \<open>constructor\<close> is the function
  \<open>Object\<close>, which returns the object it is given; \<open>inherited_call\<close> is what calling another of them does.\<close>

definition object_call :: "handler_args \<Rightarrow> handler_output promise" where
  "object_call a = resolved (Value (JObj [(''config'', h_config a), (''input'', h_input a), (''parents'', JObj (h_parents a)),
     (''attempt'', JNum (of_int (h_attempt a))), (''ownerId'', JId (h_ownerId a)), (''signal'', JObj [])]))"

definition lookup_handler :: "(string \<times> (handler_args \<Rightarrow> handler_output promise)) list
    \<Rightarrow> (string \<Rightarrow> handler_args \<Rightarrow> handler_output promise) \<Rightarrow> handlers" where
  "lookup_handler table inherited_call ty =
     (case map_of table ty of
        Some h \<Rightarrow> Some h
      | None \<Rightarrow> if ty = ''constructor'' then Some object_call else if ty \<in> set inherited then Some (inherited_call ty) else None)"

end
