(* ===== verification/Wf_Calculator.thy ===== *)
theory Wf_Calculator
  imports Wf_Prelude
begin

text \<open>
  The calculator of \<open>src/ai/agent/calculator.js\<close>, the tool that evaluates what a model writes: a
  recursive-descent parser that computes while it reads. The parser works on the rest of the text
  instead of a position. JavaScript's numbers are a parameter: the operations of a record \<open>arith\<close>.
  The mutually recursive functions take fuel, \<open>None\<close> standing for fuel used up; it is proved that seven
  times the length of the text, and six more, is always enough.
\<close>

section \<open>Numbers and errors\<close>

record 'n arith =
  a_number :: "string \<Rightarrow> 'n"
  a_add :: "'n \<Rightarrow> 'n \<Rightarrow> 'n"
  a_sub :: "'n \<Rightarrow> 'n \<Rightarrow> 'n"
  a_mul :: "'n \<Rightarrow> 'n \<Rightarrow> 'n"
  a_div :: "'n \<Rightarrow> 'n \<Rightarrow> 'n"
  a_rem :: "'n \<Rightarrow> 'n \<Rightarrow> 'n"
  a_pow :: "'n \<Rightarrow> 'n \<Rightarrow> 'n"
  a_neg :: "'n \<Rightarrow> 'n"
  a_is_zero :: "'n \<Rightarrow> bool"
  a_over_100 :: "'n \<Rightarrow> bool"
  a_isFinite :: "'n \<Rightarrow> bool"
  a_toPrecision15 :: "'n \<Rightarrow> 'n"

datatype calc_error =
    TooLong | NotAllowed | ExpectedNumber nat | MissingParenthesis | ExponentTooLarge | DivisionByZero
  | Unexpected char nat | NotFinite

type_synonym 'a parsed = "(calc_error + 'a) option"

definition bind_parsed :: "'a parsed \<Rightarrow> ('a \<Rightarrow> 'b parsed) \<Rightarrow> 'b parsed" where
  "bind_parsed m f = (case m of None \<Rightarrow> None | Some (Inl e) \<Rightarrow> Some (Inl e) | Some (Inr x) \<Rightarrow> f x)"

lemma bind_parsed_simps [simp]:
  "bind_parsed None f = None" "bind_parsed (Some (Inl e)) f = Some (Inl e)" "bind_parsed (Some (Inr x)) f = f x"
  by (simp_all add: bind_parsed_def)

section \<open>The parser\<close>

definition is_digit :: "char \<Rightarrow> bool" where
  "is_digit c \<longleftrightarrow> of_char c \<in> {48 .. 57 :: nat}"

definition skip :: "string \<Rightarrow> string" where
  "skip s = dropWhile (\<lambda>c. c = CHR '' '') s"

text \<open>\<open>/^\d+(\.\d+)?/\<close>: the matched text and the rest.\<close>

definition match_number :: "string \<Rightarrow> (string \<times> string) option" where
  "match_number s =
     (let ds = takeWhile is_digit s; r = dropWhile is_digit s in
      if ds = [] then None
      else case r of
             [] \<Rightarrow> Some (ds, r)
           | c # cs \<Rightarrow> if c = CHR ''.'' \<and> takeWhile is_digit cs \<noteq> []
                       then Some (ds @ c # takeWhile is_digit cs, dropWhile is_digit cs) else Some (ds, r))"

definition number :: "'n arith \<Rightarrow> nat \<Rightarrow> string \<Rightarrow> ('n \<times> string) parsed" where
  "number ar n s =
     (let s = skip s in
      case match_number s of
        None \<Rightarrow> Some (Inl (ExpectedNumber (n - length s)))
      | Some (m, r) \<Rightarrow> Some (Inr (a_number ar m, r)))"

definition term_op :: "'n arith \<Rightarrow> char \<Rightarrow> 'n \<Rightarrow> 'n \<Rightarrow> calc_error + 'n" where
  "term_op ar c v r =
     (if (c = CHR ''/'' \<or> c = CHR ''%'') \<and> a_is_zero ar r then Inl DivisionByZero
      else Inr (if c = CHR ''*'' then a_mul ar v r else if c = CHR ''/'' then a_div ar v r else a_rem ar v r))"

definition pow_op :: "'n arith \<Rightarrow> 'n \<Rightarrow> 'n \<Rightarrow> calc_error + 'n" where
  "pow_op ar b e = (if a_over_100 ar e then Inl ExponentTooLarge else Inr (a_pow ar b e))"

definition expr_op :: "'n arith \<Rightarrow> char \<Rightarrow> 'n \<Rightarrow> 'n \<Rightarrow> 'n" where
  "expr_op ar c v r = (if c = CHR ''+'' then a_add ar v r else a_sub ar v r)"

abbreviation is_term_op :: "char \<Rightarrow> bool" where
  "is_term_op c \<equiv> c = CHR ''*'' \<or> c = CHR ''/'' \<or> c = CHR ''%''"

abbreviation is_expr_op :: "char \<Rightarrow> bool" where
  "is_expr_op c \<equiv> c = CHR ''+'' \<or> c = CHR ''-''"

text \<open>The functions that call one another, as names, with the value read so far for the two loops. Each is
  defined over \<open>call\<close>, which stands for the calls it makes; \<open>n\<close> is the length of the whole text.\<close>

datatype 'n routine = Primary | Unary | Factor | Term_Loop 'n | Term | Expr_Loop 'n | Expr

type_synonym 'n calls = "'n routine \<Rightarrow> string \<Rightarrow> ('n \<times> string) parsed"

definition primary :: "'n arith \<Rightarrow> nat \<Rightarrow> 'n calls \<Rightarrow> string \<Rightarrow> ('n \<times> string) parsed" where
  "primary ar n call s =
     (case skip s of
        c # cs \<Rightarrow>
          if c = CHR ''('' then
            bind_parsed (call Expr cs) (\<lambda>(v, s).
              case skip s of
                d # ds \<Rightarrow> if d = CHR '')'' then Some (Inr (v, ds)) else Some (Inl MissingParenthesis)
              | [] \<Rightarrow> Some (Inl MissingParenthesis))
          else number ar n (c # cs)
      | [] \<Rightarrow> number ar n [])"

definition unary :: "'n arith \<Rightarrow> 'n calls \<Rightarrow> string \<Rightarrow> ('n \<times> string) parsed" where
  "unary ar call s =
     (case skip s of
        c # cs \<Rightarrow> if c = CHR ''-'' then bind_parsed (call Unary cs) (\<lambda>(v, s). Some (Inr (a_neg ar v, s)))
                  else call Primary (c # cs)
      | [] \<Rightarrow> call Primary [])"

definition factor :: "'n arith \<Rightarrow> 'n calls \<Rightarrow> string \<Rightarrow> ('n \<times> string) parsed" where
  "factor ar call s =
     bind_parsed (call Unary s) (\<lambda>(b, s).
       case skip s of
         c # cs \<Rightarrow> if c = CHR ''^''
                   then bind_parsed (call Factor cs) (\<lambda>(e, s). Some (map_sum id (\<lambda>v. (v, s)) (pow_op ar b e)))
                   else Some (Inr (b, c # cs))
       | [] \<Rightarrow> Some (Inr (b, [])))"

definition term_loop :: "'n arith \<Rightarrow> 'n calls \<Rightarrow> 'n \<Rightarrow> string \<Rightarrow> ('n \<times> string) parsed" where
  "term_loop ar call v s =
     (case skip s of
        c # cs \<Rightarrow> if is_term_op c
                  then bind_parsed (call Factor cs) (\<lambda>(r, s).
                         case term_op ar c v r of Inl e \<Rightarrow> Some (Inl e) | Inr v \<Rightarrow> call (Term_Loop v) s)
                  else Some (Inr (v, c # cs))
      | [] \<Rightarrow> Some (Inr (v, [])))"

definition term_body :: "'n calls \<Rightarrow> string \<Rightarrow> ('n \<times> string) parsed" where
  "term_body call s = bind_parsed (call Factor s) (\<lambda>(v, s). call (Term_Loop v) s)"

definition expr_loop :: "'n arith \<Rightarrow> 'n calls \<Rightarrow> 'n \<Rightarrow> string \<Rightarrow> ('n \<times> string) parsed" where
  "expr_loop ar call v s =
     (case skip s of
        c # cs \<Rightarrow> if is_expr_op c
                  then bind_parsed (call Term cs) (\<lambda>(r, s). call (Expr_Loop (expr_op ar c v r)) s)
                  else Some (Inr (v, c # cs))
      | [] \<Rightarrow> Some (Inr (v, [])))"

definition expr :: "'n calls \<Rightarrow> string \<Rightarrow> ('n \<times> string) parsed" where
  "expr call s = bind_parsed (call Term s) (\<lambda>(v, s). call (Expr_Loop v) s)"

primrec body :: "'n arith \<Rightarrow> nat \<Rightarrow> 'n calls \<Rightarrow> 'n routine \<Rightarrow> string \<Rightarrow> ('n \<times> string) parsed" where
  "body ar n call Primary = primary ar n call"
| "body ar n call Unary = unary ar call"
| "body ar n call Factor = factor ar call"
| "body ar n call (Term_Loop v) = term_loop ar call v"
| "body ar n call Term = term_body call"
| "body ar n call (Expr_Loop v) = expr_loop ar call v"
| "body ar n call Expr = expr call"

primrec parse :: "'n arith \<Rightarrow> nat \<Rightarrow> nat \<Rightarrow> 'n calls" where
  "parse ar n 0 rt s = None"
| "parse ar n (Suc f) rt s = body ar n (parse ar n f) rt s"

text \<open>\<open>/^[\d\s.+\-*/%^()]+$/\<close>\<close>

definition allowed_char :: "char \<Rightarrow> bool" where
  "allowed_char c \<longleftrightarrow> is_digit c \<or> of_char c \<in> {9, 10, 11, 12, 13, 32, 160 :: nat}
     \<or> c \<in> {CHR ''.'', CHR ''+'', CHR ''-'', CHR ''*'', CHR ''/'', CHR ''%'', CHR ''^'', CHR ''('', CHR '')''}"

definition fuel_for :: "string \<Rightarrow> nat" where
  "fuel_for s = 7 * length s + 6"

definition evaluateArithmetic :: "'n arith \<Rightarrow> string \<Rightarrow> 'n parsed" where
  "evaluateArithmetic ar src =
     (if length src > 200 then Some (Inl TooLong)
      else if src = [] \<or> \<not> list_all allowed_char src then Some (Inl NotAllowed)
      else bind_parsed (parse ar (length src) (fuel_for src) Expr src) (\<lambda>(v, s).
        case skip s of
          c # cs \<Rightarrow> Some (Inl (Unexpected c (length src - length (c # cs))))
        | [] \<Rightarrow> if \<not> a_isFinite ar v then Some (Inl NotFinite) else Some (Inr (a_toPrecision15 ar v))))"

section \<open>More fuel changes nothing\<close>

definition below :: "'a parsed \<Rightarrow> 'a parsed \<Rightarrow> bool" where
  "below x y \<longleftrightarrow> x = None \<or> x = y"

lemma below_bind: "below m m' \<Longrightarrow> (\<And>x. below (f x) (g x)) \<Longrightarrow> below (bind_parsed m f) (bind_parsed m' g)"
  by (auto simp: below_def bind_parsed_def split: option.splits sum.splits)

lemma below_refl [simp]: "below x x"
  by (simp add: below_def)

lemma body_mono:
  assumes "\<And>rt s. below (call rt s) (call' rt s)"
  shows "below (body ar n call rt s) (body ar n call' rt s)"
  by (cases rt)
    (auto simp: primary_def unary_def factor_def term_loop_def term_body_def expr_loop_def expr_def
      intro!: below_bind assms split: list.splits sum.splits)

lemma parse_mono_Suc: "below (parse ar n f rt s) (parse ar n (Suc f) rt s)"
proof (induction f arbitrary: rt s)
  case (Suc f)
  show ?case unfolding parse.simps(2)[of _ _ f] parse.simps(2)[of _ _ "Suc f"]
    by (rule body_mono) (use Suc in simp)
qed (simp add: below_def)

lemma parse_mono: "parse ar n f rt s = Some r \<Longrightarrow> f \<le> g \<Longrightarrow> parse ar n g rt s = Some r"
proof (induction g)
  case (Suc g)
  then show ?case using parse_mono_Suc[of ar n g rt s] by (auto simp: below_def le_Suc_eq)
qed simp

section \<open>The rest is shorter\<close>

text \<open>What a routine leaves: the loops may read nothing, everything else reads something.\<close>

definition consumes :: "'n routine \<Rightarrow> string \<Rightarrow> string \<Rightarrow> bool" where
  "consumes rt s r \<longleftrightarrow> (case rt of Term_Loop _ \<Rightarrow> length r \<le> length s | Expr_Loop _ \<Rightarrow> length r \<le> length s | _ \<Rightarrow> length r < length s)"

lemma skip_length: "length (skip s) \<le> length s"
  by (simp add: skip_def length_dropWhile_le)

lemma skip_Cons_length: "skip s = c # cs \<Longrightarrow> length cs < length s"
  using skip_length[of s] by simp

lemma match_number_length:
  assumes "match_number s = Some (m, r)"
  shows "length r < length s"
proof -
  have "length s = length (takeWhile is_digit s) + length (dropWhile is_digit s)"
    by (metis length_append takeWhile_dropWhile_id)
  moreover have "takeWhile is_digit s \<noteq> []" "length r \<le> length (dropWhile is_digit s)"
    using assms by (cases "dropWhile is_digit s"; auto simp: match_number_def Let_def length_dropWhile_le le_SucI split: if_splits)+
  ultimately show ?thesis by (cases "takeWhile is_digit s") simp_all
qed

lemma number_length: "number ar n s = Some (Inr (v, r)) \<Longrightarrow> length r < length s"
  using match_number_length[of "skip s"] skip_length[of s] by (auto simp: number_def Let_def split: option.splits)

lemma bind_parsed_InrE:
  assumes "bind_parsed m f = Some (Inr y)"
  obtains x where "m = Some (Inr x)" "f x = Some (Inr y)"
  using assms by (auto simp: bind_parsed_def split: option.splits sum.splits)

lemma body_consumes:
  assumes call: "\<And>rt s v r. call rt s = Some (Inr (v, r)) \<Longrightarrow> consumes rt s r"
    and b: "body ar n call rt s = Some (Inr (v, r))"
  shows "consumes rt s r"
proof -
  have strict: "call rt s = Some (Inr (v, r)) \<Longrightarrow> length r < length s"
    if "rt \<in> {Primary, Unary, Factor, Term, Expr}" for rt s v r
    using call[of rt s v r] that by (auto simp: consumes_def)
  have weak: "call (Term_Loop x) s = Some (Inr (v, r)) \<Longrightarrow> length r \<le> length s" "call (Expr_Loop x) s = Some (Inr (v, r)) \<Longrightarrow> length r \<le> length s"
    for x s v r using call[of "Term_Loop x" s v r] call[of "Expr_Loop x" s v r] by (auto simp: consumes_def)
  show ?thesis
  proof (cases rt)
    case Primary
    then show ?thesis using b skip_length[of s]
      by (auto simp: primary_def consumes_def elim!: bind_parsed_InrE dest!: strict[rotated] number_length skip_Cons_length split: list.splits if_splits)
  next
    case Unary
    then show ?thesis using b skip_length[of s]
      by (auto simp: unary_def consumes_def elim!: bind_parsed_InrE dest!: strict[rotated] split: list.splits if_splits)
  next
    case Factor
    then show ?thesis using b
      by (auto simp: factor_def consumes_def pow_op_def elim!: bind_parsed_InrE dest!: strict[rotated] skip_Cons_length
          intro: le_less_trans[OF skip_length] split: list.splits if_splits)
  next
    case (Term_Loop v)
    then show ?thesis using b skip_length[of s]
      by (auto simp: term_loop_def consumes_def elim!: bind_parsed_InrE dest!: strict[rotated] weak intro: skip_length split: list.splits if_splits sum.splits)
  next
    case Term
    then show ?thesis using b
      by (auto simp: term_body_def consumes_def elim!: bind_parsed_InrE dest!: strict[rotated] weak)
  next
    case (Expr_Loop v)
    then show ?thesis using b skip_length[of s]
      by (auto simp: expr_loop_def consumes_def elim!: bind_parsed_InrE dest!: strict[rotated] weak intro: skip_length split: list.splits if_splits)
  next
    case Expr
    then show ?thesis using b
      by (auto simp: expr_def consumes_def elim!: bind_parsed_InrE dest!: strict[rotated] weak)
  qed
qed

lemma parse_consumes: "parse ar n f rt s = Some (Inr (v, r)) \<Longrightarrow> consumes rt s r"
proof (induction f arbitrary: rt s v r)
  case (Suc f)
  show ?case by (rule body_consumes[OF Suc.IH]) (use Suc.prems in simp_all)
qed simp

section \<open>Enough fuel\<close>

primrec need :: "'n routine \<Rightarrow> nat" where
  "need Primary = 2"
| "need Unary = 3"
| "need Factor = 4"
| "need (Term_Loop v) = 1"
| "need Term = 5"
| "need (Expr_Loop v) = 1"
| "need Expr = 6"

lemma bind_parsed_None: "bind_parsed m f = None \<longleftrightarrow> m = None \<or> (\<exists>x. m = Some (Inr x) \<and> f x = None)"
  by (auto simp: bind_parsed_def split: option.splits sum.splits)

lemma number_total [simp]: "number ar n s \<noteq> None"
  by (simp add: number_def Let_def split: option.splits)

lemma body_total:
  assumes total: "\<And>rt' s'. 7 * length s' + need rt' < 7 * length s + need rt \<Longrightarrow> call rt' s' \<noteq> None"
    and less: "\<And>rt s v r. call rt s = Some (Inr (v, r)) \<Longrightarrow> consumes rt s r"
  shows "body ar n call rt s \<noteq> None"
proof -
  have strict: "call rt s = Some (Inr (v, r)) \<Longrightarrow> length r < length s" if "rt \<in> {Primary, Unary, Factor, Term, Expr}" for rt s v r
    using less[of rt s v r] that by (auto simp: consumes_def)
  have sk: "length cs < length s" if "skip s = c # cs" for c cs using that by (rule skip_Cons_length)
  have sk': "length (c # cs) \<le> length s" if "skip s = c # cs" for c cs using that skip_length[of s] by simp
  show ?thesis
  proof (cases rt)
    case Primary
    then have "call Expr cs \<noteq> None" if "skip s = c # cs" for c cs using sk[OF that] by (intro total) simp
    then show ?thesis using Primary by (auto simp: primary_def bind_parsed_None simp del: not_None_eq split: list.splits)
  next
    case Unary
    then have "call Unary cs \<noteq> None \<and> call Primary (c # cs) \<noteq> None" if "skip s = c # cs" for c cs
      using sk[OF that] sk'[OF that] by (intro conjI total) simp_all
    moreover have "call Primary [] \<noteq> None" using Unary by (intro total) simp
    ultimately show ?thesis using Unary by (auto simp: unary_def bind_parsed_None simp del: not_None_eq split: list.splits)
  next
    case Factor
    then have "call Unary s \<noteq> None" by (intro total) simp
    moreover have "call Factor cs \<noteq> None" if "call Unary s = Some (Inr (b, r))" "skip r = c # cs" for b r c cs
      using strict[OF _ that(1)] skip_Cons_length[OF that(2)] Factor by (intro total) simp
    ultimately show ?thesis using Factor by (auto simp: factor_def bind_parsed_None simp del: not_None_eq split: list.splits)
  next
    case (Term_Loop v)
    then have "call Factor cs \<noteq> None" if "skip s = c # cs" for c cs using sk[OF that] by (intro total) simp
    moreover have "call (Term_Loop x) r \<noteq> None" if "skip s = c # cs" "call Factor cs = Some (Inr (b, r))" for c cs b r x
      using sk[OF that(1)] strict[OF _ that(2)] Term_Loop by (intro total) simp
    ultimately show ?thesis using Term_Loop by (auto simp: term_loop_def bind_parsed_None simp del: not_None_eq split: list.splits sum.splits)
  next
    case Term
    then have "call Factor s \<noteq> None" by (intro total) simp
    moreover have "call (Term_Loop v) r \<noteq> None" if "call Factor s = Some (Inr (v, r))" for v r
      using strict[OF _ that] Term by (intro total) simp
    ultimately show ?thesis using Term by (auto simp: term_body_def bind_parsed_None simp del: not_None_eq)
  next
    case (Expr_Loop v)
    then have "call Term cs \<noteq> None" if "skip s = c # cs" for c cs using sk[OF that] by (intro total) simp
    moreover have "call (Expr_Loop x) r \<noteq> None" if "skip s = c # cs" "call Term cs = Some (Inr (b, r))" for c cs b r x
      using sk[OF that(1)] strict[OF _ that(2)] Expr_Loop by (intro total) simp
    ultimately show ?thesis using Expr_Loop by (auto simp: expr_loop_def bind_parsed_None simp del: not_None_eq split: list.splits)
  next
    case Expr
    then have "call Term s \<noteq> None" by (intro total) simp
    moreover have "call (Expr_Loop v) r \<noteq> None" if "call Term s = Some (Inr (v, r))" for v r
      using strict[OF _ that] Expr by (intro total) simp
    ultimately show ?thesis using Expr by (auto simp: expr_def bind_parsed_None simp del: not_None_eq)
  qed
qed

lemma parse_total: "7 * length s + need rt \<le> f \<Longrightarrow> parse ar n f rt s \<noteq> None"
proof (induction f arbitrary: rt s)
  case 0
  then show ?case by (cases rt) simp_all
next
  case (Suc f)
  have "body ar n (parse ar n f) rt s \<noteq> None"
    by (rule body_total) (use Suc in \<open>auto dest: parse_consumes\<close>)
  then show ?case by simp
qed

text \<open>The parser without fuel: its equations are those of the source.\<close>

definition run_parser :: "'n arith \<Rightarrow> nat \<Rightarrow> 'n calls" where
  "run_parser ar n rt s = parse ar n (7 * length s + need rt) rt s"

lemma parse_run: "7 * length s + need rt \<le> f \<Longrightarrow> parse ar n f rt s = run_parser ar n rt s"
proof -
  assume f: "7 * length s + need rt \<le> f"
  have "run_parser ar n rt s \<noteq> None" unfolding run_parser_def by (rule parse_total) simp
  then obtain r where r: "run_parser ar n rt s = Some r" by blast
  then have "parse ar n f rt s = Some r" using f unfolding run_parser_def by (rule parse_mono)
  then show ?thesis using r by simp
qed

lemma below_run: "below (parse ar n f rt s) (run_parser ar n rt s)"
proof (cases "parse ar n f rt s")
  case (Some r)
  then have "parse ar n (f + (7 * length s + need rt)) rt s = Some r" by (rule parse_mono) simp
  then show ?thesis using Some parse_run[of s rt "f + (7 * length s + need rt)" ar n] by (simp add: below_def)
qed (simp add: below_def)

lemma run_parser_unfold: "run_parser ar n rt s = body ar n (run_parser ar n) rt s"
proof -
  let ?f = "7 * length s + need rt"
  have "run_parser ar n rt s = parse ar n (Suc ?f) rt s" by (rule parse_run[symmetric]) simp
  then have eq: "run_parser ar n rt s = body ar n (parse ar n ?f) rt s" by simp
  have "below (body ar n (parse ar n ?f) rt s) (body ar n (run_parser ar n) rt s)" by (rule body_mono) (rule below_run)
  moreover have "run_parser ar n rt s \<noteq> None" unfolding run_parser_def by (rule parse_total) simp
  ultimately show ?thesis unfolding eq by (auto simp: below_def)
qed

section \<open>Expressions\<close>

text \<open>Abstract syntax, its value with errors in the order in which the text is read, and its notation with
  as few parentheses as the grammar allows. The levels are those of the grammar: 0 a sum, 1 a product,
  2 a power, 3 a negation, 4 a literal.\<close>

datatype aexp = Lit string | Neg aexp | Pow aexp aexp | Mul char aexp aexp | Add char aexp aexp

fun eval_aexp :: "'n arith \<Rightarrow> aexp \<Rightarrow> calc_error + 'n" where
  "eval_aexp ar (Lit d) = Inr (a_number ar d)"
| "eval_aexp ar (Neg e) = map_sum id (a_neg ar) (eval_aexp ar e)"
| "eval_aexp ar (Pow a b) = (case eval_aexp ar a of Inl x \<Rightarrow> Inl x | Inr v \<Rightarrow>
     (case eval_aexp ar b of Inl x \<Rightarrow> Inl x | Inr w \<Rightarrow> pow_op ar v w))"
| "eval_aexp ar (Mul c a b) = (case eval_aexp ar a of Inl x \<Rightarrow> Inl x | Inr v \<Rightarrow>
     (case eval_aexp ar b of Inl x \<Rightarrow> Inl x | Inr w \<Rightarrow> term_op ar c v w))"
| "eval_aexp ar (Add c a b) = (case eval_aexp ar a of Inl x \<Rightarrow> Inl x | Inr v \<Rightarrow>
     (case eval_aexp ar b of Inl x \<Rightarrow> Inl x | Inr w \<Rightarrow> Inr (expr_op ar c v w)))"

primrec level :: "aexp \<Rightarrow> nat" where
  "level (Lit d) = 4"
| "level (Neg e) = 3"
| "level (Pow a b) = 2"
| "level (Mul c a b) = 1"
| "level (Add c a b) = 0"

definition paren :: "bool \<Rightarrow> string \<Rightarrow> string" where
  "paren b s = (if b then ''('' @ s @ '')'' else s)"

fun show_aexp :: "nat \<Rightarrow> aexp \<Rightarrow> string" where
  "show_aexp k (Lit d) = d"
| "show_aexp k (Neg e) = paren (3 < k) (''-'' @ show_aexp 3 e)"
| "show_aexp k (Pow a b) = paren (2 < k) (show_aexp 3 a @ ''^'' @ show_aexp 2 b)"
| "show_aexp k (Mul c a b) = paren (1 < k) (show_aexp 1 a @ [c] @ show_aexp 2 b)"
| "show_aexp k (Add c a b) = paren (0 < k) (show_aexp 0 a @ [c] @ show_aexp 1 b)"

text \<open>Literals are numbers of the grammar and operators belong to their level.\<close>

fun aexp_ok :: "aexp \<Rightarrow> bool" where
  "aexp_ok (Lit d) \<longleftrightarrow> match_number d = Some (d, [])"
| "aexp_ok (Neg e) \<longleftrightarrow> aexp_ok e"
| "aexp_ok (Pow a b) \<longleftrightarrow> aexp_ok a \<and> aexp_ok b"
| "aexp_ok (Mul c a b) \<longleftrightarrow> is_term_op c \<and> aexp_ok a \<and> aexp_ok b"
| "aexp_ok (Add c a b) \<longleftrightarrow> is_expr_op c \<and> aexp_ok a \<and> aexp_ok b"

section \<open>The parser reads the notation back\<close>

definition lift :: "calc_error + 'a \<Rightarrow> ('a \<Rightarrow> 'b parsed) \<Rightarrow> 'b parsed" where
  "lift r g = bind_parsed (Some r) g"

lemma lift_simps [simp]: "lift (Inl e) g = Some (Inl e)" "lift (Inr v) g = g v"
  by (simp_all add: lift_def)

lemma bind_lift [simp]: "bind_parsed (lift r g) h = lift r (\<lambda>v. bind_parsed (g v) h)"
  by (cases r) simp_all

text \<open>What may follow an operand, as far as an operator or a parenthesis can.\<close>

definition stops :: "string \<Rightarrow> string \<Rightarrow> bool" where
  "stops ops s \<longleftrightarrow> s = [] \<or> hd s \<in> set (ops @ ''+-)'')"

lemma stops_skip: "stops ''^*/%'' s \<Longrightarrow> skip s = s"
  by (cases s) (auto simp: stops_def skip_def)

lemma stops_mono: "set m \<subseteq> set m' \<Longrightarrow> stops m s \<Longrightarrow> stops m' s"
  by (auto simp: stops_def)

lemmas stops_weaken = stops_mono[of "''*/%''" "''^*/%''", simplified] stops_mono[of "[]" "''*/%''", simplified] stops_mono[of "[]" "''^*/%''", simplified]

definition reads :: "'n arith \<Rightarrow> nat \<Rightarrow> 'n routine \<Rightarrow> string \<Rightarrow> string \<Rightarrow> (calc_error + 'n) \<Rightarrow> bool" where
  "reads ar n rt ops t r \<longleftrightarrow> (\<forall>s. stops ops s \<longrightarrow> run_parser ar n rt (t @ s) = lift r (\<lambda>v.
     case rt of Term \<Rightarrow> run_parser ar n (Term_Loop v) s | Expr \<Rightarrow> run_parser ar n (Expr_Loop v) s | _ \<Rightarrow> Some (Inr (v, s))))"

abbreviation "reads4 ar n \<equiv> reads ar n Primary ''^*/%''"
abbreviation "reads3 ar n \<equiv> reads ar n Unary ''^*/%''"
abbreviation "reads2 ar n \<equiv> reads ar n Factor ''*/%''"
abbreviation "reads1 ar n \<equiv> reads ar n Term ''*/%''"
abbreviation "reads0 ar n \<equiv> reads ar n Expr []"

lemma skip_Cons [simp]: "c \<noteq> CHR '' '' \<Longrightarrow> skip (c # s) = c # s"
  by (simp add: skip_def)

lemma skip_Nil [simp]: "skip [] = []"
  by (simp add: skip_def)

lemma reads_up3:
  assumes "reads4 ar n t r" "t \<noteq> []" "hd t = CHR ''('' \<or> is_digit (hd t)"
  shows "reads3 ar n t r"
proof -
  obtain c cs where t: "t = c # cs" using assms(2) by (cases t) auto
  have c: "c \<noteq> CHR '' ''" "c \<noteq> CHR ''-''" using assms(3) by (auto simp: t is_digit_def)
  show ?thesis using assms(1) c unfolding reads_def run_parser_unfold[of ar n Unary] by (simp add: unary_def t)
qed

lemma reads_up2: "reads3 ar n t r \<Longrightarrow> reads2 ar n t r"
  unfolding reads_def run_parser_unfold[of ar n Factor]
proof (intro allI impI)
  fix s assume r: "\<forall>s. stops ''^*/%'' s \<longrightarrow> run_parser ar n Unary (t @ s) = lift r (\<lambda>v. case Unary of
      Term \<Rightarrow> run_parser ar n (Term_Loop v) s | Expr \<Rightarrow> run_parser ar n (Expr_Loop v) s | _ \<Rightarrow> Some (Inr (v, s)))" and s: "stops ''*/%'' s"
  have w: "stops ''^*/%'' s" using s by (rule stops_weaken(1))
  have u: "run_parser ar n Unary (t @ s) = lift r (\<lambda>v. Some (Inr (v, s)))" using r w by simp
  have c: "skip s = s" "s = [] \<or> (\<exists>c cs. s = c # cs \<and> c \<noteq> CHR ''^'')" using stops_skip[OF w] s by (cases s, auto simp: stops_def)+
  show "body ar n (run_parser ar n) Factor (t @ s) = lift r (\<lambda>v. case Factor of
      Term \<Rightarrow> run_parser ar n (Term_Loop v) s | Expr \<Rightarrow> run_parser ar n (Expr_Loop v) s | _ \<Rightarrow> Some (Inr (v, s)))"
    using u c by (auto simp: factor_def)
qed

lemma reads_up1: "reads2 ar n t r \<Longrightarrow> reads1 ar n t r"
  unfolding reads_def run_parser_unfold[of ar n Term] by (simp add: term_body_def)

lemma term_loop_stop: "stops [] s \<Longrightarrow> run_parser ar n (Term_Loop v) s = Some (Inr (v, s))"
  unfolding run_parser_unfold[of ar n "Term_Loop v"] by (auto simp: term_loop_def stops_skip stops_weaken stops_def split: list.splits)

lemma reads_up0: "reads1 ar n t r \<Longrightarrow> reads0 ar n t r"
  unfolding reads_def run_parser_unfold[of ar n Expr] by (simp add: expr_def stops_weaken term_loop_stop)

lemma reads_paren: "reads0 ar n t r \<Longrightarrow> reads4 ar n (''('' @ t @ '')'') r"
  unfolding reads_def run_parser_unfold[of ar n Primary]
  by (simp add: primary_def stops_def run_parser_unfold[of ar n "Expr_Loop _"] expr_loop_def)

lemma match_number_hd: "match_number d = Some (d, []) \<Longrightarrow> d \<noteq> [] \<and> is_digit (hd d)"
  by (cases d) (auto simp: match_number_def split: if_splits)

lemma match_number_more:
  assumes "match_number d = Some (d, [])" "stops ''^*/%'' s"
  shows "match_number (d @ s) = Some (d, s)"
proof -
  have s: "takeWhile is_digit s = []" "dropWhile is_digit s = s" "\<And>cs. s \<noteq> CHR ''.'' # cs"
    using assms(2) by (cases s; auto simp: stops_def is_digit_def)+
  obtain ds r where d: "d = ds @ r" "\<forall>c \<in> set ds. is_digit c" "ds = takeWhile is_digit d" "r = dropWhile is_digit d"
    by (metis set_takeWhileD takeWhile_dropWhile_id)
  show ?thesis
  proof (cases r)
    case Nil
    then have tw: "takeWhile is_digit (d @ s) = d" "dropWhile is_digit (d @ s) = s" using d(1,2) s by (simp_all add: takeWhile_append2 dropWhile_append2)
    show ?thesis unfolding match_number_def tw Let_def using match_number_hd[OF assms(1)] s(3) by (cases s) auto
  next
    case (Cons c cs)
    then have h: "ds \<noteq> []" "c = CHR ''.''" "takeWhile is_digit cs = cs" "cs \<noteq> []"
      using assms(1) unfolding match_number_def d(3)[symmetric] d(4)[symmetric] Let_def Cons
      by (auto simp: d(1) Cons split: if_splits)
    have cs: "\<forall>c \<in> set cs. is_digit c" using h(3) by (metis set_takeWhileD)
    have "takeWhile is_digit (d @ s) = ds" "dropWhile is_digit (d @ s) = c # cs @ s"
      using d(1,2) Cons h(2) by (simp_all add: takeWhile_append2 dropWhile_append2 is_digit_def)
    moreover have "takeWhile is_digit (cs @ s) = cs" "dropWhile is_digit (cs @ s) = s"
      using cs s by (simp_all add: takeWhile_append2 dropWhile_append2)
    ultimately show ?thesis using h d(1) Cons by (simp add: match_number_def)
  qed
qed

lemma reads_literal:
  assumes "match_number d = Some (d, [])"
  shows "reads4 ar n d (Inr (a_number ar d))"
proof -
  obtain c cs where d: "d = c # cs" "is_digit c" using match_number_hd[OF assms] by (cases d) auto
  then have c: "c \<noteq> CHR '' ''" "c \<noteq> CHR ''(''" by (auto simp: is_digit_def)
  show ?thesis using c match_number_more[OF assms] unfolding reads_def run_parser_unfold[of ar n Primary]
    by (auto simp: primary_def number_def d)
qed

lemma reads_neg: "reads3 ar n t r \<Longrightarrow> reads3 ar n (''-'' @ t) (map_sum id (a_neg ar) r)"
  unfolding reads_def by (subst run_parser_unfold, cases r) (simp_all add: unary_def)

lemma reads_pow:
  assumes "reads3 ar n t r" "reads2 ar n t' r'"
  shows "reads2 ar n (t @ ''^'' @ t') (case r of Inl x \<Rightarrow> Inl x | Inr v \<Rightarrow> (case r' of Inl x \<Rightarrow> Inl x | Inr w \<Rightarrow> pow_op ar v w))"
proof -
  have s: "stops ''^*/%'' (CHR ''^'' # x)" for x by (simp add: stops_def)
  show ?thesis using assms s unfolding reads_def
    by (subst run_parser_unfold, cases r; cases r') (auto simp: factor_def pow_op_def)
qed

lemma reads_mul:
  assumes "reads1 ar n t r" "reads2 ar n t' r'" "is_term_op c"
  shows "reads1 ar n (t @ [c] @ t') (case r of Inl x \<Rightarrow> Inl x | Inr v \<Rightarrow> (case r' of Inl x \<Rightarrow> Inl x | Inr w \<Rightarrow> term_op ar c v w))"
proof -
  have s: "stops ''*/%'' (c # x)" "skip (c # x) = c # x" for x using assms(3) by (auto simp: stops_def)
  have loop: "run_parser ar n (Term_Loop v) (c # x) = bind_parsed (run_parser ar n Factor x) (\<lambda>(w, s).
      case term_op ar c v w of Inl e \<Rightarrow> Some (Inl e) | Inr v \<Rightarrow> run_parser ar n (Term_Loop v) s)" for v x
    using assms(3) s(2) by (subst run_parser_unfold) (auto simp: term_loop_def)
  show ?thesis using assms(1,2) s(1) unfolding reads_def
    by (cases r; cases r') (auto simp: loop split: sum.splits)
qed

lemma reads_add:
  assumes "reads0 ar n t r" "reads1 ar n t' r'" "is_expr_op c"
  shows "reads0 ar n (t @ [c] @ t') (case r of Inl x \<Rightarrow> Inl x | Inr v \<Rightarrow> (case r' of Inl x \<Rightarrow> Inl x | Inr w \<Rightarrow> Inr (expr_op ar c v w)))"
proof -
  have s: "stops [] (c # x)" "skip (c # x) = c # x" for x using assms(3) by (auto simp: stops_def)
  have loop: "run_parser ar n (Expr_Loop v) (c # x) = bind_parsed (run_parser ar n Term x) (\<lambda>(w, s).
      run_parser ar n (Expr_Loop (expr_op ar c v w)) s)" for v x
    using assms(3) s(2) by (subst run_parser_unfold) (auto simp: expr_loop_def)
  show ?thesis using assms(1,2) s(1) unfolding reads_def
    by (cases r; cases r') (auto simp: loop stops_weaken term_loop_stop)
qed

lemma reads_aexp:
  assumes "aexp_ok e"
  shows "reads0 ar n (show_aexp 0 e) (eval_aexp ar e) \<and> reads1 ar n (show_aexp 1 e) (eval_aexp ar e)
    \<and> reads2 ar n (show_aexp 2 e) (eval_aexp ar e) \<and> reads3 ar n (show_aexp 3 e) (eval_aexp ar e)
    \<and> reads4 ar n (show_aexp 4 e) (eval_aexp ar e)"
  using assms
proof (induction e)
  case (Lit d)
  then have "reads4 ar n d (Inr (a_number ar d))" by (simp add: reads_literal)
  moreover from this have "reads3 ar n d (Inr (a_number ar d))" using match_number_hd[of d] Lit by (intro reads_up3) auto
  ultimately show ?case by (simp add: reads_up2 reads_up1 reads_up0)
next
  case (Neg e)
  then have "reads3 ar n (''-'' @ show_aexp 3 e) (eval_aexp ar (Neg e))"
    using reads_neg[of ar n "show_aexp 3 e" "eval_aexp ar e"] by simp
  then show ?case using reads_paren[of ar n "''-'' @ show_aexp 3 e"] by (simp add: paren_def reads_up2 reads_up1 reads_up0)
next
  case (Pow a b)
  then have "reads2 ar n (show_aexp 3 a @ ''^'' @ show_aexp 2 b) (eval_aexp ar (Pow a b))"
    using reads_pow[of ar n "show_aexp 3 a" _ "show_aexp 2 b"] by simp
  moreover from this have "reads4 ar n (''('' @ (show_aexp 3 a @ ''^'' @ show_aexp 2 b) @ '')'') (eval_aexp ar (Pow a b))"
    by (intro reads_paren reads_up0 reads_up1)
  ultimately show ?case by (simp add: paren_def reads_up3 reads_up1 reads_up0)
next
  case (Mul c a b)
  then have "reads1 ar n (show_aexp 1 a @ [c] @ show_aexp 2 b) (eval_aexp ar (Mul c a b))"
    using reads_mul[of ar n "show_aexp 1 a" _ "show_aexp 2 b"] by simp
  moreover from this have "reads4 ar n (''('' @ (show_aexp 1 a @ [c] @ show_aexp 2 b) @ '')'') (eval_aexp ar (Mul c a b))"
    by (intro reads_paren reads_up0)
  ultimately show ?case by (simp add: paren_def reads_up3 reads_up2 reads_up0)
next
  case (Add c a b)
  then have "reads0 ar n (show_aexp 0 a @ [c] @ show_aexp 1 b) (eval_aexp ar (Add c a b))"
    using reads_add[of ar n "show_aexp 0 a" _ "show_aexp 1 b"] by simp
  moreover from this have "reads4 ar n (''('' @ (show_aexp 0 a @ [c] @ show_aexp 1 b) @ '')'') (eval_aexp ar (Add c a b))"
    by (rule reads_paren)
  ultimately show ?case by (simp add: paren_def reads_up3 reads_up2 reads_up1)
qed

lemma match_number_chars: "match_number d = Some (d, []) \<Longrightarrow> list_all allowed_char d"
proof -
  assume m: "match_number d = Some (d, [])"
  have tw: "c \<in> set (takeWhile is_digit s) \<Longrightarrow> is_digit c" for c s by (metis set_takeWhileD)
  obtain ds r where d: "d = ds @ r" "ds = takeWhile is_digit d" "r = dropWhile is_digit d" by simp
  have "r = [] \<or> (\<exists>cs. r = CHR ''.'' # cs \<and> takeWhile is_digit cs = cs)"
    using m unfolding match_number_def d(2)[symmetric] d(3)[symmetric] Let_def by (auto simp: d(1) split: if_splits list.splits)
  then have "c \<in> set r \<Longrightarrow> c = CHR ''.'' \<or> is_digit c" for c using tw by (metis empty_iff empty_set set_ConsD)
  moreover have "c \<in> set ds \<Longrightarrow> is_digit c" for c using tw[of c d] d(2) by simp
  ultimately have "\<forall>c \<in> set (ds @ r). allowed_char c" unfolding allowed_char_def set_append by blast
  then show ?thesis unfolding d(1)[symmetric] by (simp add: list_all_iff)
qed

lemma show_aexp_chars: "aexp_ok e \<Longrightarrow> list_all allowed_char (show_aexp k e) \<and> show_aexp k e \<noteq> []"
proof (induction e arbitrary: k)
  case (Lit d)
  then show ?case using match_number_chars[of d] match_number_hd[of d] by simp
qed (auto simp: paren_def allowed_char_def)

section \<open>Properties\<close>

text \<open>C34: the calculator always answers. On every input, whatever the arithmetic, evaluation ends with a
  value or an error; inputs of more than 200 characters, and inputs with any other character than digits,
  white space, points, operators and parentheses, are refused before a character is read.\<close>

theorem evaluateArithmetic_total:
  "\<exists>r. evaluateArithmetic ar src = Some r
     \<and> (200 < length src \<or> \<not> list_all allowed_char src \<or> src = [] \<longrightarrow> (\<exists>e. r = Inl e \<and> (e = TooLong \<or> e = NotAllowed)))"
proof -
  have "parse ar (length src) (fuel_for src) Expr src \<noteq> None" by (rule parse_total) (simp add: fuel_for_def)
  then obtain r where "parse ar (length src) (fuel_for src) Expr src = Some r" by blast
  then show ?thesis by (cases r) (auto simp: evaluateArithmetic_def split: list.splits)
qed

definition rat_arith :: "rat arith" where
  "rat_arith = \<lparr>a_number = (\<lambda>d. of_nat (foldl (\<lambda>k c. 10 * k + (of_char c - 48)) 0 d)), a_add = (+), a_sub = (-), a_mul = (*), a_div = (/),
     a_rem = (\<lambda>x y. x - y * of_int (if 0 \<le> x / y then \<lfloor>x / y\<rfloor> else \<lceil>x / y\<rceil>)), a_pow = (\<lambda>x y. x ^ nat \<lfloor>y\<rfloor>), a_neg = uminus,
     a_is_zero = (\<lambda>x. x = 0), a_over_100 = (\<lambda>x. 100 < abs x), a_isFinite = (\<lambda>_. True), a_toPrecision15 = id\<rparr>"

theorem evaluateArithmetic_total_witness:
  "\<exists>e. evaluateArithmetic rat_arith ''process.exit()'' = Some (Inl e) \<and> (e = TooLong \<or> e = NotAllowed)"
  using evaluateArithmetic_total[of rat_arith "''process.exit()''"] by (auto simp: allowed_char_def is_digit_def)

text \<open>C33: the calculator computes the expression that is written. For every expression, the text that
  denotes it under the usual precedences (products bind tighter than sums, powers tighter than products and to the
  right, a minus sign tightest) evaluates to its value, the first error met from left to right
  included.\<close>

theorem evaluateArithmetic_reads_notation:
  assumes "aexp_ok e" "length (show_aexp 0 e) \<le> 200"
  shows "evaluateArithmetic ar (show_aexp 0 e) =
    Some (case eval_aexp ar e of Inl x \<Rightarrow> Inl x
          | Inr v \<Rightarrow> if a_isFinite ar v then Inr (a_toPrecision15 ar v) else Inl NotFinite)"
proof -
  let ?s = "show_aexp 0 e"
  have st: "stops [] []" by (simp add: stops_def)
  have "run_parser ar (length ?s) (Expr_Loop v) [] = Some (Inr (v, []))" for v
    by (subst run_parser_unfold) (simp add: expr_loop_def)
  then have "run_parser ar (length ?s) Expr ?s = lift (eval_aexp ar e) (\<lambda>v. Some (Inr (v, [])))"
    using reads_aexp[OF assms(1), of ar "length ?s"] st unfolding reads_def by fastforce
  moreover have "parse ar (length ?s) (fuel_for ?s) Expr ?s = run_parser ar (length ?s) Expr ?s"
    by (rule parse_run) (simp add: fuel_for_def)
  ultimately have "parse ar (length ?s) (fuel_for ?s) Expr ?s = lift (eval_aexp ar e) (\<lambda>v. Some (Inr (v, [])))" by simp
  then show ?thesis using assms(2) show_aexp_chars[OF assms(1), of 0]
    by (cases "eval_aexp ar e") (auto simp: evaluateArithmetic_def)
qed

theorem evaluateArithmetic_reads_notation_witness:
  "evaluateArithmetic rat_arith ''(18-5)*2^3'' = Some (Inr 104)"
proof -
  let ?e = "Mul CHR ''*'' (Add CHR ''-'' (Lit ''18'') (Lit ''5'')) (Pow (Lit ''2'') (Lit ''3''))"
  have "aexp_ok ?e" by (simp add: match_number_def is_digit_def)
  moreover have "show_aexp 0 ?e = ''(18-5)*2^3''" by (simp add: paren_def)
  ultimately show ?thesis using evaluateArithmetic_reads_notation[of ?e rat_arith]
    by (simp add: rat_arith_def term_op_def pow_op_def expr_op_def)
qed

end
