(* ===== verification/Wf_Agent.thy ===== *)
theory Wf_Agent
  imports Wf_Rag Wf_Handlers Wf_Calculator
begin

text \<open>
  The controlled agent: the tool registry and the selection of tools of \<open>src/ai/agent/tools.js\<close>, and the loop of
  \<open>src/ai/agent/agent.js\<close>. The model proposes steps; the code decides. Parameters are the model, the
  embedding model, \<open>JSON.stringify\<close>, the texts of failed validations and, for each iteration,
  whether the abort signal has fired by then.
\<close>

section \<open>Tools\<close>

text \<open>A tool runs with validated arguments on behalf of an owner; its promise settles after some time or never.\<close>

record 's tool =
  tl_description :: string
  tl_schema :: "json schema"
  tl_permission :: "string option"
  tl_timeoutMs :: int
  tl_run :: "json \<Rightarrow> oid \<Rightarrow> 's \<Rightarrow> json promise \<times> 's"

text \<open>The three schemas; a zod object keeps the fields it names.\<close>

definition searchArgs :: "json \<Rightarrow> json option" where
  "searchArgs j =
     Option.bind (parse_object j) (\<lambda>j.
     Option.bind (required (parse_string (\<lambda>s. 1 \<le> length s \<and> length s \<le> 300)) (field ''query'' j)) (\<lambda>q.
     Option.bind (with_default 3 (parse_int 1 5) (field ''topK'' j)) (\<lambda>k.
       Some (JObj [(''query'', JStr q), (''topK'', JNum (of_int k))]))))"

definition statusArgs :: "(string \<Rightarrow> bool) \<Rightarrow> json \<Rightarrow> json option" where
  "statusArgs isValidObjectId j =
     Option.bind (parse_object j) (\<lambda>j.
     Option.bind (required (parse_string isValidObjectId) (field ''executionId'' j)) (\<lambda>i. Some (JObj [(''executionId'', JStr i)])))"

definition calculatorArgs :: "json \<Rightarrow> json option" where
  "calculatorArgs j =
     Option.bind (parse_object j) (\<lambda>j.
     Option.bind (required (parse_string (\<lambda>s. 1 \<le> length s \<and> length s \<le> 200)) (field ''expression'' j)) (\<lambda>e.
       Some (JObj [(''expression'', JStr e)])))"

definition schema_of :: "(json \<Rightarrow> string list) \<Rightarrow> string \<Rightarrow> (json \<Rightarrow> 'a option) \<Rightarrow> 'a schema" where
  "schema_of issues txt p = \<lparr>sc_parse = (\<lambda>j. case p j of Some x \<Rightarrow> Inr x | None \<Rightarrow> Inl (issues j)), sc_json = txt\<rparr>"

text \<open>What the tools read: the knowledge base if it is configured, and the database. \<open>oid_of\<close> casts an id,
  \<open>calc\<close> is the calculator's arithmetic with the JSON of its numbers, \<open>latency\<close> the time a tool takes.\<close>

record ('s, 'n) tool_env =
  te_rag :: "(rag_config \<times> 's embedder \<times> point list) option"
  te_db :: db
  te_isValidObjectId :: "string \<Rightarrow> bool"
  te_oid_of :: "string \<Rightarrow> oid"
  te_arith :: "'n arith"
  te_number :: "'n \<Rightarrow> json"
  te_calc_message :: "calc_error \<Rightarrow> string"
  te_issues :: "json \<Rightarrow> string list"
  te_schema_text :: "string \<Rightarrow> string"
  te_latency :: "string \<Rightarrow> json \<Rightarrow> time option"

definition settled_in :: "time option \<Rightarrow> 'a settlement \<Rightarrow> 'a promise" where
  "settled_in ms v = map_option (\<lambda>t. (v, t)) ms"

definition error_object :: "string \<Rightarrow> json" where
  "error_object msg = JObj [(''error'', JStr msg)]"

definition str_field :: "string \<Rightarrow> json \<Rightarrow> string" where
  "str_field k j = (case field k j of Some (JStr s) \<Rightarrow> s | _ \<Rightarrow> [])"

definition hit_json :: "hit \<Rightarrow> json" where
  "hit_json h = JObj [(''title'', JStr (hi_title h)), (''score'', JNum (hi_score h)), (''text'', JStr (take 500 (hi_text h)))]"

definition search_knowledge_base :: "('s, 'n) tool_env \<Rightarrow> json \<Rightarrow> oid \<Rightarrow> 's \<Rightarrow> json settlement \<times> 's" where
  "search_knowledge_base env args owner s =
     (case te_rag env of
        None \<Rightarrow> (Fulfilled (error_object ''knowledge base not configured''), s)
      | Some (cfg, emb, ps) \<Rightarrow>
          let k = (case field ''topK'' args of Some (JNum r) \<Rightarrow> nat \<lfloor>r\<rfloor> | _ \<Rightarrow> 0) in
          (case retrieve cfg emb ps owner (str_field ''query'' args) k s of
             (Inl err, s') \<Rightarrow> (Rejected (Some err), s')
           | (Inr hits, s') \<Rightarrow> (Fulfilled (JArr (map hit_json hits)), s')))"

definition get_workflow_status :: "('s, 'n) tool_env \<Rightarrow> json \<Rightarrow> oid \<Rightarrow> json settlement" where
  "get_workflow_status env args owner =
     (case List.find (\<lambda>e. e_id e = te_oid_of env (str_field ''executionId'' args) \<and> e_ownerId e = owner) (executions (te_db env)) of
        None \<Rightarrow> Fulfilled (error_object ''execution not found'')
      | Some e \<Rightarrow> Fulfilled (JObj
          [(''status'', JStr (execution_name (e_status e))),
           (''tasks'', JArr (map (\<lambda>t. JObj [(''key'', JStr (t_key t)), (''status'', JStr (task_name (t_status t))),
              (''attempt'', JNum (of_int (t_attempt t)))]) (tasks_of (e_id e) (te_db env))))]))"

text \<open>The call of the parser returns (it never runs out of depth, see \<open>Wf_Calculator\<close>).\<close>

definition calculator :: "('s, 'n) tool_env \<Rightarrow> json \<Rightarrow> json settlement" where
  "calculator env args =
     (case evaluateArithmetic (te_arith env) (str_field ''expression'' args) of
        Some (Inr v) \<Rightarrow> Fulfilled (JObj [(''result'', te_number env v)])
      | Some (Inl err) \<Rightarrow> Rejected (Some (error_of (te_calc_message env err)))
      | None \<Rightarrow> Rejected (Some (error_of [])))"

definition createToolRegistry :: "('s, 'n) tool_env \<Rightarrow> (string \<times> 's tool) list" where
  "createToolRegistry env =
     [(''search_knowledge_base'',
        \<lparr>tl_description = ''Search the user'' @ [CHR 0x27] @ ''s own knowledge base. Returns the most relevant text snippets.'',
         tl_schema = schema_of (te_issues env) (te_schema_text env ''search_knowledge_base'') searchArgs,
         tl_permission = Some WORKFLOW_READ, tl_timeoutMs = 20000,
         tl_run = (\<lambda>args owner s. let (v, s') = search_knowledge_base env args owner s
                     in (settled_in (te_latency env ''search_knowledge_base'' args) v, s'))\<rparr>),
      (''get_workflow_status'',
        \<lparr>tl_description = ''Get the status of one of the user'' @ [CHR 0x27] @ ''s workflow executions and its tasks, by execution id.'',
         tl_schema = schema_of (te_issues env) (te_schema_text env ''get_workflow_status'') (statusArgs (te_isValidObjectId env)),
         tl_permission = Some WORKFLOW_READ, tl_timeoutMs = 5000,
         tl_run = (\<lambda>args owner s. (settled_in (te_latency env ''get_workflow_status'' args) (get_workflow_status env args owner), s))\<rparr>),
      (''calculator'',
        \<lparr>tl_description = ''Evaluate an arithmetic expression with + - * / % ^ and parentheses, e.g. (18 - 5) * 2.'',
         tl_schema = schema_of (te_issues env) (te_schema_text env ''calculator'') calculatorArgs,
         tl_permission = None, tl_timeoutMs = 1000,
         tl_run = (\<lambda>args owner s. (settled_in (te_latency env ''calculator'' args) (calculator env args), s))\<rparr>)]"

section \<open>Selecting tools\<close>

text \<open>A name that every object inherits is found in the registry too; what is found there is not a tool
  (\<open>None\<close>) and asks for no permission. Assigning \<open>__proto__\<close> adds no key.\<close>

fun select_loop :: "(string \<times> 's tool) list \<Rightarrow> string \<Rightarrow> string list \<Rightarrow> (string \<times> 's tool option) list \<Rightarrow> string list
    \<Rightarrow> js_error + (string \<times> 's tool option) list \<times> string list" where
  "select_loop registry role [] allowed denied = Inr (allowed, denied)"
| "select_loop registry role (n # ns) allowed denied =
     (case map_of registry n of
        None \<Rightarrow> select_loop registry role ns (if n = ''__proto__'' then allowed else AList.update n None allowed) denied
      | Some t \<Rightarrow>
          (case tl_permission t of
             None \<Rightarrow> select_loop registry role ns (AList.update n (Some t) allowed) denied
           | Some p \<Rightarrow>
               (case hasPermission role p of
                  Inl _ \<Rightarrow> Inl TypeError
                | Inr ok \<Rightarrow> if ok then select_loop registry role ns (AList.update n (Some t) allowed) denied
                            else select_loop registry role ns allowed (denied @ [n]))))"

definition selectTools :: "(string \<times> 's tool) list \<Rightarrow> string list option \<Rightarrow> string
    \<Rightarrow> js_error + (string \<times> 's tool option) list \<times> string list" where
  "selectTools registry allowlist role =
     (let names = (case allowlist of None \<Rightarrow> map fst registry | Some ns \<Rightarrow> ns);
          unknown = filter (\<lambda>n. map_of registry n = None \<and> n \<notin> set inherited) names in
      if unknown \<noteq> [] then Inl (error_of (''Unknown agent tool(s): '' @ join_strings '', '' unknown))
      else select_loop registry role names [] [])"

section \<open>The loop\<close>

definition MAX_OBSERVATION_CHARS :: nat where
  "MAX_OBSERVATION_CHARS = 2000"

datatype agent_move = Use_Tool string string json | Give_Answer string string

definition stepSchema :: "string list \<Rightarrow> json \<Rightarrow> agent_move option" where
  "stepSchema names j =
     Option.bind (parse_object j) (\<lambda>j.
     Option.bind (with_default [] (parse_string (\<lambda>s. length s \<le> 500)) (field ''thought'' j)) (\<lambda>thought.
       if field ''action'' j = Some (JStr ''tool'') then
         Option.bind (required (parse_enum names) (field ''tool'' j)) (\<lambda>tool.
         Option.bind (with_default (JObj []) parse_object (field ''args'' j)) (\<lambda>args. Some (Use_Tool thought tool args)))
       else if field ''action'' j = Some (JStr ''final'') then
         Option.bind (required (parse_string (\<lambda>s. 1 \<le> length s \<and> length s \<le> 3000)) (field ''answer'' j)) (\<lambda>ans.
           Some (Give_Answer thought ans))
       else None))"

datatype agent_status = Final | Max_Iterations | Loop_Detected

datatype agent_step =
    Final_Step string
  | Stopped_Step string "string option"
  | Tool_Step string json bool string string

record agent_result =
  ar_status :: agent_status
  ar_answer :: "string option"
  ar_steps :: "agent_step list"
  ar_usage :: usage
  ar_iterations :: nat

fun json_truthy :: "json \<Rightarrow> bool" where
  "json_truthy JNull = False"
| "json_truthy (JBool b) = b"
| "json_truthy (JNum r) = (r \<noteq> 0)"
| "json_truthy (JStr s) = (s \<noteq> [])"
| "json_truthy _ = True"

text \<open>Validating the arguments and running the tool: the arguments to show, whether it went well, and the
  observation. Reading the message of a falsy error is a \<open>TypeError\<close>.\<close>

definition run_tool :: "'s tool \<Rightarrow> string \<Rightarrow> json \<Rightarrow> oid \<Rightarrow> 's \<Rightarrow> (js_error + json \<times> bool \<times> json) \<times> 's" where
  "run_tool tool name args owner s =
     (case sc_parse (tl_schema tool) args of
        Inl issues \<Rightarrow> (Inr (args, False, error_object (''invalid arguments: '' @ join_strings ''; '' issues)), s)
      | Inr parsed \<Rightarrow>
          (case tl_run tool parsed owner s of
             (promise, s') \<Rightarrow>
               (case withTimeout promise (tl_timeoutMs tool) (''tool '' @ name) of
                  Fulfilled v \<Rightarrow> (Inr (parsed, \<not> (case field ''error'' v of None \<Rightarrow> False | Some e \<Rightarrow> json_truthy e), v), s')
                | Rejected (Some err) \<Rightarrow> (Inr (parsed, False, error_object (je_message err)), s')
                | Rejected None \<Rightarrow> (Inl TypeError, s'))))"

text \<open>\<open>tools[step.tool]\<close> is there, since the schema admits no other name.\<close>

definition call_tool :: "(string \<times> 's tool) list \<Rightarrow> string \<Rightarrow> json \<Rightarrow> oid \<Rightarrow> 's \<Rightarrow> (js_error + json \<times> bool \<times> json) \<times> 's" where
  "call_tool tools name args owner s =
     (case map_of tools name of None \<Rightarrow> (Inl TypeError, s) | Some tool \<Rightarrow> run_tool tool name args owner s)"

definition tool_docs :: "(string \<times> 's tool) list \<Rightarrow> string" where
  "tool_docs tools = join_strings NL
     (map (\<lambda>(n, t). ''- '' @ n @ '': '' @ tl_description t @ '' Args JSON Schema: '' @ sc_json (tl_schema t)) tools)"

definition agent_system :: "(string \<times> 's tool) list \<Rightarrow> string" where
  "agent_system tools = ''You are an assistant that can use tools. Each turn, reply with exactly one JSON object:'' @ NL
     @ ''  {\"action\":\"tool\",\"thought\":\"...\",\"tool\":\"<name>\",\"args\":{...}}  to call a tool, or'' @ NL
     @ ''  {\"action\":\"final\",\"thought\":\"...\",\"answer\":\"...\"}  when you can answer.'' @ NL
     @ ''Available tools (you may use ONLY these):'' @ NL @ tool_docs tools @ NL
     @ ''Use tool results to answer. Do not call the same tool with the same arguments twice.''"

text \<open>What stays the same during a run.\<close>

record 's agent_run =
  ag_model :: "'s model"
  ag_json_parse :: "string \<Rightarrow> string + json"
  ag_stringify :: "json \<Rightarrow> string"
  ag_issues :: "json \<Rightarrow> string list"
  ag_schema_text :: "string list \<Rightarrow> string"
  ag_aborted :: "nat \<Rightarrow> js_error option"
  ag_model_name :: string
  ag_owner :: oid

definition step_schema :: "'s agent_run \<Rightarrow> (string \<times> 's tool) list \<Rightarrow> agent_move schema" where
  "step_schema ag tools = schema_of (ag_issues ag) (ag_schema_text ag (map fst tools)) (stepSchema (map fst tools))"

text \<open>The loop with \<open>n\<close> iterations left, of which the next is number \<open>i\<close>.\<close>

fun agent_loop :: "'s agent_run \<Rightarrow> (string \<times> 's tool) list \<Rightarrow> nat \<Rightarrow> nat \<Rightarrow> string list \<Rightarrow> agent_step list \<Rightarrow> usage \<Rightarrow> string option \<Rightarrow> 's
    \<Rightarrow> (js_error + agent_result) \<times> 's" where
  "agent_loop ag tools 0 i transcript steps us lastKey s =
     (Inr \<lparr>ar_status = Max_Iterations, ar_answer = None,
           ar_steps = steps @ [Stopped_Step (''max iterations ('' @ show_nat (i - 1) @ '') reached'') None],
           ar_usage = us, ar_iterations = i - 1\<rparr>, s)"
| "agent_loop ag tools (Suc n) i transcript steps us lastKey s =
     (case ag_aborted ag i of
        Some reason \<Rightarrow> (Inl reason, s)
      | None \<Rightarrow>
          (case generateStructured (ag_model ag) (ag_json_parse ag) (step_schema ag tools) (ag_model_name ag) (agent_system tools)
                  (join_strings (NL @ NL) transcript) 2 s of
             (Inl err, s1) \<Rightarrow> (Inl err, s1)
           | (Inr r, s1) \<Rightarrow>
               let us = add_usage us (st_usage r) in
               (case st_data r of
                  Give_Answer thought ans \<Rightarrow>
                    (Inr \<lparr>ar_status = Final, ar_answer = Some ans, ar_steps = steps @ [Final_Step thought], ar_usage = us, ar_iterations = i\<rparr>, s1)
                | Use_Tool thought name args \<Rightarrow>
                    let callKey = name @ '':'' @ ag_stringify ag args in
                    if lastKey = Some callKey then
                      (Inr \<lparr>ar_status = Loop_Detected, ar_answer = None,
                            ar_steps = steps @ [Stopped_Step ''repeated identical tool call'' (Some name)], ar_usage = us, ar_iterations = i\<rparr>, s1)
                    else
                      (case call_tool tools name args (ag_owner ag) s1 of
                         (Inl err, s2) \<Rightarrow> (Inl err, s2)
                       | (Inr (shown, ok, observation), s2) \<Rightarrow>
                           let txt = take MAX_OBSERVATION_CHARS (ag_stringify ag observation) in
                           agent_loop ag tools n (i + 1)
                             (transcript @ [''Step '' @ show_nat i @ '': you called '' @ name @ '' with '' @ ag_stringify ag args @ ''.'' @ NL
                                @ ''Result:'' @ NL @ wrapUntrusted ''tool_result'' txt])
                             (steps @ [Tool_Step name shown ok txt thought]) us (Some callKey) s2))))"

text \<open>Something that is not a tool has no schema to document: a \<open>TypeError\<close> before the first call.\<close>

definition runAgent :: "'s agent_run \<Rightarrow> (string \<times> 's tool option) list \<Rightarrow> string \<Rightarrow> nat \<Rightarrow> 's \<Rightarrow> (js_error + agent_result) \<times> 's" where
  "runAgent ag tools goal maxIterations s =
     (if tools = [] then (Inl (error_of ''agent has no allowed tools''), s)
      else if None \<in> snd ` set tools then (Inl TypeError, s)
      else agent_loop ag (map (\<lambda>(n, t). (n, the t)) tools) maxIterations 1
             [''Goal:'' @ NL @ wrapUntrusted ''user_input'' goal] [] no_usage None s)"

section \<open>The loop is under control\<close>

text \<open>A model that counts its calls and tools that log theirs.\<close>

type_synonym call = "string \<times> json \<times> oid"

definition metered :: "'s model \<Rightarrow> (nat \<times> call list \<times> 's) model" where
  "metered m = counting (\<lambda>model messages ls. let (r, s') = m model messages (snd ls) in (r, fst ls, s'))"

definition logged :: "string \<Rightarrow> 's tool \<Rightarrow> (nat \<times> call list \<times> 's) tool" where
  "logged name t = \<lparr>tl_description = tl_description t, tl_schema = tl_schema t, tl_permission = tl_permission t, tl_timeoutMs = tl_timeoutMs t,
     tl_run = (\<lambda>args owner (n, calls, s). let (p, s') = tl_run t args owner s in (p, n, calls @ [(name, args, owner)], s'))\<rparr>"

definition logged_tools :: "(string \<times> 's tool) list \<Rightarrow> (string \<times> (nat \<times> call list \<times> 's) tool) list" where
  "logged_tools tools = map (\<lambda>(n, t). (n, logged n t)) tools"

lemma map_of_logged: "map_of (logged_tools tools) n = map_option (logged n) (map_of tools n)"
  by (induction tools) (auto simp: logged_tools_def)

lemma structured_keeps:
  assumes "\<And>model messages s. f (snd (m model messages s)) = f s"
  shows "f (snd (generateStructured m jp schema model sys user k s)) = f s"
proof -
  have "f (snd (structured_loop m jp schema model k attempt messages us s)) = f s" for k attempt messages us s
  proof (induction k arbitrary: attempt messages us s)
    case (Suc k)
    show ?case using assms[of model messages s] Suc.IH
      by (auto simp: Let_def split: prod.splits sum.splits)
  qed simp
  then show ?thesis unfolding generateStructured_def .
qed

lemma metered_structured:
  assumes "generateStructured (metered m) jp schema model sys user 2 (c, l, s) = (r, c', l', s')"
  shows "l' = l \<and> c' \<le> c + 3"
proof -
  have "(fst \<circ> snd) (snd (metered m model messages ls)) = (fst \<circ> snd) ls" for model messages ls
    by (simp add: metered_def counting_def Let_def split_beta)
  from structured_keeps[of "fst \<circ> snd" "metered m", OF this, of jp schema model sys user 2 "(c, l, s)"] have "l' = l" using assms by simp
  moreover have "c' \<le> c + 3"
    using generateStructured_validated[OF assms[unfolded metered_def]] by simp
  ultimately show ?thesis by simp
qed

lemma run_tool_logged:
  assumes "run_tool (logged name t) name args owner (c, l, s) = (r, c', l', s')"
  shows "c' = c \<and> (l' = l \<or> (\<exists>a. l' = l @ [(name, a, owner)] \<and> sc_parse (tl_schema t) args = Inr a))"
proof (cases "sc_parse (tl_schema t) args")
  case (Inr a)
  obtain p s1 where "tl_run t a owner s = (p, s1)" by fastforce
  then have "tl_run (logged name t) a owner (c, l, s) = (p, c, l @ [(name, a, owner)], s1)" by (simp add: logged_def)
  then show ?thesis using assms Inr
    by (cases "withTimeout p (tl_timeoutMs t) (''tool '' @ name)")
       (auto simp: run_tool_def logged_def split: option.splits)
qed (use assms in \<open>simp add: run_tool_def logged_def\<close>)

definition call_ok :: "(string \<times> 's tool) list \<Rightarrow> oid \<Rightarrow> call \<Rightarrow> bool" where
  "call_ok tools owner c \<longleftrightarrow> (case c of (name, args, ow) \<Rightarrow>
     ow = owner \<and> (\<exists>t j. map_of tools name = Some t \<and> sc_parse (tl_schema t) j = Inr args))"

lemma call_tool_logged:
  assumes "call_tool (logged_tools tools) name args owner (c, l, s) = (r, c', l', s')"
  shows "c' = c \<and> (\<exists>m. l' = l @ m \<and> length m \<le> 1 \<and> list_all (call_ok tools owner) m)"
proof (cases "map_of tools name")
  case None
  then show ?thesis using assms by (simp add: call_tool_def map_of_logged)
next
  case (Some t)
  then have "run_tool (logged name t) name args owner (c, l, s) = (r, c', l', s')" using assms by (simp add: call_tool_def map_of_logged)
  from run_tool_logged[OF this] Some show ?thesis by (auto simp: call_ok_def)
qed

lemma agent_loop_controlled:
  assumes "agent_loop ag (logged_tools tools) n i transcript steps us lastKey (c, l, s) = (r, c', l', s')" "ag_model ag = metered m"
  shows "c' \<le> c + 3 * n \<and> (\<exists>l2. l' = l @ l2 \<and> length l2 \<le> n \<and> list_all (call_ok tools (ag_owner ag)) l2)
     \<and> (\<forall>a. r = Inr a \<longrightarrow> ar_iterations a \<le> n + (i - 1) \<and> (ar_status a = Final \<longleftrightarrow> ar_answer a \<noteq> None))"
  using assms(1)
proof (induction n arbitrary: i transcript steps us lastKey c l s)
  case 0
  then show ?case by auto
next
  case (Suc n)
  let ?tools = "logged_tools tools"
  show ?case
  proof (cases "ag_aborted ag i")
    case (Some e)
    then show ?thesis using Suc.prems by auto
  next
    case None
    obtain r1 c1 l1 s1 where g: "generateStructured (ag_model ag) (ag_json_parse ag) (step_schema ag ?tools) (ag_model_name ag) (agent_system ?tools)
        (join_strings (NL @ NL) transcript) 2 (c, l, s) = (r1, c1, l1, s1)" by (metis prod_cases4)
    have c1: "l1 = l" "c1 \<le> c + 3" using metered_structured[OF g[unfolded assms(2)]] by auto
    show ?thesis
    proof (cases "\<exists>x thought name args. r1 = Inr x \<and> st_data x = Use_Tool thought name args
        \<and> lastKey \<noteq> Some (name @ '':'' @ ag_stringify ag args)")
      case False
      then have "c' = c1 \<and> l' = l1 \<and> (\<forall>a. r = Inr a \<longrightarrow> ar_iterations a = i \<and> (ar_status a = Final \<longleftrightarrow> ar_answer a \<noteq> None))"
        using Suc.prems None g by (auto simp: Let_def split: sum.splits agent_move.splits if_splits)
      then show ?thesis using c1 by auto
    next
      case True
      then obtain x thought name args where x: "r1 = Inr x" "st_data x = Use_Tool thought name args"
        "lastKey \<noteq> Some (name @ '':'' @ ag_stringify ag args)" by blast
      obtain r2 c2 l2 s2 where rt: "call_tool ?tools name args (ag_owner ag) (c1, l1, s1) = (r2, c2, l2, s2)" by (metis prod_cases4)
      have c2: "c2 = c1" "\<exists>m. l2 = l @ m \<and> length m \<le> 1 \<and> list_all (call_ok tools (ag_owner ag)) m"
        using call_tool_logged[OF rt] c1(1) by auto
      show ?thesis
      proof (cases r2)
        case (Inl e)
        then have "r = Inl e" "c' = c2" "l' = l2" using Suc.prems None g x rt by (auto simp: Let_def)
        then show ?thesis using c1(2) c2 by fastforce
      next
        case (Inr y)
        obtain shown ok obs where y: "y = (shown, ok, obs)" by (cases y)
        have "\<exists>tr st u k. agent_loop ag ?tools n (i + 1) tr st u k (c2, l2, s2) = (r, c', l', s')"
          using Suc.prems None g x rt Inr y by (simp add: Let_def) (intro exI, assumption)
        then obtain tr st u k where "agent_loop ag ?tools n (i + 1) tr st u k (c2, l2, s2) = (r, c', l', s')" by blast
        from Suc.IH[OF this] c2 obtain m l3 where "c' \<le> c1 + 3 * n" "l' = (l @ m) @ l3" "length m \<le> 1" "length l3 \<le> n"
            "list_all (call_ok tools (ag_owner ag)) m" "list_all (call_ok tools (ag_owner ag)) l3"
            "\<forall>a. r = Inr a \<longrightarrow> ar_iterations a \<le> n + i \<and> (ar_status a = Final \<longleftrightarrow> ar_answer a \<noteq> None)" by auto
        then show ?thesis using c1(2) by (intro conjI exI[of _ "m @ l3"]) auto
      qed
    qed
  qed
qed

text \<open>What is selected was asked for, is registered, and is permitted.\<close>

definition tool_ok :: "(string \<times> 's tool) list \<Rightarrow> string list option \<Rightarrow> string \<Rightarrow> string \<Rightarrow> 's tool \<Rightarrow> bool" where
  "tool_ok registry allowlist role name t \<longleftrightarrow> map_of registry name = Some t \<and> (\<forall>ns. allowlist = Some ns \<longrightarrow> name \<in> set ns)
     \<and> (\<forall>p. tl_permission t = Some p \<longrightarrow> hasPermission role p = Inr True)"

lemma select_loop_ok:
  assumes "select_loop registry role ns allowed denied = Inr (allowed', denied')" "map_of allowed' n = Some (Some t)"
  shows "map_of allowed n = Some (Some t) \<or>
    n \<in> set ns \<and> map_of registry n = Some t \<and> (\<forall>p. tl_permission t = Some p \<longrightarrow> hasPermission role p = Inr True)"
  using assms(1)
proof (induction ns arbitrary: allowed denied)
  case (Cons k ns)
  consider (none) al where "map_of registry k = None" "select_loop registry role ns al denied = Inr (allowed', denied')"
      "map_of al n = Some (Some t) \<longrightarrow> map_of allowed n = Some (Some t)"
    | (some) t' where "map_of registry k = Some t'" "\<forall>p. tl_permission t' = Some p \<longrightarrow> hasPermission role p = Inr True"
      "select_loop registry role ns (AList.update k (Some t') allowed) denied = Inr (allowed', denied')"
    | (denied) de where "select_loop registry role ns allowed de = Inr (allowed', denied')"
    using Cons.prems by (auto simp: update_conv' split: option.splits sum.splits if_splits)
  then show ?case
  proof cases
    case none
    then show ?thesis using Cons.IH by auto
  next
    case some
    from Cons.IH[OF some(3)] show ?thesis using some(1,2) by (auto simp: update_conv' split: if_splits)
  next
    case denied
    then show ?thesis using Cons.IH by auto
  qed
qed (use assms(2) in simp)

lemma selectTools_ok:
  assumes "selectTools registry allowlist role = Inr (allowed, denied)" "map_of allowed n = Some (Some t)"
  shows "tool_ok registry allowlist role n t"
  using assms select_loop_ok[of registry role _ "[]" "[]" allowed denied n t]
  by (auto simp: selectTools_def tool_ok_def Let_def split: if_splits option.splits)

text \<open>C36: the agent stays under control, whatever the model says. A run that may use the selected tools for
  at most \<open>maxIterations\<close> steps asks the model at most three times per step and runs at most one tool per
  step; every tool it runs is registered, on the task's allow-list, permitted for the role of the run's owner,
  gets arguments its schema has validated, and acts for that owner; and the run ends with an answer exactly
  when the model gave a final one.\<close>

theorem agent_controlled:
  assumes "selectTools registry allowlist role = Inr (allowed, denied)" "ag_model ag = metered m"
    "runAgent ag (map (\<lambda>(n, t). (n, map_option (logged n) t)) allowed) goal maxIterations (0, [], s) = (r, n, calls, s')"
  shows "n \<le> 3 * maxIterations \<and> length calls \<le> maxIterations
     \<and> (\<forall>(name, args, owner) \<in> set calls. owner = ag_owner ag
          \<and> (\<exists>t j. tool_ok registry allowlist role name t \<and> sc_parse (tl_schema t) j = Inr args))
     \<and> (\<forall>a. r = Inr a \<longrightarrow> ar_iterations a \<le> maxIterations \<and> (ar_status a = Final \<longleftrightarrow> ar_answer a \<noteq> None))"
proof (cases "allowed = [] \<or> None \<in> snd ` set allowed")
  case True
  then have "map (\<lambda>(n, t). (n, map_option (logged n) t)) allowed = [] \<or> None \<in> snd ` set (map (\<lambda>(n, t). (n, map_option (logged n) t)) allowed)"
    by force
  then have "n = 0" "calls = []" "\<exists>e. r = Inl e" using assms(3) by (auto simp: runAgent_def split: if_splits)
  then show ?thesis by auto
next
  case False
  let ?tools = "map (\<lambda>(n, t). (n, the t)) allowed"
  have some: "t \<noteq> None" if "(k, t) \<in> set allowed" for k t using False that by force
  have eq: "map (\<lambda>(n, t). (n, the t)) (map (\<lambda>(n, t). (n, map_option (logged n) t)) allowed) = logged_tools ?tools"
    by (auto simp: logged_tools_def dest: some)
  have "None \<notin> snd ` set (map (\<lambda>(n, t). (n, map_option (logged n) t)) allowed)" by (auto dest: some)
  then have "agent_loop ag (logged_tools ?tools) maxIterations 1 [''Goal:'' @ NL @ wrapUntrusted ''user_input'' goal] [] no_usage None (0, [], s) = (r, n, calls, s')"
    using assms(3) False unfolding runAgent_def eq by (simp split: if_splits)
  from agent_loop_controlled[OF this assms(2)]
  have c: "n \<le> 3 * maxIterations" "length calls \<le> maxIterations" "list_all (call_ok ?tools (ag_owner ag)) calls"
    "\<forall>a. r = Inr a \<longrightarrow> ar_iterations a \<le> maxIterations \<and> (ar_status a = Final \<longleftrightarrow> ar_answer a \<noteq> None)" by auto
  have "map_of allowed k = Some (Some t)" if t: "map_of ?tools k = Some t" for k t
  proof -
    obtain t' where t': "map_of allowed k = Some t'" "t = the t'" using t by (auto simp: map_of_map)
    then show ?thesis using some[OF map_of_SomeD[OF t'(1)]] by auto
  qed
  then have "call_ok ?tools (ag_owner ag) cl \<Longrightarrow> (case cl of (name, args, owner) \<Rightarrow> owner = ag_owner ag
      \<and> (\<exists>t j. tool_ok registry allowlist role name t \<and> sc_parse (tl_schema t) j = Inr args))" for cl
    using selectTools_ok[OF assms(1)] by (auto simp: call_ok_def split: prod.splits) blast
  then show ?thesis using c by (simp add: list_all_iff)
qed

text \<open>A model that uses the calculator and then answers.\<close>

definition demo_move :: "string \<Rightarrow> string + json" where
  "demo_move txt = Inr (if txt = ''{a}''
     then JObj [(''action'', JStr ''tool''), (''tool'', JStr ''calculator''), (''args'', JObj [(''expression'', JStr ''2'')])]
     else JObj [(''action'', JStr ''final''), (''answer'', JStr ''two'')])"

definition demo_agent_model :: "bool model" where
  "demo_agent_model model messages s = (Inr \<lparr>re_content = (if s then ''{b}'' else ''{a}''), re_usage = no_usage\<rparr>, True)"

definition demo_env :: "(bool, rat) tool_env" where
  "demo_env = \<lparr>te_rag = None, te_db = empty_db, te_isValidObjectId = (\<lambda>_. False), te_oid_of = (\<lambda>_. 0), te_arith = rat_arith, te_number = JNum,
     te_calc_message = (\<lambda>_. []), te_issues = (\<lambda>_. []), te_schema_text = (\<lambda>_. []), te_latency = (\<lambda>_ _. Some 1)\<rparr>"

definition demo_run :: "(nat \<times> call list \<times> bool) agent_run" where
  "demo_run = \<lparr>ag_model = metered demo_agent_model, ag_json_parse = demo_move, ag_stringify = (\<lambda>_. []), ag_issues = (\<lambda>_. []),
     ag_schema_text = (\<lambda>_. []), ag_aborted = (\<lambda>_. None), ag_model_name = ''m'', ag_owner = 7\<rparr>"

definition demo_calculator :: "bool tool" where
  "demo_calculator = snd (createToolRegistry demo_env ! 2)"

lemma demo_selected: "selectTools (createToolRegistry demo_env) (Some [''calculator'']) VIEWER = Inr ([(''calculator'', Some demo_calculator)], [])"
  by (simp add: selectTools_def createToolRegistry_def demo_calculator_def)

lemma demo_calculator_runs:
  "\<exists>ok v. run_tool (logged ''calculator'' demo_calculator) ''calculator'' (JObj [(''expression'', JStr ''2'')]) 7 (c, l, s)
     = (Inr (JObj [(''expression'', JStr ''2'')], ok, v), c, l @ [(''calculator'', JObj [(''expression'', JStr ''2'')], 7)], s)"
proof -
  let ?a = "JObj [(''expression'', JStr ''2'')]"
  have p: "sc_parse (tl_schema demo_calculator) ?a = Inr ?a"
    by (simp add: demo_calculator_def createToolRegistry_def schema_of_def calculatorArgs_def parse_object_def required_def field_def parse_string_def)
  have r: "tl_run demo_calculator ?a 7 s = (Some (calculator demo_env ?a, 1), s)" "tl_timeoutMs demo_calculator = 1000"
    by (simp_all add: demo_calculator_def createToolRegistry_def demo_env_def settled_in_def)
  show ?thesis
  proof (cases "calculator demo_env ?a")
    case (Fulfilled v)
    then show ?thesis using p r by (simp add: run_tool_def logged_def withTimeout_def timer_delay_def)
  next
    case (Rejected e)
    then obtain e' where "e = Some e'" by (auto simp: calculator_def split: option.splits sum.splits)
    then show ?thesis using p r Rejected by (intro exI[of _ False]) (simp add: run_tool_def logged_def withTimeout_def timer_delay_def)
  qed
qed

lemma demo_moves:
  "extractJson demo_move ''{a}'' = demo_move ''{a}''" "extractJson demo_move ''{b}'' = demo_move ''{b}''"
  "stepSchema [''calculator''] (projr (demo_move ''{a}'')) = Some (Use_Tool [] ''calculator'' (JObj [(''expression'', JStr ''2'')]))"
  "stepSchema [''calculator''] (projr (demo_move ''{b}'')) = Some (Give_Answer [] ''two'')"
  by (simp_all add: extractJson_def fenced_def Let_def demo_move_def stepSchema_def parse_object_def with_default_def field_def required_def
      parse_enum_def parse_string_def)

lemma demo_structured:
  "generateStructured (ag_model demo_run) (ag_json_parse demo_run) (step_schema demo_run [(''calculator'', logged ''calculator'' demo_calculator)])
     (ag_model_name demo_run) sys user 2 (c, l, s)
   = (Inr \<lparr>st_data = (if s then Give_Answer [] ''two'' else Use_Tool [] ''calculator'' (JObj [(''expression'', JStr ''2'')])), st_attempts = 1,
           st_usage = add_usage no_usage no_usage\<rparr>, c + 1, l, True)"
proof -
  have m: "metered demo_agent_model model messages (c, l, s) = (Inr \<lparr>re_content = (if s then ''{b}'' else ''{a}''), re_usage = no_usage\<rparr>, c + 1, l, True)"
    for model messages by (simp add: metered_def counting_def demo_agent_model_def)
  have "check_reply demo_move (step_schema demo_run [(''calculator'', logged ''calculator'' demo_calculator)]) (if s then ''{b}'' else ''{a}'')
      = Inr (if s then Give_Answer [] ''two'' else Use_Tool [] ''calculator'' (JObj [(''expression'', JStr ''2'')]))"
    using demo_moves by (simp add: check_reply_def step_schema_def schema_of_def demo_move_def)
  then show ?thesis by (simp add: generateStructured_def numeral_3_eq_3 demo_run_def m)
qed

theorem agent_controlled_witness:
  "\<exists>a t j. runAgent demo_run [(''calculator'', Some (logged ''calculator'' demo_calculator))] ''2?'' 5 (0, [], False)
       = (Inr a, 2, [(''calculator'', JObj [(''expression'', JStr ''2'')], 7)], True)
     \<and> ar_answer a = Some ''two'' \<and> tool_ok (createToolRegistry demo_env) (Some [''calculator'']) VIEWER ''calculator'' t
     \<and> sc_parse (tl_schema t) j = Inr (JObj [(''expression'', JStr ''2'')])"
proof -
  let ?t = "[(''calculator'', logged ''calculator'' demo_calculator)]"
  obtain ok v where v: "run_tool (logged ''calculator'' demo_calculator) ''calculator'' (JObj [(''expression'', JStr ''2'')]) 7 (1, [], True)
     = (Inr (JObj [(''expression'', JStr ''2'')], ok, v), 1, [] @ [(''calculator'', JObj [(''expression'', JStr ''2'')], 7)], True)"
    using demo_calculator_runs by blast
  have o: "ag_aborted demo_run i = None" "ag_owner demo_run = 7" "ag_model demo_run = metered demo_agent_model" for i by (simp_all add: demo_run_def)
  obtain k :: nat where five: "(5 :: nat) = Suc (Suc k)" by (rule that[of 3]) simp
  obtain a where r: "runAgent demo_run [(''calculator'', Some (logged ''calculator'' demo_calculator))] ''2?'' 5 (0, [], False)
       = (Inr a, 2, [(''calculator'', JObj [(''expression'', JStr ''2'')], 7)], True)" "ar_answer a = Some ''two''"
    unfolding runAgent_def five by (simp add: demo_structured o(1,2) call_tool_def v[simplified] Let_def)
  from agent_controlled[OF demo_selected o(3), of "''2?''" 5 False] r show ?thesis by auto
qed

end
