(* ===== verification/Wf_Ai.thy ===== *)
theory Wf_Ai
  imports Wf_Agent
begin

text \<open>
  The AI task handlers: the classifier of \<open>src/ai/classifier.js\<close> with its keyword heuristic, the rule-based router of
  \<open>src/ai/router.js\<close> and the handlers of \<open>src/handlers/ai.js\<close>, with the table of handlers a worker
  runs (\<open>src/worker.js\<close>). A handler returns JSON or throws, and passes the state of the model on.
\<close>

section \<open>Classification\<close>

definition TASK_TYPES :: "string list" where
  "TASK_TYPES = [''question_answering'', ''summarization'', ''extraction'', ''classification'', ''generation'', ''reasoning'', ''tool_use'']"

definition classification :: "string \<Rightarrow> string \<Rightarrow> bool \<Rightarrow> bool \<Rightarrow> string \<Rightarrow> string \<Rightarrow> json" where
  "classification taskType complexity requiresRAG requiresAgent recommendedModel rationale =
     JObj [(''taskType'', JStr taskType), (''complexity'', JStr complexity), (''requiresRAG'', JBool requiresRAG),
       (''requiresAgent'', JBool requiresAgent), (''recommendedModel'', JStr recommendedModel), (''rationale'', JStr rationale)]"

definition ClassificationSchema :: "json \<Rightarrow> json option" where
  "ClassificationSchema j =
     Option.bind (parse_object j) (\<lambda>j.
     Option.bind (required (parse_enum TASK_TYPES) (field ''taskType'' j)) (\<lambda>ty.
     Option.bind (required (parse_enum [''low'', ''medium'', ''high'']) (field ''complexity'' j)) (\<lambda>cx.
     Option.bind (required parse_bool (field ''requiresRAG'' j)) (\<lambda>rag.
     Option.bind (required parse_bool (field ''requiresAgent'' j)) (\<lambda>ag.
     Option.bind (required (parse_enum [''small'', ''large'']) (field ''recommendedModel'' j)) (\<lambda>rm.
     Option.bind (required (parse_string (\<lambda>s. length s \<le> 300)) (field ''rationale'' j)) (\<lambda>rn.
       Some (classification ty cx rag ag rm rn))))))))"

text \<open>\<open>t.split(/\s+/).length\<close>: one more than the runs of white space.\<close>

fun space_runs :: "bool \<Rightarrow> string \<Rightarrow> nat" where
  "space_runs inside [] = 0"
| "space_runs inside (c # cs) =
     (if is_space c then (if inside then 0 else 1) + space_runs True cs else space_runs False cs)"

definition has_any :: "string \<Rightarrow> string list \<Rightarrow> bool" where
  "has_any t ws = list_ex (\<lambda>w. includes_str w t) ws"

definition heuristicClassify :: "string \<Rightarrow> json" where
  "heuristicClassify txt =
     (let t = toLowerCase txt;
          requiresAgent = has_any t [''status of'', ''calculate'', ''how many'', ''look up'', ''check the workflow'', ''execution''];
          requiresRAG = has_any t [''policy'', ''according to'', ''our docs'', ''document'', ''handbook'', ''knowledge base'', ''refund''];
          taskType = (if requiresAgent then ''tool_use''
            else if has_any t [''summarize'', ''summarise'', ''tl;dr''] then ''summarization''
            else if has_any t [''extract''] then ''extraction''
            else if has_any t [''why'', ''explain'', ''compare'', ''plan''] then ''reasoning''
            else ''question_answering'');
          nwords = space_runs False t + 1;
          complexity = (if requiresAgent \<or> taskType = ''reasoning'' \<or> nwords > 80 then ''high'' else if nwords > 25 then ''medium'' else ''low'') in
      classification taskType complexity requiresRAG requiresAgent (if complexity = ''low'' then ''small'' else ''large'')
        ''keyword heuristic (LLM classification unavailable)'')"

record classified =
  cf_classification :: json
  cf_source :: string
  cf_usage :: usage
  cf_attempts :: nat
  cf_fallbackReason :: "string option"

text \<open>What the AI components share: the model, \<open>JSON.parse\<close>, the texts of failed validations, and the system
  prompt and schema texts.\<close>

record 's ai_env =
  ai_model :: "'s model"
  ai_json_parse :: "string \<Rightarrow> string + json"
  ai_issues :: "json \<Rightarrow> string list"
  ai_schema_text :: "string \<Rightarrow> string"
  ai_classifier_prompt :: string

definition classifyTask :: "'s ai_env \<Rightarrow> string \<Rightarrow> string \<Rightarrow> bool \<Rightarrow> 's \<Rightarrow> (js_error + classified) \<times> 's" where
  "classifyTask env model request fallback s =
     (case generateStructured (ai_model env) (ai_json_parse env)
             (schema_of (ai_issues env) (ai_schema_text env ''classification'') ClassificationSchema)
             model (ai_classifier_prompt env) (wrapUntrusted ''user_input'' request) 2 s of
        (Inr r, s') \<Rightarrow> (Inr \<lparr>cf_classification = st_data r, cf_source = ''llm'', cf_usage = st_usage r, cf_attempts = st_attempts r,
                              cf_fallbackReason = None\<rparr>, s')
      | (Inl err, s') \<Rightarrow>
          if \<not> fallback then (Inl err, s')
          else (Inr \<lparr>cf_classification = heuristicClassify request, cf_source = ''heuristic'', cf_usage = no_usage, cf_attempts = 0,
                     cf_fallbackReason = Some (je_message err)\<rparr>, s'))"

section \<open>Routing\<close>

record ai_models =
  am_small :: string
  am_large :: string
  am_lookup :: "json \<Rightarrow> string option"

record route =
  ro_mode :: string
  ro_tier :: string
  ro_model :: string
  ro_rule :: string

text \<open>The classification may come from a parent task, so it is any JSON value.\<close>

definition truthy_field :: "string \<Rightarrow> json \<Rightarrow> bool" where
  "truthy_field k j = (case field k j of None \<Rightarrow> False | Some v \<Rightarrow> json_truthy v)"

definition is_str :: "string \<Rightarrow> string \<Rightarrow> json \<Rightarrow> bool" where
  "is_str k v j \<longleftrightarrow> field k j = Some (JStr v)"

definition routeTask :: "ai_models \<Rightarrow> json \<Rightarrow> route" where
  "routeTask models c =
     (let pick = (\<lambda>large mode rule. \<lparr>ro_mode = mode, ro_tier = (if large then ''large'' else ''small''),
                    ro_model = (if large then am_large models else am_small models), ro_rule = rule\<rparr>) in
      if truthy_field ''requiresAgent'' c then pick True ''agent'' ''requires-tools''
      else if truthy_field ''requiresRAG'' c then pick (\<not> is_str ''complexity'' ''low'' c) ''rag'' ''requires-knowledge''
      else if is_str ''complexity'' ''high'' c \<or> is_str ''taskType'' ''reasoning'' c then pick True ''direct'' ''high-complexity''
      else pick (is_str ''recommendedModel'' ''large'' c \<and> \<not> is_str ''complexity'' ''low'' c) ''direct'' ''default-small'')"

section \<open>AI handlers\<close>

definition no_request :: js_error where
  "no_request = NonRetryableError ''ai task needs a request: set config.text or pass { \"text\": \"...\" } as run input''"

text \<open>\<open>input?.[config.inputField ?? "text"]\<close>; \<open>to_key\<close> turns another value than a string into a key.\<close>

definition requestText :: "(json \<Rightarrow> string) \<Rightarrow> handler_args \<Rightarrow> js_error + string" where
  "requestText to_key a =
     (let k = (case field ''inputField'' (h_config a) of
                 None \<Rightarrow> ''text'' | Some JNull \<Rightarrow> ''text'' | Some (JStr s) \<Rightarrow> s | Some v \<Rightarrow> to_key v);
          v = (if nullish (field ''text'' (h_config a)) then field k (h_input a) else field ''text'' (h_config a)) in
      case v of
        Some (JStr t) \<Rightarrow> if trim t = [] then Inl (no_request) else Inr (take 8000 t)
      | _ \<Rightarrow> Inl (no_request))"

definition usage_json :: "usage \<Rightarrow> json" where
  "usage_json u = JObj [(''inputTokens'', JNum (of_int (us_inputTokens u))), (''outputTokens'', JNum (of_int (us_outputTokens u)))]"

definition route_json :: "route \<Rightarrow> json" where
  "route_json r = JObj [(''mode'', JStr (ro_mode r)), (''tier'', JStr (ro_tier r)), (''model'', JStr (ro_model r)), (''rule'', JStr (ro_rule r))]"

definition classified_json :: "classified \<Rightarrow> json" where
  "classified_json c = JObj ([(''classification'', cf_classification c), (''source'', JStr (cf_source c)), (''usage'', usage_json (cf_usage c)),
     (''attempts'', JNum (of_nat (cf_attempts c))), (''promptVersion'', JStr ''classifier.v2'')]
     @ (case cf_fallbackReason c of None \<Rightarrow> [] | Some m \<Rightarrow> [(''fallbackReason'', JStr m)]))"

text \<open>\<open>Object.values(ctx.parents ?? {}).find((p) => p?.[k])\<close>\<close>

definition from_parents :: "string \<Rightarrow> handler_args \<Rightarrow> json option" where
  "from_parents k a = List.find (truthy_field k) (map snd (h_parents a))"

definition ai_classify :: "'s ai_env \<Rightarrow> ai_models \<Rightarrow> (json \<Rightarrow> string) \<Rightarrow> handler_args \<Rightarrow> 's \<Rightarrow> (js_error + json) \<times> 's" where
  "ai_classify env models to_key a s =
     (case requestText to_key a of
        Inl err \<Rightarrow> (Inl err, s)
      | Inr t \<Rightarrow> (case classifyTask env (am_small models) t True s of (r, s') \<Rightarrow> (map_sum id classified_json r, s')))"

definition ai_route :: "'s ai_env \<Rightarrow> ai_models \<Rightarrow> (json \<Rightarrow> string) \<Rightarrow> handler_args \<Rightarrow> 's \<Rightarrow> (js_error + json) \<times> 's" where
  "ai_route env models to_key a s =
     (let output = (\<lambda>c src. JObj ([(''classification'', c)] @ (case src of None \<Rightarrow> [] | Some v \<Rightarrow> [(''source'', v)])
                      @ [(''route'', route_json (routeTask models c))])) in
      case from_parents ''classification'' a of
        Some p \<Rightarrow> (Inr (output (the (field ''classification'' p)) (field ''source'' p)), s)
      | None \<Rightarrow>
          (case requestText to_key a of
             Inl err \<Rightarrow> (Inl err, s)
           | Inr t \<Rightarrow>
               (case classifyTask env (am_small models) t True s of
                  (r, s') \<Rightarrow> (map_sum id (\<lambda>c. output (cf_classification c) (Some (JStr (cf_source c)))) r, s'))))"

text \<open>The model a parent routed to, if it routed to this mode; else the configured tier, else the default. A model
  that is not a string stands for the empty name.\<close>

definition chosen_model :: "ai_models \<Rightarrow> string \<Rightarrow> string \<Rightarrow> string \<Rightarrow> handler_args \<Rightarrow> string" where
  "chosen_model models mode tier dflt a =
     (let routed = Option.bind (from_parents ''route'' a) (field ''route'');
          by_tier = (case am_lookup models (if nullish (field ''tier'' (h_config a)) then JStr tier else the (field ''tier'' (h_config a))) of
                       Some m \<Rightarrow> m | None \<Rightarrow> dflt) in
      case routed of
        None \<Rightarrow> by_tier
      | Some r \<Rightarrow> if is_str ''mode'' mode r then str_field ''model'' r else by_tier)"

definition citation_json :: "citation \<Rightarrow> json" where
  "citation_json c = JObj [(''id'', JStr (ci_id c)), (''documentId'', JId (ci_documentId c)), (''title'', JStr (ci_title c)),
     (''chunkIndex'', JNum (of_nat (ci_chunkIndex c))), (''score'', JNum (ci_score c))]"

definition rag_json :: "rag_answer \<Rightarrow> json" where
  "rag_json r = JObj [(''answer'', JStr (ra_answer r)), (''citations'', JArr (map citation_json (ra_citations r))), (''grounded'', JBool (ra_grounded r)),
     (''retrieved'', JNum (of_nat (ra_retrieved r))), (''usage'', usage_json (ra_usage r)),
     (''model'', case ra_model r of None \<Rightarrow> JNull | Some m \<Rightarrow> JStr m), (''promptVersion'', JStr ''rag-answer.v2'')]"

definition ai_rag :: "'s ai_env \<Rightarrow> ai_models \<Rightarrow> (json \<Rightarrow> string) \<Rightarrow> (rag_config \<times> 's embedder \<times> point list) option \<Rightarrow> handler_args \<Rightarrow> 's
    \<Rightarrow> (js_error + json) \<times> 's" where
  "ai_rag env models to_key rag a s =
     (case rag of
        None \<Rightarrow> (Inl (NonRetryableError ''RAG is not configured on this worker''), s)
      | Some (cfg, emb, ps) \<Rightarrow>
          (case requestText to_key a of
             Inl err \<Rightarrow> (Inl err, s)
           | Inr q \<Rightarrow>
               (case answer cfg emb (ai_model env) (ai_json_parse env) (ai_issues env) (\<lambda>n. ai_schema_text env (show_nat n)) ps (h_ownerId a) q
                       (chosen_model models ''rag'' ''small'' (am_small models) a) s of
                  (r, s') \<Rightarrow> (map_sum id rag_json r, s'))))"

fun agent_step_json :: "agent_step \<Rightarrow> json" where
  "agent_step_json (Final_Step thought) = JObj [(''type'', JStr ''final''), (''thought'', JStr thought)]"
| "agent_step_json (Stopped_Step reason tool) = JObj ([(''type'', JStr ''stopped''), (''reason'', JStr reason)]
     @ (case tool of None \<Rightarrow> [] | Some t \<Rightarrow> [(''tool'', JStr t)]))"
| "agent_step_json (Tool_Step tool args ok observation thought) = JObj [(''type'', JStr ''tool''), (''tool'', JStr tool), (''args'', args),
     (''ok'', JBool ok), (''observation'', JStr observation), (''thought'', JStr thought)]"

fun agent_status_name :: "agent_status \<Rightarrow> string" where
  "agent_status_name Final = ''final''"
| "agent_status_name Max_Iterations = ''max_iterations''"
| "agent_status_name Loop_Detected = ''loop_detected''"

text \<open>\<open>ctx.config.tools\<close> as an allow-list; what is not an array has no \<open>filter\<close>.\<close>

definition allowlist_of :: "(json \<Rightarrow> string) \<Rightarrow> json option \<Rightarrow> js_error + string list option" where
  "allowlist_of to_key v =
     (case v of
        None \<Rightarrow> Inr None
      | Some JNull \<Rightarrow> Inr None
      | Some (JArr js) \<Rightarrow> Inr (Some (map (\<lambda>j. case j of JStr n \<Rightarrow> n | _ \<Rightarrow> to_key j) js))
      | _ \<Rightarrow> Inl TypeError)"

definition agent_run_of :: "'s ai_env \<Rightarrow> (json \<Rightarrow> string) \<Rightarrow> (nat \<Rightarrow> js_error option) \<Rightarrow> string \<Rightarrow> oid \<Rightarrow> 's agent_run" where
  "agent_run_of env stringify aborted model owner =
     \<lparr>ag_model = ai_model env, ag_json_parse = ai_json_parse env, ag_stringify = stringify, ag_issues = ai_issues env,
      ag_schema_text = (\<lambda>ns. ai_schema_text env (join_strings '','' ns)), ag_aborted = aborted, ag_model_name = model, ag_owner = owner\<rparr>"

definition ai_agent :: "'s ai_env \<Rightarrow> ai_models \<Rightarrow> (json \<Rightarrow> string) \<Rightarrow> (json \<Rightarrow> jsnum) \<Rightarrow> (json \<Rightarrow> string) \<Rightarrow> (nat \<Rightarrow> js_error option)
    \<Rightarrow> (string \<times> 's tool) list option \<Rightarrow> (oid \<Rightarrow> string option) \<Rightarrow> handler_args \<Rightarrow> 's \<Rightarrow> (js_error + json) \<times> 's" where
  "ai_agent env models to_key coerce stringify aborted tools role_of a s =
     (case tools of
        None \<Rightarrow> (Inl (NonRetryableError ''Agent tools are not configured on this worker''), s)
      | Some registry \<Rightarrow>
          let role = (case role_of (h_ownerId a) of None \<Rightarrow> [] | Some r \<Rightarrow> r) in
          if role = [] then (Inl (NonRetryableError ''Run owner no longer exists''), s)
          else
            (case (case allowlist_of to_key (field ''tools'' (h_config a)) of
                     Inl err \<Rightarrow> Inl err | Inr al \<Rightarrow> selectTools registry al role) of
               Inl err \<Rightarrow> (Inl (NonRetryableError (je_message err)), s)
             | Inr (allowed, denied) \<Rightarrow>
                 if allowed = [] then
                   (Inl (NonRetryableError (''No permitted tools for role \"'' @ role @ ''\" (denied: '' @ join_strings '', '' denied @ '')'')), s)
                 else
                   let model = chosen_model models ''agent'' ''large'' (am_large models) a;
                       maxIterations = nat \<lfloor>clamped coerce 5 1 8 (field ''maxIterations'' (h_config a))\<rfloor> in
                   (case requestText to_key a of
                      Inl err \<Rightarrow> (Inl err, s)
                    | Inr goal \<Rightarrow>
                        (case runAgent (agent_run_of env stringify aborted model (h_ownerId a)) allowed goal maxIterations s of
                           (Inl err, s') \<Rightarrow> (Inl err, s')
                         | (Inr r, s') \<Rightarrow>
                             if ar_status r \<noteq> Final
                             then (Inl (NonRetryableError (''Agent stopped without an answer: '' @ agent_status_name (ar_status r))), s')
                             else (Inr (JObj [(''answer'', case ar_answer r of None \<Rightarrow> JNull | Some x \<Rightarrow> JStr x),
                                     (''iterations'', JNum (of_nat (ar_iterations r))), (''steps'', JArr (map agent_step_json (ar_steps r))),
                                     (''deniedTools'', JArr (map JStr denied)), (''usage'', usage_json (ar_usage r)), (''model'', JStr model)]), s')))))"

definition answerSchema :: "json \<Rightarrow> string option" where
  "answerSchema j = Option.bind (parse_object j) (\<lambda>j. required (parse_string (\<lambda>s. 1 \<le> length s \<and> length s \<le> 4000)) (field ''answer'' j))"

definition ai_generate :: "'s ai_env \<Rightarrow> ai_models \<Rightarrow> (json \<Rightarrow> string) \<Rightarrow> handler_args \<Rightarrow> 's \<Rightarrow> (js_error + json) \<times> 's" where
  "ai_generate env models to_key a s =
     (let routed = Option.bind (from_parents ''route'' a) (field ''route'') in
      if (case routed of None \<Rightarrow> False | Some r \<Rightarrow> \<not> is_str ''mode'' ''direct'' r)
      then (Inl (NonRetryableError (''ai.generate can only serve \"direct\" routes; this request was routed to \"''
                   @ (case field ''mode'' (the routed) of None \<Rightarrow> ''undefined'' | Some (JStr m) \<Rightarrow> m | Some v \<Rightarrow> to_key v) @ ''\"'')), s)
      else
        let model = (if nullish (Option.bind routed (field ''model''))
                     then chosen_model models ''direct'' ''small'' (am_small models) (a\<lparr>h_parents := []\<rparr>) else str_field ''model'' (the routed)) in
        (case requestText to_key a of
           Inl err \<Rightarrow> (Inl err, s)
         | Inr t \<Rightarrow>
             (case generateStructured (ai_model env) (ai_json_parse env) (schema_of (ai_issues env) (ai_schema_text env ''answer'') answerSchema) model
                     (''Answer the user'' @ [CHR 0x27] @ ''s request helpfully and concisely.'') (wrapUntrusted ''user_input'' t) 2 s of
                (Inl err, s') \<Rightarrow> (Inl err, s')
              | (Inr r, s') \<Rightarrow> (Inr (JObj [(''answer'', JStr (st_data r)), (''model'', JStr model), (''usage'', usage_json (st_usage r))]), s'))))"

section \<open>The handlers of a worker\<close>

text \<open>What \<open>createAiHandlers\<close> closes over. \<open>ad_latency\<close> is the time a handler takes, if it ends.\<close>

record 's ai_deps =
  ad_env :: "'s ai_env"
  ad_models :: ai_models
  ad_string :: "json \<Rightarrow> string"
  ad_number :: "json \<Rightarrow> jsnum"
  ad_stringify :: "json \<Rightarrow> string"
  ad_aborted :: "nat \<Rightarrow> js_error option"
  ad_rag :: "(rag_config \<times> 's embedder \<times> point list) option"
  ad_tools :: "(string \<times> 's tool) list option"
  ad_getUserRole :: "oid \<Rightarrow> string option"
  ad_latency :: "string \<Rightarrow> handler_args \<Rightarrow> time option"

definition createAiHandlers :: "'s ai_deps \<Rightarrow> (string \<times> (handler_args \<Rightarrow> 's \<Rightarrow> (js_error + json) \<times> 's)) list" where
  "createAiHandlers d =
     [(''ai.classify'', ai_classify (ad_env d) (ad_models d) (ad_string d)),
      (''ai.route'', ai_route (ad_env d) (ad_models d) (ad_string d)),
      (''ai.rag'', ai_rag (ad_env d) (ad_models d) (ad_string d) (ad_rag d)),
      (''ai.agent'', ai_agent (ad_env d) (ad_models d) (ad_string d) (ad_number d) (ad_stringify d) (ad_aborted d) (ad_tools d) (ad_getUserRole d)),
      (''ai.generate'', ai_generate (ad_env d) (ad_models d) (ad_string d))]"

definition promise_of :: "(js_error + json) \<Rightarrow> time option \<Rightarrow> handler_output promise" where
  "promise_of r ms = settled_in ms (case r of Inl err \<Rightarrow> Rejected (Some err) | Inr v \<Rightarrow> Fulfilled (Value v))"

text \<open>\<open>{ ...builtinHandlers, ...createAiHandlers(...) }\<close>, when the model is in state \<open>s\<close>.\<close>

definition worker_handlers :: "handler_env \<Rightarrow> 's ai_deps \<Rightarrow> 's \<Rightarrow> (string \<times> (handler_args \<Rightarrow> handler_output promise)) list" where
  "worker_handlers env d s =
     builtin_handlers env @ map (\<lambda>(n, h). (n, \<lambda>a. promise_of (fst (h a s)) (ad_latency d n a))) (createAiHandlers d)"

section \<open>Classification never fails\<close>

lemma heuristic_valid: "ClassificationSchema (heuristicClassify txt) = Some (heuristicClassify txt)"
proof -
  have "ClassificationSchema (classification ty cx r g m rn) = Some (classification ty cx r g m rn)"
    if "ty \<in> set TASK_TYPES" "cx \<in> {''low'', ''medium'', ''high''}" "m \<in> {''small'', ''large''}" "length rn \<le> 300" for ty cx r g m rn
    using that by (auto simp: ClassificationSchema_def classification_def parse_object_def field_def required_def parse_enum_def parse_string_def parse_bool_def)
  then show ?thesis unfolding heuristicClassify_def Let_def
    by (auto simp: TASK_TYPES_def)
qed

lemma schema_of_Inr: "sc_parse (schema_of issues txt p) j = Inr x \<longleftrightarrow> p j = Some x"
  by (simp add: schema_of_def split: option.splits)

lemma classifyTask_total:
  "\<exists>c s'. classifyTask env model request True s = (Inr c, s') \<and> (\<exists>j. ClassificationSchema j = Some (cf_classification c))
     \<and> (cf_source c = ''llm'' \<or> cf_source c = ''heuristic'' \<and> cf_classification c = heuristicClassify request)"
proof -
  obtain r s' where g: "generateStructured (ai_model env) (ai_json_parse env)
      (schema_of (ai_issues env) (ai_schema_text env ''classification'') ClassificationSchema)
      model (ai_classifier_prompt env) (wrapUntrusted ''user_input'' request) 2 s = (r, s')" by fastforce
  show ?thesis
  proof (cases r)
    case (Inl e)
    then show ?thesis using g heuristic_valid[of request] by (auto simp: classifyTask_def)
  next
    case (Inr x)
    then show ?thesis using g structured_valid[OF g[unfolded Inr]] by (auto simp: classifyTask_def schema_of_Inr)
  qed
qed

section \<open>Routing decides\<close>

lemma routeTask_modes:
  "(ro_mode (routeTask models c), ro_model (routeTask models c)) \<in> {(''agent'', am_large models), (''rag'', am_small models), (''rag'', am_large models),
     (''direct'', am_small models), (''direct'', am_large models)}"
  by (simp add: routeTask_def Let_def)

lemma ai_route_output:
  assumes "requestText to_key a = Inr t"
  obtains c src s' where "ai_route env models to_key a s = (Inr (JObj ([(''classification'', c)] @ src @ [(''route'', route_json (routeTask models c))])), s')"
    "map fst src = [] \<or> map fst src = [''source'']"
    "(\<exists>p \<in> snd ` set (h_parents a). truthy_field ''classification'' p \<and> field ''classification'' p = Some c) \<or> (\<exists>j. ClassificationSchema j = Some c)"
proof (cases "from_parents ''classification'' a")
  case (Some p)
  then have p: "p \<in> snd ` set (h_parents a)" "truthy_field ''classification'' p" by (auto simp: from_parents_def find_Some_iff)
  then obtain c where "field ''classification'' p = Some c" by (auto simp: truthy_field_def split: option.splits)
  moreover define src where "src = (case field ''source'' p of None \<Rightarrow> [] | Some v \<Rightarrow> [(''source'', v)])"
  then have "map fst src = [] \<or> map fst src = [''source'']" by (simp split: option.splits)
  ultimately show ?thesis using that[of c src s] Some p by (auto simp: ai_route_def Let_def src_def[symmetric])
next
  case None
  obtain c s' where c: "classifyTask env (am_small models) t True s = (Inr c, s')" "\<exists>j. ClassificationSchema j = Some (cf_classification c)"
    using classifyTask_total[of env "am_small models" t s] by blast
  show ?thesis by (rule that[of "cf_classification c" "[(''source'', JStr (cf_source c))]" s'])
      (use None c assms in \<open>simp_all add: ai_route_def Let_def\<close>)
qed

lemma routed_by_parent:
  assumes "h_parents b = [(k, JObj ([(''classification'', c)] @ src @ [(''route'', route_json r)]))]" "map fst src = [] \<or> map fst src = [''source'']"
  shows "Option.bind (from_parents ''route'' b) (field ''route'') = Some (route_json r)"
proof -
  have "map_of src ''route'' = None" using assms(2) by (auto simp: map_of_eq_None_iff)
  then have "field ''route'' (JObj ([(''classification'', c)] @ src @ [(''route'', route_json r)])) = Some (route_json r)"
    by (simp add: field_def map_add_def)
  then show ?thesis using assms(1) by (simp add: from_parents_def truthy_field_def route_json_def)
qed

text \<open>Routing never fails and decides. A routing task with a request text always succeeds, even when the
  model is unreachable or answers nonsense: its classification comes from a parent task or satisfies the schema,
  and its route is one of the three pipelines, with a configured model. A task behind it uses the model of the route if
  the route names its own pipeline; a direct generation behind a route to another pipeline is refused for good.\<close>

theorem routing_decides:
  assumes "requestText to_key a = Inr t"
  shows "\<exists>out c s'. ai_route env models to_key a s = (Inr out, s') \<and> field ''classification'' out = Some c
     \<and> ((\<exists>p \<in> snd ` set (h_parents a). field ''classification'' p = Some c) \<or> (\<exists>j. ClassificationSchema j = Some c))
     \<and> ro_mode (routeTask models c) \<in> {''agent'', ''rag'', ''direct''} \<and> ro_model (routeTask models c) \<in> {am_small models, am_large models}
     \<and> (\<forall>b k mode tier dflt. h_parents b = [(k, out)] \<longrightarrow> mode = ro_mode (routeTask models c)
          \<longrightarrow> chosen_model models mode tier dflt b = ro_model (routeTask models c))
     \<and> (\<forall>b k s2. h_parents b = [(k, out)] \<longrightarrow> ro_mode (routeTask models c) \<noteq> ''direct''
          \<longrightarrow> (\<exists>msg. ai_generate env models to_key b s2 = (Inl (NonRetryableError msg), s2)))"
proof -
  obtain c src s' where r: "ai_route env models to_key a s = (Inr (JObj ([(''classification'', c)] @ src @ [(''route'', route_json (routeTask models c))])), s')"
    "map fst src = [] \<or> map fst src = [''source'']"
    "(\<exists>p \<in> snd ` set (h_parents a). truthy_field ''classification'' p \<and> field ''classification'' p = Some c) \<or> (\<exists>j. ClassificationSchema j = Some c)"
    by (rule ai_route_output[OF assms])
  let ?r = "routeTask models c"
  have f: "is_str ''mode'' m (route_json ?r) \<longleftrightarrow> m = ro_mode ?r" "str_field ''model'' (route_json ?r) = ro_model ?r" for m
    by (auto simp: is_str_def field_def route_json_def str_field_def)
  have "chosen_model models (ro_mode ?r) tier dflt b = ro_model ?r"
    if "h_parents b = [(k, JObj ([(''classification'', c)] @ src @ [(''route'', route_json ?r)]))]" for b k tier dflt
    by (simp add: chosen_model_def Let_def routed_by_parent[OF that r(2)] f)
  moreover have "\<exists>msg. ai_generate env models to_key b s2 = (Inl (NonRetryableError msg), s2)"
    if "h_parents b = [(k, JObj ([(''classification'', c)] @ src @ [(''route'', route_json ?r)]))]" "ro_mode ?r \<noteq> ''direct''" for b k s2
    using that(2) by (auto simp: ai_generate_def Let_def routed_by_parent[OF that(1) r(2)] f)
  moreover have "field ''classification'' (JObj ([(''classification'', c)] @ src @ [(''route'', route_json ?r)])) = Some c" by (simp add: field_def)
  moreover have "ro_mode ?r \<in> {''agent'', ''rag'', ''direct''}" "ro_model ?r \<in> {am_small models, am_large models}"
    using routeTask_modes[of models c] by auto
  moreover have "(\<exists>p \<in> snd ` set (h_parents a). field ''classification'' p = Some c) \<or> (\<exists>j. ClassificationSchema j = Some c)" using r(3) by blast
  ultimately show ?thesis using r(1) by blast
qed

definition demo_ai :: "bool ai_env" where
  "demo_ai = \<lparr>ai_model = demo_agent_model, ai_json_parse = demo_move, ai_issues = (\<lambda>_. []), ai_schema_text = (\<lambda>_. []), ai_classifier_prompt = []\<rparr>"

definition demo_models :: ai_models where
  "demo_models = \<lparr>am_small = ''s'', am_large = ''l'', am_lookup = (\<lambda>_. None)\<rparr>"

definition demo_agent_task :: handler_args where
  "demo_agent_task = \<lparr>h_config = JObj [(''text'', JStr ''status?'')], h_input = JObj [], h_parents = [], h_attempt = 1, h_ownerId = 77\<rparr>"

theorem routing_decides_witness:
  "\<exists>out c s'. ai_route demo_ai demo_models (\<lambda>_. []) demo_agent_task False = (Inr out, s') \<and> field ''classification'' out = Some c
     \<and> ro_model (routeTask demo_models c) \<in> {''s'', ''l''}"
proof -
  have "requestText (\<lambda>_. []) demo_agent_task = Inr ''status?''"
    by (simp add: requestText_def demo_agent_task_def Let_def nullish_def field_def trim_def is_space_def)
  from routing_decides[OF this, of demo_ai demo_models False] show ?thesis by (auto simp: demo_models_def)
qed

section \<open>An agent sees the data of its owner only\<close>

text \<open>Two tools that behave the same for one owner.\<close>

definition same_for :: "oid \<Rightarrow> 's tool \<Rightarrow> 's tool \<Rightarrow> bool" where
  "same_for owner t t' \<longleftrightarrow> tl_description t' = tl_description t \<and> tl_schema t' = tl_schema t \<and> tl_permission t' = tl_permission t
     \<and> tl_timeoutMs t' = tl_timeoutMs t \<and> (\<forall>args s. tl_run t' args owner s = tl_run t args owner s)"

abbreviation same_tools :: "oid \<Rightarrow> (string \<times> 's tool) list \<Rightarrow> (string \<times> 's tool) list \<Rightarrow> bool" where
  "same_tools owner \<equiv> list_all2 (rel_prod (=) (same_for owner))"

lemma same_tools_names: "same_tools owner ts ts' \<Longrightarrow> map fst ts' = map fst ts"
  by (induction rule: list_all2_induct) auto

lemma same_tools_docs: "same_tools owner ts ts' \<Longrightarrow> tool_docs ts' = tool_docs ts"
proof -
  assume "same_tools owner ts ts'"
  then have "map (\<lambda>(n, t). ''- '' @ n @ '': '' @ tl_description t @ '' Args JSON Schema: '' @ sc_json (tl_schema t)) ts'
    = map (\<lambda>(n, t). ''- '' @ n @ '': '' @ tl_description t @ '' Args JSON Schema: '' @ sc_json (tl_schema t)) ts"
    by (induction rule: list_all2_induct) (auto simp: same_for_def)
  then show ?thesis by (simp add: tool_docs_def)
qed

lemma same_tools_lookup: "same_tools owner ts ts' \<Longrightarrow> rel_option (same_for owner) (map_of ts n) (map_of ts' n)"
  by (induction rule: list_all2_induct) auto

lemma run_tool_same:
  assumes "same_for owner t t'"
  shows "run_tool t' name args owner s = run_tool t name args owner s"
proof -
  have "tl_schema t' = tl_schema t" "tl_timeoutMs t' = tl_timeoutMs t" "tl_run t' args owner s = tl_run t args owner s" for args s
    using assms by (simp_all add: same_for_def)
  then show ?thesis by (simp only: run_tool_def)
qed

lemma agent_loop_same:
  assumes "same_tools (ag_owner ag) ts ts'"
  shows "agent_loop ag ts' n i transcript steps us lastKey s = agent_loop ag ts n i transcript steps us lastKey s"
proof (induction n arbitrary: i transcript steps us lastKey s)
  case (Suc n)
  have sch: "step_schema ag ts' = step_schema ag ts" "agent_system ts' = agent_system ts"
    using same_tools_names[OF assms] same_tools_docs[OF assms] by (simp_all add: step_schema_def agent_system_def)
  have same: "call_tool ts' name args (ag_owner ag) s1 = call_tool ts name args (ag_owner ag) s1" for name args s1
    using same_tools_lookup[OF assms, of name]
    by (cases "map_of ts name"; cases "map_of ts' name") (simp_all add: call_tool_def run_tool_same)
  show ?case unfolding agent_loop.simps sch same Suc.IH ..
qed simp

abbreviation same_selected :: "oid \<Rightarrow> (string \<times> 's tool option) list \<Rightarrow> (string \<times> 's tool option) list \<Rightarrow> bool" where
  "same_selected owner \<equiv> list_all2 (rel_prod (=) (rel_option (same_for owner)))"

lemma runAgent_same:
  assumes "same_selected (ag_owner ag) ts ts'"
  shows "runAgent ag ts' goal n s = runAgent ag ts goal n s"
proof -
  have "ts' = [] \<longleftrightarrow> ts = []" "None \<in> snd ` set ts' \<longleftrightarrow> None \<in> snd ` set ts"
    using assms by (induction rule: list_all2_induct) (auto simp: rel_option_iff split: option.splits)
  moreover have "same_tools (ag_owner ag) (map (\<lambda>(n, t). (n, the t)) ts) (map (\<lambda>(n, t). (n, the t)) ts')" if "None \<notin> snd ` set ts"
    using assms that by (induction rule: list_all2_induct) (auto simp: rel_option_iff split: option.splits)
  ultimately show ?thesis using agent_loop_same[of ag "map (\<lambda>(n, t). (n, the t)) ts" "map (\<lambda>(n, t). (n, the t)) ts'"]
    by (cases "ts = [] \<or> None \<in> snd ` set ts") (auto simp: runAgent_def)
qed

lemma update_same:
  "same_selected owner al al' \<Longrightarrow> rel_option (same_for owner) t t' \<Longrightarrow> same_selected owner (AList.update n t al) (AList.update n t' al')"
  by (induction rule: list_all2_induct) auto

text \<open>A selection failed in the same way, or selected tools that behave the same.\<close>

abbreviation same_choice where
  "same_choice owner \<equiv> rel_sum (=) (rel_prod (same_selected owner) (=))"

lemma select_loop_same:
  assumes "same_tools owner reg reg'"
  shows "same_selected owner al al' \<Longrightarrow> same_choice owner (select_loop reg role ns al de) (select_loop reg' role ns al' de)"
proof (induction ns arbitrary: al al' de)
  case (Cons n ns)
  show ?case
  proof (cases "map_of reg n")
    case None
    then have n: "map_of reg' n = None" using same_tools_lookup[OF assms, of n] by simp
    show ?thesis
      using Cons.IH[OF Cons.prems] Cons.IH[OF update_same[OF Cons.prems, of None None]] None n by (cases "n = ''__proto__''") auto
  next
    case (Some t)
    then obtain t' where t': "map_of reg' n = Some t'" "same_for owner t t'"
      using same_tools_lookup[OF assms, of n] by (cases "map_of reg' n") auto
    have p: "tl_permission t' = tl_permission t" using t'(2) by (simp add: same_for_def)
    show ?thesis
      using Cons.IH[OF Cons.prems] Cons.IH[OF update_same[OF Cons.prems, of "Some t" "Some t'"]] Some t' p
      by (auto split: option.splits sum.splits)
  qed
qed simp

lemma selectTools_same:
  assumes "same_tools owner reg reg'"
  shows "same_choice owner (selectTools reg al role) (selectTools reg' al role)"
proof -
  have known: "map_of reg' n = None \<longleftrightarrow> map_of reg n = None" for n
    using same_tools_lookup[OF assms, of n] by (cases "map_of reg n"; cases "map_of reg' n") simp_all
  have chosen: "same_choice owner (select_loop reg role ns [] []) (select_loop reg' role ns [] [])" for ns
    by (rule select_loop_same[OF assms]) simp
  show ?thesis unfolding selectTools_def Let_def known same_tools_names[OF assms] by (simp only: rel_sum_simps chosen split: if_split) blast
qed

text \<open>Two worlds that an owner cannot tell apart: the same knowledge base as far as the owner's passages go, and
  the same executions of the owner with their tasks.\<close>

definition same_data :: "oid \<Rightarrow> ('s, 'n) tool_env \<Rightarrow> ('s, 'n) tool_env \<Rightarrow> bool" where
  "same_data owner env env' \<longleftrightarrow> (\<exists>db rag. env' = env\<lparr>te_db := db, te_rag := rag\<rparr>)
     \<and> rel_option (\<lambda>(cfg, emb, ps) (cfg', emb', ps'). cfg' = cfg \<and> emb' = emb
          \<and> filter (\<lambda>p. pt_ownerId p = owner) ps' = filter (\<lambda>p. pt_ownerId p = owner) ps) (te_rag env) (te_rag env')
     \<and> filter (\<lambda>e. e_ownerId e = owner) (executions (te_db env')) = filter (\<lambda>e. e_ownerId e = owner) (executions (te_db env))
     \<and> (\<forall>e \<in> set (executions (te_db env)). e_ownerId e = owner \<longrightarrow> tasks_of (e_id e) (te_db env') = tasks_of (e_id e) (te_db env))"

lemma find_owned: "List.find (\<lambda>e. P e \<and> Q e) xs = List.find P (filter Q xs)"
  by (induction xs) auto

lemma registry_same:
  assumes "same_data owner env env'"
  shows "same_tools owner (createToolRegistry env) (createToolRegistry env')"
proof -
  obtain db rag where env': "env' = env\<lparr>te_db := db, te_rag := rag\<rparr>" using assms by (auto simp: same_data_def)
  have k: "search_knowledge_base env' args owner s = search_knowledge_base env args owner s" for args s
  proof (cases "te_rag env")
    case None
    then show ?thesis using assms by (simp add: same_data_def search_knowledge_base_def)
  next
    case (Some r)
    obtain cfg emb ps where r: "r = (cfg, emb, ps)" by (cases r)
    then obtain ps' where ps': "te_rag env' = Some (cfg, emb, ps')"
      "filter (\<lambda>p. pt_ownerId p = owner) ps' = filter (\<lambda>p. pt_ownerId p = owner) ps"
      using assms Some by (cases "te_rag env'") (auto simp: same_data_def)
    show ?thesis by (simp only: search_knowledge_base_def Some r ps'(1) option.case prod.case retrieve_own[OF ps'(2)])
  qed
  have e: "List.find (\<lambda>e. e_id e = i \<and> e_ownerId e = owner) (executions (te_db env')) = List.find (\<lambda>e. e_id e = i \<and> e_ownerId e = owner) (executions (te_db env))" for i
    using assms by (simp add: find_owned same_data_def)
  have o: "te_oid_of env' = te_oid_of env" by (simp add: env')
  have w: "get_workflow_status env' args owner = get_workflow_status env args owner" for args
  proof (cases "List.find (\<lambda>e. e_id e = te_oid_of env (str_field ''executionId'' args) \<and> e_ownerId e = owner) (executions (te_db env))")
    case None
    then show ?thesis by (simp add: get_workflow_status_def e o)
  next
    case (Some x)
    then have "x \<in> set (executions (te_db env))" "e_ownerId x = owner" by (auto simp: find_Some_iff)
    then have "tasks_of (e_id x) (te_db env') = tasks_of (e_id x) (te_db env)" using assms by (simp add: same_data_def)
    then show ?thesis using Some by (simp add: get_workflow_status_def e o)
  qed
  have "te_arith env' = te_arith env" "te_number env' = te_number env" "te_calc_message env' = te_calc_message env" by (simp_all add: env')
  then have c: "calculator env' args = calculator env args" for args by (simp only: calculator_def)
  have rest: "te_issues env' = te_issues env" "te_schema_text env' = te_schema_text env" "te_latency env' = te_latency env"
    "te_isValidObjectId env' = te_isValidObjectId env" by (simp_all add: env')
  show ?thesis by (simp add: createToolRegistry_def same_for_def k w c rest)
qed

text \<open>C37: an agent sees nothing but its owner's data. Two worlds that agree on the owner's passages in the
  knowledge base and on the owner's executions give the same run of an agent task, whatever the model proposes:
  the same answer or error, the same steps, and the same conversation with the model. What belongs to others
  has no influence.\<close>

theorem agent_sees_own_data:
  assumes "same_data (h_ownerId a) te te'"
  shows "ai_agent env models to_key coerce stringify aborted (Some (createToolRegistry te')) role_of a s
       = ai_agent env models to_key coerce stringify aborted (Some (createToolRegistry te)) role_of a s"
proof -
  let ?role = "case role_of (h_ownerId a) of None \<Rightarrow> [] | Some r \<Rightarrow> r"
  let ?sel = "\<lambda>te. case allowlist_of to_key (field ''tools'' (h_config a)) of
      Inl err \<Rightarrow> Inl err | Inr al \<Rightarrow> selectTools (createToolRegistry te) al ?role"
  have "same_choice (h_ownerId a) (?sel te) (?sel te')"
    using selectTools_same[OF registry_same[OF assms]] by (cases "allowlist_of to_key (field ''tools'' (h_config a))") auto
  then consider e where "?sel te = Inl e" "?sel te' = Inl e"
    | al al' de where "?sel te = Inr (al, de)" "?sel te' = Inr (al', de)" "same_selected (h_ownerId a) al al'"
    by (cases "?sel te"; cases "?sel te'") auto
  then show ?thesis
  proof cases
    case 1
    then show ?thesis unfolding ai_agent_def Let_def option.case by (simp only: sum.case)
  next
    case 2
    have none: "al' = [] \<longleftrightarrow> al = []" using 2(3) by auto
    have run: "runAgent (agent_run_of env stringify aborted m (h_ownerId a)) al' g n s = runAgent (agent_run_of env stringify aborted m (h_ownerId a)) al g n s" for m g n
      by (rule runAgent_same) (simp add: agent_run_of_def 2(3))
    show ?thesis unfolding ai_agent_def Let_def option.case 2(1,2) sum.case prod.case none run ..
  qed
qed

theorem agent_sees_own_data_witness:
  "executions (fst demo2) \<noteq> []
   \<and> ai_agent demo_ai demo_models (\<lambda>_. []) (\<lambda>_. NaN) (\<lambda>_. []) (\<lambda>_. None) (Some (createToolRegistry (demo_env\<lparr>te_db := fst demo2\<rparr>)))
       (\<lambda>_. Some VIEWER) demo_agent_task False
     = ai_agent demo_ai demo_models (\<lambda>_. []) (\<lambda>_. NaN) (\<lambda>_. []) (\<lambda>_. None) (Some (createToolRegistry demo_env)) (\<lambda>_. Some VIEWER) demo_agent_task False"
proof -
  have "executions (fst demo2) \<noteq> []" "filter (\<lambda>e. e_ownerId e = 77) (executions (fst demo2)) = []" by code_simp+
  moreover from this(2) have "same_data (h_ownerId demo_agent_task) demo_env (demo_env\<lparr>te_db := fst demo2\<rparr>)"
    unfolding same_data_def by (intro conjI exI[of _ "fst demo2"] exI[of _ None]) (simp_all add: demo_env_def demo_agent_task_def empty_db_def)
  ultimately show ?thesis using agent_sees_own_data[of demo_agent_task demo_env "demo_env\<lparr>te_db := fst demo2\<rparr>"] by simp
qed

end
