(* ===== verification/Wf_Handlers_Correct.thy ===== *)
theory Wf_Handlers_Correct
  imports Wf_Handlers
begin

text \<open>
  From the handler to the database: which status a claimed task of a built-in type has after \<open>runTask\<close> of
  \<open>src/workers/runTask.js\<close> has reported to the engine, and what an approval request of the gate looks like.
\<close>

section \<open>What the handlers settle to\<close>

lemma withTimeout_now: "withTimeout (Some (r, 0)) ms label = r"
  by (simp add: withTimeout_def timer_delay_def)

lemma clamped_bounds: "lo \<le> hi \<Longrightarrow> lo \<le> clamped f d lo hi v \<and> clamped f d lo hi v \<le> hi"
  by (simp add: clamped_def min_def max_def split: jsnum.splits)

lemma floor_between: "of_int a \<le> x \<and> x \<le> of_int b \<Longrightarrow> a \<le> \<lfloor>x\<rfloor> \<and> \<lfloor>x\<rfloor> \<le> (b :: int)"
  by (meson floor_mono floor_of_int le_floor_iff order_trans floor_le_iff le_less_trans less_add_one of_int_less_iff)

text \<open>The request a gate asks with.\<close>

definition gate_request_ok :: "claimed \<Rightarrow> approval_request \<Rightarrow> bool" where
  "gate_request_ok c rq \<longleftrightarrow> 1000 \<le> r_timeoutMs rq \<and> r_timeoutMs rq \<le> 7 * 24 * 3600 * 1000 \<and> length (r_title rq) \<le> 200
     \<and> length (r_message rq) \<le> 2000 \<and> r_context rq = JObj (snd (snd c))"

lemma human_approval_request:
  obtains rq where "human_approval env (handler_args_of c) = resolved (AwaitApproval rq)" "gate_request_ok c rq"
proof -
  define ms where "ms = \<lfloor>clamped (he_number env) DAY_MS 1000 (7 * DAY_MS) (field ''timeoutMs'' (h_config (handler_args_of c)))\<rfloor>"
  have "1000 \<le> ms \<and> ms \<le> 7 * 24 * 3600 * 1000" unfolding ms_def
    by (rule floor_between) (use clamped_bounds[of 1000 "7 * DAY_MS" "he_number env" DAY_MS] in \<open>simp add: DAY_MS_def\<close>)
  moreover have "h_parents (handler_args_of c) = snd (snd c)" by (simp add: handler_args_of_def split: prod.split)
  ultimately show ?thesis using that unfolding human_approval_def ms_def[symmetric] by (simp add: gate_request_ok_def)
qed

section \<open>Reports\<close>

text \<open>The status of a task in the database.\<close>

definition has_status :: "oid \<Rightarrow> task_status \<Rightarrow> 'q world \<Rightarrow> bool" where
  "has_status i s w \<longleftrightarrow> (\<exists>t \<in> set (tasks (fst w)). t_id t = i \<and> t_status t = s)"

lemma report_value:
  assumes "db_inv (fst w)" "current (t_id t) (t_leaseToken t) (fst w) t"
  shows "\<exists>w'. report dp t (Fulfilled (Value v)) now w = Inr w' \<and> has_status (t_id t) T_COMPLETED w'"
  using completeTask_current[OF assms, of dp v now] by (auto simp: report_def has_status_def)

lemma report_error:
  assumes "db_inv (fst w)" "current (t_id t) (t_leaseToken t) (fst w) t" "find_execution (t_executionId t) (fst w) = Some e"
  shows "\<exists>w'. report dp t (Rejected (Some err)) now w = Inr w' \<and> has_status (t_id t) (fail_outcome (Some err) t e) w'"
proof -
  have t: "t \<in> set (tasks (fst w))" "t_status t = T_RUNNING" using assms(2) by (auto simp: current_def)
  obtain cr where cr: "view (t_executionId t) (fst w) = Some cr" using db_inv_view[OF assms(1) t(1)] by metis
  obtain res db' q where f: "failTask dp (t_id t) (t_leaseToken t) (Some err) now w = Inr (res, db', q)"
    and tx: "run_txn (t_executionId t) (if fail_outcome (Some err) t e = T_RETRYING then c_move (t_key t) T_RETRYING
         else c_fail (fail_outcome (Some err) t e) (t_key t)) (fst w) db'"
    using failTask_current[OF assms, of dp "Some err" now] by blast
  have "run_tasks (spec_run ((if fail_outcome (Some err) t e = T_RETRYING then c_move (t_key t) T_RETRYING
         else c_fail (fail_outcome (Some err) t e) (t_key t)) cr)) (t_key t) = Some (fail_outcome (Some err) t e)"
    using failTask_run[OF assms f cr] run_txn_status[OF tx cr]
    by (auto simp: spec_fail_def Let_def cancel_where_def fail_outcome_def split: if_splits)
  from run_txn_task[OF assms(1) t(1) tx cr this] show ?thesis using f by (simp add: report_def has_status_def)
qed

lemma report_gate:
  assumes "db_inv (fst w)" "current (t_id t) (t_leaseToken t) (fst w) t" "dep_approvals dp"
    "\<forall>p \<in> set (approvals (fst w)). p_taskId p \<noteq> t_id t"
  shows "\<exists>w'. report dp t (Fulfilled (AwaitApproval rq)) now w = Inr w' \<and> has_status (t_id t) T_WAITING_FOR_APPROVAL w'
     \<and> (\<exists>p \<in> set (approvals (fst w')). p_taskId p = t_id t \<and> p_status p = P_PENDING \<and> p_expiresAt p = now + r_timeoutMs rq)"
proof -
  have t: "t \<in> set (tasks (fst w))" "t_status t = T_RUNNING" using assms(2) by (auto simp: current_def)
  have ok: "db_ok (fst w)" using assms(1) by (simp add: db_inv_def)
  let ?upd = "\<lambda>t. t\<lparr>t_leaseOwner := None, t_leaseExpiresAt := None\<rparr>" and ?t' = "t\<lparr>t_leaseOwner := None, t_leaseExpiresAt := None, t_status := T_WAITING_FOR_APPROVAL\<rparr>"
  have tr: "transitionTask (t_id t) T_RUNNING T_WAITING_FOR_APPROVAL (\<lambda>u. t_leaseToken u = t_leaseToken t) ?upd (fst w)
      = Inr (True, moved t ?t' (fst w))"
    using transitionTask_won[of T_WAITING_FOR_APPROVAL t "fst w" "\<lambda>u. t_leaseToken u = t_leaseToken t" ?upd] t ok by simp
  have f: "find_task (t_id t) (moved t ?t' (fst w)) = Some ?t'" using find_task_moved[OF ok t(1)] by simp
  then have "?t' \<in> set (tasks (moved t ?t' (fst w)))" by (simp add: find_task_def find_filter_Some)
  then have "\<exists>u \<in> set (tasks (moved t ?t' (fst w))). t_id u = t_id t \<and> t_status u = T_WAITING_FOR_APPROVAL" by (rule bexI[rotated]) simp
  then show ?thesis using assms(3,4) f
    by (auto simp: report_def suspendForApproval_def tr Let_def has_status_def)
qed


section \<open>What becomes of a task\<close>

text \<open>The status a task of a built-in type ends its attempt in: by its type, its configuration and its number of attempts.\<close>

definition attempt_result :: "handler_env \<Rightarrow> claimed \<Rightarrow> execution \<Rightarrow> task_status" where
  "attempt_result env c e =
     (let t = fst c; a = handler_args_of c;
          failed = (\<lambda>retryable. if retryable \<and> t_attempt t < t_maxAttempts t \<and> live (e_status e) then T_RETRYING
                     else if retryable \<and> t_maxAttempts t \<le> t_attempt t then T_DEAD_LETTER else T_FAILED) in
      if t_type t = ''noop'' \<or> t_type t = ''echo'' then T_COMPLETED
      else if t_type t = ''delay'' then (if timer_delay \<lfloor>delay_ms env a\<rfloor> < timer_delay (t_timeoutMs t) then T_COMPLETED else failed True)
      else if t_type t = ''fail'' then failed (field ''retryable'' (h_config a) = Some (JBool True))
      else if t_type t = ''flaky'' then (if at_most (t_attempt t) (fail_times env a) then failed True else T_COMPLETED)
      else if t_type t = ''human.approval'' then T_WAITING_FOR_APPROVAL
      else failed False)"

lemma fail_outcome_eq:
  "fail_outcome (Some err) t e = (if isRetryable (Some err) \<and> t_attempt t < t_maxAttempts t \<and> live (e_status e) then T_RETRYING
     else if isRetryable (Some err) \<and> t_maxAttempts t \<le> t_attempt t then T_DEAD_LETTER else T_FAILED)"
  by (simp add: fail_outcome_def not_less)

lemma retryable_errors [simp]:
  "isRetryable (Some (error_of m))" "\<not> isRetryable (Some (NonRetryableError m))" "isRetryable (Some (TimeoutError l ms))"
  by (simp_all add: isRetryable_def error_of_def NonRetryableError_def TimeoutError_def)

lemma run_builtin:
  assumes "he_signal env = None" "t_type t \<notin> set inherited"
  obtains
    (val) v where "run_handler (lookup_handler (builtin_handlers env) inh) (t, input, parents) = Fulfilled (Value v)"
      "attempt_result env (t, input, parents) e = T_COMPLETED"
  | (err) err where "run_handler (lookup_handler (builtin_handlers env) inh) (t, input, parents) = Rejected (Some err)"
      "attempt_result env (t, input, parents) e = fail_outcome (Some err) t e"
  | (gate) rq where "run_handler (lookup_handler (builtin_handlers env) inh) (t, input, parents) = Fulfilled (AwaitApproval rq)"
      "gate_request_ok (t, input, parents) rq" "t_type t = ''human.approval''" "attempt_result env (t, input, parents) e = T_WAITING_FOR_APPROVAL"
proof -
  let ?c = "(t, input, parents)" and ?a = "handler_args_of (t, input, parents)"
  let ?r = "run_handler (lookup_handler (builtin_handlers env) inh) ?c"
  have run: "?r = withTimeout (h ?a) (t_timeoutMs t) (''task \"'' @ t_key t @ ''\"'')" if "map_of (builtin_handlers env) (t_type t) = Some h" for h
    using that by (simp add: run_handler_def lookup_handler_def)
  have att: "h_attempt ?a = t_attempt t" by (simp add: handler_args_of_def)
  consider "t_type t = ''noop''" | "t_type t = ''echo''" | "t_type t = ''delay''" | "t_type t = ''fail''" | "t_type t = ''flaky''" | "t_type t = ''human.approval''"
    | "t_type t \<notin> {''noop'', ''echo'', ''delay'', ''fail'', ''flaky'', ''human.approval''}" by blast
  then show ?thesis
  proof cases
    case 1
    then have "?r = Fulfilled (Value (JObj []))" using run[of "noop env"] by (simp add: builtin_handlers_def noop_def resolved_def withTimeout_now)
    then show ?thesis using val 1 by (simp add: attempt_result_def)
  next
    case 2
    then have "\<exists>v. ?r = Fulfilled (Value v)" using run[of "echo env"] by (simp add: builtin_handlers_def echo_def resolved_def withTimeout_now)
    then show ?thesis using val 2 by (auto simp: attempt_result_def)
  next
    case 3
    then have r: "?r = withTimeout (delay env ?a) (t_timeoutMs t) (''task \"'' @ t_key t @ ''\"'')" using run[of "delay env"] by (simp add: builtin_handlers_def)
    have d: "delay env ?a = Some (Fulfilled (Value (JObj [(''waitedMs'', JNum (delay_ms env ?a))])), timer_delay \<lfloor>delay_ms env ?a\<rfloor>)"
      by (simp add: delay_def sleep_def assms(1) Let_def)
    show ?thesis
    proof (cases "timer_delay \<lfloor>delay_ms env ?a\<rfloor> < timer_delay (t_timeoutMs t)")
      case True
      then show ?thesis using val r d 3 by (simp add: withTimeout_def attempt_result_def)
    next
      case False
      then have "?r = Rejected (Some (TimeoutError (''task \"'' @ t_key t @ ''\"'') (t_timeoutMs t)))" unfolding r d by (simp add: withTimeout_def)
      then show ?thesis using err False 3 by (simp add: attempt_result_def fail_outcome_eq Let_def)
    qed
  next
    case 4
    define m where "m = string_or (he_string env) ''Task configured to fail'' (field ''message'' (h_config ?a))"
    have "?r = Rejected (Some (if field ''retryable'' (h_config ?a) = Some (JBool True) then error_of m else NonRetryableError m))"
      using run[of "fail env"] 4 by (simp add: builtin_handlers_def fail_def rejected_def withTimeout_now m_def[symmetric])
    then show ?thesis using err 4 by (simp add: attempt_result_def fail_outcome_eq Let_def)
  next
    case 5
    have r: "?r = withTimeout (flaky env ?a) (t_timeoutMs t) (''task \"'' @ t_key t @ ''\"'')" using 5 run[of "flaky env"] by (simp add: builtin_handlers_def)
    show ?thesis
    proof (cases "at_most (t_attempt t) (fail_times env ?a)")
      case True
      then have "\<exists>m. ?r = Rejected (Some (error_of m))" unfolding r flaky_def att by (simp only: if_True rejected_def withTimeout_now) blast
      then show ?thesis using err True 5 by (auto simp: attempt_result_def fail_outcome_eq Let_def)
    next
      case False
      then have "\<exists>v. ?r = Fulfilled (Value v)" unfolding r flaky_def att by (simp add: resolved_def withTimeout_now)
      then show ?thesis using val False 5 by (auto simp: attempt_result_def)
    qed
  next
    case 6
    obtain rq where rq: "human_approval env ?a = resolved (AwaitApproval rq)" "gate_request_ok ?c rq" by (rule human_approval_request)
    have "?r = Fulfilled (AwaitApproval rq)" using 6 run[of "human_approval env"] rq(1) by (simp add: builtin_handlers_def resolved_def withTimeout_now)
    then show ?thesis using gate rq(2) 6 by (simp add: attempt_result_def)
  next
    case 7
    then have "lookup_handler (builtin_handlers env) inh (t_type t) = None"
      using assms(2) by (auto simp: lookup_handler_def builtin_handlers_def inherited_def)
    then have "\<exists>m. ?r = Rejected (Some (NonRetryableError m))" by (auto simp: run_handler_def)
    then show ?thesis using err 7 by (auto simp: attempt_result_def fail_outcome_eq Let_def)
  qed
qed




text \<open>A task type that names an inherited property is taken for a handler: a task of type \<open>constructor\<close>, which the
  schema of workflows admits, completes, although no such handler is registered.\<close>

lemma constructor_type_completes:
  "\<exists>v. run_handler (lookup_handler (builtin_handlers env) inh) (t\<lparr>t_type := ''constructor''\<rparr>, input, parents) = Fulfilled (Value v)"
  by (simp add: run_handler_def lookup_handler_def builtin_handlers_def object_call_def resolved_def withTimeout_now Let_def)

end
