(* ===== verification/Wf_Provider_Stack.thy ===== *)
theory Wf_Provider_Stack
  imports Wf_Providers Wf_Ai
begin

text \<open>
  The provider a worker really uses: the HTTP client of \<open>src/ai/providers/openaiCompatible.js\<close>, the stack of
  \<open>src/ai/providers/index.js\<close> with the fallback chain around it, and the observer of
  \<open>src/ai/observability.js\<close>, which records every call. Parameters are what \<open>fetch\<close> does in a state of the outside world, the text of
  a value that is not a string, rounding of a cost, and which records the database accepts.
\<close>

section \<open>The HTTP client\<close>

text \<open>What \<open>fetch\<close> comes to: it throws, with our timeout fired or not; or a response with its status, its text
  and its body as JSON, or the message of the parser.\<close>

datatype http_reply = Fetch_Error bool string | Response int string "string + json"

record http_request =
  rq_url :: string
  rq_authorization :: "string option"
  rq_body :: json

record client =
  cl_name :: string
  cl_baseUrl :: string
  cl_apiKey :: "string option"
  cl_timeoutMs :: int

text \<open>\<open>baseUrl.replace(/\/$/, "")\<close>\<close>

definition drop_slash :: "string \<Rightarrow> string" where
  "drop_slash s = (if s \<noteq> [] \<and> last s = CHR 0x2F then butlast s else s)"

definition http_request_of :: "client \<Rightarrow> string \<Rightarrow> json \<Rightarrow> http_request" where
  "http_request_of c path payload =
     \<lparr>rq_url = drop_slash (cl_baseUrl c) @ path,
      rq_authorization = (case cl_apiKey c of None \<Rightarrow> None | Some k \<Rightarrow> if k = [] then None else Some (''Bearer '' @ k)),
      rq_body = payload\<rparr>"

definition ProviderError :: "string \<Rightarrow> string \<Rightarrow> bool \<Rightarrow> provider_error" where
  "ProviderError nm msg retryable = \<lparr>pe_message = msg, pe_provider = nm, pe_retryable = Some retryable\<rparr>"

text \<open>An error of the language, without the property \<open>retryable\<close>.\<close>

definition js_failure :: "string \<Rightarrow> provider_error" where
  "js_failure msg = \<lparr>pe_message = msg, pe_provider = [], pe_retryable = None\<rparr>"

definition post :: "client \<Rightarrow> http_reply \<Rightarrow> provider_error + json" where
  "post c r =
     (case r of
        Fetch_Error timedOut msg \<Rightarrow>
          Inl (ProviderError (cl_name c) (if timedOut then cl_name c @ '' timed out after '' @ show_int (cl_timeoutMs c) @ ''ms''
                                          else cl_name c @ '' unreachable: '' @ msg) True)
      | Response status txt payload \<Rightarrow>
          if \<not> (200 \<le> status \<and> status \<le> 299)
          then Inl (ProviderError (cl_name c) (cl_name c @ '' HTTP '' @ show_int status @ '': '' @ take 300 txt) (isRetryableStatus status))
          else (case payload of Inl msg \<Rightarrow> Inl (js_failure msg) | Inr j \<Rightarrow> Inr j))"

definition message_json :: "chat_message \<Rightarrow> json" where
  "message_json m = JObj [(''role'', JStr (cm_role m)), (''content'', JStr (cm_content m))]"

text \<open>The request of \<open>generateStructured\<close>: temperature 0, JSON mode, no limit on tokens.\<close>

definition chat_body :: "string \<Rightarrow> chat_message list \<Rightarrow> json" where
  "chat_body model messages = JObj [(''model'', JStr model), (''messages'', JArr (map message_json messages)), (''temperature'', JNum 0),
     (''response_format'', JObj [(''type'', JStr ''json_object'')])]"

text \<open>\<open>v ?? dflt\<close>, and \<open>r.choices?.[0]?.message?.content\<close>\<close>

definition opt_field :: "string \<Rightarrow> json option \<Rightarrow> json option" where
  "opt_field k v = Option.bind v (field k)"

definition first_of :: "json option \<Rightarrow> json option" where
  "first_of v = (case v of Some (JArr (j # js)) \<Rightarrow> Some j | Some (JObj kvs) \<Rightarrow> map_of kvs ''0'' | _ \<Rightarrow> None)"

definition tokens_of :: "json option \<Rightarrow> int" where
  "tokens_of v = (case v of Some (JNum r) \<Rightarrow> \<lfloor>r\<rfloor> | _ \<Rightarrow> 0)"

text \<open>The requests and replies of both operations: a chat has messages and a content, an embedding has texts and vectors.\<close>

record llm_request =
  lq_messages :: "chat_message list"
  lq_input :: "string list"

record llm_reply =
  lr_content :: string
  lr_vectors :: "rat list list"
  lr_model :: string
  lr_usage :: usage

definition chat_reply :: "(json \<Rightarrow> string) \<Rightarrow> string \<Rightarrow> json \<Rightarrow> provider_error + llm_reply" where
  "chat_reply to_key model r =
     (if r = JNull then Inl (js_failure [])
      else Inr
        \<lparr>lr_content = string_or to_key [] (opt_field ''content'' (opt_field ''message'' (first_of (field ''choices'' r)))), lr_vectors = [],
         lr_model = string_or to_key model (field ''model'' r),
         lr_usage = \<lparr>us_inputTokens = tokens_of (opt_field ''prompt_tokens'' (field ''usage'' r)),
                     us_outputTokens = tokens_of (opt_field ''completion_tokens'' (field ''usage'' r))\<rparr>\<rparr>)"

definition numbers :: "json \<Rightarrow> rat list option" where
  "numbers j = parse_array 0 (case j of JArr js \<Rightarrow> length js | _ \<Rightarrow> 0) (\<lambda>v. case v of JNum r \<Rightarrow> Some r | _ \<Rightarrow> None) j"

text \<open>\<open>r.data.map((d) => d.embedding)\<close>; what is not a list of vectors counts as an error here already.\<close>

definition vectors_of :: "json \<Rightarrow> rat list list option" where
  "vectors_of r = (case field ''data'' r of
     Some (JArr ds) \<Rightarrow> parse_all (\<lambda>d. required numbers (field ''embedding'' d)) ds | _ \<Rightarrow> None)"

definition embed_reply :: "(json \<Rightarrow> string) \<Rightarrow> string \<Rightarrow> json \<Rightarrow> provider_error + llm_reply" where
  "embed_reply to_key model r =
     (case vectors_of r of
        None \<Rightarrow> Inl (js_failure [])
      | Some vs \<Rightarrow> Inr \<lparr>lr_content = [], lr_vectors = vs, lr_model = string_or to_key model (field ''model'' r),
           lr_usage = \<lparr>us_inputTokens = tokens_of (opt_field ''prompt_tokens'' (field ''usage'' r)), us_outputTokens = 0\<rparr>\<rparr>)"

definition http_chat :: "(json \<Rightarrow> string) \<Rightarrow> client \<Rightarrow> (http_request \<Rightarrow> http_reply) \<Rightarrow> string \<Rightarrow> llm_request \<Rightarrow> provider_error + llm_reply" where
  "http_chat to_key c fetch model q =
     (case post c (fetch (http_request_of c ''/v1/chat/completions'' (chat_body model (lq_messages q)))) of
        Inl err \<Rightarrow> Inl err | Inr r \<Rightarrow> chat_reply to_key model r)"

definition http_embed :: "(json \<Rightarrow> string) \<Rightarrow> client \<Rightarrow> (http_request \<Rightarrow> http_reply) \<Rightarrow> string \<Rightarrow> llm_request \<Rightarrow> provider_error + llm_reply" where
  "http_embed to_key c fetch model q =
     (case post c (fetch (http_request_of c ''/v1/embeddings'' (JObj [(''model'', JStr model), (''input'', JArr (map JStr (lq_input q)))]))) of
        Inl err \<Rightarrow> Inl err | Inr r \<Rightarrow> embed_reply to_key model r)"

definition createOpenAICompatibleProvider :: "(json \<Rightarrow> string) \<Rightarrow> client \<Rightarrow> (http_request \<Rightarrow> http_reply) \<Rightarrow> (llm_request, llm_reply) provider" where
  "createOpenAICompatibleProvider to_key c fetch =
     \<lparr>pr_name = cl_name c, pr_mapModel = None, pr_chat = http_chat to_key c fetch, pr_embed = http_embed to_key c fetch\<rparr>"

section \<open>The stack\<close>

text \<open>The mock as the stack makes it: it replies \<open>{}\<close> and counts the words of a text; \<open>embedOne\<close> is its hashing embedding.\<close>

definition nwords :: "string \<Rightarrow> nat" where
  "nwords s = space_runs False s + 1"

definition createMockProvider :: "(string \<Rightarrow> rat list) \<Rightarrow> (llm_request, llm_reply) provider" where
  "createMockProvider embedOne =
     \<lparr>pr_name = ''mock'', pr_mapModel = None,
      pr_chat = (\<lambda>model q. Inr \<lparr>lr_content = ''{}'', lr_vectors = [], lr_model = model,
        lr_usage = \<lparr>us_inputTokens = int (sum_list (map (nwords \<circ> cm_content) (lq_messages q))), us_outputTokens = int (nwords ''{}'')\<rparr>\<rparr>),
      pr_embed = (\<lambda>model q. Inr \<lparr>lr_content = [], lr_vectors = map embedOne (lq_input q), lr_model = model,
        lr_usage = \<lparr>us_inputTokens = int (nwords (join_strings '' '' (lq_input q))), us_outputTokens = 0\<rparr>\<rparr>)\<rparr>"

record llm_fallback =
  lf_baseUrl :: string
  lf_apiKey :: "string option"
  lf_model :: string

record llm_config =
  lc_provider :: string
  lc_baseUrl :: string
  lc_apiKey :: "string option"
  lc_timeoutMs :: int
  lc_fallback :: "llm_fallback option"
  lc_breaker :: breaker_config

record text_env =
  tv_string :: "json \<Rightarrow> string"
  tv_embedOne :: "string \<Rightarrow> rat list"

definition primary_provider :: "text_env \<Rightarrow> llm_config \<Rightarrow> (http_request \<Rightarrow> http_reply) \<Rightarrow> (llm_request, llm_reply) provider" where
  "primary_provider tv cfg fetch =
     (if lc_provider cfg = ''mock'' then createMockProvider (tv_embedOne tv)
      else createOpenAICompatibleProvider (tv_string tv)
        \<lparr>cl_name = lc_provider cfg, cl_baseUrl = lc_baseUrl cfg, cl_apiKey = lc_apiKey cfg, cl_timeoutMs = lc_timeoutMs cfg\<rparr> fetch)"

definition entries :: "text_env \<Rightarrow> llm_config \<Rightarrow> (http_request \<Rightarrow> http_reply) \<Rightarrow> (llm_request, llm_reply) provider list" where
  "entries tv cfg fetch = primary_provider tv cfg fetch #
     (case lc_fallback cfg of
        None \<Rightarrow> []
      | Some fb \<Rightarrow> [(createOpenAICompatibleProvider (tv_string tv)
          \<lparr>cl_name = ''fallback'', cl_baseUrl = lf_baseUrl fb, cl_apiKey = lf_apiKey fb, cl_timeoutMs = lc_timeoutMs cfg\<rparr> fetch)
          \<lparr>pr_mapModel := Some (\<lambda>_. lf_model fb)\<rparr>])"

text \<open>What a caller catches.\<close>

definition thrown :: "provider_error \<Rightarrow> js_error" where
  "thrown e = \<lparr>je_name = (if pe_retryable e = None then ''Error'' else ''ProviderError''), je_message = pe_message e, je_retryable = pe_retryable e,
     je_non_retryable = False\<rparr>"

text \<open>\<open>ou_fetch s\<close> is what the network does when the outside world is in state \<open>s\<close>, \<open>ou_after s\<close> the world after a call. The
  state of the stack is the world and the circuits.\<close>

record 's outside =
  ou_fetch :: "'s \<Rightarrow> http_request \<Rightarrow> http_reply"
  ou_after :: "'s \<Rightarrow> 's"
  ou_clock :: "'s \<Rightarrow> nat \<Rightarrow> time \<times> time"

type_synonym call_result = "js_error + llm_reply answer"

definition stack_chat :: "text_env \<Rightarrow> llm_config \<Rightarrow> 's outside \<Rightarrow> string \<Rightarrow> llm_request \<Rightarrow> 's \<times> breaker list \<Rightarrow> call_result \<times> 's \<times> breaker list" where
  "stack_chat tv cfg ou model q st =
     (case chat (lc_breaker cfg) (ou_clock ou (fst st)) model q (zip (entries tv cfg (ou_fetch ou (fst st))) (snd st)) of
        (r, chain) \<Rightarrow> (map_sum thrown id r, ou_after ou (fst st), map snd chain))"

definition stack_embed :: "text_env \<Rightarrow> llm_config \<Rightarrow> 's outside \<Rightarrow> string \<Rightarrow> llm_request \<Rightarrow> 's \<times> breaker list \<Rightarrow> call_result \<times> 's \<times> breaker list" where
  "stack_embed tv cfg ou model q st =
     (case embed (lc_breaker cfg) (ou_clock ou (fst st) 0) model q (zip (entries tv cfg (ou_fetch ou (fst st))) (snd st)) of
        None \<Rightarrow> (Inl (thrown (js_failure [])), ou_after ou (fst st), snd st)
      | Some (r, chain) \<Rightarrow> (map_sum thrown id r, ou_after ou (fst st), map snd chain))"

section \<open>Observability\<close>

record ai_context =
  ac_executionId :: "oid option"
  ac_taskId :: "oid option"
  ac_ownerId :: "oid option"
  ac_taskType :: "string option"

record ai_execution =
  ax_operation :: string
  ax_context :: ai_context
  ax_provider :: string
  ax_model :: string
  ax_success :: bool
  ax_error :: "string option"
  ax_retryable :: "bool option"
  ax_fallbackUsed :: bool
  ax_latencyMs :: int
  ax_inputTokens :: int
  ax_outputTokens :: int
  ax_totalTokens :: int
  ax_estimatedCostUsd :: rat

text \<open>A price table, with the prices of a million tokens.\<close>

type_synonym pricing = "(string \<times> rat \<times> rat) list"

definition estimateCostUsd :: "(rat \<Rightarrow> rat) \<Rightarrow> pricing \<Rightarrow> string \<Rightarrow> int \<Rightarrow> int \<Rightarrow> rat" where
  "estimateCostUsd round8 pricing model inputTokens outputTokens =
     (case map_of pricing model of
        None \<Rightarrow> 0
      | Some (pin, pout) \<Rightarrow> round8 ((of_int inputTokens * pin + of_int outputTokens * pout) / 1000000))"

record observer =
  ob_context :: ai_context
  ob_name :: string
  ob_pricing :: pricing
  ob_round8 :: "rat \<Rightarrow> rat"
  ob_stored :: "ai_execution \<Rightarrow> bool"

definition record_of :: "observer \<Rightarrow> string \<Rightarrow> string \<Rightarrow> int \<Rightarrow> call_result \<Rightarrow> ai_execution" where
  "record_of ob operation model latency r =
     (let us = (case r of Inl _ \<Rightarrow> no_usage | Inr a \<Rightarrow> lr_usage (an_reply a));
          used = (case r of Inl _ \<Rightarrow> model | Inr a \<Rightarrow> lr_model (an_reply a)) in
      \<lparr>ax_operation = operation, ax_context = ob_context ob,
       ax_provider = (case r of Inl _ \<Rightarrow> ob_name ob | Inr a \<Rightarrow> an_provider a), ax_model = used, ax_success = \<not> isl r,
       ax_error = (case r of Inl e \<Rightarrow> Some (take 300 (je_message e)) | Inr _ \<Rightarrow> None),
       ax_retryable = (case r of Inl e \<Rightarrow> Some (je_retryable e \<noteq> Some False) | Inr _ \<Rightarrow> None),
       ax_fallbackUsed = (case r of Inl _ \<Rightarrow> False | Inr a \<Rightarrow> an_fallbackUsed a), ax_latencyMs = latency,
       ax_inputTokens = us_inputTokens us, ax_outputTokens = us_outputTokens us, ax_totalTokens = us_inputTokens us + us_outputTokens us,
       ax_estimatedCostUsd = estimateCostUsd (ob_round8 ob) (ob_pricing ob) used (us_inputTokens us) (us_outputTokens us)\<rparr>)"

text \<open>A call that is observed; a row that \<open>AIExecution.create\<close> refuses is lost, and nothing else.\<close>

definition observe :: "observer \<Rightarrow> ('s \<Rightarrow> int) \<Rightarrow> string \<Rightarrow> (string \<Rightarrow> llm_request \<Rightarrow> 's \<Rightarrow> call_result \<times> 's) \<Rightarrow> string \<Rightarrow> llm_request
    \<Rightarrow> 's \<times> ai_execution list \<Rightarrow> call_result \<times> 's \<times> ai_execution list" where
  "observe ob latency operation call model q st =
     (case call model q (fst st) of
        (r, s') \<Rightarrow> let row = record_of ob operation model (latency (fst st)) r in
                   (r, s', if ob_stored ob row then snd st @ [row] else snd st))"

text \<open>The two operations as the rest of the system calls them.\<close>

definition as_model :: "(string \<Rightarrow> llm_request \<Rightarrow> 's \<Rightarrow> call_result \<times> 's) \<Rightarrow> 's model" where
  "as_model call model messages s =
     (case call model \<lparr>lq_messages = messages, lq_input = []\<rparr> s of
        (r, s') \<Rightarrow> (map_sum id (\<lambda>a. \<lparr>re_content = lr_content (an_reply a), re_usage = lr_usage (an_reply a)\<rparr>) r, s'))"

definition as_embedder :: "(string \<Rightarrow> llm_request \<Rightarrow> 's \<Rightarrow> call_result \<times> 's) \<Rightarrow> 's embedder" where
  "as_embedder call model texts s =
     (case call model \<lparr>lq_messages = [], lq_input = texts\<rparr> s of (r, s') \<Rightarrow> (map_sum id (\<lambda>a. lr_vectors (an_reply a)) r, s'))"

section \<open>Which failures are final\<close>

lemma chat_loop_permanent:
  "chat_loop c clock model q i le chain = (Inl err, chain') \<Longrightarrow> pe_retryable err = Some False
     \<Longrightarrow> \<exists>p \<in> fst ` set chain. pr_chat p (model_for p model) q = Inl err"
proof (induction chain arbitrary: i le chain')
  case Nil
  then show ?case by (auto simp: all_failed_def)
next
  case (Cons pb chain)
  obtain p b where pb: "pb = (p, b)" by (cases pb)
  obtain ok b' where a: "allow c (fst (clock i)) b = (ok, b')" by fastforce
  show ?case
  proof (cases "ok \<and> (\<exists>e. pr_chat p (model_for p model) q = Inl e \<and> pe_retryable e = Some False \<or> (\<exists>x. pr_chat p (model_for p model) q = Inr x))")
    case True
    then show ?thesis using Cons.prems a pb by (auto split: sum.splits if_splits)
  next
    case False
    then obtain le' i' chain2 where "chat_loop c clock model q i' le' chain = (Inl err, chain2)"
      using Cons.prems(1) a pb by (auto simp: split_beta split: sum.splits if_splits) (metis prod.collapse)+
    then show ?thesis using Cons.IH Cons.prems(2) by fastforce
  qed
qed

lemma post_permanent:
  "post c r = Inl e \<Longrightarrow> pe_retryable e = Some False
     \<Longrightarrow> \<exists>status txt b. r = Response status txt b \<and> \<not> (200 \<le> status \<and> status \<le> 299) \<and> \<not> isRetryableStatus status"
  by (auto simp: post_def ProviderError_def js_failure_def split: http_reply.splits if_splits sum.splits)

lemma http_chat_permanent:
  "http_chat ts c fetch model q = Inl e \<Longrightarrow> pe_retryable e = Some False
     \<Longrightarrow> \<exists>rq status txt b. fetch rq = Response status txt b \<and> \<not> (200 \<le> status \<and> status \<le> 299) \<and> \<not> isRetryableStatus status"
  by (auto simp: http_chat_def chat_reply_def js_failure_def split: sum.splits if_splits dest!: post_permanent)

text \<open>A model call fails for good only on an error that a repetition cannot mend. If the stack throws an error the engine will not
  retry, then one of the providers answered with an HTTP status that is neither a success nor 408, 429 or 5xx: not
  when the network was down, a call timed out, a reply was no JSON, or every circuit was open.\<close>

theorem permanent_failures_are_http_errors:
  assumes "stack_chat tv cfg ou model q (s, bs) = (Inl e, s', bs')" "\<not> isRetryable (Some e)"
  shows "\<exists>rq status txt b. ou_fetch ou s rq = Response status txt b \<and> \<not> (200 \<le> status \<and> status \<le> 299)
     \<and> status \<noteq> 408 \<and> status \<noteq> 429 \<and> status < 500"
proof -
  obtain pe chain where ch: "chat (lc_breaker cfg) (ou_clock ou s) model q (zip (entries tv cfg (ou_fetch ou s)) bs) = (Inl pe, chain)" "e = thrown pe"
    using assms(1) by (auto simp: stack_chat_def split: prod.splits) (metis (no_types) sum.exhaust map_sum.simps sum.distinct(1) sum.inject(1))
  have perm: "pe_retryable pe = Some False" using assms(2) ch(2) by (auto simp: isRetryable_def thrown_def)
  then obtain p where p: "p \<in> set (entries tv cfg (ou_fetch ou s))" "pr_chat p (model_for p model) q = Inl pe"
    using chat_loop_permanent[OF ch(1)[unfolded chat_def] perm] by (auto dest: set_zip_leftD)
  then have "\<exists>c. pr_chat p = http_chat (tv_string tv) c (ou_fetch ou s)"
    by (auto simp: entries_def primary_provider_def createOpenAICompatibleProvider_def createMockProvider_def split: if_splits option.splits)
  then show ?thesis using http_chat_permanent[OF _ perm] p(2) by (fastforce simp: isRetryableStatus_def)
qed

definition demo_llm :: llm_config where
  "demo_llm = \<lparr>lc_provider = ''ollama'', lc_baseUrl = ''http://h/'', lc_apiKey = None, lc_timeoutMs = 1000, lc_fallback = None,
     lc_breaker = \<lparr>bc_failureThreshold = 3, bc_cooldownMs = 1000\<rparr>\<rparr>"

definition demo_outside :: "unit outside" where
  "demo_outside = \<lparr>ou_fetch = (\<lambda>_ rq. if rq_url rq = ''http://h/v1/chat/completions'' then Response 401 ''no'' (Inl []) else Response 500 [] (Inl [])),
     ou_after = id, ou_clock = (\<lambda>_ _. (0, 0))\<rparr>"

theorem permanent_failures_are_http_errors_witness:
  "\<exists>e s' bs' rq status txt b. stack_chat \<lparr>tv_string = (\<lambda>_. []), tv_embedOne = (\<lambda>_. [])\<rparr> demo_llm demo_outside ''m'' \<lparr>lq_messages = [], lq_input = []\<rparr>
        ((), [createCircuitBreaker]) = (Inl e, s', bs') \<and> \<not> isRetryable (Some e) \<and> ou_fetch demo_outside () rq = Response status txt b \<and> status < 500"
proof -
  have "\<exists>e s' bs'. stack_chat \<lparr>tv_string = (\<lambda>_. []), tv_embedOne = (\<lambda>_. [])\<rparr> demo_llm demo_outside ''m'' \<lparr>lq_messages = [], lq_input = []\<rparr>
        ((), [createCircuitBreaker]) = (Inl e, s', bs') \<and> \<not> isRetryable (Some e)"
    by (simp add: stack_chat_def chat_def entries_def primary_provider_def demo_llm_def demo_outside_def createOpenAICompatibleProvider_def allow_def
        createCircuitBreaker_def Let_def http_chat_def http_request_of_def drop_slash_def post_def ProviderError_def isRetryableStatus_def model_for_def thrown_def
        isRetryable_def)
  then obtain e s' bs' where e: "stack_chat \<lparr>tv_string = (\<lambda>_. []), tv_embedOne = (\<lambda>_. [])\<rparr> demo_llm demo_outside ''m'' \<lparr>lq_messages = [], lq_input = []\<rparr>
        ((), [createCircuitBreaker]) = (Inl e, s', bs')" "\<not> isRetryable (Some e)" by blast
  from permanent_failures_are_http_errors[OF e] show ?thesis using e by blast
qed

end
