(* ===== verification/Wf_Observability.thy ===== *)
theory Wf_Observability
  imports Wf_Provider_Stack
begin

text \<open>
  The observer of \<open>src/ai/observability.js\<close> around the handlers: recording calls never changes what a
  handler does, and the recorded tokens are the ones the work is charged with. \<open>worker_deps\<close> is the wiring of
  \<open>src/worker.js\<close>: one provider under the knowledge base, the tools and the handlers.
\<close>

section \<open>The wiring\<close>

record 'n ai_params =
  ap_json_parse :: "string \<Rightarrow> string + json"
  ap_issues :: "json \<Rightarrow> string list"
  ap_schema_text :: "string \<Rightarrow> string"
  ap_classifier_prompt :: string
  ap_models :: ai_models
  ap_string :: "json \<Rightarrow> string"
  ap_number :: "json \<Rightarrow> jsnum"
  ap_stringify :: "json \<Rightarrow> string"
  ap_aborted :: "nat \<Rightarrow> js_error option"
  ap_rag :: "(rag_config \<times> point list) option"
  ap_db :: db
  ap_getUserRole :: "oid \<Rightarrow> string option"
  ap_isValidObjectId :: "string \<Rightarrow> bool"
  ap_oid_of :: "string \<Rightarrow> oid"
  ap_arith :: "'n arith"
  ap_numeral :: "'n \<Rightarrow> json"
  ap_calc_message :: "calc_error \<Rightarrow> string"
  ap_tool_latency :: "string \<Rightarrow> json \<Rightarrow> time option"
  ap_latency :: "string \<Rightarrow> handler_args \<Rightarrow> time option"

definition worker_rag :: "'n ai_params \<Rightarrow> 's embedder \<Rightarrow> (rag_config \<times> 's embedder \<times> point list) option" where
  "worker_rag pa emb = map_option (\<lambda>(cfg, ps). (cfg, emb, ps)) (ap_rag pa)"

definition worker_tools :: "'n ai_params \<Rightarrow> 's embedder \<Rightarrow> ('s, 'n) tool_env" where
  "worker_tools pa emb =
     \<lparr>te_rag = worker_rag pa emb, te_db = ap_db pa, te_isValidObjectId = ap_isValidObjectId pa, te_oid_of = ap_oid_of pa, te_arith = ap_arith pa,
      te_number = ap_numeral pa, te_calc_message = ap_calc_message pa, te_issues = ap_issues pa, te_schema_text = ap_schema_text pa,
      te_latency = ap_tool_latency pa\<rparr>"

definition worker_deps :: "'n ai_params \<Rightarrow> 's model \<Rightarrow> 's embedder \<Rightarrow> 's ai_deps" where
  "worker_deps pa m emb =
     \<lparr>ad_env = \<lparr>ai_model = m, ai_json_parse = ap_json_parse pa, ai_issues = ap_issues pa, ai_schema_text = ap_schema_text pa,
                ai_classifier_prompt = ap_classifier_prompt pa\<rparr>,
      ad_models = ap_models pa, ad_string = ap_string pa, ad_number = ap_number pa, ad_stringify = ap_stringify pa, ad_aborted = ap_aborted pa,
      ad_rag = worker_rag pa emb, ad_tools = Some (createToolRegistry (worker_tools pa emb)), ad_getUserRole = ap_getUserRole pa,
      ad_latency = ap_latency pa\<rparr>"

section \<open>Computations that add rows\<close>

text \<open>A computation on a state with a log does what another does on the state alone, and only appends to the log.\<close>

definition adds_rows :: "('s \<times> 'l list \<Rightarrow> 'r \<times> 's \<times> 'l list) \<Rightarrow> ('s \<Rightarrow> 'r \<times> 's) \<Rightarrow> bool" where
  "adds_rows f' f \<longleftrightarrow> (\<forall>s log. \<exists>rows. f' (s, log) = (fst (f s), snd (f s), log @ rows))"

lemma adds_return: "adds_rows (\<lambda>st. (r, st)) (\<lambda>s. (r, s))"
  by (simp add: adds_rows_def)

lemma adds_bind:
  assumes "adds_rows f' f" "\<And>r. adds_rows (g' r) (g r)"
  shows "adds_rows (\<lambda>st. case f' st of (r, st') \<Rightarrow> g' r st') (\<lambda>s. case f s of (r, s') \<Rightarrow> g r s')"
  unfolding adds_rows_def
proof (intro allI)
  fix s log
  obtain r s1 where f: "f s = (r, s1)" by fastforce
  then obtain rows where 1: "f' (s, log) = (r, s1, log @ rows)" using assms(1) unfolding adds_rows_def by (metis fst_conv snd_conv)
  obtain rows2 where "g' r (s1, log @ rows) = (fst (g r s1), snd (g r s1), (log @ rows) @ rows2)"
    using assms(2)[of r] unfolding adds_rows_def by blast
  then show "\<exists>rows. (case f' (s, log) of (r, st') \<Rightarrow> g' r st') = (fst (case f s of (r, s') \<Rightarrow> g r s'), snd (case f s of (r, s') \<Rightarrow> g r s'), log @ rows)"
    using f 1 by simp
qed

lemma adds_if: "(b \<Longrightarrow> adds_rows f' f) \<Longrightarrow> (\<not> b \<Longrightarrow> adds_rows g' g) \<Longrightarrow> adds_rows (\<lambda>st. if b then f' st else g' st) (\<lambda>s. if b then f s else g s)"
  by (cases b) simp_all

lemma adds_sum:
  "(\<And>e. x = Inl e \<Longrightarrow> adds_rows (f' e) (f e)) \<Longrightarrow> (\<And>y. x = Inr y \<Longrightarrow> adds_rows (g' y) (g y))
     \<Longrightarrow> adds_rows (\<lambda>st. case x of Inl e \<Rightarrow> f' e st | Inr y \<Rightarrow> g' y st) (\<lambda>s. case x of Inl e \<Rightarrow> f e s | Inr y \<Rightarrow> g y s)"
  by (cases x) simp_all

lemma adds_option:
  "(x = None \<Longrightarrow> adds_rows f' f) \<Longrightarrow> (\<And>y. x = Some y \<Longrightarrow> adds_rows (g' y) (g y))
     \<Longrightarrow> adds_rows (\<lambda>st. case x of None \<Rightarrow> f' st | Some y \<Rightarrow> g' y st) (\<lambda>s. case x of None \<Rightarrow> f s | Some y \<Rightarrow> g y s)"
  by (cases x) simp_all

lemma adds_list:
  "adds_rows f' f \<Longrightarrow> (\<And>y ys. adds_rows (g' y ys) (g y ys))
     \<Longrightarrow> adds_rows (\<lambda>st. case x of [] \<Rightarrow> f' st | y # ys \<Rightarrow> g' y ys st) (\<lambda>s. case x of [] \<Rightarrow> f s | y # ys \<Rightarrow> g y ys s)"
  by (cases x) simp_all

lemma adds_pair:
  "(\<And>y z. adds_rows (g' y z) (g y z)) \<Longrightarrow> adds_rows (\<lambda>st. case x of (y, z) \<Rightarrow> g' y z st) (\<lambda>s. case x of (y, z) \<Rightarrow> g y z s)"
  by (cases x) simp_all

lemma adds_move:
  "(\<And>a b c. adds_rows (f' a b c) (f a b c)) \<Longrightarrow> (\<And>a b. adds_rows (g' a b) (g a b))
     \<Longrightarrow> adds_rows (\<lambda>st. case x of Use_Tool a b c \<Rightarrow> f' a b c st | Give_Answer a b \<Rightarrow> g' a b st)
           (\<lambda>s. case x of Use_Tool a b c \<Rightarrow> f a b c s | Give_Answer a b \<Rightarrow> g a b s)"
  by (cases x) simp_all

lemma adds_settlement:
  "(\<And>v. adds_rows (f' v) (f v)) \<Longrightarrow> (\<And>e. adds_rows (g' e) (g e))
     \<Longrightarrow> adds_rows (\<lambda>st. case x of Fulfilled v \<Rightarrow> f' v st | Rejected e \<Rightarrow> g' e st) (\<lambda>s. case x of Fulfilled v \<Rightarrow> f v s | Rejected e \<Rightarrow> g e s)"
  by (cases x) simp_all

lemmas adds_intros = adds_return adds_if adds_sum adds_option adds_list adds_move adds_settlement adds_bind

lemma adds_observe: "adds_rows (observe ob lat op call model q) (call model q)"
  by (auto simp: adds_rows_def observe_def Let_def split: prod.splits)

section \<open>The components on observed providers\<close>

lemma adds_model: "adds_rows (as_model (observe ob lat op call) model messages) (as_model call model messages)"
  unfolding as_model_def by (rule adds_bind[OF adds_observe]) (rule adds_return)

lemma adds_embedder: "adds_rows (as_embedder (observe ob lat op call) model texts) (as_embedder call model texts)"
  unfolding as_embedder_def by (rule adds_bind[OF adds_observe]) (rule adds_return)

lemma adds_structured_loop:
  assumes "\<And>model messages. adds_rows (m' model messages) (m model messages)"
  shows "adds_rows (structured_loop m' jp schema model n attempt messages us) (structured_loop m jp schema model n attempt messages us)"
proof (induction n arbitrary: attempt messages us)
  case 0
  show ?case by (simp add: adds_rows_def)
next
  case (Suc n)
  show ?case unfolding structured_loop.simps Let_def by (intro adds_intros assms Suc.IH)
qed

lemma adds_generate:
  assumes "\<And>model messages. adds_rows (m' model messages) (m model messages)"
  shows "adds_rows (generateStructured m' jp schema model sys user n) (generateStructured m jp schema model sys user n)"
  unfolding generateStructured_def by (rule adds_structured_loop[OF assms])

lemma adds_retrieve:
  assumes "\<And>model texts. adds_rows (emb' model texts) (emb model texts)"
  shows "adds_rows (retrieve cfg emb' ps owner q k) (retrieve cfg emb ps owner q k)"
  unfolding retrieve_def Let_def by (intro adds_intros assms)

lemma adds_answer:
  assumes "\<And>model messages. adds_rows (m' model messages) (m model messages)" "\<And>model texts. adds_rows (emb' model texts) (emb model texts)"
  shows "adds_rows (answer cfg emb' m' jp issues st ps owner q model) (answer cfg emb m jp issues st ps owner q model)"
  unfolding answer_def Let_def by (intro adds_intros adds_retrieve adds_generate assms)

lemma adds_search:
  assumes "\<And>model texts. adds_rows (emb' model texts) (emb model texts)"
  shows "adds_rows (search_knowledge_base (worker_tools pa emb') args owner) (search_knowledge_base (worker_tools pa emb) args owner)"
proof (cases "ap_rag pa")
  case None
  then show ?thesis by (simp add: search_knowledge_base_def worker_tools_def worker_rag_def adds_rows_def)
next
  case (Some r)
  obtain cfg ps where r: "ap_rag pa = Some (cfg, ps)" using Some by (cases r) simp
  have "te_rag (worker_tools pa emb') = Some (cfg, emb', ps)" "te_rag (worker_tools pa emb) = Some (cfg, emb, ps)"
    by (simp_all add: worker_tools_def worker_rag_def r)
  then show ?thesis unfolding search_knowledge_base_def Let_def
    by (simp only: option.case prod.case) (intro adds_intros adds_retrieve assms)
qed

text \<open>Two tools of which one only adds rows.\<close>

definition tool_adds :: "('s \<times> 'l list) tool \<Rightarrow> 's tool \<Rightarrow> bool" where
  "tool_adds t' t \<longleftrightarrow> tl_description t' = tl_description t \<and> tl_schema t' = tl_schema t \<and> tl_permission t' = tl_permission t
     \<and> tl_timeoutMs t' = tl_timeoutMs t \<and> (\<forall>args owner. adds_rows (tl_run t' args owner) (tl_run t args owner))"

abbreviation tools_add :: "(string \<times> ('s \<times> 'l list) tool) list \<Rightarrow> (string \<times> 's tool) list \<Rightarrow> bool" where
  "tools_add \<equiv> list_all2 (rel_prod (=) tool_adds)"

lemma adds_run_tool:
  assumes "tool_adds t' t"
  shows "adds_rows (run_tool t' name args owner) (run_tool t name args owner)"
proof -
  have t: "tl_schema t' = tl_schema t" "tl_timeoutMs t' = tl_timeoutMs t" "adds_rows (tl_run t' args owner) (tl_run t args owner)" for args owner
    using assms by (auto simp: tool_adds_def)
  show ?thesis unfolding run_tool_def t(1,2) by (intro adds_intros t(3))
qed

lemma tools_add_lookup: "tools_add ts' ts \<Longrightarrow> rel_option tool_adds (map_of ts' n) (map_of ts n)"
  by (induction rule: list_all2_induct) auto

lemma adds_call_tool:
  assumes "tools_add ts' ts"
  shows "adds_rows (call_tool ts' name args owner) (call_tool ts name args owner)"
  using tools_add_lookup[OF assms, of name]
  by (cases "map_of ts' name"; cases "map_of ts name") (simp_all add: call_tool_def[abs_def] adds_run_tool adds_return)

lemma tools_add_texts:
  assumes "tools_add ts' ts"
  shows "map fst ts' = map fst ts" "agent_system ts' = agent_system ts"
proof -
  show "map fst ts' = map fst ts" using assms by (induction rule: list_all2_induct) auto
  have "map (\<lambda>(n, t). ''- '' @ n @ '': '' @ tl_description t @ '' Args JSON Schema: '' @ sc_json (tl_schema t)) ts'
    = map (\<lambda>(n, t). ''- '' @ n @ '': '' @ tl_description t @ '' Args JSON Schema: '' @ sc_json (tl_schema t)) ts"
    using assms by (induction rule: list_all2_induct) (auto simp: tool_adds_def)
  then show "agent_system ts' = agent_system ts" by (simp add: agent_system_def tool_docs_def)
qed

text \<open>Two runs of an agent with the same parameters but for the model.\<close>

definition run_adds :: "('s \<times> 'l list) agent_run \<Rightarrow> 's agent_run \<Rightarrow> bool" where
  "run_adds ag' ag \<longleftrightarrow> ag_json_parse ag' = ag_json_parse ag \<and> ag_stringify ag' = ag_stringify ag \<and> ag_issues ag' = ag_issues ag
     \<and> ag_schema_text ag' = ag_schema_text ag \<and> ag_aborted ag' = ag_aborted ag \<and> ag_model_name ag' = ag_model_name ag \<and> ag_owner ag' = ag_owner ag
     \<and> (\<forall>model messages. adds_rows (ag_model ag' model messages) (ag_model ag model messages))"

lemma adds_agent_loop:
  assumes "run_adds ag' ag" "tools_add ts' ts"
  shows "adds_rows (agent_loop ag' ts' n i transcript steps us lastKey) (agent_loop ag ts n i transcript steps us lastKey)"
proof -
  have ag: "ag_json_parse ag' = ag_json_parse ag" "ag_stringify ag' = ag_stringify ag" "ag_aborted ag' = ag_aborted ag"
    "ag_model_name ag' = ag_model_name ag" "ag_owner ag' = ag_owner ag" "step_schema ag' ts' = step_schema ag ts"
    "\<And>model messages. adds_rows (ag_model ag' model messages) (ag_model ag model messages)"
    using assms(1) tools_add_texts(1)[OF assms(2)] by (auto simp: run_adds_def step_schema_def)
  show ?thesis
  proof (induction n arbitrary: i transcript steps us lastKey)
    case 0
    show ?case by (simp add: adds_rows_def)
  next
    case (Suc n)
    show ?case unfolding agent_loop.simps Let_def ag(1-6) tools_add_texts(2)[OF assms(2)]
      by (intro adds_intros adds_pair adds_generate ag(7) adds_call_tool[OF assms(2)] Suc.IH)
  qed
qed

abbreviation selected_add :: "(string \<times> ('s \<times> 'l list) tool option) list \<Rightarrow> (string \<times> 's tool option) list \<Rightarrow> bool" where
  "selected_add \<equiv> list_all2 (rel_prod (=) (rel_option tool_adds))"

lemma adds_runAgent:
  assumes "run_adds ag' ag" "selected_add ts' ts"
  shows "adds_rows (runAgent ag' ts' goal n) (runAgent ag ts goal n)"
proof -
  have e: "ts' = [] \<longleftrightarrow> ts = []" "None \<in> snd ` set ts' \<longleftrightarrow> None \<in> snd ` set ts"
    using assms(2) by (induction rule: list_all2_induct) (auto simp: rel_option_iff split: option.splits)
  have tl: "tools_add (map (\<lambda>(n, t). (n, the t)) ts') (map (\<lambda>(n, t). (n, the t)) ts)" if "None \<notin> snd ` set ts"
    using assms(2) that by (induction rule: list_all2_induct) (auto simp: rel_option_iff split: option.splits)
  show ?thesis unfolding runAgent_def[abs_def] e by (intro adds_if adds_return adds_agent_loop[OF assms(1)] tl)
qed

lemma selection_adds:
  assumes "tools_add reg' reg"
  shows "rel_sum (=) (rel_prod selected_add (=)) (selectTools reg' al role) (selectTools reg al role)"
proof -
  have look: "rel_option tool_adds (map_of reg' n) (map_of reg n)" for n by (rule tools_add_lookup[OF assms])
  have upd: "selected_add al' al \<Longrightarrow> rel_option tool_adds t' t \<Longrightarrow> selected_add (AList.update n t' al') (AList.update n t al)" for al' al n t' t
    by (induction rule: list_all2_induct) auto
  have loop: "rel_sum (=) (rel_prod selected_add (=)) (select_loop reg' role ns al' de) (select_loop reg role ns al de)" if "selected_add al' al" for ns al' al de
    using that
  proof (induction ns arbitrary: al' al de)
    case (Cons n ns)
    show ?case
    proof (cases "map_of reg n")
      case None
      then have n: "map_of reg' n = None" using look[of n] by simp
      show ?thesis using Cons.IH[OF Cons.prems] Cons.IH[OF upd[OF Cons.prems, of None None]] None n by (cases "n = ''__proto__''") auto
    next
      case (Some t)
      then obtain t' where t': "map_of reg' n = Some t'" "tool_adds t' t" using look[of n] by (cases "map_of reg' n") auto
      have p: "tl_permission t' = tl_permission t" using t'(2) by (simp add: tool_adds_def)
      show ?thesis using Cons.IH[OF Cons.prems] Cons.IH[OF upd[OF Cons.prems, of "Some t'" "Some t"]] Some t' p
        by (auto split: option.splits sum.splits)
    qed
  qed simp
  have known: "map_of reg' n = None \<longleftrightarrow> map_of reg n = None" for n using look[of n] by (cases "map_of reg n"; cases "map_of reg' n") simp_all
  have chosen: "rel_sum (=) (rel_prod selected_add (=)) (select_loop reg' role ns [] []) (select_loop reg role ns [] [])" for ns by (rule loop) simp
  show ?thesis unfolding selectTools_def Let_def known tools_add_texts(1)[OF assms] by (simp only: rel_sum_simps chosen split: if_split) blast
qed

lemma registry_adds:
  fixes emb :: "'s embedder" and emb' :: "('s \<times> 'l list) embedder"
  assumes "\<And>model texts. adds_rows (emb' model texts) (emb model texts)"
  shows "tools_add (createToolRegistry (worker_tools pa emb')) (createToolRegistry (worker_tools pa emb))"
proof -
  have s: "adds_rows (\<lambda>st. case search_knowledge_base (worker_tools pa emb') args owner st of (v, st') \<Rightarrow> (settled_in l v, st'))
      (\<lambda>s. case search_knowledge_base (worker_tools pa emb) args owner s of (v, s') \<Rightarrow> (settled_in l v, s'))" for args owner l
    by (rule adds_bind[OF adds_search[OF assms]]) (rule adds_return)
  have flds: "te_db (worker_tools pa e) = ap_db pa" "te_oid_of (worker_tools pa e) = ap_oid_of pa" "te_arith (worker_tools pa e) = ap_arith pa"
    "te_number (worker_tools pa e) = ap_numeral pa" "te_calc_message (worker_tools pa e) = ap_calc_message pa" for e :: "'s embedder"
    by (simp_all add: worker_tools_def)
  have flds': "te_db (worker_tools pa e) = ap_db pa" "te_oid_of (worker_tools pa e) = ap_oid_of pa" "te_arith (worker_tools pa e) = ap_arith pa"
    "te_number (worker_tools pa e) = ap_numeral pa" "te_calc_message (worker_tools pa e) = ap_calc_message pa" for e :: "('s \<times> 'l list) embedder"
    by (simp_all add: worker_tools_def)
  have w: "get_workflow_status (worker_tools pa emb') = get_workflow_status (worker_tools pa emb)" "calculator (worker_tools pa emb') = calculator (worker_tools pa emb)"
    unfolding get_workflow_status_def[abs_def] calculator_def[abs_def] flds flds' by (rule refl)+
  have rest: "te_issues (worker_tools pa emb') = te_issues (worker_tools pa emb)" "te_schema_text (worker_tools pa emb') = te_schema_text (worker_tools pa emb)"
    "te_latency (worker_tools pa emb') = te_latency (worker_tools pa emb)" "te_isValidObjectId (worker_tools pa emb') = te_isValidObjectId (worker_tools pa emb)"
    by (simp_all add: worker_tools_def)
  show ?thesis by (simp add: createToolRegistry_def tool_adds_def s w rest adds_return Let_def)
qed

section \<open>The handlers on observed providers\<close>

text \<open>Two environments that differ in their model only, one of which adds rows.\<close>

definition env_adds :: "('s \<times> 'l list) ai_env \<Rightarrow> 's ai_env \<Rightarrow> bool" where
  "env_adds e' e \<longleftrightarrow> ai_json_parse e' = ai_json_parse e \<and> ai_issues e' = ai_issues e \<and> ai_schema_text e' = ai_schema_text e
     \<and> ai_classifier_prompt e' = ai_classifier_prompt e \<and> (\<forall>model messages. adds_rows (ai_model e' model messages) (ai_model e model messages))"

lemma env_addsD:
  assumes "env_adds e' e"
  shows "ai_json_parse e' = ai_json_parse e" "ai_issues e' = ai_issues e" "ai_schema_text e' = ai_schema_text e"
    "ai_classifier_prompt e' = ai_classifier_prompt e" "adds_rows (ai_model e' model messages) (ai_model e model messages)"
  using assms by (auto simp: env_adds_def)

lemma adds_classify:
  assumes "env_adds e' e"
  shows "adds_rows (classifyTask e' model t fb) (classifyTask e model t fb)"
  unfolding classifyTask_def[abs_def] env_addsD(1-4)[OF assms] by (intro adds_intros adds_generate env_addsD(5)[OF assms])

lemma adds_simple_handlers:
  assumes "env_adds e' e"
  shows "adds_rows (ai_classify e' models ts a) (ai_classify e models ts a)"
    and "adds_rows (ai_route e' models ts a) (ai_route e models ts a)"
    and "adds_rows (ai_generate e' models ts a) (ai_generate e models ts a)"
  unfolding ai_classify_def[abs_def] ai_route_def[abs_def] ai_generate_def[abs_def] Let_def env_addsD(1-3)[OF assms]
  by (intro adds_intros adds_classify[OF assms] adds_generate env_addsD(5)[OF assms])+

lemma adds_rag_handler:
  assumes "env_adds e' e" "\<And>model texts. adds_rows (emb' model texts) (emb model texts)"
  shows "adds_rows (ai_rag e' models ts (worker_rag pa emb') a) (ai_rag e models ts (worker_rag pa emb) a)"
proof (cases "ap_rag pa")
  case None
  then show ?thesis by (simp add: ai_rag_def[abs_def] worker_rag_def adds_return)
next
  case (Some r)
  obtain cfg ps where r: "r = (cfg, ps)" by (cases r)
  show ?thesis unfolding ai_rag_def[abs_def] worker_rag_def Some r env_addsD(1-3)[OF assms(1)] option.map option.case prod.case
    by (intro adds_intros adds_answer env_addsD(5)[OF assms(1)] assms(2))
qed

lemma run_of_adds: "env_adds e' e \<Longrightarrow> run_adds (agent_run_of e' sfy ab model owner) (agent_run_of e sfy ab model owner)"
  by (simp add: run_adds_def agent_run_of_def env_adds_def)

lemma adds_agent_handler:
  assumes "env_adds e' e" "tools_add reg' reg"
  shows "adds_rows (ai_agent e' models ts num sfy ab (Some reg') role_of a) (ai_agent e models ts num sfy ab (Some reg) role_of a)"
proof -
  let ?role = "case role_of (h_ownerId a) of None \<Rightarrow> [] | Some r \<Rightarrow> r"
  let ?sel' = "case allowlist_of ts (field ''tools'' (h_config a)) of Inl err \<Rightarrow> Inl err | Inr al \<Rightarrow> selectTools reg' al ?role"
  let ?sel = "case allowlist_of ts (field ''tools'' (h_config a)) of Inl err \<Rightarrow> Inl err | Inr al \<Rightarrow> selectTools reg al ?role"
  have "rel_sum (=) (rel_prod selected_add (=)) ?sel' ?sel"
    using selection_adds[OF assms(2)] by (cases "allowlist_of ts (field ''tools'' (h_config a))") auto
  then consider err where "?sel' = Inl err" "?sel = Inl err"
    | al' al de where "?sel' = Inr (al', de)" "?sel = Inr (al, de)" "selected_add al' al" by (cases ?sel'; cases ?sel) auto
  then show ?thesis
  proof cases
    case 1
    show ?thesis unfolding ai_agent_def[abs_def] Let_def option.case 1 sum.case by (intro adds_if adds_return)
  next
    case 2
    have none: "al' = [] \<longleftrightarrow> al = []" using 2(3) by auto
    show ?thesis unfolding ai_agent_def[abs_def] Let_def option.case 2(1,2) sum.case prod.case none
      by (intro adds_intros adds_runAgent run_of_adds[OF assms(1)] 2(3))
  qed
qed

text \<open>C28: observation never changes the work. Every AI handler of a worker whose provider is observed returns what it
  returns on the provider alone, with the same effect on the outside world and the circuits, whatever the
  observer records and whichever of its records the database refuses; the only difference is the rows added.\<close>

theorem observation_transparent:
  "list_all2 (\<lambda>(n', h') (n, h). n' = n \<and> (\<forall>a s rows. \<exists>new. h' a (s, rows) = (fst (h a s), snd (h a s), rows @ new)))
     (createAiHandlers (worker_deps pa (as_model (observe ob lat ''chat'' (stack_chat tv cfg ou))) (as_embedder (observe ob lat ''embed'' (stack_embed tv cfg ou)))))
     (createAiHandlers (worker_deps pa (as_model (stack_chat tv cfg ou)) (as_embedder (stack_embed tv cfg ou))))"
proof -
  let ?m' = "as_model (observe ob lat ''chat'' (stack_chat tv cfg ou))" and ?m = "as_model (stack_chat tv cfg ou)"
  let ?b' = "as_embedder (observe ob lat ''embed'' (stack_embed tv cfg ou))" and ?b = "as_embedder (stack_embed tv cfg ou)"
  let ?d' = "worker_deps pa ?m' ?b'" and ?d = "worker_deps pa ?m ?b"
  have e: "env_adds (ad_env ?d') (ad_env ?d)" by (simp add: env_adds_def worker_deps_def adds_model)
  have d: "ad_models ?d' = ad_models ?d" "ad_string ?d' = ad_string ?d" "ad_number ?d' = ad_number ?d" "ad_stringify ?d' = ad_stringify ?d"
    "ad_aborted ?d' = ad_aborted ?d" "ad_getUserRole ?d' = ad_getUserRole ?d" "ad_rag ?d' = worker_rag pa ?b'" "ad_rag ?d = worker_rag pa ?b"
    "ad_tools ?d' = Some (createToolRegistry (worker_tools pa ?b'))" "ad_tools ?d = Some (createToolRegistry (worker_tools pa ?b))"
    by (simp_all add: worker_deps_def)
  have "tools_add (createToolRegistry (worker_tools pa ?b')) (createToolRegistry (worker_tools pa ?b))" by (rule registry_adds[OF adds_embedder])
  note h = adds_simple_handlers[OF e] adds_rag_handler[OF e adds_embedder] adds_agent_handler[OF e this]
  show ?thesis unfolding createAiHandlers_def d adds_rows_def[symmetric]
    by (simp only: list_all2_Cons list_all2_Nil prod.case simp_thms h)
qed

section \<open>What is recorded\<close>

text \<open>The rows of one structured request, when the database stores every row.\<close>

definition rows_account :: "observer \<Rightarrow> ai_execution list \<Rightarrow> bool" where
  "rows_account ob new \<longleftrightarrow> (\<forall>row \<in> set new. ax_context row = ob_context ob \<and> ax_operation row = ''chat''
     \<and> ax_totalTokens row = ax_inputTokens row + ax_outputTokens row)"

definition tokens_total :: "(ai_execution \<Rightarrow> int) \<Rightarrow> ai_execution list \<Rightarrow> int" where
  "tokens_total f rows = sum_list (map f rows)"

lemma as_model_observed:
  assumes "\<forall>row. ob_stored ob row"
  shows "\<exists>row. as_model (observe ob lat ''chat'' call) model messages (s, rows) = (fst (as_model call model messages s), snd (as_model call model messages s), rows @ [row])
     \<and> rows_account ob [row] \<and> (\<forall>re. fst (as_model call model messages s) = Inr re \<longrightarrow> ax_success row
          \<and> ax_inputTokens row = us_inputTokens (re_usage re) \<and> ax_outputTokens row = us_outputTokens (re_usage re))"
proof -
  obtain r s' where c: "call model \<lparr>lq_messages = messages, lq_input = []\<rparr> s = (r, s')" by fastforce
  then show ?thesis using assms
    by (cases r) (simp_all add: as_model_def observe_def Let_def record_of_def rows_account_def)
qed

lemma structured_rows:
  assumes "\<forall>row. ob_stored ob row"
  shows "structured_loop (as_model (observe ob lat ''chat'' call)) jp schema model k attempt messages us (s, rows) = (r, s', rows') \<Longrightarrow>
    \<exists>new. rows' = rows @ new \<and> length new \<le> k \<and> rows_account ob new
     \<and> (\<forall>x. r = Inr x \<longrightarrow> attempt + length new = st_attempts x + 1 \<and> list_all ax_success new
          \<and> us_inputTokens (st_usage x) = us_inputTokens us + tokens_total ax_inputTokens new
          \<and> us_outputTokens (st_usage x) = us_outputTokens us + tokens_total ax_outputTokens new)"
proof (induction k arbitrary: attempt messages us s rows)
  case 0
  then show ?case by (auto simp: rows_account_def)
next
  case (Suc k)
  obtain r1 s1 where m: "as_model call model messages s = (r1, s1)" by fastforce
  then obtain row where row: "as_model (observe ob lat ''chat'' call) model messages (s, rows) = (r1, s1, rows @ [row])" "rows_account ob [row]"
    "\<forall>re. r1 = Inr re \<longrightarrow> ax_success row \<and> ax_inputTokens row = us_inputTokens (re_usage re) \<and> ax_outputTokens row = us_outputTokens (re_usage re)"
    using as_model_observed[OF assms, of lat call model messages s rows] by auto
  show ?case
  proof (cases r1)
    case (Inl e)
    then show ?thesis using Suc.prems row(1,2) by (intro exI[of _ "[row]"]) auto
  next
    case (Inr re)
    show ?thesis
    proof (cases "check_reply jp schema (re_content re)")
      case (Inr y)
      then show ?thesis using Suc.prems row \<open>r1 = Inr re\<close> by (intro exI[of _ "[row]"]) (auto simp: Let_def add_usage_def tokens_total_def)
    next
      case (Inl problem)
      then have "structured_loop (as_model (observe ob lat ''chat'' call)) jp schema model k (attempt + 1)
          (messages @ repair_messages (re_content re) problem) (add_usage us (re_usage re)) (s1, rows @ [row]) = (r, s', rows')"
        using Suc.prems row(1) \<open>r1 = Inr re\<close> by (simp add: Let_def)
      from Suc.IH[OF this] obtain new where "rows' = (rows @ [row]) @ new" "length new \<le> k" "rows_account ob new"
        "\<forall>x. r = Inr x \<longrightarrow> (attempt + 1) + length new = st_attempts x + 1 \<and> list_all ax_success new
          \<and> us_inputTokens (st_usage x) = us_inputTokens (add_usage us (re_usage re)) + tokens_total ax_inputTokens new
          \<and> us_outputTokens (st_usage x) = us_outputTokens (add_usage us (re_usage re)) + tokens_total ax_outputTokens new" by blast
      then show ?thesis using row(2,3) \<open>r1 = Inr re\<close>
        by (intro exI[of _ "row # new"]) (auto simp: rows_account_def add_usage_def tokens_total_def)
    qed
  qed
qed

text \<open>What is recorded is what is charged. A structured request to an observed provider adds at most one row per
  permitted attempt, each with the execution, the task and the owner it was made for; when it
  succeeds there is one row per attempt it reports, none of them an error, and the tokens of the rows add up
  to the usage it reports.\<close>

theorem recorded_usage:
  assumes "\<forall>row. ob_stored ob row"
    "generateStructured (as_model (observe ob lat ''chat'' call)) jp schema model sys user maxRepairs (s, rows) = (r, s', rows')"
  shows "\<exists>new. rows' = rows @ new \<and> length new \<le> maxRepairs + 1 \<and> rows_account ob new
     \<and> (\<forall>x. r = Inr x \<longrightarrow> length new = st_attempts x \<and> list_all ax_success new
          \<and> us_inputTokens (st_usage x) = tokens_total ax_inputTokens new \<and> us_outputTokens (st_usage x) = tokens_total ax_outputTokens new)"
proof -
  obtain new where "rows' = rows @ new \<and> length new \<le> maxRepairs + 1 \<and> rows_account ob new
     \<and> (\<forall>x. r = Inr x \<longrightarrow> 1 + length new = st_attempts x + 1 \<and> list_all ax_success new
          \<and> us_inputTokens (st_usage x) = us_inputTokens no_usage + tokens_total ax_inputTokens new
          \<and> us_outputTokens (st_usage x) = us_outputTokens no_usage + tokens_total ax_outputTokens new)"
    using structured_rows[OF assms(1) assms(2)[unfolded generateStructured_def]] by blast
  then show ?thesis by (intro exI[of _ new]) (simp add: no_usage_def)
qed

definition demo_call :: "string \<Rightarrow> llm_request \<Rightarrow> nat \<Rightarrow> call_result \<times> nat" where
  "demo_call model q s = (Inr \<lparr>an_reply = \<lparr>lr_content = ''{}'', lr_vectors = [], lr_model = model, lr_usage = \<lparr>us_inputTokens = 5, us_outputTokens = 2\<rparr>\<rparr>,
     an_provider = ''p'', an_fallbackUsed = False\<rparr>, s + 1)"

definition demo_observer :: observer where
  "demo_observer = \<lparr>ob_context = \<lparr>ac_executionId = Some 1, ac_taskId = Some 2, ac_ownerId = Some 3, ac_taskType = Some ''ai.generate''\<rparr>, ob_name = ''p'',
     ob_pricing = [], ob_round8 = id, ob_stored = (\<lambda>_. True)\<rparr>"

definition demo_request :: "(js_error + unit structured) \<times> nat \<times> ai_execution list" where
  "demo_request = generateStructured (as_model (observe demo_observer (\<lambda>_. 1) ''chat'' demo_call)) (\<lambda>_. Inr (JObj []))
     \<lparr>sc_parse = (\<lambda>_. Inr ()), sc_json = []\<rparr> ''m'' [] [] 2 (0, [])"

theorem recorded_usage_witness:
  "\<exists>x new. fst demo_request = Inr x \<and> snd (snd demo_request) = [] @ new \<and> length new = 1 \<and> tokens_total ax_inputTokens new = 5 \<and> us_inputTokens (st_usage x) = 5"
proof -
  have e: "extractJson (\<lambda>_. Inr (JObj [])) ''{}'' = Inr (JObj [])" by (simp add: extractJson_def fenced_def Let_def)
  have st: "\<forall>row. ob_stored demo_observer row" by (simp add: demo_observer_def)
  have d: "fst demo_request = Inr \<lparr>st_data = (), st_attempts = 1, st_usage = \<lparr>us_inputTokens = 5, us_outputTokens = 2\<rparr>\<rparr>"
    by (simp add: demo_request_def generateStructured_def numeral_3_eq_3 as_model_def observe_def demo_call_def Let_def check_reply_def e add_usage_def no_usage_def)
  obtain s' rows where r: "demo_request = (Inr \<lparr>st_data = (), st_attempts = 1, st_usage = \<lparr>us_inputTokens = 5, us_outputTokens = 2\<rparr>\<rparr>, s', rows)"
    using d by (metis prod.collapse)
  from recorded_usage[OF st r[unfolded demo_request_def]] show ?thesis unfolding r by auto
qed

end
