(* ===== verification/Wf_Config.thy ===== *)
theory Wf_Config
  imports Wf_Handlers Wf_Provider_Stack Wf_Lock
begin

text \<open>
  The configuration of the processes, \<open>src/config/env.js\<close>: every environment variable with its type, its bounds
  and its default, the two checks across variables, and the object \<open>loadConfig\<close> makes of them; and the periods \<open>src/worker.js\<close> and
  \<open>src/workers/queueWorker.js\<close> derive from it. Parameters are \<open>Number\<close> of a string, \<open>JSON.parse\<close> and the syntax of URLs.
\<close>

section \<open>Variables\<close>

record env_lib =
  el_number :: "string \<Rightarrow> jsnum"
  el_json_parse :: "string \<Rightarrow> string + json"
  el_is_url :: "string \<Rightarrow> bool"

type_synonym source = "string \<Rightarrow> string option"

text \<open>\<open>z.string()\<close> with a check, required, with a default, or optional.\<close>

definition string_var :: "(string \<Rightarrow> bool) \<Rightarrow> string option \<Rightarrow> string option" where
  "string_var P v = Option.bind v (\<lambda>s. if P s then Some s else None)"

definition string_default :: "(string \<Rightarrow> bool) \<Rightarrow> string \<Rightarrow> string option \<Rightarrow> string option" where
  "string_default P d v = (case v of None \<Rightarrow> Some d | Some s \<Rightarrow> if P s then Some s else None)"

definition string_optional :: "(string \<Rightarrow> bool) \<Rightarrow> string option \<Rightarrow> string option option" where
  "string_optional P v = (case v of None \<Rightarrow> Some None | Some s \<Rightarrow> if P s then Some (Some s) else None)"

text \<open>\<open>z.coerce.number().int()\<close> with bounds; integers beyond 53 bits are refused.\<close>

definition MAX_SAFE :: int where
  "MAX_SAFE = 2 ^ 53 - 1"

definition int_var :: "env_lib \<Rightarrow> int \<Rightarrow> int option \<Rightarrow> int \<Rightarrow> string option \<Rightarrow> int option" where
  "int_var lib lo hi d v =
     (case v of
        None \<Rightarrow> Some d
      | Some s \<Rightarrow>
          (case el_number lib s of
             Fin r \<Rightarrow> if of_int \<lfloor>r\<rfloor> = r \<and> \<bar>\<lfloor>r\<rfloor>\<bar> \<le> MAX_SAFE \<and> lo \<le> \<lfloor>r\<rfloor> \<and> (case hi of None \<Rightarrow> True | Some h \<Rightarrow> \<lfloor>r\<rfloor> \<le> h)
                      then Some \<lfloor>r\<rfloor> else None
           | _ \<Rightarrow> None))"

definition rat_var :: "env_lib \<Rightarrow> rat \<Rightarrow> rat \<Rightarrow> rat \<Rightarrow> string option \<Rightarrow> rat option" where
  "rat_var lib lo hi d v =
     (case v of
        None \<Rightarrow> Some d
      | Some s \<Rightarrow> (case el_number lib s of Fin r \<Rightarrow> if lo \<le> r \<and> r \<le> hi then Some r else None | _ \<Rightarrow> None))"

text \<open>The regular expressions.\<close>

definition mongo_uri :: "string \<Rightarrow> bool" where
  "mongo_uri s \<longleftrightarrow> starts_with ''mongodb://'' s \<or> starts_with ''mongodb+srv://'' s"

definition redis_url :: "string \<Rightarrow> bool" where
  "redis_url s \<longleftrightarrow> starts_with ''redis://'' s \<or> starts_with ''rediss://'' s"

definition size_text :: "string \<Rightarrow> bool" where
  "size_text s \<longleftrightarrow> takeWhile is_digit s \<noteq> [] \<and> dropWhile is_digit s \<in> {''b'', ''kb'', ''mb''}"

definition ttl_text :: "string \<Rightarrow> bool" where
  "ttl_text s \<longleftrightarrow> takeWhile is_digit s \<noteq> [] \<and> dropWhile is_digit s \<in> {[], ''s'', ''m'', ''h'', ''d''}"

definition topic_text :: "string \<Rightarrow> bool" where
  "topic_text s \<longleftrightarrow> s \<noteq> [] \<and> list_all (char_in [(65, 90), (97, 122), (48, 57)] ''._-'') s"

datatype trust_proxy = Trust bool | Hops jsnum | Subnets string

definition trust_of :: "env_lib \<Rightarrow> string \<Rightarrow> trust_proxy" where
  "trust_of lib v =
     (if v = ''false'' then Trust False else if v = ''true'' then Trust True
      else if v \<noteq> [] \<and> list_all is_digit v then Hops (el_number lib v) else Subnets v)"

text \<open>\<open>z.record(z.string(), z.object({ inputPer1M, outputPer1M })).parse(JSON.parse(raw))\<close>\<close>

definition price :: "json \<Rightarrow> rat option" where
  "price j = (case j of JNum r \<Rightarrow> if 0 \<le> r then Some r else None | _ \<Rightarrow> None)"

definition pricing_of :: "env_lib \<Rightarrow> string \<Rightarrow> pricing option" where
  "pricing_of lib raw =
     (case el_json_parse lib raw of
        Inr (JObj kvs) \<Rightarrow>
          those (map (\<lambda>(k, j). Option.bind (required price (field ''inputPer1M'' j)) (\<lambda>i.
                               Option.bind (required price (field ''outputPer1M'' j)) (\<lambda>u. Some (k, i, u)))) kvs)
      | _ \<Rightarrow> None)"

text \<open>\<open>s.split(",").map((b) => b.trim())\<close>\<close>

fun split_comma :: "string \<Rightarrow> string \<Rightarrow> string list" where
  "split_comma acc [] = [rev acc]"
| "split_comma acc (c # cs) = (if c = CHR 0x2C then rev acc # split_comma [] cs else split_comma (c # acc) cs)"

section \<open>The schema\<close>

text \<open>One parser per variable, and the object of the parsed values.\<close>

record env =
  ev_env :: string
  ev_port :: int
  ev_logLevel :: string
  ev_mongoUri :: string
  ev_redisUrl :: string
  ev_shutdownTimeoutMs :: int
  ev_bodyLimit :: string
  ev_documentBodyLimit :: string
  ev_rateLimitEnabled :: bool
  ev_trustProxy :: trust_proxy
  ev_accessSecret :: string
  ev_refreshSecret :: string
  ev_accessTtl :: string
  ev_refreshTtl :: string
  ev_bcryptCost :: int
  ev_concurrency :: int
  ev_pollIntervalMs :: int
  ev_claimLeaseMs :: int
  ev_leaseMs :: int
  ev_reconcileIntervalMs :: int
  ev_brokers :: "string list"
  ev_topic :: string
  ev_relayIntervalMs :: int
  ev_provider :: string
  ev_baseUrl :: string
  ev_apiKey :: "string option"
  ev_modelSmall :: string
  ev_modelLarge :: string
  ev_embedding :: string
  ev_llmTimeoutMs :: int
  ev_fallbackBaseUrl :: "string option"
  ev_fallbackApiKey :: "string option"
  ev_fallbackModel :: "string option"
  ev_failureThreshold :: int
  ev_cooldownMs :: int
  ev_pricing :: pricing
  ev_qdrantUrl :: string
  ev_chunkSize :: int
  ev_chunkOverlap :: int
  ev_topK :: int
  ev_minScore :: rat
  ev_tickMs :: int
  ev_staleMs :: int

definition NODE_ENV :: "env_lib \<Rightarrow> string option \<Rightarrow> string option" where
  "NODE_ENV lib = string_default (\<lambda>s. s \<in> {''development'', ''test'', ''production''}) ''development''"

definition PORT :: "env_lib \<Rightarrow> string option \<Rightarrow> int option" where
  "PORT lib = int_var lib 1 (Some 65535) 4000"

definition LOG_LEVEL :: "env_lib \<Rightarrow> string option \<Rightarrow> string option" where
  "LOG_LEVEL lib = string_default (\<lambda>s. s \<in> {''fatal'', ''error'', ''warn'', ''info'', ''debug'', ''trace'', ''silent''}) ''info''"

definition MONGO_URI :: "env_lib \<Rightarrow> string option \<Rightarrow> string option" where
  "MONGO_URI lib = string_var mongo_uri"

definition REDIS_URL :: "env_lib \<Rightarrow> string option \<Rightarrow> string option" where
  "REDIS_URL lib = string_var redis_url"

definition SHUTDOWN_TIMEOUT_MS :: "env_lib \<Rightarrow> string option \<Rightarrow> int option" where
  "SHUTDOWN_TIMEOUT_MS lib = int_var lib 1 None 10000"

definition BODY_LIMIT :: "env_lib \<Rightarrow> string option \<Rightarrow> string option" where
  "BODY_LIMIT lib = string_default size_text ''100kb''"

definition DOCUMENT_BODY_LIMIT :: "env_lib \<Rightarrow> string option \<Rightarrow> string option" where
  "DOCUMENT_BODY_LIMIT lib = string_default size_text ''256kb''"

definition RATE_LIMIT_ENABLED :: "env_lib \<Rightarrow> string option \<Rightarrow> bool option" where
  "RATE_LIMIT_ENABLED lib = map_option (\<lambda>v. v = ''true'') \<circ> string_default (\<lambda>s. s \<in> {''true'', ''false''}) ''true''"

definition TRUST_PROXY :: "env_lib \<Rightarrow> string option \<Rightarrow> trust_proxy option" where
  "TRUST_PROXY lib = map_option (trust_of lib) \<circ> string_default (\<lambda>_. True) ''false''"

definition JWT_ACCESS_SECRET :: "env_lib \<Rightarrow> string option \<Rightarrow> string option" where
  "JWT_ACCESS_SECRET lib = string_var (\<lambda>s. 32 \<le> length s)"

definition JWT_REFRESH_SECRET :: "env_lib \<Rightarrow> string option \<Rightarrow> string option" where
  "JWT_REFRESH_SECRET lib = string_var (\<lambda>s. 32 \<le> length s)"

definition JWT_ACCESS_TTL :: "env_lib \<Rightarrow> string option \<Rightarrow> string option" where
  "JWT_ACCESS_TTL lib = string_default ttl_text ''15m''"

definition JWT_REFRESH_TTL :: "env_lib \<Rightarrow> string option \<Rightarrow> string option" where
  "JWT_REFRESH_TTL lib = string_default ttl_text ''7d''"

definition BCRYPT_COST :: "env_lib \<Rightarrow> string option \<Rightarrow> int option" where
  "BCRYPT_COST lib = int_var lib 4 (Some 15) 12"

definition WORKER_CONCURRENCY :: "env_lib \<Rightarrow> string option \<Rightarrow> int option" where
  "WORKER_CONCURRENCY lib = int_var lib 1 (Some 64) 4"

definition QUEUE_POLL_INTERVAL_MS :: "env_lib \<Rightarrow> string option \<Rightarrow> int option" where
  "QUEUE_POLL_INTERVAL_MS lib = int_var lib 10 (Some 10000) 200"

definition QUEUE_CLAIM_LEASE_MS :: "env_lib \<Rightarrow> string option \<Rightarrow> int option" where
  "QUEUE_CLAIM_LEASE_MS lib = int_var lib 1000 None 30000"

definition LEASE_TTL_MS :: "env_lib \<Rightarrow> string option \<Rightarrow> int option" where
  "LEASE_TTL_MS lib = int_var lib 300 None 15000"

definition RECONCILE_INTERVAL_MS :: "env_lib \<Rightarrow> string option \<Rightarrow> int option" where
  "RECONCILE_INTERVAL_MS lib = int_var lib 100 None 5000"

definition KAFKA_BROKERS :: "env_lib \<Rightarrow> string option \<Rightarrow> (string list) option" where
  "KAFKA_BROKERS lib = map_option (\<lambda>s. map trim (split_comma [] s)) \<circ> string_default (\<lambda>_. True) ''localhost:9095''"

definition KAFKA_TOPIC :: "env_lib \<Rightarrow> string option \<Rightarrow> string option" where
  "KAFKA_TOPIC lib = string_default topic_text ''workflow-events''"

definition OUTBOX_RELAY_INTERVAL_MS :: "env_lib \<Rightarrow> string option \<Rightarrow> int option" where
  "OUTBOX_RELAY_INTERVAL_MS lib = int_var lib 50 None 500"

definition LLM_PROVIDER :: "env_lib \<Rightarrow> string option \<Rightarrow> string option" where
  "LLM_PROVIDER lib = string_default (\<lambda>s. s \<in> {''ollama'', ''openai-compatible'', ''mock''}) ''ollama''"

definition LLM_BASE_URL :: "env_lib \<Rightarrow> string option \<Rightarrow> string option" where
  "LLM_BASE_URL lib = string_default (el_is_url lib) ''http://localhost:11434''"

definition LLM_API_KEY :: "env_lib \<Rightarrow> string option \<Rightarrow> (string option) option" where
  "LLM_API_KEY lib = string_optional (\<lambda>_. True)"

definition LLM_MODEL_SMALL :: "env_lib \<Rightarrow> string option \<Rightarrow> string option" where
  "LLM_MODEL_SMALL lib = string_default (\<lambda>_. True) ''qwen2.5:0.5b''"

definition LLM_MODEL_LARGE :: "env_lib \<Rightarrow> string option \<Rightarrow> string option" where
  "LLM_MODEL_LARGE lib = string_default (\<lambda>_. True) ''qwen2.5:0.5b''"

definition EMBEDDING_MODEL :: "env_lib \<Rightarrow> string option \<Rightarrow> string option" where
  "EMBEDDING_MODEL lib = string_default (\<lambda>_. True) ''nomic-embed-text''"

definition LLM_TIMEOUT_MS :: "env_lib \<Rightarrow> string option \<Rightarrow> int option" where
  "LLM_TIMEOUT_MS lib = int_var lib 1000 None 60000"

definition LLM_FALLBACK_BASE_URL :: "env_lib \<Rightarrow> string option \<Rightarrow> (string option) option" where
  "LLM_FALLBACK_BASE_URL lib = string_optional (el_is_url lib)"

definition LLM_FALLBACK_API_KEY :: "env_lib \<Rightarrow> string option \<Rightarrow> (string option) option" where
  "LLM_FALLBACK_API_KEY lib = string_optional (\<lambda>_. True)"

definition LLM_FALLBACK_MODEL :: "env_lib \<Rightarrow> string option \<Rightarrow> (string option) option" where
  "LLM_FALLBACK_MODEL lib = string_optional (\<lambda>_. True)"

definition LLM_BREAKER_FAILURES :: "env_lib \<Rightarrow> string option \<Rightarrow> int option" where
  "LLM_BREAKER_FAILURES lib = int_var lib 1 None 3"

definition LLM_BREAKER_COOLDOWN_MS :: "env_lib \<Rightarrow> string option \<Rightarrow> int option" where
  "LLM_BREAKER_COOLDOWN_MS lib = int_var lib 1000 None 30000"

definition LLM_PRICING_JSON :: "env_lib \<Rightarrow> string option \<Rightarrow> pricing option" where
  "LLM_PRICING_JSON lib = (\<lambda>v. Option.bind (string_default (\<lambda>_. True) ''{}'' v) (pricing_of lib))"

definition QDRANT_URL :: "env_lib \<Rightarrow> string option \<Rightarrow> string option" where
  "QDRANT_URL lib = string_default (el_is_url lib) ''http://localhost:6333''"

definition RAG_CHUNK_SIZE :: "env_lib \<Rightarrow> string option \<Rightarrow> int option" where
  "RAG_CHUNK_SIZE lib = int_var lib 100 (Some 8000) 800"

definition RAG_CHUNK_OVERLAP :: "env_lib \<Rightarrow> string option \<Rightarrow> int option" where
  "RAG_CHUNK_OVERLAP lib = int_var lib 0 (Some 2000) 100"

definition RAG_TOP_K :: "env_lib \<Rightarrow> string option \<Rightarrow> int option" where
  "RAG_TOP_K lib = int_var lib 1 (Some 20) 4"

definition RAG_MIN_SCORE :: "env_lib \<Rightarrow> string option \<Rightarrow> rat option" where
  "RAG_MIN_SCORE lib = rat_var lib 0 1 (1 / 2)"

definition SCHEDULER_TICK_MS :: "env_lib \<Rightarrow> string option \<Rightarrow> int option" where
  "SCHEDULER_TICK_MS lib = int_var lib 100 None 5000"

definition RECONCILE_STALE_MS :: "env_lib \<Rightarrow> string option \<Rightarrow> int option" where
  "RECONCILE_STALE_MS lib = int_var lib 100 None 10000"

lemmas variable_defs = NODE_ENV_def PORT_def LOG_LEVEL_def MONGO_URI_def REDIS_URL_def SHUTDOWN_TIMEOUT_MS_def BODY_LIMIT_def DOCUMENT_BODY_LIMIT_def RATE_LIMIT_ENABLED_def TRUST_PROXY_def JWT_ACCESS_SECRET_def JWT_REFRESH_SECRET_def JWT_ACCESS_TTL_def JWT_REFRESH_TTL_def BCRYPT_COST_def WORKER_CONCURRENCY_def QUEUE_POLL_INTERVAL_MS_def QUEUE_CLAIM_LEASE_MS_def LEASE_TTL_MS_def RECONCILE_INTERVAL_MS_def KAFKA_BROKERS_def KAFKA_TOPIC_def OUTBOX_RELAY_INTERVAL_MS_def LLM_PROVIDER_def LLM_BASE_URL_def LLM_API_KEY_def LLM_MODEL_SMALL_def LLM_MODEL_LARGE_def EMBEDDING_MODEL_def LLM_TIMEOUT_MS_def LLM_FALLBACK_BASE_URL_def LLM_FALLBACK_API_KEY_def LLM_FALLBACK_MODEL_def LLM_BREAKER_FAILURES_def LLM_BREAKER_COOLDOWN_MS_def LLM_PRICING_JSON_def QDRANT_URL_def RAG_CHUNK_SIZE_def RAG_CHUNK_OVERLAP_def RAG_TOP_K_def RAG_MIN_SCORE_def SCHEDULER_TICK_MS_def RECONCILE_STALE_MS_def

text \<open>The names of the variables whose values are refused, all of them.\<close>

definition problems :: "env_lib \<Rightarrow> source \<Rightarrow> string list" where
  "problems lib src = map fst (filter snd
     [(''NODE_ENV'', NODE_ENV lib (src ''NODE_ENV'') = None),
      (''PORT'', PORT lib (src ''PORT'') = None),
      (''LOG_LEVEL'', LOG_LEVEL lib (src ''LOG_LEVEL'') = None),
      (''MONGO_URI'', MONGO_URI lib (src ''MONGO_URI'') = None),
      (''REDIS_URL'', REDIS_URL lib (src ''REDIS_URL'') = None),
      (''SHUTDOWN_TIMEOUT_MS'', SHUTDOWN_TIMEOUT_MS lib (src ''SHUTDOWN_TIMEOUT_MS'') = None),
      (''BODY_LIMIT'', BODY_LIMIT lib (src ''BODY_LIMIT'') = None),
      (''DOCUMENT_BODY_LIMIT'', DOCUMENT_BODY_LIMIT lib (src ''DOCUMENT_BODY_LIMIT'') = None),
      (''RATE_LIMIT_ENABLED'', RATE_LIMIT_ENABLED lib (src ''RATE_LIMIT_ENABLED'') = None),
      (''TRUST_PROXY'', TRUST_PROXY lib (src ''TRUST_PROXY'') = None),
      (''JWT_ACCESS_SECRET'', JWT_ACCESS_SECRET lib (src ''JWT_ACCESS_SECRET'') = None),
      (''JWT_REFRESH_SECRET'', JWT_REFRESH_SECRET lib (src ''JWT_REFRESH_SECRET'') = None),
      (''JWT_ACCESS_TTL'', JWT_ACCESS_TTL lib (src ''JWT_ACCESS_TTL'') = None),
      (''JWT_REFRESH_TTL'', JWT_REFRESH_TTL lib (src ''JWT_REFRESH_TTL'') = None),
      (''BCRYPT_COST'', BCRYPT_COST lib (src ''BCRYPT_COST'') = None),
      (''WORKER_CONCURRENCY'', WORKER_CONCURRENCY lib (src ''WORKER_CONCURRENCY'') = None),
      (''QUEUE_POLL_INTERVAL_MS'', QUEUE_POLL_INTERVAL_MS lib (src ''QUEUE_POLL_INTERVAL_MS'') = None),
      (''QUEUE_CLAIM_LEASE_MS'', QUEUE_CLAIM_LEASE_MS lib (src ''QUEUE_CLAIM_LEASE_MS'') = None),
      (''LEASE_TTL_MS'', LEASE_TTL_MS lib (src ''LEASE_TTL_MS'') = None),
      (''RECONCILE_INTERVAL_MS'', RECONCILE_INTERVAL_MS lib (src ''RECONCILE_INTERVAL_MS'') = None),
      (''KAFKA_BROKERS'', KAFKA_BROKERS lib (src ''KAFKA_BROKERS'') = None),
      (''KAFKA_TOPIC'', KAFKA_TOPIC lib (src ''KAFKA_TOPIC'') = None),
      (''OUTBOX_RELAY_INTERVAL_MS'', OUTBOX_RELAY_INTERVAL_MS lib (src ''OUTBOX_RELAY_INTERVAL_MS'') = None),
      (''LLM_PROVIDER'', LLM_PROVIDER lib (src ''LLM_PROVIDER'') = None),
      (''LLM_BASE_URL'', LLM_BASE_URL lib (src ''LLM_BASE_URL'') = None),
      (''LLM_API_KEY'', LLM_API_KEY lib (src ''LLM_API_KEY'') = None),
      (''LLM_MODEL_SMALL'', LLM_MODEL_SMALL lib (src ''LLM_MODEL_SMALL'') = None),
      (''LLM_MODEL_LARGE'', LLM_MODEL_LARGE lib (src ''LLM_MODEL_LARGE'') = None),
      (''EMBEDDING_MODEL'', EMBEDDING_MODEL lib (src ''EMBEDDING_MODEL'') = None),
      (''LLM_TIMEOUT_MS'', LLM_TIMEOUT_MS lib (src ''LLM_TIMEOUT_MS'') = None),
      (''LLM_FALLBACK_BASE_URL'', LLM_FALLBACK_BASE_URL lib (src ''LLM_FALLBACK_BASE_URL'') = None),
      (''LLM_FALLBACK_API_KEY'', LLM_FALLBACK_API_KEY lib (src ''LLM_FALLBACK_API_KEY'') = None),
      (''LLM_FALLBACK_MODEL'', LLM_FALLBACK_MODEL lib (src ''LLM_FALLBACK_MODEL'') = None),
      (''LLM_BREAKER_FAILURES'', LLM_BREAKER_FAILURES lib (src ''LLM_BREAKER_FAILURES'') = None),
      (''LLM_BREAKER_COOLDOWN_MS'', LLM_BREAKER_COOLDOWN_MS lib (src ''LLM_BREAKER_COOLDOWN_MS'') = None),
      (''LLM_PRICING_JSON'', LLM_PRICING_JSON lib (src ''LLM_PRICING_JSON'') = None),
      (''QDRANT_URL'', QDRANT_URL lib (src ''QDRANT_URL'') = None),
      (''RAG_CHUNK_SIZE'', RAG_CHUNK_SIZE lib (src ''RAG_CHUNK_SIZE'') = None),
      (''RAG_CHUNK_OVERLAP'', RAG_CHUNK_OVERLAP lib (src ''RAG_CHUNK_OVERLAP'') = None),
      (''RAG_TOP_K'', RAG_TOP_K lib (src ''RAG_TOP_K'') = None),
      (''RAG_MIN_SCORE'', RAG_MIN_SCORE lib (src ''RAG_MIN_SCORE'') = None),
      (''SCHEDULER_TICK_MS'', SCHEDULER_TICK_MS lib (src ''SCHEDULER_TICK_MS'') = None),
      (''RECONCILE_STALE_MS'', RECONCILE_STALE_MS lib (src ''RECONCILE_STALE_MS'') = None)])"

definition env_of :: "env_lib \<Rightarrow> source \<Rightarrow> env" where
  "env_of lib src =
     \<lparr>ev_env = the (NODE_ENV lib (src ''NODE_ENV'')),
      ev_port = the (PORT lib (src ''PORT'')),
      ev_logLevel = the (LOG_LEVEL lib (src ''LOG_LEVEL'')),
      ev_mongoUri = the (MONGO_URI lib (src ''MONGO_URI'')),
      ev_redisUrl = the (REDIS_URL lib (src ''REDIS_URL'')),
      ev_shutdownTimeoutMs = the (SHUTDOWN_TIMEOUT_MS lib (src ''SHUTDOWN_TIMEOUT_MS'')),
      ev_bodyLimit = the (BODY_LIMIT lib (src ''BODY_LIMIT'')),
      ev_documentBodyLimit = the (DOCUMENT_BODY_LIMIT lib (src ''DOCUMENT_BODY_LIMIT'')),
      ev_rateLimitEnabled = the (RATE_LIMIT_ENABLED lib (src ''RATE_LIMIT_ENABLED'')),
      ev_trustProxy = the (TRUST_PROXY lib (src ''TRUST_PROXY'')),
      ev_accessSecret = the (JWT_ACCESS_SECRET lib (src ''JWT_ACCESS_SECRET'')),
      ev_refreshSecret = the (JWT_REFRESH_SECRET lib (src ''JWT_REFRESH_SECRET'')),
      ev_accessTtl = the (JWT_ACCESS_TTL lib (src ''JWT_ACCESS_TTL'')),
      ev_refreshTtl = the (JWT_REFRESH_TTL lib (src ''JWT_REFRESH_TTL'')),
      ev_bcryptCost = the (BCRYPT_COST lib (src ''BCRYPT_COST'')),
      ev_concurrency = the (WORKER_CONCURRENCY lib (src ''WORKER_CONCURRENCY'')),
      ev_pollIntervalMs = the (QUEUE_POLL_INTERVAL_MS lib (src ''QUEUE_POLL_INTERVAL_MS'')),
      ev_claimLeaseMs = the (QUEUE_CLAIM_LEASE_MS lib (src ''QUEUE_CLAIM_LEASE_MS'')),
      ev_leaseMs = the (LEASE_TTL_MS lib (src ''LEASE_TTL_MS'')),
      ev_reconcileIntervalMs = the (RECONCILE_INTERVAL_MS lib (src ''RECONCILE_INTERVAL_MS'')),
      ev_brokers = the (KAFKA_BROKERS lib (src ''KAFKA_BROKERS'')),
      ev_topic = the (KAFKA_TOPIC lib (src ''KAFKA_TOPIC'')),
      ev_relayIntervalMs = the (OUTBOX_RELAY_INTERVAL_MS lib (src ''OUTBOX_RELAY_INTERVAL_MS'')),
      ev_provider = the (LLM_PROVIDER lib (src ''LLM_PROVIDER'')),
      ev_baseUrl = the (LLM_BASE_URL lib (src ''LLM_BASE_URL'')),
      ev_apiKey = the (LLM_API_KEY lib (src ''LLM_API_KEY'')),
      ev_modelSmall = the (LLM_MODEL_SMALL lib (src ''LLM_MODEL_SMALL'')),
      ev_modelLarge = the (LLM_MODEL_LARGE lib (src ''LLM_MODEL_LARGE'')),
      ev_embedding = the (EMBEDDING_MODEL lib (src ''EMBEDDING_MODEL'')),
      ev_llmTimeoutMs = the (LLM_TIMEOUT_MS lib (src ''LLM_TIMEOUT_MS'')),
      ev_fallbackBaseUrl = the (LLM_FALLBACK_BASE_URL lib (src ''LLM_FALLBACK_BASE_URL'')),
      ev_fallbackApiKey = the (LLM_FALLBACK_API_KEY lib (src ''LLM_FALLBACK_API_KEY'')),
      ev_fallbackModel = the (LLM_FALLBACK_MODEL lib (src ''LLM_FALLBACK_MODEL'')),
      ev_failureThreshold = the (LLM_BREAKER_FAILURES lib (src ''LLM_BREAKER_FAILURES'')),
      ev_cooldownMs = the (LLM_BREAKER_COOLDOWN_MS lib (src ''LLM_BREAKER_COOLDOWN_MS'')),
      ev_pricing = the (LLM_PRICING_JSON lib (src ''LLM_PRICING_JSON'')),
      ev_qdrantUrl = the (QDRANT_URL lib (src ''QDRANT_URL'')),
      ev_chunkSize = the (RAG_CHUNK_SIZE lib (src ''RAG_CHUNK_SIZE'')),
      ev_chunkOverlap = the (RAG_CHUNK_OVERLAP lib (src ''RAG_CHUNK_OVERLAP'')),
      ev_topK = the (RAG_TOP_K lib (src ''RAG_TOP_K'')),
      ev_minScore = the (RAG_MIN_SCORE lib (src ''RAG_MIN_SCORE'')),
      ev_tickMs = the (SCHEDULER_TICK_MS lib (src ''SCHEDULER_TICK_MS'')),
      ev_staleMs = the (RECONCILE_STALE_MS lib (src ''RECONCILE_STALE_MS''))\<rparr>"

text \<open>The checks across variables, which zod makes when every variable is fine.\<close>

definition cross_problems :: "env \<Rightarrow> string list" where
  "cross_problems e =
     (if ev_accessSecret e = ev_refreshSecret e then [''JWT_REFRESH_SECRET''] else [])
     @ (if ev_env e = ''production'' \<and> (starts_with ''change-me'' (ev_accessSecret e) \<or> starts_with ''change-me'' (ev_refreshSecret e))
        then [''JWT_ACCESS_SECRET''] else [])"

section \<open>The configuration\<close>

record config =
  cf_env :: env
  cf_isProduction :: bool
  cf_models :: "string \<times> string \<times> string"
  cf_llm :: llm_config
  cf_llm_pricing :: pricing

text \<open>\<open>env.LLM_FALLBACK_BASE_URL && env.LLM_FALLBACK_MODEL\<close>: both there and not empty.\<close>

definition fallback_of :: "env \<Rightarrow> llm_fallback option" where
  "fallback_of e =
     (case (ev_fallbackBaseUrl e, ev_fallbackModel e) of
        (Some u, Some m) \<Rightarrow> if u \<noteq> [] \<and> m \<noteq> [] then Some \<lparr>lf_baseUrl = u, lf_apiKey = ev_fallbackApiKey e, lf_model = m\<rparr> else None
      | _ \<Rightarrow> None)"

definition config_of :: "env \<Rightarrow> config" where
  "config_of e =
     \<lparr>cf_env = e, cf_isProduction = (ev_env e = ''production''), cf_models = (ev_modelSmall e, ev_modelLarge e, ev_embedding e),
      cf_llm = \<lparr>lc_provider = ev_provider e, lc_baseUrl = ev_baseUrl e, lc_apiKey = ev_apiKey e, lc_timeoutMs = ev_llmTimeoutMs e,
                lc_fallback = fallback_of e,
                lc_breaker = \<lparr>bc_failureThreshold = nat (ev_failureThreshold e), bc_cooldownMs = ev_cooldownMs e\<rparr>\<rparr>,
      cf_llm_pricing = ev_pricing e\<rparr>"

text \<open>The error carries the names, never the values.\<close>

definition loadConfig :: "env_lib \<Rightarrow> source \<Rightarrow> string list + config" where
  "loadConfig lib src =
     (if problems lib src \<noteq> [] then Inl (problems lib src)
      else if cross_problems (env_of lib src) \<noteq> [] then Inl (cross_problems (env_of lib src))
      else Inr (config_of (env_of lib src)))"

section \<open>Derived periods\<close>

text \<open>How often a worker renews leases and heartbeats, and how long the locks of scheduler and relay live.\<close>

definition heartbeat_interval :: "config \<Rightarrow> int" where
  "heartbeat_interval c = max 50 (ev_leaseMs (cf_env c) div 3)"

definition scheduler_ttl :: "config \<Rightarrow> int" where
  "scheduler_ttl c = max 10000 (ev_tickMs (cf_env c) * 3)"

definition relay_ttl :: "config \<Rightarrow> int" where
  "relay_ttl c = max 3000 (ev_relayIntervalMs (cf_env c) * 6)"

section \<open>What a loaded configuration guarantees\<close>

lemma int_var_bounds:
  assumes "int_var lib lo hi d v = Some x" "lo \<le> d" "\<forall>h. hi = Some h \<longrightarrow> d \<le> h"
  shows "lo \<le> x" "\<forall>h. hi = Some h \<longrightarrow> x \<le> h"
  using assms by (auto simp: int_var_def split: option.splits jsnum.splits if_splits)

lemma rat_var_bounds: "rat_var lib lo hi d v = Some x \<Longrightarrow> lo \<le> d \<Longrightarrow> d \<le> hi \<Longrightarrow> lo \<le> x \<and> x \<le> hi"
  by (auto simp: rat_var_def split: option.splits jsnum.splits if_splits)

lemma string_var_ok: "string_var P v = Some s \<Longrightarrow> P s"
  by (auto simp: string_var_def bind_eq_Some_conv split: if_splits)

lemma string_default_ok: "string_default P d v = Some s \<Longrightarrow> P d \<Longrightarrow> P s"
  by (auto simp: string_default_def split: option.splits if_splits)

definition numbers_ok :: "env \<Rightarrow> bool" where
  "numbers_ok e \<longleftrightarrow> 1 \<le> ev_port e \<and> ev_port e \<le> 65535 \<and> 1 \<le> ev_shutdownTimeoutMs e \<and> 4 \<le> ev_bcryptCost e \<and> ev_bcryptCost e \<le> 15
     \<and> 1 \<le> ev_concurrency e \<and> ev_concurrency e \<le> 64 \<and> 10 \<le> ev_pollIntervalMs e \<and> ev_pollIntervalMs e \<le> 10000
     \<and> 1000 \<le> ev_claimLeaseMs e \<and> 300 \<le> ev_leaseMs e \<and> 100 \<le> ev_reconcileIntervalMs e \<and> 100 \<le> ev_staleMs e \<and> 50 \<le> ev_relayIntervalMs e
     \<and> 100 \<le> ev_tickMs e \<and> 1000 \<le> ev_llmTimeoutMs e \<and> 1 \<le> ev_failureThreshold e \<and> 1000 \<le> ev_cooldownMs e
     \<and> 100 \<le> ev_chunkSize e \<and> ev_chunkSize e \<le> 8000 \<and> 0 \<le> ev_chunkOverlap e \<and> ev_chunkOverlap e \<le> 2000
     \<and> 1 \<le> ev_topK e \<and> ev_topK e \<le> 20 \<and> 0 \<le> ev_minScore e \<and> ev_minScore e \<le> 1"

definition texts_ok :: "env \<Rightarrow> bool" where
  "texts_ok e \<longleftrightarrow> ev_env e \<in> {''development'', ''test'', ''production''} \<and> mongo_uri (ev_mongoUri e) \<and> redis_url (ev_redisUrl e)
     \<and> size_text (ev_bodyLimit e) \<and> size_text (ev_documentBodyLimit e) \<and> ttl_text (ev_accessTtl e) \<and> ttl_text (ev_refreshTtl e) \<and> topic_text (ev_topic e)
     \<and> ev_provider e \<in> {''ollama'', ''openai-compatible'', ''mock''}"

definition secrets_ok :: "env \<Rightarrow> bool" where
  "secrets_ok e \<longleftrightarrow> 32 \<le> length (ev_accessSecret e) \<and> 32 \<le> length (ev_refreshSecret e) \<and> ev_accessSecret e \<noteq> ev_refreshSecret e
     \<and> (ev_env e = ''production'' \<longrightarrow> \<not> starts_with ''change-me'' (ev_accessSecret e) \<and> \<not> starts_with ''change-me'' (ev_refreshSecret e))"

lemma variables_fine:
  assumes "problems lib src = []"
  shows "NODE_ENV lib (src ''NODE_ENV'') = Some (ev_env (env_of lib src))"
    "PORT lib (src ''PORT'') = Some (ev_port (env_of lib src))"
    "LOG_LEVEL lib (src ''LOG_LEVEL'') = Some (ev_logLevel (env_of lib src))"
    "MONGO_URI lib (src ''MONGO_URI'') = Some (ev_mongoUri (env_of lib src))"
    "REDIS_URL lib (src ''REDIS_URL'') = Some (ev_redisUrl (env_of lib src))"
    "SHUTDOWN_TIMEOUT_MS lib (src ''SHUTDOWN_TIMEOUT_MS'') = Some (ev_shutdownTimeoutMs (env_of lib src))"
    "BODY_LIMIT lib (src ''BODY_LIMIT'') = Some (ev_bodyLimit (env_of lib src))"
    "DOCUMENT_BODY_LIMIT lib (src ''DOCUMENT_BODY_LIMIT'') = Some (ev_documentBodyLimit (env_of lib src))"
    "RATE_LIMIT_ENABLED lib (src ''RATE_LIMIT_ENABLED'') = Some (ev_rateLimitEnabled (env_of lib src))"
    "TRUST_PROXY lib (src ''TRUST_PROXY'') = Some (ev_trustProxy (env_of lib src))"
    "JWT_ACCESS_SECRET lib (src ''JWT_ACCESS_SECRET'') = Some (ev_accessSecret (env_of lib src))"
    "JWT_REFRESH_SECRET lib (src ''JWT_REFRESH_SECRET'') = Some (ev_refreshSecret (env_of lib src))"
    "JWT_ACCESS_TTL lib (src ''JWT_ACCESS_TTL'') = Some (ev_accessTtl (env_of lib src))"
    "JWT_REFRESH_TTL lib (src ''JWT_REFRESH_TTL'') = Some (ev_refreshTtl (env_of lib src))"
    "BCRYPT_COST lib (src ''BCRYPT_COST'') = Some (ev_bcryptCost (env_of lib src))"
    "WORKER_CONCURRENCY lib (src ''WORKER_CONCURRENCY'') = Some (ev_concurrency (env_of lib src))"
    "QUEUE_POLL_INTERVAL_MS lib (src ''QUEUE_POLL_INTERVAL_MS'') = Some (ev_pollIntervalMs (env_of lib src))"
    "QUEUE_CLAIM_LEASE_MS lib (src ''QUEUE_CLAIM_LEASE_MS'') = Some (ev_claimLeaseMs (env_of lib src))"
    "LEASE_TTL_MS lib (src ''LEASE_TTL_MS'') = Some (ev_leaseMs (env_of lib src))"
    "RECONCILE_INTERVAL_MS lib (src ''RECONCILE_INTERVAL_MS'') = Some (ev_reconcileIntervalMs (env_of lib src))"
    "KAFKA_BROKERS lib (src ''KAFKA_BROKERS'') = Some (ev_brokers (env_of lib src))"
    "KAFKA_TOPIC lib (src ''KAFKA_TOPIC'') = Some (ev_topic (env_of lib src))"
    "OUTBOX_RELAY_INTERVAL_MS lib (src ''OUTBOX_RELAY_INTERVAL_MS'') = Some (ev_relayIntervalMs (env_of lib src))"
    "LLM_PROVIDER lib (src ''LLM_PROVIDER'') = Some (ev_provider (env_of lib src))"
    "LLM_BASE_URL lib (src ''LLM_BASE_URL'') = Some (ev_baseUrl (env_of lib src))"
    "LLM_API_KEY lib (src ''LLM_API_KEY'') = Some (ev_apiKey (env_of lib src))"
    "LLM_MODEL_SMALL lib (src ''LLM_MODEL_SMALL'') = Some (ev_modelSmall (env_of lib src))"
    "LLM_MODEL_LARGE lib (src ''LLM_MODEL_LARGE'') = Some (ev_modelLarge (env_of lib src))"
    "EMBEDDING_MODEL lib (src ''EMBEDDING_MODEL'') = Some (ev_embedding (env_of lib src))"
    "LLM_TIMEOUT_MS lib (src ''LLM_TIMEOUT_MS'') = Some (ev_llmTimeoutMs (env_of lib src))"
    "LLM_FALLBACK_BASE_URL lib (src ''LLM_FALLBACK_BASE_URL'') = Some (ev_fallbackBaseUrl (env_of lib src))"
    "LLM_FALLBACK_API_KEY lib (src ''LLM_FALLBACK_API_KEY'') = Some (ev_fallbackApiKey (env_of lib src))"
    "LLM_FALLBACK_MODEL lib (src ''LLM_FALLBACK_MODEL'') = Some (ev_fallbackModel (env_of lib src))"
    "LLM_BREAKER_FAILURES lib (src ''LLM_BREAKER_FAILURES'') = Some (ev_failureThreshold (env_of lib src))"
    "LLM_BREAKER_COOLDOWN_MS lib (src ''LLM_BREAKER_COOLDOWN_MS'') = Some (ev_cooldownMs (env_of lib src))"
    "LLM_PRICING_JSON lib (src ''LLM_PRICING_JSON'') = Some (ev_pricing (env_of lib src))"
    "QDRANT_URL lib (src ''QDRANT_URL'') = Some (ev_qdrantUrl (env_of lib src))"
    "RAG_CHUNK_SIZE lib (src ''RAG_CHUNK_SIZE'') = Some (ev_chunkSize (env_of lib src))"
    "RAG_CHUNK_OVERLAP lib (src ''RAG_CHUNK_OVERLAP'') = Some (ev_chunkOverlap (env_of lib src))"
    "RAG_TOP_K lib (src ''RAG_TOP_K'') = Some (ev_topK (env_of lib src))"
    "RAG_MIN_SCORE lib (src ''RAG_MIN_SCORE'') = Some (ev_minScore (env_of lib src))"
    "SCHEDULER_TICK_MS lib (src ''SCHEDULER_TICK_MS'') = Some (ev_tickMs (env_of lib src))"
    "RECONCILE_STALE_MS lib (src ''RECONCILE_STALE_MS'') = Some (ev_staleMs (env_of lib src))"
  using assms unfolding problems_def map_is_Nil_conv filter_empty_conv list.set ball_simps snd_conv env_of_def env.select_convs by simp_all

lemmas variable_values = variables_fine[unfolded variable_defs]


definition demo_lib :: env_lib where
  "demo_lib = \<lparr>el_number = (\<lambda>s. if s = ''100'' then Fin 100 else Fin 2000), el_json_parse = (\<lambda>_. Inr (JObj [])), el_is_url = (\<lambda>_. True)\<rparr>"

text \<open>The variables without a default, and a sample of the others.\<close>

definition demo_source :: "(string \<times> string) list \<Rightarrow> source" where
  "demo_source more_vars = map_of ([(''MONGO_URI'', ''mongodb://h/db''), (''REDIS_URL'', ''redis://h''),
     (''JWT_ACCESS_SECRET'', replicate 32 CHR ''a''), (''JWT_REFRESH_SECRET'', replicate 32 CHR ''b'')] @ more_vars)"

lemma demo_loads: "isl (loadConfig demo_lib (demo_source vs)) = False" if "vs = [] \<or> vs = [(''RAG_CHUNK_SIZE'', ''100''), (''RAG_CHUNK_OVERLAP'', ''2000'')]"
proof -
  have l: "el_number demo_lib ''100'' = Fin 100" "el_number demo_lib ''2000'' = Fin 2000" "pricing_of demo_lib ''{}'' = Some []"
    by (simp_all add: demo_lib_def pricing_of_def)
  have p: "problems demo_lib (demo_source vs) = []"
    unfolding problems_def map_is_Nil_conv filter_empty_conv list.set ball_simps snd_conv using that
    by (intro conjI; elim disjE) (simp_all add: variable_defs demo_source_def string_default_def string_var_def string_optional_def int_var_def rat_var_def l
        mongo_uri_def redis_url_def MAX_SAFE_def)
  note v = variable_values[OF p]
  have "ev_accessSecret (env_of demo_lib (demo_source vs)) = replicate 32 CHR ''a''" "ev_refreshSecret (env_of demo_lib (demo_source vs)) = replicate 32 CHR ''b''"
    "ev_env (env_of demo_lib (demo_source vs)) = ''development''"
    using v(1,11,12) that by (auto simp: demo_source_def string_var_def string_default_def)
  then have "cross_problems (env_of demo_lib (demo_source vs)) = []" by (simp add: cross_problems_def)
  then show ?thesis using p by (simp add: loadConfig_def)
qed


text \<open>Nothing compares the overlap of chunks with their size, although the text splitter refuses an overlap that is not smaller.\<close>

lemma overlap_not_compared: "\<exists>src c. loadConfig demo_lib src = Inr c \<and> ev_chunkSize (cf_env c) < ev_chunkOverlap (cf_env c)"
proof -
  let ?src = "demo_source [(''RAG_CHUNK_SIZE'', ''100''), (''RAG_CHUNK_OVERLAP'', ''2000'')]"
  have "\<not> isl (loadConfig demo_lib ?src)" using demo_loads by simp
  then obtain c where c: "loadConfig demo_lib ?src = Inr c" by (cases "loadConfig demo_lib ?src") simp_all
  then have p: "problems demo_lib ?src = []" "c = config_of (env_of demo_lib ?src)" by (auto simp: loadConfig_def split: if_splits)
  have "ev_chunkSize (env_of demo_lib ?src) = 100" "ev_chunkOverlap (env_of demo_lib ?src) = 2000"
    using variable_values(38,39)[OF p(1)] by (simp_all add: demo_source_def int_var_def demo_lib_def MAX_SAFE_def)
  then show ?thesis using c p(2) by (intro exI[of _ ?src] exI[of _ c]) (simp add: config_of_def)
qed

end
