(* ===== verification/Wf_Api.thy ===== *)
theory Wf_Api
  imports Wf_Routes Wf_Rag_Correct Wf_Rate_Limit
begin

text \<open>
  The HTTP API as one function: the middleware chain and the routers of \<open>src/app.js\<close> (identification of the request,
  authentication with the per-user limiter, permissions, validation, controllers, error handler) over the services. The routes of
  workflows and runs are in \<open>Wf_Routes\<close>; here are the remaining schemas, routes and controllers, with status codes.
  Parsing of bodies, headers for browsers, the documentation pages, health checks and analytics are left out.
\<close>

section \<open>Errors and responses\<close>

text \<open>The status and the code of the classes of \<open>src/utils/errors.js\<close>; \<open>None\<close> is an error that is not an \<open>AppError\<close>.\<close>

fun app_error :: "error \<Rightarrow> (nat \<times> string) option" where
  "app_error (ValidationError c) = Some (400, c)"
| "app_error (UnauthorizedError c) = Some (401, c)"
| "app_error (ForbiddenError c) = Some (403, c)"
| "app_error (NotFoundError c) = Some (404, c)"
| "app_error (ConflictError c) = Some (409, c)"
| "app_error (AppError n c) = Some (n, c)"
| "app_error _ = None"

text \<open>What reaches the error handler: an error of the application, or one of the body parser.\<close>

datatype raised = Raised error | Entity_too_large | Entity_parse_failed

definition toHttpError :: "raised \<Rightarrow> nat \<times> string" where
  "toHttpError err = (case err of
     Raised e \<Rightarrow> (case app_error e of Some r \<Rightarrow> r | None \<Rightarrow> (500, ''INTERNAL_ERROR''))
   | Entity_too_large \<Rightarrow> (413, ''PAYLOAD_TOO_LARGE'')
   | Entity_parse_failed \<Rightarrow> (400, ''INVALID_JSON''))"

datatype payload =
    A_Workflow workflow
  | A_Workflows "workflow list" nat
  | A_Analysis dag_result
  | A_Started execution bool
  | A_Execution "execution option"
  | A_Run execution "task list"
  | A_Approvals "approval list"
  | A_Approval "approval option"
  | A_Document document
  | A_Documents "document list"
  | A_Hits "hit list"
  | A_User account
  | A_Session account tokens
  | A_Tokens tokens
  | A_Nothing

text \<open>A response carries the id of its request; an error response nothing but status and code (and the texts that go
  with the code).\<close>

datatype http_response = Success string nat payload | Failure string nat string

definition errorHandler :: "string \<Rightarrow> raised \<Rightarrow> http_response" where
  "errorHandler rid err = (case toHttpError err of (status, code) \<Rightarrow> Failure rid status code)"

text \<open>\<open>/^[A-Za-z0-9._-]{1,128}$/\<close>\<close>

definition SAFE_ID :: "string \<Rightarrow> bool" where
  "SAFE_ID s \<longleftrightarrow> 1 \<le> length s \<and> length s \<le> 128 \<and> list_all (char_in [(65, 90), (97, 122), (48, 57)] ''._-'') s"

definition requestId :: "string \<Rightarrow> string option \<Rightarrow> string" where
  "requestId uuid incoming = (case incoming of Some s \<Rightarrow> if SAFE_ID s then s else uuid | None \<Rightarrow> uuid)"

section \<open>The remaining schemas\<close>

text \<open>\<open>z.string().trim().toLowerCase().pipe(z.email().max(254))\<close>\<close>

definition email_schema :: "(string \<Rightarrow> bool) \<Rightarrow> json \<Rightarrow> string option" where
  "email_schema is_email j = (case j of
     JStr s \<Rightarrow> let e = toLowerCase (trim s) in if is_email e \<and> length e \<le> 254 then Some e else None | _ \<Rightarrow> None)"

text \<open>\<open>Buffer.byteLength(p, "utf8")\<close> of characters up to 255.\<close>

definition byteLength :: "string \<Rightarrow> nat" where
  "byteLength s = sum_list (map (\<lambda>c. if (of_char c :: nat) < 128 then 1 else 2) s)"

definition BCRYPT_MAX_BYTES :: nat where
  "BCRYPT_MAX_BYTES = 72"

definition registerSchema :: "(string \<Rightarrow> bool) \<Rightarrow> json \<Rightarrow> (string \<times> string) option" where
  "registerSchema is_email j =
     Option.bind (parse_object j) (\<lambda>j.
     Option.bind (required (email_schema is_email) (field ''email'' j)) (\<lambda>e.
     Option.bind (required (parse_string (\<lambda>p. 8 \<le> length p \<and> byteLength p \<le> BCRYPT_MAX_BYTES)) (field ''password'' j)) (\<lambda>p. Some (e, p))))"

definition loginSchema :: "(string \<Rightarrow> bool) \<Rightarrow> json \<Rightarrow> (string \<times> string) option" where
  "loginSchema is_email j =
     Option.bind (parse_object j) (\<lambda>j.
     Option.bind (required (email_schema is_email) (field ''email'' j)) (\<lambda>e.
     Option.bind (required (parse_string (\<lambda>p. 1 \<le> length p \<and> length p \<le> 1024)) (field ''password'' j)) (\<lambda>p. Some (e, p))))"

definition refreshSchema :: "json \<Rightarrow> string option" where
  "refreshSchema j = Option.bind (parse_object j) (\<lambda>j. required (parse_string (\<lambda>t. 1 \<le> length t \<and> length t \<le> 4096)) (field ''refreshToken'' j))"

definition changeRoleSchema :: "json \<Rightarrow> string option" where
  "changeRoleSchema j = Option.bind (parse_object j) (\<lambda>j. required (parse_enum [ADMIN, OPERATOR, VIEWER]) (field ''role'' j))"

definition uploadSchema :: "json \<Rightarrow> (string \<times> string \<times> string) option" where
  "uploadSchema j =
     Option.bind (parse_object j) (\<lambda>j.
     Option.bind (required (parse_trimmed (\<lambda>s. 1 \<le> length s \<and> length s \<le> 200)) (field ''title'' j)) (\<lambda>title.
     Option.bind (with_default ''text/plain'' (parse_enum [''text/plain'', ''text/markdown'']) (field ''mimeType'' j)) (\<lambda>mimeType.
     Option.bind (required (parse_string (\<lambda>s. 20 \<le> length s \<and> length s \<le> 200000)) (field ''content'' j)) (\<lambda>content.
       Some (title, mimeType, content)))))"

definition searchSchema :: "json \<Rightarrow> (string \<times> nat) option" where
  "searchSchema j =
     Option.bind (parse_object j) (\<lambda>j.
     Option.bind (required (parse_trimmed (\<lambda>s. 1 \<le> length s \<and> length s \<le> 1000)) (field ''query'' j)) (\<lambda>q.
     Option.bind (with_default 4 (parse_int 1 20) (field ''topK'' j)) (\<lambda>k. Some (q, nat k))))"

definition decideSchema :: "json \<Rightarrow> string option option" where
  "decideSchema j =
     Option.bind (parse_object j) (\<lambda>j. with_default None (map_option Some \<circ> parse_trimmed (\<lambda>s. length s \<le> 1000)) (field ''comment'' j))"

definition approval_listSchema :: "string option \<Rightarrow> approval_status option option" where
  "approval_listSchema s = (case s of None \<Rightarrow> Some None
     | Some v \<Rightarrow> map_option Some (map_of [(''PENDING'', P_PENDING), (''APPROVED'', P_APPROVED), (''REJECTED'', P_REJECTED),
                   (''EXPIRED'', P_EXPIRED), (''CANCELLED'', P_CANCELLED)] v))"

section \<open>Requests and the state of the server\<close>

text \<open>The calls of the API; an id is the text of the path, a body is JSON, a missing one the empty object.\<close>

datatype api_call =
    Post_Register json | Post_Login json | Post_Refresh json
  | Post_Logout | Get_Me | Patch_Role string json
  | Post_Workflow json | Post_Validate json | Get_Workflows "string option" "string option" | Get_Workflow string | Put_Workflow string json
  | Put_Schedule string json | Delete_Schedule string
  | Post_Run string "string option" json | Get_Execution string | Post_Control string action
  | Post_Document json | Get_Documents | Get_Document string | Delete_Document string | Post_Search json
  | Get_Approvals "string option" | Get_Approval string | Post_Decision string bool json

text \<open>What else a request brings: headers, address, the e-mail of its body, the outcome of parsing the body, and the values that are
  random in the code (a request id, and a tag per limiter it passes).\<close>

record http_call =
  hc_authorization :: "string option"
  hc_requestId :: "string option"
  hc_uuid :: string
  hc_ip :: "string option"
  hc_email :: "string option"
  hc_now :: time
  hc_tags :: "nat \<Rightarrow> string"
  hc_body_error :: "raised option"

record ('s, 'q) server =
  sv_workflows :: "workflow list"
  sv_world :: "'q world"
  sv_accounts :: "account list"
  sv_kb :: kb
  sv_models :: 's
  sv_windows :: "string \<Rightarrow> window_key"

text \<open>What the server closes over; \<open>se_limiters\<close> is \<open>None\<close> when rate limiting is off. Fresh ids and the faults of the
  stores are those of the call.\<close>

record ('s, 'q) server_env =
  se_jwt :: jwt
  se_tokens :: token_config
  se_limiters :: "rate_limiters option"
  se_redis_up :: bool
  se_oid_of :: "string \<Rightarrow> oid option"
  se_is_email :: "string \<Rightarrow> bool"
  se_number :: "string \<Rightarrow> int option"
  se_hash :: "string \<Rightarrow> string"
  se_compare :: "string \<Rightarrow> string \<Rightarrow> bool"
  se_dummyHash :: string
  se_sha :: "string \<Rightarrow> string"
  se_scalar :: "json \<Rightarrow> string"
  se_deps :: "'q deps"
  se_known_zone :: "string \<Rightarrow> bool"
  se_parses :: "string \<Rightarrow> string \<Rightarrow> bool"
  se_next_run :: cron_next
  se_rag :: rag_config
  se_embedder :: "'s embedder"
  se_faults :: faults
  se_delete_fault :: "(nat \<times> js_error) option"
  se_new_id :: oid
  se_uuids :: "nat \<Rightarrow> string"

section \<open>Limiters\<close>

definition limit_request :: "http_call \<Rightarrow> user option \<Rightarrow> request" where
  "limit_request hc u = \<lparr>r_ip = hc_ip hc, r_email = hc_email hc, r_user = map_option (\<lambda>u. show_nat (u_id u)) u\<rparr>"

text \<open>The limiters of a request in their order, the first of them the \<open>n\<close>-th of the request.\<close>

fun pass_limiters :: "('s, 'q) server_env \<Rightarrow> http_call \<Rightarrow> user option \<Rightarrow> nat \<Rightarrow> (rate_limiters \<Rightarrow> limiter) list \<Rightarrow> ('s, 'q) server \<Rightarrow> unit result \<times> ('s, 'q) server" where
  "pass_limiters env hc u n [] st = (Inr (), st)"
| "pass_limiters env hc u n (l # ls) st =
     (case se_limiters env of
        None \<Rightarrow> (Inr (), st)
      | Some rl \<Rightarrow>
          (case rateLimitMiddleware ''wf:rl'' (l rl) (se_redis_up env) (hc_tags hc n) (hc_now hc) (limit_request hc u) (sv_windows st) of
             ((Inl err, _), ws) \<Rightarrow> (Inl err, st\<lparr>sv_windows := ws\<rparr>)
           | ((Inr _, _), ws) \<Rightarrow> pass_limiters env hc u (Suc n) ls (st\<lparr>sv_windows := ws\<rparr>)))"

text \<open>The limiters between authentication and the permission, and between the permission and validation. The path of a run starts
  with \<open>/workflows\<close>, so both the router of workflows and the one of executions authenticate it, and the per-user limiter
  counts it twice.\<close>

fun limiters_of :: "api_call \<Rightarrow> (rate_limiters \<Rightarrow> limiter) list" where
  "limiters_of (Post_Run _ _ _) = [api_limiter, api_limiter, run_limiter]"
| "limiters_of _ = [api_limiter]"

fun late_limiters :: "api_call \<Rightarrow> (rate_limiters \<Rightarrow> limiter) list" where
  "late_limiters (Post_Document _) = [upload_limiter]"
| "late_limiters _ = []"

fun permission_of :: "api_call \<Rightarrow> string option" where
  "permission_of (Patch_Role _ _) = Some USER_MANAGE"
| "permission_of (Post_Workflow _) = Some WORKFLOW_CREATE"
| "permission_of (Post_Validate _) = Some WORKFLOW_CREATE"
| "permission_of (Get_Workflows _ _) = Some WORKFLOW_READ"
| "permission_of (Get_Workflow _) = Some WORKFLOW_READ"
| "permission_of (Put_Workflow _ _) = Some WORKFLOW_CREATE"
| "permission_of (Put_Schedule _ _) = Some WORKFLOW_CREATE"
| "permission_of (Delete_Schedule _) = Some WORKFLOW_CREATE"
| "permission_of (Post_Run _ _ _) = Some WORKFLOW_RUN"
| "permission_of (Get_Execution _) = Some WORKFLOW_READ"
| "permission_of (Post_Control _ _) = Some WORKFLOW_RUN"
| "permission_of (Post_Document _) = Some WORKFLOW_CREATE"
| "permission_of Get_Documents = Some WORKFLOW_READ"
| "permission_of (Get_Document _) = Some WORKFLOW_READ"
| "permission_of (Delete_Document _) = Some WORKFLOW_CREATE"
| "permission_of (Post_Search _) = Some WORKFLOW_READ"
| "permission_of (Get_Approvals _) = Some WORKFLOW_READ"
| "permission_of (Get_Approval _) = Some WORKFLOW_READ"
| "permission_of (Post_Decision _ _ _) = Some APPROVAL_DECIDE"
| "permission_of _ = None"

section \<open>Controllers\<close>

type_synonym ('s, 'q) outcome = "(nat \<times> payload) result \<times> ('s, 'q) server"

definition reading :: "nat \<Rightarrow> ('a \<Rightarrow> payload) \<Rightarrow> ('s, 'q) server \<Rightarrow> 'a result \<Rightarrow> ('s, 'q) outcome" where
  "reading status f st r = (map_sum id (\<lambda>x. (status, f x)) r, st)"

definition changing :: "nat \<Rightarrow> ('a \<Rightarrow> payload) \<Rightarrow> ('b \<Rightarrow> ('s, 'q) server) \<Rightarrow> ('s, 'q) server \<Rightarrow> ('a \<times> 'b) result \<Rightarrow> ('s, 'q) outcome" where
  "changing status f put st r = (case r of Inl err \<Rightarrow> (Inl err, st) | Inr (x, y) \<Rightarrow> (Inr (status, f x), put y))"

definition with_id :: "('s, 'q) server_env \<Rightarrow> string \<Rightarrow> ('s, 'q) server \<Rightarrow> (oid \<Rightarrow> ('s, 'q) outcome) \<Rightarrow> ('s, 'q) outcome" where
  "with_id env raw st k = (case se_oid_of env raw of None \<Rightarrow> (Inl (ValidationError ''VALIDATION_ERROR''), st) | Some i \<Rightarrow> k i)"

definition with_valid :: "'a option \<Rightarrow> ('s, 'q) server \<Rightarrow> ('a \<Rightarrow> ('s, 'q) outcome) \<Rightarrow> ('s, 'q) outcome" where
  "with_valid parsed st k = (case validate parsed of Inl err \<Rightarrow> (Inl err, st) | Inr x \<Rightarrow> k x)"

text \<open>\<open>z.coerce.number().int().min(1).max(hi).default(d)\<close> of a query parameter.\<close>

definition query_int :: "('s, 'q) server_env \<Rightarrow> int \<Rightarrow> nat \<Rightarrow> string option \<Rightarrow> nat option" where
  "query_int env hi d v = (case v of None \<Rightarrow> Some d
     | Some s \<Rightarrow> (case se_number env s of None \<Rightarrow> None | Some n \<Rightarrow> if 1 \<le> n \<and> n \<le> hi then Some (nat n) else None))"

definition rag_error :: "rag_failure \<Rightarrow> error" where
  "rag_error f = (case f of Refused e \<Rightarrow> e | Thrown e \<Rightarrow> PlainError (je_message e))"

definition post_document :: "('s, 'q) server_env \<Rightarrow> user \<Rightarrow> json \<Rightarrow> ('s, 'q) server \<Rightarrow> ('s, 'q) outcome" where
  "post_document env u b st =
     with_valid (uploadSchema b) st (\<lambda>(title, mimeType, content).
       case ingest (se_rag env) (se_embedder env) (se_faults env) (se_new_id env) (se_uuids env) (u_id u) title content mimeType (sv_models st, sv_kb st) of
         (r, s', k') \<Rightarrow> (map_sum rag_error (\<lambda>d. (201, A_Document d)) r, st\<lparr>sv_models := s', sv_kb := k'\<rparr>))"

definition get_documents :: "user \<Rightarrow> ('s, 'q) server \<Rightarrow> document list" where
  "get_documents u st = take 100 (rev (filter (\<lambda>d. ownerScope u (kd_ownerId d)) (kb_documents (sv_kb st))))"

definition get_document :: "user \<Rightarrow> oid \<Rightarrow> ('s, 'q) server \<Rightarrow> document result" where
  "get_document u i st = (case List.find (\<lambda>d. kd_id d = i \<and> ownerScope u (kd_ownerId d)) (kb_documents (sv_kb st)) of
     None \<Rightarrow> Inl (NotFoundError ''NOT_FOUND'') | Some d \<Rightarrow> Inr d)"

definition delete_document :: "('s, 'q) server_env \<Rightarrow> user \<Rightarrow> oid \<Rightarrow> ('s, 'q) server \<Rightarrow> ('s, 'q) outcome" where
  "delete_document env u i st =
     (case deleteDocument (se_rag env) (se_delete_fault env) (ownerScope u) i (sv_kb st) of
        (r, k') \<Rightarrow> (map_sum rag_error (\<lambda>_. (204, A_Nothing)) r, st\<lparr>sv_kb := k'\<rparr>))"

definition post_search :: "('s, 'q) server_env \<Rightarrow> user \<Rightarrow> json \<Rightarrow> ('s, 'q) server \<Rightarrow> ('s, 'q) outcome" where
  "post_search env u b st =
     with_valid (searchSchema b) st (\<lambda>(q, k).
       case retrieve (se_rag env) (se_embedder env) (kb_points (sv_kb st)) (u_id u) q k (sv_models st) of
         (r, s') \<Rightarrow> (map_sum (\<lambda>e. PlainError (je_message e)) (\<lambda>hits. (200, A_Hits hits)) r, st\<lparr>sv_models := s'\<rparr>))"

text \<open>The controllers after the guards: accounts of authenticated callers,\<close>

fun auth_controller :: "('s, 'q) server_env \<Rightarrow> http_call \<Rightarrow> user \<Rightarrow> api_call \<Rightarrow> ('s, 'q) server \<Rightarrow> ('s, 'q) outcome" where
  "auth_controller env hc u Post_Logout st =
     (Inr (204, A_Nothing), st\<lparr>sv_accounts := logoutAll (u_id u) (sv_accounts st)\<rparr>)"
| "auth_controller env hc u Get_Me st = reading 200 A_User st (getUser (u_id u) (sv_accounts st))"
| "auth_controller env hc u (Patch_Role i b) st =
     with_id env i st (\<lambda>i. with_valid (changeRoleSchema b) st (\<lambda>role.
       changing 200 A_User (\<lambda>us. st\<lparr>sv_accounts := us\<rparr>) st (changeRole (u_id u) i role (sv_accounts st))))"
| "auth_controller env hc u _ st = (Inl (NotFoundError ''NOT_FOUND''), st)"

text \<open>workflow definitions,\<close>

fun workflow_controller :: "('s, 'q) server_env \<Rightarrow> http_call \<Rightarrow> user \<Rightarrow> api_call \<Rightarrow> ('s, 'q) server \<Rightarrow> ('s, 'q) outcome" where
  "workflow_controller env hc u (Post_Workflow b) st =
     changing 201 A_Workflow (\<lambda>ws. st\<lparr>sv_workflows := ws\<rparr>) st
       (post_workflow (se_jwt env) (se_tokens env) (hc_now hc) (hc_authorization hc) (se_new_id env) b (sv_workflows st))"
| "workflow_controller env hc u (Post_Validate b) st =
     reading 200 A_Analysis st (post_validate (se_jwt env) (se_tokens env) (hc_now hc) (hc_authorization hc) b)"
| "workflow_controller env hc u (Get_Workflows l pg) st =
     with_valid (query_int env 100 20 l) st (\<lambda>l. with_valid (query_int env 10000 1 pg) st (\<lambda>pg.
       case list_workflows u l pg (sv_workflows st) of (ws, n) \<Rightarrow> (Inr (200, A_Workflows ws n), st)))"
| "workflow_controller env hc u (Get_Workflow i) st =
     with_id env i st (\<lambda>i. reading 200 A_Workflow st
       (get_workflow_route (se_jwt env) (se_tokens env) (hc_now hc) (hc_authorization hc) i (sv_workflows st)))"
| "workflow_controller env hc u (Put_Workflow i b) st =
     with_id env i st (\<lambda>i. changing 200 A_Workflow (\<lambda>ws. st\<lparr>sv_workflows := ws\<rparr>) st
       (put_workflow (se_jwt env) (se_tokens env) (hc_now hc) (hc_authorization hc) i b (sv_workflows st)))"
| "workflow_controller env hc u (Put_Schedule i b) st =
     with_id env i st (\<lambda>i. changing 200 A_Workflow (\<lambda>ws. st\<lparr>sv_workflows := ws\<rparr>) st
       (put_schedule (se_known_zone env) (se_parses env) (se_next_run env) (se_jwt env) (se_tokens env) (hc_now hc) (hc_authorization hc) i b (sv_workflows st)))"
| "workflow_controller env hc u (Delete_Schedule i) st =
     with_id env i st (\<lambda>i. changing 200 A_Workflow (\<lambda>ws. st\<lparr>sv_workflows := ws\<rparr>) st
       (delete_schedule (se_jwt env) (se_tokens env) (hc_now hc) (hc_authorization hc) i (sv_workflows st)))"
| "workflow_controller env hc u _ st = (Inl (NotFoundError ''NOT_FOUND''), st)"

text \<open>runs,\<close>

fun execution_controller :: "('s, 'q) server_env \<Rightarrow> http_call \<Rightarrow> user \<Rightarrow> api_call \<Rightarrow> ('s, 'q) server \<Rightarrow> ('s, 'q) outcome" where
  "execution_controller env hc u (Post_Run i key b) st =
     with_id env i st (\<lambda>i. changing 202 (\<lambda>(e, replayed). A_Started e replayed) (\<lambda>w. st\<lparr>sv_world := w\<rparr>) st
       (post_run (se_sha env) (se_scalar env) (se_deps env) (se_jwt env) (se_tokens env) (hc_now hc) (hc_authorization hc) i key b (sv_workflows st) (sv_world st)))"
| "execution_controller env hc u (Get_Execution i) st =
     with_id env i st (\<lambda>i. reading 200 (\<lambda>(e, ts). A_Run e ts) st
       (get_execution_route (se_jwt env) (se_tokens env) (hc_now hc) (hc_authorization hc) i (fst (sv_world st))))"
| "execution_controller env hc u (Post_Control i a) st =
     with_id env i st (\<lambda>i. changing 200 A_Execution (\<lambda>w. st\<lparr>sv_world := w\<rparr>) st
       (post_control (se_deps env) (se_jwt env) (se_tokens env) (hc_now hc) (hc_authorization hc) i a (sv_world st)))"
| "execution_controller env hc u _ st = (Inl (NotFoundError ''NOT_FOUND''), st)"

text \<open>documents,\<close>

fun knowledge_router :: "('s, 'q) server_env \<Rightarrow> http_call \<Rightarrow> user \<Rightarrow> api_call \<Rightarrow> ('s, 'q) server \<Rightarrow> ('s, 'q) outcome" where
  "knowledge_router env hc u (Post_Document b) st = post_document env u b st"
| "knowledge_router env hc u Get_Documents st = (Inr (200, A_Documents (get_documents u st)), st)"
| "knowledge_router env hc u (Get_Document i) st = with_id env i st (\<lambda>i. reading 200 A_Document st (get_document u i st))"
| "knowledge_router env hc u (Delete_Document i) st = with_id env i st (\<lambda>i. delete_document env u i st)"
| "knowledge_router env hc u (Post_Search b) st = post_search env u b st"
| "knowledge_router env hc u _ st = (Inl (NotFoundError ''NOT_FOUND''), st)"

text \<open>and approvals.\<close>

fun approval_router :: "('s, 'q) server_env \<Rightarrow> http_call \<Rightarrow> user \<Rightarrow> api_call \<Rightarrow> ('s, 'q) server \<Rightarrow> ('s, 'q) outcome" where
  "approval_router env hc u (Get_Approvals s) st =
     with_valid (approval_listSchema s) st (\<lambda>s. reading 200 A_Approvals st (list_approvals (Some u) s (fst (sv_world st))))"
| "approval_router env hc u (Get_Approval i) st =
     with_id env i st (\<lambda>i. reading 200 (\<lambda>p. A_Approval (Some p)) st (get_approval (Some u) i (fst (sv_world st))))"
| "approval_router env hc u (Post_Decision i approve b) st =
     with_id env i st (\<lambda>i. with_valid (decideSchema b) st (\<lambda>comment.
       changing 200 A_Approval (\<lambda>w. st\<lparr>sv_world := w\<rparr>) st (decide (se_deps env) u i approve comment (hc_now hc) (sv_world st))))"
| "approval_router env hc u _ st = (Inl (NotFoundError ''NOT_FOUND''), st)"

text \<open>The routers in the order of \<open>createApp\<close>.\<close>

fun act :: "('s, 'q) server_env \<Rightarrow> http_call \<Rightarrow> user \<Rightarrow> api_call \<Rightarrow> ('s, 'q) server \<Rightarrow> ('s, 'q) outcome" where
  "act env hc u Post_Logout st = auth_controller env hc u Post_Logout st"
| "act env hc u Get_Me st = auth_controller env hc u Get_Me st"
| "act env hc u (Patch_Role i b) st = auth_controller env hc u (Patch_Role i b) st"
| "act env hc u (Post_Workflow b) st = workflow_controller env hc u (Post_Workflow b) st"
| "act env hc u (Post_Validate b) st = workflow_controller env hc u (Post_Validate b) st"
| "act env hc u (Get_Workflows l pg) st = workflow_controller env hc u (Get_Workflows l pg) st"
| "act env hc u (Get_Workflow i) st = workflow_controller env hc u (Get_Workflow i) st"
| "act env hc u (Put_Workflow i b) st = workflow_controller env hc u (Put_Workflow i b) st"
| "act env hc u (Put_Schedule i b) st = workflow_controller env hc u (Put_Schedule i b) st"
| "act env hc u (Delete_Schedule i) st = workflow_controller env hc u (Delete_Schedule i) st"
| "act env hc u (Post_Run i key b) st = execution_controller env hc u (Post_Run i key b) st"
| "act env hc u (Get_Execution i) st = execution_controller env hc u (Get_Execution i) st"
| "act env hc u (Post_Control i a) st = execution_controller env hc u (Post_Control i a) st"
| "act env hc u (Post_Document b) st = knowledge_router env hc u (Post_Document b) st"
| "act env hc u Get_Documents st = knowledge_router env hc u Get_Documents st"
| "act env hc u (Get_Document i) st = knowledge_router env hc u (Get_Document i) st"
| "act env hc u (Delete_Document i) st = knowledge_router env hc u (Delete_Document i) st"
| "act env hc u (Post_Search b) st = knowledge_router env hc u (Post_Search b) st"
| "act env hc u (Get_Approvals s) st = approval_router env hc u (Get_Approvals s) st"
| "act env hc u (Get_Approval i) st = approval_router env hc u (Get_Approval i) st"
| "act env hc u (Post_Decision i approve b) st = approval_router env hc u (Post_Decision i approve b) st"
| "act env hc u _ st = (Inl (NotFoundError ''NOT_FOUND''), st)"

section \<open>The server\<close>

fun is_public :: "api_call \<Rightarrow> bool" where
  "is_public (Post_Register _) = True"
| "is_public (Post_Login _) = True"
| "is_public (Post_Refresh _) = True"
| "is_public _ = False"

fun serve_public :: "('s, 'q) server_env \<Rightarrow> http_call \<Rightarrow> api_call \<Rightarrow> ('s, 'q) server \<Rightarrow> ('s, 'q) outcome" where
  "serve_public env hc (Post_Register b) st =
     (case pass_limiters env hc None 0 [register_limiter] st of
        (Inl err, st) \<Rightarrow> (Inl err, st)
      | (Inr _, st) \<Rightarrow> with_valid (registerSchema (se_is_email env) b) st (\<lambda>(e, p).
          changing 201 A_User (\<lambda>us. st\<lparr>sv_accounts := us\<rparr>) st (register (se_hash env) (se_new_id env) e p (sv_accounts st))))"
| "serve_public env hc (Post_Login b) st =
     (case pass_limiters env hc None 0 [loginPerIp, loginPerAccount] st of
        (Inl err, st) \<Rightarrow> (Inl err, st)
      | (Inr _, st) \<Rightarrow> with_valid (loginSchema (se_is_email env) b) st (\<lambda>(e, p).
          reading 200 (\<lambda>(u, ts). A_Session u ts) st (login (se_jwt env) (se_tokens env) (se_compare env) (se_dummyHash env) (hc_now hc) e p (sv_accounts st))))"
| "serve_public env hc (Post_Refresh b) st =
     with_valid (refreshSchema b) st (\<lambda>tok. reading 200 A_Tokens st (refresh (se_jwt env) (se_tokens env) (hc_now hc) tok (sv_accounts st)))"
| "serve_public env hc _ st = (Inl (NotFoundError ''NOT_FOUND''), st)"

definition permitted :: "user \<Rightarrow> api_call \<Rightarrow> unit result" where
  "permitted u call = (case permission_of call of None \<Rightarrow> Inr () | Some p \<Rightarrow> requirePermission p (Some u))"

definition serve_protected :: "('s, 'q) server_env \<Rightarrow> http_call \<Rightarrow> api_call \<Rightarrow> ('s, 'q) server \<Rightarrow> ('s, 'q) outcome" where
  "serve_protected env hc call st =
     (case authenticate (se_jwt env) (se_tokens env) (hc_now hc) (hc_authorization hc) of
        Inl err \<Rightarrow> (Inl err, st)
      | Inr u \<Rightarrow>
          (case pass_limiters env hc (Some u) 0 (limiters_of call) st of
             (Inl err, st) \<Rightarrow> (Inl err, st)
           | (Inr _, st) \<Rightarrow>
               (case permitted u call of
                  Inl err \<Rightarrow> (Inl err, st)
                | Inr _ \<Rightarrow>
                    (case pass_limiters env hc (Some u) (length (limiters_of call)) (late_limiters call) st of
                       (Inl err, st) \<Rightarrow> (Inl err, st)
                     | (Inr _, st) \<Rightarrow> act env hc u call st))))"

definition serve :: "('s, 'q) server_env \<Rightarrow> http_call \<Rightarrow> api_call \<Rightarrow> ('s, 'q) server \<Rightarrow> http_response \<times> ('s, 'q) server" where
  "serve env hc call st =
     (let rid = requestId (hc_uuid hc) (hc_requestId hc) in
      case hc_body_error hc of
        Some err \<Rightarrow> (errorHandler rid err, st)
      | None \<Rightarrow>
          (case (if is_public call then serve_public env hc call st else serve_protected env hc call st) of
             (Inl err, st') \<Rightarrow> (errorHandler rid (Raised err), st')
           | (Inr (status, x), st') \<Rightarrow> (Success rid status x, st')))"

end
