(* ===== verification/Wf_Api_Correct.thy ===== *)
theory Wf_Api_Correct
  imports Wf_Api
begin

text \<open>
  What the HTTP API keeps to its callers: no effect without a valid token and the permission of the route, and after these guards
  only what the caller owns is shown and changed.
\<close>

section \<open>Guards\<close>

lemma pass_limiters_cases:
  "pass_limiters env hc u n ls st = (r, st') \<Longrightarrow>
     (\<exists>ws. st' = st\<lparr>sv_windows := ws\<rparr>) \<and> (r = Inr () \<or> (\<exists>m c. r = Inl (AppError m c) \<and> m \<in> {429, 503}))"
proof (induction ls arbitrary: n st)
  case Nil
  then show ?case by (auto intro: exI[of _ "sv_windows st"])
next
  case (Cons l ls)
  show ?case
  proof (cases "se_limiters env")
    case None
    then show ?thesis using Cons.prems by (auto intro: exI[of _ "sv_windows st"])
  next
    case (Some rl)
    obtain a b ws where m: "rateLimitMiddleware ''wf:rl'' (l rl) (se_redis_up env) (hc_tags hc n) (hc_now hc) (limit_request hc u) (sv_windows st) = ((a, b), ws)"
      by (metis prod.exhaust)
    show ?thesis
    proof (cases a)
      case (Inl err)
      then have "r = Inl err" "st' = st\<lparr>sv_windows := ws\<rparr>" using Cons.prems Some m by simp_all
      moreover have "\<exists>k c. err = AppError k c \<and> k \<in> {429, 503}" using m Inl
        by (auto simp: rateLimitMiddleware_def Let_def split: option.splits if_splits prod.splits)
      ultimately show ?thesis by auto
    next
      case (Inr x)
      then have "pass_limiters env hc u (Suc n) ls (st\<lparr>sv_windows := ws\<rparr>) = (r, st')" using Cons.prems Some m by simp
      from Cons.IH[OF this] show ?thesis by auto
    qed
  qed
qed

lemma authenticate_Inl: "authenticate j cfg now h = Inl err \<Longrightarrow> \<exists>c. err = UnauthorizedError c"
  by (auto simp: authenticate_def verifyAccessToken_def verify_def bind_result_eq_Inl
      split: list.splits if_splits jwt_result.splits)

lemma permitted_Inl: "permitted u call = Inl err \<Longrightarrow> fst (toHttpError (Raised err)) \<in> {403, 500}"
  by (auto simp: permitted_def requirePermission_def hasPermission_def toHttpError_def bind_result_eq_Inl
      split: option.splits if_splits)

lemma guarded_as: "authenticate j cfg now h = Inr u \<Longrightarrow> guarded j cfg now h p f = Inr x \<Longrightarrow> f u = Inr x"
  by (auto simp: guarded_def bind_result_eq_Inr)

section \<open>What a response may hold\<close>

text \<open>A payload that was the caller's to see in the state before the call. A replayed run is one the caller triggered; the run or
  approval a caller changed is read back by its id, which was visible to them before; hits are points of the caller, of an
  administrator too.\<close>

fun owned :: "user \<Rightarrow> ('s, 'q) server \<Rightarrow> payload \<Rightarrow> bool" where
  "owned u st (A_Workflow w) = ownerScope u (w_ownerId w)"
| "owned u st (A_Workflows ws n) = ((\<forall>w \<in> set ws. ownerScope u (w_ownerId w)) \<and> n = length (own u (sv_workflows st)))"
| "owned u st (A_Analysis r) = True"
| "owned u st (A_Started e replayed) = (e_triggeredBy e = Some (u_id u) \<and> (replayed \<or> ownerScope u (e_ownerId e)))"
| "owned u st (A_Execution e) = (\<forall>x. e = Some x \<longrightarrow> visible_execution u (e_id x) (fst (sv_world st)) \<noteq> None)"
| "owned u st (A_Run e ts) = (ownerScope u (e_ownerId e) \<and> (\<forall>t \<in> set ts. t_executionId t = e_id e))"
| "owned u st (A_Approvals ps) = (\<forall>p \<in> set ps. ownerScope u (p_ownerId p))"
| "owned u st (A_Approval p) = (\<forall>x. p = Some x \<longrightarrow> (\<exists>q \<in> set (approvals (fst (sv_world st))). p_id q = p_id x \<and> ownerScope u (p_ownerId q)))"
| "owned u st (A_Document d) = ownerScope u (kd_ownerId d)"
| "owned u st (A_Documents ds) = (\<forall>d \<in> set ds. ownerScope u (kd_ownerId d))"
| "owned u st (A_Hits hs) = (\<forall>h \<in> set hs. \<exists>p \<in> set (kb_points (sv_kb st)). pt_ownerId p = u_id u \<and> pt_text p = hi_text h)"
| "owned u st (A_User a) = (ac_id a = u_id u \<or> u_role u = ADMIN)"
| "owned u st (A_Session a ts) = False"
| "owned u st (A_Tokens ts) = False"
| "owned u st A_Nothing = True"

lemma find_conj: "List.find (\<lambda>x. P x \<and> Q x) xs = Some x \<Longrightarrow> x \<in> set xs \<and> P x \<and> Q x"
  by (auto simp: find_Some_iff)

lemma update_owned_fst: "update_owned u i P f ws = (Some w, ws') \<Longrightarrow> \<exists>w0. w = f w0 \<and> ownerScope u (w_ownerId w0)"
  by (auto simp: update_owned_def Let_def find_Some_iff)

lemma create_owned: "create u n nm ds ts ws = Inr (w, ws') \<Longrightarrow> ownerScope u (w_ownerId w) \<and> hidden u ws' = hidden u ws"
  by (auto simp: create_def Let_def ownerScope_def hidden_def elim!: bind_result_InrE)

lemma update_is_owned: "update u i v nm ds ts ws = Inr (w, ws') \<Longrightarrow> ownerScope u (w_ownerId w)"
  by (auto simp: update_def elim!: bind_result_InrE split: prod.splits option.splits dest!: update_owned_fst)

lemma setSchedule_owned: "setSchedule kz ps nr u i cron tz en inp now ws = Inr (w, ws') \<Longrightarrow> ownerScope u (w_ownerId w)"
  by (auto simp: setSchedule_def Let_def elim!: bind_result_InrE split: prod.splits option.splits dest!: update_owned_fst)

lemma clearSchedule_owned: "clearSchedule u i ws = Inr (w, ws') \<Longrightarrow> ownerScope u (w_ownerId w)"
  by (auto simp: clearSchedule_def split: prod.splits option.splits dest!: update_owned_fst)

lemma startExecution_owner:
  "startExecution dp wfl sp now w = Inr (e, w') \<Longrightarrow> e_ownerId e = w_ownerId wfl \<and> e_triggeredBy e = sp_triggeredBy sp"
  by (auto simp: startExecution_def start_run_def start_txn_def new_execution_def Let_def elim!: bind_result_InrE split: if_splits)

lemma run_owned:
  assumes "run sha scalar dp u i input k now ws w = Inr ((e, replayed), w')"
  shows "e_triggeredBy e = Some (u_id u) \<and> (replayed \<or> ownerScope u (e_ownerId e))"
proof -
  obtain wfl where wfl: "find_workflow u i ws = Some wfl" using assms by (cases "find_workflow u i ws") (simp_all add: run_def)
  let ?sp = "\<lparr>sp_input = input, sp_triggeredBy = Some (u_id u), sp_trigger = Manual, sp_idempotencyKey = k,
     sp_requestHash = if truthy k then Some (request_hash sha scalar i input) else None\<rparr>"
  have ow: "ownerScope u (w_ownerId wfl)" using wfl by (auto simp: find_workflow_def find_Some_iff)
  show ?thesis
  proof (cases "startExecution dp wfl ?sp now w")
    case (Inr p)
    then show ?thesis using assms wfl startExecution_owner[of dp wfl ?sp now w e w'] ow by (cases p) (auto simp: run_def Let_def)
  next
    case (Inl err)
    then have "replayed \<and> e_triggeredBy e = Some (u_id u)"
      using assms wfl by (auto simp: run_def Let_def find_Some_iff split: if_splits option.splits)
    then show ?thesis by simp
  qed
qed

lemma control_owned: "control dp u i a now w = Inr (Some e, w') \<Longrightarrow> visible_execution u (e_id e) (fst w) \<noteq> None"
proof -
  assume c: "control dp u i a now w = Inr (Some e, w')"
  then obtain e0 where e0: "visible_execution u i (fst w) = Some e0" by (cases "visible_execution u i (fst w)") (simp_all add: control_def)
  then have "find_execution (e_id e0) (fst w') = Some e" using c
    by (auto simp: control_def elim!: bind_result_InrE split: prod.splits if_splits)
  then have "e_id e = e_id e0" by (auto simp: find_execution_def find_Some_iff)
  moreover have "e_id e0 = i" using e0 by (auto simp: visible_execution_def find_Some_iff)
  ultimately show ?thesis using e0 by simp
qed

lemma decide_owned: "decide dp u i ok c now w = Inr (Some p, w') \<Longrightarrow> \<exists>q \<in> set (approvals (fst w)). p_id q = p_id p \<and> ownerScope u (p_ownerId q)"
proof -
  assume d: "decide dp u i ok c now w = Inr (Some p, w')"
  obtain q where q: "List.find (\<lambda>p. p_id p = i \<and> ownerScope u (p_ownerId p)) (approvals (fst w)) = Some q"
    using d by (auto simp: decide_def Let_def elim!: bind_result_InrE split: option.splits)
  then have "List.find (\<lambda>p. p_id p = i) (approvals (fst w')) = Some p"
    using d by (auto simp: decide_def Let_def elim!: bind_result_InrE split: if_splits prod.splits)
  then have "p_id p = i" by (auto simp: find_Some_iff)
  then show ?thesis using find_conj[OF q] by auto
qed

lemma ingest_owned: "fst (ingest cfg emb fa i uuid ow title content mimeType w) = Inr d \<Longrightarrow> kd_ownerId d = ow"
  by (auto simp: ingest_def store_chunks_def new_document_def Let_def split: if_splits sum.splits prod.splits list.splits option.splits)

lemma get_document_owned: "get_document u i st = Inr d \<Longrightarrow> ownerScope u (kd_ownerId d)"
  by (auto simp: get_document_def split: option.splits dest!: find_conj)

lemma list_approvals_owned: "list_approvals (Some u) s db = Inr ps \<Longrightarrow> p \<in> set ps \<Longrightarrow> ownerScope u (p_ownerId p)"
  by (auto simp: list_approvals_def elim!: bind_result_InrE dest!: in_set_takeD)

lemma get_approval_owned: "get_approval (Some u) i db = Inr p \<Longrightarrow> p \<in> set (approvals db) \<and> ownerScope u (p_ownerId p)"
  by (auto simp: get_approval_def elim!: bind_result_InrE split: option.splits dest!: find_conj)

section \<open>Controllers\<close>

lemma reading_eq: "reading n f st r = (Inr (m, x), st') \<longleftrightarrow> (\<exists>y. r = Inr y \<and> m = n \<and> x = f y \<and> st' = st)"
  by (cases r) (auto simp: reading_def)

lemma changing_eq: "changing n f put st r = (Inr (m, x), st') \<longleftrightarrow> (\<exists>y z. r = Inr (y, z) \<and> m = n \<and> x = f y \<and> st' = put z)"
  by (auto simp: changing_def split: sum.splits)

lemma changing_state: "snd (changing n f put st r) = (case r of Inl _ \<Rightarrow> st | Inr (_, z) \<Rightarrow> put z)"
  by (auto simp: changing_def split: sum.splits)

lemma with_id_eq: "with_id env i st k = (Inr y, st') \<longleftrightarrow> (\<exists>j. se_oid_of env i = Some j \<and> k j = (Inr y, st'))"
  by (auto simp: with_id_def split: option.splits)

lemma with_valid_eq: "with_valid p st k = (Inr y, st') \<longleftrightarrow> (\<exists>v. p = Some v \<and> k v = (Inr y, st'))"
  by (auto simp: with_valid_def validate_Inr split: sum.splits)
     (auto simp: validate_def)

lemma map_sum_InrE:
  assumes "map_sum f g r = Inr y"
  obtains z where "r = Inr z" "y = g z"
  using assms by (cases r) auto

lemmas outcome_eqs = reading_eq changing_eq with_id_eq with_valid_eq

text \<open>Whoever manages users is an administrator.\<close>

lemma manager_is_admin: "requirePermission USER_MANAGE (Some u) = Inr () \<Longrightarrow> u_role u = ADMIN"
  by (auto simp: requirePermission_def hasPermission_def ROLE_PERMISSIONS_def bind_result_eq_Inr split: if_splits)

lemma act_owned:
  assumes "authenticate (se_jwt env) (se_tokens env) (hc_now hc) (hc_authorization hc) = Inr u" "permitted u call = Inr ()"
    "query_ok (rc_query (se_rag env))" "act env hc u call st = (Inr (n, x), st')"
  shows "owned u st x"
proof (cases call)
  case (Patch_Role i b)
  then have "u_role u = ADMIN" using assms(2) by (auto simp: permitted_def intro: manager_is_admin)
  then show ?thesis using assms(4) Patch_Role by (auto simp: outcome_eqs)
next
  case Get_Me
  then show ?thesis using assms(4) by (auto simp: outcome_eqs getUser_def find_account_def find_Some_iff split: option.splits)
next
  case (Post_Workflow b)
  then show ?thesis using assms(4) guarded_as[OF assms(1)] create_owned
    by (fastforce simp: outcome_eqs post_workflow_def elim!: bind_result_InrE)
next
  case (Get_Workflows l pg)
  then show ?thesis using assms(4)
    by (auto simp: outcome_eqs list_workflows_def limited_def own_def Let_def split: if_splits dest!: in_set_takeD in_set_dropD)
next
  case (Get_Workflow i)
  then show ?thesis using assms(4) guarded_as[OF assms(1)]
    by (fastforce simp: outcome_eqs get_workflow_route_def get_workflow_def find_workflow_def find_Some_iff split: option.splits)
next
  case (Put_Workflow i b)
  then show ?thesis using assms(4) guarded_as[OF assms(1)] update_is_owned
    by (fastforce simp: outcome_eqs put_workflow_def elim!: bind_result_InrE)
next
  case (Put_Schedule i b)
  then show ?thesis using assms(4) guarded_as[OF assms(1)] setSchedule_owned
    by (fastforce simp: outcome_eqs put_schedule_def elim!: bind_result_InrE)
next
  case (Delete_Schedule i)
  then show ?thesis using assms(4) guarded_as[OF assms(1)] clearSchedule_owned
    by (fastforce simp: outcome_eqs delete_schedule_def elim!: bind_result_InrE)
next
  case (Post_Run i k b)
  then obtain j e replayed w where r: "post_run (se_sha env) (se_scalar env) (se_deps env) (se_jwt env) (se_tokens env) (hc_now hc)
      (hc_authorization hc) j k b (sv_workflows st) (sv_world st) = Inr ((e, replayed), w)" "x = A_Started e replayed"
    using assms(4) by (auto simp: outcome_eqs)
  then obtain input key where "run (se_sha env) (se_scalar env) (se_deps env) u j input key (hc_now hc) (sv_workflows st) (sv_world st) = Inr ((e, replayed), w)"
    using guarded_as[OF assms(1) r(1)[unfolded post_run_def]] by (auto elim!: bind_result_InrE)
  then show ?thesis using run_owned r(2) by simp
next
  case (Get_Execution i)
  then show ?thesis using assms(4) guarded_as[OF assms(1)]
    by (fastforce simp: outcome_eqs get_execution_route_def get_execution_def visible_execution_def find_Some_iff split: option.splits)
next
  case (Post_Control i a)
  then obtain j e w where r: "post_control (se_deps env) (se_jwt env) (se_tokens env) (hc_now hc) (hc_authorization hc) j a (sv_world st) = Inr (e, w)"
    "x = A_Execution e" using assms(4) by (auto simp: outcome_eqs)
  then show ?thesis using control_owned[of "se_deps env" u j a "hc_now hc" "sv_world st"] guarded_as[OF assms(1) r(1)[unfolded post_control_def]] by auto
next
  case (Post_Document b)
  then obtain title mimeType content d where "x = A_Document d"
    "fst (ingest (se_rag env) (se_embedder env) (se_faults env) (se_new_id env) (se_uuids env) (u_id u) title content mimeType (sv_models st, sv_kb st)) = Inr d"
    using assms(4) by (auto simp: post_document_def outcome_eqs case_prod_unfold elim!: map_sum_InrE)
  then show ?thesis by (simp add: ownerScope_def ingest_owned)
next
  case Get_Documents
  then show ?thesis using assms(4) by (auto simp: get_documents_def dest!: in_set_takeD)
next
  case (Get_Document i)
  then show ?thesis using assms(4) by (auto simp: outcome_eqs dest: get_document_owned)
next
  case (Delete_Document i)
  then show ?thesis using assms(4) by (auto simp: outcome_eqs delete_document_def case_prod_unfold elim!: map_sum_InrE)
next
  case (Post_Search b)
  then obtain q k hits where hits: "x = A_Hits hits"
    "fst (retrieve (se_rag env) (se_embedder env) (kb_points (sv_kb st)) (u_id u) q k (sv_models st)) = Inr hits"
    using assms(4) by (auto simp: post_search_def outcome_eqs case_prod_unfold elim!: map_sum_InrE)
  then have "retrieve (se_rag env) (se_embedder env) (kb_points (sv_kb st)) (u_id u) q k (sv_models st)
      = (Inr hits, snd (retrieve (se_rag env) (se_embedder env) (kb_points (sv_kb st)) (u_id u) q k (sv_models st)))"
    by (simp add: prod_eq_iff)
  from retrieve_owned[OF assms(3) this] show ?thesis using hits(1) by fastforce
next
  case (Get_Approvals s)
  then show ?thesis using assms(4) by (auto simp: outcome_eqs dest: list_approvals_owned)
next
  case (Get_Approval i)
  then show ?thesis using assms(4) by (auto simp: outcome_eqs dest!: get_approval_owned)
next
  case (Post_Decision i a b)
  then obtain j ok c p w where "x = A_Approval p" "decide (se_deps env) u j ok c (hc_now hc) (sv_world st) = Inr (p, w)"
    using assms(4) by (auto simp: outcome_eqs)
  then show ?thesis using decide_owned[of "se_deps env" u j ok c "hc_now hc" "sv_world st"] by auto
qed (use assms(4) in \<open>auto simp: outcome_eqs\<close>)

text \<open>The definitions of others and, but for an administrator, the accounts of others are as before.\<close>

lemma act_frame:
  assumes "authenticate (se_jwt env) (se_tokens env) (hc_now hc) (hc_authorization hc) = Inr u" "permitted u call = Inr ()"
  shows "hidden u (sv_workflows (snd (act env hc u call st))) = hidden u (sv_workflows st)"
    "u_role u \<noteq> ADMIN \<Longrightarrow> filter (\<lambda>a. ac_id a \<noteq> u_id u) (sv_accounts (snd (act env hc u call st))) = filter (\<lambda>a. ac_id a \<noteq> u_id u) (sv_accounts st)"
proof -
  note st = reading_def changing_state with_id_def with_valid_def
  show "hidden u (sv_workflows (snd (act env hc u call st))) = hidden u (sv_workflows st)"
  proof (cases call)
    case (Post_Workflow b)
    then show ?thesis using guarded_as[OF assms(1)] create_owned
      by (fastforce simp: st post_workflow_def elim!: bind_result_InrE split: sum.splits)
  next
    case (Put_Workflow i b)
    then show ?thesis using guarded_as[OF assms(1)] workflow_edit_hidden[OF edit_update]
      by (fastforce simp: st put_workflow_def elim!: bind_result_InrE split: sum.splits option.splits)
  next
    case (Put_Schedule i b)
    then show ?thesis using guarded_as[OF assms(1)] workflow_edit_hidden[OF edit_schedule]
      by (fastforce simp: st put_schedule_def elim!: bind_result_InrE split: sum.splits option.splits)
  next
    case (Delete_Schedule i)
    then show ?thesis using guarded_as[OF assms(1)] workflow_edit_hidden[OF edit_clear]
      by (fastforce simp: st delete_schedule_def elim!: bind_result_InrE split: sum.splits option.splits)
  qed (auto simp: st post_document_def delete_document_def post_search_def split: sum.splits option.splits prod.splits)
  show "filter (\<lambda>a. ac_id a \<noteq> u_id u) (sv_accounts (snd (act env hc u call st))) = filter (\<lambda>a. ac_id a \<noteq> u_id u) (sv_accounts st)"
    if na: "u_role u \<noteq> ADMIN"
  proof (cases call)
    case Post_Logout
    have "filter (\<lambda>a. ac_id a \<noteq> u_id u) (update_where (\<lambda>a. ac_id a = u_id u) f us) = filter (\<lambda>a. ac_id a \<noteq> u_id u) us"
      if "\<And>a. ac_id (f a) = ac_id a" for f and us :: "account list"
      by (subst filter_update_where) (auto simp: that intro!: update_where_False)
    then show ?thesis using Post_Logout by (simp add: logoutAll_def)
  next
    case (Patch_Role i b)
    then show ?thesis using assms(2) na manager_is_admin by (auto simp: permitted_def)
  qed (auto simp: st post_document_def delete_document_def post_search_def split: sum.splits option.splits prod.splits)
qed

section \<open>The server\<close>

fun response_id :: "http_response \<Rightarrow> string" where
  "response_id (Success rid n x) = rid"
| "response_id (Failure rid n c) = rid"

lemma safe_response: "SAFE_ID (hc_uuid hc) \<Longrightarrow> SAFE_ID (response_id (fst (serve env hc call st)))"
  by (auto simp: serve_def errorHandler_def requestId_def Let_def split: option.splits prod.splits sum.splits if_splits)

lemma set_windows_frame [simp]: "owned u (st\<lparr>sv_windows := ws\<rparr>) x = owned u st x"
  by (cases x) simp_all

text \<open>A protected call by its guards.\<close>

lemma serve_protected_cases:
  assumes "serve_protected env hc call st = (r, st')"
  obtains (unauthenticated) c where "authenticate (se_jwt env) (se_tokens env) (hc_now hc) (hc_authorization hc) = Inl (UnauthorizedError c)"
      "r = Inl (UnauthorizedError c)" "st' = st"
  | (refused) u err ws where "authenticate (se_jwt env) (se_tokens env) (hc_now hc) (hc_authorization hc) = Inr u" "r = Inl err"
      "fst (toHttpError (Raised err)) \<in> {403, 429, 500, 503}" "st' = st\<lparr>sv_windows := ws\<rparr>"
  | (served) u ws where "authenticate (se_jwt env) (se_tokens env) (hc_now hc) (hc_authorization hc) = Inr u" "permitted u call = Inr ()"
      "act env hc u call (st\<lparr>sv_windows := ws\<rparr>) = (r, st')"
proof (cases "authenticate (se_jwt env) (se_tokens env) (hc_now hc) (hc_authorization hc)")
  case (Inl err)
  then show ?thesis using assms unauthenticated authenticate_Inl[OF Inl] by (auto simp: serve_protected_def)
next
  case (Inr u)
  obtain r1 st1 where p1: "pass_limiters env hc (Some u) 0 (limiters_of call) st = (r1, st1)" by (cases "pass_limiters env hc (Some u) 0 (limiters_of call) st")
  obtain r2 st2 where p2: "pass_limiters env hc (Some u) (length (limiters_of call)) (late_limiters call) st1 = (r2, st2)"
    by (cases "pass_limiters env hc (Some u) (length (limiters_of call)) (late_limiters call) st1")
  note w = pass_limiters_cases[OF p1] pass_limiters_cases[OF p2]
  have limited: "fst (toHttpError (Raised err)) \<in> {403, 429, 500, 503}" if "err = AppError m c" "m \<in> {429, 503}" for err m c
    using that by (auto simp: toHttpError_def)
  show ?thesis
  proof (cases "r1 = Inr () \<and> permitted u call = Inr () \<and> r2 = Inr ()")
    case True
    then show ?thesis using assms Inr p1 p2 w served by (auto simp: serve_protected_def)
  next
    case False
    then have "\<exists>err. r = Inl err \<and> fst (toHttpError (Raised err)) \<in> {403, 429, 500, 503} \<and> (st' = st1 \<or> st' = st2)"
      using assms Inr p1 p2 w limited permitted_Inl[of u call] by (auto simp: serve_protected_def split: sum.splits)
    then show ?thesis using refused[OF Inr] w by auto
  qed
qed


definition demo_server_env :: "(unit, unit) server_env" where
  "demo_server_env =
     \<lparr>se_jwt = demo_jwt, se_tokens = demo_tokens, se_limiters = None, se_redis_up = True, se_oid_of = (\<lambda>s. if s = ''1'' then Some 1 else None),
      se_is_email = (\<lambda>_. True), se_number = (\<lambda>_. None), se_hash = id, se_compare = (=), se_dummyHash = [], se_sha = id, se_scalar = (\<lambda>_. []),
      se_deps = demo_deps, se_known_zone = (\<lambda>_. True), se_parses = (\<lambda>_ _. True), se_next_run = (\<lambda>_ _ _. None), se_rag = demo_rag,
      se_embedder = demo_embedder, se_faults = no_faults, se_delete_fault = None, se_new_id = 9, se_uuids = (\<lambda>_. ''u'')\<rparr>"

definition demo_server :: "(unit, unit) server" where
  "demo_server = \<lparr>sv_workflows = [], sv_world = (empty_db, ()), sv_accounts = [demo_account], sv_kb = empty_kb, sv_models = (), sv_windows = (\<lambda>_. no_key)\<rparr>"

definition demo_http_call :: http_call where
  "demo_http_call = \<lparr>hc_authorization = Some (''Bearer '' @ tk_access (issueTokens demo_jwt demo_tokens 0 demo_account)), hc_requestId = None, hc_uuid = ''r'',
     hc_ip = None, hc_email = None, hc_now = 5, hc_tags = (\<lambda>_. ''t''), hc_body_error = None\<rparr>"


end
