(* ===== verification/Wf_Analytics.thy ===== *)
theory Wf_Analytics
  imports Wf_Provider_Stack "HOL-Library.Multiset"
begin

text \<open>
  The reports of \<open>src/services/analytics.service.js\<close> and their routes: aggregations over the recorded calls of models and over
  the engine's database, restricted to the caller's own data. A document comes with its \<open>createdAt\<close>, which the store sets.
  Groups are in the order of their first document before they are sorted; \<open>$percentile\<close>, which is approximate, is a parameter,
  and numbers are exact.
\<close>

section \<open>Aggregation\<close>

definition group_by :: "('a \<Rightarrow> 'k) \<Rightarrow> 'a list \<Rightarrow> ('k \<times> 'a list) list" where
  "group_by key xs = map (\<lambda>k. (k, filter (\<lambda>x. key x = k) xs)) (remdups (map key xs))"

text \<open>\<open>{ $sort: { n: -1 } }\<close> on the size of the groups.\<close>

definition by_size :: "('k \<times> 'a list) list \<Rightarrow> ('k \<times> 'a list) list" where
  "by_size gs = sort_key (\<lambda>g. - int (length (snd g))) gs"

definition avg :: "rat list \<Rightarrow> rat option" where
  "avg xs = (if xs = [] then None else Some (sum_list xs / of_nat (length xs)))"

definition toFixed :: "nat \<Rightarrow> rat \<Rightarrow> rat" where
  "toFixed d x = (if x < 0 then - (of_int \<lfloor>- x * 10 ^ d + 1 / 2\<rfloor> / 10 ^ d) else of_int \<lfloor>x * 10 ^ d + 1 / 2\<rfloor> / 10 ^ d)"

definition Math_round :: "rat \<Rightarrow> int" where
  "Math_round x = \<lfloor>x + 1 / 2\<rfloor>"

definition or_zero :: "rat option \<Rightarrow> rat" where
  "or_zero x = (case x of None \<Rightarrow> 0 | Some v \<Rightarrow> v)"

section \<open>Calls of models\<close>

definition analytics_scope :: "user \<Rightarrow> oid option \<Rightarrow> bool" where
  "analytics_scope u ownerId \<longleftrightarrow> u_role u = ADMIN \<or> ownerId = Some (u_id u)"

definition matching :: "user \<Rightarrow> time \<Rightarrow> ('a \<Rightarrow> oid option) \<Rightarrow> (time \<times> 'a) list \<Rightarrow> 'a list" where
  "matching u since owner rows = map snd (filter (\<lambda>(createdAt, r). analytics_scope u (owner r) \<and> since \<le> createdAt) rows)"

record model_stats =
  ms_provider :: string
  ms_model :: string
  ms_operation :: string
  ms_calls :: int
  ms_errors :: int
  ms_errorRate :: rat
  ms_fallbacks :: int
  ms_avgLatencyMs :: int
  ms_p95LatencyMs :: int
  ms_inputTokens :: int
  ms_outputTokens :: int
  ms_totalTokens :: int
  ms_estimatedCostUsd :: rat

definition model_stats_of :: "(rat list \<Rightarrow> rat option) \<Rightarrow> (string \<times> string \<times> string) \<times> ai_execution list \<Rightarrow> model_stats" where
  "model_stats_of percentile g =
     (case g of ((provider, model, operation), rows) \<Rightarrow>
      let calls = int (length rows); errors = int (count_where (\<lambda>r. \<not> ax_success r) rows);
          latencies = map (\<lambda>r. of_int (ax_latencyMs r)) rows;
          inputTokens = sum_list (map ax_inputTokens rows); outputTokens = sum_list (map ax_outputTokens rows) in
      \<lparr>ms_provider = provider, ms_model = model, ms_operation = operation, ms_calls = calls, ms_errors = errors,
       ms_errorRate = toFixed 4 (of_int errors / of_int calls), ms_fallbacks = int (count_where ax_fallbackUsed rows),
       ms_avgLatencyMs = Math_round (or_zero (avg latencies)), ms_p95LatencyMs = Math_round (or_zero (percentile latencies)),
       ms_inputTokens = inputTokens, ms_outputTokens = outputTokens, ms_totalTokens = inputTokens + outputTokens,
       ms_estimatedCostUsd = toFixed 6 (sum_list (map ax_estimatedCostUsd rows))\<rparr>)"

record ai_totals =
  at_calls :: int
  at_errors :: int
  at_fallbacks :: int
  at_totalTokens :: int
  at_estimatedCostUsd :: rat

definition no_totals :: ai_totals where
  "no_totals = \<lparr>at_calls = 0, at_errors = 0, at_fallbacks = 0, at_totalTokens = 0, at_estimatedCostUsd = 0\<rparr>"

definition add_totals :: "ai_totals \<Rightarrow> model_stats \<Rightarrow> ai_totals" where
  "add_totals t m =
     \<lparr>at_calls = at_calls t + ms_calls m, at_errors = at_errors t + ms_errors m, at_fallbacks = at_fallbacks t + ms_fallbacks m,
      at_totalTokens = at_totalTokens t + ms_totalTokens m,
      at_estimatedCostUsd = toFixed 6 (at_estimatedCostUsd t + ms_estimatedCostUsd m)\<rparr>"

record ai_report =
  ar_from :: time
  ar_totals :: ai_totals
  ar_models :: "model_stats list"
  ar_byTaskType :: "(string \<times> int \<times> int) list"

definition row_owner :: "ai_execution \<Rightarrow> oid option" where
  "row_owner r = ac_ownerId (ax_context r)"

definition by_task_type :: "ai_execution list \<Rightarrow> (string \<times> int \<times> int) list" where
  "by_task_type rows =
     map (\<lambda>(ty, rs). (the ty, int (length rs), sum_list (map ax_totalTokens rs)))
       (by_size (group_by (\<lambda>r. ac_taskType (ax_context r)) (filter (\<lambda>r. ac_taskType (ax_context r) \<noteq> None) rows)))"

definition ai :: "(rat list \<Rightarrow> rat option) \<Rightarrow> (time \<times> ai_execution) list \<Rightarrow> user \<Rightarrow> time \<Rightarrow> ai_report" where
  "ai percentile collection u since =
     (let rows = matching u since row_owner collection;
          models = map (model_stats_of percentile) (by_size (group_by (\<lambda>r. (ax_provider r, ax_model r, ax_operation r)) rows)) in
      \<lparr>ar_from = since, ar_totals = foldl add_totals no_totals models, ar_models = models, ar_byTaskType = by_task_type rows\<rparr>)"

section \<open>Runs\<close>

record workflow_report =
  wr_from :: time
  wr_total :: int
  wr_byStatus :: "(execution_status \<times> int) list"
  wr_successRate :: "rat option"
  wr_avgMs :: int
  wr_p95Ms :: int
  wr_attempts :: int
  wr_retries :: int
  wr_abandoned :: int
  wr_topFailing :: "(string \<times> int) list"

definition durations :: "execution list \<Rightarrow> rat list" where
  "durations es = List.map_filter (\<lambda>e. case (e_completedAt e, e_startedAt e) of
       (Some c, Some s) \<Rightarrow> if e_status e = E_COMPLETED then Some (of_int (c - s)) else None | _ \<Rightarrow> None) es"

definition count_of :: "execution_status \<Rightarrow> (execution_status \<times> int) list \<Rightarrow> int" where
  "count_of s counts = (case map_of counts s of None \<Rightarrow> 0 | Some n \<Rightarrow> n)"

definition workflows :: "(rat list \<Rightarrow> rat option) \<Rightarrow> (oid \<Rightarrow> time) \<Rightarrow> db \<Rightarrow> user \<Rightarrow> time \<Rightarrow> workflow_report" where
  "workflows percentile created db u since =
     (let es = matching u since (\<lambda>e. Some (e_ownerId e)) (map (\<lambda>e. (created (e_id e), e)) (executions db));
          counts = map (\<lambda>(s, xs). (s, int (length xs))) (group_by e_status es);
          finished = count_of E_COMPLETED counts + count_of E_FAILED counts;
          ids = map e_id es;
          failing = by_size (group_by t_type (filter (\<lambda>t. t_executionId t \<in> set ids \<and> t_status t \<in> {T_FAILED, T_DEAD_LETTER}) (tasks db)));
          atts = filter (\<lambda>a. a_executionId a \<in> set ids) (attempts db) in
      \<lparr>wr_from = since, wr_total = sum_list (map snd counts), wr_byStatus = counts,
       wr_successRate = (if finished \<noteq> 0 then Some (toFixed 4 (of_int (count_of E_COMPLETED counts) / of_int finished)) else None),
       wr_avgMs = Math_round (or_zero (avg (durations es))), wr_p95Ms = Math_round (or_zero (percentile (durations es))),
       wr_attempts = int (length atts), wr_retries = int (count_where (\<lambda>a. 1 < a_attempt a) atts),
       wr_abandoned = int (count_where (\<lambda>a. a_status a = A_ABANDONED) atts),
       wr_topFailing = map (\<lambda>(ty, ts). (ty, int (length ts))) (take 5 failing)\<rparr>)"

section \<open>Routes\<close>

text \<open>\<open>?days=\<close>, parsed as a number.\<close>

definition windowSchema :: "(string \<Rightarrow> int option) \<Rightarrow> string option \<Rightarrow> int option" where
  "windowSchema read v = (case v of None \<Rightarrow> Some 7
     | Some s \<Rightarrow> (case read s of None \<Rightarrow> None | Some n \<Rightarrow> if 1 \<le> n \<and> n \<le> 90 then Some n else None))"

definition fromDays :: "time \<Rightarrow> int \<Rightarrow> time" where
  "fromDays now days = now - days * 24 * 3600 * 1000"

definition get_analytics :: "(string \<Rightarrow> int option) \<Rightarrow> (user \<Rightarrow> time \<Rightarrow> 'a) \<Rightarrow> user option \<Rightarrow> string option \<Rightarrow> time \<Rightarrow> 'a result" where
  "get_analytics read aggregate usr days now =
     bind_result (requirePermission ANALYTICS_READ usr) (\<lambda>_.
       case (windowSchema read days, usr) of
         (Some n, Some u) \<Rightarrow> Inr (aggregate u (fromDays now n))
       | _ \<Rightarrow> Inl (ValidationError ''VALIDATION_ERROR''))"

section \<open>Grouping loses nothing\<close>

lemma group_by_filter: "g \<in> set (group_by key xs) \<longleftrightarrow> (\<exists>x \<in> set xs. g = (key x, filter (\<lambda>y. key y = key x) xs))"
  by (auto simp: group_by_def)

lemma sum_filter_distinct:
  fixes f :: "'a \<Rightarrow> 'b :: comm_monoid_add"
  assumes "distinct ks" "key ` set xs \<subseteq> set ks"
  shows "sum_list (map (\<lambda>k. sum_list (map f (filter (\<lambda>x. key x = k) xs))) ks) = sum_list (map f xs)"
  using assms(2)
proof (induction xs)
  case (Cons x xs)
  have "sum_list (map (\<lambda>k. sum_list (map f (filter (\<lambda>y. key y = k) (x # xs)))) ks)
      = sum_list (map (\<lambda>k. (if k = key x then f x else 0) + sum_list (map f (filter (\<lambda>y. key y = k) xs))) ks)"
    by (rule arg_cong[where f = sum_list], rule map_cong) auto
  also have "\<dots> = sum_list (map (\<lambda>k. if k = key x then f x else 0) ks) + sum_list (map f xs)"
    using Cons by (simp add: sum_list_addf)
  also have "sum_list (map (\<lambda>k. if k = key x then f x else 0) ks) = f x"
    using assms(1) Cons.prems by (simp add: sum_list_distinct_conv_sum_set)
  finally show ?case by simp
qed simp

lemma sum_groups:
  fixes f :: "'a \<Rightarrow> 'b :: comm_monoid_add"
  shows "sum_list (map (\<lambda>g. sum_list (map f (snd g))) (group_by key xs)) = sum_list (map f xs)"
  using sum_filter_distinct[of "remdups (map key xs)" key xs f] by (simp add: group_by_def o_def)

lemma sum_by_size [simp]:
  fixes f :: "'k \<times> 'a list \<Rightarrow> 'b :: comm_monoid_add"
  shows "sum_list (map f (by_size gs)) = sum_list (map f gs)"
proof -
  have "image_mset f (mset (by_size gs)) = image_mset f (mset gs)" by (simp add: by_size_def)
  then show ?thesis by (metis mset_map sum_mset_sum_list)
qed

lemma set_by_size [simp]: "set (by_size gs) = set gs" "length (by_size gs) = length gs"
  by (simp_all add: by_size_def)

lemma count_sum: "int (count_where P xs) = sum_list (map (\<lambda>x. if P x then 1 else 0) xs)"
  by (induction xs) simp_all

lemma length_sum: "int (length xs) = sum_list (map (\<lambda>_. 1) xs)"
  by (induction xs) simp_all

section \<open>Rounding\<close>

lemma toFixed_error: "\<bar>toFixed d x - x\<bar> \<le> 1 / (2 * 10 ^ d)"
proof -
  have r: "\<bar>of_int \<lfloor>y * 10 ^ d + 1 / 2\<rfloor> / 10 ^ d - y\<bar> \<le> 1 / (2 * 10 ^ d)" for y :: rat
  proof -
    let ?n = "of_int \<lfloor>y * 10 ^ d + 1 / 2\<rfloor> :: rat"
    have "\<bar>?n - y * 10 ^ d\<bar> \<le> 1 / 2" by linarith
    then have "\<bar>?n - y * 10 ^ d\<bar> / 10 ^ d \<le> (1 / 2) / 10 ^ d" by (intro divide_right_mono) simp_all
    moreover have "?n / 10 ^ d - y = (?n - y * 10 ^ d) / 10 ^ d" by (simp add: diff_divide_distrib)
    then have "\<bar>?n / 10 ^ d - y\<bar> = \<bar>?n - y * 10 ^ d\<bar> / 10 ^ d" by (simp only: abs_divide) simp
    ultimately show ?thesis by simp
  qed
  show ?thesis using r[of x] r[of "- x"] by (auto simp: toFixed_def)
qed

lemma toFixed_multiple: "toFixed d (of_int n / 10 ^ d) = of_int n / 10 ^ d"
proof -
  have "\<lfloor>of_int m + 1 / 2 :: rat\<rfloor> = m" for m by linarith
  from this[of n] this[of "- n"] show ?thesis by (auto simp: toFixed_def)
qed

lemma toFixed_is_multiple: "\<exists>n. toFixed d x = of_int n / 10 ^ d"
  unfolding toFixed_def by (metis minus_divide_left of_int_minus)

lemma toFixed_bounds: "0 \<le> x \<Longrightarrow> x \<le> 1 \<Longrightarrow> 0 \<le> toFixed d x \<and> toFixed d x \<le> 1"
proof -
  assume x: "0 \<le> x" "x \<le> 1"
  have "x * 10 ^ d \<le> 1 * 10 ^ d" using x by (intro mult_right_mono) simp_all
  then have "\<lfloor>x * 10 ^ d + 1 / 2\<rfloor> \<le> \<lfloor>of_int (10 ^ d) + 1 / 2 :: rat\<rfloor>" by (intro floor_mono) simp
  also have "\<dots> = 10 ^ d" by linarith
  finally have "of_int \<lfloor>x * 10 ^ d + 1 / 2\<rfloor> \<le> (10 ^ d :: rat)" by (metis of_int_le_iff of_int_numeral of_int_power)
  then show ?thesis using x by (auto simp: toFixed_def)
qed

text \<open>Adding up rounded costs rounds nothing more.\<close>

lemma add_totals_sum:
  assumes "\<exists>n. at_estimatedCostUsd t = of_int n / 10 ^ 6" "\<forall>m \<in> set ms. \<exists>n. ms_estimatedCostUsd m = of_int n / 10 ^ 6"
  shows "foldl add_totals t ms =
    \<lparr>at_calls = at_calls t + sum_list (map ms_calls ms), at_errors = at_errors t + sum_list (map ms_errors ms),
     at_fallbacks = at_fallbacks t + sum_list (map ms_fallbacks ms), at_totalTokens = at_totalTokens t + sum_list (map ms_totalTokens ms),
     at_estimatedCostUsd = at_estimatedCostUsd t + sum_list (map ms_estimatedCostUsd ms)\<rparr>"
  using assms
proof (induction ms arbitrary: t)
  case (Cons m ms)
  obtain a b where ab: "at_estimatedCostUsd t = of_int a / 10 ^ 6" "ms_estimatedCostUsd m = of_int b / 10 ^ 6" using Cons.prems by auto
  have c: "toFixed 6 (at_estimatedCostUsd t + ms_estimatedCostUsd m) = at_estimatedCostUsd t + ms_estimatedCostUsd m"
    using toFixed_multiple[of 6 "a + b"] unfolding ab by (simp only: of_int_add add_divide_distrib)
  have "\<exists>n. at_estimatedCostUsd (add_totals t m) = of_int n / 10 ^ 6"
    unfolding add_totals_def ai_totals.simps by (rule toFixed_is_multiple)
  from Cons.IH[OF this] Cons.prems(2) show ?case by (simp add: add_totals_def c add_ac)
qed simp

section \<open>The reports\<close>

lemma matching_hidden:
  "\<not> analytics_scope u (owner r) \<Longrightarrow> matching u since owner (xs @ (t, r) # ys) = matching u since owner (xs @ ys)"
  by (simp add: matching_def)

text \<open>The groups of a report of models, with their sums.\<close>

lemma ai_models:
  assumes "rows = matching u since row_owner collection" "ms = ar_models (ai percentile collection u since)"
  shows "sum_list (map ms_calls ms) = int (length rows)"
    "sum_list (map ms_errors ms) = int (count_where (\<lambda>r. \<not> ax_success r) rows)"
    "sum_list (map ms_fallbacks ms) = int (count_where ax_fallbackUsed rows)"
    "sum_list (map ms_totalTokens ms) = sum_list (map (\<lambda>r. ax_inputTokens r + ax_outputTokens r) rows)"
    "\<bar>sum_list (map ms_estimatedCostUsd ms) - sum_list (map ax_estimatedCostUsd rows)\<bar> \<le> of_nat (length ms) / (2 * 10 ^ 6)"
proof -
  let ?gs = "by_size (group_by (\<lambda>r. (ax_provider r, ax_model r, ax_operation r)) rows)"
  have ms: "ms = map (model_stats_of percentile) ?gs" by (simp add: assms ai_def Let_def)
  have f: "ms_calls (model_stats_of percentile g) = int (length (snd g))"
    "ms_errors (model_stats_of percentile g) = int (count_where (\<lambda>r. \<not> ax_success r) (snd g))"
    "ms_fallbacks (model_stats_of percentile g) = int (count_where ax_fallbackUsed (snd g))"
    "ms_totalTokens (model_stats_of percentile g) = sum_list (map (\<lambda>r. ax_inputTokens r + ax_outputTokens r) (snd g))"
    "ms_estimatedCostUsd (model_stats_of percentile g) = toFixed 6 (sum_list (map ax_estimatedCostUsd (snd g)))" for g
    by (simp_all add: model_stats_of_def Let_def sum_list_addf split: prod.splits)
  show "sum_list (map ms_calls ms) = int (length rows)" unfolding ms map_map o_def f length_sum sum_by_size sum_groups ..
  show "sum_list (map ms_errors ms) = int (count_where (\<lambda>r. \<not> ax_success r) rows)"
    unfolding ms map_map o_def f count_sum sum_by_size sum_groups ..
  show "sum_list (map ms_fallbacks ms) = int (count_where ax_fallbackUsed rows)"
    unfolding ms map_map o_def f count_sum sum_by_size sum_groups ..
  show "sum_list (map ms_totalTokens ms) = sum_list (map (\<lambda>r. ax_inputTokens r + ax_outputTokens r) rows)"
    unfolding ms map_map o_def f sum_by_size sum_groups ..
  have "\<bar>sum_list (map (\<lambda>g. toFixed 6 (c g)) gs) - sum_list (map c gs)\<bar> \<le> of_nat (length gs) / (2 * 10 ^ 6)"
    for c :: "(string \<times> string \<times> string) \<times> ai_execution list \<Rightarrow> rat" and gs
  proof (induction gs)
    case (Cons g gs)
    have "\<bar>(a + b) - (a' + b')\<bar> \<le> p + q" if "\<bar>a - a'\<bar> \<le> p" "\<bar>b - b'\<bar> \<le> q" for a b a' b' p q :: rat using that by linarith
    from this[OF toFixed_error[of 6 "c g"] Cons.IH] show ?case by (simp add: add_divide_distrib)
  qed simp
  from this[of "\<lambda>g. sum_list (map ax_estimatedCostUsd (snd g))" ?gs]
  show "\<bar>sum_list (map ms_estimatedCostUsd ms) - sum_list (map ax_estimatedCostUsd rows)\<bar> \<le> of_nat (length ms) / (2 * 10 ^ 6)"
    by (simp only: ms map_map o_def f sum_by_size sum_groups length_map)
qed

text \<open>The report of model calls is complete and private. Grouping by model, sorting and adding up again loses and doubles nothing: the
  totals are the number of calls the caller may see in the window, of the errors and fallbacks among them, and of their tokens; the
  cost, rounded for each model and after each addition, is within half a millionth of a dollar per model of the exact sum; error rates
  are between 0 and 1; and a call on behalf of someone else changes nothing in the report of a user who is no administrator.\<close>

theorem ai_report_complete:
  assumes "rows = matching u since row_owner collection" "rep = ai percentile collection u since"
  shows "at_calls (ar_totals rep) = int (length rows)
    \<and> at_errors (ar_totals rep) = int (count_where (\<lambda>r. \<not> ax_success r) rows)
    \<and> at_fallbacks (ar_totals rep) = int (count_where ax_fallbackUsed rows)
    \<and> at_totalTokens (ar_totals rep) = sum_list (map (\<lambda>r. ax_inputTokens r + ax_outputTokens r) rows)
    \<and> \<bar>at_estimatedCostUsd (ar_totals rep) - sum_list (map ax_estimatedCostUsd rows)\<bar> \<le> of_nat (length (ar_models rep)) / (2 * 10 ^ 6)
    \<and> (\<forall>m \<in> set (ar_models rep). 0 \<le> ms_errorRate m \<and> ms_errorRate m \<le> 1)
    \<and> (collection = xs @ (t, r) # ys \<longrightarrow> u_role u \<noteq> ADMIN \<longrightarrow> row_owner r \<noteq> Some (u_id u) \<longrightarrow> rep = ai percentile (xs @ ys) u since)"
proof -
  let ?ms = "ar_models rep"
  let ?gs = "by_size (group_by (\<lambda>r. (ax_provider r, ax_model r, ax_operation r)) rows)"
  have ms: "?ms = map (model_stats_of percentile) ?gs" by (simp add: assms ai_def Let_def)
  have "\<forall>m \<in> set ?ms. \<exists>n. ms_estimatedCostUsd m = of_int n / 10 ^ 6"
  proof
    fix m assume "m \<in> set ?ms"
    then obtain xs where "ms_estimatedCostUsd m = toFixed 6 xs"
      unfolding ms by (auto simp: model_stats_of_def Let_def split: prod.splits)
    then show "\<exists>n. ms_estimatedCostUsd m = of_int n / 10 ^ 6" using toFixed_is_multiple by metis
  qed
  moreover have "\<exists>n. at_estimatedCostUsd no_totals = of_int n / 10 ^ 6" by (auto simp: no_totals_def intro: exI[of _ 0])
  ultimately have "ar_totals rep = \<lparr>at_calls = sum_list (map ms_calls ?ms), at_errors = sum_list (map ms_errors ?ms),
      at_fallbacks = sum_list (map ms_fallbacks ?ms), at_totalTokens = sum_list (map ms_totalTokens ?ms),
      at_estimatedCostUsd = sum_list (map ms_estimatedCostUsd ?ms)\<rparr>"
    using add_totals_sum[of no_totals ?ms] by (simp add: assms(2) ai_def Let_def no_totals_def)
  then have sums: "at_calls (ar_totals rep) = int (length rows)" "at_errors (ar_totals rep) = int (count_where (\<lambda>r. \<not> ax_success r) rows)"
    "at_fallbacks (ar_totals rep) = int (count_where ax_fallbackUsed rows)"
    "at_totalTokens (ar_totals rep) = sum_list (map (\<lambda>r. ax_inputTokens r + ax_outputTokens r) rows)"
    "\<bar>at_estimatedCostUsd (ar_totals rep) - sum_list (map ax_estimatedCostUsd rows)\<bar> \<le> of_nat (length ?ms) / (2 * 10 ^ 6)"
    using ai_models[OF assms(1), of ?ms percentile] assms(2) by simp_all
  have "0 \<le> ms_errorRate m \<and> ms_errorRate m \<le> 1" if m: "m \<in> set ?ms" for m
  proof -
    obtain g where g: "m = model_stats_of percentile g" using m ms by auto
    have "int (count_where (\<lambda>r. \<not> ax_success r) (snd g)) \<le> int (length (snd g))" by (simp add: count_where_le_length)
    then show ?thesis unfolding g by (auto simp: model_stats_of_def Let_def divide_le_eq_1 intro!: toFixed_bounds split: prod.splits)
  qed
  moreover have "rep = ai percentile (xs @ ys) u since" if "collection = xs @ (t, r) # ys" "u_role u \<noteq> ADMIN" "row_owner r \<noteq> Some (u_id u)"
    using matching_hidden[of u row_owner r since xs t ys] that by (simp add: assms(2) ai_def analytics_scope_def)
  ultimately show ?thesis using sums by blast
qed

definition demo_row :: "string \<Rightarrow> bool \<Rightarrow> rat \<Rightarrow> oid \<Rightarrow> ai_execution" where
  "demo_row model ok cost owner_id =
     \<lparr>ax_operation = ''chat'', ax_context = \<lparr>ac_executionId = None, ac_taskId = None, ac_ownerId = Some owner_id, ac_taskType = None\<rparr>,
      ax_provider = ''p'', ax_model = model, ax_success = ok, ax_error = None, ax_retryable = None, ax_fallbackUsed = False, ax_latencyMs = 5,
      ax_inputTokens = 2, ax_outputTokens = 3, ax_totalTokens = 5, ax_estimatedCostUsd = cost\<rparr>"

theorem ai_report_complete_witness:
  "at_calls (ar_totals (ai (\<lambda>_. None) [(10, demo_row ''a'' True (1 / 3000000) 7), (11, demo_row ''b'' False 0 7), (12, demo_row ''a'' True 1 8)]
      \<lparr>u_id = 7, u_role = OPERATOR\<rparr> 5)) = 2"
proof -
  have "matching \<lparr>u_id = 7, u_role = OPERATOR\<rparr> 5 row_owner
      [(10, demo_row ''a'' True (1 / 3000000) 7), (11, demo_row ''b'' False 0 7), (12, demo_row ''a'' True 1 8)]
      = [demo_row ''a'' True (1 / 3000000) 7, demo_row ''b'' False 0 7]"
    by (simp add: matching_def analytics_scope_def row_owner_def demo_row_def)
  then show ?thesis
    using ai_report_complete[OF refl refl, where u = "\<lparr>u_id = 7, u_role = OPERATOR\<rparr>" and since = 5 and percentile = "\<lambda>_. None" and collection =
        "[(10, demo_row ''a'' True (1 / 3000000) 7), (11, demo_row ''b'' False 0 7), (12, demo_row ''a'' True 1 8)]"] by simp
qed

text \<open>The report of runs: the counts by status add up to the runs the caller may see.\<close>

lemma count_of_groups: "count_of s (map (\<lambda>(s, xs). (s, int (length xs))) (group_by e_status es)) = int (count_where (\<lambda>e. e_status e = s) es)"
proof -
  have m: "map (\<lambda>(s, xs). (s, int (length xs))) (group_by e_status es)
      = map (\<lambda>k. (k, int (count_where (\<lambda>e. e_status e = k) es))) (remdups (map e_status es))"
    by (simp add: group_by_def count_where_def)
  show ?thesis unfolding count_of_def m map_of_map_restrict by (auto simp: restrict_map_def count_where_def filter_empty_conv)
qed

text \<open>The report of runs is consistent. The total is the number of runs of the window the caller may see, and the count of every
  status is the number of those runs in it; there is a success rate exactly if a run completed or failed, and it is between 0 and 1; the
  retries and the abandoned attempts are among the attempts.\<close>

theorem workflow_report_consistent:
  assumes "es = matching u since (\<lambda>e. Some (e_ownerId e)) (map (\<lambda>e. (created (e_id e), e)) (executions db))"
    "rep = workflows percentile created db u since"
  shows "wr_total rep = int (length es)
    \<and> (\<forall>s. count_of s (wr_byStatus rep) = int (count_where (\<lambda>e. e_status e = s) es))
    \<and> (case wr_successRate rep of
         None \<Rightarrow> \<forall>e \<in> set es. e_status e \<notin> {E_COMPLETED, E_FAILED}
       | Some r \<Rightarrow> (\<exists>e \<in> set es. e_status e \<in> {E_COMPLETED, E_FAILED}) \<and> 0 \<le> r \<and> r \<le> 1)
    \<and> 0 \<le> wr_retries rep \<and> wr_retries rep \<le> wr_attempts rep \<and> wr_abandoned rep \<le> wr_attempts rep \<and> length (wr_topFailing rep) \<le> 5"
proof -
  let ?counts = "map (\<lambda>(s, xs). (s, int (length xs))) (group_by e_status es)"
  have c: "wr_byStatus rep = ?counts" "wr_total rep = sum_list (map snd ?counts)" by (simp_all add: assms workflows_def Let_def)
  have snds: "map snd ?counts = map (\<lambda>g. int (length (snd g))) (group_by e_status es)" by auto
  have "wr_total rep = int (length es)" 
    using sum_groups[of "\<lambda>_. 1 :: int" e_status es] unfolding c(2) snds by (simp add: length_sum)
  moreover have "count_of s (wr_byStatus rep) = int (count_where (\<lambda>e. e_status e = s) es)" for s unfolding c(1) by (rule count_of_groups)
  moreover have "case wr_successRate rep of
         None \<Rightarrow> \<forall>e \<in> set es. e_status e \<notin> {E_COMPLETED, E_FAILED}
       | Some r \<Rightarrow> (\<exists>e \<in> set es. e_status e \<in> {E_COMPLETED, E_FAILED}) \<and> 0 \<le> r \<and> r \<le> 1"
  proof -
    let ?c = "int (count_where (\<lambda>e. e_status e = E_COMPLETED) es)" and ?f = "int (count_where (\<lambda>e. e_status e = E_FAILED) es)"
    have s: "wr_successRate rep = (if ?c + ?f \<noteq> 0 then Some (toFixed 4 (of_int ?c / of_int (?c + ?f))) else None)"
      unfolding count_of_groups[symmetric] by (simp add: assms workflows_def Let_def)
    have "?c + ?f = 0 \<longleftrightarrow> count_where (\<lambda>e. e_status e = E_COMPLETED) es = 0 \<and> count_where (\<lambda>e. e_status e = E_FAILED) es = 0" by linarith
    then have z: "?c + ?f = 0 \<longleftrightarrow> (\<forall>e \<in> set es. e_status e \<notin> {E_COMPLETED, E_FAILED})" by auto
    show ?thesis
    proof (cases "?c + ?f = 0")
      case False
      have "0 \<le> (of_int ?c / of_int (?c + ?f) :: rat)" "(of_int ?c / of_int (?c + ?f) :: rat) \<le> 1"
        by (simp, subst divide_le_eq_1) (use False in linarith)
      then have "0 \<le> toFixed 4 (of_int ?c / of_int (?c + ?f)) \<and> toFixed 4 (of_int ?c / of_int (?c + ?f)) \<le> 1" by (rule toFixed_bounds)
      moreover have "\<exists>e \<in> set es. e_status e \<in> {E_COMPLETED, E_FAILED}" using False z by blast
      moreover have "wr_successRate rep = Some (toFixed 4 (of_int ?c / of_int (?c + ?f)))" using False s by simp
      ultimately show ?thesis by (simp only: option.case)
    qed (use s z in simp)
  qed
  moreover have "0 \<le> wr_retries rep \<and> wr_retries rep \<le> wr_attempts rep \<and> wr_abandoned rep \<le> wr_attempts rep \<and> length (wr_topFailing rep) \<le> 5"
    by (simp add: assms workflows_def Let_def count_where_le_length)
  ultimately show ?thesis by blast
qed

theorem workflow_report_consistent_witness: "wr_total (workflows (\<lambda>_. None) (\<lambda>_. 0) empty_db \<lparr>u_id = 7, u_role = OPERATOR\<rparr> 5) = 0"
  using workflow_report_consistent[OF refl refl, where db = empty_db and u = "\<lparr>u_id = 7, u_role = OPERATOR\<rparr>" and since = 5
      and percentile = "\<lambda>_. None" and created = "\<lambda>_. 0"]
  by (simp add: matching_def empty_db_def)

end
