(* ===== verification/Wf_Approvals.thy ===== *)
theory Wf_Approvals
  imports Wf_Engine_Correct
begin

text \<open>
  Human approval in the engine: a task waits exactly while its approval is pending, ends as the decision says, and a decision is final.
  The steps are those of \<open>Wf_Engine_Steps\<close>, by any process in any order.
\<close>

section \<open>What a step does to the statuses of a run\<close>

text \<open>A status that only a decision or a cancellation may change.\<close>

definition fixed :: "task_status \<Rightarrow> bool" where
  "fixed s \<longleftrightarrow> s \<in> {T_WAITING_FOR_APPROVAL, T_COMPLETED, T_FAILED, T_DEAD_LETTER, T_CANCELLED}"

text \<open>The tasks \<open>K\<close> take the status \<open>s\<close>; the others keep a fixed status and get none, unless they are cancelled.\<close>

definition touches :: "(key \<Rightarrow> bool) \<Rightarrow> task_status \<Rightarrow> ctask \<Rightarrow> ctask \<Rightarrow> bool" where
  "touches K s t t' \<longleftrightarrow> c_key t' = c_key t \<and>
     (if K (c_key t) then c_status t' = s
      else (fixed (c_status t) \<longrightarrow> c_status t' = c_status t) \<and> (fixed (c_status t') \<longrightarrow> c_status t' \<in> {c_status t, T_CANCELLED}))"

lemma touches_run:
  "list_all2 (touches (\<lambda>j. j = k) s) (cr_tasks r) (cr_tasks (c_move k s r))"
  "list_all2 (touches (\<lambda>j. j = k) T_COMPLETED) (cr_tasks r) (cr_tasks (c_succeed k ds r))"
  "s \<in> {T_FAILED, T_DEAD_LETTER} \<Longrightarrow> list_all2 (touches (\<lambda>j. j = k) s) (cr_tasks r) (cr_tasks (c_fail s k r))"
  "list_all2 (touches (\<lambda>_. False) s) (cr_tasks r) (cr_tasks (c_resume r))"
  by (auto simp: c_move_def c_succeed_def c_fail_def c_resume_def set_status_def release_def promote_zero_def cancel_in_def update_where_def
      touches_def fixed_def unstarted_def Let_def list.rel_map intro!: list.rel_refl_strong)

lemma touches_same: "list_all2 (touches (\<lambda>_. False) s) ts ts"
  by (auto simp: touches_def intro!: list.rel_refl_strong)

section \<open>Lifting to documents\<close>

lemma same_names:
  assumes "updates_run i F db db'" "t' \<in> set (tasks db')"
  obtains t where "t \<in> set (tasks db)" "t_id t = t_id t'" "t_executionId t = t_executionId t'" "t_key t = t_key t'"
proof -
  have "(t_id t', t_executionId t', t_key t') \<in> set (task_names db)"
    using assms by (simp add: updates_run_def task_names_def) (metis (no_types, lifting) image_eqI list.set_map)
  then show ?thesis using that by (auto simp: task_names_def)
qed

lemma touched_task:
  assumes "db_inv db" "db_inv db'" "updates_run i F db db'"
    "\<And>r. view i db = Some r \<Longrightarrow> list_all2 (touches K s) (cr_tasks r) (cr_tasks (F r))"
    "t \<in> set (tasks db)" "t' \<in> set (tasks db')" "t_id t' = t_id t"
  shows "touches (\<lambda>k. t_executionId t = i \<and> K k) s (ctask_of t) (ctask_of t') \<and> t_executionId t' = t_executionId t"
proof -
  obtain t0 where t0: "t0 \<in> set (tasks db)" "t_id t0 = t_id t'" "t_executionId t0 = t_executionId t'" "t_key t0 = t_key t'"
    by (rule same_names[OF assms(3,6)])
  have "t0 = t" using t0(1,2) assms(1,5,7) distinct_map_eqD[OF db_okD(2)] unfolding db_inv_def by metis
  then have same: "t_executionId t' = t_executionId t" "t_key t' = t_key t" using t0 by simp_all
  obtain r where r: "view (t_executionId t) db = Some r" "crun_inv r" "ctask_of t \<in> set (cr_tasks r)"
    using db_inv_view[OF assms(1,5)] by metis
  obtain r' where r': "view (t_executionId t) db' = Some r'" "crun_inv r'" "ctask_of t' \<in> set (cr_tasks r')"
    using db_inv_view[OF assms(2,6)] same by metis
  have one: "c = ctask_of t'" if "c \<in> set (cr_tasks r')" "c_key c = t_key t" for c
    using that r'(3) same distinct_map_eqD[OF crun_invD(2)[OF r'(2)]] by (metis ctask_of_simps(1))
  have R: "list_all2 (touches (\<lambda>k. t_executionId t = i \<and> K k) s) (cr_tasks r) (cr_tasks r')"
  proof (cases "t_executionId t = i")
    case True
    then show ?thesis using assms(3,4) r(1) r'(1) by (simp add: updates_run_def)
  next
    case False
    then show ?thesis using assms(3) r(1) r'(1) touches_same by (simp add: updates_run_def)
  qed
  then obtain c where c: "c \<in> set (cr_tasks r')" "touches (\<lambda>k. t_executionId t = i \<and> K k) s (ctask_of t) c"
    using r(3) by (metis (no_types, lifting) in_set_conv_nth list_all2_conv_all_nth)
  then have "c = ctask_of t'" by (intro one) (simp_all add: touches_def)
  then show ?thesis using c(2) same(1) by simp
qed

text \<open>Every task of the old database in the new one.\<close>

lemma task_in_new:
  assumes "updates_run i F db db'" "t \<in> set (tasks db)"
  obtains t' where "t' \<in> set (tasks db')" "t_id t' = t_id t"
proof -
  have "(t_id t, t_executionId t) \<in> set (task_ids db')" using assms by (auto simp: updates_run_def task_ids_def)
  then show ?thesis using that by (auto simp: task_ids_def)
qed

lemma key_unique:
  assumes "db_inv db" "t \<in> set (tasks db)" "u \<in> set (tasks db)" "t_executionId u = t_executionId t" "t_key u = t_key t"
  shows "u = t"
  using assms task_unique[OF assms(1-3)] distinct_map_eqD[OF db_okD(2)] unfolding db_inv_def by metis

text \<open>Which tasks have a fixed status other than cancelled after a step.\<close>

definition has_status :: "task_status \<Rightarrow> oid \<Rightarrow> db \<Rightarrow> bool" where
  "has_status u j db \<longleftrightarrow> (\<exists>t \<in> set (tasks db). t_id t = j \<and> t_status t = u)"

lemma has_status_task: "db_inv db \<Longrightarrow> t \<in> set (tasks db) \<Longrightarrow> has_status u (t_id t) db \<longleftrightarrow> t_status t = u"
  using distinct_map_eqD[OF db_okD(2)] unfolding db_inv_def has_status_def by metis

lemma touched_status:
  assumes "db_inv db" "db_inv db'" "updates_run i F db db'"
    "\<And>r. view i db = Some r \<Longrightarrow> list_all2 (touches K s) (cr_tasks r) (cr_tasks (F r))" "fixed u" "u \<noteq> T_CANCELLED"
  shows "has_status u j db' \<longleftrightarrow> (\<exists>t \<in> set (tasks db). t_id t = j \<and> (if t_executionId t = i \<and> K (t_key t) then s = u else t_status t = u))"
proof
  assume "has_status u j db'"
  then obtain t' where t': "t' \<in> set (tasks db')" "t_id t' = j" "t_status t' = u" by (auto simp: has_status_def)
  obtain t where t: "t \<in> set (tasks db)" "t_id t = t_id t'" by (rule same_names[OF assms(3) t'(1)])
  show "\<exists>t \<in> set (tasks db). t_id t = j \<and> (if t_executionId t = i \<and> K (t_key t) then s = u else t_status t = u)"
    using touched_task[OF assms(1-4) t(1) t'(1)] t t' assms(5,6) by (intro bexI[OF _ t(1)]) (auto simp: touches_def split: if_splits)
next
  assume "\<exists>t \<in> set (tasks db). t_id t = j \<and> (if t_executionId t = i \<and> K (t_key t) then s = u else t_status t = u)"
  then obtain t where t: "t \<in> set (tasks db)" "t_id t = j" "if t_executionId t = i \<and> K (t_key t) then s = u else t_status t = u" by blast
  obtain t' where t': "t' \<in> set (tasks db')" "t_id t' = t_id t" by (rule task_in_new[OF assms(3) t(1)])
  show "has_status u j db'"
    using touched_task[OF assms(1-4) t(1) t'] t t' assms(5) unfolding has_status_def by (intro bexI[OF _ t'(1)]) (auto simp: touches_def split: if_splits)
qed

section \<open>The gate\<close>

fun status_for :: "approval_status \<Rightarrow> task_status" where
  "status_for P_PENDING = T_WAITING_FOR_APPROVAL"
| "status_for P_APPROVED = T_COMPLETED"
| "status_for P_REJECTED = T_FAILED"
| "status_for P_EXPIRED = T_FAILED"
| "status_for P_CANCELLED = T_CANCELLED"

text \<open>Approvals and tasks match.\<close>

definition gate :: "db \<Rightarrow> bool" where
  "gate db \<longleftrightarrow> distinct (map p_taskId (approvals db)) \<and> distinct (map p_id (approvals db)) \<and> (\<forall>p \<in> set (approvals db). p_id p < next_id db)
     \<and> (\<forall>p \<in> set (approvals db). \<exists>t \<in> set (tasks db). t_id t = p_taskId p \<and> t_executionId t = p_executionId p \<and> t_status t = status_for (p_status p))
     \<and> (\<forall>t \<in> set (tasks db). t_status t = T_WAITING_FOR_APPROVAL \<longrightarrow> (\<exists>p \<in> set (approvals db). p_taskId p = t_id t))"

lemma gateD:
  assumes "gate db"
  shows "p \<in> set (approvals db) \<Longrightarrow> \<exists>t \<in> set (tasks db). t_id t = p_taskId p \<and> t_executionId t = p_executionId p \<and> t_status t = status_for (p_status p)"
    "t \<in> set (tasks db) \<Longrightarrow> t_status t = T_WAITING_FOR_APPROVAL \<Longrightarrow> \<exists>p \<in> set (approvals db). p_taskId p = t_id t"
    "distinct (map p_taskId (approvals db))" "distinct (map p_id (approvals db))" "p \<in> set (approvals db) \<Longrightarrow> p_id p < next_id db"
  using assms unfolding gate_def by blast+

lemma fixed_status_for [simp]: "fixed (status_for s)"
  by (cases s) (simp_all add: fixed_def)

text \<open>A decided approval stays as it is.\<close>

definition decisions_kept :: "db \<Rightarrow> db \<Rightarrow> bool" where
  "decisions_kept db db' \<longleftrightarrow> (\<forall>p \<in> set (approvals db). p_status p \<noteq> P_PENDING \<longrightarrow> p \<in> set (approvals db'))"

text \<open>A step that gives some tasks a status and changes the approvals of just these.\<close>

lemma gate_change:
  assumes "gate db" "db_inv db" "db_inv db'" "updates_run i F db db'"
    "\<And>r. view i db = Some r \<Longrightarrow> list_all2 (touches K s) (cr_tasks r) (cr_tasks (F r))"
    "distinct (map p_taskId (approvals db'))" "distinct (map p_id (approvals db'))" "\<forall>p \<in> set (approvals db'). p_id p < next_id db'"
    "p_taskId ` set (approvals db) \<subseteq> p_taskId ` set (approvals db')"
    "\<And>p. p \<in> set (approvals db') \<Longrightarrow> \<exists>t \<in> set (tasks db). t_id t = p_taskId p \<and> t_executionId t = p_executionId p
        \<and> (if t_executionId t = i \<and> K (t_key t) then s else t_status t) = status_for (p_status p)"
    "\<And>t. t \<in> set (tasks db) \<Longrightarrow> t_executionId t = i \<Longrightarrow> K (t_key t) \<Longrightarrow> s = T_WAITING_FOR_APPROVAL \<Longrightarrow> t_id t \<in> p_taskId ` set (approvals db')"
  shows "gate db'"
proof -
  note tt = touched_task[OF assms(2-5)]
  have "\<exists>t' \<in> set (tasks db'). t_id t' = p_taskId p \<and> t_executionId t' = p_executionId p \<and> t_status t' = status_for (p_status p)"
    if p: "p \<in> set (approvals db')" for p
  proof -
    obtain t where t: "t \<in> set (tasks db)" "t_id t = p_taskId p" "t_executionId t = p_executionId p"
      "(if t_executionId t = i \<and> K (t_key t) then s else t_status t) = status_for (p_status p)"
      using assms(10)[OF p] by blast
    obtain t' where t': "t' \<in> set (tasks db')" "t_id t' = t_id t" by (rule task_in_new[OF assms(4) t(1)])
    have "fixed (t_status t)" if "\<not> (t_executionId t = i \<and> K (t_key t))" using t(4) that by (metis fixed_status_for)
    then have "t_status t' = status_for (p_status p)" "t_executionId t' = t_executionId t"
      using tt[OF _ t(1) t'] t(4) by (auto simp: touches_def split: if_splits)
    then show ?thesis using t t' by auto
  qed
  moreover have "\<exists>p \<in> set (approvals db'). p_taskId p = t_id t'" if t': "t' \<in> set (tasks db')" "t_status t' = T_WAITING_FOR_APPROVAL" for t'
  proof -
    obtain t where t: "t \<in> set (tasks db)" "t_id t = t_id t'" by (rule same_names[OF assms(4) t'(1)])
    have "t_id t \<in> p_taskId ` set (approvals db')"
    proof (cases "t_executionId t = i \<and> K (t_key t)")
      case True
      then have "s = T_WAITING_FOR_APPROVAL" using tt[OF _ t(1) t'(1)] t t' by (simp add: touches_def)
      then show ?thesis using assms(11)[OF t(1)] True by blast
    next
      case False
      then have "t_status t = T_WAITING_FOR_APPROVAL" using tt[OF _ t(1) t'(1)] t t' by (auto simp: touches_def fixed_def)
      then show ?thesis using gateD(2)[OF assms(1) t(1)] assms(9) by force
    qed
    then show ?thesis using t(2) by force
  qed
  ultimately show ?thesis using assms(6-8) unfolding gate_def by blast
qed

text \<open>A step that changes the status of tasks with no approval only, and leaves approvals alone.\<close>

lemma gate_untouched:
  assumes "gate db" "db_inv db" "run_txn i F db db'" "approvals db' = approvals db" "s \<noteq> T_WAITING_FOR_APPROVAL"
    "\<And>r. view i db = Some r \<Longrightarrow> list_all2 (touches K s) (cr_tasks r) (cr_tasks (F r))"
    "\<And>t. t \<in> set (tasks db) \<Longrightarrow> t_executionId t = i \<Longrightarrow> K (t_key t) \<Longrightarrow> \<not> fixed (t_status t)"
  shows "gate db'"
proof (rule gate_change[OF assms(1,2) run_txn_inv[OF assms(2,3)] _ assms(6)])
  show u: "updates_run i F db db'" using assms(3) by (simp add: run_txn_def)
  show "\<forall>p \<in> set (approvals db'). p_id p < next_id db'"
    using gateD(5)[OF assms(1)] u unfolding assms(4) updates_run_def by (meson order_less_le_trans)
  fix p assume "p \<in> set (approvals db')"
  then obtain t where t: "t \<in> set (tasks db)" "t_id t = p_taskId p" "t_executionId t = p_executionId p" "t_status t = status_for (p_status p)"
    using gateD(1)[OF assms(1)] assms(4) by metis
  then have "\<not> (t_executionId t = i \<and> K (t_key t))" using assms(7)[OF t(1)] by auto
  then show "\<exists>t \<in> set (tasks db). t_id t = p_taskId p \<and> t_executionId t = p_executionId p
      \<and> (if t_executionId t = i \<and> K (t_key t) then s else t_status t) = status_for (p_status p)" using t by auto
qed (use assms(1,4,5) in \<open>simp_all add: gateD(3,4)\<close>)

section \<open>The steps that concern approvals\<close>

lemma suspend_next: "suspendForApproval dp tid tok rq now db = Inr (True, db') \<Longrightarrow> next_id db < next_id db'"
  by (auto simp: suspendForApproval_def transitionTask_def Let_def emit_def close_attempt_def elim!: bind_result_InrE split: if_splits option.splits)

lemma gate_suspend:
  assumes "gate db" "db_inv db" "suspendForApproval dp tid tok rq now db = Inr (b, db')"
  shows "gate db' \<and> decisions_kept db db'"
proof (cases b)
  case False
  then show ?thesis using suspend_cases[OF assms(2,3)] assms(1) by (auto simp: decisions_kept_def)
next
  case True
  then obtain t p where t: "current tid tok db t" and p: "approvals db' = approvals db @ [p]" "p_status p = P_PENDING" "p_taskId p = tid"
      "p_id p = next_id db" "p_executionId p = t_executionId t"
    and new: "\<forall>p \<in> set (approvals db). p_taskId p \<noteq> tid"
    and x: "run_txn (t_executionId t) (c_move (t_key t) T_WAITING_FOR_APPROVAL) db db'"
    using suspend_cases[OF assms(2,3)] by blast
  have t1: "t \<in> set (tasks db)" "t_id t = tid" "t_status t = T_RUNNING" using t by (auto simp: current_def)
  have "gate db'"
  proof (rule gate_change[OF assms(1,2) run_txn_inv[OF assms(2) x] _ touches_run(1)])
    show "updates_run (t_executionId t) (c_move (t_key t) T_WAITING_FOR_APPROVAL) db db'" using x by (simp add: run_txn_def)
    show "distinct (map p_taskId (approvals db'))" "distinct (map p_id (approvals db'))" "\<forall>p \<in> set (approvals db'). p_id p < next_id db'"
      using gateD(3-5)[OF assms(1)] new p suspend_next[of dp tid tok rq now db db'] assms(3) True by fastforce+
    fix q assume "q \<in> set (approvals db')"
    then consider "q = p" | "q \<in> set (approvals db)" "p_taskId q \<noteq> tid" using p(1) new by auto
    then show "\<exists>u \<in> set (tasks db). t_id u = p_taskId q \<and> t_executionId u = p_executionId q
        \<and> (if t_executionId u = t_executionId t \<and> t_key u = t_key t then T_WAITING_FOR_APPROVAL else t_status u) = status_for (p_status q)"
    proof cases
      case 1
      then show ?thesis using t1 p by (intro bexI[of _ t]) auto
    next
      case 2
      then obtain u where u: "u \<in> set (tasks db)" "t_id u = p_taskId q" "t_executionId u = p_executionId q" "t_status u = status_for (p_status q)"
        using gateD(1)[OF assms(1)] by blast
      then have "\<not> (t_executionId u = t_executionId t \<and> t_key u = t_key t)" using key_unique[OF assms(2) t1(1)] t1(2) 2 by metis
      then show ?thesis using u by auto
    qed
  next
    fix u assume "u \<in> set (tasks db)" "t_executionId u = t_executionId t" "t_key u = t_key t"
    then show "t_id u \<in> p_taskId ` set (approvals db')" using key_unique[OF assms(2) t1(1)] t1(2) p(1,3) by auto
  qed (use p in auto)
  then show ?thesis using p(1) by (simp add: decisions_kept_def)
qed

text \<open>Rewriting the pending approvals that meet a condition.\<close>

lemma decide_approvals:
  assumes "gate db" "approvals db' = update_where (\<lambda>p. Q p \<and> p_status p = P_PENDING) f (approvals db)" "next_id db \<le> next_id db'"
    "\<And>p. p_taskId (f p) = p_taskId p \<and> p_id (f p) = p_id p"
  shows "distinct (map p_taskId (approvals db'))" "distinct (map p_id (approvals db'))" "\<forall>p \<in> set (approvals db'). p_id p < next_id db'"
    "p_taskId ` set (approvals db) \<subseteq> p_taskId ` set (approvals db')" "decisions_kept db db'"
proof -
  have m: "map p_taskId (approvals db') = map p_taskId (approvals db)" "map p_id (approvals db') = map p_id (approvals db)"
    unfolding assms(2) by (simp_all add: map_update_where assms(4))
  show "distinct (map p_taskId (approvals db'))" "distinct (map p_id (approvals db'))" unfolding m by (simp_all add: gateD(3,4)[OF assms(1)])
  have "p_id ` set (approvals db') = p_id ` set (approvals db)" using m(2) by (metis list.set_map)
  moreover have "\<forall>i \<in> p_id ` set (approvals db). i < next_id db'" using gateD(5)[OF assms(1)] assms(3) by fastforce
  ultimately show "\<forall>p \<in> set (approvals db'). p_id p < next_id db'" by blast
  have "p_taskId ` set (approvals db') = p_taskId ` set (approvals db)" using m(1) by (metis list.set_map)
  then show "p_taskId ` set (approvals db) \<subseteq> p_taskId ` set (approvals db')" by simp
  show "decisions_kept db db'" unfolding decisions_kept_def assms(2) by (auto intro: update_where_out)
qed

lemma gate_resolve:
  assumes "gate db" "db_inv db" "decision \<in> {P_APPROVED, P_REJECTED, P_EXPIRED}"
    "resolve_txn dp aid decision by cm scope now db = Inr (r, db')"
  shows "gate db' \<and> decisions_kept db db'"
proof -
  obtain out eid where r: "r = (out, eid)" by (cases r)
  note cases = resolve_txn_cases[OF assms(2) assms(4)[unfolded r] assms(3)]
  let ?P = "\<lambda>p. p_id p = aid \<and> p_status p = P_PENDING \<and> scope p"
  let ?f = "\<lambda>p. p\<lparr>p_status := decision, p_decidedBy := by, p_decidedAt := Some now, p_comment := cm\<rparr>"
  show ?thesis
  proof (cases "out = None")
    case True
    then show ?thesis using cases assms(1) by (auto simp: decisions_kept_def)
  next
    case False
    have "resolve_txn dp aid decision by cm scope now db = Inr ((None, None), db)" if "List.find ?P (approvals db) = None"
      using that by (simp add: resolve_txn_def)
    then have "List.find ?P (approvals db) \<noteq> None" using assms(4) r False by auto
    then obtain p1 where p1: "p1 \<in> set (approvals db)" "p_id p1 = aid" "scope p1" by (auto dest: find_filter_Some)
    obtain p t where p: "p \<in> set (approvals db)" "p_id p = aid" "p_status p = P_PENDING"
      and t: "t \<in> set (tasks db)" "t_id t = p_taskId p" "t_status t = T_WAITING_FOR_APPROVAL"
      and a: "approvals db' = update_where ?P ?f (approvals db)"
      and x: "run_txn (t_executionId t) (if decision = P_APPROVED then c_succeed (t_key t) (t_dependents t) else c_fail T_FAILED (t_key t)) db db'"
      using cases False by auto
    have sc: "scope p" using p(1,2) p1 distinct_map_eqD[OF gateD(4)[OF assms(1)]] by metis
    define s where "s = status_for decision"
    have a': "approvals db' = update_where (\<lambda>p. (p_id p = aid \<and> scope p) \<and> p_status p = P_PENDING) ?f (approvals db)"
      unfolding a by (rule arg_cong[where f = "\<lambda>P. update_where P ?f (approvals db)"]) auto
    have u: "updates_run (t_executionId t) (if decision = P_APPROVED then c_succeed (t_key t) (t_dependents t) else c_fail T_FAILED (t_key t)) db db'"
      using x by (simp add: run_txn_def)
    have touch: "list_all2 (touches (\<lambda>j. j = t_key t) s) (cr_tasks r)
        (cr_tasks ((if decision = P_APPROVED then c_succeed (t_key t) (t_dependents t) else c_fail T_FAILED (t_key t)) r))" for r
      using assms(3) touches_run(2)[of "t_key t" r "t_dependents t"] touches_run(3)[of T_FAILED "t_key t" r] by (auto simp: s_def)
    have nx: "next_id db \<le> next_id db'" using u by (simp add: updates_run_def)
    have "p_taskId (?f q) = p_taskId q \<and> p_id (?f q) = p_id q" for q by simp
    note d = decide_approvals[OF assms(1) a' nx this]
    have "gate db'"
    proof (rule gate_change[OF assms(1,2) run_txn_inv[OF assms(2) x] u touch])
      fix q assume "q \<in> set (approvals db')"
      then obtain q0 where q0: "q0 \<in> set (approvals db)" "q = (if ?P q0 then ?f q0 else q0)" unfolding a by (auto simp: update_where_def)
      obtain v where v: "v \<in> set (tasks db)" "t_id v = p_taskId q0" "t_executionId v = p_executionId q0" "t_status v = status_for (p_status q0)"
        using gateD(1)[OF assms(1) q0(1)] by blast
      have "(if t_executionId v = t_executionId t \<and> t_key v = t_key t then s else t_status v) = status_for (p_status q)"
      proof (cases "q0 = p")
        case True
        then have "v = t" using v t distinct_map_eqD[OF db_okD(2)] assms(2) unfolding db_inv_def by metis
        then show ?thesis using q0(2) True p sc by (simp add: s_def)
      next
        case False
        then have "\<not> ?P q0" "p_taskId q0 \<noteq> p_taskId p"
          using q0(1) p distinct_map_eqD[OF gateD(4)[OF assms(1)]] distinct_map_eqD[OF gateD(3)[OF assms(1)]] by metis+
        moreover have "\<not> (t_executionId v = t_executionId t \<and> t_key v = t_key t)"
          using key_unique[OF assms(2) t(1) v(1)] v(2) t(2) calculation(2) by metis
        ultimately show ?thesis using q0(2) v(4) by auto
      qed
      moreover have "p_taskId q = p_taskId q0" "p_executionId q = p_executionId q0" using q0(2) by simp_all
      ultimately show "\<exists>v \<in> set (tasks db). t_id v = p_taskId q \<and> t_executionId v = p_executionId q
          \<and> (if t_executionId v = t_executionId t \<and> t_key v = t_key t then s else t_status v) = status_for (p_status q)" using v by metis
    qed (use d assms(3) in \<open>auto simp: s_def\<close>)
    then show ?thesis using d(5) by simp
  qed
qed

text \<open>Which tasks a cancellation touches.\<close>

definition open_key :: "oid \<Rightarrow> db \<Rightarrow> key \<Rightarrow> bool" where
  "open_key i db k \<longleftrightarrow> (\<exists>c \<in> set (ctasks i db). c_key c = k \<and> unfinished (c_status c))"

lemma touches_cancel:
  assumes "db_inv db"
  shows "view i db = Some r \<Longrightarrow> list_all2 (touches (open_key i db) T_CANCELLED) (cr_tasks r) (cr_tasks (c_cancel r))"
    "t \<in> set (tasks db) \<Longrightarrow> t_executionId t = i \<Longrightarrow> open_key i db (t_key t) \<longleftrightarrow> unfinished (t_status t)"
proof -
  have K: "open_key i db (t_key t) \<longleftrightarrow> unfinished (t_status t)" if "t \<in> set (tasks db)" "t_executionId t = i" for t
    using that key_unique[OF assms that(1)] by (force simp: open_key_def ctasks_def in_tasks_of)
  then show "t \<in> set (tasks db) \<Longrightarrow> t_executionId t = i \<Longrightarrow> open_key i db (t_key t) \<longleftrightarrow> unfinished (t_status t)" .
  have "open_key i db (c_key c) \<longleftrightarrow> unfinished (c_status c)" if c: "c \<in> set (ctasks i db)" for c
  proof -
    obtain t where "t \<in> set (tasks db)" "t_executionId t = i" "c = ctask_of t" using c by (auto simp: ctasks_def in_tasks_of)
    then show ?thesis using K by simp
  qed
  moreover assume "view i db = Some r"
  then have "cr_tasks r = ctasks i db" by (auto simp: view_Some)
  ultimately show "list_all2 (touches (open_key i db) T_CANCELLED) (cr_tasks r) (cr_tasks (c_cancel r))"
    by (simp add: c_cancel_def cancel_in_def update_where_def touches_def list.rel_map cong: if_cong)
      (rule list.rel_refl_strong, auto)
qed

lemma gate_cancel:
  assumes "gate db" "db_inv db" "dep_approvals dp" "cancelExecution dp i now db = Inr (b, db')"
  shows "gate db' \<and> decisions_kept db db'"
proof (cases "db' = db")
  case True
  then show ?thesis using assms(1) by (simp add: decisions_kept_def)
next
  case False
  let ?P = "\<lambda>p. p_executionId p = i \<and> p_status p = P_PENDING"
  let ?f = "\<lambda>p. p\<lparr>p_status := P_CANCELLED, p_decidedAt := Some now\<rparr>"
  have a: "approvals db' = update_where ?P ?f (approvals db)" and x: "run_txn i c_cancel db db'"
    using cancel_cases[OF assms(2), of i dp now] assms(3,4) False by auto
  have u: "updates_run i c_cancel db db'" using x by (simp add: run_txn_def)
  have nx: "next_id db \<le> next_id db'" using u by (simp add: updates_run_def)
  have "p_taskId (?f q) = p_taskId q \<and> p_id (?f q) = p_id q" for q by simp
  note d = decide_approvals[OF assms(1) a nx this]
  have "gate db'"
  proof (rule gate_change[OF assms(1,2) run_txn_inv[OF assms(2) x] u touches_cancel(1)[OF assms(2)]])
    fix q assume "q \<in> set (approvals db')"
    then obtain q0 where q0: "q0 \<in> set (approvals db)" "q = (if ?P q0 then ?f q0 else q0)" unfolding a by (auto simp: update_where_def)
    obtain v where v: "v \<in> set (tasks db)" "t_id v = p_taskId q0" "t_executionId v = p_executionId q0" "t_status v = status_for (p_status q0)"
      using gateD(1)[OF assms(1) q0(1)] by blast
    then have "(if t_executionId v = i \<and> open_key i db (t_key v) then T_CANCELLED else t_status v) = status_for (p_status q)"
      using q0(2) touches_cancel(2)[OF assms(2) v(1), of i] by (cases "p_status q0") (auto simp: unfinished_def)
    moreover have "p_taskId q = p_taskId q0" "p_executionId q = p_executionId q0" using q0(2) by simp_all
    ultimately show "\<exists>v \<in> set (tasks db). t_id v = p_taskId q \<and> t_executionId v = p_executionId q
        \<and> (if t_executionId v = i \<and> open_key i db (t_key v) then T_CANCELLED else t_status v) = status_for (p_status q)" using v by metis
  qed (use d in auto)
  then show ?thesis using d(5) by simp
qed

section \<open>The other steps\<close>

lemma gate_start:
  assumes "gate db" "start_run dp wfl sp now db = Inr (e, db')"
  shows "gate db' \<and> approvals db' = approvals db"
proof -
  obtain ch where ch: "tasks db' = tasks db @ new_tasks wfl ch now (next_id db)" "approvals db' = approvals db" "next_id db \<le> next_id db'"
    using assms(2) by (auto simp: start_run_def start_txn_def Let_def emit_def elim!: bind_result_InrE split: if_splits)
  have "t_status t \<noteq> T_WAITING_FOR_APPROVAL" if "t \<in> set (new_tasks wfl ch now (next_id db))" for t
    using that by (auto simp: new_tasks_def new_task_def Let_def split: if_splits)
  then show ?thesis using assms(1) ch unfolding gate_def by auto
qed

lemma gate_quiet:
  assumes "gate db" "approvals db' = approvals db" "next_id db \<le> next_id db'"
    "map (\<lambda>t. (t_id t, t_executionId t, t_status t)) (tasks db') = map (\<lambda>t. (t_id t, t_executionId t, t_status t)) (tasks db)"
  shows "gate db'"
proof -
  have same: "(\<exists>t \<in> set (tasks db'). t_id t = i \<and> t_executionId t = e \<and> t_status t = s)
      \<longleftrightarrow> (\<exists>t \<in> set (tasks db). t_id t = i \<and> t_executionId t = e \<and> t_status t = s)" for i e s
    using arg_cong[OF assms(4), of "\<lambda>xs. (i, e, s) \<in> set xs"] by auto
  have "\<exists>p \<in> set (approvals db). p_taskId p = t_id t" if "t \<in> set (tasks db')" "t_status t = T_WAITING_FOR_APPROVAL" for t
    using that same[of "t_id t" "t_executionId t" T_WAITING_FOR_APPROVAL] gateD(2)[OF assms(1)] by metis
  then show ?thesis using assms(1-3) unfolding gate_def assms(2) same by auto
qed

text \<open>A task without an approval moves on.\<close>

lemma gate_moves:
  assumes "gate db" "db_inv db" "t \<in> set (tasks db)" "\<not> fixed (t_status t)" "approvals db' = approvals db" "run_txn (t_executionId t) F db db'"
    "\<And>r. list_all2 (touches (\<lambda>j. j = t_key t) s) (cr_tasks r) (cr_tasks (F r))" "s \<noteq> T_WAITING_FOR_APPROVAL"
  shows "gate db' \<and> decisions_kept db db'"
proof
  show "gate db'"
    by (rule gate_untouched[OF assms(1,2,6,5,8,7)]) (use assms(4) key_unique[OF assms(2,3)] in auto)
qed (simp add: decisions_kept_def assms(5))

lemma gate_same:
  assumes "gate db" "db_inv db" "approvals db' = approvals db" "run_txn i F db db'"
    "\<And>r. list_all2 (touches (\<lambda>_. False) T_READY) (cr_tasks r) (cr_tasks (F r))"
  shows "gate db' \<and> decisions_kept db db'"
  using gate_untouched[OF assms(1,2,4,3) _ assms(5)] by (simp add: decisions_kept_def assms(3))

lemma gate_step:
  assumes "gate (fst w)" "db_inv (fst w)" "engine_step D w w'" "\<forall>dp. D dp \<longrightarrow> dep_approvals dp"
  shows "gate (fst w') \<and> decisions_kept (fst w) (fst w')"
  using assms(3)
proof cases
  case (es_start dp wfl sp now db e db' q)
  then show ?thesis using gate_start[of db dp wfl sp now e db'] assms(1) by (auto simp: decisions_kept_def)
next
  case (es_dispatch dp now t db q b db' q')
  show ?thesis
  proof (cases "db' = db")
    case False
    then obtain t' where "t' \<in> set (tasks db)" "t_status t' = T_READY" "approvals db' = approvals db"
      "run_txn (t_executionId t') (c_move (t_key t') T_QUEUED) db db'"
      using dispatchTask_cases[of db t dp now q] es_dispatch assms(2) by auto
    then show ?thesis using gate_moves[OF _ _ _ _ _ _ touches_run(1)] es_dispatch assms(1,2) by (simp add: fixed_def)
  qed (use es_dispatch assms(1) in \<open>simp add: decisions_kept_def\<close>)
next
  case (es_claim dp tid wid mnow db r db' q)
  show ?thesis
  proof (cases "db' = db")
    case False
    then obtain t where "t \<in> set (tasks db)" "claimable mnow t" "approvals db' = approvals db"
      "run_txn (t_executionId t) (c_move (t_key t) T_RUNNING) db db'"
      using claimTask_cases[of db tid wid "dep_leaseMs dp" mnow r db'] es_claim assms(2) by (auto simp: moved_def)
    then show ?thesis using gate_moves[OF _ _ _ _ _ _ touches_run(1)] es_claim assms(1,2) by (auto simp: fixed_def claimable_def)
  qed (use es_claim assms(1) in \<open>simp add: decisions_kept_def\<close>)
next
  case (es_abandon db q t now)
  then show ?thesis using gate_quiet[of db "abandon_attempts t now db"] assms(1) by (simp add: abandon_attempts_def decisions_kept_def)
next
  case (es_attempt t db wid db' q)
  then show ?thesis using gate_quiet[of db db'] assms(1) by (auto simp: create_attempt_def decisions_kept_def split: if_splits)
next
  case (es_emit dp ty db q i pl now)
  then show ?thesis using gate_quiet[of db "emit dp ty i pl now db"] assms(1) by (simp add: emit_def decisions_kept_def)
next
  case (es_renew dp tid tok mnow db b db' q)
  then have "db' = snd (renewTaskLease tid tok (dep_leaseMs dp) mnow db)" by (simp add: renewLease_def)
  then show ?thesis using gate_quiet[of db db'] es_renew assms(1)
    by (simp add: renewTaskLease_def Let_def map_update_where decisions_kept_def)
next
  case (es_complete dp tid tok out now db r db' q)
  show ?thesis
  proof (cases "\<exists>t. current tid tok db t")
    case True
    then obtain t where t: "current tid tok db t" by blast
    then have "approvals db' = approvals db" "run_txn (t_executionId t) (c_succeed (t_key t) (t_dependents t)) db db'"
      using complete_txn_current[OF _ t, of dp out now] es_complete assms(2) by auto
    then show ?thesis using gate_moves[OF _ _ _ _ _ _ touches_run(2)] es_complete assms(1,2) t by (auto simp: fixed_def current_def)
  qed (use es_complete complete_txn_stale[of tid tok db dp out now] assms(1) in \<open>auto simp: decisions_kept_def\<close>)
next
  case (es_fail dp tid tok err now db r db' q)
  show ?thesis
  proof (cases "\<exists>t. current tid tok db t")
    case True
    then obtain t where t: "current tid tok db t" by blast
    then have t1: "t \<in> set (tasks db)" "\<not> fixed (t_status t)" "db_ok db" using assms(2) es_fail by (auto simp: current_def db_inv_def fixed_def)
    then obtain e where e: "find_execution (t_executionId t) db = Some e" using db_okD(3) by blast
    let ?o = "fail_outcome err t e"
    have o: "?o \<in> {T_RETRYING, T_FAILED, T_DEAD_LETTER}" by (simp add: fail_outcome_def)
    have x: "approvals db' = approvals db"
      "run_txn (t_executionId t) (if ?o = T_RETRYING then c_move (t_key t) T_RETRYING else c_fail ?o (t_key t)) db db'"
      using fail_txn_current[OF _ t e, of dp err now] es_fail assms(2) by auto
    have "list_all2 (touches (\<lambda>j. j = t_key t) ?o) (cr_tasks r)
        (cr_tasks ((if ?o = T_RETRYING then c_move (t_key t) T_RETRYING else c_fail ?o (t_key t)) r))" for r
      using o touches_run(1)[of "t_key t" T_RETRYING r] touches_run(3)[of ?o "t_key t" r] by auto
    from gate_moves[OF _ _ t1(1,2) x this] show ?thesis using es_fail assms(1,2) o by auto
  qed (use es_fail fail_txn_stale[of tid tok db dp err now] assms(1) in \<open>auto simp: decisions_kept_def\<close>)
next
  case (es_suspend dp tid tok rq now db b db' q)
  then show ?thesis using gate_suspend[of db dp tid tok rq now b db'] assms(1,2) by auto
next
  case (es_resolve dp decision aid "by" cm scope now db r db' q)
  then show ?thesis using gate_resolve[of db decision dp aid "by" cm scope now r db'] assms(1,2) by auto
next
  case (es_pause dp i now db b db' q)
  show ?thesis
  proof (cases "db' = db")
    case False
    then have "approvals db' = approvals db" "run_txn i (\<lambda>r. r\<lparr>cr_status := E_PAUSED\<rparr>) db db'"
      using pause_cases[of db i dp now] es_pause assms(2) by auto
    then show ?thesis using gate_same touches_same es_pause assms(1,2) by simp
  qed (use es_pause assms(1) in \<open>simp add: decisions_kept_def\<close>)
next
  case (es_resume dp i now db b db' q)
  show ?thesis
  proof (cases "db' = db")
    case False
    then have "approvals db' = approvals db" "run_txn i c_resume db db'"
      using resume_txn_cases[of db i dp now] es_resume assms(2) by auto
    then show ?thesis using gate_same touches_run(4) es_resume assms(1,2) by simp
  qed (use es_resume assms(1) in \<open>simp add: decisions_kept_def\<close>)
next
  case (es_cancel dp i now db b db' q)
  then show ?thesis using gate_cancel[of db dp i now b db'] assms by auto
next
  case (es_queue db q q')
  then show ?thesis using assms(1) by (simp add: decisions_kept_def)
qed


interpretation approval: invariant_system "\<lambda>w. fst w = empty_db" "\<lambda>w w'. engine_step D w w' \<and> (\<forall>dp. D dp \<longrightarrow> dep_approvals dp)"
  "\<lambda>w. db_inv (fst w) \<and> gate (fst w)" for D
proof
  show "db_inv (fst w) \<and> gate (fst w)" if "fst w = empty_db" for w using that db_inv_empty by (simp add: gate_def empty_db_def)
  show "db_inv (fst w') \<and> gate (fst w')"
    if "db_inv (fst w) \<and> gate (fst w)" "engine_step D w w' \<and> (\<forall>dp. D dp \<longrightarrow> dep_approvals dp)" for w w'
    using that engine_step_inv gate_step by blast
qed

lemma reachable_gate:
  assumes "\<forall>dp. D dp \<longrightarrow> dep_approvals dp" "reachable D w"
  shows "db_inv (fst w)" "gate (fst w)"
  using approval.reach_inv[of D w] assms by simp_all

lemma decisions_kept_steps:
  assumes "\<forall>dp. D dp \<longrightarrow> dep_approvals dp" "reachable D w" "(engine_step D)\<^sup>*\<^sup>* w w'"
  shows "decisions_kept (fst w) (fst w')"
  using assms(3)
proof (induction rule: rtranclp_induct)
  case (step w1 w2)
  note g = reachable_gate[OF assms(1) reach_rtranclp[OF assms(2) step.hyps(1)]]
  then show ?case using step.IH gate_step[OF g(2,1) step.hyps(2) assms(1)] by (auto simp: decisions_kept_def)
qed (simp add: decisions_kept_def)

text \<open>A decision on an approval that is not pending any more finds nothing.\<close>

lemma resolve_decided:
  assumes "gate db" "p \<in> set (approvals db)" "p_status p \<noteq> P_PENDING"
  shows "resolve_txn dp (p_id p) decision by cm scope now db = Inr ((None, None), db)"
proof -
  have "q = p" if "q \<in> set (approvals db)" "p_id q = p_id p" for q using distinct_map_eqD[OF gateD(4)[OF assms(1)] that(1) assms(2) that(2)] .
  then have "List.find (\<lambda>q. p_id q = p_id p \<and> p_status q = P_PENDING \<and> scope q) (approvals db) = None"
    using assms(3) by (auto simp: find_None_iff_all)
  then show ?thesis by (simp add: resolve_txn_def)
qed

section \<open>The property\<close>

text \<open>C7: the human gate. Whatever interleaving of workers, deciders, cancellations and the reconciler led to a database, a task waits for
  approval exactly if an approval of it is pending; there is at most one approval per task; the task of a decided approval has the final status the
  decision stands for, in the same execution; and a decision is final: along all later steps the approval stays as it is, and every further
  decision on it, by a second reviewer or by the expiry sweep, changes nothing.\<close>

theorem approval_gate:
  assumes "\<forall>dp. D dp \<longrightarrow> dep_approvals dp" "reachable D w"
  shows "distinct (map p_taskId (approvals (fst w)))
    \<and> (\<forall>t \<in> set (tasks (fst w)). t_status t = T_WAITING_FOR_APPROVAL \<longleftrightarrow> (\<exists>p \<in> set (approvals (fst w)). p_taskId p = t_id t \<and> p_status p = P_PENDING))
    \<and> (\<forall>p \<in> set (approvals (fst w)). \<exists>t \<in> set (tasks (fst w)). t_id t = p_taskId p \<and> t_executionId t = p_executionId p
          \<and> t_status t = status_for (p_status p))
    \<and> (\<forall>p w' dp decision by cm scope now. p \<in> set (approvals (fst w)) \<and> p_status p \<noteq> P_PENDING \<and> (engine_step D)\<^sup>*\<^sup>* w w' \<longrightarrow>
          p \<in> set (approvals (fst w')) \<and> resolve_txn dp (p_id p) decision by cm scope now (fst w') = Inr ((None, None), fst w'))"
proof (intro conjI)
  note g = reachable_gate[OF assms]
  show "distinct (map p_taskId (approvals (fst w)))" by (rule gateD(3)[OF g(2)])
  show match: "\<forall>p \<in> set (approvals (fst w)). \<exists>t \<in> set (tasks (fst w)). t_id t = p_taskId p \<and> t_executionId t = p_executionId p
      \<and> t_status t = status_for (p_status p)" using gateD(1)[OF g(2)] by blast
  have "status_for s = T_WAITING_FOR_APPROVAL \<longleftrightarrow> s = P_PENDING" for s by (cases s) simp_all
  then show "\<forall>t \<in> set (tasks (fst w)). t_status t = T_WAITING_FOR_APPROVAL \<longleftrightarrow> (\<exists>p \<in> set (approvals (fst w)). p_taskId p = t_id t \<and> p_status p = P_PENDING)"
    using match gateD(2)[OF g(2)] distinct_map_eqD[OF db_okD(2)] g(1) unfolding db_inv_def by metis
  show "\<forall>p w' dp decision by cm scope now. p \<in> set (approvals (fst w)) \<and> p_status p \<noteq> P_PENDING \<and> (engine_step D)\<^sup>*\<^sup>* w w' \<longrightarrow>
      p \<in> set (approvals (fst w')) \<and> resolve_txn dp (p_id p) decision by cm scope now (fst w') = Inr ((None, None), fst w')"
    using decisions_kept_steps[OF assms] resolve_decided[OF reachable_gate(2)[OF assms(1) reach_rtranclp[OF assms(2)]]]
    unfolding decisions_kept_def by blast
qed

text \<open>A task that asks, and an approver who agrees before the expiry sweep comes.\<close>

definition demo_request :: approval_request where
  "demo_request = \<lparr>r_title = ''Publish?'', r_message = [], r_context = JNull, r_timeoutMs = 1000\<rparr>"

definition demo_asked :: "unit world" where
  "demo_asked = (case suspendForApproval demo_deps 1 1 demo_request 20 (fst demo2) of Inl _ \<Rightarrow> demo2 | Inr (_, db) \<Rightarrow> (db, ()))"

definition demo_approved :: "unit world" where
  "demo_approved = (case resolve_txn demo_deps (p_id (hd (approvals (fst demo_asked)))) P_APPROVED (Some 101) None (\<lambda>_. True) 30 (fst demo_asked) of
     Inl _ \<Rightarrow> demo_asked | Inr (_, db) \<Rightarrow> (db, ()))"

lemma demo_gate_reachable: "reachable dep_approvals demo_asked" "reachable dep_approvals demo_approved"
proof -
  have D: "dep_approvals demo_deps" by (simp add: demo_deps_def)
  have u: "(fst x, ()) = x" for x :: "unit world" by (simp add: prod_eq_iff)
  have d2: "reachable dep_approvals (fst demo2, ())" unfolding u by (rule demo_reach(2)[of dep_approvals, OF D])
  show a: "reachable dep_approvals demo_asked"
  proof (cases "suspendForApproval demo_deps 1 1 demo_request 20 (fst demo2)")
    case (Inr r)
    obtain b db where "r = (b, db)" by (cases r)
    then show ?thesis using reach_step[OF d2 es_suspend[where D = dep_approvals, OF D]] Inr by (simp add: demo_asked_def)
  qed (use d2[unfolded u] in \<open>simp add: demo_asked_def\<close>)
  then have a': "reachable dep_approvals (fst demo_asked, ())" unfolding u .
  show "reachable dep_approvals demo_approved"
  proof (cases "resolve_txn demo_deps (p_id (hd (approvals (fst demo_asked)))) P_APPROVED (Some 101) None (\<lambda>_. True) 30 (fst demo_asked)")
    case (Inr r)
    obtain b db where "r = (b, db)" by (cases r)
    then show ?thesis using reach_step[OF a' es_resolve[where D = dep_approvals and decision = P_APPROVED, OF D]] Inr
      by (simp add: demo_approved_def)
  qed (use a in \<open>simp add: demo_approved_def\<close>)
qed

theorem approval_gate_witness:
  "reachable dep_approvals demo_approved \<and> map (\<lambda>p. (p_taskId p, p_status p)) (approvals (fst demo_asked)) = [(1, P_PENDING)]
   \<and> map (\<lambda>p. (p_taskId p, p_status p)) (approvals (fst demo_approved)) = [(1, P_APPROVED)]
   \<and> resolve_txn demo_deps (p_id (hd (approvals (fst demo_approved)))) P_EXPIRED None None (\<lambda>_. True) 2000 (fst demo_approved)
       = Inr ((None, None), fst demo_approved)"
proof -
  let ?p = "hd (approvals (fst demo_approved))"
  have d: "map (\<lambda>p. (p_taskId p, p_status p)) (approvals (fst demo_asked)) = [(1, P_PENDING)]"
    "map (\<lambda>p. (p_taskId p, p_status p)) (approvals (fst demo_approved)) = [(1, P_APPROVED)]" by code_simp+
  then have "?p \<in> set (approvals (fst demo_approved))" "p_status ?p \<noteq> P_PENDING" by (auto simp: map_eq_Cons_conv)
  then show ?thesis using approval_gate[of dep_approvals demo_approved] demo_gate_reachable(2) d by blast
qed

end
