(* ===== verification/Wf_Audit.thy ===== *)
theory Wf_Audit
  imports Wf_Approvals Wf_Engine_Tasks
begin

text \<open>
  The outbox as an audit trail of the engine: the events of the outbox tell exactly what happened to the tasks and runs, once each.
  This is what writing the event in the transaction of the change buys, and what \<open>scripts/chaos.js\<close> checks on a live system.
\<close>

section \<open>Final statuses and their events\<close>

fun task_event :: "task_status \<Rightarrow> string" where
  "task_event T_COMPLETED = ''task.completed''"
| "task_event T_FAILED = ''task.failed''"
| "task_event T_DEAD_LETTER = ''task.dead_lettered''"
| "task_event _ = []"

fun run_event :: "execution_status \<Rightarrow> string" where
  "run_event E_COMPLETED = ''execution.completed''"
| "run_event E_FAILED = ''execution.failed''"
| "run_event E_CANCELLED = ''execution.cancelled''"
| "run_event _ = []"

definition task_ends :: "task_status set" where
  "task_ends = {T_COMPLETED, T_FAILED, T_DEAD_LETTER}"

definition run_ends :: "execution_status set" where
  "run_ends = {E_COMPLETED, E_FAILED, E_CANCELLED}"

lemma task_ends_fixed: "u \<in> task_ends \<Longrightarrow> fixed u \<and> u \<noteq> T_CANCELLED"
  by (auto simp: task_ends_def fixed_def)

lemma events_inj [simp]:
  "u \<in> task_ends \<Longrightarrow> v \<in> task_ends \<Longrightarrow> task_event u = task_event v \<longleftrightarrow> u = v"
  "S \<in> run_ends \<Longrightarrow> T \<in> run_ends \<Longrightarrow> run_event S = run_event T \<longleftrightarrow> S = T"
  by (auto simp: task_ends_def run_ends_def)

text \<open>The two trails: which task, and which run, an end is reported for.\<close>

definition task_trail :: "db \<Rightarrow> (string \<times> json option) list" where
  "task_trail db = map (\<lambda>e. (o_type e, map_of (o_payload e) ''taskId'')) (filter (\<lambda>e. o_type e \<in> task_event ` task_ends) (outbox db))"

definition run_trail :: "db \<Rightarrow> (string \<times> oid) list" where
  "run_trail db = map (\<lambda>e. (o_type e, o_aggregateId e)) (filter (\<lambda>e. o_type e \<in> run_event ` run_ends) (outbox db))"

lemma trail_same: "outbox db' = outbox db \<Longrightarrow> task_trail db' = task_trail db \<and> run_trail db' = run_trail db"
  by (simp add: task_trail_def run_trail_def)

lemma event_types:
  "task_event ` task_ends = {''task.completed'', ''task.failed'', ''task.dead_lettered''}"
  "run_event ` run_ends = {''execution.completed'', ''execution.failed'', ''execution.cancelled''}"
  by (auto simp: task_ends_def run_ends_def)

lemma trail_emit:
  "dep_outbox dp \<Longrightarrow> task_trail (emit dp ty i pl now db)
     = task_trail db @ (if ty \<in> {''task.completed'', ''task.failed'', ''task.dead_lettered''} then [(ty, map_of pl ''taskId'')] else [])"
  "dep_outbox dp \<Longrightarrow> run_trail (emit dp ty i pl now db)
     = run_trail db @ (if ty \<in> {''execution.completed'', ''execution.failed'', ''execution.cancelled''} then [(ty, i)] else [])"
  by (simp_all add: emit_def task_trail_def run_trail_def event_types)

lemma outbox_simps [simp]:
  "outbox (inc_pending n i db) = outbox db" "outbox (set_execution_status i s u db) = outbox db"
  "outbox (release_dependents task db) = outbox db" "outbox (promote_dependents task now db) = outbox db"
  "outbox (promote_ready i now db) = outbox db" "outbox (snd (cancel_tasks S i upd db)) = outbox db"
  "outbox (abandon_attempts task now db) = outbox db" "outbox (close_attempt i n upd' db) = outbox db"
  by (simp_all add: inc_pending_def set_execution_status_def release_dependents_def promote_dependents_def promote_ready_def
      cancel_tasks_def abandon_attempts_def close_attempt_def Let_def)

lemma trail_simps [simp]:
  "task_trail (inc_pending n i db) = task_trail db" "task_trail (set_execution_status i s u db) = task_trail db"
  "task_trail (release_dependents task db) = task_trail db" "task_trail (promote_dependents task now db) = task_trail db"
  "task_trail (promote_ready i now db) = task_trail db" "task_trail (snd (cancel_tasks S i upd db)) = task_trail db"
  "task_trail (close_attempt i n upd' db) = task_trail db" "task_trail (db\<lparr>approvals := ps\<rparr>) = task_trail db"
  "run_trail (inc_pending n i db) = run_trail db" "run_trail (set_execution_status i s u db) = run_trail db"
  "run_trail (release_dependents task db) = run_trail db" "run_trail (promote_dependents task now db) = run_trail db"
  "run_trail (promote_ready i now db) = run_trail db" "run_trail (snd (cancel_tasks S i upd db)) = run_trail db"
  "run_trail (close_attempt i n upd' db) = run_trail db" "run_trail (db\<lparr>approvals := ps\<rparr>) = run_trail db"
  by (simp_all add: task_trail_def run_trail_def)

section \<open>What each operation writes\<close>

lemma transition_outbox: "transitionTask i s s' wher upd db = Inr (b, db') \<Longrightarrow> outbox db' = outbox db \<and> executions db' = executions db"
  by (auto simp: transitionTask_def Let_def elim!: bind_result_InrE)

text \<open>The status of a run and whether this is its last task, as the transaction reads them.\<close>

abbreviation run_status :: "oid \<Rightarrow> db \<Rightarrow> execution_status option" where
  "run_status i db \<equiv> map_option e_status (find_execution i db)"

lemma succeeded_trail:
  assumes "afterTaskSucceeded dp task now db = Inr db'" "dep_outbox dp" "find_execution (t_executionId task) db = Some e"
  shows "task_trail db' = task_trail db @ [(''task.completed'', Some (JId (t_id task)))]"
    "run_trail db' = run_trail db @ (if e_status e = E_RUNNING \<and> e_pendingTasks e = 1 then [(''execution.completed'', t_executionId task)] else [])"
proof -
  have i: "e_id e = t_executionId task" using assms(3) by (auto dest: find_execution_Some)
  show "task_trail db' = task_trail db @ [(''task.completed'', Some (JId (t_id task)))]"
    using assms by (auto simp: afterTaskSucceeded_def Let_def find_inc_pending trail_emit elim!: bind_result_InrE split: if_splits)
  show "run_trail db' = run_trail db @ (if e_status e = E_RUNNING \<and> e_pendingTasks e = 1 then [(''execution.completed'', t_executionId task)] else [])"
    using assms i by (auto simp: afterTaskSucceeded_def Let_def find_inc_pending trail_emit elim!: bind_result_InrE split: if_splits)
qed

lemma failed_trail:
  assumes "afterTaskFailedForGood dp task oc msg rt now db = Inr db'" "dep_outbox dp" "find_execution (t_executionId task) db = Some e"
    "oc \<in> {T_FAILED, T_DEAD_LETTER}"
  shows "task_trail db' = task_trail db @ [(task_event oc, Some (JId (t_id task)))]"
    "run_trail db' = run_trail db @ (if live (e_status e) then [(''execution.failed'', t_executionId task)] else [])"
proof -
  have i: "e_id e = t_executionId task" using assms(3) by (auto dest: find_execution_Some)
  show "task_trail db' = task_trail db @ [(task_event oc, Some (JId (t_id task)))]"
    using assms by (auto simp: afterTaskFailedForGood_def Let_def split_beta find_inc_pending trail_emit elim!: bind_result_InrE split: if_splits)
  show "run_trail db' = run_trail db @ (if live (e_status e) then [(''execution.failed'', t_executionId task)] else [])"
    using assms i by (auto simp: afterTaskFailedForGood_def live_def Let_def split_beta find_inc_pending trail_emit elim!: bind_result_InrE split: if_splits)
qed

text \<open>What a transaction adds: the end of a task and, when it is the last, the end of its run.\<close>

definition ends_task :: "task_status \<Rightarrow> oid \<Rightarrow> db \<Rightarrow> db \<Rightarrow> bool" where
  "ends_task u j db db' \<longleftrightarrow> task_trail db' = task_trail db @ [(task_event u, Some (JId j))]"

definition ends_run :: "execution_status \<Rightarrow> oid \<Rightarrow> db \<Rightarrow> db \<Rightarrow> bool" where
  "ends_run S i db db' \<longleftrightarrow> run_trail db' = run_trail db @ (if S \<in> run_ends \<and> run_status i db \<noteq> Some S then [(run_event S, i)] else [])"

definition silent :: "db \<Rightarrow> db \<Rightarrow> bool" where
  "silent db db' \<longleftrightarrow> task_trail db' = task_trail db \<and> run_trail db' = run_trail db"

lemma succeeded_ends:
  assumes "afterTaskSucceeded dp task now db1 = Inr db'" "dep_outbox dp" "find_execution (t_executionId task) db = Some e"
    "executions db1 = executions db" "outbox db1 = outbox db"
  shows "ends_task T_COMPLETED (t_id task) db db'
    \<and> ends_run (if e_status e = E_RUNNING \<and> e_pendingTasks e = 1 then E_COMPLETED else e_status e) (t_executionId task) db db'"
  using succeeded_trail[OF assms(1,2)] assms(3) find_execution_cong[OF assms(4)] trail_same[OF assms(5)]
  by (auto simp: ends_task_def ends_run_def run_ends_def)

lemma failed_ends:
  assumes "afterTaskFailedForGood dp task oc msg rt now db1 = Inr db'" "dep_outbox dp" "find_execution (t_executionId task) db = Some e"
    "oc \<in> {T_FAILED, T_DEAD_LETTER}" "executions db1 = executions db" "outbox db1 = outbox db"
  shows "ends_task oc (t_id task) db db' \<and> ends_run (if live (e_status e) then E_FAILED else e_status e) (t_executionId task) db db'"
  using failed_trail[OF assms(1,2) _ assms(4)] assms(3) find_execution_cong[OF assms(5)] trail_same[OF assms(6)]
  by (auto simp: ends_task_def ends_run_def run_ends_def live_def)

lemma complete_trail:
  assumes "complete_txn dp tid tok out now db = Inr (Some i, db')" "dep_outbox dp" "find_execution i db = Some e"
  shows "ends_task T_COMPLETED tid db db' \<and> ends_run (if e_status e = E_RUNNING \<and> e_pendingTasks e = 1 then E_COMPLETED else e_status e) i db db'"
  using assms unfolding complete_txn_def
  by (auto elim!: bind_result_InrE dest!: transition_outbox find_task_Some succeeded_ends[where db = db] split: if_splits option.splits)

lemma silent_emit:
  "silent db db1 \<Longrightarrow> ty \<notin> {''task.completed'', ''task.failed'', ''task.dead_lettered'', ''execution.completed'', ''execution.failed'', ''execution.cancelled''} \<Longrightarrow>
   silent db (emit dp ty i pl now db1)"
  by (simp add: silent_def emit_def task_trail_def run_trail_def event_types)

lemma silent_outbox: "outbox db' = outbox db \<Longrightarrow> silent db db'"
  unfolding silent_def by (rule trail_same)

lemma retry_trail: "fail_retry dp task msg now db = Inr (r, db') \<Longrightarrow> silent db db'"
  by (auto simp: fail_retry_def Let_def elim!: bind_result_InrE dest!: transition_outbox split: if_splits
      intro!: silent_emit intro: silent_outbox)

lemma terminal_trail:
  assumes "fail_terminal dp task oc msg rt now db1 = Inr ((res, x), db')" "f_applied res" "dep_outbox dp" "find_execution (t_executionId task) db = Some e"
    "oc \<in> {T_FAILED, T_DEAD_LETTER}" "executions db1 = executions db" "outbox db1 = outbox db"
  shows "ends_task oc (t_id task) db db' \<and> ends_run (if live (e_status e) then E_FAILED else e_status e) (t_executionId task) db db'"
proof -
  obtain db2 where "afterTaskFailedForGood dp task oc msg rt now db2 = Inr db'" "executions db2 = executions db1" "outbox db2 = outbox db1"
    using assms(1,2) unfolding fail_terminal_def
    by (auto elim!: bind_result_InrE dest!: transition_outbox split: if_splits)
  then show ?thesis using failed_ends[of dp task oc msg rt now db2 db' db e] assms(3-7) by simp
qed

lemma fail_trail:
  assumes "fail_txn dp tid tok err now db = Inr (r, db')" "dep_outbox dp" "current tid tok db t" "db_inv db" "find_execution (t_executionId t) db = Some e"
  shows "if fail_outcome err t e = T_RETRYING then silent db db'
    else ends_task (fail_outcome err t e) tid db db' \<and> ends_run (if live (e_status e) then E_FAILED else e_status e) (t_executionId t) db db'"
proof -
  have t: "t \<in> set (tasks db)" "t_id t = tid" "t_status t = T_RUNNING" "t_leaseToken t = tok" "db_ok db"
    using assms(3,4) by (auto simp: current_def db_inv_def)
  have fd: "List.find (\<lambda>t. t_id t = tid \<and> t_status t = T_RUNNING \<and> t_leaseToken t = tok) (tasks db) = Some t"
    using find_unique[OF db_okD(2)[OF t(5)] t(1,2), of "\<lambda>t. t_status t = T_RUNNING \<and> t_leaseToken t = tok"] t by simp
  obtain res x where r: "r = (res, x)" "f_applied res" using fail_txn_current[OF assms(4,3,5), of dp err now] assms(1) by (cases r) auto
  have fe: "find_execution (t_executionId t) (close_attempt i n upd db) = Some e" for i n upd
    using assms(5) find_execution_cong[of "close_attempt i n upd db" db] by simp
  show ?thesis
  proof (cases "fail_outcome err t e = T_RETRYING")
    case True
    then have "isRetryable err \<and> t_attempt t < t_maxAttempts t \<and> live (e_status e)" by (auto simp: fail_outcome_def split: if_splits)
    then have "silent (close_attempt tid (t_attempt t) upd db) db' \<Longrightarrow> silent db db'" for upd by (simp add: silent_def)
    then show ?thesis using True assms(1) fd fe \<open>isRetryable err \<and> _\<close> unfolding fail_txn_def live_def by (auto simp: Let_def dest!: retry_trail)
  next
    case False
    then have no: "\<not> (isRetryable err \<and> t_attempt t < t_maxAttempts t \<and> live (e_status e))"
      "fail_outcome err t e = (if isRetryable err \<and> \<not> t_attempt t < t_maxAttempts t then T_DEAD_LETTER else T_FAILED)"
      by (auto simp: fail_outcome_def split: if_splits)
    define db1 where "db1 = close_attempt tid (t_attempt t)
       (\<lambda>a. a\<lparr>a_status := (if map_option je_name err = Some ''TimeoutError'' then A_TIMED_OUT else A_FAILED),
              a_finishedAt := Some now, a_durationMs := duration t now, a_error := Some (error_message err, isRetryable err)\<rparr>) db"
    have "fail_txn dp tid tok err now db = fail_terminal dp t (fail_outcome err t e) (error_message err) (isRetryable err) now db1"
      using no(1) unfolding no(2) fail_txn_def Let_def fd option.case fe db1_def live_def by (simp only: if_False)
    then have "fail_terminal dp t (fail_outcome err t e) (error_message err) (isRetryable err) now db1 = Inr (r, db')"
      "executions db1 = executions db" "outbox db1 = outbox db" using assms(1) by (simp_all add: db1_def)
    then show ?thesis using terminal_trail[of dp t _ "error_message err" "isRetryable err" now db1 res x db' db e] r assms(2,5) no(2) t(2) False by auto
  qed
qed

lemma ends_emit:
  assumes "ty \<notin> {''task.completed'', ''task.failed'', ''task.dead_lettered'', ''execution.completed'', ''execution.failed'', ''execution.cancelled''}"
  shows "ends_task u j db (emit dp ty i pl now db1) \<longleftrightarrow> ends_task u j db db1" "ends_run S k db (emit dp ty i pl now db1) \<longleftrightarrow> ends_run S k db db1"
  using silent_emit[of db1 db1 ty dp i pl now] assms by (simp_all add: silent_def ends_task_def ends_run_def)

lemma decision_event_quiet:
  "decision_event d \<notin> {''task.completed'', ''task.failed'', ''task.dead_lettered'', ''execution.completed'', ''execution.failed'', ''execution.cancelled''}"
  by (cases d) (simp_all add: decision_event_def)

lemma resolve_trail:
  assumes "resolve_txn dp aid d by cm scope now db = Inr ((Some d', Some i), db')" "dep_outbox dp" "find_execution i db = Some e"
    "List.find (\<lambda>p. p_id p = aid \<and> p_status p = P_PENDING \<and> scope p) (approvals db) = Some p"
  shows "if d = P_APPROVED
    then ends_task T_COMPLETED (p_taskId p) db db' \<and> ends_run (if e_status e = E_RUNNING \<and> e_pendingTasks e = 1 then E_COMPLETED else e_status e) i db db'
    else ends_task T_FAILED (p_taskId p) db db' \<and> ends_run (if live (e_status e) then E_FAILED else e_status e) i db db'"
  using assms unfolding resolve_txn_def Let_def
  by (auto simp: ends_emit[OF decision_event_quiet] elim!: bind_result_InrE
      dest!: transition_outbox find_task_Some succeeded_ends[where db = db] failed_ends[where db = db] split: if_splits option.splits)

lemma resume_trail:
  assumes "resume_txn dp i now db = Inr (True, db')" "dep_outbox dp" "db_inv db" "find_execution i db = Some e"
  shows "task_trail db' = task_trail db \<and> ends_run (if e_pendingTasks e = 0 then E_COMPLETED else E_RUNNING) i db db'"
proof -
  have e: "e_status e = E_PAUSED" using resume_txn_cases[OF assms(3), of i dp now] assms(1,4) by auto
  then have "List.find (\<lambda>e. e_id e = i \<and> e_status e = E_PAUSED) (executions db) = Some e"
    using find_status[of db i "\<lambda>s. s = E_PAUSED"] assms(3,4) by (simp add: db_inv_def)
  then show ?thesis using assms e
    by (auto simp: resume_txn_def Let_def trail_emit ends_run_def run_ends_def elim!: bind_result_InrE split: if_splits)
qed

lemma cancel_trail:
  assumes "cancelExecution dp i now db = Inr (True, db')" "dep_outbox dp" "find_execution i db = Some e" "live (e_status e)"
  shows "task_trail db' = task_trail db \<and> ends_run E_CANCELLED i db db'"
  using assms
  by (auto simp: cancelExecution_def Let_def split_beta trail_emit ends_run_def run_ends_def live_def elim!: bind_result_InrE
      split: if_splits option.splits)

lemma silent_steps:
  "start_run dp wfl sp now db = Inr (e, db') \<Longrightarrow> silent db db'"
  "claimTask tid wid ms mnow db = Inr (cl, db') \<Longrightarrow> silent db db'"
  "pauseExecution dp i now db = Inr (b, db') \<Longrightarrow> silent db db'"
  "dispatchTask dp now t (db, q) = Inr (b, db', q') \<Longrightarrow> silent db db'"
  "suspendForApproval dp tid tok rq now db = Inr (b, db') \<Longrightarrow> silent db db'"
  "create_attempt t wid db = Inr db' \<Longrightarrow> silent db db'"
  "renewLease dp tid tok mnow db = (b, db') \<Longrightarrow> silent db db'"
  by (auto simp: start_run_def start_txn_def claimTask_eq pauseExecution_def dispatchTask_def suspendForApproval_def create_attempt_def renewLease_def
      renewTaskLease_def Let_def elim!: bind_result_InrE dest!: transition_outbox split: if_splits option.splits
      intro!: silent_emit; rule silent_outbox; simp)+

section \<open>The trails are exact\<close>

definition audited_tasks :: "db \<Rightarrow> bool" where
  "audited_tasks db \<longleftrightarrow> (\<forall>u \<in> task_ends. \<forall>j. count_list (task_trail db) (task_event u, Some (JId j)) = of_bool (has_status u j db))
     \<and> set (task_trail db) \<subseteq> {(task_event u, Some (JId j)) | u j. u \<in> task_ends}"

definition audited_runs :: "db \<Rightarrow> bool" where
  "audited_runs db \<longleftrightarrow> (\<forall>S \<in> run_ends. \<forall>j. count_list (run_trail db) (run_event S, j) = of_bool (run_status j db = Some S))"

text \<open>A task ends.\<close>

lemma audit_task_end:
  assumes "audited_tasks db" "db_inv db" "run_txn (t_executionId t) F db db'" "t \<in> set (tasks db)" "t_status t \<notin> task_ends" "u \<in> task_ends"
    "\<And>r. list_all2 (touches (\<lambda>j. j = t_key t) u) (cr_tasks r) (cr_tasks (F r))" "ends_task u (t_id t) db db'"
  shows "audited_tasks db'"
  unfolding audited_tasks_def
proof (intro conjI ballI allI)
  fix v j assume v: "v \<in> task_ends"
  have "updates_run (t_executionId t) F db db'" using assms(3) by (simp add: run_txn_def)
  note st = touched_status[OF assms(2) run_txn_inv[OF assms(2,3)] this assms(7), of v j]
  have "has_status v j db' \<longleftrightarrow> (if j = t_id t then v = u else has_status v j db)"
    unfolding st[OF conjunct1[OF task_ends_fixed[OF v]] conjunct2[OF task_ends_fixed[OF v]]]
    using key_unique[OF assms(2,4)] assms(4) distinct_map_eqD[OF db_okD(2)] assms(2) unfolding has_status_def db_inv_def by metis
  moreover have "\<not> has_status v (t_id t) db" using has_status_task[OF assms(2,4)] assms(5) v by metis
  ultimately show "count_list (task_trail db') (task_event v, Some (JId j)) = of_bool (has_status v j db')"
    using assms(1,6,8) v unfolding audited_tasks_def ends_task_def by auto
qed (use assms(1,6,8) in \<open>auto simp: audited_tasks_def ends_task_def\<close>)

text \<open>No task ends.\<close>

lemma audit_task_move:
  assumes "audited_tasks db" "db_inv db" "run_txn i F db db'" "task_trail db' = task_trail db" "s \<notin> task_ends"
    "\<And>r. view i db = Some r \<Longrightarrow> list_all2 (touches K s) (cr_tasks r) (cr_tasks (F r))"
    "\<And>t. t \<in> set (tasks db) \<Longrightarrow> t_executionId t = i \<Longrightarrow> K (t_key t) \<Longrightarrow> t_status t \<notin> task_ends"
  shows "audited_tasks db'"
  unfolding audited_tasks_def
proof (intro conjI ballI allI)
  fix v j assume v: "v \<in> task_ends"
  have "updates_run i F db db'" using assms(3) by (simp add: run_txn_def)
  note st = touched_status[OF assms(2) run_txn_inv[OF assms(2,3)] this assms(6), of v j]
  then have "has_status v j db' \<longleftrightarrow> (\<exists>t \<in> set (tasks db). t_id t = j \<and> (if t_executionId t = i \<and> K (t_key t) then s = v else t_status t = v))"
    using task_ends_fixed[OF v] by blast
  then have "has_status v j db' \<longleftrightarrow> has_status v j db" unfolding has_status_def[of v j db] using assms(5,7) v by metis
  then show "count_list (task_trail db') (task_event v, Some (JId j)) = of_bool (has_status v j db')"
    using assms(1,4) v unfolding audited_tasks_def by auto
qed (use assms(1,4) in \<open>auto simp: audited_tasks_def\<close>)

text \<open>A run ends or not.\<close>

lemma run_status_view: "run_status j db = map_option cr_status (view j db)"
  by (simp add: view_def option.map_comp comp_def)

lemma audit_runs:
  assumes "audited_runs db" "run_txn i F db db'" "view i db = Some r" "ends_run (cr_status (F r)) i db db'"
    "cr_status r \<in> run_ends \<Longrightarrow> cr_status (F r) = cr_status r"
  shows "audited_runs db'"
  unfolding audited_runs_def
proof (intro ballI allI)
  fix S j assume S: "S \<in> run_ends"
  have st: "run_status j db' = (if j = i then Some (cr_status (F r)) else run_status j db)"
    using assms(2,3) by (simp add: run_status_view run_txn_def updates_run_def)
  have "run_status i db = Some (cr_status r)" using assms(3) by (simp add: run_status_view)
  then show "count_list (run_trail db') (run_event S, j) = of_bool (run_status j db' = Some S)"
    using assms(1,4,5) S unfolding st audited_runs_def ends_run_def by auto
qed

lemma audit_runs_same:
  assumes "audited_runs db" "run_txn i F db db'" "run_trail db' = run_trail db" "\<And>r. view i db = Some r \<Longrightarrow> cr_status (F r) = cr_status r"
  shows "audited_runs db'"
proof -
  have "run_status j db' = run_status j db" for j
    using assms(2,4) by (cases "view j db") (auto simp: run_status_view run_txn_def updates_run_def)
  then show ?thesis using assms(1,3) by (simp add: audited_runs_def)
qed

section \<open>Every step keeps them exact\<close>

definition audited :: "db \<Rightarrow> bool" where
  "audited db \<longleftrightarrow> audited_tasks db \<and> audited_runs db"

lemma audited_cong:
  assumes "audited db" "silent db db'" "\<And>u j. has_status u j db' = has_status u j db" "\<And>i. run_status i db' = run_status i db"
  shows "audited db'"
  using assms by (simp add: audited_def audited_tasks_def audited_runs_def silent_def)

text \<open>A task ends with \<open>u\<close>, and maybe its run with it.\<close>

lemma audited_end:
  assumes "audited db" "db_inv db" "run_txn (t_executionId t) F db db'" "t \<in> set (tasks db)" "t_status t \<in> {T_RUNNING, T_WAITING_FOR_APPROVAL}"
    "u \<in> task_ends" "\<And>r. list_all2 (touches (\<lambda>j. j = t_key t) u) (cr_tasks r) (cr_tasks (F r))" "find_execution (t_executionId t) db = Some e"
    "ends_task u (t_id t) db db' \<and> ends_run S (t_executionId t) db db'" "\<And>r. view (t_executionId t) db = Some r \<Longrightarrow> cr_status (F r) = S"
    "e_status e \<in> run_ends \<Longrightarrow> S = e_status e"
  shows "audited db'"
  unfolding audited_def
proof
  have "t_status t \<notin> task_ends" using assms(5) by (auto simp: task_ends_def)
  then show "audited_tasks db'" using audit_task_end[OF _ assms(2-4) _ assms(6,7)] assms(1,9) by (simp add: audited_def)
  obtain r where r: "view (t_executionId t) db = Some r" "cr_status r = e_status e" using assms(8) by (simp add: view_def)
  show "audited_runs db'"
    by (rule audit_runs[OF _ assms(3) r(1)]) (use assms(10)[OF r(1)] assms(1,9,11) r(2) in \<open>simp_all add: audited_def\<close>)
qed

text \<open>A task moves on, without an end.\<close>

lemma audited_move:
  assumes "audited db" "db_inv db" "t \<in> set (tasks db)" "t_status t \<notin> task_ends" "s \<notin> task_ends" "run_txn (t_executionId t) (c_move (t_key t) s) db db'" "silent db db'"
  shows "audited db'"
  unfolding audited_def
proof
  show "audited_tasks db'"
    by (rule audit_task_move[OF _ assms(2,6) _ assms(5) touches_run(1)])
      (use assms(1,4,7) key_unique[OF assms(2,3)] in \<open>auto simp: audited_def silent_def\<close>)
  show "audited_runs db'"
    by (rule audit_runs_same[OF _ assms(6)]) (use assms(1,7) in \<open>auto simp: audited_def silent_def c_move_def\<close>)
qed

lemma audited_run:
  assumes "audited db" "db_inv db" "run_txn i F db db'" "task_trail db' = task_trail db" "find_execution i db = Some e" "ends_run S i db db'"
    "\<And>r. view i db = Some r \<Longrightarrow> cr_status (F r) = S" "e_status e \<in> run_ends \<Longrightarrow> S = e_status e" "s \<notin> task_ends"
    "\<And>r. view i db = Some r \<Longrightarrow> list_all2 (touches K s) (cr_tasks r) (cr_tasks (F r))"
    "\<And>t. t \<in> set (tasks db) \<Longrightarrow> t_executionId t = i \<Longrightarrow> K (t_key t) \<Longrightarrow> t_status t \<notin> task_ends"
  shows "audited db'"
  unfolding audited_def
proof
  show "audited_tasks db'" using assms(1) by (intro audit_task_move[OF _ assms(2,3,4,9-11)]) (simp add: audited_def)
  obtain r where r: "view i db = Some r" "cr_status r = e_status e" using assms(5) by (simp add: view_def)
  show "audited_runs db'"
    by (rule audit_runs[OF _ assms(3) r(1)]) (use assms(7)[OF r(1)] assms(1,6,8) r(2) in \<open>simp_all add: audited_def\<close>)
qed


lemma audited_complete:
  assumes "audited db" "db_inv db" "dep_outbox dp" "complete_txn dp tid tok out now db = Inr (r, db')"
  shows "audited db'"
proof (cases "\<exists>t. current tid tok db t")
  case True
  then obtain t where t: "current tid tok db t" by blast
  then have t1: "t \<in> set (tasks db)" "t_id t = tid" "t_status t = T_RUNNING" "db_ok db" using assms(2) by (auto simp: current_def db_inv_def)
  then obtain e where e: "find_execution (t_executionId t) db = Some e" using db_okD(3) by blast
  have c: "complete_txn dp tid tok out now db = Inr (Some (t_executionId t), db')" "run_txn (t_executionId t) (c_succeed (t_key t) (t_dependents t)) db db'"
    using complete_txn_current[OF assms(2) t, of dp out now] assms(4) by auto
  show ?thesis
    by (rule audited_end[OF assms(1,2) c(2) t1(1) _ _ touches_run(2) e complete_trail[OF c(1) assms(3) e, folded t1(2)]])
      (use t1(3) e in \<open>auto simp: task_ends_def c_succeed_def Let_def view_Some run_ends_def\<close>)
qed (use assms(1,4) complete_txn_stale[of tid tok db dp out now] in simp)

lemma audited_fail:
  assumes "audited db" "db_inv db" "dep_outbox dp" "fail_txn dp tid tok err now db = Inr (r, db')"
  shows "audited db'"
proof (cases "\<exists>t. current tid tok db t")
  case True
  then obtain t where t: "current tid tok db t" by blast
  then have t1: "t \<in> set (tasks db)" "t_id t = tid" "t_status t = T_RUNNING" "db_ok db" using assms(2) by (auto simp: current_def db_inv_def)
  then obtain e where e: "find_execution (t_executionId t) db = Some e" using db_okD(3) by blast
  let ?o = "fail_outcome err t e"
  have o: "?o \<in> {T_RETRYING, T_FAILED, T_DEAD_LETTER}" by (simp add: fail_outcome_def)
  have x: "run_txn (t_executionId t) (if ?o = T_RETRYING then c_move (t_key t) T_RETRYING else c_fail ?o (t_key t)) db db'"
    using fail_txn_current[OF assms(2) t e, of dp err now] assms(4) by auto
  note tr = fail_trail[OF assms(4,3) t assms(2) e]
  show ?thesis
  proof (cases "?o = T_RETRYING")
    case True
    then show ?thesis using audited_move[OF assms(1,2) t1(1), of T_RETRYING db'] x tr t1(3) by (simp add: task_ends_def)
  next
    case False
    then have x': "run_txn (t_executionId t) (c_fail ?o (t_key t)) db db'" and o': "?o \<in> {T_FAILED, T_DEAD_LETTER}" using x o by auto
    have tr': "ends_task ?o (t_id t) db db' \<and> ends_run (if live (e_status e) then E_FAILED else e_status e) (t_executionId t) db db'"
      using tr False t1(2) by simp
    show ?thesis
      by (rule audited_end[OF assms(1,2) x' t1(1) _ _ touches_run(3)[OF o'] e tr'])
        (use t1(3) e o' in \<open>auto simp: task_ends_def c_fail_def Let_def view_Some run_ends_def live_def\<close>)
  qed
qed (use assms(1,4) fail_txn_stale[of tid tok db dp err now] in simp)

lemma audited_resolve:
  assumes "audited db" "db_inv db" "gate db" "dep_outbox dp" "decision \<in> {P_APPROVED, P_REJECTED, P_EXPIRED}"
    "resolve_txn dp aid decision by cm scope now db = Inr (r, db')"
  shows "audited db'"
proof -
  let ?P = "\<lambda>p. p_id p = aid \<and> p_status p = P_PENDING \<and> scope p"
  obtain out eid where r: "r = (out, eid)" by (cases r)
  note cases = resolve_txn_cases[OF assms(2) assms(6)[unfolded r] assms(5)]
  show ?thesis
  proof (cases "List.find ?P (approvals db)")
    case None
    then show ?thesis using assms(1,6) by (simp add: resolve_txn_def)
  next
    case (Some q)
    show ?thesis
    proof (cases "out = None")
      case False
      then obtain p t where p: "p \<in> set (approvals db)" "p_id p = aid" and t: "t \<in> set (tasks db)" "t_id t = p_taskId p" "t_status t = T_WAITING_FOR_APPROVAL"
        and o: "out = Some decision" "eid = Some (t_executionId t)"
        and x: "run_txn (t_executionId t) (if decision = P_APPROVED then c_succeed (t_key t) (t_dependents t) else c_fail T_FAILED (t_key t)) db db'"
        using cases by auto
      obtain e where e: "find_execution (t_executionId t) db = Some e" using db_okD(3) t(1) assms(2) unfolding db_inv_def by blast
      have "q = p" using find_filter_Some[OF Some] p distinct_map_eqD[OF gateD(4)[OF assms(3)]] by metis
      note tr = resolve_trail[OF assms(6)[unfolded r o] assms(4) e Some[unfolded \<open>q = p\<close>], folded t(2)]
      show ?thesis
      proof (cases "decision = P_APPROVED")
        case True
        then have x': "run_txn (t_executionId t) (c_succeed (t_key t) (t_dependents t)) db db'" using x by simp
        show ?thesis
          by (rule audited_end[OF assms(1,2) x' t(1) _ _ touches_run(2) e tr[unfolded if_P[OF True]]])
            (use t(3) e in \<open>auto simp: task_ends_def c_succeed_def Let_def view_Some run_ends_def\<close>)
      next
        case False
        then have x': "run_txn (t_executionId t) (c_fail T_FAILED (t_key t)) db db'" using x by simp
        show ?thesis
          by (rule audited_end[OF assms(1,2) x' t(1) _ _ touches_run(3) e tr[unfolded if_not_P[OF False]]])
            (use t(3) e in \<open>auto simp: task_ends_def c_fail_def Let_def view_Some run_ends_def live_def\<close>)
      qed
    qed (use cases assms(1) in auto)
  qed
qed

lemma audited_resume:
  assumes "audited db" "db_inv db" "dep_outbox dp" "resume_txn dp i now db = Inr (b, db')"
  shows "audited db'"
proof (cases b)
  case True
  then obtain e where e: "find_execution i db = Some e" "e_status e = E_PAUSED" and x: "run_txn i c_resume db db'"
    using resume_txn_cases[OF assms(2), of i dp now] assms(4) by auto
  have "resume_txn dp i now db = Inr (True, db')" using assms(4) True by simp
  note tr = resume_trail[OF this assms(3,2) e(1)]
  show ?thesis
    by (rule audited_run[OF assms(1,2) x conjunct1[OF tr] e(1) conjunct2[OF tr] _ _ _ touches_run(4)[of T_READY]])
      (use e in \<open>auto simp: c_resume_def view_Some run_ends_def task_ends_def\<close>)
qed (use resume_txn_cases[OF assms(2), of i dp now] assms(1,4) in auto)

lemma audited_cancel:
  assumes "audited db" "db_inv db" "dep_outbox dp" "cancelExecution dp i now db = Inr (b, db')"
  shows "audited db'"
proof (cases b)
  case True
  then obtain e where e: "find_execution i db = Some e" "live (e_status e)" and x: "run_txn i c_cancel db db'"
    using cancel_cases[OF assms(2), of i dp now] assms(4) by auto
  have "cancelExecution dp i now db = Inr (True, db')" using assms(4) True by simp
  note tr = cancel_trail[OF this assms(3) e]
  show ?thesis
    by (rule audited_run[OF assms(1,2) x conjunct1[OF tr] e(1) conjunct2[OF tr] _ _ _ touches_cancel(1)[OF assms(2)]])
      (use e touches_cancel(2)[OF assms(2)] in \<open>auto simp: c_cancel_def view_Some run_ends_def task_ends_def live_def unfinished_def\<close>)
qed (use cancel_cases[OF assms(2), of i dp now] assms(1,4) in auto)

lemma audited_start:
  assumes "audited db" "db_inv db" "start_run dp wfl sp now db = Inr (e, db')" "w_tasks wfl \<noteq> []"
  shows "audited db'"
proof -
  obtain ch where ch: "tasks db' = tasks db @ new_tasks wfl ch now (next_id db)"
    using assms(3) by (auto simp: start_run_def start_txn_def Let_def emit_def elim!: bind_result_InrE split: if_splits)
  have "t_status t \<in> {T_READY, T_PENDING}" if "t \<in> set (new_tasks wfl ch now (next_id db))" for t
    using that by (auto simp: new_tasks_def new_task_def Let_def split: if_splits)
  then have st: "has_status u j db' = has_status u j db" if "u \<in> task_ends" for u j
    using that ch by (fastforce simp: has_status_def task_ends_def)
  have "(run_status j db' = Some S) = (run_status j db = Some S)" if "S \<in> run_ends" for j S
    using start_run_ok(3,4,5)[OF assms(2-4)] that
    by (cases "j = next_id db") (auto simp: run_status_view init_crun_def run_ends_def)
  then show ?thesis using assms(1) st silent_steps(1)[OF assms(3)] by (simp add: audited_def audited_tasks_def audited_runs_def silent_def)
qed

lemma audited_quiet:
  assumes "audited db" "silent db db'" "executions db' = executions db"
    "map (\<lambda>t. (t_id t, t_status t)) (tasks db') = map (\<lambda>t. (t_id t, t_status t)) (tasks db)"
  shows "audited db'"
proof (rule audited_cong[OF assms(1,2)])
  show "has_status u j db' = has_status u j db" for u j
    using arg_cong[OF assms(4), of "\<lambda>xs. (j, u) \<in> set xs"] by (auto simp: has_status_def)
  show "run_status i db' = run_status i db" for i using find_execution_cong[OF assms(3)] by simp
qed

lemma audited_step:
  assumes "audited (fst w)" "db_inv (fst w)" "gate (fst w)" "engine_step D w w'" "\<forall>dp. D dp \<longrightarrow> dep_outbox dp"
  shows "audited (fst w')"
  using assms(4)
proof cases
  case (es_start dp wfl sp now db e db' q)
  then show ?thesis using audited_start[of db dp wfl sp now e db'] assms(1,2) by simp
next
  case (es_dispatch dp now t db q b db' q')
  show ?thesis
  proof (cases "db' = db")
    case False
    then obtain t' where "t' \<in> set (tasks db)" "t_status t' = T_READY" "run_txn (t_executionId t') (c_move (t_key t') T_QUEUED) db db'"
      using dispatchTask_cases[of db t dp now q] es_dispatch assms(2) by auto
    then show ?thesis using audited_move[of db t' T_QUEUED db'] silent_steps(4)[of dp now t db q b db' q'] es_dispatch assms(1,2) by (auto simp: task_ends_def)
  qed (use es_dispatch assms(1) in simp)
next
  case (es_claim dp tid wid mnow db r db' q)
  show ?thesis
  proof (cases "db' = db")
    case False
    then obtain t where "t \<in> set (tasks db)" "claimable mnow t" "run_txn (t_executionId t) (c_move (t_key t) T_RUNNING) db db'"
      using claimTask_cases[of db tid wid "dep_leaseMs dp" mnow r db'] es_claim assms(2) by auto
    then show ?thesis using audited_move[of db t T_RUNNING db'] silent_steps(2)[of tid wid "dep_leaseMs dp" mnow db r db'] es_claim assms(1,2) by (auto simp: task_ends_def claimable_def)
  qed (use es_claim assms(1) in simp)
next
  case (es_abandon db q t now)
  then show ?thesis using audited_quiet[of db "abandon_attempts t now db"] silent_outbox[of "abandon_attempts t now db" db] assms(1)
    by (simp add: abandon_attempts_def)
next
  case (es_attempt t db wid db' q)
  then show ?thesis using audited_quiet[of db db'] silent_steps(6)[of t wid db db'] assms(1) by (auto simp: create_attempt_def split: if_splits)
next
  case (es_emit dp ty db q i pl now)
  then show ?thesis using audited_quiet[of db "emit dp ty i pl now db"] silent_emit[of db db ty dp i pl now] assms(1) by (simp add: silent_def)
next
  case (es_renew dp tid tok mnow db b db' q)
  then have "db' = snd (renewTaskLease tid tok (dep_leaseMs dp) mnow db)" by (simp add: renewLease_def)
  then show ?thesis using audited_quiet[of db db'] silent_steps(7)[of dp tid tok mnow db b db'] es_renew assms(1) by (simp add: renewTaskLease_def Let_def map_update_where)
next
  case (es_complete dp tid tok out now db r db' q)
  then show ?thesis using audited_complete[of db dp tid tok out now r db'] assms by simp
next
  case (es_fail dp tid tok err now db r db' q)
  then show ?thesis using audited_fail[of db dp tid tok err now r db'] assms by simp
next
  case (es_suspend dp tid tok rq now db b db' q)
  then consider "db' = db" | t where "current tid tok db t" "run_txn (t_executionId t) (c_move (t_key t) T_WAITING_FOR_APPROVAL) db db'"
    using suspend_cases[of db dp tid tok rq now b db'] assms(2) by auto
  then show ?thesis
  proof cases
    case 2
    then show ?thesis using audited_move[of db t T_WAITING_FOR_APPROVAL db'] silent_steps(5)[of dp tid tok rq now db b db'] es_suspend assms(1,2) by (auto simp: task_ends_def current_def)
  qed (use es_suspend assms(1) in simp)
next
  case (es_resolve dp decision aid "by" cm scope now db r db' q)
  then show ?thesis using audited_resolve[of db dp decision aid "by" cm scope now r db'] assms by simp
next
  case (es_pause dp i now db b db' q)
  show ?thesis
  proof (cases "db' = db")
    case False
    then obtain e where e: "find_execution i db = Some e" "e_status e = E_RUNNING" and x: "run_txn i (\<lambda>r. r\<lparr>cr_status := E_PAUSED\<rparr>) db db'"
      using pause_cases[of db i dp now] es_pause assms(2) by auto
    have si: "silent db db'" using silent_steps(3)[of dp i now db b db'] es_pause by simp
    have "audited db'"
      by (rule audited_run[where K = "\<lambda>_. False" and s = T_READY and S = E_PAUSED, OF _ _ x _ e(1)])
        (use es_pause assms(1,2) e si touches_same in \<open>auto simp: silent_def ends_run_def run_ends_def task_ends_def\<close>)
    then show ?thesis using es_pause by simp
  qed (use es_pause assms(1) in simp)
next
  case (es_resume dp i now db b db' q)
  then show ?thesis using audited_resume[of db dp i now b db'] assms by simp
next
  case (es_cancel dp i now db b db' q)
  then show ?thesis using audited_cancel[of db dp i now b db'] assms by simp
next
  case (es_queue db q q')
  then show ?thesis using assms(1) by simp
qed

interpretation trail: invariant_system "\<lambda>w. fst w = empty_db"
  "\<lambda>w w'. engine_step D w w' \<and> (\<forall>dp. D dp \<longrightarrow> dep_approvals dp \<and> dep_outbox dp)" "\<lambda>w. db_inv (fst w) \<and> gate (fst w) \<and> audited (fst w)" for D
proof
  show "db_inv (fst w) \<and> gate (fst w) \<and> audited (fst w)" if "fst w = empty_db" for w
    using that db_inv_empty
    by (simp add: gate_def empty_db_def audited_def audited_tasks_def audited_runs_def task_trail_def run_trail_def has_status_def find_execution_def)
  show "db_inv (fst w') \<and> gate (fst w') \<and> audited (fst w')"
    if "db_inv (fst w) \<and> gate (fst w) \<and> audited (fst w)" "engine_step D w w' \<and> (\<forall>dp. D dp \<longrightarrow> dep_approvals dp \<and> dep_outbox dp)" for w w'
    using that engine_step_inv gate_step audited_step by blast
qed

section \<open>Attempts that succeeded\<close>

definition succeeded_keys :: "db \<Rightarrow> (oid \<times> int) set" where
  "succeeded_keys db = (\<lambda>a. (a_taskId a, a_attempt a)) ` {a \<in> set (attempts db). a_status a = A_SUCCEEDED}"

definition task_attempts :: "db \<Rightarrow> (oid \<times> int) list" where
  "task_attempts db = map (\<lambda>t. (t_id t, t_attempt t)) (tasks db)"

lemma attempt_parts [simp]:
  "attempts (inc_pending n i db) = attempts db" "attempts (set_execution_status i s u db) = attempts db" "attempts (emit dp ty i pl now db) = attempts db"
  "attempts (release_dependents task db) = attempts db" "attempts (promote_dependents task now db) = attempts db"
  "attempts (promote_ready i now db) = attempts db" "attempts (snd (cancel_tasks S i upd db)) = attempts db"
  by (simp_all add: inc_pending_def set_execution_status_def release_dependents_def promote_dependents_def promote_ready_def
      cancel_tasks_def emit_def Let_def)

lemma task_attempts_parts [simp]:
  "task_attempts (inc_pending n i db) = task_attempts db" "task_attempts (set_execution_status i s u db) = task_attempts db"
  "task_attempts (emit dp ty i pl now db) = task_attempts db" "task_attempts (close_attempt i n upd' db) = task_attempts db"
  "task_attempts (release_dependents task db) = task_attempts db" "task_attempts (promote_dependents task now db) = task_attempts db"
  "task_attempts (promote_ready i now db) = task_attempts db" "task_attempts (abandon_attempts task now db) = task_attempts db"
  "task_attempts (db\<lparr>approvals := ps\<rparr>) = task_attempts db" "task_attempts (db\<lparr>attempts := as\<rparr>) = task_attempts db"
  "task_attempts (db\<lparr>next_id := m\<rparr>) = task_attempts db"
  by (simp_all add: task_attempts_def inc_pending_def set_execution_status_def release_dependents_def promote_dependents_def promote_ready_def
      emit_def close_attempt_def abandon_attempts_def map_update_where)

lemma task_attempts_cancel:
  "(\<And>t. t_id (upd t) = t_id t \<and> t_attempt (upd t) = t_attempt t) \<Longrightarrow> task_attempts (snd (cancel_tasks S i upd db)) = task_attempts db"
  by (simp add: task_attempts_def cancel_tasks_def Let_def map_update_where)

lemma transition_attempts:
  "transitionTask i s s' wher upd db = Inr (b, db') \<Longrightarrow> (\<And>t. t_id (upd t) = t_id t \<and> t_attempt (upd t) = t_attempt t) \<Longrightarrow>
   attempts db' = attempts db \<and> task_attempts db' = task_attempts db"
  by (auto simp: transitionTask_def Let_def task_attempts_def map_update_where elim!: bind_result_InrE)

lemma after_attempts:
  "afterTaskSucceeded dp task now db = Inr db' \<Longrightarrow> attempts db' = attempts db \<and> task_attempts db' = task_attempts db"
  "afterTaskFailedForGood dp task oc msg rt now db = Inr db' \<Longrightarrow> attempts db' = attempts db \<and> task_attempts db' = task_attempts db"
  by (auto simp: afterTaskSucceeded_def afterTaskFailedForGood_def Let_def split_beta task_attempts_cancel elim!: bind_result_InrE
      split: option.splits if_splits)

lemma fail_attempts:
  "fail_retry dp task msg now db = Inr (r, db') \<Longrightarrow> attempts db' = attempts db \<and> task_attempts db' = task_attempts db"
  "fail_terminal dp task oc msg rt now db = Inr (r, db') \<Longrightarrow> attempts db' = attempts db \<and> task_attempts db' = task_attempts db"
  by (auto simp: fail_retry_def fail_terminal_def Let_def elim!: bind_result_InrE dest!: transition_attempts after_attempts split: if_splits)

lemma close_succeeded:
  "(\<And>a. a_status (upd a) \<noteq> A_SUCCEEDED) \<Longrightarrow> succeeded_keys (close_attempt i n upd db) \<subseteq> succeeded_keys db"
  by (auto simp: succeeded_keys_def close_attempt_def update_where_def)

text \<open>A step that adds no success and forgets no attempt.\<close>

definition calm :: "db \<Rightarrow> db \<Rightarrow> bool" where
  "calm db db' \<longleftrightarrow> succeeded_keys db' \<subseteq> succeeded_keys db \<and> set (task_attempts db) \<subseteq> set (task_attempts db')"

lemma calm_same: "attempts db' = attempts db \<Longrightarrow> task_attempts db' = task_attempts db \<Longrightarrow> calm db db'"
  by (simp add: calm_def succeeded_keys_def)

lemma calm_fail: "fail_txn dp i tok err now db = Inr (r, db') \<Longrightarrow> calm db db'"
  by (auto simp: fail_txn_def Let_def calm_def succeeded_keys_def close_attempt_def update_where_def dest!: fail_attempts split: option.splits if_splits)

lemma calm_suspend: "suspendForApproval dp i tok rq now db = Inr (b, db') \<Longrightarrow> calm db db'"
  by (auto simp: suspendForApproval_def Let_def calm_def succeeded_keys_def close_attempt_def update_where_def
      elim!: bind_result_InrE dest!: transition_attempts split: option.splits if_splits)

lemma calm_other:
  "resolve_txn dp aid d by cm scope now db = Inr (r, db') \<Longrightarrow> calm db db'"
  "pauseExecution dp i now db = Inr (b, db') \<Longrightarrow> calm db db'"
  "resume_txn dp i now db = Inr (b, db') \<Longrightarrow> calm db db'"
  "cancelExecution dp i now db = Inr (b, db') \<Longrightarrow> calm db db'"
  "dispatchTask dp now t (db, q) = Inr (b, db', q') \<Longrightarrow> calm db db'"
  by (auto simp: resolve_txn_def pauseExecution_def resume_txn_def cancelExecution_def dispatchTask_def Let_def split_beta task_attempts_cancel
      elim!: bind_result_InrE dest!: transition_attempts after_attempts split: option.splits if_splits intro!: calm_same)

lemma calm_start: "start_run dp wfl sp now db = Inr (e, db') \<Longrightarrow> calm db db'"
  by (auto simp: start_run_def start_txn_def Let_def emit_def calm_def succeeded_keys_def task_attempts_def elim!: bind_result_InrE split: if_splits)

lemma calm_local:
  "create_attempt t wid db = Inr db' \<Longrightarrow> calm db db'"
  "calm db (abandon_attempts t now db)"
  by (auto simp: create_attempt_def abandon_attempts_def calm_def succeeded_keys_def task_attempts_def update_where_def split: if_splits)

lemma calm_renew: "renewLease dp tid tok mnow db = (b, db') \<Longrightarrow> calm db db'"
  by (auto simp: renewLease_def renewTaskLease_def Let_def task_attempts_def map_update_where intro!: calm_same)

lemma succeeded_close:
  assumes "afterTaskSucceeded dp task now (close_attempt tid (t_attempt task)
      (\<lambda>a. a\<lparr>a_status := A_SUCCEEDED, a_finishedAt := Some now, a_durationMs := d\<rparr>) db1) = Inr db'" "find_task tid db1 = Some task"
    "attempts db1 = attempts db" "task_attempts db1 = task_attempts db"
  shows "task_attempts db' = task_attempts db \<and> (\<exists>n. (tid, n) \<in> set (task_attempts db) \<and> succeeded_keys db' \<subseteq> insert (tid, n) (succeeded_keys db))"
proof (intro conjI exI)
  show "task_attempts db' = task_attempts db" using after_attempts(1)[OF assms(1)] assms(4) by simp
  show "(tid, t_attempt task) \<in> set (task_attempts db)"
    using find_task_Some[OF assms(2)] unfolding assms(4)[symmetric] by (auto simp: task_attempts_def)
  show "succeeded_keys db' \<subseteq> insert (tid, t_attempt task) (succeeded_keys db)"
    using after_attempts(1)[OF assms(1)] assms(3) by (auto simp: succeeded_keys_def close_attempt_def update_where_def)
qed

lemma complete_attempts:
  assumes "complete_txn dp tid tok out now db = Inr (Some i, db')"
  shows "task_attempts db' = task_attempts db \<and> (\<exists>n. (tid, n) \<in> set (task_attempts db) \<and> succeeded_keys db' \<subseteq> insert (tid, n) (succeeded_keys db))"
  using assms unfolding complete_txn_def
  by (auto elim!: bind_result_InrE dest!: transition_attempts succeeded_close[where db = db] split: option.splits if_splits)

text \<open>The success of an attempt is the success of its task, in its last attempt.\<close>

definition success_ok :: "db \<Rightarrow> bool" where
  "success_ok db \<longleftrightarrow> (\<forall>(j, n) \<in> succeeded_keys db. has_status T_COMPLETED j db \<and> (j, n) \<in> set (task_attempts db))"

lemma completed_stays:
  assumes "db_inv (fst w)" "engine_step D w w'" "has_status T_COMPLETED j (fst w)"
  shows "has_status T_COMPLETED j (fst w')"
  using assms(3) task_persists[OF assms(1,2)] unfolding has_status_def by force

lemma success_calm:
  assumes "db_inv (fst w)" "engine_step D w w'" "success_ok (fst w)" "calm (fst w) (fst w')"
  shows "success_ok (fst w')"
  using assms(3,4) completed_stays[OF assms(1,2)] unfolding success_ok_def calm_def by blast

lemma success_complete:
  assumes "db_inv db" "success_ok db" "complete_txn dp tid tok out now db = Inr (r, db')" "engine_step D (db, q) (db', q)"
  shows "success_ok db'"
proof (cases "\<exists>t. current tid tok db t")
  case True
  then obtain t where t: "current tid tok db t" by blast
  have t1: "t \<in> set (tasks db)" "t_id t = tid" using t by (auto simp: current_def)
  have c: "complete_txn dp tid tok out now db = Inr (Some (t_executionId t), db')" "run_txn (t_executionId t) (c_succeed (t_key t) (t_dependents t)) db db'"
    using complete_txn_current[OF assms(1) t, of dp out now] assms(3) by auto
  have "updates_run (t_executionId t) (c_succeed (t_key t) (t_dependents t)) db db'" using c(2) by (simp add: run_txn_def)
  then have "has_status T_COMPLETED tid db'"
    using touched_status[where u = T_COMPLETED and j = tid, OF assms(1) run_txn_inv[OF assms(1) c(2)] _ touches_run(2)] t1 by (auto simp: fixed_def)
  then show ?thesis
    using complete_attempts[OF c(1)] assms(2) completed_stays[OF _ assms(4), of tid] completed_stays[OF _ assms(4)] assms(1)
    unfolding success_ok_def by fastforce
qed (use assms(2,3) complete_txn_stale[of tid tok db dp out now] in simp)

lemma success_claim:
  assumes "db_inv db" "success_ok db" "claimTask tid wid ms mnow db = Inr (r, db')" "engine_step D (db, q) (db', q)"
  shows "success_ok db'"
proof -
  consider "db' = db" | t where "t \<in> set (tasks db)" "claimable mnow t" "db' = moved t (claim_update wid ms mnow t) db"
    using claimTask_cases[OF assms(1,3)] by blast
  then show ?thesis
  proof cases
    case 2
    have "(j, n) \<in> set (task_attempts db')" if jn: "(j, n) \<in> set (task_attempts db)" "has_status T_COMPLETED j db" for j n
    proof -
      obtain u where u: "u \<in> set (tasks db)" "t_id u = j" "t_attempt u = n" using jn(1) by (auto simp: task_attempts_def)
      have "t_status u = T_COMPLETED" using has_status_task[OF assms(1) u(1)] u(2) jn(2) by metis
      then have "u \<noteq> t" using 2(2) by (auto simp: claimable_def)
      then have "u \<in> set (tasks db')" using update_where_out[OF u(1)] 2(3) by (simp add: moved_def)
      then show ?thesis using u by (auto simp: task_attempts_def)
    qed
    moreover have "succeeded_keys db' = succeeded_keys db" using 2 by (simp add: succeeded_keys_def moved_def)
    ultimately show ?thesis using assms(2) completed_stays[OF _ assms(4)] assms(1) unfolding success_ok_def by fastforce
  qed (use assms(2) in simp)
qed

lemma success_step:
  assumes "success_ok (fst w)" "db_inv (fst w)" "engine_step D w w'"
  shows "success_ok (fst w')"
proof -
  note calm = success_calm[OF assms(2,3,1)]
  show ?thesis using assms(3)
  proof cases
    case (es_complete dp tid tok out now db r db' q)
    then show ?thesis using success_complete[of db dp tid tok out now r db' D q] assms by simp
  next
    case (es_claim dp tid wid mnow db r db' q)
    then show ?thesis using success_claim[of db tid wid "dep_leaseMs dp" mnow r db' D q] assms by simp
  next
    case (es_emit dp ty db q i pl now)
    then show ?thesis using calm calm_same by simp
  next
    case (es_queue db q q')
    then show ?thesis using assms(1) by simp
  qed (use calm in \<open>auto dest: calm_fail calm_suspend calm_other calm_start calm_local(1) calm_renew simp: calm_local(2)\<close>)
qed

interpretation successes: invariant_system "\<lambda>w. fst w = empty_db" "engine_step D" "\<lambda>w. db_inv (fst w) \<and> success_ok (fst w)" for D
proof
  show "db_inv (fst w) \<and> success_ok (fst w)" if "fst w = empty_db" for w
    using that db_inv_empty by (simp add: success_ok_def succeeded_keys_def empty_db_def)
qed (use engine_step_inv success_step in auto)

lemma one_success:
  assumes "reachable D w" "a \<in> set (attempts (fst w))" "a_status a = A_SUCCEEDED"
  shows "has_status T_COMPLETED (a_taskId a) (fst w)"
    "b \<in> set (attempts (fst w)) \<Longrightarrow> a_status b = A_SUCCEEDED \<Longrightarrow> a_taskId b = a_taskId a \<Longrightarrow> b = a"
proof -
  have inv: "db_inv (fst w)" "success_ok (fst w)" using successes.reach_inv[OF assms(1)] by auto
  have key: "has_status T_COMPLETED (a_taskId b) (fst w) \<and> (a_taskId b, a_attempt b) \<in> set (task_attempts (fst w))"
    if "b \<in> set (attempts (fst w))" "a_status b = A_SUCCEEDED" for b
    using that inv(2) by (auto simp: success_ok_def succeeded_keys_def)
  then show "has_status T_COMPLETED (a_taskId a) (fst w)" using assms(2,3) by blast
  assume b: "b \<in> set (attempts (fst w))" "a_status b = A_SUCCEEDED" "a_taskId b = a_taskId a"
  have "distinct (map fst (task_attempts (fst w)))" using db_okD(2) inv(1) by (auto simp: task_attempts_def db_inv_def comp_def)
  then have "a_attempt b = a_attempt a" using key[OF b(1,2)] key[OF assms(2,3)] b(3) eq_key_imp_eq_value by metis
  moreover have "distinct (map (\<lambda>a. (a_taskId a, a_attempt a)) (attempts (fst w)))"
    using attempts.reach_inv[OF assms(1)] by (simp add: attempts_ok_def attempt_keys_def)
  ultimately show "b = a" using distinct_map_eqD b(1,3) assms(2) by fastforce
qed

section \<open>The trail of a reachable database\<close>

lemma count_list_map_filter: "count_list (map f (filter P xs)) y = length (filter (\<lambda>x. P x \<and> f x = y) xs)"
  by (induction xs) auto

lemma reachable_audited:
  assumes "\<forall>dp. D dp \<longrightarrow> dep_approvals dp \<and> dep_outbox dp" "reachable D w"
  shows "db_inv (fst w)" "audited (fst w)"
  using trail.reach_inv[of D w] assms by simp_all

lemma run_status_iff: "db_inv db \<Longrightarrow> run_status i db = Some S \<longleftrightarrow> (\<exists>e \<in> set (executions db). e_id e = i \<and> e_status e = S)"
  using find_execution_eq[of db] find_execution_Some[of i db] by (auto simp: db_inv_def)


abbreviation full_deps :: "'q deps \<Rightarrow> bool" where
  "full_deps dp \<equiv> dep_approvals dp \<and> dep_outbox dp"


section \<open>The checks of the chaos test\<close>

text \<open>\<open>{ $group: { _id, n: { $sum: 1 } } }\<close>\<close>

definition group_counts :: "'a list \<Rightarrow> ('a \<times> nat) list" where
  "group_counts xs = map (\<lambda>x. (x, count_list xs x)) (remdups xs)"

definition succeeded_groups :: "db \<Rightarrow> (oid \<times> nat) list" where
  "succeeded_groups db = group_counts (map a_taskId (filter (\<lambda>a. a_status a = A_SUCCEEDED) (attempts db)))"

definition completedEvents :: "db \<Rightarrow> (json option \<times> nat) list" where
  "completedEvents db = group_counts (map (\<lambda>e. map_of (o_payload e) ''taskId'') (filter (\<lambda>e. o_type e = ''task.completed'') (outbox db)))"

definition chaos_checks :: "nat \<Rightarrow> db \<Rightarrow> (string \<times> bool) list" where
  "chaos_checks RUNS db =
     [(''all '' @ show_nat RUNS @ '' runs COMPLETED'',
        length (executions db) = RUNS \<and> (\<forall>e \<in> set (executions db). e_status e = E_COMPLETED)),
      (''every task COMPLETED'', \<forall>t \<in> set (tasks db). t_status t = T_COMPLETED),
      (''exactly one SUCCEEDED attempt per task'',
        length (succeeded_groups db) = length (tasks db) \<and> (\<forall>s \<in> set (succeeded_groups db). snd s = 1)),
      (''pendingTasks == 0 for every run'', \<forall>e \<in> set (executions db). e_pendingTasks e = 0),
      (''exactly one task.completed event per task'',
        length (completedEvents db) = length (tasks db) \<and> (\<forall>s \<in> set (completedEvents db). snd s = 1))]"

definition chaos_ok :: "nat \<Rightarrow> db \<Rightarrow> bool" where
  "chaos_ok RUNS db \<longleftrightarrow> (\<forall>c \<in> set (chaos_checks RUNS db). snd c)"

lemma group_counts_iff:
  assumes "\<And>x. x \<in> set xs \<Longrightarrow> count_list xs x = 1" "set xs \<subseteq> set ys" "distinct ys"
  shows "length (group_counts xs) = length ys \<and> (\<forall>g \<in> set (group_counts xs). snd g = 1) \<longleftrightarrow> set ys \<subseteq> set xs"
proof -
  have "length (group_counts xs) = card (set xs)" by (simp add: group_counts_def length_remdups_card_conv)
  moreover have "length ys = card (set ys)" using assms(3) by (simp add: distinct_card)
  moreover have "card (set xs) = card (set ys) \<longleftrightarrow> set ys \<subseteq> set xs" using assms(2) card_subset_eq[of "set ys" "set xs"] by auto
  ultimately show ?thesis using assms(1) by (auto simp: group_counts_def)
qed

lemma filter_unique:
  assumes "distinct xs" "x \<in> set xs" "P x" "\<And>y. y \<in> set xs \<Longrightarrow> P y \<Longrightarrow> y = x"
  shows "length (filter P xs) = 1"
proof -
  have "y = x" if "y \<in> set (filter P xs)" for y using that assms(4)[of y] by simp
  moreover have "x \<in> set (filter P xs)" using assms(2,3) by simp
  ultimately have "set (filter P xs) = {x}" by blast
  then show ?thesis using distinct_card[OF distinct_filter[OF assms(1)], of P] by simp
qed

text \<open>Third check: at most one success per task in any case, so it is about the records being there.\<close>

lemma succeeded_check:
  assumes "reachable D w"
  shows "length (succeeded_groups (fst w)) = length (tasks (fst w)) \<and> (\<forall>s \<in> set (succeeded_groups (fst w)). snd s = 1)
     \<longleftrightarrow> (\<forall>t \<in> set (tasks (fst w)). \<exists>a \<in> set (attempts (fst w)). a_taskId a = t_id t \<and> a_status a = A_SUCCEEDED)"
proof -
  let ?xs = "map a_taskId (filter (\<lambda>a. a_status a = A_SUCCEEDED) (attempts (fst w)))" and ?ys = "map t_id (tasks (fst w))"
  have inv: "db_inv (fst w)" by (rule engine.reach_inv[OF assms])
  have "distinct (map (\<lambda>a. (a_taskId a, a_attempt a)) (attempts (fst w)))"
    using attempts.reach_inv[OF assms] by (simp add: attempts_ok_def attempt_keys_def)
  then have d: "distinct (attempts (fst w))" by (simp add: distinct_map)
  have "count_list ?xs x = 1" if x: "x \<in> set ?xs" for x
  proof -
    obtain a where "a \<in> set (attempts (fst w))" "a_status a = A_SUCCEEDED" "a_taskId a = x" using x by auto
    then show ?thesis unfolding count_list_map_filter using one_success(2)[OF assms] by (intro filter_unique[OF d, of a]) auto
  qed
  moreover have "set ?xs \<subseteq> set ?ys"
  proof
    fix x assume "x \<in> set ?xs"
    then obtain a where "a \<in> set (attempts (fst w))" "a_status a = A_SUCCEEDED" "a_taskId a = x" by auto
    then show "x \<in> set ?ys" using one_success(1)[OF assms] by (force simp: has_status_def)
  qed
  moreover have "distinct ?ys" using db_okD(2) inv by (auto simp: db_inv_def)
  ultimately have "length (group_counts ?xs) = length ?ys \<and> (\<forall>g \<in> set (group_counts ?xs). snd g = 1) \<longleftrightarrow> set ?ys \<subseteq> set ?xs"
    by (rule group_counts_iff)
  then show ?thesis unfolding succeeded_groups_def by (force simp: image_iff)
qed

text \<open>Fifth check: the completion of every task is announced once.\<close>

lemma completed_check:
  assumes "db_inv db" "audited db" "\<forall>t \<in> set (tasks db). t_status t = T_COMPLETED"
  shows "length (completedEvents db) = length (tasks db) \<and> (\<forall>s \<in> set (completedEvents db). snd s = 1)"
proof -
  let ?xs = "map (\<lambda>e. map_of (o_payload e) ''taskId'') (filter (\<lambda>e. o_type e = ''task.completed'') (outbox db))"
  let ?ys = "map (\<lambda>t. Some (JId (t_id t))) (tasks db)"
  have cnt: "count_list ?xs x = count_list (task_trail db) (''task.completed'', x)" for x
    unfolding task_trail_def count_list_map_filter event_types by (intro arg_cong[of _ _ length] filter_cong) auto
  have au: "count_list (task_trail db) (''task.completed'', Some (JId j)) = of_bool (has_status T_COMPLETED j db)" for j
    using assms(2) unfolding audited_def audited_tasks_def by (force simp: task_ends_def)
  have form: "\<exists>j. x = Some (JId j) \<and> has_status T_COMPLETED j db" if x: "x \<in> set ?xs" for x
  proof -
    have "count_list ?xs x \<noteq> 0" using x unfolding count_list_0_iff by simp
    then have "(''task.completed'', x) \<in> set (task_trail db)" unfolding cnt count_list_0_iff by simp
    then obtain j where j: "x = Some (JId j)" using assms(2) unfolding audited_def audited_tasks_def by blast
    then show ?thesis using \<open>count_list ?xs x \<noteq> 0\<close> cnt[of x] au[of j] by (cases "has_status T_COMPLETED j db") simp_all
  qed
  have "count_list ?xs x = 1" if "x \<in> set ?xs" for x using form[OF that] cnt[of x] au by auto
  moreover have "set ?xs \<subseteq> set ?ys" using form by (fastforce simp: has_status_def)
  moreover have "distinct ?ys" using db_okD(2) assms(1) by (auto simp: db_inv_def distinct_map inj_on_def)
  ultimately have "length (group_counts ?xs) = length ?ys \<and> (\<forall>g \<in> set (group_counts ?xs). snd g = 1) \<longleftrightarrow> set ?ys \<subseteq> set ?xs"
    by (rule group_counts_iff)
  moreover have "set ?ys \<subseteq> set ?xs"
  proof
    fix x assume "x \<in> set ?ys"
    then obtain t where "t \<in> set (tasks db)" "x = Some (JId (t_id t))" by auto
    then have "count_list ?xs x \<noteq> 0" using cnt[of x] au[of "t_id t"] assms(3) by (auto simp: has_status_def)
    then show "x \<in> set ?xs" unfolding count_list_0_iff by simp
  qed
  ultimately show ?thesis by (simp add: completedEvents_def)
qed

text \<open>C8: what the chaos test looks for cannot go wrong. Whatever was killed and restarted, once all runs are completed every task is completed, no counter is off,
  and the completion of each task was announced exactly once; so the test passes if and only if every task has a record of an attempt that succeeded, which
  only a task that a human decided or whose record could not be stored lacks.\<close>

theorem chaos_invariants:
  assumes "\<forall>dp. D dp \<longrightarrow> full_deps dp" "reachable D w" "length (executions (fst w)) = RUNS" "\<forall>e \<in> set (executions (fst w)). e_status e = E_COMPLETED"
  shows "chaos_ok RUNS (fst w) \<longleftrightarrow> (\<forall>t \<in> set (tasks (fst w)). \<exists>a \<in> set (attempts (fst w)). a_taskId a = t_id t \<and> a_status a = A_SUCCEEDED)"
proof -
  note inv = reachable_audited[OF assms(1,2)]
  have c2: "\<forall>t \<in> set (tasks (fst w)). t_status t = T_COMPLETED"
  proof
    fix t assume t: "t \<in> set (tasks (fst w))"
    obtain e where "e \<in> set (executions (fst w))" "e_id e = t_executionId t"
      using db_okD(3)[OF _ t] inv(1) find_execution_Some unfolding db_inv_def by blast
    then show "t_status t = T_COMPLETED" using run_outcomes_parts(1)[OF assms(2)] assms(4) t by (simp add: tasks_of_def)
  qed
  have "\<forall>e \<in> set (executions (fst w)). e_pendingTasks e = 0"
    using counters_exact_parts(1)[OF assms(2)] c2 by (auto simp: count_where_def tasks_of_def unfinished_def filter_empty_conv)
  then show ?thesis
    using succeeded_check[OF assms(2)] completed_check[OF inv c2] assms(3,4) c2 unfolding chaos_ok_def chaos_checks_def by simp
qed

text \<open>The run of the other examples, to its end.\<close>

definition demo_last :: "unit world" where
  "demo_last = snd (startTask demo_deps 2 ''w1'' 30 30 demo3)"

definition demo_finished :: "unit world" where
  "demo_finished = world_of (completeTask demo_deps 2 1 (JNum 8) 40 demo_last)"

lemma demo_finished_reachable: "reachable full_deps demo_finished"
proof -
  have D: "full_deps demo_deps" by (simp add: demo_deps_def)
  note d3 = demo_reach(3)[of full_deps, OF D]
  obtain r where "startTask demo_deps 2 ''w1'' 30 30 demo3 = (r, demo_last)" by (simp add: demo_last_def prod_eq_iff)
  from reach_rtranclp[OF d3 startTask_steps[where D = full_deps and dp = demo_deps, OF D this]] have d4: "reachable full_deps demo_last" .
  have "\<not> isl (completeTask demo_deps 2 1 (JNum 8) 40 demo_last)" by code_simp
  then obtain b where "completeTask demo_deps 2 1 (JNum 8) 40 demo_last = Inr (b, demo_finished)"
    using not_isl_world by (auto simp: demo_finished_def)
  from reach_rtranclp[OF d4 completeTask_steps[where D = full_deps and dp = demo_deps, OF D this]] show ?thesis .
qed

theorem chaos_invariants_witness: "reachable full_deps demo_finished \<and> chaos_ok 1 (fst demo_finished)"
proof -
  have "length (executions (fst demo_finished)) = 1" "\<forall>e \<in> set (executions (fst demo_finished)). e_status e = E_COMPLETED"
    "\<forall>t \<in> set (tasks (fst demo_finished)). \<exists>a \<in> set (attempts (fst demo_finished)). a_taskId a = t_id t \<and> a_status a = A_SUCCEEDED" by code_simp+
  then show ?thesis using chaos_invariants[of full_deps demo_finished 1] demo_finished_reachable by blast
qed

end
