(* ===== verification/Wf_Registry.thy ===== *)
theory Wf_Registry
  imports Wf_Access Wf_Store
begin

text \<open>
  The registry of workers of \<open>src/workers/registry.js\<close>: a document per worker and a key in Redis that expires unless the worker
  refreshes it, and the list that \<open>GET /workers\<close> shows to administrators. Every command may fail on its own; \<open>beat\<close> and
  \<open>deregister\<close> go on in spite of it.
\<close>

section \<open>State\<close>

datatype worker_status = W_ACTIVE | W_STOPPED

record worker_doc =
  wd_workerId :: string
  wd_host :: string
  wd_pid :: nat
  wd_concurrency :: nat
  wd_status :: worker_status
  wd_runningTasks :: nat
  wd_tasksCompleted :: nat
  wd_startedAt :: time
  wd_lastSeenAt :: time

text \<open>The collection, and when the key of each worker expires.\<close>

record registry =
  rg_workers :: "worker_doc list"
  rg_keys :: "string \<Rightarrow> time option"

definition empty_registry :: registry where
  "empty_registry = \<lparr>rg_workers = [], rg_keys = (\<lambda>_. None)\<rparr>"

section \<open>Operations\<close>

text \<open>\<open>mongo\<close> and \<open>redis\<close> say whether the command to each store succeeds.\<close>

definition set_key :: "bool \<Rightarrow> string \<Rightarrow> time option \<Rightarrow> registry \<Rightarrow> registry" where
  "set_key redis w expiry g = (if redis then g\<lparr>rg_keys := (rg_keys g)(w := expiry)\<rparr> else g)"

definition update_worker :: "bool \<Rightarrow> string \<Rightarrow> (worker_doc \<Rightarrow> worker_doc) \<Rightarrow> registry \<Rightarrow> registry" where
  "update_worker mongo w f g = (if mongo then g\<lparr>rg_workers := update_where (\<lambda>d. wd_workerId d = w) f (rg_workers g)\<rparr> else g)"

definition register_worker :: "bool \<Rightarrow> bool \<Rightarrow> int \<Rightarrow> string \<Rightarrow> string \<Rightarrow> nat \<Rightarrow> nat \<Rightarrow> time \<Rightarrow> registry \<Rightarrow> bool \<times> registry" where
  "register_worker mongo redis ttlMs w host pid concurrency now g =
     (let fresh = (\<lambda>d. d\<lparr>wd_host := host, wd_pid := pid, wd_concurrency := concurrency, wd_status := W_ACTIVE, wd_startedAt := now,
                       wd_lastSeenAt := now, wd_runningTasks := 0\<rparr>);
          new = \<lparr>wd_workerId = w, wd_host = host, wd_pid = pid, wd_concurrency = concurrency, wd_status = W_ACTIVE, wd_runningTasks = 0,
                 wd_tasksCompleted = 0, wd_startedAt = now, wd_lastSeenAt = now\<rparr>;
          g1 = (if w \<in> wd_workerId ` set (rg_workers g) then update_worker mongo w fresh g
                else if mongo then g\<lparr>rg_workers := rg_workers g @ [new]\<rparr> else g) in
      if \<not> mongo then (False, g1) else (redis, set_key redis w (Some (now + ttlMs)) g1))"

definition beat :: "bool \<Rightarrow> bool \<Rightarrow> int \<Rightarrow> string \<Rightarrow> nat \<Rightarrow> nat \<Rightarrow> time \<Rightarrow> registry \<Rightarrow> registry" where
  "beat mongo redis ttlMs w runningTasks completedSinceLastBeat now g =
     update_worker mongo w (\<lambda>d. d\<lparr>wd_lastSeenAt := now, wd_runningTasks := runningTasks, wd_status := W_ACTIVE,
         wd_tasksCompleted := wd_tasksCompleted d + completedSinceLastBeat\<rparr>)
       (set_key redis w (Some (now + ttlMs)) g)"

definition deregister :: "bool \<Rightarrow> bool \<Rightarrow> string \<Rightarrow> registry \<Rightarrow> registry" where
  "deregister mongo redis w g = update_worker mongo w (\<lambda>d. d\<lparr>wd_status := W_STOPPED, wd_runningTasks := 0\<rparr>) (set_key redis w None g)"

datatype shown_status = Shown_ACTIVE | Shown_UNRESPONSIVE | Shown_STOPPED

definition alive :: "time \<Rightarrow> string \<Rightarrow> registry \<Rightarrow> bool" where
  "alive now w g = (case rg_keys g w of None \<Rightarrow> False | Some expiry \<Rightarrow> now < expiry)"

definition shown_of :: "time \<Rightarrow> registry \<Rightarrow> worker_doc \<Rightarrow> shown_status" where
  "shown_of now g d = (case wd_status d of
     W_STOPPED \<Rightarrow> Shown_STOPPED | W_ACTIVE \<Rightarrow> if alive now (wd_workerId d) g then Shown_ACTIVE else Shown_UNRESPONSIVE)"

definition listWorkers :: "time \<Rightarrow> registry \<Rightarrow> (worker_doc \<times> shown_status) list" where
  "listWorkers now g = map (\<lambda>d. (d, shown_of now g d)) (take 200 (sort_key (\<lambda>d. - wd_lastSeenAt d) (rg_workers g)))"

definition get_workers :: "user option \<Rightarrow> time \<Rightarrow> registry \<Rightarrow> (worker_doc \<times> shown_status) list result" where
  "get_workers usr now g = bind_result (requirePermission USER_MANAGE usr) (\<lambda>_. Inr (listWorkers now g))"

section \<open>Histories\<close>

datatype registry_event = Ev_Register string string nat nat | Ev_Beat string nat nat | Ev_Deregister string

fun event_worker :: "registry_event \<Rightarrow> string" where
  "event_worker (Ev_Register w _ _ _) = w"
| "event_worker (Ev_Beat w _ _) = w"
| "event_worker (Ev_Deregister w) = w"

fun is_sign :: "registry_event \<Rightarrow> bool" where
  "is_sign (Ev_Deregister _) = False"
| "is_sign _ = True"

fun happen :: "int \<Rightarrow> registry \<Rightarrow> time \<times> registry_event \<times> bool \<times> bool \<Rightarrow> registry" where
  "happen ttlMs g (now, Ev_Register w host pid concurrency, mongo, redis) = snd (register_worker mongo redis ttlMs w host pid concurrency now g)"
| "happen ttlMs g (now, Ev_Beat w running completed, mongo, redis) = beat mongo redis ttlMs w running completed now g"
| "happen ttlMs g (now, Ev_Deregister w, mongo, redis) = deregister mongo redis w g"

definition history :: "int \<Rightarrow> (time \<times> registry_event \<times> bool \<times> bool) list \<Rightarrow> registry" where
  "history ttlMs evs = foldl (happen ttlMs) empty_registry evs"

lemmas registry_defs = register_worker_def beat_def deregister_def update_worker_def set_key_def Let_def

lemma history_snoc: "history ttlMs (evs @ [e]) = happen ttlMs (history ttlMs evs) e"
  by (simp add: history_def)

lemma update_others:
  "v \<noteq> w \<Longrightarrow> (\<And>d. wd_workerId (f d) = wd_workerId d) \<Longrightarrow>
     filter (\<lambda>d. wd_workerId d = w) (update_where (\<lambda>d. wd_workerId d = v) f ds) = filter (\<lambda>d. wd_workerId d = w) ds"
  by (induction ds) auto

lemma happen_other:
  assumes "event_worker ev \<noteq> w"
  shows "rg_keys (happen ttlMs g (t, ev, m, r)) w = rg_keys g w"
    "filter (\<lambda>d. wd_workerId d = w) (rg_workers (happen ttlMs g (t, ev, m, r))) = filter (\<lambda>d. wd_workerId d = w) (rg_workers g)"
  using assms by (cases ev; simp add: registry_defs update_others)+

lemma happen_key:
  "rg_keys (happen ttlMs g (t, ev, m, r)) w = Some x \<Longrightarrow> rg_keys g w = Some x \<or> (event_worker ev = w \<and> is_sign ev \<and> r \<and> x = t + ttlMs)"
  by (cases ev) (auto simp: registry_defs split: if_splits)

lemma history_key:
  "rg_keys (history ttlMs evs) w = Some x \<Longrightarrow> \<exists>t ev m. (t, ev, m, True) \<in> set evs \<and> event_worker ev = w \<and> is_sign ev \<and> x = t + ttlMs"
proof (induction evs rule: rev_induct)
  case Nil
  then show ?case by (simp add: history_def empty_registry_def)
next
  case (snoc e evs)
  obtain t ev m r where e: "e = (t, ev, m, r)" by (cases e) auto
  have "rg_keys (history ttlMs evs) w = Some x \<or> (event_worker ev = w \<and> is_sign ev \<and> r \<and> x = t + ttlMs)"
    using happen_key snoc.prems unfolding history_snoc e by blast
  then show ?case
  proof
    assume "rg_keys (history ttlMs evs) w = Some x"
    from snoc.IH[OF this] show ?thesis by auto
  next
    assume "event_worker ev = w \<and> is_sign ev \<and> r \<and> x = t + ttlMs"
    then show ?thesis unfolding e by (intro exI[of _ t] exI[of _ ev] exI[of _ m]) simp
  qed
qed

lemma happen_ids: "wd_workerId ` set (rg_workers (happen ttlMs g (t, ev, m, r))) \<subseteq> insert (event_worker ev) (wd_workerId ` set (rg_workers g))"
  by (cases ev) (auto simp: registry_defs set_update_where)

lemma map_ids: "(\<And>d. wd_workerId (f d) = wd_workerId d) \<Longrightarrow> map wd_workerId (update_where P f ds) = map wd_workerId ds"
  by (simp add: map_update_where)

lemma history_distinct: "distinct (map wd_workerId (rg_workers (history ttlMs evs)))"
proof (induction evs rule: rev_induct)
  case Nil
  then show ?case by (simp add: history_def empty_registry_def)
next
  case (snoc e evs)
  obtain t ev m r where e: "e = (t, ev, m, r)" by (cases e) auto
  show ?case using snoc unfolding history_snoc e by (cases ev) (auto simp: registry_defs map_ids)
qed

section \<open>The failure detector\<close>

lemma later_others:
  assumes "\<forall>(t, ev, m, r) \<in> set later. event_worker ev \<noteq> w"
  shows "rg_keys (foldl (happen ttlMs) g later) w = rg_keys g w
    \<and> filter (\<lambda>d. wd_workerId d = w) (rg_workers (foldl (happen ttlMs) g later)) = filter (\<lambda>d. wd_workerId d = w) (rg_workers g)"
  using assms
proof (induction later arbitrary: g)
  case (Cons e later)
  obtain t ev m r where e: "e = (t, ev, m, r)" by (cases e) auto
  then have "event_worker ev \<noteq> w" using Cons.prems by simp
  from Cons.IH[of "happen ttlMs g e"] Cons.prems happen_other[OF this, of ttlMs g t m r] show ?case by (simp add: e)
qed simp

text \<open>A sign of life that reached both stores.\<close>

lemma updated_worker:
  "d \<in> set (update_where (\<lambda>d. wd_workerId d = w) f ds) \<Longrightarrow> wd_workerId d = w \<Longrightarrow> \<exists>d0. d = f d0"
  by (induction ds) (auto split: if_splits)

lemma sign_seen:
  assumes "is_sign ev" "d \<in> set (rg_workers (happen ttlMs g (t, ev, True, True)))" "wd_workerId d = event_worker ev"
  shows "wd_status d = W_ACTIVE \<and> wd_lastSeenAt d = t"
proof (cases ev)
  case (Ev_Register w host pid n)
  show ?thesis
  proof (cases "w \<in> wd_workerId ` set (rg_workers g)")
    case True
    then have "d \<in> set (update_where (\<lambda>d. wd_workerId d = w) (\<lambda>d. d\<lparr>wd_host := host, wd_pid := pid, wd_concurrency := n, wd_status := W_ACTIVE,
        wd_startedAt := t, wd_lastSeenAt := t, wd_runningTasks := 0\<rparr>) (rg_workers g))"
      using assms(2) by (simp add: Ev_Register registry_defs)
    from updated_worker[OF this] assms(3) Ev_Register show ?thesis by auto
  next
    case False
    then have "d \<in> set (rg_workers g) \<or> (wd_status d = W_ACTIVE \<and> wd_lastSeenAt d = t)"
      using assms(2) by (auto simp: Ev_Register registry_defs)
    then show ?thesis using False assms(3) Ev_Register by auto
  qed
next
  case (Ev_Beat w a b)
  then have "d \<in> set (update_where (\<lambda>d. wd_workerId d = w) (\<lambda>d. d\<lparr>wd_lastSeenAt := t, wd_runningTasks := a, wd_status := W_ACTIVE,
      wd_tasksCompleted := wd_tasksCompleted d + b\<rparr>) (rg_workers g))"
    using assms(2) by (simp add: registry_defs)
  from updated_worker[OF this] assms(3) Ev_Beat show ?thesis by auto
qed (use assms(1) in simp)

lemma sign_key: "is_sign ev \<Longrightarrow> rg_keys (happen ttlMs g (t, ev, True, True)) (event_worker ev) = Some (t + ttlMs)"
  by (cases ev) (simp_all add: registry_defs)

lemma in_list: "(d, s) \<in> set (listWorkers now g) \<Longrightarrow> d \<in> set (rg_workers g) \<and> s = shown_of now g d"
  by (auto simp: listWorkers_def dest: in_set_takeD)

text \<open>The list of workers as a failure detector. Whatever registrations, heartbeats and departures happened, with whatever failures of
  either store: no worker is listed twice; a worker is shown as active only if a sign of life of it reached Redis less than the time to
  live ago; and a worker whose latest event is a sign of life that reached both stores less than the time to live ago is shown as
  active, last seen at that time.\<close>

theorem failure_detector:
  assumes "(d, s) \<in> set (listWorkers now (history ttlMs evs))" "wd_workerId d = w"
  shows "distinct (map (wd_workerId \<circ> fst) (listWorkers now (history ttlMs evs)))
    \<and> (s = Shown_ACTIVE \<longrightarrow> (\<exists>t ev m. (t, ev, m, True) \<in> set evs \<and> event_worker ev = w \<and> is_sign ev \<and> now < t + ttlMs))
    \<and> (\<forall>earlier later t ev. evs = earlier @ (t, ev, True, True) # later \<longrightarrow> event_worker ev = w \<longrightarrow> is_sign ev
         \<longrightarrow> (\<forall>(t', ev', m, r) \<in> set later. event_worker ev' \<noteq> w) \<longrightarrow> now < t + ttlMs \<longrightarrow> s = Shown_ACTIVE \<and> wd_lastSeenAt d = t)"
proof -
  let ?g = "history ttlMs evs"
  have d: "d \<in> set (rg_workers ?g)" "s = shown_of now ?g d" using in_list[OF assms(1)] by simp_all
  have "distinct (map wd_workerId (sort_key (\<lambda>d. - wd_lastSeenAt d) (rg_workers ?g)))"
    using history_distinct[of ttlMs evs] by (simp add: distinct_map)
  then have "distinct (map (wd_workerId \<circ> fst) (listWorkers now ?g))"
    by (simp add: listWorkers_def o_def take_map[symmetric])
  moreover have "\<exists>t ev m. (t, ev, m, True) \<in> set evs \<and> event_worker ev = w \<and> is_sign ev \<and> now < t + ttlMs" if "s = Shown_ACTIVE"
  proof -
    have "alive now w ?g" using that d(2) assms(2) by (auto simp: shown_of_def split: worker_status.splits if_splits)
    then obtain x where "rg_keys ?g w = Some x" "now < x" by (auto simp: alive_def split: option.splits)
    then show ?thesis using history_key[of ttlMs evs w x] by auto
  qed
  moreover have "s = Shown_ACTIVE \<and> wd_lastSeenAt d = t"
    if "evs = earlier @ (t, ev, True, True) # later" "event_worker ev = w" "is_sign ev"
      "\<forall>(t', ev', m, r) \<in> set later. event_worker ev' \<noteq> w" "now < t + ttlMs" for earlier later t ev
  proof -
    let ?h = "happen ttlMs (history ttlMs earlier) (t, ev, True, True)"
    have g: "?g = foldl (happen ttlMs) ?h later" using that(1) by (simp add: history_def)
    have "d \<in> set (filter (\<lambda>d. wd_workerId d = w) (rg_workers ?h))"
      unfolding conjunct2[OF later_others[OF that(4), of ttlMs ?h], symmetric] using d(1) assms(2) g by simp
    then have "wd_status d = W_ACTIVE \<and> wd_lastSeenAt d = t" using sign_seen[OF that(3), of d ttlMs "history ttlMs earlier" t] that(2) by auto
    moreover have "rg_keys ?g w = Some (t + ttlMs)" using later_others[OF that(4), of ttlMs ?h] sign_key[OF that(3)] that(2) g by simp
    ultimately show ?thesis using d(2) assms(2) that(5) by (simp add: shown_of_def alive_def)
  qed
  ultimately show ?thesis by blast
qed

theorem failure_detector_witness:
  "\<exists>d. (d, Shown_ACTIVE) \<in> set (listWorkers 150 (history 100 [(0, Ev_Register ''w1'' ''h'' 1 4, True, True), (90, Ev_Beat ''w1'' 2 1, True, True)]))
     \<and> wd_lastSeenAt d = 90"
proof -
  let ?evs = "[(0, Ev_Register ''w1'' ''h'' 1 4, True, True), (90, Ev_Beat ''w1'' 2 1, True, True)]"
  obtain d s where d: "listWorkers 150 (history 100 ?evs) = [(d, s)]" "wd_workerId d = ''w1''"
    by (simp add: listWorkers_def history_def empty_registry_def registry_defs)
  have "s = Shown_ACTIVE \<and> wd_lastSeenAt d = 90"
    using conjunct2[OF conjunct2[OF failure_detector[of d s 150 100 ?evs "''w1''"]], rule_format,
        of "[(0, Ev_Register ''w1'' ''h'' 1 4, True, True)]" 90 "Ev_Beat ''w1'' 2 1" "[]"] d by simp
  then show ?thesis using d by auto
qed

end
