(* ===== verification/Wf_Worker_Life.thy ===== *)
theory Wf_Worker_Life
  imports Wf_Registry Wf_System
begin

text \<open>
  The life of a worker process, \<open>createQueueWorker\<close> of \<open>src/workers/queueWorker.js\<close> with its registry: \<open>start\<close>, the loops
  between their awaits, heartbeats that land when they land, \<open>stop\<close> and the departure. What a loop does with a task is in
  \<open>Wf_Worker\<close>; here it is busy with it and then done, with its result reported and acknowledged or not.
\<close>

section \<open>State\<close>

text \<open>Where a loop is: at the test of \<open>stopping\<close>, waiting for \<open>claim\<close>, asleep, processing a task, or finished. The first
  three carry \<open>backoffMs\<close>.\<close>

datatype loop_phase = At_Top int | Claiming int | Sleeping int | Busy oid | Ended

record worker_config =
  wc_workerId :: string
  wc_concurrency :: nat
  wc_pollIntervalMs :: int
  wc_ttlMs :: int

text \<open>The variables of the closure; the heartbeats under way, each with its two numbers; and the tasks ever acknowledged, which the
  program does not keep.\<close>

record worker_proc =
  wp_stopping :: bool
  wp_loops :: "loop_phase list"
  wp_timers :: bool
  wp_running :: int
  wp_completedSinceLastBeat :: nat
  wp_beats :: "(int \<times> nat) list"
  wp_departed :: bool
  wp_acked :: nat

type_synonym life_state = "worker_proc \<times> registry"

section \<open>Operations\<close>

text \<open>\<open>start\<close>; when the registration throws, nothing is started.\<close>

definition start_worker :: "worker_config \<Rightarrow> bool \<Rightarrow> bool \<Rightarrow> string \<Rightarrow> nat \<Rightarrow> time \<Rightarrow> registry \<Rightarrow> life_state option" where
  "start_worker cfg mongo redis host pid now g =
     (case register_worker mongo redis (wc_ttlMs cfg) (wc_workerId cfg) host pid (wc_concurrency cfg) now g of
        (ok, g') \<Rightarrow>
          if ok then Some (\<lparr>wp_stopping = False, wp_loops = replicate (wc_concurrency cfg) (At_Top (wc_pollIntervalMs cfg)), wp_timers = True,
              wp_running = 0, wp_completedSinceLastBeat = 0, wp_beats = [], wp_departed = False, wp_acked = 0\<rparr>, g')
          else None)"

definition set_loop :: "nat \<Rightarrow> loop_phase \<Rightarrow> worker_proc \<Rightarrow> worker_proc" where
  "set_loop n ph p = p\<lparr>wp_loops := (wp_loops p)[n := ph]\<rparr>"

text \<open>The test of the loop.\<close>

definition loop_top :: "nat \<Rightarrow> int \<Rightarrow> worker_proc \<Rightarrow> worker_proc" where
  "loop_top n b p = set_loop n (if wp_stopping p then Ended else Claiming b) p"

text \<open>What \<open>claim\<close> may bring: an error, nothing, or an id.\<close>

datatype claim_result = Claim_failed | Claim_empty | Claim_got oid

definition next_backoff :: "int \<Rightarrow> int" where
  "next_backoff b = min (b * 2) 5000"

fun loop_claimed :: "worker_config \<Rightarrow> nat \<Rightarrow> int \<Rightarrow> claim_result \<Rightarrow> worker_proc \<Rightarrow> worker_proc" where
  "loop_claimed cfg n b Claim_failed p = set_loop n (Sleeping (next_backoff b)) p"
| "loop_claimed cfg n b Claim_empty p = set_loop n (Sleeping (wc_pollIntervalMs cfg)) p"
| "loop_claimed cfg n b (Claim_got i) p = (set_loop n (Busy i) p)\<lparr>wp_running := wp_running p + 1\<rparr>"

text \<open>The end of \<open>processTask\<close>: \<open>finished\<close> if it came to its last line, rather than finding nothing to do or throwing.\<close>

definition loop_done :: "worker_config \<Rightarrow> nat \<Rightarrow> bool \<Rightarrow> worker_proc \<Rightarrow> worker_proc" where
  "loop_done cfg n finished p =
     (set_loop n (At_Top (wc_pollIntervalMs cfg)) p)\<lparr>wp_running := wp_running p - 1,
        wp_completedSinceLastBeat := wp_completedSinceLastBeat p + (if finished then 1 else 0), wp_acked := wp_acked p + (if finished then 1 else 0)\<rparr>"

definition heartbeat :: "worker_proc \<Rightarrow> worker_proc" where
  "heartbeat p = p\<lparr>wp_completedSinceLastBeat := 0, wp_beats := wp_beats p @ [(wp_running p, wp_completedSinceLastBeat p)]\<rparr>"

definition request_stop :: "worker_proc \<Rightarrow> worker_proc" where
  "request_stop p = p\<lparr>wp_stopping := True, wp_timers := False\<rparr>"

definition worker_stats :: "worker_config \<Rightarrow> worker_proc \<Rightarrow> int \<times> nat" where
  "worker_stats cfg p = (wp_running p, wc_concurrency cfg)"

section \<open>The process\<close>

text \<open>The steps of the loops.\<close>

inductive loop_moves :: "worker_config \<Rightarrow> worker_proc \<Rightarrow> worker_proc \<Rightarrow> bool" for cfg where
  move_top: "n < length (wp_loops p) \<Longrightarrow> wp_loops p ! n = At_Top b \<Longrightarrow> loop_moves cfg p (loop_top n b p)"
| move_claimed: "n < length (wp_loops p) \<Longrightarrow> wp_loops p ! n = Claiming b \<Longrightarrow> loop_moves cfg p (loop_claimed cfg n b r p)"
| move_woken: "n < length (wp_loops p) \<Longrightarrow> wp_loops p ! n = Sleeping b \<Longrightarrow> loop_moves cfg p (set_loop n (At_Top b) p)"
| move_done: "n < length (wp_loops p) \<Longrightarrow> wp_loops p ! n = Busy i \<Longrightarrow> loop_moves cfg p (loop_done cfg n finished p)"

inductive lifetime_step :: "worker_config \<Rightarrow> life_state \<Rightarrow> life_state \<Rightarrow> bool" for cfg where
  life_loop: "loop_moves cfg p p' \<Longrightarrow> lifetime_step cfg (p, g) (p', g)"
| life_heartbeat: "wp_timers p \<Longrightarrow> lifetime_step cfg (p, g) (heartbeat p, g)"
| life_beat: "wp_beats p = early @ (running, done_tasks) # late \<Longrightarrow>
     lifetime_step cfg (p, g) (p\<lparr>wp_beats := early @ late\<rparr>, beat mongo redis (wc_ttlMs cfg) (wc_workerId cfg) (nat running) done_tasks now g)"
| life_stop: "lifetime_step cfg (p, g) (request_stop p, g)"
| life_depart: "wp_stopping p \<Longrightarrow> \<forall>ph \<in> set (wp_loops p). ph = Ended \<Longrightarrow> \<not> wp_departed p \<Longrightarrow>
     lifetime_step cfg (p, g) (p\<lparr>wp_departed := True\<rparr>, deregister mongo redis (wc_workerId cfg) g)"

text \<open>A worker whose id is new.\<close>

definition life_init :: "worker_config \<Rightarrow> life_state \<Rightarrow> bool" where
  "life_init cfg s \<longleftrightarrow> 0 < wc_pollIntervalMs cfg \<and> wc_pollIntervalMs cfg \<le> 10000 \<and>
     (\<exists>mongo redis host pid now g. wc_workerId cfg \<notin> wd_workerId ` set (rg_workers g) \<and> start_worker cfg mongo redis host pid now g = Some s)"

section \<open>The invariant\<close>

definition busy :: "loop_phase \<Rightarrow> bool" where
  "busy ph = (case ph of Busy _ \<Rightarrow> True | _ \<Rightarrow> False)"

fun backoff_ok :: "worker_config \<Rightarrow> loop_phase \<Rightarrow> bool" where
  "backoff_ok cfg (At_Top b) = (0 < b \<and> b \<le> max 5000 (wc_pollIntervalMs cfg))"
| "backoff_ok cfg (Claiming b) = (0 < b \<and> b \<le> max 5000 (wc_pollIntervalMs cfg))"
| "backoff_ok cfg (Sleeping b) = (0 < b \<and> b \<le> max 5000 (wc_pollIntervalMs cfg))"
| "backoff_ok cfg _ = True"

definition recorded :: "string \<Rightarrow> registry \<Rightarrow> nat" where
  "recorded w g = sum_list (map wd_tasksCompleted (filter (\<lambda>d. wd_workerId d = w) (rg_workers g)))"

definition proc_ok :: "worker_config \<Rightarrow> worker_proc \<Rightarrow> bool" where
  "proc_ok cfg p \<longleftrightarrow> length (wp_loops p) = wc_concurrency cfg \<and> wp_running p = int (count_where busy (wp_loops p))
     \<and> list_all (backoff_ok cfg) (wp_loops p) \<and> (wp_departed p \<longrightarrow> wp_stopping p \<and> (\<forall>ph \<in> set (wp_loops p). ph = Ended))
     \<and> (wp_timers p \<longleftrightarrow> \<not> wp_stopping p)"

definition life_inv :: "worker_config \<Rightarrow> life_state \<Rightarrow> bool" where
  "life_inv cfg s \<longleftrightarrow> (case s of (p, g) \<Rightarrow> 0 < wc_pollIntervalMs cfg \<and> proc_ok cfg p
     \<and> length (filter (\<lambda>d. wd_workerId d = wc_workerId cfg) (rg_workers g)) \<le> 1
     \<and> recorded (wc_workerId cfg) g + sum_list (map snd (wp_beats p)) + wp_completedSinceLastBeat p \<le> wp_acked p)"

lemma count_where_update:
  "n < length xs \<Longrightarrow> int (count_where P (xs[n := x])) = int (count_where P xs) - (if P (xs ! n) then 1 else 0) + (if P x then 1 else 0)"
proof (induction xs arbitrary: n)
  case (Cons a xs)
  show ?case
  proof (cases n)
    case (Suc m)
    have "int (count_where P (xs[m := x])) = int (count_where P xs) - (if P (xs ! m) then 1 else 0) + (if P x then 1 else 0)"
      by (rule Cons.IH) (use Cons.prems Suc in simp)
    then show ?thesis by (simp add: Suc split: if_splits)
  qed simp
qed simp

lemma list_all_update: "list_all P xs \<Longrightarrow> P x \<Longrightarrow> list_all P (xs[n := x])"
  by (auto simp: list_all_iff dest: subsetD[OF set_update_subset_insert])

lemmas loop_defs = loop_top_def loop_done_def set_loop_def

lemma at_loop: "list_all P xs \<Longrightarrow> n < length xs \<Longrightarrow> P (xs ! n)"
  by (simp add: list_all_length)

lemma loop_moves_ok:
  assumes "loop_moves cfg p p'" "proc_ok cfg p" "0 < wc_pollIntervalMs cfg"
  shows "proc_ok cfg p' \<and> wp_beats p' = wp_beats p
    \<and> wp_completedSinceLastBeat p' - wp_completedSinceLastBeat p = wp_acked p' - wp_acked p
    \<and> wp_completedSinceLastBeat p \<le> wp_completedSinceLastBeat p' \<and> wp_acked p \<le> wp_acked p'"
  using assms(1)
proof cases
  case (move_top n b)
  have "backoff_ok cfg (At_Top b)" using at_loop[of "backoff_ok cfg" "wp_loops p" n] assms(2) move_top by (simp add: proc_ok_def)
  then show ?thesis using assms(2) move_top
    by (auto simp: proc_ok_def loop_defs busy_def count_where_update intro!: list_all_update dest: subsetD[OF set_update_subset_insert])
next
  case (move_claimed n b r)
  have "backoff_ok cfg (Claiming b)" "Claiming b \<in> set (wp_loops p)"
    using at_loop[of "backoff_ok cfg" "wp_loops p" n] assms(2) move_claimed nth_mem[of n "wp_loops p"] by (simp_all add: proc_ok_def)
  then have b: "0 < b" "b \<le> max 5000 (wc_pollIntervalMs cfg)" "\<not> wp_departed p" using assms(2) by (auto simp: proc_ok_def)
  then show ?thesis using assms(2,3) move_claimed
    by (cases r) (auto simp: proc_ok_def loop_defs busy_def count_where_update next_backoff_def intro!: list_all_update)
next
  case (move_woken n b)
  have "backoff_ok cfg (Sleeping b)" "Sleeping b \<in> set (wp_loops p)"
    using at_loop[of "backoff_ok cfg" "wp_loops p" n] assms(2) move_woken nth_mem[of n "wp_loops p"] by (simp_all add: proc_ok_def)
  then have "backoff_ok cfg (At_Top b)" "\<not> wp_departed p" using assms(2) by (auto simp: proc_ok_def)
  then show ?thesis using assms(2) move_woken by (auto simp: proc_ok_def loop_defs busy_def count_where_update intro!: list_all_update)
next
  case (move_done n i finished)
  have "Busy i \<in> set (wp_loops p)" using move_done nth_mem[of n "wp_loops p"] by simp
  then have "\<not> wp_departed p" using assms(2) by (auto simp: proc_ok_def)
  then show ?thesis using assms(2,3) move_done by (auto simp: proc_ok_def loop_defs busy_def count_where_update intro!: list_all_update)
qed

text \<open>What a heartbeat and a departure do to the count in the document.\<close>

lemma update_own:
  "(\<And>d. wd_workerId (f d) = wd_workerId d) \<Longrightarrow>
     filter (\<lambda>d. wd_workerId d = w) (update_where (\<lambda>d. wd_workerId d = w) f ds) = map f (filter (\<lambda>d. wd_workerId d = w) ds)"
  by (induction ds) auto

lemma recorded_beat:
  assumes "length (filter (\<lambda>d. wd_workerId d = w) (rg_workers g)) \<le> 1"
  shows "recorded w (beat mongo redis ttl w running n now g) \<le> recorded w g + n
    \<and> length (filter (\<lambda>d. wd_workerId d = w) (rg_workers (beat mongo redis ttl w running n now g))) \<le> 1"
proof -
  have "filter (\<lambda>d. wd_workerId d = w) (rg_workers g) = [] \<or> (\<exists>d. filter (\<lambda>d. wd_workerId d = w) (rg_workers g) = [d])"
    using assms by (cases "filter (\<lambda>d. wd_workerId d = w) (rg_workers g)") auto
  then show ?thesis by (auto simp: recorded_def registry_defs update_own)
qed

lemma recorded_depart:
  "recorded w (deregister mongo redis w g) = recorded w g
   \<and> length (filter (\<lambda>d. wd_workerId d = w) (rg_workers (deregister mongo redis w g))) = length (filter (\<lambda>d. wd_workerId d = w) (rg_workers g))"
  by (simp add: recorded_def registry_defs update_own o_def)

lemma life_inv_init: "life_init cfg s \<Longrightarrow> life_inv cfg s"
proof -
  assume "life_init cfg s"
  then obtain mongo redis host pid now g where i: "0 < wc_pollIntervalMs cfg" "wc_workerId cfg \<notin> wd_workerId ` set (rg_workers g)"
    "start_worker cfg mongo redis host pid now g = Some s" by (auto simp: life_init_def)
  have "filter (\<lambda>d. wd_workerId d = wc_workerId cfg) (rg_workers g) = []" using i(2) by (force simp: filter_empty_conv)
  then show ?thesis using i
    by (auto simp: start_worker_def life_inv_def proc_ok_def recorded_def registry_defs list_all_iff busy_def split: if_splits)
qed

lemma life_inv_step: "life_inv cfg s \<Longrightarrow> lifetime_step cfg s s' \<Longrightarrow> life_inv cfg s'"
proof -
  assume inv: "life_inv cfg s" and "lifetime_step cfg s s'"
  from this(2) show "life_inv cfg s'"
  proof cases
    case (life_loop p p' g)
    with inv loop_moves_ok[OF life_loop(3)] show ?thesis by (auto simp: life_inv_def)
  next
    case (life_heartbeat p g)
    with inv show ?thesis by (auto simp: life_inv_def heartbeat_def proc_ok_def)
  next
    case (life_beat p early running n late g mongo redis now)
    with inv recorded_beat[of "wc_workerId cfg" g mongo redis "wc_ttlMs cfg" "nat running" n now]
    show ?thesis by (auto simp: life_inv_def proc_ok_def)
  next
    case (life_stop p g)
    with inv show ?thesis by (auto simp: life_inv_def request_stop_def proc_ok_def)
  next
    case (life_depart p g mongo redis)
    with inv recorded_depart[of "wc_workerId cfg" mongo redis g] show ?thesis by (auto simp: life_inv_def proc_ok_def)
  qed
qed

interpretation worker_life: invariant_system "life_init cfg" "lifetime_step cfg" "life_inv cfg" for cfg
  by unfold_locales (rule life_inv_init, assumption, rule life_inv_step)

section \<open>Winding down\<close>

fun phase_weight :: "loop_phase \<Rightarrow> nat" where
  "phase_weight (Claiming _) = 3"
| "phase_weight (Busy _) = 2"
| "phase_weight (Sleeping _) = 2"
| "phase_weight (At_Top _) = 1"
| "phase_weight Ended = 0"

definition moves_left :: "worker_proc \<Rightarrow> nat" where
  "moves_left p = sum_list (map phase_weight (wp_loops p))"

definition claiming :: "loop_phase \<Rightarrow> bool" where
  "claiming ph = (case ph of Claiming _ \<Rightarrow> True | _ \<Rightarrow> False)"

lemma weight_update: "n < length xs \<Longrightarrow> sum_list (map phase_weight (xs[n := x])) + phase_weight (xs ! n) = sum_list (map phase_weight xs) + phase_weight x"
proof (induction xs arbitrary: n)
  case (Cons a xs)
  then show ?case using Cons.IH[of "n - 1"] by (cases n) simp_all
qed simp

text \<open>Once it is stopping, every move of a loop brings the worker nearer to its end, and none starts a claim.\<close>

lemma stopping_moves:
  assumes "loop_moves cfg p p'" "wp_stopping p"
  shows "moves_left p' < moves_left p" "int (count_where claiming (wp_loops p')) \<le> int (count_where claiming (wp_loops p))"
proof -
  have "moves_left p' < moves_left p \<and> int (count_where claiming (wp_loops p')) \<le> int (count_where claiming (wp_loops p))"
    using assms(1)
  proof cases
    case (move_top n b)
    then show ?thesis using assms(2) weight_update[of n "wp_loops p" Ended]
      by (simp add: moves_left_def loop_defs count_where_update claiming_def)
  next
    case (move_claimed n b r)
    have less: "sum_list (map phase_weight ((wp_loops p)[n := ph])) < sum_list (map phase_weight (wp_loops p))" if "phase_weight ph = 2" for ph
      using weight_update[of n "wp_loops p" ph] move_claimed that by simp
    show ?thesis using move_claimed less by (cases r) (simp_all add: moves_left_def loop_defs count_where_update claiming_def)
  next
    case (move_woken n b)
    then show ?thesis using weight_update[of n "wp_loops p" "At_Top b"]
      by (simp add: moves_left_def loop_defs count_where_update claiming_def)
  next
    case (move_done n i finished)
    then show ?thesis using weight_update[of n "wp_loops p" "At_Top (wc_pollIntervalMs cfg)"]
      by (simp add: moves_left_def loop_defs count_where_update claiming_def)
  qed
  then show "moves_left p' < moves_left p" "int (count_where claiming (wp_loops p')) \<le> int (count_where claiming (wp_loops p))" by blast+
qed

lemma loops_can_move: "(\<exists>p'. loop_moves cfg p p') \<longleftrightarrow> (\<exists>ph \<in> set (wp_loops p). ph \<noteq> Ended)"
proof
  assume "\<exists>p'. loop_moves cfg p p'"
  then obtain p' where "loop_moves cfg p p'" by blast
  then obtain n where "n < length (wp_loops p)" "wp_loops p ! n \<noteq> Ended" by cases auto
  then show "\<exists>ph \<in> set (wp_loops p). ph \<noteq> Ended" using nth_mem by blast
next
  assume "\<exists>ph \<in> set (wp_loops p). ph \<noteq> Ended"
  then obtain n where n: "n < length (wp_loops p)" "wp_loops p ! n \<noteq> Ended" by (metis in_set_conv_nth)
  then show "\<exists>p'. loop_moves cfg p p'"
    by (cases "wp_loops p ! n") (auto intro: move_top move_claimed move_woken move_done)
qed

text \<open>A worker at any time of its life: the tasks it says are running are those its loops are busy with, at most its
  concurrency; it polls at least every ten seconds; the tasks it is credited with were all acknowledged. A worker that was told to stop
  starts no claim, its loops make at most three moves each until all have ended, and it departs only then, with no task
  under way.\<close>

theorem worker_winds_down:
  assumes "reach (life_init cfg) (lifetime_step cfg) (p, g)" "wc_pollIntervalMs cfg \<le> 10000"
  shows "worker_stats cfg p = (int (count_where busy (wp_loops p)), length (wp_loops p))
    \<and> (\<forall>b. Sleeping b \<in> set (wp_loops p) \<longrightarrow> b \<le> 10000)
    \<and> recorded (wc_workerId cfg) g \<le> wp_acked p
    \<and> (wp_stopping p \<longrightarrow> (\<forall>p'. loop_moves cfg p p' \<longrightarrow> moves_left p' < moves_left p \<and> count_where claiming (wp_loops p') \<le> count_where claiming (wp_loops p)))
    \<and> moves_left p \<le> 3 * wc_concurrency cfg
    \<and> ((\<forall>p'. \<not> loop_moves cfg p p') \<longleftrightarrow> (\<forall>ph \<in> set (wp_loops p). ph = Ended))
    \<and> (wp_departed p \<longrightarrow> wp_running p = 0)"
proof -
  have inv: "life_inv cfg (p, g)" by (rule worker_life.reach_inv[OF assms(1)])
  have ok: "proc_ok cfg p" "recorded (wc_workerId cfg) g \<le> wp_acked p" using inv by (simp_all add: life_inv_def)
  have "sum_list (map phase_weight xs) \<le> 3 * length xs" for xs
  proof (induction xs)
    case (Cons x xs)
    then show ?case by (cases x) simp_all
  qed simp
  then have "moves_left p \<le> 3 * wc_concurrency cfg" using ok(1) by (metis moves_left_def proc_ok_def)
  moreover have "b \<le> 10000" if "Sleeping b \<in> set (wp_loops p)" for b
    using that ok(1) assms(2) by (auto simp: proc_ok_def list_all_iff dest!: bspec)
  moreover have "wp_running p = 0" if "wp_departed p" using that ok(1) by (auto simp: proc_ok_def busy_def)
  moreover have "worker_stats cfg p = (int (count_where busy (wp_loops p)), length (wp_loops p))" using ok(1) by (simp add: worker_stats_def proc_ok_def)
  ultimately show ?thesis using ok(2) stopping_moves[of cfg p] loops_can_move[of cfg p] by (simp only: of_nat_le_iff) blast
qed

theorem worker_winds_down_witness:
  "\<exists>p g. reach (life_init \<lparr>wc_workerId = ''w'', wc_concurrency = 2, wc_pollIntervalMs = 200, wc_ttlMs = 15000\<rparr>)
       (lifetime_step \<lparr>wc_workerId = ''w'', wc_concurrency = 2, wc_pollIntervalMs = 200, wc_ttlMs = 15000\<rparr>) (p, g) \<and> wp_stopping p \<and> moves_left p \<le> 6"
proof -
  let ?cfg = "\<lparr>wc_workerId = ''w'', wc_concurrency = 2, wc_pollIntervalMs = 200, wc_ttlMs = 15000\<rparr>"
  obtain p g where s: "start_worker ?cfg True True ''h'' 1 0 empty_registry = Some (p, g)" "wp_stopping (request_stop p)"
    by (simp add: start_worker_def registry_defs request_stop_def)
  then have "life_init ?cfg (p, g)" unfolding life_init_def
    by (intro conjI exI[of _ True] exI[of _ "''h''"] exI[of _ 1] exI[of _ 0] exI[of _ empty_registry]) (simp_all add: empty_registry_def)
  then have "reach (life_init ?cfg) (lifetime_step ?cfg) (p, g)" by (rule reach_init)
  then have "reach (life_init ?cfg) (lifetime_step ?cfg) (request_stop p, g)" by (rule reach_step) (rule life_stop)
  from worker_winds_down[OF this] this s(2) show ?thesis by (intro exI[of _ "request_stop p"] exI[of _ g]) simp
qed

end
