(* ===== verification/Wf_Health.thy ===== *)
theory Wf_Health
  imports Wf_Worker
begin

text \<open>
  The probes of \<open>src/services/health.service.js\<close> and \<open>src/routes/health.routes.js\<close>. A check is a promise; the clock counts whole
  milliseconds. The errors go to the log only.
\<close>

record health_result =
  hr_up :: bool
  hr_latencyMs :: int
  hr_error :: "js_error option"

text \<open>How long \<open>withTimeout\<close> takes: until the promise settles or the timer fires.\<close>

definition elapsed :: "unit promise \<Rightarrow> int \<Rightarrow> int" where
  "elapsed check timeoutMs = (case check of None \<Rightarrow> timer_delay timeoutMs | Some (_, t) \<Rightarrow> min t (timer_delay timeoutMs))"

definition health_check :: "int \<Rightarrow> string \<times> unit promise \<Rightarrow> string \<times> health_result" where
  "health_check timeoutMs c =
     (case c of (name, check) \<Rightarrow>
        (name, case withTimeout check timeoutMs (name @ '' health check'') of
                 Fulfilled _ \<Rightarrow> \<lparr>hr_up = True, hr_latencyMs = elapsed check timeoutMs, hr_error = None\<rparr>
               | Rejected err \<Rightarrow> \<lparr>hr_up = False, hr_latencyMs = elapsed check timeoutMs, hr_error = err\<rparr>))"

definition runHealthChecks :: "(string \<times> unit promise) list \<Rightarrow> int \<Rightarrow> bool \<times> (string \<times> health_result) list" where
  "runHealthChecks checks timeoutMs =
     (let results = map (health_check timeoutMs) checks in (list_all (\<lambda>(_, r). hr_up r) results, results))"

record ready_response =
  rr_status :: nat
  rr_text :: string
  rr_checks :: "(string \<times> bool \<times> int) list"

definition get_health :: "nat" where
  "get_health = 200"

definition get_ready :: "bool \<Rightarrow> (string \<times> unit promise) list \<Rightarrow> int \<Rightarrow> ready_response" where
  "get_ready shuttingDown checks timeoutMs =
     (if shuttingDown then \<lparr>rr_status = 503, rr_text = ''shutting_down'', rr_checks = []\<rparr>
      else case runHealthChecks checks timeoutMs of (ready, results) \<Rightarrow>
        \<lparr>rr_status = (if ready then 200 else 503), rr_text = (if ready then ''ready'' else ''not_ready''),
         rr_checks = map (\<lambda>(name, r). (name, hr_up r, hr_latencyMs r)) results\<rparr>)"

text \<open>Readiness. The probe answers 200 exactly if the process is not shutting down and every check is fulfilled before the timeout;
  it answers within the timeout, even if a check never settles; and unless it is shutting down it reports every check once.\<close>

theorem readiness:
  "(rr_status (get_ready down checks timeoutMs) = 200 \<longleftrightarrow>
       \<not> down \<and> (\<forall>(name, check) \<in> set checks. \<exists>t. check = Some (Fulfilled (), t) \<and> t < timer_delay timeoutMs))
    \<and> (\<forall>(name, up, ms) \<in> set (rr_checks (get_ready down checks timeoutMs)). ms \<le> timer_delay timeoutMs)
    \<and> (\<not> down \<longrightarrow> map fst (rr_checks (get_ready down checks timeoutMs)) = map fst checks)"
proof -
  have up: "hr_up (snd (health_check timeoutMs (name, check))) \<longleftrightarrow> (\<exists>t. check = Some (Fulfilled (), t) \<and> t < timer_delay timeoutMs)" for name check
    by (auto simp: health_check_def withTimeout_def split: option.splits settlement.splits)
  have ms: "hr_latencyMs (snd (health_check timeoutMs c)) \<le> timer_delay timeoutMs" for c
    by (auto simp: health_check_def elapsed_def split: option.splits settlement.splits prod.splits)
  have n: "fst (health_check timeoutMs c) = fst c" for c by (simp add: health_check_def split: prod.splits)
  have "list_all (\<lambda>(_, r). hr_up r) (map (health_check timeoutMs) checks) \<longleftrightarrow>
      (\<forall>(name, check) \<in> set checks. \<exists>t. check = Some (Fulfilled (), t) \<and> t < timer_delay timeoutMs)"
    unfolding list_all_iff set_map by (auto simp: case_prod_unfold up[of "fst c" "snd c" for c, simplified])
  then have s: "rr_status (get_ready down checks timeoutMs) = 200 \<longleftrightarrow>
       \<not> down \<and> (\<forall>(name, check) \<in> set checks. \<exists>t. check = Some (Fulfilled (), t) \<and> t < timer_delay timeoutMs)"
    by (simp add: get_ready_def runHealthChecks_def Let_def)
  have m: "\<forall>(name, up, ms) \<in> set (rr_checks (get_ready down checks timeoutMs)). ms \<le> timer_delay timeoutMs"
    using ms by (auto simp: get_ready_def runHealthChecks_def Let_def case_prod_unfold)
  have "map fst (rr_checks (get_ready False checks timeoutMs)) = map fst checks"
    by (simp add: get_ready_def runHealthChecks_def Let_def case_prod_unfold n o_def)
  then show ?thesis using s m by (intro conjI impI) simp_all
qed

theorem readiness_witness: "rr_status (get_ready False [(''mongo'', Some (Fulfilled (), 3)), (''redis'', None)] 2000) \<noteq> 200"
  using readiness[of False "[(''mongo'', Some (Fulfilled (), 3)), (''redis'', None)]" 2000] by (simp add: timer_delay_def)

end
