(* ===== verification/Wf_Processes.thy ===== *)
theory Wf_Processes
  imports Wf_Worker_Life Wf_Health Wf_Outbox
begin

text \<open>
  The three processes: \<open>src/server.js\<close>, \<open>src/worker.js\<close> and \<open>src/consumers/analytics.js\<close>, with \<open>src/events/kafka.js\<close>. Each is a transition
  system between the awaits of its \<open>main\<close> and \<open>shutdown\<close>: what is connected, which timers run, and how the process ends. Signals may arrive at any time.
  What the parts do is in the other theories; the loops of the worker are those of \<open>Wf_Worker_Life\<close>.
\<close>

section \<open>What a graceful process promises\<close>

text \<open>A process that has begun to stop stays at it, a process that has ended does nothing more, and the timer of \<open>shutdown\<close> can end it in every state.\<close>

locale graceful_process =
  fixes step :: "'s \<Rightarrow> 's \<Rightarrow> bool" and ended :: "'s \<Rightarrow> bool" and stopping :: "'s \<Rightarrow> bool" and force :: "'s \<Rightarrow> 's"
  assumes ended_final: "ended s \<Longrightarrow> \<not> step s s'"
    and stop_kept: "stopping s \<Longrightarrow> step s s' \<Longrightarrow> stopping s'"
    and forced: "stopping s \<Longrightarrow> \<not> ended s \<Longrightarrow> step s (force s) \<and> ended (force s)"
begin

lemma stop_final: "step\<^sup>*\<^sup>* s s' \<Longrightarrow> stopping s \<Longrightarrow> stopping s'"
  by (induction rule: rtranclp_induct) (auto intro: stop_kept)

lemma end_final: "step\<^sup>*\<^sup>* s s' \<Longrightarrow> ended s \<Longrightarrow> s' = s"
  by (induction rule: rtranclp_induct) (auto dest: ended_final)

lemma never_hangs: "step\<^sup>*\<^sup>* s s' \<Longrightarrow> stopping s \<Longrightarrow> ended s' \<or> step s' (force s') \<and> ended (force s')"
  using stop_final forced by blast

end

section \<open>The API server\<close>

text \<open>The awaits of \<open>main\<close> and \<open>shutdown\<close>; \<open>Sv_Disconnecting\<close> says which of the two promises of \<open>allSettled\<close> have settled. A process that is killed
  by a signal for which it has no handler has no exit code.\<close>

datatype server_phase = Sv_Config | Sv_Mongo | Sv_Redis | Sv_Serving | Sv_Closing | Sv_Disconnecting bool bool | Sv_Exited int | Sv_Killed

record api_process =
  sv_phase :: server_phase
  sv_shuttingDown :: bool
  sv_forceExit :: bool
  sv_requests :: nat

definition server_start :: api_process where
  "server_start = \<lparr>sv_phase = Sv_Config, sv_shuttingDown = False, sv_forceExit = False, sv_requests = 0\<rparr>"

text \<open>One await of \<open>main\<close> settles. A rejection ends in \<open>main().catch\<close>.\<close>

fun server_boot :: "bool \<Rightarrow> server_phase \<Rightarrow> server_phase" where
  "server_boot False ph = Sv_Exited 1"
| "server_boot True Sv_Config = Sv_Mongo"
| "server_boot True Sv_Mongo = Sv_Redis"
| "server_boot True Sv_Redis = Sv_Serving"
| "server_boot True ph = ph"

definition booting :: "server_phase \<Rightarrow> bool" where
  "booting ph \<longleftrightarrow> ph \<in> {Sv_Config, Sv_Mongo, Sv_Redis}"

definition server_shutdown :: "api_process \<Rightarrow> api_process" where
  "server_shutdown s = (if sv_shuttingDown s then s else s\<lparr>sv_shuttingDown := True, sv_forceExit := True, sv_phase := Sv_Closing\<rparr>)"

text \<open>\<open>SIGTERM\<close> or \<open>SIGINT\<close>, and a rejection nobody handles, before and after the handlers are installed.\<close>

definition server_signal :: "api_process \<Rightarrow> api_process" where
  "server_signal s = (if booting (sv_phase s) then s\<lparr>sv_phase := Sv_Killed\<rparr> else server_shutdown s)"

definition server_rejection :: "api_process \<Rightarrow> api_process" where
  "server_rejection s = (if booting (sv_phase s) then s\<lparr>sv_phase := Sv_Exited 1\<rparr> else server_shutdown s)"

definition server_closed :: "api_process \<Rightarrow> api_process" where
  "server_closed s = s\<lparr>sv_phase := Sv_Disconnecting False False\<rparr>"

text \<open>One of the two disconnections settles, either way; after both the process exits.\<close>

fun server_settle :: "bool \<Rightarrow> server_phase \<Rightarrow> server_phase" where
  "server_settle mongo (Sv_Disconnecting m r) =
     (let m' = (m \<or> mongo); r' = (r \<or> \<not> mongo) in if m' \<and> r' then Sv_Exited 0 else Sv_Disconnecting m' r')"
| "server_settle mongo ph = ph"

definition server_force :: "api_process \<Rightarrow> api_process" where
  "server_force s = s\<lparr>sv_phase := Sv_Exited 1\<rparr>"

definition server_ended :: "api_process \<Rightarrow> bool" where
  "server_ended s \<longleftrightarrow> (case sv_phase s of Sv_Exited _ \<Rightarrow> True | Sv_Killed \<Rightarrow> True | _ \<Rightarrow> False)"

text \<open>A new request needs an open connection: while serving, or, until they are closed, on one that is still busy.\<close>

inductive server_step :: "api_process \<Rightarrow> api_process \<Rightarrow> bool" where
  sv_boot: "booting (sv_phase s) \<Longrightarrow> server_step s (s\<lparr>sv_phase := server_boot ok (sv_phase s)\<rparr>)"
| sv_listen_error: "\<not> booting (sv_phase s) \<Longrightarrow> \<not> server_ended s \<Longrightarrow> server_step s (s\<lparr>sv_phase := Sv_Exited 1\<rparr>)"
| sv_request: "sv_phase s = Sv_Serving \<or> sv_phase s = Sv_Closing \<and> 0 < sv_requests s \<Longrightarrow> server_step s (s\<lparr>sv_requests := sv_requests s + 1\<rparr>)"
| sv_response: "\<not> server_ended s \<Longrightarrow> 0 < sv_requests s \<Longrightarrow> server_step s (s\<lparr>sv_requests := sv_requests s - 1\<rparr>)"
| sv_signal: "\<not> server_ended s \<Longrightarrow> server_step s (server_signal s)"
| sv_rejection: "\<not> server_ended s \<Longrightarrow> server_step s (server_rejection s)"
| sv_closed: "sv_phase s = Sv_Closing \<Longrightarrow> sv_requests s = 0 \<Longrightarrow> server_step s (server_closed s)"
| sv_settle: "sv_phase s = Sv_Disconnecting m r \<Longrightarrow> server_step s (s\<lparr>sv_phase := server_settle mongo (sv_phase s)\<rparr>)"
| sv_force: "sv_forceExit s \<Longrightarrow> \<not> server_ended s \<Longrightarrow> server_step s (server_force s)"

definition server_inv :: "api_process \<Rightarrow> bool" where
  "server_inv s \<longleftrightarrow> sv_forceExit s = sv_shuttingDown s
     \<and> (case sv_phase s of
          Sv_Serving \<Rightarrow> \<not> sv_shuttingDown s
        | Sv_Closing \<Rightarrow> sv_shuttingDown s
        | Sv_Disconnecting m r \<Rightarrow> sv_shuttingDown s \<and> sv_requests s = 0 \<and> \<not> (m \<and> r)
        | Sv_Exited n \<Rightarrow> n \<in> {0, 1} \<and> (n = 0 \<longrightarrow> sv_shuttingDown s \<and> sv_requests s = 0)
        | _ \<Rightarrow> \<not> sv_shuttingDown s \<and> sv_requests s = 0)"

lemmas server_defs = server_signal_def server_rejection_def server_shutdown_def server_closed_def server_force_def server_ended_def booting_def

interpretation api_server: invariant_system "\<lambda>s. s = server_start" server_step server_inv
proof
  show "server_inv s" if "s = server_start" for s using that by (simp add: server_inv_def server_start_def)
  show "server_inv s'" if "server_inv s" "server_step s s'" for s s'
    using that(2,1)
  proof cases
    case (sv_boot ok)
    then show ?thesis using that(1) by (cases ok; cases "sv_phase s") (auto simp: server_inv_def booting_def)
  next
    case (sv_settle m r mongo)
    then show ?thesis using that(1) by (auto simp: server_inv_def Let_def)
  qed (auto simp: server_inv_def server_defs split: server_phase.splits)
qed

definition server_stopping :: "api_process \<Rightarrow> bool" where
  "server_stopping s \<longleftrightarrow> sv_shuttingDown s \<and> sv_forceExit s"

interpretation server_graceful: graceful_process server_step server_ended server_stopping server_force
proof
  show "\<not> server_step s s'" if "server_ended s" for s s'
    using that by (auto elim!: server_step.cases simp: server_defs split: server_phase.splits)
  show "server_stopping s'" if "server_stopping s" "server_step s s'" for s s'
    using that(2,1) by cases (auto simp: server_stopping_def server_defs)
  show "server_step s (server_force s) \<and> server_ended (server_force s)" if "server_stopping s" "\<not> server_ended s" for s
    using that sv_force[of s] by (simp add: server_stopping_def server_force_def server_ended_def)
qed

text \<open>Finishing without the timer: the requests under way are answered, the connections are closed, exit 0.\<close>

lemma server_answers: "\<not> server_ended s \<Longrightarrow> server_step\<^sup>*\<^sup>* s (s\<lparr>sv_requests := 0\<rparr>)"
proof (induction "sv_requests s" arbitrary: s)
  case (Suc n)
  let ?t = "s\<lparr>sv_requests := n\<rparr>"
  have n: "sv_requests s = Suc n" using Suc.hyps(2) by (rule sym)
  have "server_step s ?t" using sv_response[of s] n Suc.prems by simp
  moreover have "server_step\<^sup>*\<^sup>* ?t (?t\<lparr>sv_requests := 0\<rparr>)" by (rule Suc.hyps(1)) (use Suc.prems in \<open>simp_all add: server_ended_def\<close>)
  ultimately show ?case by (simp add: converse_rtranclp_into_rtranclp)
next
  case 0
  then have "s\<lparr>sv_requests := 0\<rparr> = s" by (cases s) simp
  then show ?case by simp
qed

lemma server_disconnects:
  assumes "sv_phase s = Sv_Disconnecting m r" "\<not> (m \<and> r)"
  shows "server_step\<^sup>*\<^sup>* s (s\<lparr>sv_phase := Sv_Exited 0\<rparr>)"
proof -
  have once: "server_step s (s\<lparr>sv_phase := server_settle b (Sv_Disconnecting m r)\<rparr>)" for b using sv_settle[OF assms(1), of b] assms(1) by simp
  show ?thesis
  proof (cases "m \<or> r")
    case True
    then show ?thesis using once[of "\<not> m"] assms(2) by (auto simp: Let_def)
  next
    case False
    let ?t = "s\<lparr>sv_phase := Sv_Disconnecting True False\<rparr>"
    have "server_step s ?t" using once[of True] False by (simp add: Let_def)
    moreover have "server_step ?t (s\<lparr>sv_phase := Sv_Exited 0\<rparr>)" using sv_settle[of ?t True False False] by (simp add: Let_def)
    ultimately show ?thesis by (simp add: converse_rtranclp_into_rtranclp)
  qed
qed

lemma server_finishes:
  assumes "server_inv s" "sv_shuttingDown s" "\<not> server_ended s"
  shows "\<exists>s'. server_step\<^sup>*\<^sup>* s s' \<and> sv_phase s' = Sv_Exited 0"
proof -
  consider "sv_phase s = Sv_Closing" | m r where "sv_phase s = Sv_Disconnecting m r" "\<not> (m \<and> r)"
    using assms by (auto simp: server_inv_def server_ended_def split: server_phase.splits)
  then show ?thesis
  proof cases
    case 1
    let ?t = "s\<lparr>sv_requests := 0\<rparr>"
    have "server_step ?t (server_closed ?t)" by (rule sv_closed) (simp_all add: 1)
    moreover have "server_step\<^sup>*\<^sup>* (server_closed ?t) ((server_closed ?t)\<lparr>sv_phase := Sv_Exited 0\<rparr>)"
      by (rule server_disconnects[of _ False False]) (simp_all add: server_closed_def)
    ultimately have "server_step\<^sup>*\<^sup>* s ((server_closed ?t)\<lparr>sv_phase := Sv_Exited 0\<rparr>)"
      using server_answers[OF assms(3)] by (meson converse_rtranclp_into_rtranclp rtranclp_trans)
    then show ?thesis by fastforce
  next
    case 2
    then show ?thesis using server_disconnects[OF 2] by fastforce
  qed
qed

section \<open>The worker process\<close>

datatype main_phase = W_Config | W_Mongo | W_Redis | W_Starting | W_Kafka | W_Up
  | S_Worker | S_Scheduler | S_Relay | S_Publisher | S_Connections bool bool | W_Exited int | W_Killed

text \<open>\<open>wm_relay\<close> says whether \<open>relayRunner\<close> is set; \<open>wm_ticks\<close> counts the ticks of scheduler, relay and reconciler under way, which no one waits
  for.\<close>

record worker_main =
  wm_phase :: main_phase
  wm_stopping :: bool
  wm_forceExit :: bool
  wm_life :: "life_state option"
  wm_schedulerTimer :: bool
  wm_relay :: bool
  wm_relayTimer :: bool
  wm_reconcileTimer :: bool
  wm_ticks :: nat

definition worker_begin :: worker_main where
  "worker_begin = \<lparr>wm_phase = W_Config, wm_stopping = False, wm_forceExit = False, wm_life = None, wm_schedulerTimer = False, wm_relay = False,
     wm_relayTimer = False, wm_reconcileTimer = False, wm_ticks = 0\<rparr>"

fun worker_boot :: "bool \<Rightarrow> main_phase \<Rightarrow> main_phase" where
  "worker_boot False ph = W_Exited 1"
| "worker_boot True W_Config = W_Mongo"
| "worker_boot True W_Mongo = W_Redis"
| "worker_boot True W_Redis = W_Starting"
| "worker_boot True ph = ph"

text \<open>\<open>await worker.start()\<close>, then \<open>scheduler.start\<close> in the same turn.\<close>

definition worker_started :: "life_state option \<Rightarrow> worker_main \<Rightarrow> worker_main" where
  "worker_started life s =
     (case life of None \<Rightarrow> s\<lparr>wm_phase := W_Exited 1\<rparr>
      | Some l \<Rightarrow> s\<lparr>wm_phase := W_Kafka, wm_life := Some l, wm_schedulerTimer := True\<rparr>)"

text \<open>\<open>publisher.connect()\<close> settles; a failure is logged. The relay, the reconciler and the handlers of signals come after it.\<close>

definition kafka_settled :: "bool \<Rightarrow> worker_main \<Rightarrow> worker_main" where
  "kafka_settled ok s = s\<lparr>wm_phase := W_Up, wm_relay := ok, wm_relayTimer := ok, wm_reconcileTimer := True\<rparr>"

definition starting :: "main_phase \<Rightarrow> bool" where
  "starting ph \<longleftrightarrow> ph \<in> {W_Config, W_Mongo, W_Redis, W_Starting, W_Kafka}"

definition worker_shutdown :: "worker_main \<Rightarrow> worker_main" where
  "worker_shutdown s =
     (if wm_stopping s then s
      else s\<lparr>wm_stopping := True, wm_forceExit := True, wm_reconcileTimer := False,
             wm_life := map_option (\<lambda>(p, g). (request_stop p, g)) (wm_life s), wm_phase := S_Worker\<rparr>)"

definition worker_signal :: "worker_main \<Rightarrow> worker_main" where
  "worker_signal s = (if starting (wm_phase s) then s\<lparr>wm_phase := W_Killed\<rparr> else worker_shutdown s)"

definition worker_rejection :: "worker_main \<Rightarrow> worker_main" where
  "worker_rejection s = (if starting (wm_phase s) then s\<lparr>wm_phase := W_Exited 1\<rparr> else worker_shutdown s)"

text \<open>The awaits of \<open>shutdown\<close> in their order. The next part is told to stop, and its timer cleared, in the turn in which the previous one has
  stopped. \<open>worker.stop\<close> needs all loops to have ended.\<close>

definition worker_departs :: "bool \<Rightarrow> bool \<Rightarrow> worker_config \<Rightarrow> worker_main \<Rightarrow> worker_main" where
  "worker_departs mongo redis cfg s =
     s\<lparr>wm_life := map_option (\<lambda>(p, g). (p\<lparr>wp_departed := True\<rparr>, deregister mongo redis (wc_workerId cfg) g)) (wm_life s),
       wm_schedulerTimer := False, wm_phase := S_Scheduler\<rparr>"

definition scheduler_stopped :: "worker_main \<Rightarrow> worker_main" where
  "scheduler_stopped s = s\<lparr>wm_relayTimer := False, wm_phase := (if wm_relay s then S_Relay else S_Publisher)\<rparr>"

definition connection_settled :: "bool \<Rightarrow> bool \<Rightarrow> bool \<Rightarrow> main_phase" where
  "connection_settled mongo m r =
     (let m' = (m \<or> mongo); r' = (r \<or> \<not> mongo) in if m' \<and> r' then W_Exited 0 else S_Connections m' r')"

definition worker_force :: "worker_main \<Rightarrow> worker_main" where
  "worker_force s = s\<lparr>wm_phase := W_Exited 1\<rparr>"

definition worker_ended :: "worker_main \<Rightarrow> bool" where
  "worker_ended s \<longleftrightarrow> (case wm_phase s of W_Exited _ \<Rightarrow> True | W_Killed \<Rightarrow> True | _ \<Rightarrow> False)"

definition loops_over :: "worker_main \<Rightarrow> bool" where
  "loops_over s \<longleftrightarrow> (case wm_life s of None \<Rightarrow> True | Some (p, g) \<Rightarrow> \<forall>ph \<in> set (wp_loops p). ph = Ended)"

inductive worker_step :: "worker_config \<Rightarrow> worker_main \<Rightarrow> worker_main \<Rightarrow> bool" for cfg where
  wm_boot: "wm_phase s \<in> {W_Config, W_Mongo, W_Redis} \<Longrightarrow> worker_step cfg s (s\<lparr>wm_phase := worker_boot ok (wm_phase s)\<rparr>)"
| wm_started: "wm_phase s = W_Starting \<Longrightarrow> wc_workerId cfg \<notin> wd_workerId ` set (rg_workers g) \<Longrightarrow>
    worker_step cfg s (worker_started (start_worker cfg mongo redis host pid now g) s)"
| wm_kafka: "wm_phase s = W_Kafka \<Longrightarrow> worker_step cfg s (kafka_settled ok s)"
| wm_loop: "\<not> worker_ended s \<Longrightarrow> wm_life s = Some (p, g) \<Longrightarrow> lifetime_step cfg (p, g) (p', g') \<Longrightarrow>
    wp_stopping p' = wp_stopping p \<Longrightarrow> wp_departed p' = wp_departed p \<Longrightarrow> worker_step cfg s (s\<lparr>wm_life := Some (p', g')\<rparr>)"
| wm_tick: "\<not> worker_ended s \<Longrightarrow> wm_schedulerTimer s \<or> wm_relayTimer s \<or> wm_reconcileTimer s \<Longrightarrow> worker_step cfg s (s\<lparr>wm_ticks := wm_ticks s + 1\<rparr>)"
| wm_tock: "\<not> worker_ended s \<Longrightarrow> 0 < wm_ticks s \<Longrightarrow> worker_step cfg s (s\<lparr>wm_ticks := wm_ticks s - 1\<rparr>)"
| wm_signal: "\<not> worker_ended s \<Longrightarrow> worker_step cfg s (worker_signal s)"
| wm_rejection: "\<not> worker_ended s \<Longrightarrow> worker_step cfg s (worker_rejection s)"
| wm_departs: "wm_phase s = S_Worker \<Longrightarrow> loops_over s \<Longrightarrow> worker_step cfg s (worker_departs mongo redis cfg s)"
| wm_scheduler: "wm_phase s = S_Scheduler \<Longrightarrow> worker_step cfg s (scheduler_stopped s)"
| wm_relay_stopped: "wm_phase s = S_Relay \<Longrightarrow> worker_step cfg s (s\<lparr>wm_phase := S_Publisher\<rparr>)"
| wm_publisher: "wm_phase s = S_Publisher \<Longrightarrow> worker_step cfg s (s\<lparr>wm_phase := S_Connections False False\<rparr>)"
| wm_connection: "wm_phase s = S_Connections m r \<Longrightarrow> worker_step cfg s (s\<lparr>wm_phase := connection_settled mongo m r\<rparr>)"
| wm_force: "wm_forceExit s \<Longrightarrow> \<not> worker_ended s \<Longrightarrow> worker_step cfg s (worker_force s)"

section \<open>What holds of the worker process\<close>

text \<open>The loops while they may claim, while they wind down, and after.\<close>

definition life_in :: "worker_config \<Rightarrow> bool \<Rightarrow> bool \<Rightarrow> worker_main \<Rightarrow> bool" where
  "life_in cfg stop departed s \<longleftrightarrow> (\<exists>p g. wm_life s = Some (p, g) \<and> reach (life_init cfg) (lifetime_step cfg) (p, g)
     \<and> wp_stopping p = stop \<and> wp_departed p = departed)"

definition timers_off :: "worker_main \<Rightarrow> bool" where
  "timers_off s \<longleftrightarrow> \<not> wm_schedulerTimer s \<and> \<not> wm_relayTimer s \<and> \<not> wm_reconcileTimer s"

definition worker_inv :: "worker_config \<Rightarrow> worker_main \<Rightarrow> bool" where
  "worker_inv cfg s \<longleftrightarrow> wm_forceExit s = wm_stopping s \<and> (wm_relayTimer s \<longrightarrow> wm_relay s)
     \<and> (case wm_phase s of
          W_Kafka \<Rightarrow> \<not> wm_stopping s \<and> life_in cfg False False s \<and> \<not> wm_relay s \<and> \<not> wm_reconcileTimer s
        | W_Up \<Rightarrow> \<not> wm_stopping s \<and> life_in cfg False False s
        | S_Worker \<Rightarrow> wm_stopping s \<and> life_in cfg True False s \<and> \<not> wm_reconcileTimer s
        | S_Scheduler \<Rightarrow> wm_stopping s \<and> life_in cfg True True s \<and> \<not> wm_reconcileTimer s \<and> \<not> wm_schedulerTimer s
        | S_Relay \<Rightarrow> wm_stopping s \<and> life_in cfg True True s \<and> timers_off s
        | S_Publisher \<Rightarrow> wm_stopping s \<and> life_in cfg True True s \<and> timers_off s
        | S_Connections m r \<Rightarrow> wm_stopping s \<and> life_in cfg True True s \<and> timers_off s \<and> \<not> (m \<and> r)
        | W_Exited n \<Rightarrow> n \<in> {0, 1} \<and> (n = 0 \<longrightarrow> wm_stopping s \<and> life_in cfg True True s \<and> timers_off s)
        | W_Killed \<Rightarrow> \<not> wm_stopping s
        | _ \<Rightarrow> \<not> wm_stopping s \<and> wm_life s = None \<and> timers_off s \<and> \<not> wm_relay s \<and> wm_ticks s = 0)"

lemmas worker_defs = worker_signal_def worker_rejection_def worker_shutdown_def worker_force_def worker_ended_def kafka_settled_def starting_def
  scheduler_stopped_def timers_off_def

lemma life_in_simps [simp]:
  "life_in cfg a b (s\<lparr>wm_phase := ph\<rparr>) = life_in cfg a b s" "life_in cfg a b (s\<lparr>wm_ticks := n\<rparr>) = life_in cfg a b s"
  "life_in cfg a b (s\<lparr>wm_relay := r\<rparr>) = life_in cfg a b s" "life_in cfg a b (s\<lparr>wm_relayTimer := r\<rparr>) = life_in cfg a b s"
  "life_in cfg a b (s\<lparr>wm_reconcileTimer := r\<rparr>) = life_in cfg a b s"
  by (simp_all add: life_in_def)

lemma life_in_loop:
  assumes "life_in cfg a b s" "wm_life s = Some (p, g)" "lifetime_step cfg (p, g) (p', g')" "wp_stopping p' = wp_stopping p" "wp_departed p' = wp_departed p"
  shows "life_in cfg a b (s\<lparr>wm_life := Some (p', g')\<rparr>)"
  using assms reach_step[where step = "lifetime_step cfg", OF _ assms(3)] by (auto simp: life_in_def)

lemma life_in_shutdown: "life_in cfg False False s \<Longrightarrow> \<not> wm_stopping s \<Longrightarrow> life_in cfg True False (worker_shutdown s)"
  using reach_step[where step = "lifetime_step cfg", OF _ life_stop] by (force simp: life_in_def worker_shutdown_def request_stop_def)

lemma life_in_departs:
  assumes "life_in cfg True False s" "loops_over s"
  shows "life_in cfg True True (worker_departs mongo redis cfg s)"
proof -
  obtain p g where p: "wm_life s = Some (p, g)" "reach (life_init cfg) (lifetime_step cfg) (p, g)" "wp_stopping p" "\<not> wp_departed p"
    using assms(1) by (auto simp: life_in_def)
  then have "lifetime_step cfg (p, g) (p\<lparr>wp_departed := True\<rparr>, deregister mongo redis (wc_workerId cfg) g)"
    using assms(2) by (intro life_depart) (simp_all add: loops_over_def)
  then show ?thesis using reach_step[OF p(2)] p by (simp add: life_in_def worker_departs_def)
qed

definition poll_ok :: "worker_config \<Rightarrow> bool" where
  "poll_ok cfg \<longleftrightarrow> 0 < wc_pollIntervalMs cfg \<and> wc_pollIntervalMs cfg \<le> 10000"

lemma life_in_started:
  assumes "poll_ok cfg" "start_worker cfg mongo redis host pid now g = Some l" "wc_workerId cfg \<notin> wd_workerId ` set (rg_workers g)"
  shows "life_in cfg False False (s\<lparr>wm_phase := W_Kafka, wm_life := Some l, wm_schedulerTimer := True\<rparr>)"
proof -
  obtain p g' where l: "l = (p, g')" by (cases l)
  have "life_init cfg (p, g')" using assms l unfolding life_init_def poll_ok_def by blast
  moreover have "\<not> wp_stopping p" "\<not> wp_departed p" using assms(2) l by (auto simp: start_worker_def split: prod.splits if_splits)
  ultimately show ?thesis using l reach_init by (auto simp: life_in_def)
qed

lemma worker_inv_step:
  assumes "worker_inv cfg s" "worker_step cfg s s'" "poll_ok cfg"
  shows "worker_inv cfg s'"
  using assms(2)
proof cases
  case (wm_boot ok)
  then show ?thesis using assms(1) by (cases ok) (auto simp: worker_inv_def timers_off_def)
next
  case (wm_started g mongo redis host pid now)
  then show ?thesis using assms(1) life_in_started[OF assms(3)]
    by (cases "start_worker cfg mongo redis host pid now g") (auto simp: worker_inv_def worker_started_def timers_off_def)
next
  case (wm_loop p g p' g')
  then show ?thesis using assms(1) life_in_loop[OF _ wm_loop(3-6)]
    by (auto simp: worker_inv_def worker_ended_def timers_off_def split: main_phase.splits)
next
  case wm_signal
  then show ?thesis using assms(1) life_in_shutdown[of cfg s]
    by (auto simp: worker_inv_def worker_defs split: main_phase.splits)
next
  case wm_rejection
  then show ?thesis using assms(1) life_in_shutdown[of cfg s]
    by (auto simp: worker_inv_def worker_defs split: main_phase.splits)
next
  case (wm_departs mongo redis)
  then show ?thesis using assms(1) life_in_departs[of cfg s mongo redis] by (auto simp: worker_inv_def worker_departs_def)
qed (use assms(1) in \<open>auto simp: worker_inv_def worker_defs connection_settled_def Let_def split: main_phase.splits\<close>)

interpretation worker_process: invariant_system "\<lambda>s. s = worker_begin" "\<lambda>s s'. poll_ok cfg \<and> worker_step cfg s s'" "worker_inv cfg" for cfg
proof
  show "worker_inv cfg s" if "s = worker_begin" for s using that by (simp add: worker_inv_def worker_begin_def timers_off_def)
qed (use worker_inv_step in blast)

definition worker_stopping :: "worker_main \<Rightarrow> bool" where
  "worker_stopping s \<longleftrightarrow> wm_stopping s \<and> wm_forceExit s"

interpretation worker_graceful: graceful_process "worker_step cfg" worker_ended worker_stopping worker_force for cfg
proof
  show "\<not> worker_step cfg s s'" if "worker_ended s" for s s'
    using that by (auto elim!: worker_step.cases simp: worker_ended_def split: main_phase.splits)
  show "worker_stopping s'" if "worker_stopping s" "worker_step cfg s s'" for s s'
    using that(2,1) by cases (auto simp: worker_stopping_def worker_defs worker_started_def worker_departs_def split: option.splits)
  show "worker_step cfg s (worker_force s) \<and> worker_ended (worker_force s)" if "worker_stopping s" "\<not> worker_ended s" for s
    using that wm_force[of s cfg] by (simp add: worker_stopping_def worker_force_def worker_ended_def)
qed

lemma loop_flags:
  assumes "loop_moves cfg p p'"
  shows "wp_stopping p' = wp_stopping p \<and> wp_departed p' = wp_departed p"
  using assms
proof cases
  case (move_claimed n b r)
  then show ?thesis by (cases r) (simp_all add: loop_defs)
qed (simp_all add: loop_defs)

text \<open>The loops end by themselves once they are told to stop.\<close>

lemma loops_end:
  assumes "wm_life s = Some (p, g)" "wp_stopping p" "\<not> worker_ended s"
  shows "\<exists>p'. (worker_step cfg)\<^sup>*\<^sup>* s (s\<lparr>wm_life := Some (p', g)\<rparr>) \<and> (\<forall>ph \<in> set (wp_loops p'). ph = Ended)"
  using assms
proof (induction "moves_left p" arbitrary: p s rule: less_induct)
  case less
  show ?case
  proof (cases "\<forall>ph \<in> set (wp_loops p). ph = Ended")
    case True
    have "s\<lparr>wm_life := Some (p, g)\<rparr> = s" using less.prems(1) by (cases s) simp
    then show ?thesis using True by (metis rtranclp.rtrancl_refl)
  next
    case False
    then obtain p1 where m: "loop_moves cfg p p1" using loops_can_move by blast
    let ?t = "s\<lparr>wm_life := Some (p1, g)\<rparr>"
    note fl = loop_flags[OF m]
    have st: "worker_step cfg s ?t" using wm_loop[OF less.prems(3,1) life_loop[OF m]] fl by simp
    have "\<exists>p'. (worker_step cfg)\<^sup>*\<^sup>* ?t (?t\<lparr>wm_life := Some (p', g)\<rparr>) \<and> (\<forall>ph \<in> set (wp_loops p'). ph = Ended)"
      by (rule less.hyps[OF stopping_moves(1)[OF m less.prems(2)]]) (use less.prems fl in \<open>simp_all add: worker_ended_def\<close>)
    then show ?thesis using st by (auto intro: converse_rtranclp_into_rtranclp)
  qed
qed

lemma connections_end:
  assumes "wm_phase s = S_Connections m r" "\<not> (m \<and> r)"
  shows "\<exists>s'. (worker_step cfg)\<^sup>*\<^sup>* s s' \<and> wm_phase s' = W_Exited 0"
proof -
  have once: "worker_step cfg s (s\<lparr>wm_phase := connection_settled b m r\<rparr>)" for b by (rule wm_connection[OF assms(1)])
  show ?thesis
  proof (cases "m \<or> r")
    case True
    then have "connection_settled (\<not> m) m r = W_Exited 0" using assms(2) by (auto simp: connection_settled_def)
    then have "worker_step cfg s (s\<lparr>wm_phase := W_Exited 0\<rparr>)" using once[of "\<not> m"] by simp
    then show ?thesis by (intro exI[of _ "s\<lparr>wm_phase := W_Exited 0\<rparr>"]) auto
  next
    case False
    let ?t = "s\<lparr>wm_phase := S_Connections True False\<rparr>"
    have "worker_step cfg s ?t" using once[of True] False by (simp add: connection_settled_def)
    moreover have "worker_step cfg ?t (?t\<lparr>wm_phase := W_Exited 0\<rparr>)"
      using wm_connection[of ?t True False cfg False] by (simp add: connection_settled_def)
    ultimately show ?thesis by (intro exI[of _ "?t\<lparr>wm_phase := W_Exited 0\<rparr>"]) (simp add: converse_rtranclp_into_rtranclp)
  qed
qed

lemma publisher_end: "wm_phase s = S_Publisher \<Longrightarrow> \<exists>s'. (worker_step cfg)\<^sup>*\<^sup>* s s' \<and> wm_phase s' = W_Exited 0"
  using connections_end[of "s\<lparr>wm_phase := S_Connections False False\<rparr>" False False cfg] wm_publisher[of s cfg]
  by (auto intro: converse_rtranclp_into_rtranclp)

lemma relay_end: "wm_phase s = S_Relay \<Longrightarrow> \<exists>s'. (worker_step cfg)\<^sup>*\<^sup>* s s' \<and> wm_phase s' = W_Exited 0"
  using publisher_end[of "s\<lparr>wm_phase := S_Publisher\<rparr>" cfg] wm_relay_stopped[of s cfg] by (auto intro: converse_rtranclp_into_rtranclp)

lemma scheduler_end: "wm_phase s = S_Scheduler \<Longrightarrow> \<exists>s'. (worker_step cfg)\<^sup>*\<^sup>* s s' \<and> wm_phase s' = W_Exited 0"
  using publisher_end[of "scheduler_stopped s" cfg] relay_end[of "scheduler_stopped s" cfg] wm_scheduler[of s cfg]
  by (cases "wm_relay s") (auto simp: scheduler_stopped_def intro: converse_rtranclp_into_rtranclp)

lemma worker_finishes:
  assumes "worker_inv cfg s" "wm_stopping s" "\<not> worker_ended s"
  shows "\<exists>s'. (worker_step cfg)\<^sup>*\<^sup>* s s' \<and> wm_phase s' = W_Exited 0"
proof (cases "wm_phase s = S_Worker")
  case True
  then obtain p g where p: "wm_life s = Some (p, g)" "wp_stopping p" using assms(1) by (auto simp: worker_inv_def life_in_def)
  obtain p' where p': "(worker_step cfg)\<^sup>*\<^sup>* s (s\<lparr>wm_life := Some (p', g)\<rparr>)" "\<forall>ph \<in> set (wp_loops p'). ph = Ended"
    using loops_end[OF p assms(3)] by blast
  let ?t = "s\<lparr>wm_life := Some (p', g)\<rparr>"
  have "worker_step cfg ?t (worker_departs True True cfg ?t)" by (rule wm_departs) (use True p' in \<open>simp_all add: loops_over_def\<close>)
  moreover have "wm_phase (worker_departs True True cfg ?t) = S_Scheduler" by (simp add: worker_departs_def)
  ultimately show ?thesis using p'(1) scheduler_end by (meson rtranclp.rtrancl_into_rtrancl rtranclp_trans)
next
  case False
  then show ?thesis using assms scheduler_end relay_end publisher_end connections_end
    by (auto simp: worker_inv_def worker_ended_def split: main_phase.splits)
qed

section \<open>Properties\<close>

text \<open>The connections of a worker are in use until its loops, its scheduler and its relay are told to stop, in this order.\<close>

definition connections_closing :: "worker_main \<Rightarrow> bool" where
  "connections_closing s \<longleftrightarrow> (case wm_phase s of S_Connections _ _ \<Rightarrow> True | W_Exited n \<Rightarrow> n = 0 | _ \<Rightarrow> False)"

lemma departed_idle: "life_in cfg True True s \<Longrightarrow> \<exists>p g. wm_life s = Some (p, g) \<and> wp_departed p \<and> wp_running p = 0 \<and> (\<forall>ph \<in> set (wp_loops p). ph = Ended)"
  using worker_life.reach_inv[of cfg] by (fastforce simp: life_in_def life_inv_def proc_ok_def busy_def count_where_def filter_empty_conv)


text \<open>A worker that was told to stop while it was idle, and a server while it had nothing to do.\<close>

definition demo_worker :: worker_config where
  "demo_worker = \<lparr>wc_workerId = ''w'', wc_concurrency = 2, wc_pollIntervalMs = 200, wc_ttlMs = 15000\<rparr>"

definition demo_connecting :: worker_main where
  "demo_connecting = worker_started (start_worker demo_worker True True ''h'' 1 0 empty_registry) (worker_begin\<lparr>wm_phase := W_Starting\<rparr>)"

abbreviation worker_reach :: "worker_config \<Rightarrow> worker_main \<Rightarrow> bool" where
  "worker_reach cfg \<equiv> reach (\<lambda>s. s = worker_begin) (\<lambda>s s'. poll_ok cfg \<and> worker_step cfg s s')"

lemma demo_connecting_reach: "worker_reach demo_worker demo_connecting"
proof -
  have ok: "poll_ok demo_worker" by (simp add: poll_ok_def demo_worker_def)
  have st: "worker_reach demo_worker s'" if "worker_reach demo_worker s" "worker_step demo_worker s s'" for s s'
    using reach_step[where step = "\<lambda>s s'. poll_ok demo_worker \<and> worker_step demo_worker s s'", OF that(1)] that(2) ok by blast
  have boot: "worker_reach demo_worker (worker_begin\<lparr>wm_phase := worker_boot True ph\<rparr>)"
    if "worker_reach demo_worker (worker_begin\<lparr>wm_phase := ph\<rparr>)" "ph \<in> {W_Config, W_Mongo, W_Redis}" for ph
    using st[OF that(1)] wm_boot[of "worker_begin\<lparr>wm_phase := ph\<rparr>" demo_worker True] that(2) by simp
  have "worker_reach demo_worker (worker_begin\<lparr>wm_phase := W_Config\<rparr>)" by (rule reach_init) (simp add: worker_begin_def)
  from boot[OF boot[OF boot[OF this]]] have "worker_reach demo_worker (worker_begin\<lparr>wm_phase := W_Starting\<rparr>)" by simp
  then show ?thesis unfolding demo_connecting_def by (rule st) (rule wm_started; simp add: empty_registry_def)
qed


text \<open>A signal while a worker waits for Kafka. The loops are started before the connection to Kafka, the handlers of signals are installed after it: while
  the client retries, the worker runs tasks and a \<open>SIGTERM\<close> ends it at once, without a graceful stop.\<close>

theorem signal_while_connecting:
  assumes "worker_reach cfg s" "wm_phase s = W_Kafka"
  shows "(\<exists>p g. wm_life s = Some (p, g) \<and> \<not> wp_stopping p \<and> reach (life_init cfg) (lifetime_step cfg) (p, g))
    \<and> wm_phase (worker_signal s) = W_Killed \<and> wm_life (worker_signal s) = wm_life s"
  using worker_process.reach_inv[OF assms(1)] assms(2) by (auto simp: worker_inv_def life_in_def worker_signal_def starting_def)

section \<open>The analytics consumer\<close>

text \<open>\<open>eachMessage\<close>. \<open>parse\<close> stands for \<open>JSON.parse(message.value.toString())\<close> and what the processor reads from the result: \<open>None\<close> if the text is no JSON, an
  error if it is JSON but no event (\<open>null\<close>, an object without \<open>eventId\<close> or with a date that is none).\<close>

definition eachMessage :: "('v \<Rightarrow> message result option) \<Rightarrow> time \<Rightarrow> 'v \<Rightarrow> consumer_state \<Rightarrow> (outcome option \<times> consumer_state) result" where
  "eachMessage parse now v cs =
     (case parse v of
        None \<Rightarrow> Inr (None, cs)
      | Some event \<Rightarrow> bind_result event (\<lambda>m. bind_result (process ''analytics'' now m cs) (\<lambda>(r, cs'). Inr (Some r, cs'))))"

text \<open>One partition: the offset is committed after each message; a message whose handler throws, and one whose offset could not be committed, is
  delivered again.\<close>

inductive partition_step :: "('v \<Rightarrow> message result option) \<Rightarrow> 'v list \<Rightarrow> nat \<times> consumer_state \<Rightarrow> nat \<times> consumer_state \<Rightarrow> bool" for parse msgs where
  pa_commit: "i < length msgs \<Longrightarrow> eachMessage parse now (msgs ! i) cs = Inr (r, cs') \<Longrightarrow> partition_step parse msgs (i, cs) (i + 1, cs')"
| pa_crash: "i < length msgs \<Longrightarrow> eachMessage parse now (msgs ! i) cs = Inr (r, cs') \<Longrightarrow> partition_step parse msgs (i, cs) (i, cs')"
| pa_throw: "i < length msgs \<Longrightarrow> eachMessage parse now (msgs ! i) cs = Inl err \<Longrightarrow> partition_step parse msgs (i, cs) (i, cs)"

definition accounted :: "('v \<Rightarrow> message result option) \<Rightarrow> consumer_state \<Rightarrow> 'v \<Rightarrow> bool" where
  "accounted parse cs v \<longleftrightarrow> parse v = None \<or> (\<exists>m. parse v = Some (Inr m) \<and> (''analytics'', m_eventId m) \<in> fst ` set (cs_processed cs))"

lemma eachMessage_accounts:
  assumes "eachMessage parse now v cs = Inr (r, cs')"
  shows "accounted parse cs' v" "accounted parse cs u \<Longrightarrow> accounted parse cs' u"
proof -
  have "(accounted parse cs' v) \<and> (accounted parse cs u \<longrightarrow> accounted parse cs' u)" for u
    using assms unfolding eachMessage_def process_def process_txn_def
    by (force simp: accounted_def map_of_eq_None_iff elim!: bind_result_InrE dest!: map_of_SomeD split: option.splits if_splits)
  then show "accounted parse cs' v" "accounted parse cs u \<Longrightarrow> accounted parse cs' u" by blast+
qed

interpretation partition_inv: invariant_system "\<lambda>s. s = (0, empty_consumer)" "partition_step parse msgs"
  "\<lambda>s. fst s \<le> length msgs \<and> (\<forall>j < fst s. accounted parse (snd s) (msgs ! j))" for parse :: "'v \<Rightarrow> message result option" and msgs
proof
  show "fst s' \<le> length msgs \<and> (\<forall>j < fst s'. accounted parse (snd s') (msgs ! j))"
    if "fst s \<le> length msgs \<and> (\<forall>j < fst s. accounted parse (snd s) (msgs ! j))" "partition_step parse msgs s s'" for s s'
    using that(2)
  proof cases
    case (pa_commit i now cs r cs')
    then show ?thesis using that(1) eachMessage_accounts[OF pa_commit(4)] by (auto simp: less_Suc_eq)
  next
    case (pa_crash i now cs r cs')
    then show ?thesis using that(1) eachMessage_accounts[OF pa_crash(4)] by auto
  qed (use that(1) in auto)
qed simp

text \<open>No event is lost or passed over by the consumer: everything before the committed offset was unreadable or is recorded as processed, however often
  the consumer crashed. But a message that is JSON and no event is never passed: the handler throws at every delivery.\<close>

theorem consumer_in_order:
  assumes "reach (\<lambda>s. s = (0, empty_consumer)) (partition_step parse msgs) (i, cs)"
  shows "(\<forall>j < i. accounted parse cs (msgs ! j)) \<and> (\<forall>k err. k < length msgs \<and> parse (msgs ! k) = Some (Inl err) \<longrightarrow> i \<le> k)"
  using partition_inv.reach_inv[OF assms] by (auto simp: accounted_def not_less[symmetric])

text \<open>The process. \<open>shutdown\<close> has no guard and no timer: every signal starts another one, and a rejection in it is handled by nobody.\<close>

datatype consumer_phase = Co_Config | Co_Mongo | Co_Connect | Co_Subscribe | Co_Run | Co_Running | Co_Exited int | Co_Killed

datatype consumer_shutdown = Sh_Consumer | Sh_Mongo

record consumer_main =
  co_phase :: consumer_phase
  co_shutdowns :: "consumer_shutdown list"

definition consumer_begin :: consumer_main where
  "consumer_begin = \<lparr>co_phase = Co_Config, co_shutdowns = []\<rparr>"

fun consumer_boot :: "bool \<Rightarrow> consumer_phase \<Rightarrow> consumer_phase" where
  "consumer_boot False ph = Co_Exited 1"
| "consumer_boot True Co_Config = Co_Mongo"
| "consumer_boot True Co_Mongo = Co_Connect"
| "consumer_boot True Co_Connect = Co_Subscribe"
| "consumer_boot True Co_Subscribe = Co_Run"
| "consumer_boot True Co_Run = Co_Running"
| "consumer_boot True ph = ph"

definition consumer_signal :: "consumer_main \<Rightarrow> consumer_main" where
  "consumer_signal s = (if co_phase s = Co_Running then s\<lparr>co_shutdowns := co_shutdowns s @ [Sh_Consumer]\<rparr> else s\<lparr>co_phase := Co_Killed\<rparr>)"

text \<open>An await of the \<open>n\<close>-th call of \<open>shutdown\<close> settles.\<close>

definition consumer_settle :: "nat \<Rightarrow> bool \<Rightarrow> consumer_main \<Rightarrow> consumer_main" where
  "consumer_settle n ok s =
     (if \<not> ok then s\<lparr>co_phase := Co_Exited 1\<rparr>
      else case co_shutdowns s ! n of Sh_Consumer \<Rightarrow> s\<lparr>co_shutdowns := (co_shutdowns s)[n := Sh_Mongo]\<rparr> | Sh_Mongo \<Rightarrow> s\<lparr>co_phase := Co_Exited 0\<rparr>)"

definition consumer_over :: "consumer_main \<Rightarrow> bool" where
  "consumer_over s \<longleftrightarrow> (case co_phase s of Co_Exited _ \<Rightarrow> True | Co_Killed \<Rightarrow> True | _ \<Rightarrow> False)"

inductive consumer_step :: "consumer_main \<Rightarrow> consumer_main \<Rightarrow> bool" where
  co_boot: "\<not> consumer_over s \<Longrightarrow> co_phase s \<noteq> Co_Running \<Longrightarrow> consumer_step s (s\<lparr>co_phase := consumer_boot ok (co_phase s)\<rparr>)"
| co_signal: "\<not> consumer_over s \<Longrightarrow> consumer_step s (consumer_signal s)"
| co_settle: "co_phase s = Co_Running \<Longrightarrow> n < length (co_shutdowns s) \<Longrightarrow> consumer_step s (consumer_settle n ok s)"

interpretation consumer_process: invariant_system "\<lambda>s. s = consumer_begin" consumer_step
  "\<lambda>s. (co_shutdowns s \<noteq> [] \<longrightarrow> co_phase s = Co_Running \<or> consumer_over s) \<and> (co_phase s = Co_Exited 0 \<longrightarrow> Sh_Mongo \<in> set (co_shutdowns s))"
proof
  show "(co_shutdowns s' \<noteq> [] \<longrightarrow> co_phase s' = Co_Running \<or> consumer_over s') \<and> (co_phase s' = Co_Exited 0 \<longrightarrow> Sh_Mongo \<in> set (co_shutdowns s'))"
    if "(co_shutdowns s \<noteq> [] \<longrightarrow> co_phase s = Co_Running \<or> consumer_over s) \<and> (co_phase s = Co_Exited 0 \<longrightarrow> Sh_Mongo \<in> set (co_shutdowns s))"
      "consumer_step s s'" for s s'
    using that(2)
  proof cases
    case (co_boot ok)
    then show ?thesis using that(1) by (cases ok; cases "co_phase s") (auto simp: consumer_over_def)
  next
    case co_signal
    then show ?thesis using that(1) by (auto simp: consumer_signal_def consumer_over_def split: consumer_phase.splits)
  next
    case (co_settle n ok)
    then show ?thesis using that(1) nth_mem[of n "co_shutdowns s"]
      by (cases "co_shutdowns s ! n") (auto simp: consumer_settle_def consumer_over_def)
  qed
qed (simp add: consumer_begin_def)

text \<open>The consumer exits with 0 only after a signal, when it has left its group, so that the partitions are given to others at once.\<close>

theorem consumer_leaves_group:
  assumes "reach (\<lambda>s. s = consumer_begin) consumer_step s" "co_phase s = Co_Exited 0"
  shows "Sh_Mongo \<in> set (co_shutdowns s)"
  using consumer_process.reach_inv[OF assms(1)] assms(2) by blast

section \<open>Connections\<close>

text \<open>\<open>connect\<close> of the publisher: the outcome of each await, in the order of the code. The result is whether it resolves, and whether the connection of
  the administrator is left open.\<close>

definition kafka_connect :: "bool \<Rightarrow> bool \<Rightarrow> bool \<Rightarrow> bool \<Rightarrow> bool \<times> bool" where
  "kafka_connect adminConnect createTopics adminDisconnect producerConnect =
     (if \<not> adminConnect then (False, False)
      else let left_open = \<not> adminDisconnect in
           if \<not> createTopics \<or> \<not> adminDisconnect then (False, left_open) else (producerConnect, left_open))"

lemma kafka_connect_cleans: "snd (kafka_connect a t d p) \<Longrightarrow> a \<and> \<not> d \<and> \<not> fst (kafka_connect a t d p)"
  by (auto simp: kafka_connect_def Let_def split: if_splits)

text \<open>The delay before a reconnection to Redis, and the two probes.\<close>

definition retryStrategy :: "int \<Rightarrow> int" where
  "retryStrategy attempt = min (attempt * 200) 5000"

lemma retryStrategy_bounds: "1 \<le> n \<Longrightarrow> 200 \<le> retryStrategy n \<and> retryStrategy n \<le> 5000 \<and> retryStrategy n \<le> retryStrategy (n + 1)"
  by (auto simp: retryStrategy_def)

definition pingRedis :: "string result \<Rightarrow> unit result" where
  "pingRedis reply = bind_result reply (\<lambda>r. if r \<noteq> ''PONG'' then Inl (PlainError (''unexpected PING reply: '' @ r)) else Inr ())"

definition pingMongo :: "nat \<Rightarrow> unit result \<Rightarrow> unit result" where
  "pingMongo readyState ping = (if readyState \<noteq> 1 then Inl (PlainError ''mongo not connected'') else ping)"

end
