(* ===== verification/Wf_Vectors.thy ===== *)
theory Wf_Vectors
  imports Complex_Main Wf_Rag Wf_System
begin

text \<open>
  How the processes create their collections in Qdrant (\<open>ensureCollection\<close> and \<open>deleteCollection\<close> of \<open>src/ai/rag/vectorStore.js\<close>),
  each with its own memory of what is ready, and the reference similarity of \<open>src/ai/rag/text.js\<close> over exact real numbers.
\<close>

section \<open>Creating collections\<close>

text \<open>Qdrant: the collections with the size of their vectors and the payload fields that are indexed.\<close>

record collection =
  qc_size :: nat
  qc_indexes :: "string set"

type_synonym collections = "string \<rightharpoonup> collection"

definition create_collection :: "string \<Rightarrow> nat \<Rightarrow> collections \<Rightarrow> collections" where
  "create_collection name dims cs = cs(name \<mapsto> \<lparr>qc_size = dims, qc_indexes = {}\<rparr>)"

definition create_index :: "string \<Rightarrow> string \<Rightarrow> collections \<Rightarrow> collections" where
  "create_index name fld cs = cs(name := map_option (\<lambda>c. c\<lparr>qc_indexes := insert fld (qc_indexes c)\<rparr>) (cs name))"

text \<open>The promises that \<open>ensureCollection\<close> starts, with the await each has come to; \<open>En_Ready\<close> and \<open>En_Failed\<close> are settled.\<close>

datatype ensure_phase = En_Check | En_Create | En_Recheck | En_Owner | En_Document | En_Ready | En_Failed

record ensure_promise =
  ep_proc :: nat
  ep_name :: string
  ep_dims :: nat
  ep_phase :: ensure_phase

text \<open>All processes together: Qdrant, every promise ever started, and the map \<open>ready\<close> of each process, which points to promises.\<close>

record vector_system =
  vs_collections :: collections
  vs_promises :: "ensure_promise list"
  vs_ready :: "nat \<times> string \<rightharpoonup> nat"

definition no_collections :: vector_system where
  "no_collections = \<lparr>vs_collections = Map.empty, vs_promises = [], vs_ready = Map.empty\<rparr>"

text \<open>
  The call that the promise awaits: \<open>eff\<close> says that the request reached Qdrant, \<open>ok\<close> that the response came back. Qdrant refuses to create a
  collection that is there, and to index one that is not.
\<close>

definition ensure_call :: "string \<Rightarrow> nat \<Rightarrow> bool \<Rightarrow> bool \<Rightarrow> ensure_phase \<Rightarrow> collections \<Rightarrow> ensure_phase \<times> collections" where
  "ensure_call name dims eff ok ph cs =
     (case ph of
        En_Check \<Rightarrow> (if \<not> (eff \<and> ok) then En_Failed else if cs name \<noteq> None then En_Ready else En_Create, cs)
      | En_Create \<Rightarrow> (let applied = eff \<and> cs name = None in
          (if applied \<and> ok then En_Owner else En_Recheck, if applied then create_collection name dims cs else cs))
      | En_Recheck \<Rightarrow> (if eff \<and> ok \<and> cs name \<noteq> None then En_Owner else En_Failed, cs)
      | En_Owner \<Rightarrow> (let applied = eff \<and> cs name \<noteq> None in
          (if applied \<and> ok then En_Document else En_Failed, if applied then create_index name ''ownerId'' cs else cs))
      | En_Document \<Rightarrow> (let applied = eff \<and> cs name \<noteq> None in
          (if applied \<and> ok then En_Ready else En_Failed, if applied then create_index name ''documentId'' cs else cs))
      | En_Ready \<Rightarrow> (En_Ready, cs)
      | En_Failed \<Rightarrow> (En_Failed, cs))"

text \<open>\<open>ensureCollection\<close> in process \<open>p\<close>: the promise that the caller then awaits is the one in \<open>ready\<close>, or a new one.\<close>

definition ensureCollection :: "nat \<Rightarrow> string \<Rightarrow> nat \<Rightarrow> vector_system \<Rightarrow> nat \<times> vector_system" where
  "ensureCollection p name dims s =
     (case vs_ready s (p, name) of
        Some i \<Rightarrow> (i, s)
      | None \<Rightarrow>
          (length (vs_promises s),
           s\<lparr>vs_promises := vs_promises s @ [\<lparr>ep_proc = p, ep_name = name, ep_dims = dims, ep_phase = En_Check\<rparr>],
             vs_ready := (vs_ready s)((p, name) \<mapsto> length (vs_promises s))\<rparr>))"

text \<open>A promise goes on after its await; its \<open>catch\<close> removes the name from \<open>ready\<close>.\<close>

definition ensure_resume :: "nat \<Rightarrow> bool \<Rightarrow> bool \<Rightarrow> vector_system \<Rightarrow> vector_system" where
  "ensure_resume i eff ok s =
     (let pr = vs_promises s ! i;
          (ph, cs) = ensure_call (ep_name pr) (ep_dims pr) eff ok (ep_phase pr) (vs_collections s)
      in s\<lparr>vs_collections := cs, vs_promises := (vs_promises s)[i := pr\<lparr>ep_phase := ph\<rparr>],
           vs_ready := if ph = En_Failed then (vs_ready s)((ep_proc pr, ep_name pr) := None) else vs_ready s\<rparr>)"

text \<open>\<open>deleteCollection\<close>: the request, whose failure is ignored, and what the process does after the await.\<close>

definition delete_request :: "string \<Rightarrow> vector_system \<Rightarrow> vector_system" where
  "delete_request name s = s\<lparr>vs_collections := (vs_collections s)(name := None)\<rparr>"

definition delete_return :: "nat \<Rightarrow> string \<Rightarrow> vector_system \<Rightarrow> vector_system" where
  "delete_return p name s = s\<lparr>vs_ready := (vs_ready s)((p, name) := None)\<rparr>"

text \<open>Every process at any time, for any model and dimension; \<open>del\<close> says whether collections are deleted at all.\<close>

inductive vector_step :: "bool \<Rightarrow> string \<Rightarrow> vector_system \<Rightarrow> vector_system \<Rightarrow> bool" for del prefix where
  vs_ensure: "vector_step del prefix s (snd (ensureCollection p (collectionName prefix model dims) dims s))"
| vs_resume: "i < length (vs_promises s) \<Longrightarrow> vector_step del prefix s (ensure_resume i eff ok s)"
| vs_delete: "del \<Longrightarrow> vector_step del prefix s (delete_request (collectionName prefix model dims) s)"
| vs_forget: "del \<Longrightarrow> vector_step del prefix s (delete_return p (collectionName prefix model dims) s)"

text \<open>The size of the vectors can be read off the name.\<close>

lemma underscore_suffix:
  assumes "a @ CHR ''_'' # show_nat m = b @ CHR ''_'' # show_nat n"
  shows "m = n"
proof -
  have d: "CHR ''_'' \<notin> set (show_nat k)" for k using show_nat_digits[of "CHR ''_''" k] by auto
  have "takeWhile (\<lambda>c. c \<noteq> CHR ''_'') (rev (x @ CHR ''_'' # show_nat k)) = rev (show_nat k)" for x k
    using d[of k] by (auto simp: takeWhile_append takeWhile_eq_all_conv)
  from this[of a m] this[of b n] assms show ?thesis by simp
qed

lemma collectionName_dims: "collectionName prefix model dims = collectionName prefix' model' dims' \<Longrightarrow> dims = dims'"
  unfolding collectionName_def using underscore_suffix by (metis append.assoc append_Cons append_Nil)

text \<open>The invariant: names carry their sizes, and \<open>ready\<close> points to promises of that process that have not failed.\<close>

definition sized :: "string \<Rightarrow> vector_system \<Rightarrow> bool" where
  "sized prefix s \<longleftrightarrow>
     (\<forall>name c. vs_collections s name = Some c \<longrightarrow> (\<exists>model. name = collectionName prefix model (qc_size c)))
     \<and> (\<forall>pr \<in> set (vs_promises s). \<exists>model. ep_name pr = collectionName prefix model (ep_dims pr))"

definition ready_ok :: "vector_system \<Rightarrow> bool" where
  "ready_ok s \<longleftrightarrow> (\<forall>p name i. vs_ready s (p, name) = Some i \<longrightarrow> i < length (vs_promises s)
     \<and> ep_proc (vs_promises s ! i) = p \<and> ep_name (vs_promises s ! i) = name \<and> ep_phase (vs_promises s ! i) \<noteq> En_Failed)"

definition settled_exist :: "vector_system \<Rightarrow> bool" where
  "settled_exist s \<longleftrightarrow> (\<forall>pr \<in> set (vs_promises s). ep_phase pr \<in> {En_Owner, En_Document, En_Ready} \<longrightarrow> vs_collections s (ep_name pr) \<noteq> None)"

lemma ensure_call_sizes:
  assumes "snd (ensure_call name dims eff ok ph cs) n = Some c"
  shows "(\<exists>c'. cs n = Some c' \<and> qc_size c' = qc_size c) \<or> n = name \<and> qc_size c = dims"
  using assms
  by (cases ph) (auto simp: ensure_call_def create_collection_def create_index_def Let_def split: if_splits)

lemma ensure_call_keeps: "cs n \<noteq> None \<Longrightarrow> snd (ensure_call name dims eff ok ph cs) n \<noteq> None"
  by (cases ph) (auto simp: ensure_call_def create_collection_def create_index_def Let_def)

lemma ensure_call_exists:
  assumes "fst (ensure_call name dims eff ok ph cs) \<in> {En_Owner, En_Document, En_Ready}" "ph = En_Ready \<Longrightarrow> cs name \<noteq> None"
  shows "snd (ensure_call name dims eff ok ph cs) name \<noteq> None"
  using assms
  by (cases ph) (auto simp: ensure_call_def create_collection_def create_index_def Let_def split: if_splits)

lemma sized_step:
  assumes "vector_step del prefix s s'" "sized prefix s"
  shows "sized prefix s'"
  using assms
proof (cases rule: vector_step.cases)
  case (vs_resume i eff ok)
  let ?pr = "vs_promises s ! i"
  have "?pr \<in> set (vs_promises s)" using vs_resume by simp
  then obtain model where m: "ep_name ?pr = collectionName prefix model (ep_dims ?pr)" using assms(2) by (auto simp: sized_def)
  show ?thesis unfolding sized_def
  proof (intro conjI allI impI ballI)
    fix name c assume "vs_collections s' name = Some c"
    then have "snd (ensure_call (ep_name ?pr) (ep_dims ?pr) eff ok (ep_phase ?pr) (vs_collections s)) name = Some c"
      using vs_resume by (simp add: ensure_resume_def Let_def case_prod_unfold)
    from ensure_call_sizes[OF this] show "\<exists>model. name = collectionName prefix model (qc_size c)"
      using assms(2) m unfolding sized_def by metis
  next
    fix pr assume "pr \<in> set (vs_promises s')"
    then have "pr \<in> set (vs_promises s) \<or> ep_name pr = ep_name ?pr \<and> ep_dims pr = ep_dims ?pr"
      using vs_resume by (auto simp: ensure_resume_def Let_def case_prod_unfold dest!: set_mp[OF set_update_subset_insert])
    then show "\<exists>model. ep_name pr = collectionName prefix model (ep_dims pr)" using assms(2) m unfolding sized_def by metis
  qed
qed (auto simp: sized_def ensureCollection_def delete_request_def delete_return_def split: option.splits if_splits)

lemma ready_step:
  assumes "vector_step del prefix s s'" "ready_ok s"
  shows "ready_ok s'"
  using assms
proof (cases rule: vector_step.cases)
  case (vs_resume i eff ok)
  then show ?thesis using assms(2)
    by (auto simp: ready_ok_def ensure_resume_def Let_def case_prod_unfold nth_list_update split: if_splits)
qed (auto simp: ready_ok_def ensureCollection_def delete_request_def delete_return_def nth_append less_Suc_eq split: option.splits if_splits)

lemma exist_step:
  assumes "vector_step False prefix s s'" "settled_exist s"
  shows "settled_exist s'"
  using assms
proof (cases rule: vector_step.cases)
  case (vs_resume i eff ok)
  let ?pr = "vs_promises s ! i"
  let ?r = "ensure_call (ep_name ?pr) (ep_dims ?pr) eff ok (ep_phase ?pr) (vs_collections s)"
  have s': "vs_collections s' = snd ?r" "vs_promises s' = (vs_promises s)[i := ?pr\<lparr>ep_phase := fst ?r\<rparr>]"
    using vs_resume by (simp_all add: ensure_resume_def Let_def case_prod_unfold)
  show ?thesis unfolding settled_exist_def
  proof (intro ballI impI)
    fix pr assume pr: "pr \<in> set (vs_promises s')" "ep_phase pr \<in> {En_Owner, En_Document, En_Ready}"
    have "pr = ?pr\<lparr>ep_phase := fst ?r\<rparr> \<or> pr \<in> set (vs_promises s)"
      using pr(1) s'(2) set_update_subset_insert[of "vs_promises s" i] by auto
    then show "vs_collections s' (ep_name pr) \<noteq> None"
    proof
      assume e: "pr = ?pr\<lparr>ep_phase := fst ?r\<rparr>"
      then have "fst ?r \<in> {En_Owner, En_Document, En_Ready}" using pr(2) by simp
      moreover have "ep_phase ?pr = En_Ready \<Longrightarrow> vs_collections s (ep_name ?pr) \<noteq> None"
        using assms(2) vs_resume by (auto simp: settled_exist_def)
      ultimately show ?thesis using ensure_call_exists e s'(1) by simp
    next
      assume "pr \<in> set (vs_promises s)"
      then show ?thesis using assms(2) pr(2) ensure_call_keeps s'(1) by (auto simp: settled_exist_def)
    qed
  qed
qed (auto simp: settled_exist_def ensureCollection_def split: option.splits)

interpretation vectors: invariant_system "\<lambda>s. s = no_collections" "vector_step del prefix" "\<lambda>s. sized prefix s \<and> ready_ok s" for del prefix
  by unfold_locales (simp add: no_collections_def sized_def ready_ok_def, blast intro: sized_step ready_step)

interpretation vectors_kept: invariant_system "\<lambda>s. s = no_collections" "vector_step False prefix" settled_exist for prefix
  by unfold_locales (simp add: no_collections_def settled_exist_def, rule exist_step)

text \<open>Vectors of different dimensions never meet in a collection.\<close>

theorem collection_size:
  assumes "reach (\<lambda>s. s = no_collections) (vector_step del prefix) s" "vs_collections s (collectionName prefix model dims) = Some c"
  shows "qc_size c = dims"
  using vectors.reach_inv[OF assms(1)] assms(2) collectionName_dims unfolding sized_def by metis

text \<open>A caller awaits a promise of its own process for its own collection, and never one that has already failed: a failure is tried again.\<close>

theorem ensure_awaits:
  assumes "reach (\<lambda>s. s = no_collections) (vector_step del prefix) s" "ensureCollection p name dims s = (i, s')"
  shows "i < length (vs_promises s') \<and> ep_proc (vs_promises s' ! i) = p \<and> ep_name (vs_promises s' ! i) = name \<and> ep_phase (vs_promises s' ! i) \<noteq> En_Failed"
  using vectors.reach_inv[OF assms(1)] assms(2) by (auto simp: ready_ok_def ensureCollection_def split: option.splits)

text \<open>As long as nobody deletes collections, what a process takes to be ready is there, with vectors of the right size.\<close>

theorem ready_collection:
  assumes "reach (\<lambda>s. s = no_collections) (vector_step False prefix) s" "pr \<in> set (vs_promises s)" "ep_phase pr = En_Ready"
  shows "\<exists>c. vs_collections s (ep_name pr) = Some c \<and> qc_size c = ep_dims pr"
proof -
  obtain c where c: "vs_collections s (ep_name pr) = Some c"
    using vectors_kept.reach_inv[OF assms(1)] assms(2,3) by (auto simp: settled_exist_def)
  obtain model where "ep_name pr = collectionName prefix model (ep_dims pr)"
    using vectors.reach_inv[OF assms(1)] assms(2) by (auto simp: sized_def)
  then show ?thesis using c collection_size[OF assms(1)] by metis
qed

text \<open>An undisturbed call of the first process creates the collection with both indexes.\<close>

definition ensure_alone :: "string \<Rightarrow> nat \<Rightarrow> nat \<Rightarrow> vector_system" where
  "ensure_alone name dims n = (ensure_resume 0 True True ^^ n) (snd (ensureCollection 0 name dims no_collections))"

theorem ensure_alone_ready:
  "ensure_alone name dims 4 =
     \<lparr>vs_collections = [name \<mapsto> \<lparr>qc_size = dims, qc_indexes = {''ownerId'', ''documentId''}\<rparr>],
      vs_promises = [\<lparr>ep_proc = 0, ep_name = name, ep_dims = dims, ep_phase = En_Ready\<rparr>], vs_ready = [(0, name) \<mapsto> 0]\<rparr>"
  by (auto simp: ensure_alone_def numeral_eq_Suc no_collections_def ensureCollection_def ensure_resume_def ensure_call_def
      create_collection_def create_index_def Let_def)

text \<open>
  But when the call that creates the first index fails, the next attempt finds the collection and stops there: every promise is settled,
  the process works with the collection, and \<open>ownerId\<close> is not indexed.
\<close>

definition index_lost :: "string \<Rightarrow> nat \<Rightarrow> vector_system" where
  "index_lost name dims =
     ensure_resume 1 True True (snd (ensureCollection 0 name dims (ensure_resume 0 False False (ensure_alone name dims 2))))"

lemma index_lost_state:
  "index_lost name dims =
     \<lparr>vs_collections = [name \<mapsto> \<lparr>qc_size = dims, qc_indexes = {}\<rparr>],
      vs_promises = [\<lparr>ep_proc = 0, ep_name = name, ep_dims = dims, ep_phase = En_Failed\<rparr>,
                     \<lparr>ep_proc = 0, ep_name = name, ep_dims = dims, ep_phase = En_Ready\<rparr>], vs_ready = [(0, name) \<mapsto> 1]\<rparr>"
  by (auto simp: index_lost_def ensure_alone_def numeral_eq_Suc no_collections_def ensureCollection_def ensure_resume_def ensure_call_def
      create_collection_def Let_def)

lemma ensure_alone_reach:
  "reach (\<lambda>s. s = no_collections) (vector_step del prefix) (ensure_alone (collectionName prefix model dims) dims n)
   \<and> length (vs_promises (ensure_alone (collectionName prefix model dims) dims n)) = 1"
proof (induction n)
  case 0
  show ?case using vs_ensure[of del prefix no_collections 0 model dims]
    by (auto simp: ensure_alone_def ensureCollection_def no_collections_def intro: reach_init reach_step)
next
  case (Suc n)
  let ?s = "ensure_alone (collectionName prefix model dims) dims n"
  have "vector_step del prefix ?s (ensure_resume 0 True True ?s)" using Suc by (intro vs_resume) simp
  moreover have "length (vs_promises (ensure_resume 0 True True ?s)) = 1" using Suc by (simp add: ensure_resume_def Let_def case_prod_unfold)
  ultimately show ?case using Suc by (auto simp: ensure_alone_def intro: reach_step)
qed

theorem index_never_created:
  "reach (\<lambda>s. s = no_collections) (vector_step False prefix) (index_lost (collectionName prefix model dims) dims)
   \<and> vs_collections (index_lost (collectionName prefix model dims) dims) (collectionName prefix model dims) = Some \<lparr>qc_size = dims, qc_indexes = {}\<rparr>
   \<and> list_all (\<lambda>pr. ep_phase pr \<in> {En_Ready, En_Failed}) (vs_promises (index_lost (collectionName prefix model dims) dims))
   \<and> vs_ready (index_lost (collectionName prefix model dims) dims) (0, collectionName prefix model dims) = Some 1"
proof -
  let ?n = "collectionName prefix model dims"
  let ?r = "reach (\<lambda>s. s = no_collections) (vector_step False prefix)"
  let ?a = "ensure_resume 0 False False (ensure_alone ?n dims 2)"
  let ?b = "snd (ensureCollection 0 ?n dims ?a)"
  have 1: "?r ?a" by (rule reach_step[OF conjunct1[OF ensure_alone_reach[of False prefix model dims 2]] vs_resume]) (simp add: ensure_alone_reach)
  have 2: "?r ?b" by (rule reach_step[OF 1 vs_ensure])
  have "length (vs_promises ?b) = 2"
    by (simp add: ensure_alone_def numeral_eq_Suc no_collections_def ensureCollection_def ensure_resume_def ensure_call_def Let_def)
  then have "?r (index_lost ?n dims)" unfolding index_lost_def by (intro reach_step[OF 2 vs_resume]) simp
  then show ?thesis by (simp add: index_lost_state)
qed

text \<open>Models whose names differ in their separators only share a collection.\<close>

theorem models_share_collection: "collectionName prefix ''embed-3'' dims = collectionName prefix ''embed.3'' dims"
  by (simp add: collectionName_def char_in_def)

section \<open>Cosine similarity\<close>

text \<open>The loop accumulates \<open>dot\<close>, \<open>na\<close> and \<open>nb\<close>. Numbers are real here, without rounding.\<close>

fun cosine_loop :: "real list \<Rightarrow> real list \<Rightarrow> real \<times> real \<times> real \<Rightarrow> real \<times> real \<times> real" where
  "cosine_loop (x # a) (y # b) (dot, na, nb) = cosine_loop a b (dot + x * y, na + x * x, nb + y * y)"
| "cosine_loop _ _ acc = acc"

definition cosineSimilarity :: "real list \<Rightarrow> real list \<Rightarrow> (js_error, real) sum" where
  "cosineSimilarity a b =
     (if length a \<noteq> length b
      then Inl \<lparr>je_name = ''Error'', je_message = ''vectors must have the same dimension'', je_retryable = None, je_non_retryable = False\<rparr>
      else (case cosine_loop a b (0, 0, 0) of (dot, na, nb) \<Rightarrow> Inr (if na \<noteq> 0 \<and> nb \<noteq> 0 then dot / (sqrt na * sqrt nb) else 0)))"

abbreviation inner :: "real list \<Rightarrow> real list \<Rightarrow> real" where
  "inner a b \<equiv> (\<Sum>(x, y) \<leftarrow> zip a b. x * y)"

lemma cosine_loop_sums:
  "length a = length b \<Longrightarrow> cosine_loop a b (d, na, nb) = (d + inner a b, na + inner a a, nb + inner b b)"
  by (induction a b arbitrary: d na nb rule: list_induct2) auto

lemma inner_nonneg: "0 \<le> inner a a"
  by (induction a) auto

lemma cauchy_schwarz_2: "(u * v + p * q)\<^sup>2 \<le> (u\<^sup>2 + p\<^sup>2) * (v\<^sup>2 + q\<^sup>2)" for u v p q :: real
  using zero_le_power2[of "u * q - p * v"] by (simp add: power2_eq_square algebra_simps)

lemma cauchy_schwarz: "length a = length b \<Longrightarrow> \<bar>inner a b\<bar> \<le> sqrt (inner a a) * sqrt (inner b b)"
proof (induction a b rule: list_induct2)
  case (Cons x a y b)
  let ?p = "sqrt (inner a a)" and ?q = "sqrt (inner b b)"
  have sq: "?p\<^sup>2 = inner a a" "?q\<^sup>2 = inner b b" by (simp_all add: inner_nonneg)
  have "\<bar>x * y + inner a b\<bar> \<le> \<bar>x\<bar> * \<bar>y\<bar> + ?p * ?q" using Cons abs_triangle_ineq[of "x * y" "inner a b"] by (simp add: abs_mult)
  also have "\<dots> \<le> sqrt ((\<bar>x\<bar>\<^sup>2 + ?p\<^sup>2) * (\<bar>y\<bar>\<^sup>2 + ?q\<^sup>2))"
    by (rule real_le_rsqrt) (rule cauchy_schwarz_2)
  also have "\<dots> = sqrt (x * x + inner a a) * sqrt (y * y + inner b b)" unfolding sq by (simp add: real_sqrt_mult power2_eq_square)
  finally show ?case by simp
qed simp

text \<open>The similarity is a number from \<open>-1\<close> to \<open>1\<close> exactly when the dimensions agree.\<close>

theorem cosine_range:
  "if length a = length b then \<exists>c. cosineSimilarity a b = Inr c \<and> -1 \<le> c \<and> c \<le> 1 else \<exists>e. cosineSimilarity a b = Inl e"
proof (cases "length a = length b \<and> inner a a \<noteq> 0 \<and> inner b b \<noteq> 0")
  case True
  then have "0 < sqrt (inner a a) * sqrt (inner b b)" using inner_nonneg[of a] inner_nonneg[of b] by (simp add: zero_less_mult_iff)
  then have "\<bar>inner a b / (sqrt (inner a a) * sqrt (inner b b))\<bar> \<le> 1" using cauchy_schwarz True by (simp add: abs_divide divide_le_eq)
  from abs_le_D1[OF this] abs_le_D2[OF this] show ?thesis using True by (simp add: cosineSimilarity_def cosine_loop_sums)
qed (auto simp: cosineSimilarity_def cosine_loop_sums)

text \<open>It ignores the lengths of the vectors, as the comment says, and every direction is most similar to itself.\<close>

lemma inner_scale: "inner (map ((*) k) a) b = k * inner a b" "inner a (map ((*) k) b) = k * inner a b"
  by (induction a b rule: list_induct2', auto simp: algebra_simps)

theorem cosine_scale:
  assumes "0 < k"
  shows "cosineSimilarity (map ((*) k) a) b = cosineSimilarity a b"
proof (cases "length a = length b")
  case True
  have "sqrt (k * (k * inner a a)) = k * sqrt (inner a a)" using assms by (simp add: real_sqrt_mult mult.assoc[symmetric])
  then show ?thesis using True assms by (simp add: cosineSimilarity_def cosine_loop_sums inner_scale mult.assoc)
qed (simp add: cosineSimilarity_def)

theorem cosine_self: "inner a a \<noteq> 0 \<Longrightarrow> cosineSimilarity a a = Inr 1"
  using inner_nonneg[of a] by (simp add: cosineSimilarity_def cosine_loop_sums real_sqrt_mult_self)

end
