(* ===== verification/Wf_Scripts.thy ===== *)
theory Wf_Scripts
  imports Wf_Api
begin

text \<open>
  The scripts for operators that have logic of their own: \<open>scripts/check-secrets.js\<close>, which searches the tracked files for things that look
  like secrets, with its regular expressions run by derivatives, and \<open>scripts/create-admin.js\<close>.
\<close>

section \<open>Regular expressions\<close>

text \<open>The constructs that the patterns use; a pattern without assertions and back references matches a text when some part of it is a word of the pattern.\<close>

datatype re = RNone | REmpty | RCls "char \<Rightarrow> bool" | RSeq re re | RAlt re re | RStar re

inductive in_re :: "re \<Rightarrow> string \<Rightarrow> bool" where
  in_empty: "in_re REmpty []"
| in_cls: "P c \<Longrightarrow> in_re (RCls P) [c]"
| in_seq: "in_re r u \<Longrightarrow> in_re s v \<Longrightarrow> in_re (RSeq r s) (u @ v)"
| in_left: "in_re r u \<Longrightarrow> in_re (RAlt r s) u"
| in_right: "in_re s u \<Longrightarrow> in_re (RAlt r s) u"
| in_stop: "in_re (RStar r) []"
| in_again: "in_re r u \<Longrightarrow> in_re (RStar r) v \<Longrightarrow> in_re (RStar r) (u @ v)"

inductive_simps in_re_simps: "in_re RNone w" "in_re REmpty w" "in_re (RCls P) w" "in_re (RSeq r s) w" "in_re (RAlt r s) w"

definition re_lit :: "string \<Rightarrow> re" where
  "re_lit s = foldr (\<lambda>c r. RSeq (RCls (\<lambda>d. d = c)) r) s REmpty"

definition re_opt :: "re \<Rightarrow> re" where
  "re_opt r = RAlt r REmpty"

primrec re_times :: "nat \<Rightarrow> re \<Rightarrow> re \<Rightarrow> re" where
  "re_times 0 r s = s"
| "re_times (Suc n) r s = RSeq r (re_times n r s)"

text \<open>\<open>[..]{n,}\<close> and \<open>[..]{n}\<close>\<close>

definition re_least :: "nat \<Rightarrow> (char \<Rightarrow> bool) \<Rightarrow> re" where
  "re_least n P = re_times n (RCls P) (RStar (RCls P))"

definition re_exactly :: "nat \<Rightarrow> (char \<Rightarrow> bool) \<Rightarrow> re" where
  "re_exactly n P = re_times n (RCls P) REmpty"

lemma in_star_cls: "in_re (RStar (RCls P)) w \<longleftrightarrow> list_all P w"
proof
  have "in_re r w \<Longrightarrow> r = RStar (RCls P) \<Longrightarrow> list_all P w" for r
    by (induction rule: in_re.induct) (auto simp: in_re_simps)
  then show "in_re (RStar (RCls P)) w \<Longrightarrow> list_all P w" by simp
next
  show "list_all P w \<Longrightarrow> in_re (RStar (RCls P)) w"
  proof (induction w)
    case (Cons c w)
    then show ?case using in_again[OF in_cls[of P c], of w] by simp
  qed (rule in_stop)
qed

lemma in_cls_seq: "in_re (RSeq (RCls P) s) w \<longleftrightarrow> (\<exists>c v. w = c # v \<and> P c \<and> in_re s v)"
  by (auto simp: in_re_simps) (metis append_Cons append_Nil)

lemma in_times_cls: "in_re (re_times n (RCls P) r) w \<longleftrightarrow> (\<exists>u v. w = u @ v \<and> length u = n \<and> list_all P u \<and> in_re r v)"
proof (induction n arbitrary: w)
  case (Suc n)
  have "in_re (re_times (Suc n) (RCls P) r) w \<longleftrightarrow> (\<exists>c w'. w = c # w' \<and> P c \<and> in_re (re_times n (RCls P) r) w')"
    by (simp add: in_cls_seq)
  also have "\<dots> \<longleftrightarrow> (\<exists>u v. w = u @ v \<and> length u = Suc n \<and> list_all P u \<and> in_re r v)"
    unfolding Suc by (auto simp: length_Suc_conv) (metis append_Cons list.pred_inject(2), blast)
  finally show ?case .
qed simp

lemma in_lit [simp]: "in_re (re_lit s) w \<longleftrightarrow> w = s"
  by (induction s arbitrary: w) (auto simp: re_lit_def in_re_simps)

lemma in_opt [simp]: "in_re (re_opt r) w \<longleftrightarrow> in_re r w \<or> w = []"
  by (simp add: re_opt_def in_re_simps)

lemma in_exactly [simp]: "in_re (re_exactly n P) w \<longleftrightarrow> length w = n \<and> list_all P w"
  by (auto simp: re_exactly_def in_times_cls in_re_simps)

lemma in_least [simp]: "in_re (re_least n P) w \<longleftrightarrow> n \<le> length w \<and> list_all P w"
proof
  assume "n \<le> length w \<and> list_all P w"
  then have "w = take n w @ drop n w \<and> length (take n w) = n \<and> list_all P (take n w) \<and> list_all P (drop n w)"
    by (auto simp: list_all_iff dest: in_set_takeD in_set_dropD)
  then show "in_re (re_least n P) w" unfolding re_least_def in_times_cls in_star_cls by blast
qed (auto simp: re_least_def in_times_cls in_star_cls)

section \<open>The matcher\<close>

primrec nullable :: "re \<Rightarrow> bool" where
  "nullable RNone = False"
| "nullable REmpty = True"
| "nullable (RCls P) = False"
| "nullable (RSeq r s) = (nullable r \<and> nullable s)"
| "nullable (RAlt r s) = (nullable r \<or> nullable s)"
| "nullable (RStar r) = True"

primrec deriv :: "char \<Rightarrow> re \<Rightarrow> re" where
  "deriv c RNone = RNone"
| "deriv c REmpty = RNone"
| "deriv c (RCls P) = (if P c then REmpty else RNone)"
| "deriv c (RSeq r s) = (if nullable r then RAlt (RSeq (deriv c r) s) (deriv c s) else RSeq (deriv c r) s)"
| "deriv c (RAlt r s) = RAlt (deriv c r) (deriv c s)"
| "deriv c (RStar r) = RSeq (deriv c r) (RStar r)"

text \<open>A whole text, a beginning of it, and \<open>re.test(text)\<close>.\<close>

definition re_full :: "re \<Rightarrow> string \<Rightarrow> bool" where
  "re_full r s = nullable (fold deriv s r)"

primrec re_begins :: "string \<Rightarrow> re \<Rightarrow> bool" where
  "re_begins [] r = nullable r"
| "re_begins (c # cs) r = (nullable r \<or> re_begins cs (deriv c r))"

primrec re_test :: "re \<Rightarrow> string \<Rightarrow> bool" where
  "re_test r [] = re_begins [] r"
| "re_test r (c # cs) = (re_begins (c # cs) r \<or> re_test r cs)"

lemma nullable_iff: "nullable r \<longleftrightarrow> in_re r []"
  by (induction r) (auto simp: in_re_simps intro: in_stop)

lemma in_star_Cons: "in_re (RStar r) (c # w) \<longleftrightarrow> (\<exists>u v. w = u @ v \<and> in_re r (c # u) \<and> in_re (RStar r) v)"
proof
  have "in_re x y \<Longrightarrow> x = RStar r \<Longrightarrow> y = c # w \<Longrightarrow> \<exists>u v. w = u @ v \<and> in_re r (c # u) \<and> in_re (RStar r) v" for x y
    by (induction arbitrary: w rule: in_re.induct) (auto simp: append_eq_Cons_conv)
  then show "in_re (RStar r) (c # w) \<Longrightarrow> \<exists>u v. w = u @ v \<and> in_re r (c # u) \<and> in_re (RStar r) v" by blast
qed (metis append_Cons in_again)

lemma in_deriv: "in_re (deriv c r) w \<longleftrightarrow> in_re r (c # w)"
proof (induction r arbitrary: w)
  case (RSeq r s)
  have "in_re (RSeq r s) (c # w) \<longleftrightarrow> (in_re r [] \<and> in_re s (c # w)) \<or> (\<exists>u v. w = u @ v \<and> in_re r (c # u) \<and> in_re s v)"
    by (auto simp: in_re_simps Cons_eq_append_conv)
  then show ?case using RSeq by (auto simp: in_re_simps nullable_iff)
qed (auto simp: in_re_simps in_star_Cons)

lemma re_full_iff: "re_full r w \<longleftrightarrow> in_re r w"
  by (induction w arbitrary: r) (auto simp: re_full_def nullable_iff in_deriv)

lemma re_begins_iff: "re_begins w r \<longleftrightarrow> (\<exists>u v. w = u @ v \<and> in_re r u)"
proof (induction w arbitrary: r)
  case (Cons c w)
  then show ?case by (auto simp: nullable_iff in_deriv Cons_eq_append_conv)
qed (auto simp: nullable_iff)

theorem re_test_iff: "re_test r w \<longleftrightarrow> (\<exists>l m x. w = l @ m @ x \<and> in_re r m)"
proof (induction w)
  case (Cons c w)
  have "(\<exists>l m x. c # w = l @ m @ x \<and> in_re r m) \<longleftrightarrow> (\<exists>m x. c # w = m @ x \<and> in_re r m) \<or> (\<exists>l m x. w = l @ m @ x \<and> in_re r m)"
    by (auto simp: Cons_eq_append_conv) metis+
  then show ?case using Cons re_begins_iff[of "c # w" r] by simp
qed (auto simp: nullable_iff)

section \<open>\<open>scripts/check-secrets.js\<close>\<close>

abbreviation DIGITS :: "nat \<times> nat" where "DIGITS \<equiv> (48, 57)"
abbreviation UPPERS :: "nat \<times> nat" where "UPPERS \<equiv> (65, 90)"
abbreviation LOWERS :: "nat \<times> nat" where "LOWERS \<equiv> (97, 122)"

definition PATTERNS :: "(re \<times> string) list" where
  "PATTERNS =
     [(RSeq (re_lit ''sk-'') (re_least 20 (char_in [UPPERS, LOWERS, DIGITS] ''_-'')), ''OpenAI-style API key''),
      (RSeq (re_lit ''AKIA'') (re_exactly 16 (char_in [DIGITS, UPPERS] [])), ''AWS access key id''),
      (RSeq (re_lit ''-----BEGIN '') (RSeq (re_opt (RAlt (re_lit ''RSA '') (RAlt (re_lit ''EC '') (re_lit ''OPENSSH ''))))
         (re_lit ''PRIVATE KEY-----'')), ''private key''),
      (RSeq (re_lit ''ghp_'') (re_exactly 36 (char_in [UPPERS, LOWERS, DIGITS] [])), ''GitHub token''),
      (RSeq (re_lit ''xox'') (RSeq (re_exactly 1 (char_in [] ''baprs'')) (RSeq (re_lit ''-'')
         (re_least 10 (char_in [UPPERS, LOWERS, DIGITS] ''-'')))), ''Slack token''),
      (RSeq (re_lit ''mongodb'') (RSeq (re_opt (re_lit ''+srv'')) (RSeq (re_lit ''://'')
         (RSeq (re_least 1 (\<lambda>c. \<not> is_space c \<and> c \<notin> set '':@/'')) (RSeq (re_lit '':'')
         (RSeq (re_least 1 (\<lambda>c. \<not> is_space c \<and> c \<notin> set ''@/'')) (re_lit ''@'')))))), ''MongoDB URI with credentials'')]"

text \<open>\<open>split("\n")\<close>\<close>

fun split_lines :: "string \<Rightarrow> string list" where
  "split_lines [] = [[]]"
| "split_lines (c # cs) = (if c = CHR 0x0A then [] # split_lines cs else (case split_lines cs of l # ls \<Rightarrow> (c # l) # ls | [] \<Rightarrow> [[c]]))"

text \<open>A line of \<open>.env\<close>: the groups 1 and 3 of the pattern. No name has an equals sign, so the first one ends it.\<close>

definition name_char :: "char \<Rightarrow> bool" where
  "name_char = char_in [UPPERS, DIGITS] ''_''"

definition secret_name :: re where
  "secret_name = RSeq (re_least 0 name_char)
     (RSeq (RAlt (re_lit ''SECRET'') (RAlt (re_lit ''KEY'') (RAlt (re_lit ''TOKEN'') (re_lit ''PASSWORD'')))) (re_least 0 name_char))"

definition any_char :: "char \<Rightarrow> bool" where
  "any_char c \<longleftrightarrow> c \<notin> {CHR 0x0A, CHR 0x0D}"

definition env_secret :: "string \<Rightarrow> (string \<times> string) option" where
  "env_secret line =
     (case dropWhile (\<lambda>c. c \<noteq> CHR ''='') line of
        [] \<Rightarrow> None
      | _ # x \<Rightarrow> let name = takeWhile (\<lambda>c. c \<noteq> CHR ''='') line in
          if re_full secret_name name \<and> re_full (re_least 12 any_char) x then Some (name, x) else None)"

definition local_secrets :: "string option \<Rightarrow> (string \<times> string) list" where
  "local_secrets dotenv = (case dotenv of None \<Rightarrow> [] | Some s \<Rightarrow> List.map_filter (\<lambda>line. env_secret (trim line)) (split_lines s))"

text \<open>\<open>read\<close> is the working tree: the text of a file, if it exists. \<open>listed\<close> is what git prints, line by line.\<close>

definition ends_with :: "string \<Rightarrow> string \<Rightarrow> bool" where
  "ends_with p s = starts_with (rev p) (rev s)"

definition scanned_files :: "(string \<Rightarrow> string option) \<Rightarrow> string list \<Rightarrow> string list" where
  "scanned_files read listed =
     uniq (filter (\<lambda>f. f \<noteq> [] \<and> read f \<noteq> None \<and> \<not> ends_with ''package-lock.json'' f \<and> f \<noteq> ''scripts/check-secrets.js'') listed)"

definition file_findings :: "(string \<times> string) list \<Rightarrow> string \<Rightarrow> string \<Rightarrow> string list" where
  "file_findings secrets f s =
     map (\<lambda>(re, what). f @ '': '' @ what) (filter (\<lambda>(re, what). re_test re s) PATTERNS)
     @ map (\<lambda>(name, x). f @ '': value of '' @ name @ '' from .env'') (filter (\<lambda>(name, x). includes_str x s) secrets)"

definition check_secrets :: "(string \<Rightarrow> string option) \<Rightarrow> string list \<Rightarrow> string list" where
  "check_secrets read listed =
     concat (map (\<lambda>f. file_findings (local_secrets (read ''.env'')) f (the (read f))) (scanned_files read listed))"

definition exit_code :: "string list \<Rightarrow> nat" where
  "exit_code findings = (if findings = [] then 0 else 1)"

lemma secret_name_chars: "in_re secret_name n \<Longrightarrow> CHR ''='' \<notin> set n"
proof -
  have e: "\<not> name_char (CHR ''='')" by (simp add: name_char_def char_in_def)
  then have "CHR ''='' \<notin> set w" if "list_all name_char w" for w using that by (auto simp: list_all_iff)
  then show "in_re secret_name n \<Longrightarrow> CHR ''='' \<notin> set n" by (auto simp: secret_name_def in_re_simps)
qed

text \<open>The groups are those of the only way to match the pattern.\<close>

theorem env_secret_iff:
  "env_secret line = Some (name, x) \<longleftrightarrow> line = name @ CHR ''='' # x \<and> in_re secret_name name \<and> in_re (re_least 12 any_char) x"
proof
  assume a: "env_secret line = Some (name, x)"
  then obtain c where c: "dropWhile (\<lambda>c. c \<noteq> CHR ''='') line = c # x" and n: "name = takeWhile (\<lambda>c. c \<noteq> CHR ''='') line"
      "in_re secret_name name" "in_re (re_least 12 any_char) x"
    by (auto simp: env_secret_def Let_def re_full_iff split: list.splits if_splits)
  have "c = CHR ''=''" using c hd_dropWhile[of "\<lambda>c. c \<noteq> CHR ''=''" line] by simp
  then show "line = name @ CHR ''='' # x \<and> in_re secret_name name \<and> in_re (re_least 12 any_char) x"
    using c n takeWhile_dropWhile_id[of "\<lambda>c. c \<noteq> CHR ''=''" line] by simp
next
  assume a: "line = name @ CHR ''='' # x \<and> in_re secret_name name \<and> in_re (re_least 12 any_char) x"
  then have "dropWhile (\<lambda>c. c \<noteq> CHR ''='') line = CHR ''='' # x" "takeWhile (\<lambda>c. c \<noteq> CHR ''='') line = name"
    using secret_name_chars[of name] by (auto simp: dropWhile_append takeWhile_append)
  then show "env_secret line = Some (name, x)" using a by (simp add: env_secret_def re_full_iff)
qed

text \<open>A commit passes exactly when no scanned file has a part that is a word of a pattern, or a value of the local \<open>.env\<close>.\<close>

definition leaks :: "(string \<times> string) list \<Rightarrow> string \<Rightarrow> bool" where
  "leaks secrets s \<longleftrightarrow> (\<exists>(re, what) \<in> set PATTERNS. \<exists>l m x. s = l @ m @ x \<and> in_re re m) \<or> (\<exists>(name, v) \<in> set secrets. \<exists>l x. s = l @ v @ x)"

lemma file_findings_empty: "file_findings secrets f s = [] \<longleftrightarrow> \<not> leaks secrets s"
  unfolding file_findings_def leaks_def re_test_iff[symmetric] includes_iff[symmetric] by (auto simp: filter_empty_conv)

theorem check_secrets_passes:
  "exit_code (check_secrets read listed) = 0
   \<longleftrightarrow> \<not> (\<exists>f \<in> set listed. f \<noteq> [] \<and> \<not> ends_with ''package-lock.json'' f \<and> f \<noteq> ''scripts/check-secrets.js''
        \<and> (\<exists>s. read f = Some s \<and> leaks (local_secrets (read ''.env'')) s))"
  by (auto simp: exit_code_def check_secrets_def scanned_files_def file_findings_empty)


text \<open>For instance, a key of the first kind in any file that is looked at stops the commit.\<close>

corollary api_key_found:
  assumes "f \<in> set listed" "f \<noteq> []" "\<not> ends_with ''package-lock.json'' f" "f \<noteq> ''scripts/check-secrets.js''"
    and "read f = Some (l @ ''sk-'' @ k @ x)" "20 \<le> length k" "list_all (char_in [UPPERS, LOWERS, DIGITS] ''_-'') k"
  shows "exit_code (check_secrets read listed) = 1"
proof -
  have "in_re (fst (hd PATTERNS)) (''sk-'' @ k)" using assms(6,7) unfolding PATTERNS_def by (simp add: in_re_simps)
  then have "\<exists>l' m x'. l @ ''sk-'' @ k @ x = l' @ m @ x' \<and> in_re (fst (hd PATTERNS)) m"
    by (intro exI[of _ l] exI[of _ "''sk-'' @ k"] exI[of _ x]) simp
  moreover have "hd PATTERNS \<in> set PATTERNS" by (simp add: PATTERNS_def)
  ultimately have "leaks (local_secrets (read ''.env'')) (l @ ''sk-'' @ k @ x)" unfolding leaks_def
    by (intro disjI1 bexI[of _ "hd PATTERNS"]) (simp_all only: case_prod_unfold)
  then have "exit_code (check_secrets read listed) \<noteq> 0" unfolding check_secrets_passes using assms(1-5) by blast
  then show ?thesis by (simp add: exit_code_def split: if_splits)
qed

text \<open>Values in quotation marks are kept with their quotation marks, which \<open>dotenv\<close> removes: the value itself is then not found.\<close>

theorem quoted_value_missed:
  "check_secrets [''.env'' \<mapsto> ''API_KEY='' @ [CHR 0x22] @ ''correct-horse'' @ [CHR 0x22], ''config.js'' \<mapsto> ''correct-horse''] [''config.js''] = []
   \<and> check_secrets [''.env'' \<mapsto> ''API_KEY=correct-horse'', ''config.js'' \<mapsto> ''correct-horse''] [''config.js''] = [''config.js: value of API_KEY from .env'']"
  by code_simp

section \<open>\<open>scripts/create-admin.js\<close>\<close>

text \<open>\<open>main\<close> with the two variables of the environment, unset or not; \<open>None\<close> is the throw for missing or invalid credentials.\<close>

definition credentials :: "string option \<Rightarrow> string option \<Rightarrow> json" where
  "credentials email password =
     JObj ((case email of Some e \<Rightarrow> [(''email'', JStr e)] | None \<Rightarrow> []) @ (case password of Some p \<Rightarrow> [(''password'', JStr p)] | None \<Rightarrow> []))"

definition create_admin_main ::
    "(string \<Rightarrow> bool) \<Rightarrow> (string \<Rightarrow> string) \<Rightarrow> oid \<Rightarrow> string option \<Rightarrow> string option \<Rightarrow> account list \<Rightarrow> account list result option" where
  "create_admin_main is_email hash new_id email password us =
     map_option (\<lambda>(e, p). create_admin hash new_id e p us) (registerSchema is_email (credentials email password))"

definition script_accepts :: "(string \<Rightarrow> bool) \<Rightarrow> string option \<Rightarrow> string option \<Rightarrow> bool" where
  "script_accepts is_email email password \<longleftrightarrow>
     (\<exists>e p. email = Some e \<and> password = Some p \<and> is_email (toLowerCase (trim e)) \<and> length (toLowerCase (trim e)) \<le> 254
        \<and> 8 \<le> length p \<and> byteLength p \<le> BCRYPT_MAX_BYTES)"

lemma create_admin_main_iff: "create_admin_main is_email hash new_id email password us \<noteq> None \<longleftrightarrow> script_accepts is_email email password"
  by (auto simp: create_admin_main_def script_accepts_def registerSchema_def credentials_def parse_object_def required_def field_def
      email_schema_def parse_string_def Let_def split: option.splits bind_splits if_splits)

text \<open>The address that the schema returns is not changed by the normalisation of the model \<open>User\<close>.\<close>

lemma lower_char: "is_space (to_lower_char c) = is_space c" "to_lower_char (to_lower_char c) = to_lower_char c"
proof -
  have "of_char (char_of (of_char c + 32 :: nat) :: char) = (of_char c + 32 :: nat)"
    if "(of_char c :: nat) \<in> {65 .. 90} \<or> (of_char c :: nat) \<in> {192 .. 222} \<and> (of_char c :: nat) \<noteq> 215"
    using that by auto
  then show "is_space (to_lower_char c) = is_space c" "to_lower_char (to_lower_char c) = to_lower_char c"
    unfolding to_lower_char_def is_space_def Let_def by auto
qed

lemma trim_lower: "trim (toLowerCase s) = toLowerCase (trim s)"
proof -
  have "is_space \<circ> to_lower_char = is_space" by (simp add: fun_eq_iff lower_char)
  then show ?thesis by (simp add: trim_def toLowerCase_def dropWhile_map rev_map)
qed

lemma trim_idem: "trim (trim s) = trim s"
proof (cases "dropWhile is_space s")
  case (Cons c d)
  then have c: "\<not> is_space c" using hd_dropWhile[of is_space s] by simp
  then have "\<exists>x. dropWhile is_space (rev (c # d)) = x @ [c]" by (cases "\<exists>y \<in> set (rev d). \<not> is_space y") (auto simp: dropWhile_append)
  then obtain x where x: "dropWhile is_space (rev (c # d)) = x @ [c]" ..
  then have t: "trim s = c # rev x" unfolding trim_def Cons by simp
  have "dropWhile is_space (x @ [c]) = x @ [c]" using x dropWhile_idem[of is_space "rev (c # d)"] by metis
  then show ?thesis unfolding t using c by (simp add: trim_def)
next
  case Nil
  then show ?thesis unfolding trim_def Nil by simp
qed

lemma normal_email: "toLowerCase (trim (toLowerCase (trim s))) = toLowerCase (trim s)"
  by (simp add: trim_lower trim_idem) (simp add: toLowerCase_def lower_char)

lemma register_email:
  "registerSchema is_email (credentials email password) = Some (e, p) \<Longrightarrow> toLowerCase (trim e) = e"
  by (auto simp: registerSchema_def credentials_def parse_object_def required_def field_def email_schema_def Let_def normal_email
      split: option.splits bind_splits if_splits)

lemma update_where_only:
  assumes "distinct (map ac_id us)" "u \<in> set us"
  shows "update_where (\<lambda>v. ac_id v = ac_id u) f us = map (\<lambda>v. if v = u then f v else v) us"
  using assms by (auto simp: update_where_def distinct_map inj_on_def)

text \<open>With valid credentials the script succeeds: there is an admin with that address, who keeps the password of an existing account,
  and nobody else is touched.\<close>

theorem create_admin_promotes:
  assumes "registerSchema is_email (credentials email password) = Some (e, p)" "ids_distinct us"
  shows "\<exists>us' u. create_admin_main is_email hash new_id email password us = Some (Inr us')
    \<and> u \<in> set us' \<and> ac_email u = e \<and> ac_role u = ADMIN
    \<and> ac_passwordHash u = (case List.find (\<lambda>v. ac_email v = e) us of Some v \<Rightarrow> ac_passwordHash v | None \<Rightarrow> hash p)
    \<and> filter (\<lambda>v. ac_email v \<noteq> e) us' = filter (\<lambda>v. ac_email v \<noteq> e) us"
proof (cases "List.find (\<lambda>v. ac_email v = e) us")
  case None
  then have "\<not> (\<exists>u \<in> set us. ac_email u = e)" by (simp add: find_None_iff)
  then show ?thesis using None assms(1) register_email[OF assms(1)]
    by (auto simp: create_admin_main_def create_admin_def create_account_def Let_def)
next
  case (Some v)
  then have v: "v \<in> set us" "ac_email v = e" by (auto simp: find_Some_iff)
  let ?f = "\<lambda>v. v\<lparr>ac_role := ADMIN, ac_tokenVersion := ac_tokenVersion v + 1\<rparr>"
  let ?us = "map (\<lambda>w. if w = v then ?f w else w) us"
  have "create_admin_main is_email hash new_id email password us = Some (Inr ?us)"
    using Some assms(1,2) v update_where_only[of us v ?f] by (simp add: create_admin_main_def create_admin_def ids_distinct_def)
  moreover have "?f v \<in> set ?us" using v(1) by force
  moreover have "filter (\<lambda>w. ac_email w \<noteq> e) ?us = filter (\<lambda>w. ac_email w \<noteq> e) us"
    using v(2) by (induction us) auto
  ultimately show ?thesis using Some v(2) by (intro exI[of _ ?us] exI[of _ "?f v"]) simp
qed

end
