(* ===== verification/Spec2Isabelle.thy ===== *)
theory Spec2Isabelle
  imports Wf_States Wf_Dag_Correct Wf_Engine_Reports Wf_Recovery Wf_Outbox Wf_Scheduler Wf_Routes Wf_Rate_Limit Wf_Providers
    Wf_Rag_Correct Wf_Ai Wf_Handlers_Correct Wf_Observability Wf_Config Wf_Api_Correct Wf_Analytics Wf_Audit Wf_Processes Wf_Vectors Wf_Scripts
begin

text \<open>
A verification library for a distributed workflow engine: an HTTP API stores workflow definitions (graphs
  of tasks) and starts runs of them; worker processes take tasks from a Redis queue, run their handlers and
  report to the engine, which keeps the truth in MongoDB; a reconciler, a cron scheduler, an outbox relay to
  Kafka and an analytics consumer complete it, and some task types talk to language models. The theories follow the
  directories of \<open>src/\<close>; each definition keeps the name of the function or schema it translates.

  \<^bold>\<open>How code becomes definitions.\<close> A MongoDB collection is a list of records in the order of insertion, and a
  unique index is a duplicate-key error. A transaction is one function on the database, and so is every single
  conditional update outside one: these are the atomic steps. What happens between two steps (other processes, crashes) is
  an interleaving, so the properties speak of all reachable databases of a transition system whose steps are
  taken by any process in any order. Transactions are taken to be serialisable; MongoDB promises
  snapshot isolation, and the one place where the difference shows is recorded among the findings of the manifest. A
  Redis script is one function on its keys. Errors are values of a sum type (\<open>Inl\<close> is a throw), and a promise is
  what it settles to, and when. Clocks, random choices, fresh ids, hashes, the text of numbers, \<open>JSON.parse\<close>,
  language models, embeddings, the cron library, bcrypt and jsonwebtoken are arguments.

  \<^bold>\<open>Foundations.\<close> \<open>Wf_Prelude\<close> has the shared types, the error monad, the collection primitives and generic lemmas;
  \<open>Wf_Text\<close> the string operations; \<open>Wf_Schema\<close> the validation combinators. The interfaces are locales: in \<open>Wf_System\<close>
  \<open>invariant_system\<close> (invariants by induction over reachable states), interpreted for the engine, the queue, the relay, the
  accounts, the library of workflows, the vector store and the processes, \<open>simulation\<close>, interpreted between the layers of the engine, and
  \<open>separation\<close> (a user's view is unaffected by what others do), interpreted for the knowledge base; \<open>mutex\<close> in \<open>Wf_Lock\<close>,
  \<open>work_queue\<close> in \<open>Wf_Queue\<close>, and \<open>enqueue_only\<close> with \<open>enqueue_discipline\<close> in \<open>Wf_Worker_Correct\<close>, which say what the
  scheduler and the relay expect of a lock, the workers of a queue, and the queue of the engine. \<open>graceful_process\<close> in
  \<open>Wf_Processes\<close> is what the two long-running entry points share.

  \<^bold>\<open>The engine.\<close> \<open>Wf_States\<close> is \<open>workflow/states.js\<close>; \<open>Wf_Dag\<close> is \<open>workflow/dag.js\<close>, which
  \<open>Wf_Dag_Correct\<close> proves to accept exactly the acyclic graphs and to order them topologically, level
  by level (the depth-first search gets the number of tasks plus one as fuel, which suffices). \<open>Wf_Retry\<close> is
  \<open>workers/retry.js\<close>, \<open>Wf_Store\<close> the documents and \<open>repositories/task.repository.js\<close>, \<open>Wf_Engine\<close> every operation of
  \<open>workflow/engine.js\<close>. The proof goes through three layers: \<open>Wf_Run_Spec\<close> says what one run may do, without counters, leases or
  documents; \<open>Wf_Counter_Run\<close> adds the counters \<open>pendingTasks\<close> and \<open>remainingDeps\<close> and shows that they decide the
  same; \<open>Wf_Engine_Db\<close> and \<open>Wf_Engine_Steps\<close> show that each transaction is one step of one run of the
  database. \<open>Wf_Engine_Correct\<close> draws the consequences (refinement, order of dependencies, exact counters, no stuck run, outcomes),
  \<open>Wf_Engine_Reports\<close> the behaviour of reports and claims under lease tokens, \<open>Wf_Engine_Tasks\<close> and
  \<open>Wf_Engine_Keys\<close> what stays monotone or fixed. \<open>Wf_Approvals\<close> follows a task that waits for a person through the engine, and
  \<open>Wf_Audit\<close> shows that the outbox is an exact record of what happened, and that the checks of the operators' drill
  (\<open>scripts/chaos.js\<close>) hold of every reachable database.

  \<^bold>\<open>Workers.\<close> \<open>Wf_Queue\<close> is \<open>queues/taskQueue.js\<close>, \<open>Wf_Lock\<close> is \<open>queues/lock.js\<close>. \<open>Wf_Worker\<close> composes engine, queue and the loops of
  \<open>workers/queueWorker.js\<close> and \<open>workers/runTask.js\<close> into one system in which every loop may die between two
  awaits; \<open>Wf_Worker_Correct\<close> shows that a task leaves the queue only when its result is in the database,
  and \<open>Wf_Recovery\<close> that a pass of the reconciler rebuilds a lost queue. \<open>Wf_Handlers\<close> has the built-in handlers of
  \<open>handlers/index.js\<close>, and \<open>Wf_Handlers_Correct\<close> what becomes of a task of each built-in type. \<open>Wf_Registry\<close> is
  \<open>workers/registry.js\<close>, a failure detector, and \<open>Wf_Worker_Life\<close> the process around the loops: start, back-off,
  heartbeats and a graceful stop that ends after at most three moves of each loop. \<open>Wf_Processes\<close> has the entry points \<open>server.js\<close>,
  \<open>worker.js\<close> and \<open>consumers/analytics.js\<close>: in which order they connect, what a signal does at each moment, and in which order they
  close what they opened.

  \<^bold>\<open>Events and schedules.\<close> \<open>Wf_Outbox\<close> is \<open>events/relay.js\<close> with \<open>events/analyticsProcessor.js\<close>: at-least-once delivery and
  a consumer that counts once. \<open>Wf_Scheduler\<close> is \<open>scheduler/scheduler.js\<close>: one run per slot, whatever leaders overlap.

  \<^bold>\<open>The API.\<close> \<open>Wf_Access\<close> is the role table and the ownership filter, \<open>Wf_Auth\<close> tokens and accounts, \<open>Wf_Services\<close> the
  execution and workflow services with the approval routes, \<open>Wf_Routes\<close> the request schemas and the guarded routes,
  \<open>Wf_Rate_Limit\<close> the sliding-window limiter. \<open>Wf_Api\<close> puts them together as \<open>app.js\<close> does, with the remaining schemas, routes,
  controllers and the error handler, into one function from a request and the state of the server to a response and a state;
  \<open>Wf_Api_Correct\<close> shows that it keeps callers to their own data. \<open>Wf_Analytics\<close> is \<open>services/analytics.service.js\<close>, \<open>Wf_Health\<close> the
  probes, and \<open>Wf_Config\<close> the environment variables of \<open>config/env.js\<close>, one definition each, with the timings derived from them.

  \<^bold>\<open>Language models.\<close> \<open>Wf_Providers\<close> has the circuit breaker and the fallback chain; \<open>Wf_Provider_Stack\<close> the HTTP client, the mock, the
  stack built from the configuration and the observer of \<open>ai/observability.js\<close>, which \<open>Wf_Observability\<close> shows to leave the work
  unchanged; \<open>Wf_Llm\<close> the wrapping of
  untrusted text and the validated, repaired output of \<open>ai/structured.js\<close> (recursion on the attempts left); \<open>Wf_Rag\<close> and
  \<open>Wf_Rag_Correct\<close> the knowledge base of \<open>ai/rag\<close>; \<open>Wf_Vectors\<close> how its collections come into being in Qdrant, and the reference similarity; \<open>Wf_Calculator\<close> the expression parser (its call depth is a fuel of \<open>7 * n + 6\<close> for
  \<open>n\<close> characters, proved sufficient); \<open>Wf_Agent\<close> the tools and the agent's loop (recursion on the
  iterations left); \<open>Wf_Ai\<close> classifier, router and the handlers of \<open>handlers/ai.js\<close>.

  \<^bold>\<open>Scripts.\<close> \<open>Wf_Scripts\<close> is \<open>scripts/check-secrets.js\<close>, with a matcher for its regular expressions that is proved
  to find exactly the words of a pattern, and \<open>scripts/create-admin.js\<close>.

  \<^bold>\<open>Not modelled.\<close> In the entry points, the construction of the objects that are passed around (the theories above take them as
  arguments) and the options of the clients of MongoDB, Redis, Kafka and Qdrant. Logging and the documentation pages, which only call
  libraries; bcrypt, a parameter; and of the drill \<open>scripts/chaos.js\<close> all but its checks, since it starts and kills processes
  and drives the API from outside.
\<close>

end
